(* ===== verification/Prelude.thy ===== *)
theory Prelude
  imports
    Complex_Main
    "HOL-Library.AList"
    "HOL-Library.Char_ord"
    "HOL-Library.List_Lexorder"
    "HOL-Library.Product_Lexorder"
begin

text \<open>
  Shared vocabulary of the development.

  \<^item> Python's built-in string operations used by the code (\<open>strip\<close>, \<open>lower\<close>).  A string is a
    list of \<open>char\<close>; a \<open>char\<close> stands for the code point of the same number, so these
    definitions are exact for code points 0 to 255.
  \<^item> Python's stable \<open>sorted\<close> with a key, also with \<open>reverse=True\<close>, and \<open>min\<close> with a key.
  \<^item> A Python \<open>dict\<close> whose iteration order matters is an association list with distinct keys
    in insertion order: assignment is \<open>AList.update\<close> (in place, or at the end for a new
    key) and removal is \<open>AList.delete\<close>.
  \<^item> The order in which Python iterates a set is unspecified: definitions that depend on it
    take the order as a parameter, and \<open>set_iteration\<close> states all that is known about it.
  \<^item> \<open>inv_machine\<close> is the interface of every component that is a state machine: a step
    function, the guard under which its callers take a step, and an invariant.
\<close>

named_theorems dict_simps "lookup, update and removal in insertion ordered dictionaries"

section \<open>Strings\<close>

definition py_is_space :: "char \<Rightarrow> bool" where
  "py_is_space c = (let n = (of_char c :: nat) in
     (9 \<le> n \<and> n \<le> 13) \<or> (28 \<le> n \<and> n \<le> 32) \<or> n = 133 \<or> n = 160)"

definition py_strip :: "string \<Rightarrow> string" where
  "py_strip s = rev (dropWhile py_is_space (rev (dropWhile py_is_space s)))"

definition py_lower_char :: "char \<Rightarrow> char" where
  "py_lower_char c = (let n = (of_char c :: nat) in
     if (65 \<le> n \<and> n \<le> 90) \<or> (192 \<le> n \<and> n \<le> 222 \<and> n \<noteq> 215)
     then char_of (n + 32) else c)"

definition py_lower :: "string \<Rightarrow> string" where
  "py_lower s = map py_lower_char s"

lemma py_strip_Nil [simp]: "py_strip [] = []"
  by (simp add: py_strip_def)

lemma py_lower_Nil [simp]: "py_lower [] = []"
  by (simp add: py_lower_def)

lemma dropWhile_hd_id: "(xs \<noteq> [] \<longrightarrow> \<not> P (hd xs)) \<Longrightarrow> dropWhile P xs = xs"
  by (cases xs) auto

lemma py_strip_no_space_ends:
  "py_strip s \<noteq> [] \<Longrightarrow>
   \<not> py_is_space (hd (py_strip s)) \<and> \<not> py_is_space (last (py_strip s))"
proof -
  let ?t = "dropWhile py_is_space s"
  let ?u = "dropWhile py_is_space (rev ?t)"
  assume ne: "py_strip s \<noteq> []"
  then have u: "?u \<noteq> []" by (simp add: py_strip_def)
  obtain p where p: "rev ?t = p @ ?u"
    by (metis takeWhile_dropWhile_id)
  then have t: "?t = rev ?u @ rev p"
    by (metis rev_append rev_rev_ident)
  have "hd ?t = hd (rev ?u)"
    using t u by (metis hd_append2 rev_is_Nil_conv)
  moreover have "?t \<noteq> []" using u by (cases "?t = []") auto
  then have "\<not> py_is_space (hd ?t)" by (rule hd_dropWhile)
  moreover have "\<not> py_is_space (hd ?u)" using u by (rule hd_dropWhile)
  ultimately show ?thesis
    using u by (simp add: py_strip_def last_rev)
qed

lemma py_strip_idem [simp]: "py_strip (py_strip s) = py_strip s"
proof (cases "py_strip s = []")
  case True
  then show ?thesis by simp
next
  case False
  note ends = py_strip_no_space_ends [OF False]
  have "dropWhile py_is_space (py_strip s) = py_strip s"
    using ends by (intro dropWhile_hd_id) simp
  moreover have "dropWhile py_is_space (rev (py_strip s)) = rev (py_strip s)"
    using ends False by (intro dropWhile_hd_id) (simp add: hd_rev)
  ultimately show ?thesis by (simp add: py_strip_def [of "py_strip s"])
qed

lemma py_lower_char_idem [simp]: "py_lower_char (py_lower_char c) = py_lower_char c"
  using nat_of_char_less_256 [of c]
  by (auto simp: py_lower_char_def Let_def)

lemma py_lower_idem [simp]: "py_lower (py_lower s) = py_lower s"
  by (simp add: py_lower_def o_def)

section \<open>Sorting and minimum with a key\<close>

definition sorted_desc :: "('a \<Rightarrow> 'b::linorder) \<Rightarrow> 'a list \<Rightarrow> 'a list" where
  "sorted_desc k xs = rev (sort_key k (rev xs))"

lemma set_sorted_desc [simp]: "set (sorted_desc k xs) = set xs"
  by (simp add: sorted_desc_def)

fun py_min_from :: "('a \<Rightarrow> 'b::linorder) \<Rightarrow> 'a \<Rightarrow> 'a list \<Rightarrow> 'a" where
  "py_min_from k m [] = m"
| "py_min_from k m (x # xs) = py_min_from k (if k x < k m then x else m) xs"

text \<open>\<open>min(xs, key=k)\<close>: the first element with the least key; \<open>None\<close> stands for the
  \<open>ValueError\<close> of an empty iterable.\<close>

definition py_min_key :: "('a \<Rightarrow> 'b::linorder) \<Rightarrow> 'a list \<Rightarrow> 'a option" where
  "py_min_key k xs = (case xs of [] \<Rightarrow> None | x # ys \<Rightarrow> Some (py_min_from k x ys))"

lemma py_min_from_in: "py_min_from k m xs \<in> insert m (set xs)"
  by (induction xs arbitrary: m) auto

lemma py_min_from_le: "x \<in> insert m (set xs) \<Longrightarrow> k (py_min_from k m xs) \<le> k x"
proof (induction xs arbitrary: m x)
  case (Cons y ys)
  have "k (py_min_from k (if k y < k m then y else m) ys) \<le> min (k y) (k m)"
    using Cons.IH [of "if k y < k m then y else m" "if k y < k m then y else m"]
    by (auto simp: min_def)
  with Cons show ?case by (fastforce simp: min_le_iff_disj)
qed simp

lemma py_min_key_Some:
  "py_min_key k xs = Some m \<Longrightarrow> m \<in> set xs \<and> (\<forall>x\<in>set xs. k m \<le> k x)"
  using py_min_from_in [of k] py_min_from_le [of _ _ _ k]
  by (fastforce simp: py_min_key_def split: list.splits)

lemma py_min_key_None [simp]: "py_min_key k xs = None \<longleftrightarrow> xs = []"
  by (simp add: py_min_key_def split: list.split)

section \<open>Insertion ordered dictionaries\<close>

lemma map_of_AList_update [dict_simps, simp]:
  "map_of (AList.update k v d) = (map_of d)(k \<mapsto> v)"
  by (simp add: update_conv')

lemma map_of_AList_delete [dict_simps, simp]:
  "map_of (AList.delete k d) = (map_of d)(k := None)"
  by (simp add: delete_conv')

lemma keys_AList_update [dict_simps, simp]:
  "fst ` set (AList.update k v d) = insert k (fst ` set d)"
  by (simp add: dom_update)

lemma keys_AList_delete [dict_simps, simp]:
  "fst ` set (AList.delete k d) = fst ` set d - {k}"
  by (auto simp: AList.delete_eq)

lemma in_set_AList_update:
  "distinct (map fst d) \<Longrightarrow>
   p \<in> set (AList.update k v d) \<longleftrightarrow> p = (k, v) \<or> (p \<in> set d \<and> fst p \<noteq> k)"
proof -
  assume d: "distinct (map fst d)"
  have "p \<in> set (AList.update k v d) \<longleftrightarrow> map_of (AList.update k v d) (fst p) = Some (snd p)"
    using d by (metis distinct_update map_of_eq_Some_iff prod.collapse)
  also have "\<dots> \<longleftrightarrow> p = (k, v) \<or> (p \<in> set d \<and> fst p \<noteq> k)"
    using d by (cases p) (auto split: if_splits)
  finally show ?thesis .
qed

lemma in_set_AList_delete: "p \<in> set (AList.delete k d) \<longleftrightarrow> p \<in> set d \<and> fst p \<noteq> k"
  by (auto simp: AList.delete_eq)

lemma distinct_AList_delete [simp]:
  "distinct (map fst d) \<Longrightarrow> distinct (map fst (AList.delete k d))"
  by (rule distinct_delete)

lemma distinct_AList_update [simp]:
  "distinct (map fst d) \<Longrightarrow> distinct (map fst (AList.update k v d))"
  by (rule distinct_update)

definition dict_without :: "'k list \<Rightarrow> ('k \<times> 'v) list \<Rightarrow> ('k \<times> 'v) list" where
  "dict_without ks d = fold AList.delete ks d"

lemma dict_without_filter: "dict_without ks d = filter (\<lambda>p. fst p \<notin> set ks) d"
  unfolding dict_without_def
  by (induction ks arbitrary: d)
     (auto simp: AList.delete_eq filter_filter case_prod_beta intro!: filter_cong)

lemma set_dict_without: "set (dict_without ks d) = {p \<in> set d. fst p \<notin> set ks}"
  by (auto simp: dict_without_filter)

lemma distinct_dict_without [simp]:
  "distinct (map fst d) \<Longrightarrow> distinct (map fst (dict_without ks d))"
  by (simp add: dict_without_filter distinct_map_filter)

lemma in_map_filter: "y \<in> set (List.map_filter f xs) \<longleftrightarrow> (\<exists>x\<in>set xs. f x = Some y)"
  by (force simp: List.map_filter_def)

lemma map_filter_keys:
  assumes "\<And>p q. f p = Some q \<Longrightarrow> fst q = fst p"
  shows "fst ` set (List.map_filter f xs) \<subseteq> fst ` set xs"
proof
  fix k assume "k \<in> fst ` set (List.map_filter f xs)"
  then obtain p q where "p \<in> set xs" "f p = Some q" "k = fst q"
    by (auto simp: in_map_filter)
  with assms [of p q] show "k \<in> fst ` set xs" by auto
qed

lemma map_filter_distinct_keys:
  assumes same: "\<And>p q. f p = Some q \<Longrightarrow> fst q = fst p"
  shows "distinct (map fst xs) \<Longrightarrow> distinct (map fst (List.map_filter f xs))"
proof (induction xs)
  case (Cons p xs)
  have "fst p \<notin> fst ` set (List.map_filter f xs)"
    using Cons.prems map_filter_keys [of f xs, OF same] by auto
  with Cons same [of p] show ?case
    by (cases "f p") (simp_all add: List.map_filter_simps)
qed (simp add: List.map_filter_simps)

section \<open>Iterating a set\<close>

locale set_iteration =
  fixes it :: "'a set \<Rightarrow> 'a list"
  assumes set_it: "finite S \<Longrightarrow> set (it S) = S"
    and distinct_it: "finite S \<Longrightarrow> distinct (it S)"
begin

lemma it_empty_iff: "finite S \<Longrightarrow> it S = [] \<longleftrightarrow> S = {}"
  using set_it by fastforce

lemma length_it: "finite S \<Longrightarrow> length (it S) = card S"
  by (metis distinct_card distinct_it set_it)

lemma find_it_None: "finite S \<Longrightarrow> find P (it S) = None \<longleftrightarrow> (\<forall>x\<in>S. \<not> P x)"
  by (auto simp: find_None_iff set_it)

lemma find_it_Some: "finite S \<Longrightarrow> find P (it S) = Some x \<Longrightarrow> x \<in> S \<and> P x"
  by (metis find_Some_iff nth_mem set_it)

end

interpretation sorted_iteration: set_iteration "sorted_list_of_set :: 'a::linorder set \<Rightarrow> 'a list"
  by unfold_locales simp_all

section \<open>State machines\<close>

fun run_steps :: "('s \<Rightarrow> 'e \<Rightarrow> 's) \<Rightarrow> 's \<Rightarrow> 'e list \<Rightarrow> 's" where
  "run_steps step s [] = s"
| "run_steps step s (e # es) = run_steps step (step s e) es"

fun guarded_run :: "('s \<Rightarrow> 'e \<Rightarrow> bool) \<Rightarrow> ('s \<Rightarrow> 'e \<Rightarrow> 's) \<Rightarrow> 's \<Rightarrow> 'e list \<Rightarrow> bool" where
  "guarded_run guard step s [] = True"
| "guarded_run guard step s (e # es) = (guard s e \<and> guarded_run guard step (step s e) es)"

lemma run_steps_append [simp]:
  "run_steps step s (es @ fs) = run_steps step (run_steps step s es) fs"
  by (induction es arbitrary: s) auto

lemma guarded_run_append [simp]:
  "guarded_run guard step s (es @ fs)
    \<longleftrightarrow> guarded_run guard step s es \<and> guarded_run guard step (run_steps step s es) fs"
  by (induction es arbitrary: s) auto

locale inv_machine =
  fixes init :: 's
    and guard :: "'s \<Rightarrow> 'e \<Rightarrow> bool"
    and step :: "'s \<Rightarrow> 'e \<Rightarrow> 's"
    and inv :: "'s \<Rightarrow> bool"
  assumes inv_init: "inv init"
    and inv_step: "inv s \<Longrightarrow> guard s e \<Longrightarrow> inv (step s e)"
begin

lemma inv_run_from: "inv s \<Longrightarrow> guarded_run guard step s es \<Longrightarrow> inv (run_steps step s es)"
  by (induction es arbitrary: s) (auto intro: inv_step)

lemma inv_run: "guarded_run guard step init es \<Longrightarrow> inv (run_steps step init es)"
  by (rule inv_run_from [OF inv_init])

end

end
