(* ===== verification/Combo_Names.thy ===== *)
theory Combo_Names
  imports Prelude
begin

text \<open>
  Normalised input names (\<open>keymasq/common/combos.py\<close>, and the gamepad button aliases of
  \<open>keymasq/common/devices.py\<close>): the left and right modifier keys map to one generic
  name, the positional gamepad names replace the lettered ones, and the wheel directions are
  "pulse" inputs, which are pressed and never held.  An \<open>object\<close> argument of the source is
  modelled as the string its \<open>str(x or "")\<close> gives.
\<close>

definition GENERIC_MODIFIER_MAP :: "(string \<times> string) list" where
  "GENERIC_MODIFIER_MAP =
    [(''key_leftctrl'', ''ctrl''), (''key_rightctrl'', ''ctrl''),
     (''key_leftshift'', ''shift''), (''key_rightshift'', ''shift''),
     (''key_leftalt'', ''alt''), (''key_rightalt'', ''alt''),
     (''key_leftmeta'', ''meta''), (''key_rightmeta'', ''meta'')]"

definition GAMEPAD_BUTTON_ALIASES :: "(string \<times> string) list" where
  "GAMEPAD_BUTTON_ALIASES =
    [(''btn_a'', ''btn_south''), (''btn_b'', ''btn_east''),
     (''btn_x'', ''btn_north''), (''btn_y'', ''btn_west'')]"

definition COMBO_PULSE_EVDEVS :: "string set" where
  "COMBO_PULSE_EVDEVS = {''wheel_up'', ''wheel_down'', ''wheel_left'', ''wheel_right''}"

definition EMERGENCY_CANCEL_COMBO_EVDEV_SET :: "string set" where
  "EMERGENCY_CANCEL_COMBO_EVDEV_SET = {''ctrl'', ''alt'', ''key_esc''}"

definition GENERIC_MODIFIERS :: "string set" where
  "GENERIC_MODIFIERS = snd ` set GENERIC_MODIFIER_MAP"

definition dict_get_default :: "('k \<times> 'v) list \<Rightarrow> 'k \<Rightarrow> 'v \<Rightarrow> 'v" where
  "dict_get_default d k v = (case map_of d k of Some x \<Rightarrow> x | None \<Rightarrow> v)"

definition canonical_gamepad_button_name :: "string \<Rightarrow> string" where
  "canonical_gamepad_button_name evdev_name =
    (let label = py_lower (py_strip evdev_name)
     in dict_get_default GAMEPAD_BUTTON_ALIASES label label)"

definition normalize_combo_evdev :: "string \<Rightarrow> string" where
  "normalize_combo_evdev evdev_name =
    (let token = py_lower (py_strip evdev_name)
     in if token = [] then []
        else canonical_gamepad_button_name (dict_get_default GENERIC_MODIFIER_MAP token token))"

definition is_combo_pulse_evdev :: "string \<Rightarrow> bool" where
  "is_combo_pulse_evdev evdev_name =
    (normalize_combo_evdev evdev_name \<in> COMBO_PULSE_EVDEVS)"

definition is_emergency_cancel_combo_evdevs :: "string list \<Rightarrow> bool" where
  "is_emergency_cancel_combo_evdevs evdev_names =
    (set (map normalize_combo_evdev evdev_names) - {[]} = EMERGENCY_CANCEL_COMBO_EVDEV_SET)"

fun restore_keys_loop :: "string list \<Rightarrow> string list \<Rightarrow> string set \<Rightarrow> string list" where
  "restore_keys_loop [] normalized seen = normalized"
| "restore_keys_loop (key # keys) normalized seen =
    (let token = normalize_combo_evdev key
     in if token = [] \<or> token \<in> seen then restore_keys_loop keys normalized seen
        else restore_keys_loop keys (normalized @ [token]) (insert token seen))"

definition normalize_combo_restore_keys :: "string list \<Rightarrow> string list" where
  "normalize_combo_restore_keys keys = restore_keys_loop keys [] {}"

section \<open>Lemmas\<close>

lemma py_is_space_lower [simp]: "py_is_space (py_lower_char c) = py_is_space c"
  using nat_of_char_less_256 [of c]
  by (auto simp: py_is_space_def py_lower_char_def Let_def)

lemma dropWhile_py_lower:
  "dropWhile py_is_space (py_lower s) = py_lower (dropWhile py_is_space s)"
  by (simp add: py_lower_def dropWhile_map o_def)

lemma py_strip_lower [simp]: "py_strip (py_lower s) = py_lower (py_strip s)"
proof -
  have r: "rev (py_lower t) = py_lower (rev t)" for t
    by (simp add: py_lower_def rev_map)
  show ?thesis by (simp add: py_strip_def dropWhile_py_lower r)
qed

lemma dict_get_default_cases:
  "(k, dict_get_default d k k) \<in> set d \<or> (k \<notin> fst ` set d \<and> dict_get_default d k k = k)"
proof (cases "map_of d k")
  case None
  then show ?thesis by (simp add: dict_get_default_def flip: map_of_eq_None_iff)
next
  case (Some v)
  then show ?thesis by (simp add: dict_get_default_def map_of_SomeD)
qed

text \<open>The values of both tables are lower case, stripped, and keys of neither table.\<close>

definition canonical_token :: "string \<Rightarrow> bool" where
  "canonical_token t \<longleftrightarrow>
    py_lower (py_strip t) = t \<and> t \<notin> fst ` set GENERIC_MODIFIER_MAP
    \<and> t \<notin> fst ` set GAMEPAD_BUTTON_ALIASES"

lemma table_values_canonical:
  "v \<in> snd ` set GENERIC_MODIFIER_MAP \<union> snd ` set GAMEPAD_BUTTON_ALIASES \<Longrightarrow>
   canonical_token v \<and> v \<noteq> []"
  by (auto simp: GENERIC_MODIFIER_MAP_def GAMEPAD_BUTTON_ALIASES_def canonical_token_def
      py_lower_def py_strip_def py_is_space_def py_lower_char_def)

lemma canonical_gamepad_fixed: "canonical_token t \<Longrightarrow> canonical_gamepad_button_name t = t"
  using dict_get_default_cases [of t GAMEPAD_BUTTON_ALIASES]
  by (force simp: canonical_gamepad_button_name_def canonical_token_def)

lemma normalize_fixed: "canonical_token t \<Longrightarrow> normalize_combo_evdev t = t"
  using dict_get_default_cases [of t GENERIC_MODIFIER_MAP] canonical_gamepad_fixed [of t]
  by (force simp: normalize_combo_evdev_def canonical_token_def)

lemma normalize_canonical: "canonical_token (normalize_combo_evdev s)"
proof -
  let ?t = "py_lower (py_strip s)"
  let ?m = "dict_get_default GENERIC_MODIFIER_MAP ?t ?t"
  let ?g = "dict_get_default GAMEPAD_BUTTON_ALIASES ?t ?t"
  consider "?t = []" | "?t \<noteq> []" "canonical_token ?m"
    | "?t \<noteq> []" "?m = ?t" "?t \<notin> fst ` set GENERIC_MODIFIER_MAP"
    using dict_get_default_cases [of ?t GENERIC_MODIFIER_MAP] table_values_canonical [of ?m]
    by (force simp: image_iff)
  then show ?thesis
  proof cases
    case 1
    then show ?thesis
      by (simp add: normalize_combo_evdev_def canonical_token_def GENERIC_MODIFIER_MAP_def
          GAMEPAD_BUTTON_ALIASES_def)
  next
    case 2
    then show ?thesis
      by (simp add: normalize_combo_evdev_def canonical_gamepad_fixed Let_def)
  next
    case 3
    have g: "canonical_gamepad_button_name ?t = ?g"
      by (simp add: canonical_gamepad_button_name_def Let_def)
    have "canonical_token ?g"
      using dict_get_default_cases [of ?t GAMEPAD_BUTTON_ALIASES] table_values_canonical [of ?g] 3
      by (force simp: image_iff canonical_token_def)
    with 3 g show ?thesis by (simp add: normalize_combo_evdev_def Let_def)
  qed
qed

lemma restore_keys_loop_append:
  "restore_keys_loop keys normalized seen = normalized @ restore_keys_loop keys [] seen"
proof (induction keys arbitrary: normalized seen)
  case (Cons k ks)
  show ?case
    unfolding restore_keys_loop.simps Let_def
    using Cons.IH [of "normalized @ [normalize_combo_evdev k]"] Cons.IH [of normalized]
      Cons.IH [of "[] @ [normalize_combo_evdev k]"]
    by simp
qed simp

lemma restore_keys_loop_set:
  "set (restore_keys_loop keys [] seen) = normalize_combo_evdev ` set keys - {[]} - seen"
proof (induction keys arbitrary: seen)
  case (Cons k ks)
  let ?t = "normalize_combo_evdev k"
  have "set (restore_keys_loop ks [?t] (insert ?t seen)) =
      insert ?t (set (restore_keys_loop ks [] (insert ?t seen)))"
    by (subst restore_keys_loop_append) simp
  with Cons.IH show ?case by (auto simp: Let_def)
qed simp

lemma restore_keys_loop_distinct: "distinct (restore_keys_loop keys [] seen)"
proof (induction keys arbitrary: seen)
  case (Cons k ks)
  let ?t = "normalize_combo_evdev k"
  have "restore_keys_loop ks [?t] (insert ?t seen) = ?t # restore_keys_loop ks [] (insert ?t seen)"
    by (subst restore_keys_loop_append) simp
  with Cons.IH show ?case by (auto simp: Let_def restore_keys_loop_set)
qed simp

section \<open>Properties\<close>

text \<open>
  Name normalisation is idempotent: a name that went through it once is never changed
  again, whatever mix of case, blanks, left/right modifiers and gamepad letters it started with.
\<close>

theorem normalize_combo_evdev_idem:
  "normalize_combo_evdev (normalize_combo_evdev s) = normalize_combo_evdev s"
  by (rule normalize_fixed [OF normalize_canonical])

text \<open>
  The restore list of a combo has exactly the non-empty normalised names of its input,
  each once.
\<close>

theorem normalize_combo_restore_keys_correct:
  "set (normalize_combo_restore_keys keys) = normalize_combo_evdev ` set keys - {[]} \<and>
   distinct (normalize_combo_restore_keys keys)"
  by (simp add: normalize_combo_restore_keys_def restore_keys_loop_set restore_keys_loop_distinct)

end
