(* ===== verification/Combo_Engine.thy ===== *)
theory Combo_Engine
  imports Combo_Names "HOL-Library.Monad_Syntax"
begin

text \<open>
  The combo matching engine (\<open>keymasq/keymasqd/combo_engine.py\<close>, class \<open>ComboEngine\<close>).

  The action of a combo is opaque to the engine, so the types are polymorphic in it.  Frozen
  dataclasses are datatypes, mutable ones are records; the candidate objects are only reachable
  through the \<open>_candidates\<close> dictionary, so updating an object is updating its entry.
  \<open>_candidates\<close> is an insertion ordered dictionary; dictionaries that are never iterated are
  maps, and Python sets are sets.  Where the code iterates a set, the order is the parameter
  \<open>it\<close> of the definitions.  A clock reading is a rational number of seconds, so the rounding of
  \<open>now + timeout / 1000.0\<close> to a double is not modelled.

  An \<open>option\<close> result is \<open>None\<close> where the code raises \<open>IndexError\<close> or \<open>KeyError\<close>: reading
  \<open>combo.steps[step_index]\<close>, \<open>combo.steps[0]\<close> and \<open>self._candidates[combo_id]\<close>.
\<close>

section \<open>Data\<close>

definition DEFAULT_COMBO_STEP_TIMEOUT_MS :: int where
  "DEFAULT_COMBO_STEP_TIMEOUT_MS = 600"

datatype RuntimeComboBinding =
  RuntimeComboBinding (hardware_id: string) (evdev: string) (source: string)

datatype RuntimeComboStep =
  RuntimeComboStep (bindings: "RuntimeComboBinding list") (timeout_ms: "int option")

record 'a RuntimeCombo =
  combo_id :: string
  combo_name :: string
  steps :: "RuntimeComboStep list"
  combo_action :: "'a option"
  combo_profile_name :: string
  recall_trigger_keys :: bool
  restore_trigger_keys :: "string list"
  match_across_devices :: bool
  release_outputs_on_cancel :: bool

datatype ComboInputEvent =
  ComboInputEvent (event_binding: RuntimeComboBinding) (event_value: int)

datatype ComboSyntheticEvent =
  ComboSyntheticEvent (synthetic_binding: RuntimeComboBinding) (synthetic_value: int)

datatype 'a ComboActionTransition =
  ComboActionTransition
    (transition_combo_id: string) (transition_action: "'a option") (transition_kind: string)
    (trigger_binding: RuntimeComboBinding) (trigger_bindings: "RuntimeComboBinding list")

record 'a ComboDecision =
  consume_current_event :: bool
  passthrough_current_event :: bool
  recall_events :: "ComboSyntheticEvent list"
  action_transition :: "'a ComboActionTransition option"
  extra_action_transitions :: "'a ComboActionTransition list"
  reset_candidates :: bool

record TrackedPress =
  tracked_binding :: RuntimeComboBinding
  press_order :: nat
  passed_through :: bool
  is_pulse :: bool

record 'a ActiveCandidate =
  candidate_combo :: "'a RuntimeCombo"
  step_index :: nat
  tracked_presses :: "TrackedPress list"
  pressed_bindings :: "RuntimeComboBinding set"
  releasing :: bool
  next_step_deadline :: "rat option"
  final_completing_binding :: "RuntimeComboBinding option"
  action_active :: bool

type_synonym binding_parts = "string \<times> string \<times> string"

record 'a ComboEngine =
  engine_combos :: "'a RuntimeCombo list"
  combo_map :: "string \<rightharpoonup> 'a RuntimeCombo"
  combo_order :: "string \<rightharpoonup> nat"
  first_step_binding_index :: "binding_parts \<rightharpoonup> string list"
  candidates :: "(string \<times> 'a ActiveCandidate) list"
  press_counter :: nat
  held_bindings :: "RuntimeComboBinding set"
  held_press_order :: "RuntimeComboBinding \<rightharpoonup> nat"
  held_binding_index :: "binding_parts \<rightharpoonup> RuntimeComboBinding set"
  held_binding_any_source_index :: "(string \<times> string) \<rightharpoonup> RuntimeComboBinding set"
  held_binding_any_hardware_index :: "(string \<times> string) \<rightharpoonup> RuntimeComboBinding set"
  held_binding_any_hardware_any_source_index :: "string \<rightharpoonup> RuntimeComboBinding set"

type_synonym set_order = "RuntimeComboBinding set \<Rightarrow> RuntimeComboBinding list"

definition ComboDecision_default :: "'a ComboDecision" where
  "ComboDecision_default =
    \<lparr> consume_current_event = False, passthrough_current_event = False, recall_events = [],
      action_transition = None, extra_action_transitions = [], reset_candidates = False \<rparr>"

definition new_candidate :: "'a RuntimeCombo \<Rightarrow> 'a ActiveCandidate" where
  "new_candidate combo =
    \<lparr> candidate_combo = combo, step_index = 0, tracked_presses = [], pressed_bindings = {},
      releasing = False, next_step_deadline = None, final_completing_binding = None,
      action_active = False \<rparr>"

definition engine_init :: "'a ComboEngine" where
  "engine_init =
    \<lparr> engine_combos = [], combo_map = Map.empty, combo_order = Map.empty,
      first_step_binding_index = Map.empty, candidates = [], press_counter = 0,
      held_bindings = {}, held_press_order = Map.empty, held_binding_index = Map.empty,
      held_binding_any_source_index = Map.empty, held_binding_any_hardware_index = Map.empty,
      held_binding_any_hardware_any_source_index = Map.empty \<rparr>"

text \<open>The order in which \<open>prime_held_bindings\<close> visits bindings is a total order on them.\<close>

definition binding_sort_key :: "RuntimeComboBinding \<Rightarrow> string \<times> string \<times> string" where
  "binding_sort_key b = (hardware_id b, source b, evdev b)"

instantiation RuntimeComboBinding :: linorder
begin

definition less_eq_RuntimeComboBinding :: "RuntimeComboBinding \<Rightarrow> RuntimeComboBinding \<Rightarrow> bool" where
  "less_eq_RuntimeComboBinding b c = (binding_sort_key b \<le> binding_sort_key c)"

definition less_RuntimeComboBinding :: "RuntimeComboBinding \<Rightarrow> RuntimeComboBinding \<Rightarrow> bool" where
  "less_RuntimeComboBinding b c = (binding_sort_key b < binding_sort_key c)"

instance
proof
  fix b c :: RuntimeComboBinding
  assume "b \<le> c" and "c \<le> b"
  then have "binding_sort_key b = binding_sort_key c"
    unfolding less_eq_RuntimeComboBinding_def by (rule order_antisym)
  then show "b = c" by (simp add: binding_sort_key_def RuntimeComboBinding.expand)
qed (auto simp: less_eq_RuntimeComboBinding_def less_RuntimeComboBinding_def)

end

section \<open>Matching\<close>

definition normalized_binding_parts :: "RuntimeComboBinding \<Rightarrow> binding_parts" where
  "normalized_binding_parts b = (hardware_id b, normalize_combo_evdev (evdev b), source b)"

definition binding_is_modifier :: "RuntimeComboBinding \<Rightarrow> bool" where
  "binding_is_modifier b = (fst (snd (normalized_binding_parts b)) \<in> GENERIC_MODIFIERS)"

definition binding_is_pulse :: "RuntimeComboBinding \<Rightarrow> bool" where
  "binding_is_pulse b = is_combo_pulse_evdev (evdev b)"

definition binding_matches :: "RuntimeComboBinding \<Rightarrow> RuntimeComboBinding \<Rightarrow> bool" where
  "binding_matches expected actual =
    (let (expected_hardware_id, expected_evdev, expected_source) = normalized_binding_parts expected;
         (actual_hardware_id, actual_evdev, actual_source) = normalized_binding_parts actual
     in (expected_hardware_id = [] \<or> expected_hardware_id = actual_hardware_id)
        \<and> expected_evdev = actual_evdev
        \<and> (expected_source = [] \<or> expected_source = actual_source))"

definition step_matches_binding :: "RuntimeComboStep \<Rightarrow> RuntimeComboBinding \<Rightarrow> bool" where
  "step_matches_binding st b = list_ex (\<lambda>step_binding. binding_matches step_binding b) (bindings st)"

definition step_matches_scope :: "RuntimeComboStep \<Rightarrow> RuntimeComboBinding \<Rightarrow> bool" where
  "step_matches_scope st b =
    list_ex (\<lambda>step_binding.
        (hardware_id step_binding = [] \<or> hardware_id step_binding = hardware_id b)
        \<and> (source step_binding = [] \<or> source step_binding = source b)) (bindings st)"

definition binding_in_scope :: "RuntimeComboBinding \<Rightarrow> string \<Rightarrow> string option \<Rightarrow> bool" where
  "binding_in_scope b hw src =
    (if hardware_id b \<noteq> hw then False
     else case src of None \<Rightarrow> True | Some s \<Rightarrow> source b = s)"

definition current_step :: "'a ActiveCandidate \<Rightarrow> RuntimeComboStep option" where
  "current_step c =
    (if step_index c < length (steps (candidate_combo c))
     then Some (steps (candidate_combo c) ! step_index c) else None)"

definition effective_timeout_ms :: "RuntimeComboStep \<Rightarrow> int" where
  "effective_timeout_ms st =
    (case timeout_ms st of None \<Rightarrow> DEFAULT_COMBO_STEP_TIMEOUT_MS | Some t \<Rightarrow> max 1 t)"

definition candidate_matches_scope ::
    "'a ActiveCandidate \<Rightarrow> string \<Rightarrow> string option \<Rightarrow> bool" where
  "candidate_matches_scope c hw src =
    (let bs = pressed_bindings c \<union> set (map tracked_binding (tracked_presses c))
              \<union> (case final_completing_binding c of None \<Rightarrow> {} | Some b \<Rightarrow> {b})
     in \<exists>b\<in>bs. binding_in_scope b hw src)"

section \<open>The held bindings and their indexes\<close>

definition bucket_add :: "'k \<Rightarrow> 'b \<Rightarrow> ('k \<rightharpoonup> 'b set) \<Rightarrow> ('k \<rightharpoonup> 'b set)" where
  "bucket_add k b m = m(k \<mapsto> insert b (case m k of None \<Rightarrow> {} | Some S \<Rightarrow> S))"

definition bucket_discard :: "'k \<Rightarrow> 'b \<Rightarrow> ('k \<rightharpoonup> 'b set) \<Rightarrow> ('k \<rightharpoonup> 'b set)" where
  "bucket_discard k b m =
    (case m k of
       None \<Rightarrow> m
     | Some S \<Rightarrow> (let S' = S - {b} in if S' = {} then m(k := None) else m(k \<mapsto> S')))"

definition held_binding_index_keys ::
    "RuntimeComboBinding \<Rightarrow> binding_parts \<times> (string \<times> string) \<times> (string \<times> string) \<times> string" where
  "held_binding_index_keys b =
    (let (hw, normalized, src) = normalized_binding_parts b
     in ((hw, normalized, src), (hw, normalized), (normalized, src), normalized))"

definition index_held_binding :: "RuntimeComboBinding \<Rightarrow> 'a ComboEngine \<Rightarrow> 'a ComboEngine" where
  "index_held_binding b e =
    (let (specific_key, generic_key, any_hardware_key, any_any_key) = held_binding_index_keys b
     in e\<lparr> held_binding_index := bucket_add specific_key b (held_binding_index e),
           held_binding_any_source_index :=
             bucket_add generic_key b (held_binding_any_source_index e),
           held_binding_any_hardware_index :=
             bucket_add any_hardware_key b (held_binding_any_hardware_index e),
           held_binding_any_hardware_any_source_index :=
             bucket_add any_any_key b (held_binding_any_hardware_any_source_index e) \<rparr>)"

definition deindex_held_binding :: "RuntimeComboBinding \<Rightarrow> 'a ComboEngine \<Rightarrow> 'a ComboEngine" where
  "deindex_held_binding b e =
    (let (specific_key, generic_key, any_hardware_key, any_any_key) = held_binding_index_keys b
     in e\<lparr> held_binding_index := bucket_discard specific_key b (held_binding_index e),
           held_binding_any_source_index :=
             bucket_discard generic_key b (held_binding_any_source_index e),
           held_binding_any_hardware_index :=
             bucket_discard any_hardware_key b (held_binding_any_hardware_index e),
           held_binding_any_hardware_any_source_index :=
             bucket_discard any_any_key b (held_binding_any_hardware_any_source_index e) \<rparr>)"

definition clear_held_indexes :: "'a ComboEngine \<Rightarrow> 'a ComboEngine" where
  "clear_held_indexes e =
    e\<lparr> held_binding_index := Map.empty, held_binding_any_source_index := Map.empty,
       held_binding_any_hardware_index := Map.empty,
       held_binding_any_hardware_any_source_index := Map.empty \<rparr>"

definition rebuild_held_binding_indexes :: "set_order \<Rightarrow> 'a ComboEngine \<Rightarrow> 'a ComboEngine" where
  "rebuild_held_binding_indexes it e =
    fold index_held_binding (it (held_bindings e)) (clear_held_indexes e)"

definition record_held_press :: "RuntimeComboBinding \<Rightarrow> 'a ComboEngine \<Rightarrow> 'a ComboEngine" where
  "record_held_press b e =
    (if b \<in> held_bindings e then e
     else let n = press_counter e + 1
          in index_held_binding b
               (e\<lparr> press_counter := n, held_bindings := insert b (held_bindings e),
                   held_press_order := (held_press_order e)(b \<mapsto> n) \<rparr>))"

definition remove_held_binding :: "RuntimeComboBinding \<Rightarrow> 'a ComboEngine \<Rightarrow> 'a ComboEngine" where
  "remove_held_binding b e =
    (if b \<notin> held_bindings e then e\<lparr>held_press_order := (held_press_order e)(b := None)\<rparr>
     else deindex_held_binding b
            (e\<lparr> held_bindings := held_bindings e - {b},
                held_press_order := (held_press_order e)(b := None) \<rparr>))"

definition prime_held_bindings ::
    "RuntimeComboBinding set \<Rightarrow> 'a ComboEngine \<Rightarrow> 'a ComboEngine" where
  "prime_held_bindings held e = fold record_held_press (sorted_list_of_set held) e"

definition bucket_get :: "('k \<rightharpoonup> 'b set) \<Rightarrow> 'k \<Rightarrow> 'b set" where
  "bucket_get m k = (case m k of None \<Rightarrow> {} | Some S \<Rightarrow> S)"

definition held_candidates_for_binding ::
    "'a ComboEngine \<Rightarrow> RuntimeComboBinding \<Rightarrow> RuntimeComboBinding set" where
  "held_candidates_for_binding e expected =
    (let (hw, normalized, src) = normalized_binding_parts expected
     in if hw \<noteq> [] \<and> src \<noteq> [] then bucket_get (held_binding_index e) (hw, normalized, src)
        else if hw \<noteq> [] then bucket_get (held_binding_any_source_index e) (hw, normalized)
        else if src \<noteq> [] then bucket_get (held_binding_any_hardware_index e) (normalized, src)
        else bucket_get (held_binding_any_hardware_any_source_index e) normalized)"

fun held_bindings_for_bindings ::
    "set_order \<Rightarrow> 'a ComboEngine \<Rightarrow> RuntimeComboBinding option \<Rightarrow> RuntimeComboBinding list \<Rightarrow>
     RuntimeComboBinding set \<Rightarrow> bool \<Rightarrow> RuntimeComboBinding set option" where
  "held_bindings_for_bindings it e current [] matched current_matched = Some matched"
| "held_bindings_for_bindings it e current (expected # rest) matched current_matched =
    (case current of
       Some b \<Rightarrow>
         if \<not> current_matched \<and> binding_matches expected b
         then held_bindings_for_bindings it e current rest (insert b matched) True
         else (case find (\<lambda>h. h \<notin> matched) (it (held_candidates_for_binding e expected)) of
                 None \<Rightarrow> None
               | Some h \<Rightarrow> held_bindings_for_bindings it e current rest (insert h matched) current_matched)
     | None \<Rightarrow>
         (case find (\<lambda>h. h \<notin> matched) (it (held_candidates_for_binding e expected)) of
            None \<Rightarrow> None
          | Some h \<Rightarrow> held_bindings_for_bindings it e current rest (insert h matched) current_matched))"

definition held_bindings_for_step ::
    "set_order \<Rightarrow> 'a ComboEngine \<Rightarrow> RuntimeComboStep \<Rightarrow> RuntimeComboBinding option \<Rightarrow>
     RuntimeComboBinding set option" where
  "held_bindings_for_step it e st current =
    held_bindings_for_bindings it e current (bindings st) {} False"

section \<open>First-step lookup\<close>

fun collect_unseen :: "string list \<Rightarrow> string list \<Rightarrow> string list" where
  "collect_unseen [] combo_ids = combo_ids"
| "collect_unseen (cid # cids) combo_ids =
    collect_unseen cids (if cid \<in> set combo_ids then combo_ids else combo_ids @ [cid])"

definition candidate_first_step_combo_ids ::
    "'a ComboEngine \<Rightarrow> RuntimeComboBinding \<Rightarrow> string list" where
  "candidate_first_step_combo_ids e b =
    (let (hw, normalized, src) = normalized_binding_parts b;
         hardware_keys = hw # (if hw \<noteq> [] then [[]] else []);
         source_keys = src # (if src \<noteq> [] then [[]] else [])
     in fold (\<lambda>key combo_ids.
           collect_unseen (case first_step_binding_index e key of None \<Rightarrow> [] | Some ids \<Rightarrow> ids) combo_ids)
         [(hk, normalized, sk). hk \<leftarrow> hardware_keys, sk \<leftarrow> source_keys] [])"

definition candidate_first_step_combos ::
    "'a ComboEngine \<Rightarrow> RuntimeComboBinding \<Rightarrow> 'a RuntimeCombo list" where
  "candidate_first_step_combos e b =
    List.map_filter (combo_map e) (candidate_first_step_combo_ids e b)"

definition binding_matches_any_first_step :: "'a ComboEngine \<Rightarrow> RuntimeComboBinding \<Rightarrow> bool" where
  "binding_matches_any_first_step e b = (candidate_first_step_combo_ids e b \<noteq> [])"

definition pulse_can_complete_first_step ::
    "'a RuntimeCombo \<Rightarrow> RuntimeComboBinding \<Rightarrow> RuntimeComboBinding set \<Rightarrow> bool" where
  "pulse_can_complete_first_step combo b held =
    (if \<not> binding_is_pulse b then True
     else if length (steps combo) = 1 \<and> length (bindings (steps combo ! 0)) = 1 then True
     else (\<exists>h\<in>held. h \<noteq> b \<and> \<not> binding_is_pulse h))"

section \<open>Configuration\<close>

definition index_first_step_binding ::
    "string \<Rightarrow> RuntimeComboBinding \<Rightarrow> (binding_parts \<rightharpoonup> string list) \<Rightarrow> (binding_parts \<rightharpoonup> string list)" where
  "index_first_step_binding cid b index =
    (let key = normalized_binding_parts b
     in index(key \<mapsto> (case index key of None \<Rightarrow> [] | Some ids \<Rightarrow> ids) @ [cid]))"

fun build_first_step_index ::
    "'a RuntimeCombo list \<Rightarrow> (binding_parts \<rightharpoonup> string list) \<Rightarrow> (binding_parts \<rightharpoonup> string list)" where
  "build_first_step_index [] index = index"
| "build_first_step_index (combo # rest) index =
    (case steps combo of
       [] \<Rightarrow> build_first_step_index rest index
     | st # _ \<Rightarrow> build_first_step_index rest
                  (fold (index_first_step_binding (combo_id combo)) (bindings st) index))"

definition engine_reset :: "'a ComboEngine \<Rightarrow> 'a ComboEngine" where
  "engine_reset e =
    clear_held_indexes
      (e\<lparr> candidates := [], press_counter := 0, held_bindings := {}, held_press_order := Map.empty \<rparr>)"

definition preserve_candidates :: "string set \<Rightarrow> 'a ComboEngine \<Rightarrow> 'a ComboEngine" where
  "preserve_candidates ids e =
    e\<lparr> candidates :=
        List.map_filter (\<lambda>(cid, c).
            if cid \<notin> ids then None
            else case combo_map e cid of
                   None \<Rightarrow> None
                 | Some combo \<Rightarrow> Some (cid, c\<lparr>candidate_combo := combo\<rparr>)) (candidates e) \<rparr>"

definition set_combos ::
    "'a RuntimeCombo list \<Rightarrow> string set option \<Rightarrow> 'a ComboEngine \<Rightarrow> 'a ComboEngine" where
  "set_combos combos preserve_ids e =
    (let e1 = e\<lparr> engine_combos := combos,
                 combo_map := map_of (rev (map (\<lambda>c. (combo_id c, c)) combos)),
                 combo_order := map_of (rev (map (\<lambda>(i, c). (combo_id c, i)) (enumerate 0 combos))),
                 first_step_binding_index := build_first_step_index combos Map.empty \<rparr>
     in case preserve_ids of
          Some ids \<Rightarrow> preserve_candidates ids e1
        | None \<Rightarrow> engine_reset e1)"

definition drop_candidates_for_binding_scope ::
    "set_order \<Rightarrow> string \<Rightarrow> string option \<Rightarrow> 'a ComboEngine \<Rightarrow> string set \<times> 'a ComboEngine" where
  "drop_candidates_for_binding_scope it hw src e =
    (if hw = [] then ({}, e)
     else
       let dropped = filter (\<lambda>p. candidate_matches_scope (snd p) hw src) (candidates e);
           active_combo_ids = set (map fst (filter (\<lambda>p. action_active (snd p)) dropped));
           kept = filter (\<lambda>p. \<not> candidate_matches_scope (snd p) hw src) (candidates e);
           kept_held = {b \<in> held_bindings e. \<not> binding_in_scope b hw src};
           e1 = rebuild_held_binding_indexes it
                  (e\<lparr> candidates := kept, held_bindings := kept_held,
                      held_press_order := held_press_order e |` kept_held \<rparr>)
       in (active_combo_ids,
           if candidates e1 = [] \<and> held_bindings e1 = {} then e1\<lparr>press_counter := 0\<rparr> else e1))"

section \<open>Deadlines\<close>

definition deadlines :: "'a ComboEngine \<Rightarrow> rat list" where
  "deadlines e = List.map_filter (\<lambda>p. next_step_deadline (snd p)) (candidates e)"

definition next_deadline :: "'a ComboEngine \<Rightarrow> rat option" where
  "next_deadline e = (if deadlines e = [] then None else Some (Min (set (deadlines e))))"

definition deadline_passed :: "rat \<Rightarrow> 'a ActiveCandidate \<Rightarrow> bool" where
  "deadline_passed now c = (case next_step_deadline c of None \<Rightarrow> False | Some d \<Rightarrow> d \<le> now)"

definition expire_timeouts :: "rat \<Rightarrow> 'a ComboEngine \<Rightarrow> bool \<times> 'a ComboEngine" where
  "expire_timeouts now e =
    (let expired_ids = map fst (filter (\<lambda>p. deadline_passed now (snd p)) (candidates e))
     in if expired_ids = [] then (False, e)
        else (True, e\<lparr>candidates := dict_without expired_ids (candidates e)\<rparr>))"

section \<open>Candidates\<close>

definition track_press ::
    "RuntimeComboBinding \<Rightarrow> bool \<Rightarrow> nat \<times> 'a ActiveCandidate \<Rightarrow> nat \<times> 'a ActiveCandidate" where
  "track_press b passed nc =
    (let (n, c) = nc
     in if list_ex (\<lambda>t. tracked_binding t = b) (tracked_presses c) then (n, c)
        else
          let n' = n + 1; pulse = binding_is_pulse b
          in (n', c\<lparr> pressed_bindings := (if pulse then pressed_bindings c
                                            else insert b (pressed_bindings c)),
                     next_step_deadline := None,
                     tracked_presses := tracked_presses c @
                       [\<lparr>tracked_binding = b, press_order = n', passed_through = passed,
                         is_pulse = pulse\<rparr>] \<rparr>))"

definition complete_current_step ::
    "RuntimeComboBinding \<Rightarrow> bool \<Rightarrow> bool \<Rightarrow> nat \<times> 'a ActiveCandidate \<Rightarrow> nat \<times> 'a ActiveCandidate" where
  "complete_current_step b is_final passed nc =
    (let (n, c) = (if list_ex (\<lambda>t. tracked_binding t = b) (tracked_presses (snd nc)) then nc
                   else track_press b passed nc);
         c1 = (if \<not> binding_is_pulse b \<and> b \<notin> pressed_bindings c
               then c\<lparr>pressed_bindings := insert b (pressed_bindings c)\<rparr> else c);
         c2 = c1\<lparr> releasing := True, next_step_deadline := None \<rparr>
     in (n, if is_final
            then c2\<lparr> final_completing_binding := Some b, action_active := True \<rparr>
            else c2\<lparr> final_completing_binding := None, action_active := False \<rparr>))"

text \<open>The move to the next step, which the code writes out in both places that advance.\<close>

definition begin_next_step :: "rat \<Rightarrow> 'a ActiveCandidate \<Rightarrow> 'a ActiveCandidate option" where
  "begin_next_step now c =
    (let c1 = c\<lparr> step_index := step_index c + 1, tracked_presses := [], releasing := False,
                 final_completing_binding := None \<rparr>
     in do {
          st \<leftarrow> current_step c1;
          Some (c1\<lparr>next_step_deadline := Some (now + of_int (effective_timeout_ms st) / 1000)\<rparr>)
        })"

definition on_last_step :: "'a ActiveCandidate \<Rightarrow> bool" where
  "on_last_step c = (int (step_index c) \<ge> int (length (steps (candidate_combo c))) - 1)"

definition advance_pulse_completed_step ::
    "rat \<Rightarrow> 'a ActiveCandidate \<Rightarrow> 'a ActiveCandidate option" where
  "advance_pulse_completed_step now c =
    (if action_active c \<or> \<not> releasing c \<or> pressed_bindings c \<noteq> {} then Some c
     else if on_last_step c then Some c
     else begin_next_step now c)"

definition candidate_trigger_bindings :: "'a ActiveCandidate \<Rightarrow> RuntimeComboBinding list" where
  "candidate_trigger_bindings c = map tracked_binding (sort_key press_order (tracked_presses c))"

definition candidate_recall_events :: "'a ActiveCandidate \<Rightarrow> ComboSyntheticEvent list" where
  "candidate_recall_events c =
    map (\<lambda>t. ComboSyntheticEvent (tracked_binding t) 0)
      (sorted_desc press_order
        (filter (\<lambda>t. Some (tracked_binding t) \<noteq> final_completing_binding c
                     \<and> \<not> binding_is_modifier (tracked_binding t) \<and> \<not> is_pulse t)
           (tracked_presses c)))"

definition binding_was_passed_through :: "'a ActiveCandidate \<Rightarrow> RuntimeComboBinding \<Rightarrow> bool" where
  "binding_was_passed_through c b =
    (case find (\<lambda>t. tracked_binding t = b) (tracked_presses c) of
       None \<Rightarrow> False | Some t \<Rightarrow> passed_through t)"

section \<open>Decisions\<close>

fun dedupe_recall_loop ::
    "ComboSyntheticEvent list \<Rightarrow> RuntimeComboBinding set \<Rightarrow> ComboSyntheticEvent list" where
  "dedupe_recall_loop [] seen = []"
| "dedupe_recall_loop (ev # evs) seen =
    (if synthetic_binding ev \<in> seen then dedupe_recall_loop evs seen
     else ev # dedupe_recall_loop evs (insert (synthetic_binding ev) seen))"

definition dedupe_recall_events :: "ComboSyntheticEvent list \<Rightarrow> ComboSyntheticEvent list" where
  "dedupe_recall_events evs = dedupe_recall_loop evs {}"

definition decision_transitions :: "'a ComboDecision \<Rightarrow> 'a ComboActionTransition list" where
  "decision_transitions d =
    (case action_transition d of None \<Rightarrow> [] | Some t \<Rightarrow> [t]) @ extra_action_transitions d"

definition with_transitions ::
    "'a ComboActionTransition list \<Rightarrow> 'a ComboDecision \<Rightarrow> 'a ComboDecision" where
  "with_transitions ts d =
    (case ts of [] \<Rightarrow> d
     | t # rest \<Rightarrow> d\<lparr>action_transition := Some t, extra_action_transitions := rest\<rparr>)"

definition merge_decisions :: "'a ComboDecision list \<Rightarrow> 'a ComboDecision" where
  "merge_decisions ds =
    (let consume = list_ex consume_current_event ds;
         merged = with_transitions (concat (map decision_transitions ds))
           (ComboDecision_default\<lparr>
              consume_current_event := consume,
              passthrough_current_event := list_ex passthrough_current_event ds,
              reset_candidates := list_ex reset_candidates ds,
              recall_events := dedupe_recall_events (concat (map recall_events ds)) \<rparr>)
     in if consume then merged\<lparr>passthrough_current_event := False\<rparr> else merged)"

end
