(* ===== verification/Combo_Events.thy ===== *)
theory Combo_Events
  imports Combo_Engine
begin

text \<open>
  The event handlers of \<open>ComboEngine\<close>: \<open>handle_event\<close> and the private handlers it calls, and
  \<open>would_consume_pulse\<close>.  Every handler returns the decision and the next engine, or \<open>None\<close>
  where the code raises (see \<open>Combo_Engine\<close>); \<open>Combo_Invariant\<close> proves that it never does on
  an engine that its own operations produced.
\<close>

section \<open>Presses that continue a candidate\<close>

fun classify_waiting ::
    "RuntimeComboBinding \<Rightarrow> (string \<times> 'a ActiveCandidate) list \<Rightarrow>
     (string list \<times> string list \<times> string list \<times> string list) option" where
  "classify_waiting b [] = Some ([], [], [], [])"
| "classify_waiting b ((cid, c) # rest) =
    (if b \<in> pressed_bindings c then
       do { (matching, repeated, scoped, scoped_nonmatching) \<leftarrow> classify_waiting b rest;
            Some (matching, cid # repeated, cid # scoped, scoped_nonmatching) }
     else do {
       st \<leftarrow> current_step c;
       (matching, repeated, scoped, scoped_nonmatching) \<leftarrow> classify_waiting b rest;
       if step_matches_binding st b
       then Some (cid # matching, repeated, cid # scoped, scoped_nonmatching)
       else if step_matches_scope st b
       then Some (matching, repeated, cid # scoped, cid # scoped_nonmatching)
       else Some (matching, repeated, scoped, scoped_nonmatching) })"

record 'a press_state =
  ps_engine :: "'a ComboEngine"
  ps_transitions :: "'a ComboActionTransition list"
  ps_recall_events :: "ComboSyntheticEvent list"
  ps_partial_match :: bool
  ps_completed_step :: bool

definition press_transition ::
    "'a ActiveCandidate \<Rightarrow> RuntimeComboBinding \<Rightarrow> 'a ComboActionTransition" where
  "press_transition c b =
    ComboActionTransition (combo_id (candidate_combo c)) (combo_action (candidate_combo c))
      (if binding_is_pulse b then ''pulse'' else ''press'') b (candidate_trigger_bindings c)"

text \<open>
  The end both completing branches share: store the candidate, collect its recall events, emit
  its transition when its action became active, and drop it again after a pulse.
\<close>

definition finish_completed ::
    "string \<Rightarrow> RuntimeComboBinding \<Rightarrow> nat \<times> 'a ActiveCandidate \<Rightarrow> 'a press_state \<Rightarrow> 'a press_state" where
  "finish_completed cid b nc ps =
    (let (n, c) = nc;
         e = (ps_engine ps)\<lparr> press_counter := n,
                             candidates := AList.update cid c (candidates (ps_engine ps)) \<rparr>;
         ps1 = ps\<lparr> ps_engine := e,
                   ps_recall_events := ps_recall_events ps @ candidate_recall_events c \<rparr>
     in if action_active c
        then ps1\<lparr> ps_transitions := ps_transitions ps1 @ [press_transition c b],
                  ps_engine := (if binding_is_pulse b
                                then e\<lparr>candidates := AList.delete cid (candidates e)\<rparr> else e) \<rparr>
        else ps1)"

definition press_matching_candidate ::
    "RuntimeComboBinding \<Rightarrow> rat \<Rightarrow> string \<Rightarrow> 'a press_state \<Rightarrow> 'a press_state option" where
  "press_matching_candidate b now cid ps = do {
     c \<leftarrow> map_of (candidates (ps_engine ps)) cid;
     st \<leftarrow> current_step c;
     if card (pressed_bindings c) + 1 = length (bindings st) then do {
       let (n, c1) = complete_current_step b (on_last_step c) False (press_counter (ps_engine ps), c);
       c2 \<leftarrow> advance_pulse_completed_step now c1;
       Some (finish_completed cid b (n, c2) (ps\<lparr>ps_completed_step := True\<rparr>)) }
     else
       let (n, c1) = (if binding_is_pulse b then (press_counter (ps_engine ps), c)
                      else track_press b True (press_counter (ps_engine ps), c))
       in Some (ps\<lparr> ps_partial_match := True,
                    ps_engine := (ps_engine ps)\<lparr> press_counter := n,
                      candidates := AList.update cid c1 (candidates (ps_engine ps)) \<rparr> \<rparr>) }"

fun press_matching ::
    "RuntimeComboBinding \<Rightarrow> rat \<Rightarrow> string list \<Rightarrow> 'a press_state \<Rightarrow> 'a press_state option" where
  "press_matching b now [] ps = Some ps"
| "press_matching b now (cid # cids) ps =
    do { ps1 \<leftarrow> press_matching_candidate b now cid ps; press_matching b now cids ps1 }"

definition in_combo_order :: "'a ComboEngine \<Rightarrow> string list \<Rightarrow> string list" where
  "in_combo_order e cids =
    sort_key (\<lambda>cid. case combo_order e cid of None \<Rightarrow> 0 | Some i \<Rightarrow> i) cids"

definition press_state_of :: "'a ComboEngine \<Rightarrow> 'a press_state" where
  "press_state_of e =
    \<lparr> ps_engine = e, ps_transitions = [], ps_recall_events = [], ps_partial_match = False,
      ps_completed_step = False \<rparr>"

definition handle_waiting_candidate_press ::
    "RuntimeComboBinding \<Rightarrow> rat \<Rightarrow> 'a ComboEngine \<Rightarrow> ('a ComboDecision \<times> 'a ComboEngine) option" where
  "handle_waiting_candidate_press b now e =
    (let waiting = filter (\<lambda>p. \<not> releasing (snd p)) (candidates e)
     in if waiting = [] then Some (ComboDecision_default, e)
        else do {
          (matching, repeated, scoped, scoped_nonmatching) \<leftarrow> classify_waiting b waiting;
          if repeated \<noteq> [] \<and> matching = []
          then Some (ComboDecision_default\<lparr>consume_current_event := True\<rparr>, e)
          else if matching = [] then
            (if scoped = [] then Some (ComboDecision_default, e)
             else
               let e1 = e\<lparr>candidates := dict_without scoped (candidates e)\<rparr>
               in Some (ComboDecision_default\<lparr> passthrough_current_event := True,
                                               reset_candidates := (candidates e1 = []) \<rparr>, e1))
          else do {
            let e1 = e\<lparr>candidates := dict_without scoped_nonmatching (candidates e)\<rparr>;
            ps \<leftarrow> press_matching b now (in_combo_order e matching) (press_state_of e1);
            let consume = (ps_transitions ps \<noteq> [] \<or> ps_completed_step ps \<or>
                  list_ex (\<lambda>cid. case map_of (candidates (ps_engine ps)) cid of
                                   None \<Rightarrow> False | Some c \<Rightarrow> releasing c) matching);
            Some (with_transitions (ps_transitions ps)
                    (ComboDecision_default\<lparr>
                       consume_current_event := consume,
                       passthrough_current_event := (ps_partial_match ps \<and> \<not> consume),
                       recall_events := dedupe_recall_events (ps_recall_events ps) \<rparr>),
                  ps_engine ps) } })"

section \<open>Presses that satisfy a first step\<close>

record 'a activation_state =
  as_press :: "'a press_state"
  as_matched :: bool

definition activate_first_step ::
    "set_order \<Rightarrow> RuntimeComboBinding \<Rightarrow> rat \<Rightarrow> 'a RuntimeCombo \<Rightarrow> 'a activation_state \<Rightarrow>
     'a activation_state option" where
  "activate_first_step it b now combo s =
    (let e = ps_engine (as_press s)
     in case map_of (candidates e) (combo_id combo) of
          Some c \<Rightarrow> Some (s\<lparr>as_matched := (as_matched s \<or> b \<in> pressed_bindings c)\<rparr>)
        | None \<Rightarrow>
            (case steps combo of
               [] \<Rightarrow> None
             | st # _ \<Rightarrow>
                 (case held_bindings_for_step it e st (Some b) of
                    None \<Rightarrow> Some s
                  | Some held \<Rightarrow>
                      if binding_is_pulse b \<and> \<not> pulse_can_complete_first_step combo b held then Some s
                      else do {
                        let ordered = sort_key
                              (\<lambda>h. case held_press_order e h of
                                     None \<Rightarrow> press_counter e + 1 | Some n \<Rightarrow> n) (it held);
                        let nc = fold (\<lambda>h. track_press h (h \<noteq> b)) ordered
                              (press_counter e, new_candidate combo);
                        let (n, c1) = complete_current_step b (length (steps combo) = 1) False nc;
                        c2 \<leftarrow> advance_pulse_completed_step now c1;
                        Some (s\<lparr> as_matched := True,
                                 as_press := finish_completed (combo_id combo) b (n, c2) (as_press s) \<rparr>) })))"

fun activate_first_steps ::
    "set_order \<Rightarrow> RuntimeComboBinding \<Rightarrow> rat \<Rightarrow> 'a RuntimeCombo list \<Rightarrow> 'a activation_state \<Rightarrow>
     'a activation_state option" where
  "activate_first_steps it b now [] s = Some s"
| "activate_first_steps it b now (combo # rest) s =
    do { s1 \<leftarrow> activate_first_step it b now combo s; activate_first_steps it b now rest s1 }"

definition activate_satisfied_first_steps ::
    "set_order \<Rightarrow> RuntimeComboBinding \<Rightarrow> rat \<Rightarrow> 'a ComboEngine \<Rightarrow>
     ('a ComboDecision \<times> 'a ComboEngine) option" where
  "activate_satisfied_first_steps it b now e = do {
     s \<leftarrow> activate_first_steps it b now (candidate_first_step_combos e b)
            \<lparr>as_press = press_state_of e, as_matched = False\<rparr>;
     let ps = as_press s;
     if ps_transitions ps = [] \<and> \<not> as_matched s then Some (ComboDecision_default, ps_engine ps)
     else Some (with_transitions (ps_transitions ps)
                  (ComboDecision_default\<lparr>
                     consume_current_event := True,
                     recall_events := dedupe_recall_events (ps_recall_events ps) \<rparr>),
                ps_engine ps) }"

definition handle_press_event ::
    "set_order \<Rightarrow> RuntimeComboBinding \<Rightarrow> rat \<Rightarrow> 'a ComboEngine \<Rightarrow>
     ('a ComboDecision \<times> 'a ComboEngine) option" where
  "handle_press_event it b now e = do {
     (waiting, e1) \<leftarrow> handle_waiting_candidate_press b now e;
     (first_step, e2) \<leftarrow> activate_satisfied_first_steps it b now e1;
     let d = merge_decisions [waiting, first_step];
     Some (if \<not> consume_current_event d \<and> \<not> passthrough_current_event d
              \<and> binding_matches_any_first_step e2 b
           then d\<lparr>passthrough_current_event := True\<rparr> else d, e2) }"

section \<open>Releases\<close>

definition handle_release_before_completion ::
    "RuntimeComboBinding \<Rightarrow> 'a ComboEngine \<Rightarrow> 'a ComboDecision \<times> 'a ComboEngine" where
  "handle_release_before_completion b e =
    (let dropped = filter (\<lambda>p. b \<in> pressed_bindings (snd p)) (candidates e);
         kept = filter (\<lambda>p. b \<notin> pressed_bindings (snd p)) (candidates e)
     in if dropped = [] then (ComboDecision_default, e)
        else if list_ex (\<lambda>p. binding_was_passed_through (snd p) b) dropped
        then (ComboDecision_default\<lparr>passthrough_current_event := True, reset_candidates := (kept = [])\<rparr>,
              e\<lparr>candidates := kept\<rparr>)
        else (ComboDecision_default\<lparr>consume_current_event := True, reset_candidates := (kept = [])\<rparr>,
              e\<lparr>candidates := kept\<rparr>))"

text \<open>What the loop of \<open>_handle_releasing_event\<close> does with one candidate.\<close>

datatype 'a release_outcome =
    Unaffected "'a ActiveCandidate"
  | DroppedEarly bool
  | Released "'a ComboActionTransition option" "'a ActiveCandidate option"

definition release_transition ::
    "'a ActiveCandidate \<Rightarrow> RuntimeComboBinding \<Rightarrow> 'a ComboActionTransition" where
  "release_transition c b =
    ComboActionTransition (combo_id (candidate_combo c)) (combo_action (candidate_combo c))
      ''release'' b []"

definition release_candidate ::
    "RuntimeComboBinding \<Rightarrow> int \<Rightarrow> rat \<Rightarrow> 'a ActiveCandidate \<Rightarrow> 'a release_outcome option" where
  "release_candidate b v now c =
    (if \<not> releasing c then
       Some (if b \<in> pressed_bindings c then DroppedEarly (binding_was_passed_through c b)
             else Unaffected c)
     else do {
       st \<leftarrow> current_step c;
       if \<not> step_matches_binding st b \<or> v \<noteq> 0 \<or> b \<notin> pressed_bindings c then Some (Unaffected c)
       else do {
         let tr = (if action_active c then Some (release_transition c b) else None);
         let c1 = c\<lparr> action_active := False, pressed_bindings := pressed_bindings c - {b} \<rparr>;
         if pressed_bindings c1 \<noteq> {} then
           Some (Released tr (if step_index c1 = 0 \<and> length (steps (candidate_combo c1)) = 1
                              then None else Some c1))
         else if on_last_step c1 then Some (Released tr None)
         else do { c2 \<leftarrow> begin_next_step now c1; Some (Released tr (Some c2)) } } })"

fun release_candidates ::
    "RuntimeComboBinding \<Rightarrow> int \<Rightarrow> rat \<Rightarrow> (string \<times> 'a ActiveCandidate) list \<Rightarrow>
     (string \<times> 'a release_outcome) list option" where
  "release_candidates b v now [] = Some []"
| "release_candidates b v now ((cid, c) # rest) =
    do { r \<leftarrow> release_candidate b v now c;
         rs \<leftarrow> release_candidates b v now rest;
         Some ((cid, r) # rs) }"

fun outcome_kept :: "string \<times> 'a release_outcome \<Rightarrow> (string \<times> 'a ActiveCandidate) option" where
  "outcome_kept (cid, Unaffected c) = Some (cid, c)"
| "outcome_kept (cid, DroppedEarly p) = None"
| "outcome_kept (cid, Released tr c) = map_option (Pair cid) c"

fun outcome_transition :: "string \<times> 'a release_outcome \<Rightarrow> 'a ComboActionTransition option" where
  "outcome_transition (cid, Released tr c) = tr"
| "outcome_transition (cid, Unaffected c) = None"
| "outcome_transition (cid, DroppedEarly p) = None"

definition handle_releasing_event ::
    "RuntimeComboBinding \<Rightarrow> int \<Rightarrow> rat \<Rightarrow> 'a ComboEngine \<Rightarrow> ('a ComboDecision \<times> 'a ComboEngine) option" where
  "handle_releasing_event b v now e = do {
     outcomes \<leftarrow> release_candidates b v now (candidates e);
     let kept = List.map_filter outcome_kept outcomes;
     let transitions = List.map_filter outcome_transition outcomes;
     let matched = list_ex (\<lambda>r. case snd r of Released _ _ \<Rightarrow> True | _ \<Rightarrow> False) outcomes;
     let dropped = list_ex (\<lambda>r. case snd r of DroppedEarly _ \<Rightarrow> True | _ \<Rightarrow> False) outcomes;
     let passthrough = list_ex (\<lambda>r. case snd r of DroppedEarly p \<Rightarrow> p | _ \<Rightarrow> False) outcomes;
     let consume = (matched \<or> (dropped \<and> \<not> passthrough));
     Some (if matched \<or> dropped
           then with_transitions transitions
                  (ComboDecision_default\<lparr>
                     consume_current_event := consume,
                     passthrough_current_event := (dropped \<and> passthrough \<and> \<not> consume),
                     reset_candidates := (kept = []) \<rparr>)
           else ComboDecision_default,
           e\<lparr>candidates := kept\<rparr>) }"

definition handle_release_event ::
    "RuntimeComboBinding \<Rightarrow> int \<Rightarrow> rat \<Rightarrow> 'a ComboEngine \<Rightarrow> ('a ComboDecision \<times> 'a ComboEngine) option" where
  "handle_release_event b v now e =
    (if list_ex (\<lambda>p. releasing (snd p)) (candidates e)
     then handle_releasing_event b v now e
     else Some (handle_release_before_completion b e))"

section \<open>Events\<close>

definition finish_event ::
    "bool \<Rightarrow> bool \<Rightarrow> 'a ComboDecision \<times> 'a ComboEngine \<Rightarrow> 'a ComboDecision \<times> 'a ComboEngine" where
  "finish_event expired had_candidates de =
    (let (d, e) = de;
         d1 = (if (expired \<and> had_candidates \<and> candidates e = [])
                  \<or> (had_candidates \<and> candidates e = []
                     \<and> (consume_current_event d \<or> passthrough_current_event d))
               then d\<lparr>reset_candidates := True\<rparr> else d)
     in (d1, if candidates e = [] \<and> held_bindings e = {} then e\<lparr>press_counter := 0\<rparr> else e))"

definition handle_event ::
    "set_order \<Rightarrow> ComboInputEvent \<Rightarrow> rat \<Rightarrow> 'a ComboEngine \<Rightarrow>
     ('a ComboDecision \<times> 'a ComboEngine) option" where
  "handle_event it event now e =
    (let (expired, e1) = expire_timeouts now e;
         b = event_binding event; v = event_value event
     in if v = 2 then
          Some (if expired \<and> candidates e1 = []
                then ComboDecision_default\<lparr>reset_candidates := True\<rparr> else ComboDecision_default, e1)
        else
          let had_candidates = (candidates e1 \<noteq> [])
          in if v = 1 then
               map_option (finish_event expired had_candidates)
                 (handle_press_event it b now
                   (if binding_is_pulse b then e1 else record_held_press b e1))
             else
               map_option (\<lambda>(d, e2). finish_event expired had_candidates (d, remove_held_binding b e2))
                 (handle_release_event b v now e1))"

section \<open>Prediction of pulses\<close>

fun pulse_completes_candidate ::
    "RuntimeComboBinding \<Rightarrow> (string \<times> 'a ActiveCandidate) list \<Rightarrow> bool option" where
  "pulse_completes_candidate b [] = Some False"
| "pulse_completes_candidate b ((cid, c) # rest) =
    (if releasing c then pulse_completes_candidate b rest
     else do {
       st \<leftarrow> current_step c;
       if step_matches_binding st b \<and> card (pressed_bindings c) + 1 = length (bindings st)
       then Some True else pulse_completes_candidate b rest })"

fun pulse_completes_first_step ::
    "set_order \<Rightarrow> 'a ComboEngine \<Rightarrow> RuntimeComboBinding \<Rightarrow> 'a RuntimeCombo list \<Rightarrow> bool option" where
  "pulse_completes_first_step it e b [] = Some False"
| "pulse_completes_first_step it e b (combo # rest) =
    (if combo_id combo \<in> fst ` set (candidates e) then pulse_completes_first_step it e b rest
     else case steps combo of
            [] \<Rightarrow> None
          | st # _ \<Rightarrow>
              (case held_bindings_for_step it e st (Some b) of
                 None \<Rightarrow> pulse_completes_first_step it e b rest
               | Some held \<Rightarrow>
                   if pulse_can_complete_first_step combo b held then Some True
                   else pulse_completes_first_step it e b rest))"

definition would_consume_pulse ::
    "set_order \<Rightarrow> RuntimeComboBinding \<Rightarrow> 'a ComboEngine \<Rightarrow> bool option" where
  "would_consume_pulse it b e =
    (if \<not> binding_is_pulse b then Some False
     else do {
       found \<leftarrow> pulse_completes_candidate b (candidates e);
       if found then Some True
       else pulse_completes_first_step it e b (candidate_first_step_combos e b) })"

section \<open>The progression machine\<close>

text \<open>\<open>ComboProgressionMachine.handle\<close> (\<open>runtime/combo/progression.py\<close>), with the reading of its
  clock as an argument.\<close>

definition progression_handle ::
    "set_order \<Rightarrow> RuntimeComboBinding \<Rightarrow> int \<Rightarrow> RuntimeComboBinding set \<Rightarrow> rat \<Rightarrow> 'a ComboEngine \<Rightarrow>
     ('a ComboDecision \<times> 'a ComboEngine) option" where
  "progression_handle it b v held now e =
    handle_event it (ComboInputEvent b v) now
      (if v = 1 \<and> \<not> is_combo_pulse_evdev (evdev b) then prime_held_bindings (held - {b}) e else e)"

end
