(* ===== verification/Combo_Invariant.thy ===== *)
theory Combo_Invariant
  imports Combo_Events
begin

text \<open>
  What every engine reached through its own operations satisfies (\<open>engine_inv\<close>): the four held
  indexes are exactly the groupings of the held set, the first-step index names only combos
  whose first step has that binding, and every candidate is in one of its two phases (waiting
  with a held key or a deadline, or releasing with a held key).  The operations preserve it, and
  under it no handler raises.
\<close>

named_theorems combo_simps "field updates that the matching of a candidate does not see"

section \<open>Definitions of the invariant\<close>

definition matches_current :: "'a ActiveCandidate \<Rightarrow> RuntimeComboBinding \<Rightarrow> bool" where
  "matches_current c b =
    (case current_step c of None \<Rightarrow> False | Some st \<Rightarrow> step_matches_binding st b)"

definition tracks_ok :: "nat \<Rightarrow> 'a ActiveCandidate \<Rightarrow> bool" where
  "tracks_ok n c \<longleftrightarrow>
    sorted_wrt (<) (map press_order (tracked_presses c))
    \<and> (\<forall>t\<in>set (tracked_presses c). press_order t \<le> n \<and> is_pulse t = binding_is_pulse (tracked_binding t))
    \<and> distinct (map tracked_binding (tracked_presses c))
    \<and> pressed_bindings c \<subseteq> set (map tracked_binding (tracked_presses c))
    \<and> (\<forall>b\<in>pressed_bindings c. \<not> binding_is_pulse b \<and> matches_current c b)"

definition phase_ok :: "'a ActiveCandidate \<Rightarrow> bool" where
  "phase_ok c \<longleftrightarrow>
    (if releasing c then pressed_bindings c \<noteq> {} \<and> next_step_deadline c = None
     else \<not> action_active c \<and> 0 < step_index c
          \<and> (pressed_bindings c = {} \<longrightarrow> next_step_deadline c \<noteq> None))
    \<and> (action_active c \<longrightarrow> on_last_step c)"

definition candidate_core :: "(string \<rightharpoonup> 'a RuntimeCombo) \<Rightarrow> nat \<Rightarrow> string \<Rightarrow> 'a ActiveCandidate \<Rightarrow> bool" where
  "candidate_core M n cid c \<longleftrightarrow>
    M cid = Some (candidate_combo c) \<and> combo_id (candidate_combo c) = cid
    \<and> step_index c < length (steps (candidate_combo c))
    \<and> tracks_ok n c"

definition candidate_ok ::
    "(string \<rightharpoonup> 'a RuntimeCombo) \<Rightarrow> nat \<Rightarrow> RuntimeComboBinding set \<Rightarrow> string \<Rightarrow> 'a ActiveCandidate \<Rightarrow> bool" where
  "candidate_ok M n held cid c \<longleftrightarrow>
    candidate_core M n cid c \<and> pressed_bindings c \<subseteq> held \<and> phase_ok c"

definition candidates_ok ::
    "(string \<rightharpoonup> 'a RuntimeCombo) \<Rightarrow> nat \<Rightarrow> RuntimeComboBinding set \<Rightarrow> (string \<times> 'a ActiveCandidate) list \<Rightarrow> bool" where
  "candidates_ok M n held cs \<longleftrightarrow>
    distinct (map fst cs) \<and> (\<forall>cid c. (cid, c) \<in> set cs \<longrightarrow> candidate_ok M n held cid c)"

text \<open>A bucket holds exactly the held bindings with that key, and no bucket is empty.\<close>

definition bucket_ok :: "RuntimeComboBinding set \<Rightarrow> (RuntimeComboBinding \<Rightarrow> 'k) \<Rightarrow>
    ('k \<rightharpoonup> RuntimeComboBinding set) \<Rightarrow> bool" where
  "bucket_ok held f m \<longleftrightarrow>
    (\<forall>k. m k = (if \<exists>b\<in>held. f b = k then Some {b \<in> held. f b = k} else None))"

definition indexes_group :: "RuntimeComboBinding set \<Rightarrow> 'a ComboEngine \<Rightarrow> bool" where
  "indexes_group held e \<longleftrightarrow>
    bucket_ok held (\<lambda>b. fst (held_binding_index_keys b)) (held_binding_index e)
    \<and> bucket_ok held (\<lambda>b. fst (snd (held_binding_index_keys b))) (held_binding_any_source_index e)
    \<and> bucket_ok held (\<lambda>b. fst (snd (snd (held_binding_index_keys b))))
        (held_binding_any_hardware_index e)
    \<and> bucket_ok held (\<lambda>b. snd (snd (snd (held_binding_index_keys b))))
        (held_binding_any_hardware_any_source_index e)"

definition held_indexes_ok :: "'a ComboEngine \<Rightarrow> bool" where
  "held_indexes_ok e \<longleftrightarrow> indexes_group (held_bindings e) e"

definition held_orders_ok :: "'a ComboEngine \<Rightarrow> bool" where
  "held_orders_ok e \<longleftrightarrow>
    finite (held_bindings e) \<and> dom (held_press_order e) = held_bindings e
    \<and> inj_on (held_press_order e) (held_bindings e)
    \<and> (\<forall>n\<in>ran (held_press_order e). n \<le> press_counter e)"

definition first_steps_ok :: "'a ComboEngine \<Rightarrow> bool" where
  "first_steps_ok e \<longleftrightarrow>
    (\<forall>cid combo. combo_map e cid = Some combo \<longrightarrow> combo_id combo = cid \<and> steps combo \<noteq> [])
    \<and> (\<forall>key ids. first_step_binding_index e key = Some ids \<longrightarrow>
         (\<forall>cid\<in>set ids. \<exists>combo. combo_map e cid = Some combo
            \<and> (\<exists>b\<in>set (bindings (hd (steps combo))). normalized_binding_parts b = key)))"

definition engine_inv :: "'a ComboEngine \<Rightarrow> bool" where
  "engine_inv e \<longleftrightarrow>
    candidates_ok (combo_map e) (press_counter e) (held_bindings e) (candidates e)
    \<and> held_orders_ok e \<and> held_indexes_ok e \<and> first_steps_ok e"

section \<open>Field updates\<close>

lemma current_step_update [combo_simps, simp]:
  "current_step (c\<lparr>tracked_presses := x\<rparr>) = current_step c"
  "current_step (c\<lparr>pressed_bindings := y\<rparr>) = current_step c"
  "current_step (c\<lparr>releasing := r\<rparr>) = current_step c"
  "current_step (c\<lparr>next_step_deadline := d\<rparr>) = current_step c"
  "current_step (c\<lparr>final_completing_binding := f\<rparr>) = current_step c"
  "current_step (c\<lparr>action_active := a\<rparr>) = current_step c"
  by (simp_all add: current_step_def)

lemma on_last_step_update [combo_simps, simp]:
  "on_last_step (c\<lparr>tracked_presses := x\<rparr>) = on_last_step c"
  "on_last_step (c\<lparr>pressed_bindings := y\<rparr>) = on_last_step c"
  "on_last_step (c\<lparr>releasing := r\<rparr>) = on_last_step c"
  "on_last_step (c\<lparr>next_step_deadline := d\<rparr>) = on_last_step c"
  "on_last_step (c\<lparr>final_completing_binding := f\<rparr>) = on_last_step c"
  "on_last_step (c\<lparr>action_active := a\<rparr>) = on_last_step c"
  by (simp_all add: on_last_step_def)

lemma matches_current_update [combo_simps, simp]:
  "matches_current (c\<lparr>tracked_presses := x\<rparr>) = matches_current c"
  "matches_current (c\<lparr>pressed_bindings := y\<rparr>) = matches_current c"
  "matches_current (c\<lparr>releasing := r\<rparr>) = matches_current c"
  "matches_current (c\<lparr>next_step_deadline := d\<rparr>) = matches_current c"
  "matches_current (c\<lparr>final_completing_binding := f\<rparr>) = matches_current c"
  "matches_current (c\<lparr>action_active := a\<rparr>) = matches_current c"
  by (simp_all add: matches_current_def fun_eq_iff)

lemma current_step_Some [simp]:
  "step_index c < length (steps (candidate_combo c)) \<Longrightarrow>
   current_step c = Some (steps (candidate_combo c) ! step_index c)"
  by (simp add: current_step_def)

lemma current_step_eq_None: "current_step c = None \<longleftrightarrow> length (steps (candidate_combo c)) \<le> step_index c"
  by (simp add: current_step_def)

lemma tracks_ok_mono: "tracks_ok n c \<Longrightarrow> n \<le> m \<Longrightarrow> tracks_ok m c"
  by (fastforce simp: tracks_ok_def)

lemma candidate_ok_mono:
  "candidate_ok M n held cid c \<Longrightarrow> n \<le> m \<Longrightarrow> held \<subseteq> held' \<Longrightarrow> candidate_ok M m held' cid c"
  by (auto simp: candidate_ok_def candidate_core_def intro: tracks_ok_mono)

lemma candidates_ok_mono:
  "candidates_ok M n held cs \<Longrightarrow> n \<le> m \<Longrightarrow> held \<subseteq> held' \<Longrightarrow> candidates_ok M m held' cs"
  by (auto simp: candidates_ok_def intro: candidate_ok_mono)

lemma candidates_ok_filter: "candidates_ok M n held cs \<Longrightarrow> candidates_ok M n held (filter P cs)"
  by (auto simp: candidates_ok_def distinct_map_filter)

lemma candidates_ok_without: "candidates_ok M n held cs \<Longrightarrow> candidates_ok M n held (dict_without ks cs)"
  by (simp add: dict_without_filter candidates_ok_filter)

lemma candidates_ok_update:
  "candidates_ok M n held cs \<Longrightarrow> candidate_ok M n held cid c \<Longrightarrow>
   candidates_ok M n held (AList.update cid c cs)"
  by (auto simp: candidates_ok_def in_set_AList_update)

lemma candidates_ok_delete:
  "candidates_ok M n held cs \<Longrightarrow> candidates_ok M n held (AList.delete cid cs)"
  by (auto simp: candidates_ok_def in_set_AList_delete)

lemma candidates_ok_lookup:
  "candidates_ok M n held cs \<Longrightarrow> map_of cs cid = Some c \<Longrightarrow> candidate_ok M n held cid c"
  by (auto simp: candidates_ok_def dest: map_of_SomeD)

section \<open>The held indexes\<close>

lemma bucket_ok_empty: "bucket_ok {} f Map.empty"
  by (simp add: bucket_ok_def)

lemma bucket_ok_add:
  "bucket_ok held f m \<Longrightarrow> bucket_ok (insert b held) f (bucket_add (f b) b m)"
  by (auto simp: bucket_ok_def bucket_add_def)

lemma bucket_ok_discard:
  assumes "bucket_ok held f m" and "b \<in> held"
  shows "bucket_ok (held - {b}) f (bucket_discard (f b) b m)"
proof -
  let ?S = "{x \<in> held. f x = f b}"
  have "m (f b) = Some ?S"
    using assms by (auto simp: bucket_ok_def)
  then have "bucket_discard (f b) b m =
      (if ?S - {b} = {} then m(f b := None) else m(f b \<mapsto> ?S - {b}))"
    by (simp add: bucket_discard_def Let_def)
  with assms show ?thesis
    by (auto simp: bucket_ok_def)
qed

lemma indexes_group_update [combo_simps, simp]:
  "indexes_group held (e\<lparr>candidates := cs\<rparr>) = indexes_group held e"
  "indexes_group held (e\<lparr>press_counter := n\<rparr>) = indexes_group held e"
  "indexes_group held (e\<lparr>held_press_order := po\<rparr>) = indexes_group held e"
  "indexes_group held (e\<lparr>held_bindings := hb\<rparr>) = indexes_group held e"
  by (simp_all add: indexes_group_def)

lemma index_held_binding_fields [simp]:
  "candidates (index_held_binding b e) = candidates e"
  "press_counter (index_held_binding b e) = press_counter e"
  "held_bindings (index_held_binding b e) = held_bindings e"
  "held_press_order (index_held_binding b e) = held_press_order e"
  "combo_map (index_held_binding b e) = combo_map e"
  "combo_order (index_held_binding b e) = combo_order e"
  "engine_combos (index_held_binding b e) = engine_combos e"
  "first_step_binding_index (index_held_binding b e) = first_step_binding_index e"
  "held_binding_index (index_held_binding b e) =
     bucket_add (fst (held_binding_index_keys b)) b (held_binding_index e)"
  "held_binding_any_source_index (index_held_binding b e) =
     bucket_add (fst (snd (held_binding_index_keys b))) b (held_binding_any_source_index e)"
  "held_binding_any_hardware_index (index_held_binding b e) =
     bucket_add (fst (snd (snd (held_binding_index_keys b)))) b (held_binding_any_hardware_index e)"
  "held_binding_any_hardware_any_source_index (index_held_binding b e) =
     bucket_add (snd (snd (snd (held_binding_index_keys b)))) b
       (held_binding_any_hardware_any_source_index e)"
  by (simp_all add: index_held_binding_def split: prod.split)

lemma deindex_held_binding_fields [simp]:
  "candidates (deindex_held_binding b e) = candidates e"
  "press_counter (deindex_held_binding b e) = press_counter e"
  "held_bindings (deindex_held_binding b e) = held_bindings e"
  "held_press_order (deindex_held_binding b e) = held_press_order e"
  "combo_map (deindex_held_binding b e) = combo_map e"
  "combo_order (deindex_held_binding b e) = combo_order e"
  "engine_combos (deindex_held_binding b e) = engine_combos e"
  "first_step_binding_index (deindex_held_binding b e) = first_step_binding_index e"
  "held_binding_index (deindex_held_binding b e) =
     bucket_discard (fst (held_binding_index_keys b)) b (held_binding_index e)"
  "held_binding_any_source_index (deindex_held_binding b e) =
     bucket_discard (fst (snd (held_binding_index_keys b))) b (held_binding_any_source_index e)"
  "held_binding_any_hardware_index (deindex_held_binding b e) =
     bucket_discard (fst (snd (snd (held_binding_index_keys b)))) b (held_binding_any_hardware_index e)"
  "held_binding_any_hardware_any_source_index (deindex_held_binding b e) =
     bucket_discard (snd (snd (snd (held_binding_index_keys b)))) b
       (held_binding_any_hardware_any_source_index e)"
  by (simp_all add: deindex_held_binding_def split: prod.split)

lemma clear_held_indexes_fields [simp]:
  "candidates (clear_held_indexes e) = candidates e"
  "press_counter (clear_held_indexes e) = press_counter e"
  "held_bindings (clear_held_indexes e) = held_bindings e"
  "held_press_order (clear_held_indexes e) = held_press_order e"
  "combo_map (clear_held_indexes e) = combo_map e"
  "combo_order (clear_held_indexes e) = combo_order e"
  "engine_combos (clear_held_indexes e) = engine_combos e"
  "first_step_binding_index (clear_held_indexes e) = first_step_binding_index e"
  by (simp_all add: clear_held_indexes_def)

lemma fold_index_held_binding_fields [simp]:
  "candidates (fold index_held_binding bs e) = candidates e"
  "press_counter (fold index_held_binding bs e) = press_counter e"
  "held_bindings (fold index_held_binding bs e) = held_bindings e"
  "held_press_order (fold index_held_binding bs e) = held_press_order e"
  "combo_map (fold index_held_binding bs e) = combo_map e"
  "first_step_binding_index (fold index_held_binding bs e) = first_step_binding_index e"
  by (induction bs arbitrary: e) simp_all

lemma indexes_group_add:
  "indexes_group held e \<Longrightarrow> indexes_group (insert b held) (index_held_binding b e)"
  unfolding indexes_group_def index_held_binding_fields
  by (elim conjE) (intro conjI bucket_ok_add)

lemma indexes_group_discard:
  "indexes_group held e \<Longrightarrow> b \<in> held \<Longrightarrow>
   indexes_group (held - {b}) (deindex_held_binding b e)"
  unfolding indexes_group_def deindex_held_binding_fields
  by (elim conjE) (intro conjI bucket_ok_discard)

lemma indexes_group_empty: "indexes_group {} (clear_held_indexes e)"
  by (simp add: indexes_group_def clear_held_indexes_def bucket_ok_empty)

lemma indexes_group_fold:
  "indexes_group held e \<Longrightarrow> indexes_group (held \<union> set bs) (fold index_held_binding bs e)"
proof (induction bs arbitrary: e held)
  case (Cons b bs)
  from Cons.IH [OF indexes_group_add [OF Cons.prems, of b]] show ?case by simp
qed simp

lemma bucket_get_ok: "bucket_ok held f m \<Longrightarrow> bucket_get m k = {b \<in> held. f b = k}"
  by (auto simp: bucket_ok_def bucket_get_def)

lemma held_candidates_for_binding_eq:
  assumes "held_indexes_ok e"
  shows "held_candidates_for_binding e expected = {h \<in> held_bindings e. binding_matches expected h}"
  using assms
  by (auto simp: held_indexes_ok_def indexes_group_def held_candidates_for_binding_def
      binding_matches_def held_binding_index_keys_def normalized_binding_parts_def bucket_get_ok)

lemma held_orders_ok_cong:
  "held_bindings e' = held_bindings e \<Longrightarrow> held_press_order e' = held_press_order e \<Longrightarrow>
   press_counter e \<le> press_counter e' \<Longrightarrow> held_orders_ok e \<Longrightarrow> held_orders_ok e'"
  by (auto simp: held_orders_ok_def intro: order_trans)

lemma indexing_keeps [simp]:
  "held_orders_ok (index_held_binding b e) = held_orders_ok e"
  "held_orders_ok (deindex_held_binding b e) = held_orders_ok e"
  "held_orders_ok (fold index_held_binding bs e) = held_orders_ok e"
  "held_orders_ok (clear_held_indexes e) = held_orders_ok e"
  "first_steps_ok (index_held_binding b e) = first_steps_ok e"
  "first_steps_ok (deindex_held_binding b e) = first_steps_ok e"
  "first_steps_ok (fold index_held_binding bs e) = first_steps_ok e"
  "first_steps_ok (clear_held_indexes e) = first_steps_ok e"
  by (simp_all add: held_orders_ok_def first_steps_ok_def)

lemma first_steps_ok_update [combo_simps, simp]:
  "first_steps_ok (e\<lparr>candidates := cs\<rparr>) = first_steps_ok e"
  "first_steps_ok (e\<lparr>press_counter := n\<rparr>) = first_steps_ok e"
  "first_steps_ok (e\<lparr>held_press_order := po\<rparr>) = first_steps_ok e"
  "first_steps_ok (e\<lparr>held_bindings := hb\<rparr>) = first_steps_ok e"
  by (simp_all add: first_steps_ok_def)

section \<open>Held keys, expiry, scopes and configuration keep the invariant\<close>

lemma engine_inv_init: "engine_inv engine_init"
  by (simp add: engine_inv_def engine_init_def candidates_ok_def held_orders_ok_def
      held_indexes_ok_def indexes_group_def bucket_ok_empty first_steps_ok_def)

lemma held_orders_ok_record:
  assumes "held_orders_ok e" and "b \<notin> held_bindings e"
  shows "held_orders_ok (e\<lparr> press_counter := press_counter e + 1,
      held_bindings := insert b (held_bindings e),
      held_press_order := (held_press_order e)(b \<mapsto> press_counter e + 1) \<rparr>)"
proof -
  have "Some (press_counter e + 1) \<notin> held_press_order e ` held_bindings e"
  proof
    assume "Some (press_counter e + 1) \<in> held_press_order e ` held_bindings e"
    then have "press_counter e + 1 \<in> ran (held_press_order e)" by (force simp: ran_def)
    with assms(1) show False by (auto simp: held_orders_ok_def)
  qed
  moreover have "held_press_order e b = None"
    using assms by (auto simp: held_orders_ok_def)
  ultimately show ?thesis
    using assms by (auto simp: held_orders_ok_def inj_on_fun_updI ran_map_upd intro: le_SucI)
qed

lemma record_held_press_inv:
  assumes inv: "engine_inv e"
  shows "engine_inv (record_held_press b e)"
proof (cases "b \<in> held_bindings e")
  case True
  with inv show ?thesis by (simp add: record_held_press_def)
next
  case False
  let ?e = "e\<lparr> press_counter := press_counter e + 1, held_bindings := insert b (held_bindings e),
      held_press_order := (held_press_order e)(b \<mapsto> press_counter e + 1) \<rparr>"
  have "held_orders_ok (index_held_binding b ?e)"
    using held_orders_ok_record [OF _ False] inv by (simp add: engine_inv_def)
  moreover have "indexes_group (insert b (held_bindings e)) (index_held_binding b ?e)"
    using inv by (intro indexes_group_add) (simp add: engine_inv_def held_indexes_ok_def)
  moreover have "candidates_ok (combo_map e) (press_counter e + 1) (insert b (held_bindings e)) (candidates e)"
    using inv by (auto simp: engine_inv_def intro: candidates_ok_mono)
  moreover have "first_steps_ok (index_held_binding b ?e)"
    using inv by (simp add: engine_inv_def)
  ultimately show ?thesis
    using False by (simp add: record_held_press_def engine_inv_def held_indexes_ok_def)
qed

lemma prime_held_bindings_inv: "engine_inv e \<Longrightarrow> engine_inv (prime_held_bindings held e)"
proof -
  have "engine_inv e \<Longrightarrow> engine_inv (fold record_held_press bs e)" for bs and e :: "'a ComboEngine"
    by (induction bs arbitrary: e) (simp_all add: record_held_press_inv)
  then show "engine_inv e \<Longrightarrow> ?thesis" by (simp add: prime_held_bindings_def)
qed

lemma remove_held_binding_inv:
  assumes inv: "engine_inv e" and free: "\<And>cid c. (cid, c) \<in> set (candidates e) \<Longrightarrow> b \<notin> pressed_bindings c"
  shows "engine_inv (remove_held_binding b e)"
proof (cases "b \<in> held_bindings e")
  case False
  then have "(held_press_order e)(b := None) = held_press_order e"
    using inv by (auto simp: engine_inv_def held_orders_ok_def fun_eq_iff domIff)
  with False inv show ?thesis by (simp add: remove_held_binding_def)
next
  case True
  let ?e = "e\<lparr> held_bindings := held_bindings e - {b},
      held_press_order := (held_press_order e)(b := None) \<rparr>"
  have "held_orders_ok ?e"
    using inv by (auto simp: engine_inv_def held_orders_ok_def ran_def inj_on_def)
  then have "held_orders_ok (deindex_held_binding b ?e)" by simp
  moreover have "indexes_group (held_bindings e - {b}) (deindex_held_binding b ?e)"
    using inv True by (intro indexes_group_discard) (simp_all add: engine_inv_def held_indexes_ok_def)
  moreover have "candidates_ok (combo_map e) (press_counter e) (held_bindings e - {b}) (candidates e)"
    using inv free by (fastforce simp: engine_inv_def candidates_ok_def candidate_ok_def)
  moreover have "first_steps_ok (deindex_held_binding b ?e)"
    using inv by (simp add: engine_inv_def)
  ultimately show ?thesis
    using True by (simp add: remove_held_binding_def engine_inv_def held_indexes_ok_def)
qed

lemma candidates_replace_inv:
  "engine_inv e \<Longrightarrow> press_counter e \<le> n \<Longrightarrow> candidates_ok (combo_map e) n (held_bindings e) cs \<Longrightarrow>
   engine_inv (e\<lparr>press_counter := n, candidates := cs\<rparr>)"
  by (auto simp: engine_inv_def held_indexes_ok_def first_steps_ok_def
      elim: held_orders_ok_cong [rotated 3])

lemma candidates_shrink_inv:
  "engine_inv e \<Longrightarrow> candidates_ok (combo_map e) (press_counter e) (held_bindings e) cs \<Longrightarrow>
   engine_inv (e\<lparr>candidates := cs\<rparr>)"
  using candidates_replace_inv [of e "press_counter e" cs] by simp

lemma expire_timeouts_inv: "engine_inv e \<Longrightarrow> engine_inv (snd (expire_timeouts now e))"
  by (auto simp: expire_timeouts_def Let_def engine_inv_def [of e]
      intro!: candidates_shrink_inv candidates_ok_without)

lemma counter_reset_inv:
  "engine_inv e \<Longrightarrow> candidates e = [] \<Longrightarrow> held_bindings e = {} \<Longrightarrow>
   engine_inv (e\<lparr>press_counter := 0\<rparr>)"
  by (auto simp: engine_inv_def candidates_ok_def held_orders_ok_def held_indexes_ok_def
      first_steps_ok_def)

lemma drop_scope_pressed:
  "\<not> candidate_matches_scope c hw src \<Longrightarrow> b \<in> pressed_bindings c \<Longrightarrow> \<not> binding_in_scope b hw src"
  by (auto simp: candidate_matches_scope_def)

lemma rebuild_held_binding_indexes_fields [simp]:
  "candidates (rebuild_held_binding_indexes it e) = candidates e"
  "press_counter (rebuild_held_binding_indexes it e) = press_counter e"
  "held_bindings (rebuild_held_binding_indexes it e) = held_bindings e"
  "held_press_order (rebuild_held_binding_indexes it e) = held_press_order e"
  "combo_map (rebuild_held_binding_indexes it e) = combo_map e"
  by (simp_all add: rebuild_held_binding_indexes_def)

lemma rebuild_held_binding_indexes_inv:
  assumes "set_iteration it" and "candidates_ok (combo_map e) (press_counter e) (held_bindings e) (candidates e)"
    and "held_orders_ok e" and "first_steps_ok e"
  shows "engine_inv (rebuild_held_binding_indexes it e)"
proof -
  have "finite (held_bindings e)" using assms(3) by (simp add: held_orders_ok_def)
  then have "set (it (held_bindings e)) = held_bindings e"
    by (rule set_iteration.set_it [OF assms(1)])
  then have "indexes_group (held_bindings e) (rebuild_held_binding_indexes it e)"
    using indexes_group_fold [OF indexes_group_empty, of "it (held_bindings e)" e]
    by (simp add: rebuild_held_binding_indexes_def)
  with assms show ?thesis
    by (simp add: engine_inv_def held_indexes_ok_def) (simp add: rebuild_held_binding_indexes_def)
qed

lemma drop_scope_inv:
  assumes it: "set_iteration it" and inv: "engine_inv e"
  shows "engine_inv (snd (drop_candidates_for_binding_scope it hw src e))"
proof (cases "hw = []")
  case True
  with inv show ?thesis by (simp add: drop_candidates_for_binding_scope_def)
next
  case False
  let ?held = "{b \<in> held_bindings e. \<not> binding_in_scope b hw src}"
  let ?cs = "filter (\<lambda>p. \<not> candidate_matches_scope (snd p) hw src) (candidates e)"
  let ?e = "e\<lparr> candidates := ?cs, held_bindings := ?held, held_press_order := held_press_order e |` ?held \<rparr>"
  have "candidates_ok (combo_map e) (press_counter e) ?held ?cs"
    using inv by (fastforce simp: engine_inv_def candidates_ok_def candidate_ok_def distinct_map_filter
        dest: drop_scope_pressed)
  moreover have "held_orders_ok ?e"
  proof -
    have "ran (held_press_order e |` ?held) \<subseteq> ran (held_press_order e)"
      by (auto simp: ran_def restrict_map_def split: if_splits)
    moreover have "inj_on (held_press_order e |` ?held) ?held"
      using inv by (simp add: engine_inv_def held_orders_ok_def inj_on_def)
    moreover have "dom (held_press_order e |` ?held) = ?held"
      using inv by (auto simp: engine_inv_def held_orders_ok_def)
    ultimately show ?thesis
      using inv by (simp add: engine_inv_def held_orders_ok_def subset_iff)
  qed
  ultimately have "engine_inv (rebuild_held_binding_indexes it ?e)"
    using inv by (intro rebuild_held_binding_indexes_inv [OF it]) (auto simp: engine_inv_def)
  then show ?thesis
    using False counter_reset_inv [of "rebuild_held_binding_indexes it ?e"]
    by (simp add: drop_candidates_for_binding_scope_def Let_def)
qed

end
