(* ===== verification/Combo_Safety.thy ===== *)
theory Combo_Safety
  imports Combo_Invariant
begin

text \<open>
  The event handlers keep the invariant of \<open>Combo_Invariant\<close> and never raise: first the
  operations on one candidate, then presses, then releases, then whole events.
\<close>

section \<open>One candidate\<close>

lemma tracks_okD:
  assumes "tracks_ok n c"
  shows "t \<in> set (tracked_presses c) \<Longrightarrow> press_order t \<le> n"
    and "b \<in> pressed_bindings c \<Longrightarrow> \<not> binding_is_pulse b"
    and "b \<in> pressed_bindings c \<Longrightarrow> matches_current c b"
    and "finite (pressed_bindings c)"
  using assms by (auto simp: tracks_ok_def intro: finite_subset)

lemma track_press_frame:
  "track_press b p (n, c) = (n', c') \<Longrightarrow>
   n \<le> n' \<and> candidate_combo c' = candidate_combo c \<and> step_index c' = step_index c
   \<and> releasing c' = releasing c \<and> action_active c' = action_active c
   \<and> pressed_bindings c \<subseteq> pressed_bindings c' \<and> pressed_bindings c' \<subseteq> insert b (pressed_bindings c)
   \<and> b \<in> tracked_binding ` set (tracked_presses c')
   \<and> (binding_is_pulse b \<longrightarrow> pressed_bindings c' = pressed_bindings c)"
  by (auto simp: track_press_def Let_def list_ex_iff split: if_splits)

lemma matches_current_cong:
  "candidate_combo c' = candidate_combo c \<Longrightarrow> step_index c' = step_index c \<Longrightarrow>
   matches_current c' = matches_current c"
  by (simp add: matches_current_def current_step_def fun_eq_iff)

lemma on_last_step_cong:
  "candidate_combo c' = candidate_combo c \<Longrightarrow> step_index c' = step_index c \<Longrightarrow>
   on_last_step c' = on_last_step c"
  by (simp add: on_last_step_def)

lemma track_press_ok:
  assumes "tracks_ok n c" and "binding_is_pulse b \<or> matches_current c b"
    and "track_press b p (n, c) = (n', c')"
  shows "tracks_ok n' c'"
proof (cases "list_ex (\<lambda>t. tracked_binding t = b) (tracked_presses c)")
  case True
  with assms show ?thesis by (simp add: track_press_def)
next
  case False
  let ?t = "\<lparr>tracked_binding = b, press_order = n + 1, passed_through = p,
      is_pulse = binding_is_pulse b\<rparr>"
  have c': "n' = n + 1" "tracked_presses c' = tracked_presses c @ [?t]"
    "pressed_bindings c' = (if binding_is_pulse b then pressed_bindings c else insert b (pressed_bindings c))"
    and m: "matches_current c' = matches_current c"
    using assms(3) False by (auto simp: track_press_def Let_def)
  have new: "b \<notin> tracked_binding ` set (tracked_presses c)"
    using False by (auto simp: list_ex_iff)
  have "sorted_wrt (<) (map press_order (tracked_presses c @ [?t]))"
    using assms(1) by (auto simp: tracks_ok_def sorted_wrt_append less_Suc_eq_le)
  with new assms(1,2) show ?thesis
    by (fastforce simp: tracks_ok_def c' m)
qed

lemma track_press_counter: "fst (track_press b p (n, c)) \<le> Suc n"
  by (simp add: track_press_def Let_def)

lemma fold_track_press:
  assumes "tracks_ok n c" and "\<forall>b\<in>set bs. binding_is_pulse b \<or> matches_current c b"
    and "fold (\<lambda>h. track_press h (f h)) bs (n, c) = (n', c')"
  shows "tracks_ok n' c' \<and> n \<le> n' \<and> candidate_combo c' = candidate_combo c
    \<and> step_index c' = step_index c \<and> releasing c' = releasing c \<and> action_active c' = action_active c
    \<and> pressed_bindings c' \<subseteq> pressed_bindings c \<union> set bs"
  using assms
proof (induction bs arbitrary: n c)
  case (Cons b bs)
  obtain n1 c1 where 1: "track_press b (f b) (n, c) = (n1, c1)" by force
  note fr = track_press_frame [OF 1]
  have "tracks_ok n1 c1"
    using Cons.prems 1 by (auto intro: track_press_ok)
  moreover have "\<forall>b\<in>set bs. binding_is_pulse b \<or> matches_current c1 b"
    using Cons.prems(2) fr matches_current_cong [of c1 c] by simp
  moreover have "fold (\<lambda>h. track_press h (f h)) bs (n1, c1) = (n', c')"
    using Cons.prems(3) 1 by simp
  ultimately show ?case using Cons.IH [of n1 c1] fr by auto
qed simp

lemma tracks_ok_update [combo_simps, simp]:
  "tracks_ok n (c\<lparr>releasing := r\<rparr>) = tracks_ok n c"
  "tracks_ok n (c\<lparr>next_step_deadline := d\<rparr>) = tracks_ok n c"
  "tracks_ok n (c\<lparr>final_completing_binding := f\<rparr>) = tracks_ok n c"
  "tracks_ok n (c\<lparr>action_active := a\<rparr>) = tracks_ok n c"
  by (simp_all add: tracks_ok_def)

lemma complete_current_step_ok:
  assumes "tracks_ok n c" and "binding_is_pulse b \<or> matches_current c b"
    and "complete_current_step b fin p (n, c) = (n', c')"
  shows "tracks_ok n' c' \<and> n \<le> n' \<and> candidate_combo c' = candidate_combo c
    \<and> step_index c' = step_index c \<and> releasing c' \<and> action_active c' = fin
    \<and> next_step_deadline c' = None
    \<and> pressed_bindings c' \<subseteq> insert b (pressed_bindings c)
    \<and> (binding_is_pulse b \<longrightarrow> pressed_bindings c' = pressed_bindings c)
    \<and> (\<not> binding_is_pulse b \<longrightarrow> b \<in> pressed_bindings c')"
proof -
  obtain n1 c1 where 1: "(if list_ex (\<lambda>t. tracked_binding t = b) (tracked_presses c) then (n, c)
      else track_press b p (n, c)) = (n1, c1)" by force
  have fr: "n \<le> n1 \<and> candidate_combo c1 = candidate_combo c \<and> step_index c1 = step_index c
      \<and> pressed_bindings c \<subseteq> pressed_bindings c1 \<and> pressed_bindings c1 \<subseteq> insert b (pressed_bindings c)
      \<and> b \<in> tracked_binding ` set (tracked_presses c1)
      \<and> (binding_is_pulse b \<longrightarrow> pressed_bindings c1 = pressed_bindings c)"
    and ok: "tracks_ok n1 c1"
    using 1 track_press_frame [of b p n c n1 c1] track_press_ok [OF assms(1,2), of p n1 c1] assms(1)
    by (auto simp: list_ex_iff split: if_splits)
  have m: "binding_is_pulse b \<or> matches_current c1 b"
    using assms(2) fr matches_current_cong [of c1 c] by simp
  have "tracks_ok n1 (c1\<lparr>pressed_bindings := insert b (pressed_bindings c1)\<rparr>)"
    if "\<not> binding_is_pulse b" using ok fr m that by (auto simp: tracks_ok_def)
  then have new: "tracks_ok n1 (if \<not> binding_is_pulse b \<and> b \<notin> pressed_bindings c1
      then c1\<lparr>pressed_bindings := insert b (pressed_bindings c1)\<rparr> else c1)" using ok by simp
  show ?thesis
    using assms(3) new fr unfolding complete_current_step_def snd_conv 1
    by (cases fin; cases "binding_is_pulse b"; cases "b \<in> pressed_bindings c1"; clarsimp)
       (blast+)?
qed

lemma begin_next_step_ok:
  assumes "step_index c + 1 < length (steps (candidate_combo c))" and "pressed_bindings c = {}"
    and "\<not> action_active c"
  obtains c' where "begin_next_step now c = Some c'" "tracks_ok n c'" "phase_ok c'"
    "candidate_combo c' = candidate_combo c" "step_index c' = step_index c + 1"
    "pressed_bindings c' = {}" "\<not> action_active c'" "\<not> releasing c'"
  using assms that
  by (auto simp: begin_next_step_def tracks_ok_def phase_ok_def current_step_def Let_def)

lemma on_last_step_iff:
  "step_index c < length (steps (candidate_combo c)) \<Longrightarrow>
   on_last_step c \<longleftrightarrow> step_index c + 1 = length (steps (candidate_combo c))"
  by (auto simp: on_last_step_def)

text \<open>Completing a step and advancing past it when only a pulse completed it.\<close>

lemma complete_advance:
  assumes core: "candidate_core M n cid c" and b: "binding_is_pulse b \<or> matches_current c b"
  obtains n1 c1 c2 where "complete_current_step b (on_last_step c) False (n, c) = (n1, c1)"
    and "advance_pulse_completed_step now c1 = Some c2" and "candidate_core M n1 cid c2" and "n \<le> n1"
    and "pressed_bindings c2 \<subseteq> pressed_bindings c \<union> (if binding_is_pulse b then {} else {b})"
    and "action_active c2 = on_last_step c"
    and "candidate_combo c2 = candidate_combo c"
    and "action_active c2 \<and> binding_is_pulse b \<or> phase_ok c2"
proof -
  obtain n1 c1 where 1: "complete_current_step b (on_last_step c) False (n, c) = (n1, c1)" by force
  note cc = complete_current_step_ok [OF _ b 1]
  have t: "tracks_ok n c" and idx: "step_index c < length (steps (candidate_combo c))"
    and cid: "combo_id (candidate_combo c) = cid" "M cid = Some (candidate_combo c)"
    using core by (simp_all add: candidate_core_def)
  note cc = cc [OF t]
  have last: "on_last_step c1 = on_last_step c"
    using cc by (intro on_last_step_cong) simp_all
  have pr: "pressed_bindings c1 \<subseteq> pressed_bindings c \<union> (if binding_is_pulse b then {} else {b})"
    using cc by auto
  show thesis
  proof (cases "action_active c1 \<or> pressed_bindings c1 \<noteq> {}")
    case True
    then have "advance_pulse_completed_step now c1 = Some c1"
      by (auto simp: advance_pulse_completed_step_def)
    moreover have "action_active c1 \<and> binding_is_pulse b \<or> phase_ok c1"
      using True cc last by (auto simp: phase_ok_def)
    ultimately show thesis
      using that [OF 1, of c1] cc pr cid idx by (simp add: candidate_core_def)
  next
    case False
    then have nl: "\<not> on_last_step c" and idle: "\<not> action_active c1" "pressed_bindings c1 = {}"
      using cc by auto
    have "step_index c1 + 1 < length (steps (candidate_combo c1))"
      using nl cc idx on_last_step_iff [OF idx] by simp
    then obtain c2 where c2: "begin_next_step now c1 = Some c2" "tracks_ok n1 c2" "phase_ok c2"
      "candidate_combo c2 = candidate_combo c1" "step_index c2 = step_index c1 + 1"
      "pressed_bindings c2 = {}" "\<not> action_active c2" "\<not> releasing c2"
      using idle by (blast intro: begin_next_step_ok)
    have "advance_pulse_completed_step now c1 = Some c2"
      using idle cc last nl c2 by (simp add: advance_pulse_completed_step_def)
    then show thesis
      using that [OF 1, of c2] c2 cc cid idx nl on_last_step_iff [OF idx]
      by (simp add: candidate_core_def)
  qed
qed

end
