(* ===== verification/Combo_Presses.thy ===== *)
theory Combo_Presses
  imports Combo_Safety
begin

text \<open>
  Presses.  The abstract machine of a combo's action is the set of combos whose action is active:
  a \<open>press\<close> transition adds a combo that is not in it, a \<open>release\<close> removes one that is, and a
  \<open>pulse\<close> needs one that is not in it and leaves the set alone.  Every press handler returns, keeps
  the invariant, and emits transitions that this machine accepts and that lead to the set of active
  candidates of the new engine.
\<close>

section \<open>The abstract machine of actions\<close>

definition active_ids :: "(string \<times> 'a ActiveCandidate) list \<Rightarrow> string set" where
  "active_ids cs = fst ` set (filter (\<lambda>p. action_active (snd p)) cs)"

definition action_step :: "string set \<Rightarrow> 'a ComboActionTransition \<Rightarrow> string set option" where
  "action_step S t =
    (let cid = transition_combo_id t; kind = transition_kind t
     in if kind = ''press'' \<and> cid \<notin> S then Some (insert cid S)
        else if kind = ''release'' \<and> cid \<in> S then Some (S - {cid})
        else if kind = ''pulse'' \<and> cid \<notin> S then Some S
        else None)"

fun action_run :: "string set \<Rightarrow> 'a ComboActionTransition list \<Rightarrow> string set option" where
  "action_run S [] = Some S"
| "action_run S (t # ts) = (case action_step S t of None \<Rightarrow> None | Some S' \<Rightarrow> action_run S' ts)"

lemma action_run_append:
  "action_run S ts = Some S' \<Longrightarrow> action_run S (ts @ us) = action_run S' us"
proof (induction ts arbitrary: S)
  case (Cons t ts)
  then show ?case by (cases "action_step S t") simp_all
qed simp

lemma active_ids_simps [simp]:
  "active_ids [] = {}"
  "active_ids (p # cs) = (if action_active (snd p) then insert (fst p) (active_ids cs) else active_ids cs)"
  by (simp_all add: active_ids_def)

lemma in_active_ids: "x \<in> active_ids cs \<longleftrightarrow> (\<exists>c. (x, c) \<in> set cs \<and> action_active c)"
  by (auto simp: active_ids_def image_iff)

lemma active_ids_update:
  "distinct (map fst cs) \<Longrightarrow>
   active_ids (AList.update cid c cs) =
     (if action_active c then insert cid (active_ids cs) else active_ids cs - {cid})"
  by (auto simp: set_eq_iff in_active_ids in_set_AList_update)

lemma active_ids_delete: "active_ids (AList.delete cid cs) = active_ids cs - {cid}"
  by (auto simp: set_eq_iff in_active_ids in_set_AList_delete)

lemma active_ids_without: "active_ids (dict_without ks cs) = active_ids cs - set ks"
  by (auto simp: set_eq_iff in_active_ids set_dict_without)

lemma active_ids_lookup:
  "distinct (map fst cs) \<Longrightarrow> map_of cs cid = Some c \<Longrightarrow> cid \<in> active_ids cs \<longleftrightarrow> action_active c"
  by (auto simp: in_active_ids dest: map_of_SomeD eq_key_imp_eq_value)

lemma active_ids_keys: "active_ids cs \<subseteq> fst ` set cs"
  by (auto simp: active_ids_def)

section \<open>What a handler may change\<close>

text \<open>A press changes nothing of the engine but the candidates and the press counter.\<close>

definition engine_frame :: "'a ComboEngine \<Rightarrow> 'a ComboEngine \<Rightarrow> bool" where
  "engine_frame e e' \<longleftrightarrow> e' = e\<lparr>press_counter := press_counter e', candidates := candidates e'\<rparr>
     \<and> press_counter e \<le> press_counter e'"

lemma engine_frame_refl [simp]: "engine_frame e e"
  by (simp add: engine_frame_def)

lemma engine_frame_trans: "engine_frame e e1 \<Longrightarrow> engine_frame e1 e2 \<Longrightarrow> engine_frame e e2"
  unfolding engine_frame_def
  by (cases e; cases e1; cases e2) auto

lemma engine_frame_update [simp]:
  "engine_frame e (e\<lparr>candidates := cs\<rparr>)"
  "press_counter e \<le> n \<Longrightarrow> engine_frame e (e\<lparr>press_counter := n, candidates := cs\<rparr>)"
  by (simp_all add: engine_frame_def)

lemma engine_frameD:
  assumes "engine_frame e e'"
  shows "held_bindings e' = held_bindings e" "held_press_order e' = held_press_order e"
    "combo_map e' = combo_map e" "combo_order e' = combo_order e"
    "first_step_binding_index e' = first_step_binding_index e"
    "held_binding_index e' = held_binding_index e"
    "held_binding_any_source_index e' = held_binding_any_source_index e"
    "held_binding_any_hardware_index e' = held_binding_any_hardware_index e"
    "held_binding_any_hardware_any_source_index e' = held_binding_any_hardware_any_source_index e"
  by (subst conjunct1 [OF assms [unfolded engine_frame_def]], simp)+

text \<open>A recalled key is released once more for the output: never a modifier, never a pulse.\<close>

definition recall_ok :: "ComboSyntheticEvent \<Rightarrow> bool" where
  "recall_ok ev \<longleftrightarrow> synthetic_value ev = 0 \<and> \<not> binding_is_modifier (synthetic_binding ev)
    \<and> \<not> binding_is_pulse (synthetic_binding ev)"

lemma candidate_recall_events_ok:
  "tracks_ok n c \<Longrightarrow> ev \<in> set (candidate_recall_events c) \<Longrightarrow> recall_ok ev"
  by (auto simp: candidate_recall_events_def recall_ok_def tracks_ok_def)

definition press_effect :: "'a press_state \<Rightarrow> 'a press_state \<Rightarrow> bool" where
  "press_effect ps ps' \<longleftrightarrow>
    engine_inv (ps_engine ps') \<and> engine_frame (ps_engine ps) (ps_engine ps')
    \<and> (\<exists>ts. ps_transitions ps' = ps_transitions ps @ ts
        \<and> action_run (active_ids (candidates (ps_engine ps))) ts
            = Some (active_ids (candidates (ps_engine ps'))))
    \<and> (\<forall>ev\<in>set (ps_recall_events ps'). ev \<in> set (ps_recall_events ps) \<or> recall_ok ev)"

lemma press_effect_refl: "engine_inv (ps_engine ps) \<Longrightarrow> press_effect ps ps"
  by (auto simp: press_effect_def)

lemma press_effect_trans: "press_effect p q \<Longrightarrow> press_effect q r \<Longrightarrow> press_effect p r"
  unfolding press_effect_def by (fastforce simp: action_run_append intro: engine_frame_trans)

lemma engine_inv_distinct [simp]: "engine_inv e \<Longrightarrow> distinct (map fst (candidates e))"
  by (simp add: engine_inv_def candidates_ok_def)

lemma engine_inv_lookup:
  "engine_inv e \<Longrightarrow> map_of (candidates e) cid = Some c \<Longrightarrow>
   candidate_ok (combo_map e) (press_counter e) (held_bindings e) cid c"
  unfolding engine_inv_def by (blast intro: candidates_ok_lookup)

lemma engine_inv_in:
  "engine_inv e \<Longrightarrow> (cid, c) \<in> set (candidates e) \<Longrightarrow>
   candidate_ok (combo_map e) (press_counter e) (held_bindings e) cid c"
  by (simp add: engine_inv_def candidates_ok_def)

lemma engine_inv_update:
  assumes "engine_inv e" and "press_counter e \<le> n" and "candidate_ok (combo_map e) n (held_bindings e) cid c"
  shows "engine_inv (e\<lparr>press_counter := n, candidates := AList.update cid c (candidates e)\<rparr>)"
  using assms
  by (intro candidates_replace_inv candidates_ok_update)
     (auto simp: engine_inv_def intro: candidates_ok_mono)

lemma engine_inv_delete:
  assumes "engine_inv e" and "press_counter e \<le> n"
  shows "engine_inv (e\<lparr>press_counter := n, candidates := AList.delete cid (candidates e)\<rparr>)"
  using assms
  by (intro candidates_replace_inv candidates_ok_delete)
     (auto simp: engine_inv_def intro: candidates_ok_mono)

section \<open>Finishing a step\<close>

lemma finish_completed_effect:
  assumes inv: "engine_inv (ps_engine ps)" and core: "candidate_core (combo_map (ps_engine ps)) n cid c"
    and n: "press_counter (ps_engine ps) \<le> n" and pr: "pressed_bindings c \<subseteq> held_bindings (ps_engine ps)"
    and ph: "action_active c \<and> binding_is_pulse b \<or> phase_ok c"
    and idle: "cid \<notin> active_ids (candidates (ps_engine ps))"
  shows "press_effect ps (finish_completed cid b (n, c) ps)"
proof -
  let ?e = "ps_engine ps"
  have id: "combo_id (candidate_combo c) = cid" using core by (simp add: candidate_core_def)
  have rec: "\<forall>ev\<in>set (candidate_recall_events c). recall_ok ev"
    using core candidate_recall_events_ok by (auto simp: candidate_core_def)
  show ?thesis
  proof (cases "action_active c \<and> binding_is_pulse b")
    case True
    then show ?thesis
      using engine_inv_delete [OF inv n] n inv idle id rec
      by (auto simp add: finish_completed_def press_effect_def Let_def active_ids_delete delete_update_same
          action_step_def press_transition_def)
  next
    case False
    then have "candidate_ok (combo_map ?e) n (held_bindings ?e) cid c"
      using ph core pr by (auto simp: candidate_ok_def)
    then have "engine_inv (?e\<lparr>press_counter := n, candidates := AList.update cid c (candidates ?e)\<rparr>)"
      by (rule engine_inv_update [OF inv n])
    then show ?thesis
      using False n inv idle id rec
      by (auto simp: finish_completed_def press_effect_def Let_def active_ids_update
          action_step_def press_transition_def)
  qed
qed

section \<open>Presses that continue a candidate\<close>

lemma finish_completed_others:
  "cid' \<noteq> cid \<Longrightarrow>
   map_of (candidates (ps_engine (finish_completed cid b nc ps))) cid' = map_of (candidates (ps_engine ps)) cid'"
  by (simp add: finish_completed_def Let_def split: prod.split)

lemma finish_completed_frame:
  "ps_partial_match (finish_completed cid b nc ps) = ps_partial_match ps"
  "ps_completed_step (finish_completed cid b nc ps) = ps_completed_step ps"
  by (simp_all add: finish_completed_def Let_def split: prod.split)

lemma track_press_candidate_ok:
  assumes ok: "candidate_ok M n held cid c" and b: "matches_current c b" "b \<in> held" "\<not> binding_is_pulse b"
    and wait: "\<not> releasing c" and tp: "track_press b p (n, c) = (n', c')"
  shows "candidate_ok M n' held cid c' \<and> n \<le> n' \<and> action_active c' = action_active c"
proof -
  have t: "tracks_ok n c" using ok by (simp add: candidate_ok_def candidate_core_def)
  have "tracks_ok n' c'" by (rule track_press_ok [OF t _ tp]) (simp add: b)
  moreover note fr = track_press_frame [OF tp]
  moreover have "c' = c \<or> b \<in> pressed_bindings c'"
    using tp b(3) by (auto simp: track_press_def Let_def split: if_splits)
  ultimately show ?thesis
    using ok b wait by (auto simp: candidate_ok_def candidate_core_def phase_ok_def)
qed

lemma press_matching_candidate_effect:
  assumes inv: "engine_inv (ps_engine ps)" and c: "map_of (candidates (ps_engine ps)) cid = Some c"
    and wait: "\<not> releasing c" and m: "matches_current c b"
    and b: "binding_is_pulse b \<or> b \<in> held_bindings (ps_engine ps)"
  shows "\<exists>ps'. press_matching_candidate b now cid ps = Some ps' \<and> press_effect ps ps'
    \<and> (\<forall>cid'. cid' \<noteq> cid \<longrightarrow> map_of (candidates (ps_engine ps')) cid' = map_of (candidates (ps_engine ps)) cid')"
proof -
  let ?e = "ps_engine ps"
  have ok: "candidate_ok (combo_map ?e) (press_counter ?e) (held_bindings ?e) cid c"
    using inv c by (rule engine_inv_lookup)
  then have core: "candidate_core (combo_map ?e) (press_counter ?e) cid c" and idx: "step_index c < length (steps (candidate_combo c))"
    by (auto simp: candidate_ok_def candidate_core_def)
  let ?st = "steps (candidate_combo c) ! step_index c"
  have idle: "cid \<notin> active_ids (candidates ?e)"
    using ok wait c inv by (simp add: active_ids_lookup candidate_ok_def phase_ok_def)
  show ?thesis
  proof (cases "card (pressed_bindings c) + 1 = length (bindings ?st)")
    case True
    obtain n1 c1 c2 where adv: "complete_current_step b (on_last_step c) False (press_counter ?e, c) = (n1, c1)"
        "advance_pulse_completed_step now c1 = Some c2" "candidate_core (combo_map ?e) n1 cid c2" "press_counter ?e \<le> n1"
        "pressed_bindings c2 \<subseteq> pressed_bindings c \<union> (if binding_is_pulse b then {} else {b})"
      and ph: "action_active c2 \<and> binding_is_pulse b \<or> phase_ok c2"
      by (rule complete_advance [OF core disjI2 [OF m], of now])
    let ?ps = "ps\<lparr>ps_completed_step := True\<rparr>"
    have pr: "pressed_bindings c2 \<subseteq> held_bindings ?e"
      using adv(5) ok b by (auto simp: candidate_ok_def split: if_splits)
    have "press_effect ?ps (finish_completed cid b (n1, c2) ?ps)"
      by (rule finish_completed_effect) (use adv pr ph inv idle in simp_all)
    then have "press_effect ps (finish_completed cid b (n1, c2) ?ps)"
      by (simp add: press_effect_def)
    moreover have "press_matching_candidate b now cid ps = Some (finish_completed cid b (n1, c2) ?ps)"
      using True c idx adv by (simp add: press_matching_candidate_def)
    ultimately show ?thesis by (auto simp: finish_completed_others)
  next
    case False
    obtain n' c' where tp: "(if binding_is_pulse b then (press_counter ?e, c)
        else track_press b True (press_counter ?e, c)) = (n', c')" by force
    have ok': "candidate_ok (combo_map ?e) n' (held_bindings ?e) cid c' \<and> press_counter ?e \<le> n'
        \<and> action_active c' = action_active c"
    proof (cases "binding_is_pulse b")
      case True
      with tp ok show ?thesis by simp
    next
      case False
      with tp show ?thesis
        using track_press_candidate_ok [OF ok m _ _ wait, of True n' c'] b by simp
    qed
    let ?ps' = "ps\<lparr> ps_partial_match := True, ps_engine := ?e\<lparr> press_counter := n',
        candidates := AList.update cid c' (candidates ?e) \<rparr> \<rparr>"
    have "press_matching_candidate b now cid ps = Some ?ps'"
      using False c idx tp by (simp add: press_matching_candidate_def)
    moreover have "engine_inv (ps_engine ?ps')"
      using engine_inv_update [OF inv] ok' by simp
    moreover have "\<not> action_active c'"
      using ok' idle c inv by (simp add: active_ids_lookup)
    ultimately show ?thesis
      using ok' idle inv by (auto simp: press_effect_def active_ids_update)
  qed
qed

lemma press_matching_effect:
  assumes "engine_inv (ps_engine ps)" and "distinct cids"
    and "\<forall>cid\<in>set cids. \<exists>c. map_of (candidates (ps_engine ps)) cid = Some c \<and> \<not> releasing c \<and> matches_current c b"
    and "binding_is_pulse b \<or> b \<in> held_bindings (ps_engine ps)"
  shows "\<exists>ps'. press_matching b now cids ps = Some ps' \<and> press_effect ps ps'"
  using assms
proof (induction cids arbitrary: ps)
  case (Cons cid cids)
  then obtain ps1 where 1: "press_matching_candidate b now cid ps = Some ps1" "press_effect ps ps1"
    "\<forall>cid'. cid' \<noteq> cid \<longrightarrow> map_of (candidates (ps_engine ps1)) cid' = map_of (candidates (ps_engine ps)) cid'"
    using press_matching_candidate_effect by (metis list.set_intros(1))
  have held: "held_bindings (ps_engine ps1) = held_bindings (ps_engine ps)"
    and inv1: "engine_inv (ps_engine ps1)"
    using 1(2) by (simp_all add: press_effect_def engine_frameD(1))
  have "\<forall>cid'\<in>set cids. \<exists>c. map_of (candidates (ps_engine ps1)) cid' = Some c \<and> \<not> releasing c \<and> matches_current c b"
    using Cons.prems(2,3) 1(3) by (metis distinct.simps(2) list.set_intros(2))
  then obtain ps' where "press_matching b now cids ps1 = Some ps'" "press_effect ps1 ps'"
    using Cons.IH [OF inv1] Cons.prems(2,4) held by (metis distinct.simps(2))
  with 1(1,2) show ?case using press_effect_trans by fastforce
qed (simp add: press_effect_refl)

definition matches_scope_now :: "'a ActiveCandidate \<Rightarrow> RuntimeComboBinding \<Rightarrow> bool" where
  "matches_scope_now c b =
    (case current_step c of None \<Rightarrow> False | Some st \<Rightarrow> step_matches_scope st b)"

lemma classify_waiting_eq:
  assumes "\<forall>p\<in>set cs. step_index (snd p) < length (steps (candidate_combo (snd p)))"
  shows "classify_waiting b cs = Some
    (map fst (filter (\<lambda>p. b \<notin> pressed_bindings (snd p) \<and> matches_current (snd p) b) cs),
     map fst (filter (\<lambda>p. b \<in> pressed_bindings (snd p)) cs),
     map fst (filter (\<lambda>p. b \<in> pressed_bindings (snd p) \<or> matches_current (snd p) b
                        \<or> matches_scope_now (snd p) b) cs),
     map fst (filter (\<lambda>p. b \<notin> pressed_bindings (snd p) \<and> \<not> matches_current (snd p) b
                        \<and> matches_scope_now (snd p) b) cs))"
  using assms
proof (induction cs)
  case (Cons p cs)
  moreover obtain cid c where p: "p = (cid, c)" by force
  ultimately show ?case by (simp add: matches_current_def matches_scope_now_def)
qed simp

lemma decision_transitions_simps [simp]:
  "decision_transitions ComboDecision_default = []"
  "decision_transitions (d\<lparr>consume_current_event := x\<rparr>) = decision_transitions d"
  "decision_transitions (d\<lparr>passthrough_current_event := x\<rparr>) = decision_transitions d"
  "decision_transitions (d\<lparr>reset_candidates := x\<rparr>) = decision_transitions d"
  "decision_transitions (d\<lparr>recall_events := r\<rparr>) = decision_transitions d"
  by (simp_all add: decision_transitions_def ComboDecision_default_def)

lemma decision_transitions_with [simp]:
  "decision_transitions d = [] \<Longrightarrow> decision_transitions (with_transitions ts d) = ts"
  by (cases ts) (simp_all add: decision_transitions_def with_transitions_def)

lemma with_transitions_fields [simp]:
  "consume_current_event (with_transitions ts d) = consume_current_event d"
  "passthrough_current_event (with_transitions ts d) = passthrough_current_event d"
  "reset_candidates (with_transitions ts d) = reset_candidates d"
  "recall_events (with_transitions ts d) = recall_events d"
  by (cases ts; simp add: with_transitions_def)+

lemma decision_transitions_merge [simp]:
  "decision_transitions (merge_decisions ds) = concat (map decision_transitions ds)"
  by (simp add: merge_decisions_def Let_def)

text \<open>A handler that keeps the invariant, changes only what a press may change, and whose
  transitions the abstract machine accepts.\<close>

definition handler_effect :: "'a ComboEngine \<Rightarrow> 'a ComboDecision \<Rightarrow> 'a ComboEngine \<Rightarrow> bool" where
  "handler_effect e d e' \<longleftrightarrow>
    engine_inv e' \<and> engine_frame e e'
    \<and> action_run (active_ids (candidates e)) (decision_transitions d) = Some (active_ids (candidates e'))
    \<and> distinct (map synthetic_binding (recall_events d)) \<and> (\<forall>ev\<in>set (recall_events d). recall_ok ev)"

lemma dedupe_recall_loop_set:
  "set (dedupe_recall_loop evs seen) \<subseteq> {ev \<in> set evs. synthetic_binding ev \<notin> seen}"
  by (induction evs seen rule: dedupe_recall_loop.induct) auto

lemma dedupe_recall_loop_distinct: "distinct (map synthetic_binding (dedupe_recall_loop evs seen))"
proof (induction evs seen rule: dedupe_recall_loop.induct)
  case (2 ev evs seen)
  then show ?case
    using dedupe_recall_loop_set [of evs "insert (synthetic_binding ev) seen"] by auto
qed simp

lemma dedupe_recall_events_facts [simp]:
  "distinct (map synthetic_binding (dedupe_recall_events evs))"
  "\<forall>ev\<in>set evs. recall_ok ev \<Longrightarrow> ev \<in> set (dedupe_recall_events evs) \<Longrightarrow> recall_ok ev"
  using dedupe_recall_loop_set [of evs "{}"]
  by (auto simp: dedupe_recall_events_def dedupe_recall_loop_distinct)

lemma recall_events_default [simp]: "recall_events ComboDecision_default = []"
  by (simp add: ComboDecision_default_def)

lemma recall_events_merge [simp]:
  "recall_events (merge_decisions ds) = dedupe_recall_events (concat (map recall_events ds))"
  by (simp add: merge_decisions_def Let_def)

lemma handler_effect_press:
  "press_effect (press_state_of e) ps \<Longrightarrow> decision_transitions d = ps_transitions ps \<Longrightarrow>
   recall_events d = dedupe_recall_events (ps_recall_events ps) \<or> recall_events d = [] \<Longrightarrow>
   handler_effect e d (ps_engine ps)"
  by (auto simp: press_effect_def handler_effect_def press_state_of_def)

lemma handler_effect_refl:
  "engine_inv e \<Longrightarrow> decision_transitions d = [] \<Longrightarrow> recall_events d = [] \<Longrightarrow> handler_effect e d e"
  by (simp add: handler_effect_def)

lemma without_waiting_inv:
  assumes "engine_inv e"
  shows "engine_inv (e\<lparr>candidates := dict_without ks (candidates e)\<rparr>)"
  using assms by (intro candidates_shrink_inv candidates_ok_without) (simp_all add: engine_inv_def)

lemma waiting_not_active:
  assumes "engine_inv e" and "set ks \<subseteq> fst ` set (filter (\<lambda>p. \<not> releasing (snd p)) (candidates e))"
  shows "active_ids (dict_without ks (candidates e)) = active_ids (candidates e)"
proof -
  have "cid \<notin> active_ids (candidates e)" if cid: "cid \<in> set ks" for cid
  proof -
    obtain c where c: "(cid, c) \<in> set (candidates e)" "\<not> releasing c"
      using assms(2) cid by auto
    then show ?thesis
      using engine_inv_in [OF assms(1) c(1)] active_ids_lookup [of "candidates e" cid c] assms(1)
      by (simp add: candidate_ok_def phase_ok_def)
  qed
  then show ?thesis by (auto simp: active_ids_without)
qed

lemma handle_waiting_effect:
  assumes inv: "engine_inv e" and b: "binding_is_pulse b \<or> b \<in> held_bindings e"
  shows "\<exists>d e'. handle_waiting_candidate_press b now e = Some (d, e') \<and> handler_effect e d e'"
proof -
  let ?W = "filter (\<lambda>p. \<not> releasing (snd p)) (candidates e)"
  let ?M = "map fst (filter (\<lambda>p. b \<notin> pressed_bindings (snd p) \<and> matches_current (snd p) b) ?W)"
  let ?R = "map fst (filter (\<lambda>p. b \<in> pressed_bindings (snd p)) ?W)"
  let ?S = "map fst (filter (\<lambda>p. b \<in> pressed_bindings (snd p) \<or> matches_current (snd p) b
      \<or> matches_scope_now (snd p) b) ?W)"
  let ?N = "map fst (filter (\<lambda>p. b \<notin> pressed_bindings (snd p) \<and> \<not> matches_current (snd p) b
      \<and> matches_scope_now (snd p) b) ?W)"
  let ?e1 = "e\<lparr>candidates := dict_without ?N (candidates e)\<rparr>"
  have "\<forall>p\<in>set ?W. step_index (snd p) < length (steps (candidate_combo (snd p)))"
    using inv engine_inv_in [OF inv] by (auto simp: candidate_ok_def candidate_core_def)
  note cw = classify_waiting_eq [OF this, of b]
  have d: "distinct (map fst (candidates e))" using inv by simp
  have sub: "set ?S \<subseteq> fst ` set ?W" "set ?N \<subseteq> fst ` set ?W" by auto
  have keepS: "handler_effect e dd (e\<lparr>candidates := dict_without ?S (candidates e)\<rparr>)"
    if "decision_transitions dd = []" "recall_events dd = []" for dd :: "'a ComboDecision"
    using without_waiting_inv [OF inv] waiting_not_active [OF inv sub(1)] that
    by (simp add: handler_effect_def)
  have inv1: "engine_inv ?e1" by (rule without_waiting_inv [OF inv])
  have "\<forall>cid\<in>set (in_combo_order e ?M). \<exists>c. map_of (candidates ?e1) cid = Some c
      \<and> \<not> releasing c \<and> matches_current c b"
  proof
    fix cid assume "cid \<in> set (in_combo_order e ?M)"
    then obtain c where c: "(cid, c) \<in> set (candidates e)" "\<not> releasing c" "matches_current c b"
      by (auto simp: in_combo_order_def)
    then have "cid \<notin> set ?N" using d by (auto dest: eq_key_imp_eq_value)
    with c have "(cid, c) \<in> set (candidates ?e1)" by (simp add: set_dict_without)
    then have "map_of (candidates ?e1) cid = Some c"
      by (rule map_of_is_SomeI [OF engine_inv_distinct [OF inv1]])
    with c show "\<exists>c. map_of (candidates ?e1) cid = Some c \<and> \<not> releasing c \<and> matches_current c b"
      by blast
  qed
  moreover have "distinct (in_combo_order e ?M)"
    using d by (simp add: in_combo_order_def distinct_map_filter)
  ultimately obtain ps where ps: "press_matching b now (in_combo_order e ?M) (press_state_of ?e1) = Some ps"
      "press_effect (press_state_of ?e1) ps"
    using press_matching_effect [of "press_state_of ?e1" _ b now] inv1 b
    by (auto simp: press_state_of_def)
  have eff: "handler_effect e dd (ps_engine ps)" if "decision_transitions dd = ps_transitions ps"
      "recall_events dd = dedupe_recall_events (ps_recall_events ps) \<or> recall_events dd = []" for dd
    using handler_effect_press [OF ps(2) that] waiting_not_active [OF inv sub(2)]
    by (auto simp: handler_effect_def intro: engine_frame_trans [of _ ?e1])
  define M R S N where MRSN: "M = ?M" "R = ?R" "S = ?S" "N = ?N"
  note cw = cw [folded MRSN] and ps = ps [folded MRSN] and keepS = keepS [folded MRSN]
  have same: "handler_effect e dd e" if "decision_transitions dd = []" "recall_events dd = []" for dd :: "'a ComboDecision"
    using inv that by (rule handler_effect_refl)
  consider "?W = []" | "?W \<noteq> []" "R \<noteq> []" "M = []" | "?W \<noteq> []" "R = []" "M = []" "S = []"
    | "?W \<noteq> []" "R = []" "M = []" "S \<noteq> []" | "?W \<noteq> []" "M \<noteq> []" by blast
  then show ?thesis
  proof cases
    case 1
    then show ?thesis
      unfolding handle_waiting_candidate_press_def Let_def using same [of ComboDecision_default] by simp
  next
    case 2
    then show ?thesis
      unfolding handle_waiting_candidate_press_def Let_def using cw
        same [of "ComboDecision_default\<lparr>consume_current_event := True\<rparr>"] by simp
  next
    case 3
    then show ?thesis
      unfolding handle_waiting_candidate_press_def Let_def using cw same [of ComboDecision_default] by simp
  next
    case 4
    then show ?thesis
      unfolding handle_waiting_candidate_press_def Let_def using cw by (simp add: keepS)
  next
    case 5
    then show ?thesis
      unfolding handle_waiting_candidate_press_def Let_def using cw ps(1) by (simp add: eff)
  qed
qed

section \<open>Presses that satisfy a first step\<close>

text \<open>The held bindings a step is satisfied with: as many as the step has, each matching it.\<close>

lemma held_bindings_for_bindings_sound:
  assumes it: "set_iteration it" and idx: "held_indexes_ok e" and fin: "finite (held_bindings e)"
    and start: "finite M" "current_matched \<Longrightarrow> b \<in> M"
      "\<not> current_matched \<Longrightarrow> b \<notin> M"
    and res: "held_bindings_for_bindings it e (Some b) es M current_matched = Some held"
  shows "finite held \<and> M \<subseteq> held \<and> card held = card M + length es
    \<and> held - M \<subseteq> insert b (held_bindings e)
    \<and> (\<forall>h\<in>held - M. \<exists>ex\<in>set es. binding_matches ex h)
    \<and> (\<forall>ex\<in>set es. binding_matches ex b \<longrightarrow> b \<in> held)"
  using start res
proof (induction es arbitrary: M current_matched)
  case (Cons ex es)
  show ?case
  proof (cases "\<not> current_matched \<and> binding_matches ex b")
    case True
    then have "held_bindings_for_bindings it e (Some b) es (insert b M) True = Some held"
      using Cons.prems(4) by simp
    from Cons.IH [OF _ _ _ this] True Cons.prems(1,3)
    have "finite held \<and> insert b M \<subseteq> held \<and> card held = card (insert b M) + length es
      \<and> held - insert b M \<subseteq> insert b (held_bindings e)
      \<and> (\<forall>h\<in>held - insert b M. \<exists>ex\<in>set es. binding_matches ex h)" by simp
    with True Cons.prems(1,3) show ?thesis by auto
  next
    case False
    let ?H = "held_candidates_for_binding e ex"
    have res: "(case find (\<lambda>h. h \<notin> M) (it ?H) of None \<Rightarrow> None
        | Some h \<Rightarrow> held_bindings_for_bindings it e (Some b) es (insert h M) current_matched) = Some held"
      using Cons.prems(2,4) False by (auto split: if_splits)
    then obtain h where h: "find (\<lambda>h. h \<notin> M) (it ?H) = Some h"
      and rec: "held_bindings_for_bindings it e (Some b) es (insert h M) current_matched = Some held"
      by (auto split: option.splits)
    have H: "?H = {x \<in> held_bindings e. binding_matches ex x}"
      by (rule held_candidates_for_binding_eq [OF idx])
    then have "h \<in> ?H" "h \<notin> M"
      using set_iteration.find_it_Some [OF it _ h] fin by auto
    moreover from this have "\<not> current_matched \<Longrightarrow> h \<noteq> b"
      using False H by auto
    ultimately have "finite held \<and> insert h M \<subseteq> held \<and> card held = card (insert h M) + length es
      \<and> held - insert h M \<subseteq> insert b (held_bindings e)
      \<and> (\<forall>x\<in>held - insert h M. \<exists>ex\<in>set es. binding_matches ex x)
      \<and> (\<forall>ex\<in>set es. binding_matches ex b \<longrightarrow> b \<in> held)"
      using Cons.IH [OF _ _ _ rec] Cons.prems(1-3) by auto
    with \<open>h \<in> ?H\<close> \<open>h \<notin> M\<close> H False Cons.prems(1,2) show ?thesis by auto
  qed
qed auto

lemma held_bindings_for_step_sound:
  assumes "set_iteration it" and "engine_inv e" and "held_bindings_for_step it e st (Some b) = Some held"
  shows "finite held" "card held = length (bindings st)" "held \<subseteq> insert b (held_bindings e)"
    "h \<in> held \<Longrightarrow> step_matches_binding st h" "step_matches_binding st b \<Longrightarrow> b \<in> held"
proof -
  have "held_indexes_ok e" "finite (held_bindings e)"
    using assms(2) by (simp_all add: engine_inv_def held_orders_ok_def)
  note sound = held_bindings_for_bindings_sound [OF assms(1) this, of "{}" False b "bindings st" held]
  show "finite held" "card held = length (bindings st)" "held \<subseteq> insert b (held_bindings e)"
    "h \<in> held \<Longrightarrow> step_matches_binding st h" "step_matches_binding st b \<Longrightarrow> b \<in> held"
    using sound assms(3) by (auto simp: held_bindings_for_step_def step_matches_binding_def list_ex_iff)
qed

lemma collect_unseen_set: "set (collect_unseen cids acc) = set cids \<union> set acc"
  by (induction cids arbitrary: acc) auto

lemma collect_unseen_distinct: "distinct acc \<Longrightarrow> distinct (collect_unseen cids acc)"
  by (induction cids arbitrary: acc) auto

lemma candidate_first_step_combo_ids_distinct: "distinct (candidate_first_step_combo_ids e b)"
  by (simp add: candidate_first_step_combo_ids_def Let_def collect_unseen_distinct split: prod.split)

lemma candidate_first_step_combo_ids_iff:
  assumes "normalized_binding_parts b = (hw, nm, src)"
  shows "cid \<in> set (candidate_first_step_combo_ids e b) \<longleftrightarrow>
    (\<exists>hk\<in>{hw, []}. \<exists>sk\<in>{src, []}. \<exists>ids. Some ids = first_step_binding_index e (hk, nm, sk)
       \<and> cid \<in> set ids)"
  using assms
  by (cases "hw = []"; cases "src = []")
     (simp_all add: candidate_first_step_combo_ids_def collect_unseen_set disj_ac)

lemma candidate_first_step_combo_idsD:
  assumes "first_steps_ok e" and "cid \<in> set (candidate_first_step_combo_ids e b)"
  obtains combo sb where "combo_map e cid = Some combo" "sb \<in> set (bindings (hd (steps combo)))"
    "binding_matches sb b"
proof -
  obtain hw nm src where b: "normalized_binding_parts b = (hw, nm, src)"
    by (cases "normalized_binding_parts b")
  obtain hk sk ids where k: "hk \<in> {hw, []}" "sk \<in> {src, []}"
    and ids: "first_step_binding_index e (hk, nm, sk) = Some ids" "cid \<in> set ids"
    using assms(2) [unfolded candidate_first_step_combo_ids_iff [OF b]] by (elim bexE exE conjE) metis
  obtain combo sb where c: "combo_map e cid = Some combo" "sb \<in> set (bindings (hd (steps combo)))"
      "normalized_binding_parts sb = (hk, nm, sk)"
    using assms(1) [unfolded first_steps_ok_def, THEN conjunct2, rule_format, OF ids] by blast
  have "binding_matches sb b"
    using c(3) b k by (auto simp: binding_matches_def)
  with c(1,2) show thesis by (rule that)
qed

lemma candidate_first_step_combosD:
  assumes ok: "first_steps_ok e" and mem: "combo \<in> set (candidate_first_step_combos e b)"
  shows "combo_map e (combo_id combo) = Some combo \<and> steps combo \<noteq> []
    \<and> step_matches_binding (hd (steps combo)) b"
proof -
  obtain cid where cid: "cid \<in> set (candidate_first_step_combo_ids e b)" "combo_map e cid = Some combo"
    using mem by (auto simp: candidate_first_step_combos_def List.map_filter_def)
  have "combo_id combo = cid \<and> steps combo \<noteq> []"
    using ok cid(2) by (simp add: first_steps_ok_def)
  moreover obtain sb where "sb \<in> set (bindings (hd (steps combo)))" "binding_matches sb b"
    using candidate_first_step_combo_idsD [OF ok cid(1)] cid(2) by (metis option.inject)
  ultimately show ?thesis
    using cid(2) by (auto simp: step_matches_binding_def list_ex_iff)
qed

lemma new_candidate_core:
  "steps combo \<noteq> [] \<Longrightarrow> M (combo_id combo) = Some combo \<Longrightarrow> candidate_core M n (combo_id combo) (new_candidate combo)"
  by (simp add: candidate_core_def new_candidate_def tracks_ok_def)

lemma matches_current_new:
  "steps combo = st # rest \<Longrightarrow> matches_current (new_candidate combo) = step_matches_binding st"
  by (simp add: matches_current_def current_step_def new_candidate_def fun_eq_iff)

lemma activate_first_step_effect:
  assumes it: "set_iteration it" and inv: "engine_inv (ps_engine (as_press s))"
    and combo: "steps combo \<noteq> []" "step_matches_binding (hd (steps combo)) b"
      "combo_map (ps_engine (as_press s)) (combo_id combo) = Some combo"
    and b: "binding_is_pulse b \<or> b \<in> held_bindings (ps_engine (as_press s))"
  shows "\<exists>s'. activate_first_step it b now combo s = Some s' \<and> press_effect (as_press s) (as_press s')"
proof -
  let ?e = "ps_engine (as_press s)"
  obtain st rest where st: "steps combo = st # rest" using combo(1) by (cases "steps combo") auto
  note same = press_effect_refl [of "as_press s", OF inv]
  show ?thesis
  proof (cases "map_of (candidates ?e) (combo_id combo)")
    case (Some c)
    then show ?thesis using same by (simp add: activate_first_step_def)
  next
    case free: None
    show ?thesis
    proof (cases "held_bindings_for_step it ?e st (Some b)")
      case None
      then show ?thesis using free same st by (simp add: activate_first_step_def)
    next
      case (Some held)
      note hs = held_bindings_for_step_sound [OF it inv Some]
      let ?ord = "sort_key (\<lambda>h. case held_press_order ?e h of None \<Rightarrow> press_counter ?e + 1 | Some n \<Rightarrow> n) (it held)"
      have ord: "set ?ord = held" using hs(1) by (simp add: set_iteration.set_it [OF it])
      obtain n c where f: "fold (\<lambda>h. track_press h (h \<noteq> b)) ?ord (press_counter ?e, new_candidate combo) = (n, c)"
        by force
      have new: "candidate_core (combo_map ?e) (press_counter ?e) (combo_id combo) (new_candidate combo)"
        using combo(1,3) by (rule new_candidate_core)
      note fr = fold_track_press [OF _ _ f]
      have all: "\<forall>h\<in>set ?ord. binding_is_pulse h \<or> matches_current (new_candidate combo) h"
        using hs(4) ord by (simp add: matches_current_new [OF st])
      have fr: "tracks_ok n c" "press_counter ?e \<le> n" "candidate_combo c = combo" "step_index c = 0"
          "pressed_bindings c \<subseteq> held"
        using fr [OF _ all] new ord by (simp_all add: candidate_core_def) (simp_all add: new_candidate_def)
      have core: "candidate_core (combo_map ?e) n (combo_id combo) c"
        using fr combo(1,3) by (simp add: candidate_core_def)
      have last: "on_last_step c \<longleftrightarrow> length (steps combo) = 1"
        using fr combo(1) by (auto simp: on_last_step_iff)
      have mb: "matches_current c b"
        using fr(3,4) st combo(2) by (simp add: matches_current_def current_step_def)
      obtain n1 c1 c2 where adv: "complete_current_step b (on_last_step c) False (n, c) = (n1, c1)"
          "advance_pulse_completed_step now c1 = Some c2" "candidate_core (combo_map ?e) n1 (combo_id combo) c2" "n \<le> n1"
          "pressed_bindings c2 \<subseteq> pressed_bindings c \<union> (if binding_is_pulse b then {} else {b})"
        and ph: "action_active c2 \<and> binding_is_pulse b \<or> phase_ok c2"
        by (rule complete_advance [OF core disjI2 [OF mb], of now])
      have nop: "x \<in> pressed_bindings c2 \<Longrightarrow> \<not> binding_is_pulse x" for x
        using adv(3) by (auto simp: candidate_core_def dest: tracks_okD(2))
      have "pressed_bindings c2 \<subseteq> insert b (held_bindings ?e)"
        using adv(5) fr(5) hs(3) by (auto split: if_splits)
      then have pr: "pressed_bindings c2 \<subseteq> held_bindings ?e"
        using b nop by auto
      have idle: "combo_id combo \<notin> active_ids (candidates ?e)"
        using free active_ids_keys [of "candidates ?e"] by (auto simp: map_of_eq_None_iff)
      have eff: "press_effect (as_press s) (finish_completed (combo_id combo) b (n1, c2) (as_press s))"
        by (rule finish_completed_effect [OF inv adv(3) _ pr ph idle]) (use adv(4) fr(2) in simp)
      show ?thesis
      proof (cases "binding_is_pulse b \<and> \<not> pulse_can_complete_first_step combo b held")
        case True
        then show ?thesis using free same st Some by (simp add: activate_first_step_def)
      next
        case False
        then show ?thesis
          using free st Some f adv(1,2) eff last
          by (auto simp: activate_first_step_def Let_def)
      qed
    qed
  qed
qed

lemma activate_first_steps_effect:
  assumes it: "set_iteration it" and "engine_inv (ps_engine (as_press s))"
    and "\<forall>combo\<in>set combos. steps combo \<noteq> [] \<and> step_matches_binding (hd (steps combo)) b
      \<and> combo_map (ps_engine (as_press s)) (combo_id combo) = Some combo"
    and "binding_is_pulse b \<or> b \<in> held_bindings (ps_engine (as_press s))"
  shows "\<exists>s'. activate_first_steps it b now combos s = Some s' \<and> press_effect (as_press s) (as_press s')"
  using assms(2-)
proof (induction combos arbitrary: s)
  case (Cons combo combos)
  then obtain s1 where 1: "activate_first_step it b now combo s = Some s1"
      "press_effect (as_press s) (as_press s1)"
    using activate_first_step_effect [OF it Cons.prems(1), of combo b now] by auto
  then have "engine_inv (ps_engine (as_press s1))"
    "held_bindings (ps_engine (as_press s1)) = held_bindings (ps_engine (as_press s))"
    "combo_map (ps_engine (as_press s1)) = combo_map (ps_engine (as_press s))"
    by (simp_all add: press_effect_def engine_frameD(1,3))
  then obtain s' where "activate_first_steps it b now combos s1 = Some s'"
      "press_effect (as_press s1) (as_press s')"
    using Cons.IH [of s1] Cons.prems by auto
  with 1 show ?case by (auto intro: press_effect_trans)
qed (simp add: press_effect_refl)

lemma activate_satisfied_effect:
  assumes it: "set_iteration it" and inv: "engine_inv e" and b: "binding_is_pulse b \<or> b \<in> held_bindings e"
  shows "\<exists>d e'. activate_satisfied_first_steps it b now e = Some (d, e') \<and> handler_effect e d e'"
proof -
  let ?s = "\<lparr>as_press = press_state_of e, as_matched = False\<rparr>"
  have "first_steps_ok e" using inv by (simp add: engine_inv_def)
  then have "\<forall>combo\<in>set (candidate_first_step_combos e b).
      steps combo \<noteq> [] \<and> step_matches_binding (hd (steps combo)) b
      \<and> combo_map e (combo_id combo) = Some combo"
    using candidate_first_step_combosD by blast
  then obtain s where s: "activate_first_steps it b now (candidate_first_step_combos e b) ?s = Some s"
      "press_effect (press_state_of e) (as_press s)"
    using activate_first_steps_effect [OF it, of ?s _ b now] inv b by (auto simp: press_state_of_def)
  have "handler_effect e d (ps_engine (as_press s))" if "decision_transitions d = ps_transitions (as_press s)"
      "recall_events d = dedupe_recall_events (ps_recall_events (as_press s)) \<or> recall_events d = []" for d
    using s(2) that by (rule handler_effect_press)
  then show ?thesis
    using s(1) by (simp add: activate_satisfied_first_steps_def Let_def)
qed

lemma handler_effect_trans:
  "handler_effect e d e1 \<Longrightarrow> handler_effect e1 d1 e2 \<Longrightarrow>
   decision_transitions d2 = decision_transitions d @ decision_transitions d1 \<Longrightarrow>
   recall_events d2 = dedupe_recall_events (recall_events d @ recall_events d1) \<Longrightarrow> handler_effect e d2 e2"
  unfolding handler_effect_def
  by (auto simp: action_run_append intro: engine_frame_trans
      elim!: dedupe_recall_events_facts(2) [rotated])

lemma handle_press_effect:
  assumes it: "set_iteration it" and inv: "engine_inv e" and b: "binding_is_pulse b \<or> b \<in> held_bindings e"
  shows "\<exists>d e'. handle_press_event it b now e = Some (d, e') \<and> handler_effect e d e'"
proof -
  obtain dw e1 where w: "handle_waiting_candidate_press b now e = Some (dw, e1)" "handler_effect e dw e1"
    using handle_waiting_effect [OF inv b, of now] by blast
  then have inv1: "engine_inv e1" and "held_bindings e1 = held_bindings e"
    by (simp_all add: handler_effect_def engine_frameD(1))
  then obtain df e2 where f: "activate_satisfied_first_steps it b now e1 = Some (df, e2)" "handler_effect e1 df e2"
    using activate_satisfied_effect [OF it inv1, of b now] b by auto
  have "handler_effect e d e2" if "decision_transitions d = decision_transitions dw @ decision_transitions df"
      "recall_events d = dedupe_recall_events (recall_events dw @ recall_events df)" for d
    using w(2) f(2) that by (rule handler_effect_trans)
  then show ?thesis
    using w(1) f(1) by (simp add: handle_press_event_def Let_def)
qed

end
