(* ===== verification/Combo_Releases.thy ===== *)
theory Combo_Releases
  imports Combo_Presses
begin

text \<open>
  Releases and whole events.  After a release no candidate presses the released binding, so
  forgetting it keeps the invariant; with the presses of \<open>Combo_Presses\<close> this makes every operation
  of the engine a step of one machine that keeps \<open>engine_inv\<close> and never raises.
\<close>

section \<open>One candidate\<close>

text \<open>What the release of \<open>b\<close> may do with a candidate.\<close>

definition release_ok ::
    "(string \<rightharpoonup> 'a RuntimeCombo) \<Rightarrow> nat \<Rightarrow> RuntimeComboBinding set \<Rightarrow> RuntimeComboBinding \<Rightarrow> string \<Rightarrow> 'a ActiveCandidate \<Rightarrow>
     'a release_outcome \<Rightarrow> bool" where
  "release_ok M n held b cid c r \<longleftrightarrow>
    (\<forall>c'. outcome_kept (cid, r) = Some (cid, c') \<longrightarrow>
        candidate_ok M n held cid c' \<and> b \<notin> pressed_bindings c')
    \<and> (case outcome_transition (cid, r) of
         None \<Rightarrow> (action_active c \<longrightarrow> outcome_kept (cid, r) = Some (cid, c))
                 \<and> (\<not> action_active c \<longrightarrow>
                     (\<forall>c'. outcome_kept (cid, r) = Some (cid, c') \<longrightarrow> \<not> action_active c'))
       | Some t \<Rightarrow> action_active c \<and> transition_kind t = ''release'' \<and> transition_combo_id t = cid
                 \<and> trigger_binding t = b
                 \<and> (\<forall>c'. outcome_kept (cid, r) = Some (cid, c') \<longrightarrow> \<not> action_active c'))"

lemma release_pressed_ok:
  assumes ok: "candidate_ok M n held cid c" and rel: "releasing c" and left: "pressed_bindings c - {b} \<noteq> {}"
  shows "candidate_ok M n held cid (c\<lparr>action_active := False, pressed_bindings := pressed_bindings c - {b}\<rparr>)"
  using assms
  by (auto simp: candidate_ok_def candidate_core_def phase_ok_def tracks_ok_def)

lemma release_candidate_ok:
  assumes ok: "candidate_ok M n held cid c"
  shows "\<exists>r. release_candidate b 0 now c = Some r \<and> release_ok M n held b cid c r"
proof -
  have idx: "step_index c < length (steps (candidate_combo c))" and id: "combo_id (candidate_combo c) = cid" "M cid = Some (candidate_combo c)"
    and t: "tracks_ok n c" and ph: "phase_ok c"
    using ok by (simp_all add: candidate_ok_def candidate_core_def)
  let ?st = "steps (candidate_combo c) ! step_index c"
  let ?tr = "if action_active c then Some (release_transition c b) else None"
  let ?c1 = "c\<lparr>action_active := False, pressed_bindings := pressed_bindings c - {b}\<rparr>"
  consider "\<not> releasing c" "b \<in> pressed_bindings c" | "b \<notin> pressed_bindings c"
    | "releasing c" "b \<in> pressed_bindings c" by blast
  then show ?thesis
  proof cases
    case 1
    with ph show ?thesis by (simp add: release_candidate_def release_ok_def phase_ok_def)
  next
    case 2
    with idx ok show ?thesis by (simp add: release_candidate_def release_ok_def)
  next
    case 3
    have m: "step_matches_binding ?st b"
      using tracks_okD(3) [OF t 3(2)] idx by (simp add: matches_current_def)
    have trans: "action_active c \<Longrightarrow> release_ok M n held b cid c (Released (Some (release_transition c b)) k)"
        "\<not> action_active c \<Longrightarrow> release_ok M n held b cid c (Released None k)"
      if "\<And>c'. k = Some c' \<Longrightarrow> candidate_ok M n held cid c' \<and> b \<notin> pressed_bindings c' \<and> \<not> action_active c'" for k
      using that id by (auto simp: release_ok_def release_transition_def)
    show ?thesis
    proof (cases "pressed_bindings ?c1 = {}")
      case False
      then have "candidate_ok M n held cid ?c1"
        using release_pressed_ok [OF ok 3(1)] by simp
      then show ?thesis
        using 3 idx m False by (auto simp: release_candidate_def Let_def intro!: trans)
    next
      case True
      show ?thesis
      proof (cases "on_last_step c")
        case last: True
        then show ?thesis
          using 3 idx m True by (auto simp: release_candidate_def Let_def intro!: trans)
      next
        case False
        then have "step_index ?c1 + 1 < length (steps (candidate_combo ?c1))"
          using idx on_last_step_iff [OF idx] by simp
        then obtain c2 where c2: "begin_next_step now ?c1 = Some c2" "tracks_ok n c2" "phase_ok c2"
          "candidate_combo c2 = candidate_combo ?c1" "step_index c2 = step_index ?c1 + 1"
          "pressed_bindings c2 = {}" "\<not> action_active c2" "\<not> releasing c2"
          by (rule begin_next_step_ok [OF _ True]) simp
        have "candidate_ok M n held cid c2"
          using c2 idx id False on_last_step_iff [OF idx] by (simp add: candidate_ok_def candidate_core_def)
        then show ?thesis
          using 3 idx m True False c2 by (auto simp: release_candidate_def Let_def intro!: trans)
      qed
    qed
  qed
qed

section \<open>All candidates\<close>

lemma outcome_kept_key: "outcome_kept (cid, r) = Some (k, c) \<Longrightarrow> k = cid"
  by (cases r) auto

lemma release_candidates_keys:
  "release_candidates b v now cs = Some rs \<Longrightarrow> map fst rs = map fst cs"
  by (induction cs arbitrary: rs) (auto split: bind_splits)

lemma kept_keys_distinct:
  "distinct (map fst rs) \<Longrightarrow> distinct (map fst (List.map_filter outcome_kept rs))"
  by (rule map_filter_distinct_keys) (auto dest: outcome_kept_key)

lemma release_candidates_ok:
  assumes "candidates_ok M n held cs" and "A \<inter> fst ` set cs = {}"
  shows "\<exists>rs. release_candidates b 0 now cs = Some rs
    \<and> (\<forall>cid c. (cid, c) \<in> set (List.map_filter outcome_kept rs) \<longrightarrow>
          candidate_ok M n held cid c \<and> b \<notin> pressed_bindings c)
    \<and> action_run (A \<union> active_ids cs) (List.map_filter outcome_transition rs)
        = Some (A \<union> active_ids (List.map_filter outcome_kept rs))"
  using assms
proof (induction cs arbitrary: A)
  case Nil
  then show ?case by (simp add: List.map_filter_simps)
next
  case (Cons p cs)
  obtain cid c where p: "p = (cid, c)" by force
  have ok: "candidate_ok M n held cid c" and cs: "candidates_ok M n held cs" and cid: "cid \<notin> fst ` set cs"
    using Cons.prems(1) by (auto simp: candidates_ok_def p)
  obtain r where r: "release_candidate b 0 now c = Some r" "release_ok M n held b cid c r"
    using release_candidate_ok [OF ok] by blast
  let ?B = "if action_active c \<and> outcome_transition (cid, r) = None then insert cid A else A"
  have B: "?B \<inter> fst ` set cs = {}" using Cons.prems(2) cid by (auto simp: p)
  obtain rs where rs: "release_candidates b 0 now cs = Some rs"
      "\<forall>cid c. (cid, c) \<in> set (List.map_filter outcome_kept rs) \<longrightarrow> candidate_ok M n held cid c \<and> b \<notin> pressed_bindings c"
      "action_run (?B \<union> active_ids cs) (List.map_filter outcome_transition rs)
        = Some (?B \<union> active_ids (List.map_filter outcome_kept rs))"
    using Cons.IH [OF cs B] by blast
  have kept: "outcome_kept (cid, r) = None \<or> (\<exists>c'. outcome_kept (cid, r) = Some (cid, c'))"
    using outcome_kept_key by (cases "outcome_kept (cid, r)") auto
  have out: "A \<inter> insert cid (fst ` set cs) = {}" using Cons.prems(2) by (simp add: p)
  have nact: "cid \<notin> active_ids cs" using active_ids_keys cid by blast
  have "action_run (A \<union> active_ids (p # cs)) (List.map_filter outcome_transition ((cid, r) # rs))
      = Some (A \<union> active_ids (List.map_filter outcome_kept ((cid, r) # rs)))"
  proof (cases "outcome_transition (cid, r)")
    case None
    then have "A \<union> active_ids (p # cs) = ?B \<union> active_ids cs" by (auto simp: p)
    with None show ?thesis
      using rs(3) r(2) kept by (auto simp: List.map_filter_simps release_ok_def split: if_splits)
  next
    case (Some t)
    then have t: "action_active c" "transition_kind t = ''release''" "transition_combo_id t = cid"
      and nk: "\<And>c'. outcome_kept (cid, r) = Some (cid, c') \<Longrightarrow> \<not> action_active c'"
      using r(2) by (auto simp: release_ok_def)
    have "action_step (A \<union> active_ids (p # cs)) t = Some (A \<union> active_ids cs)"
      using t out nact by (auto simp: action_step_def p)
    then show ?thesis
      using rs(3) Some t(1) kept nk by (auto simp: List.map_filter_simps)
  qed
  moreover have "\<forall>k c. (k, c) \<in> set (List.map_filter outcome_kept ((cid, r) # rs)) \<longrightarrow>
      candidate_ok M n held k c \<and> b \<notin> pressed_bindings c"
    using rs(2) r(2) kept by (auto simp: List.map_filter_simps release_ok_def)
  ultimately show ?case using r(1) rs(1) by (simp add: p)
qed

section \<open>Release events\<close>

definition no_candidate_presses :: "RuntimeComboBinding \<Rightarrow> 'a ComboEngine \<Rightarrow> bool" where
  "no_candidate_presses b e \<longleftrightarrow> (\<forall>cid c. (cid, c) \<in> set (candidates e) \<longrightarrow> b \<notin> pressed_bindings c)"

lemma handle_releasing_effect:
  assumes inv: "engine_inv e"
  shows "\<exists>d e'. handle_releasing_event b 0 now e = Some (d, e') \<and> handler_effect e d e'
    \<and> no_candidate_presses b e'"
proof -
  let ?ok = "candidates_ok (combo_map e) (press_counter e) (held_bindings e)"
  have "?ok (candidates e)" using inv by (simp add: engine_inv_def)
  from release_candidates_ok [OF this, of "{}" b now]
  obtain rs where rs: "release_candidates b 0 now (candidates e) = Some rs"
      "\<forall>cid c. (cid, c) \<in> set (List.map_filter outcome_kept rs) \<longrightarrow>
         candidate_ok (combo_map e) (press_counter e) (held_bindings e) cid c \<and> b \<notin> pressed_bindings c"
      "action_run (active_ids (candidates e)) (List.map_filter outcome_transition rs)
         = Some (active_ids (List.map_filter outcome_kept rs))"
    by auto
  let ?e = "e\<lparr>candidates := List.map_filter outcome_kept rs\<rparr>"
  have "distinct (map fst rs)"
    using release_candidates_keys [OF rs(1)] inv by simp
  then have "?ok (List.map_filter outcome_kept rs)"
    using rs(2) kept_keys_distinct by (simp add: candidates_ok_def)
  then have inv': "engine_inv ?e" by (rule candidates_shrink_inv [OF inv])
  have none: "List.map_filter outcome_transition rs = []"
    if "\<not> list_ex (\<lambda>r. case snd r of Released _ _ \<Rightarrow> True | _ \<Rightarrow> False) rs"
  proof -
    have "outcome_transition p = None" if p: "p \<in> set rs" for p
    proof (cases p)
      case (Pair cid r)
      with that \<open>\<not> list_ex _ rs\<close> show ?thesis by (cases r) (auto simp: list_ex_iff)
    qed
    then show ?thesis by (auto simp: List.map_filter_def filter_empty_conv)
  qed
  have free: "no_candidate_presses b ?e" using rs(2) by (simp add: no_candidate_presses_def)
  have eff: "handler_effect e d ?e" if "decision_transitions d = List.map_filter outcome_transition rs"
      "recall_events d = []" for d
    using inv' rs(3) that by (simp add: handler_effect_def)
  show ?thesis
    using rs(1) none free by (auto simp: handle_releasing_event_def Let_def intro!: eff)
qed

lemma engine_inv_phase:
  assumes "engine_inv e" and "(cid, c) \<in> set (candidates e)"
  shows "action_active c \<Longrightarrow> releasing c" and "next_step_deadline c \<noteq> None \<Longrightarrow> \<not> releasing c"
  using engine_inv_in [OF assms] by (auto simp: candidate_ok_def phase_ok_def split: if_splits)

lemma handle_release_before_effect:
  assumes inv: "engine_inv e" and wait: "\<not> list_ex (\<lambda>p. releasing (snd p)) (candidates e)"
  shows "handler_effect e (fst (handle_release_before_completion b e)) (snd (handle_release_before_completion b e))
    \<and> no_candidate_presses b (snd (handle_release_before_completion b e))"
proof -
  let ?kept = "filter (\<lambda>p. b \<notin> pressed_bindings (snd p)) (candidates e)"
  have none: "active_ids (candidates e) = {}"
    using wait engine_inv_phase(1) [OF inv] by (auto simp: set_eq_iff in_active_ids list_ex_iff)
  then have kept: "active_ids ?kept = {}" by (simp add: active_ids_def)
  have inv': "engine_inv (e\<lparr>candidates := ?kept\<rparr>)"
    using inv by (intro candidates_shrink_inv candidates_ok_filter) (simp_all add: engine_inv_def)
  have eff: "handler_effect e d (e\<lparr>candidates := ?kept\<rparr>)" if "decision_transitions d = []"
      "recall_events d = []" for d
    using that none kept inv' by (simp add: handler_effect_def)
  have free: "no_candidate_presses b (e\<lparr>candidates := ?kept\<rparr>)"
    by (simp add: no_candidate_presses_def)
  show ?thesis
  proof (cases "filter (\<lambda>p. b \<in> pressed_bindings (snd p)) (candidates e) = []")
    case True
    then have "no_candidate_presses b e"
      by (auto simp: no_candidate_presses_def filter_empty_conv)
    with True inv show ?thesis
      by (simp add: handle_release_before_completion_def handler_effect_def)
  next
    case False
    then show ?thesis
      unfolding handle_release_before_completion_def Let_def if_not_P [OF False] by (simp add: eff free)
  qed
qed

lemma handle_release_effect:
  assumes inv: "engine_inv e"
  shows "\<exists>d e'. handle_release_event b 0 now e = Some (d, e') \<and> handler_effect e d e'
    \<and> no_candidate_presses b e'"
proof (cases "list_ex (\<lambda>p. releasing (snd p)) (candidates e)")
  case True
  with handle_releasing_effect [OF inv] show ?thesis by (simp add: handle_release_event_def)
next
  case False
  with handle_release_before_effect [OF inv False, of b] show ?thesis
    by (cases "handle_release_before_completion b e") (simp add: handle_release_event_def)
qed

section \<open>Whole events\<close>

lemma remove_held_binding_candidates [simp]:
  "candidates (remove_held_binding b e) = candidates e"
  "combo_map (remove_held_binding b e) = combo_map e"
  by (simp_all add: remove_held_binding_def)

lemma record_held_press_fields [simp]:
  "candidates (record_held_press b e) = candidates e"
  "combo_map (record_held_press b e) = combo_map e"
  "held_bindings (record_held_press b e) = insert b (held_bindings e)"
  by (auto simp: record_held_press_def Let_def)

lemma decision_transitions_finish [simp]:
  "decision_transitions (fst (finish_event x h (d, e))) = decision_transitions d"
  by (simp add: finish_event_def Let_def)

lemma recall_events_finish [simp]: "recall_events (fst (finish_event x h (d, e))) = recall_events d"
  by (simp add: finish_event_def Let_def)

lemma finish_event_fields [simp]:
  "candidates (snd (finish_event x h (d, e))) = candidates e"
  "combo_map (snd (finish_event x h (d, e))) = combo_map e"
  by (simp_all add: finish_event_def Let_def)

lemma expire_timeouts_combo_map [simp]: "combo_map (snd (expire_timeouts now e)) = combo_map e"
  by (simp add: expire_timeouts_def Let_def)

lemma finish_event_inv: "engine_inv e \<Longrightarrow> engine_inv (snd (finish_event x h (d, e)))"
  by (simp add: finish_event_def Let_def counter_reset_inv)

lemma expire_timeouts_active:
  assumes "engine_inv e"
  shows "active_ids (candidates (snd (expire_timeouts now e))) = active_ids (candidates e)"
proof -
  let ?ids = "map fst (filter (\<lambda>p. deadline_passed now (snd p)) (candidates e))"
  have "set ?ids \<subseteq> fst ` set (filter (\<lambda>p. \<not> releasing (snd p)) (candidates e))"
    using engine_inv_phase(2) [OF assms]
    by (fastforce simp: deadline_passed_def image_iff split: option.splits)
  from waiting_not_active [OF assms this] show ?thesis
    by (simp add: expire_timeouts_def Let_def)
qed

definition event_value_ok :: "ComboInputEvent \<Rightarrow> bool" where
  "event_value_ok event \<longleftrightarrow> event_value event \<in> {0, 1, 2}"

definition event_effect :: "'a ComboEngine \<Rightarrow> 'a ComboDecision \<Rightarrow> 'a ComboEngine \<Rightarrow> bool" where
  "event_effect e d e' \<longleftrightarrow> engine_inv e' \<and> combo_map e' = combo_map e
    \<and> action_run (active_ids (candidates e)) (decision_transitions d) = Some (active_ids (candidates e'))
    \<and> distinct (map synthetic_binding (recall_events d)) \<and> (\<forall>ev\<in>set (recall_events d). recall_ok ev)"

lemma handle_event_effect:
  assumes it: "set_iteration it" and inv: "engine_inv e" and v: "event_value_ok event"
  shows "\<exists>d e'. handle_event it event now e = Some (d, e') \<and> event_effect e d e'"
proof -
  let ?b = "event_binding event"
  obtain x e1 where x: "expire_timeouts now e = (x, e1)" by force
  have inv1: "engine_inv e1" and act1: "active_ids (candidates e1) = active_ids (candidates e)"
    and map1: "combo_map e1 = combo_map e"
    using expire_timeouts_inv [OF inv, of now] expire_timeouts_active [OF inv, of now]
      expire_timeouts_combo_map [of now e] by (simp_all add: x)
  have fin: "\<exists>d' e'. finish_event x h (d, e2) = (d', e') \<and> event_effect e d' e'"
    if "engine_inv e2" "combo_map e2 = combo_map e1"
      "action_run (active_ids (candidates e1)) (decision_transitions d) = Some (active_ids (candidates e2))"
      "distinct (map synthetic_binding (recall_events d)) \<and> (\<forall>ev\<in>set (recall_events d). recall_ok ev)" for h d e2
    using that finish_event_inv [of e2 x h d] act1 map1
      decision_transitions_finish [of x h d e2] recall_events_finish [of x h d e2] finish_event_fields [of x h d e2]
    by (cases "finish_event x h (d, e2)") (simp add: event_effect_def)
  consider "event_value event = 2" | "event_value event = 1" | "event_value event = 0"
    using v by (auto simp: event_value_ok_def)
  then show ?thesis
  proof cases
    case 1
    with inv1 act1 map1 show ?thesis by (simp add: handle_event_def x event_effect_def)
  next
    case 2
    let ?e2 = "if binding_is_pulse ?b then e1 else record_held_press ?b e1"
    have "engine_inv ?e2" "combo_map ?e2 = combo_map e1" "binding_is_pulse ?b \<or> ?b \<in> held_bindings ?e2"
      "active_ids (candidates ?e2) = active_ids (candidates e1)"
      using inv1 by (simp_all add: record_held_press_inv)
    then obtain d e3 where "handle_press_event it ?b now ?e2 = Some (d, e3)" "engine_inv e3"
        "combo_map e3 = combo_map e1"
        "action_run (active_ids (candidates e1)) (decision_transitions d) = Some (active_ids (candidates e3))"
        "distinct (map synthetic_binding (recall_events d)) \<and> (\<forall>ev\<in>set (recall_events d). recall_ok ev)"
      using handle_press_effect [OF it, of ?e2 ?b now] by (auto simp: handler_effect_def engine_frameD(3))
    with 2 fin show ?thesis by (simp add: handle_event_def x)
  next
    case 3
    obtain d e2 where r: "handle_release_event ?b 0 now e1 = Some (d, e2)" "handler_effect e1 d e2"
        "no_candidate_presses ?b e2"
      using handle_release_effect [OF inv1] by blast
    then have "engine_inv (remove_held_binding ?b e2)"
      by (intro remove_held_binding_inv) (auto simp: handler_effect_def no_candidate_presses_def)
    with 3 fin r(1,2) show ?thesis by (simp add: handle_event_def x handler_effect_def engine_frameD(3))
  qed
qed

end
