(* ===== verification/Combo_Machine.thy ===== *)
theory Combo_Machine
  imports Combo_Releases "HOL-Library.Multiset"
begin

text \<open>
  The engine as a state machine: its public operations, the guard under which the daemon calls
  them, and the theorems about every reachable engine.

  The guard of \<open>set_combos\<close> is what its caller establishes: combo ids are distinct, no combo is
  without a step, and a combo whose candidate is preserved has the steps it had, up to the order of
  a step's bindings (\<open>runtime/manager_combos.py\<close> compares signatures that sort them).
\<close>

section \<open>Configuration\<close>

definition combos_ok :: "'a RuntimeCombo list \<Rightarrow> bool" where
  "combos_ok combos \<longleftrightarrow>
    distinct (map combo_id combos) \<and> (\<forall>combo\<in>set combos. steps combo \<noteq> [])"

definition same_step :: "RuntimeComboStep \<Rightarrow> RuntimeComboStep \<Rightarrow> bool" where
  "same_step s t \<longleftrightarrow> mset (bindings s) = mset (bindings t) \<and> timeout_ms s = timeout_ms t"

definition same_steps :: "'a RuntimeCombo \<Rightarrow> 'a RuntimeCombo \<Rightarrow> bool" where
  "same_steps combo combo' \<longleftrightarrow> list_all2 same_step (steps combo) (steps combo')"

definition combo_with_id :: "string \<Rightarrow> 'a RuntimeCombo list \<Rightarrow> 'a RuntimeCombo option" where
  "combo_with_id cid combos = find (\<lambda>combo. combo_id combo = cid) combos"

definition preserve_ok :: "'a ComboEngine \<Rightarrow> 'a RuntimeCombo list \<Rightarrow> string set option \<Rightarrow> bool" where
  "preserve_ok e combos preserve_ids \<longleftrightarrow>
    (case preserve_ids of
       None \<Rightarrow> True
     | Some ids \<Rightarrow>
         list_all (\<lambda>p. fst p \<in> ids \<longrightarrow>
             (case combo_with_id (fst p) combos of
                None \<Rightarrow> True
              | Some combo \<Rightarrow> same_steps (candidate_combo (snd p)) combo)) (candidates e))"

lemma combo_with_id_iff:
  "distinct (map combo_id combos) \<Longrightarrow>
   combo_with_id cid combos = Some combo \<longleftrightarrow> combo \<in> set combos \<and> combo_id combo = cid"
  by (induction combos) (auto simp: combo_with_id_def)

lemma combo_map_of:
  assumes "distinct (map combo_id combos)"
  shows "map_of (rev (map (\<lambda>c. (combo_id c, c)) combos)) cid = combo_with_id cid combos"
proof -
  let ?l = "rev (map (\<lambda>c. (combo_id c, c)) combos)"
  have d: "distinct (map fst ?l)" using assms by (simp add: rev_map [symmetric] o_def)
  have "map_of ?l cid = Some c \<longleftrightarrow> combo_with_id cid combos = Some c" for c
    using map_of_eq_Some_iff [OF d, of cid c] combo_with_id_iff [OF assms, of cid c] by auto
  then show ?thesis by (metis option.exhaust)
qed

definition indexed_ids :: "('k \<rightharpoonup> string list) \<Rightarrow> 'k \<Rightarrow> string list" where
  "indexed_ids m k = (case m k of None \<Rightarrow> [] | Some ids \<Rightarrow> ids)"

lemma in_indexed_ids: "x \<in> set (indexed_ids m k) \<longleftrightarrow> (\<exists>ids. m k = Some ids \<and> x \<in> set ids)"
  by (cases "m k") (simp_all add: indexed_ids_def)

lemma indexed_ids_step:
  "cid \<in> set (indexed_ids (index_first_step_binding id0 b index) key) \<longleftrightarrow>
   cid \<in> set (indexed_ids index key) \<or> (cid = id0 \<and> normalized_binding_parts b = key)"
  by (cases "normalized_binding_parts b = key")
     (auto simp: index_first_step_binding_def Let_def indexed_ids_def)

lemma indexed_ids_fold:
  "cid \<in> set (indexed_ids (fold (index_first_step_binding id0) bs index) key) \<longleftrightarrow>
   cid \<in> set (indexed_ids index key) \<or> (cid = id0 \<and> (\<exists>b\<in>set bs. normalized_binding_parts b = key))"
  by (induction bs arbitrary: index) (auto simp: indexed_ids_step)

lemma indexed_ids_build:
  "cid \<in> set (indexed_ids (build_first_step_index combos index) key) \<longleftrightarrow>
   cid \<in> set (indexed_ids index key)
     \<or> (\<exists>combo\<in>set combos. combo_id combo = cid \<and> steps combo \<noteq> []
          \<and> (\<exists>b\<in>set (bindings (hd (steps combo))). normalized_binding_parts b = key))"
proof (induction combos arbitrary: index)
  case (Cons combo combos)
  show ?case
  proof (cases "steps combo")
    case Nil
    then show ?thesis using Cons.IH [of index] by simp
  next
    case (Cons st rest)
    then show ?thesis
      using Cons.IH [of "fold (index_first_step_binding (combo_id combo)) (bindings st) index"]
      by (auto simp: indexed_ids_fold)
  qed
qed simp

text \<open>The steps of a preserved combo are those its candidate was matched against.\<close>

lemma same_step_matches: "same_step s t \<Longrightarrow> step_matches_binding s b = step_matches_binding t b"
  by (simp add: same_step_def step_matches_binding_def list_ex_iff) (metis set_mset_mset)

lemma same_steps_candidate:
  assumes "same_steps (candidate_combo c) combo"
  shows "length (steps combo) = length (steps (candidate_combo c))"
    "matches_current (c\<lparr>candidate_combo := combo\<rparr>) b = matches_current c b"
    "on_last_step (c\<lparr>candidate_combo := combo\<rparr>) = on_last_step c"
proof -
  show len: "length (steps combo) = length (steps (candidate_combo c))"
    using assms by (auto simp: same_steps_def dest: list_all2_lengthD)
  then show "on_last_step (c\<lparr>candidate_combo := combo\<rparr>) = on_last_step c"
    by (simp add: on_last_step_def)
  show "matches_current (c\<lparr>candidate_combo := combo\<rparr>) b = matches_current c b"
  proof (cases "step_index c < length (steps combo)")
    case True
    then have "same_step (steps (candidate_combo c) ! step_index c) (steps combo ! step_index c)"
      using assms len by (simp add: same_steps_def list_all2_conv_all_nth)
    with True len show ?thesis
      by (simp add: matches_current_def same_step_matches)
  qed (simp add: matches_current_def current_step_def len)
qed

lemma preserved_candidate_ok:
  assumes ok: "candidate_ok M n held cid c" and same: "same_steps (candidate_combo c) combo"
    and M': "M' cid = Some combo" "combo_id combo = cid"
  shows "candidate_ok M' n held cid (c\<lparr>candidate_combo := combo\<rparr>)"
proof -
  have "tracks_ok n (c\<lparr>candidate_combo := combo\<rparr>)"
    using ok same_steps_candidate(2) [OF same]
    by (simp add: candidate_ok_def candidate_core_def tracks_ok_def)
  moreover have "phase_ok (c\<lparr>candidate_combo := combo\<rparr>)"
    using ok same_steps_candidate(3) [OF same] by (simp add: candidate_ok_def phase_ok_def)
  ultimately show ?thesis
    using ok M' same_steps_candidate(1) [OF same] by (simp add: candidate_ok_def candidate_core_def)
qed

lemma set_combos_first_steps_ok:
  assumes ok: "combos_ok combos"
  shows "first_steps_ok (e\<lparr> engine_combos := combos,
      combo_map := map_of (rev (map (\<lambda>c. (combo_id c, c)) combos)), combo_order := ord,
      first_step_binding_index := build_first_step_index combos Map.empty \<rparr>)"
proof -
  have d: "distinct (map combo_id combos)" using ok by (simp add: combos_ok_def)
  have "\<exists>combo. combo_with_id cid combos = Some combo
      \<and> (\<exists>b\<in>set (bindings (hd (steps combo))). normalized_binding_parts b = key)"
    if "build_first_step_index combos Map.empty key = Some ids" "cid \<in> set ids" for key ids cid
  proof -
    have "cid \<in> set (indexed_ids (build_first_step_index combos Map.empty) key)"
      using that by (simp add: in_indexed_ids)
    then show ?thesis
      unfolding indexed_ids_build by (auto simp: indexed_ids_def combo_with_id_iff [OF d])
  qed
  moreover have "combo_id combo = cid \<and> steps combo \<noteq> []" if "combo_with_id cid combos = Some combo" for cid combo
    using that ok by (simp add: combo_with_id_iff [OF d] combos_ok_def)
  ultimately show ?thesis by (simp add: first_steps_ok_def combo_map_of [OF d])
qed

lemma engine_inv_cong_config:
  assumes "held_orders_ok e" and "held_indexes_ok e"
  shows "held_orders_ok (e\<lparr>engine_combos := a, combo_map := m, combo_order := o', first_step_binding_index := i\<rparr>)"
    "held_indexes_ok (e\<lparr>engine_combos := a, combo_map := m, combo_order := o', first_step_binding_index := i\<rparr>)"
  using assms by (simp_all add: held_orders_ok_def held_indexes_ok_def indexes_group_def)

definition preserve_entry :: "string set \<Rightarrow> (string \<rightharpoonup> 'a RuntimeCombo) \<Rightarrow>
    string \<times> 'a ActiveCandidate \<Rightarrow> (string \<times> 'a ActiveCandidate) option" where
  "preserve_entry ids M p =
    (if fst p \<notin> ids then None
     else map_option (\<lambda>combo. (fst p, (snd p)\<lparr>candidate_combo := combo\<rparr>)) (M (fst p)))"

lemma preserve_candidates_eq:
  "preserve_candidates ids e =
    e\<lparr>candidates := List.map_filter (preserve_entry ids (combo_map e)) (candidates e)\<rparr>"
  by (auto simp: preserve_candidates_def preserve_entry_def fun_eq_iff split: option.split
      intro!: arg_cong [where f = "\<lambda>f. e\<lparr>candidates := List.map_filter f (candidates e)\<rparr>"])

lemma preserve_entry_Some:
  "preserve_entry ids M p = Some q \<longleftrightarrow>
   fst p \<in> ids \<and> (\<exists>combo. M (fst p) = Some combo \<and> q = (fst p, (snd p)\<lparr>candidate_combo := combo\<rparr>))"
  by (auto simp: preserve_entry_def)

lemma preserved_in:
  assumes "(cid, c') \<in> set (candidates (preserve_candidates ids e))"
  obtains c combo where "(cid, c) \<in> set (candidates e)" "cid \<in> ids" "combo_map e cid = Some combo"
    "c' = c\<lparr>candidate_combo := combo\<rparr>"
  using assms by (auto simp: preserve_candidates_eq in_map_filter preserve_entry_Some)

lemma preserve_keys_distinct:
  "distinct (map fst (candidates e)) \<Longrightarrow> distinct (map fst (candidates (preserve_candidates ids e)))"
  unfolding preserve_candidates_eq
  by simp (rule map_filter_distinct_keys, auto simp: preserve_entry_Some)

lemma set_combos_inv:
  assumes inv: "engine_inv e" and ok: "combos_ok combos" and pres: "preserve_ok e combos preserve_ids"
  shows "engine_inv (set_combos combos preserve_ids e)"
proof -
  let ?e1 = "e\<lparr> engine_combos := combos,
      combo_map := map_of (rev (map (\<lambda>c. (combo_id c, c)) combos)),
      combo_order := map_of (rev (map (\<lambda>(i, c). (combo_id c, i)) (enumerate 0 combos))),
      first_step_binding_index := build_first_step_index combos Map.empty \<rparr>"
  have d: "distinct (map combo_id combos)" using ok by (simp add: combos_ok_def)
  have fs: "first_steps_ok ?e1" by (rule set_combos_first_steps_ok [OF ok])
  have held: "held_orders_ok ?e1" "held_indexes_ok ?e1"
    using inv by (simp_all add: engine_inv_def engine_inv_cong_config)
  show ?thesis
  proof (cases preserve_ids)
    case None
    have "engine_inv (engine_reset ?e1)"
      using fs by (simp add: engine_reset_def engine_inv_def held_indexes_ok_def indexes_group_empty
          held_orders_ok_def candidates_ok_def)
    with None show ?thesis by (simp add: set_combos_def)
  next
    case (Some ids)
    let ?cs = "candidates (preserve_candidates ids ?e1)"
    have "candidate_ok (combo_map ?e1) (press_counter e) (held_bindings e) cid c'"
      if mem: "(cid, c') \<in> set ?cs" for cid c'
    proof -
      obtain c combo where c: "(cid, c) \<in> set (candidates ?e1)" "cid \<in> ids"
          and m: "combo_map ?e1 cid = Some combo" and c': "c' = c\<lparr>candidate_combo := combo\<rparr>"
        by (rule preserved_in [OF mem])
      have cw: "combo_with_id cid combos = Some combo" using m combo_map_of [OF d, of cid] by simp
      have "combo_id combo = cid" using cw by (simp add: combo_with_id_iff [OF d])
      moreover have "same_steps (candidate_combo c) combo"
        using pres c cw Some by (auto simp: preserve_ok_def list_all_iff)
      moreover have "candidate_ok (combo_map e) (press_counter e) (held_bindings e) cid c"
        using inv c(1) by (simp add: engine_inv_in)
      ultimately show ?thesis
        using preserved_candidate_ok m c' by blast
    qed
    then have "candidates_ok (combo_map ?e1) (press_counter e) (held_bindings e) ?cs"
      using preserve_keys_distinct [of ?e1 ids] inv by (simp add: candidates_ok_def)
    then have "engine_inv (preserve_candidates ids ?e1)"
      using fs held by (simp add: engine_inv_def preserve_candidates_def held_orders_ok_def held_indexes_ok_def)
    with Some show ?thesis by (simp add: set_combos_def)
  qed
qed

section \<open>The machine\<close>

datatype 'a engine_op =
    SetCombos "'a RuntimeCombo list" "string set option"
  | PrimeHeld "RuntimeComboBinding set"
  | DropScope string "string option"
  | HandleEvent ComboInputEvent rat
  | ExpireTimeouts rat

fun engine_guard :: "'a ComboEngine \<Rightarrow> 'a engine_op \<Rightarrow> bool" where
  "engine_guard e (SetCombos combos ids) = (combos_ok combos \<and> preserve_ok e combos ids)"
| "engine_guard e (PrimeHeld held) = True"
| "engine_guard e (DropScope hw src) = True"
| "engine_guard e (HandleEvent event now) = event_value_ok event"
| "engine_guard e (ExpireTimeouts now) = True"

text \<open>A handler that raised would leave the engine as it is; \<open>engine_never_raises\<close> excludes it.\<close>

fun engine_step :: "set_order \<Rightarrow> 'a ComboEngine \<Rightarrow> 'a engine_op \<Rightarrow> 'a ComboEngine" where
  "engine_step it e (SetCombos combos ids) = set_combos combos ids e"
| "engine_step it e (PrimeHeld held) = prime_held_bindings held e"
| "engine_step it e (DropScope hw src) = snd (drop_candidates_for_binding_scope it hw src e)"
| "engine_step it e (HandleEvent event now) =
    (case handle_event it event now e of None \<Rightarrow> e | Some (d, e') \<Rightarrow> e')"
| "engine_step it e (ExpireTimeouts now) = snd (expire_timeouts now e)"

lemma engine_machine:
  assumes it: "set_iteration it"
  shows "inv_machine engine_init engine_guard (engine_step it) engine_inv"
proof
  show "engine_inv engine_init" by (rule engine_inv_init)
  fix e :: "'a ComboEngine" and op
  assume inv: "engine_inv e" and g: "engine_guard e op"
  show "engine_inv (engine_step it e op)"
  proof (cases op)
    case (HandleEvent event now)
    then show ?thesis
      using handle_event_effect [OF it inv, of event now] g by (auto simp: event_effect_def)
  qed (use inv g it in \<open>simp_all add: set_combos_inv prime_held_bindings_inv drop_scope_inv expire_timeouts_inv\<close>)
qed

interpretation combo_engine: inv_machine engine_init engine_guard
    "engine_step sorted_list_of_set" engine_inv
  by (rule engine_machine [OF sorted_iteration.set_iteration_axioms])

end
