(* ===== verification/Combo_Firing.thy ===== *)
theory Combo_Firing
  imports Combo_Machine
begin

text \<open>
  When a press completes something: which waiting candidates complete their step, and that a combo
  whose first step is satisfied by the held keys is activated, whatever the other combos do with
  the same press.
\<close>

section \<open>Waiting candidates\<close>

definition completes_step :: "'a ActiveCandidate \<Rightarrow> bool" where
  "completes_step c =
    (case current_step c of None \<Rightarrow> False
     | Some st \<Rightarrow> card (pressed_bindings c) + 1 = length (bindings st))"

lemma press_matching_candidate_completed:
  "press_matching_candidate b now cid ps = Some ps' \<Longrightarrow> map_of (candidates (ps_engine ps)) cid = Some c \<Longrightarrow>
   ps_completed_step ps' = (ps_completed_step ps \<or> completes_step c)"
  by (auto simp: press_matching_candidate_def completes_step_def finish_completed_frame Let_def
      split: bind_splits if_splits prod.splits)

lemma press_matching_completed:
  assumes "engine_inv (ps_engine ps)" and "distinct cids"
    and "\<forall>cid\<in>set cids. \<exists>c. map_of (candidates (ps_engine ps)) cid = Some c \<and> \<not> releasing c \<and> matches_current c b"
    and "binding_is_pulse b \<or> b \<in> held_bindings (ps_engine ps)"
    and "press_matching b now cids ps = Some ps'"
    and "cid \<in> set cids" and "map_of (candidates (ps_engine ps)) cid = Some c" and "completes_step c"
  shows "ps_completed_step ps'"
proof -
  have mono: "press_matching b now cids ps = Some ps' \<Longrightarrow> ps_completed_step ps \<Longrightarrow> ps_completed_step ps'"
    for cids and ps ps' :: "'a press_state"
  proof (induction cids arbitrary: ps)
    case (Cons x xs)
    then obtain ps1 where "press_matching_candidate b now x ps = Some ps1" "press_matching b now xs ps1 = Some ps'"
      by (auto split: bind_splits)
    moreover from this(1) obtain d where "map_of (candidates (ps_engine ps)) x = Some d"
      by (auto simp: press_matching_candidate_def split: bind_splits)
    ultimately show ?case
      using Cons.IH [of ps1] Cons.prems(2) press_matching_candidate_completed by metis
  qed simp
  show ?thesis
    using assms
  proof (induction cids arbitrary: ps)
    case (Cons x xs)
    obtain d where d: "map_of (candidates (ps_engine ps)) x = Some d" "\<not> releasing d" "matches_current d b"
      using Cons.prems(3) by auto
    obtain ps1 where 1: "press_matching_candidate b now x ps = Some ps1" "press_effect ps ps1"
      "\<forall>y. y \<noteq> x \<longrightarrow> map_of (candidates (ps_engine ps1)) y = map_of (candidates (ps_engine ps)) y"
      using press_matching_candidate_effect [OF Cons.prems(1) d Cons.prems(4), of now] by blast
    then have rest: "press_matching b now xs ps1 = Some ps'" using Cons.prems(5) by simp
    show ?case
    proof (cases "cid = x")
      case True
      then have "ps_completed_step ps1"
        using press_matching_candidate_completed [OF 1(1) d(1)] Cons.prems(7,8) d(1) by simp
      with mono [OF rest] show ?thesis by simp
    next
      case False
      have held: "held_bindings (ps_engine ps1) = held_bindings (ps_engine ps)"
        and inv1: "engine_inv (ps_engine ps1)"
        using 1(2) by (simp_all add: press_effect_def engine_frameD(1))
      have "\<forall>y\<in>set xs. \<exists>c. map_of (candidates (ps_engine ps1)) y = Some c \<and> \<not> releasing c \<and> matches_current c b"
        using Cons.prems(2,3) 1(3) by (metis distinct.simps(2) list.set_intros(2))
      moreover have "cid \<in> set xs" using False Cons.prems(6) by simp
      moreover have "map_of (candidates (ps_engine ps1)) cid = Some c" using False 1(3) Cons.prems(7) by simp
      ultimately show ?thesis
        using Cons.IH [OF inv1 _ _ _ rest] Cons.prems(2,4,8) held by simp
    qed
  qed simp
qed

lemma in_combo_order_facts [simp]:
  "set (in_combo_order e cids) = set cids" "distinct (in_combo_order e cids) = distinct cids"
  by (simp_all add: in_combo_order_def)

lemma waiting_completion_consumes:
  assumes inv: "engine_inv e" and b: "binding_is_pulse b \<or> b \<in> held_bindings e"
    and c: "(cid, c) \<in> set (candidates e)" "\<not> releasing c" "matches_current c b"
      "b \<notin> pressed_bindings c" "completes_step c"
    and res: "handle_waiting_candidate_press b now e = Some (d, e')"
  shows "consume_current_event d"
proof -
  let ?W = "filter (\<lambda>p. \<not> releasing (snd p)) (candidates e)"
  define M where "M = map fst (filter (\<lambda>p. b \<notin> pressed_bindings (snd p) \<and> matches_current (snd p) b) ?W)"
  define R where "R = map fst (filter (\<lambda>p. b \<in> pressed_bindings (snd p)) ?W)"
  define S where "S = map fst (filter (\<lambda>p. b \<in> pressed_bindings (snd p) \<or> matches_current (snd p) b
      \<or> matches_scope_now (snd p) b) ?W)"
  define N where "N = map fst (filter (\<lambda>p. b \<notin> pressed_bindings (snd p) \<and> \<not> matches_current (snd p) b
      \<and> matches_scope_now (snd p) b) ?W)"
  let ?e1 = "e\<lparr>candidates := dict_without N (candidates e)\<rparr>"
  have "\<forall>p\<in>set ?W. step_index (snd p) < length (steps (candidate_combo (snd p)))"
    using engine_inv_in [OF inv] by (auto simp: candidate_ok_def candidate_core_def)
  note cw = classify_waiting_eq [OF this, of b, folded M_def R_def S_def N_def]
  have d: "distinct (map fst (candidates e))" using inv by simp
  have inv1: "engine_inv ?e1" by (rule without_waiting_inv [OF inv])
  have kept: "map_of (candidates ?e1) x = Some y"
    if "(x, y) \<in> set (candidates e)" "matches_current y b" for x y
  proof -
    have "x \<notin> set N" using d that by (auto simp: N_def dest: eq_key_imp_eq_value)
    with that(1) have "(x, y) \<in> set (candidates ?e1)" by (simp add: set_dict_without)
    then show ?thesis by (rule map_of_is_SomeI [OF engine_inv_distinct [OF inv1]])
  qed
  have all: "\<forall>x\<in>set M. \<exists>y. map_of (candidates ?e1) x = Some y \<and> \<not> releasing y \<and> matches_current y b"
  proof
    fix x assume "x \<in> set M"
    then obtain y where y: "(x, y) \<in> set (candidates e)" "\<not> releasing y" "matches_current y b"
      by (auto simp: M_def)
    with kept [OF y(1,3)] show "\<exists>y. map_of (candidates ?e1) x = Some y \<and> \<not> releasing y \<and> matches_current y b"
      by blast
  qed
  have cid: "cid \<in> set M" using c by (force simp: M_def)
  then have M: "M \<noteq> []" by auto
  have W: "?W \<noteq> []" using c by (force simp: filter_empty_conv)
  obtain ps where ps: "press_matching b now (in_combo_order e M) (press_state_of ?e1) = Some ps"
    "consume_current_event d = (ps_transitions ps \<noteq> [] \<or> ps_completed_step ps \<or>
        list_ex (\<lambda>cid. case map_of (candidates (ps_engine ps)) cid of None \<Rightarrow> False | Some c \<Rightarrow> releasing c) M)"
    using res W M unfolding handle_waiting_candidate_press_def Let_def
    by (auto simp: cw split: bind_splits)
  have "ps_completed_step ps"
    using press_matching_completed [OF _ _ _ _ ps(1), of cid c] inv1 all cid kept [OF c(1,3)] c(5) b d
    by (simp add: press_state_of_def M_def distinct_map_filter)
  with ps(2) show ?thesis by simp
qed

section \<open>First steps\<close>

lemma track_press_bindings:
  "track_press b p (n, c) = (n', c') \<Longrightarrow>
   tracked_binding ` set (tracked_presses c') = insert b (tracked_binding ` set (tracked_presses c))"
  by (auto simp: track_press_def Let_def list_ex_iff split: if_splits)

lemma fold_track_bindings:
  "fold (\<lambda>h. track_press h (f h)) bs (n, c) = (n', c') \<Longrightarrow>
   tracked_binding ` set (tracked_presses c') = set bs \<union> tracked_binding ` set (tracked_presses c)"
proof (induction bs arbitrary: n c)
  case (Cons b bs)
  obtain n1 c1 where 1: "track_press b (f b) (n, c) = (n1, c1)" by force
  with Cons show ?case by (auto simp: track_press_bindings [OF 1])
qed simp

lemma complete_current_step_bindings:
  "complete_current_step b fin p (n, c) = (n', c') \<Longrightarrow> b \<in> tracked_binding ` set (tracked_presses c) \<Longrightarrow>
   tracked_presses c' = tracked_presses c \<and> candidate_combo c' = candidate_combo c \<and> action_active c' = fin"
  by (auto simp: complete_current_step_def list_ex_iff Let_def split: if_splits)

definition fired :: "'a RuntimeCombo \<Rightarrow> RuntimeComboBinding \<Rightarrow> RuntimeComboBinding set \<Rightarrow>
    'a ComboActionTransition \<Rightarrow> bool" where
  "fired combo b held t \<longleftrightarrow>
    transition_combo_id t = combo_id combo \<and> transition_action t = combo_action combo
    \<and> transition_kind t = (if binding_is_pulse b then ''pulse'' else ''press'')
    \<and> trigger_binding t = b \<and> set (trigger_bindings t) = held"

lemma fold_track_press_combo:
  "fold (\<lambda>h. track_press h (f h)) bs (n, c) = (n', c') \<Longrightarrow> candidate_combo c' = candidate_combo c"
proof (induction bs arbitrary: n c)
  case (Cons b bs)
  obtain n1 c1 where 1: "track_press b (f b) (n, c) = (n1, c1)" by force
  with Cons show ?case using track_press_frame [OF 1] by simp
qed simp

lemma activate_first_step_fires:
  assumes it: "set_iteration it" and inv: "engine_inv (ps_engine (as_press s))"
    and st: "steps combo \<noteq> []" "step_matches_binding (hd (steps combo)) b"
    and free: "map_of (candidates (ps_engine (as_press s))) (combo_id combo) = None"
    and held: "held_bindings_for_step it (ps_engine (as_press s)) (hd (steps combo)) (Some b) = Some held"
    and pulse: "binding_is_pulse b \<longrightarrow> pulse_can_complete_first_step combo b held"
    and res: "activate_first_step it b now combo s = Some s'"
  shows "as_matched s' \<and> (length (steps combo) = 1 \<longrightarrow> (\<exists>t\<in>set (ps_transitions (as_press s')). fired combo b held t))"
proof -
  let ?e = "ps_engine (as_press s)"
  obtain st' rest where st': "steps combo = st' # rest" using st(1) by (cases "steps combo") auto
  note hs = held_bindings_for_step_sound [OF it inv held]
  let ?ord = "sort_key (\<lambda>h. case held_press_order ?e h of None \<Rightarrow> press_counter ?e + 1 | Some n \<Rightarrow> n) (it held)"
  obtain n c where f: "fold (\<lambda>h. track_press h (h \<noteq> b)) ?ord (press_counter ?e, new_candidate combo) = (n, c)"
    by force
  obtain n1 c1 where 1: "complete_current_step b (length (steps combo) = 1) False (n, c) = (n1, c1)" by force
  have tr: "tracked_binding ` set (tracked_presses c) = held"
    using fold_track_bindings [OF f] hs(1) by (simp add: set_iteration.set_it [OF it] new_candidate_def)
  have b: "b \<in> held" using hs(5) st(2) by simp
  have c1: "tracked_presses c1 = tracked_presses c \<and> candidate_combo c1 = candidate_combo c
      \<and> action_active c1 = (length (steps combo) = 1)"
    using complete_current_step_bindings [OF 1] b tr by simp
  have cc: "candidate_combo c = combo" using fold_track_press_combo [OF f] by (simp add: new_candidate_def)
  obtain c2 where c2: "advance_pulse_completed_step now c1 = Some c2"
      "s' = s\<lparr> as_matched := True, as_press := finish_completed (combo_id combo) b (n1, c2) (as_press s) \<rparr>"
    using res free held pulse st' f 1
    by (auto simp: activate_first_step_def Let_def split: bind_splits)
  have "\<exists>t\<in>set (ps_transitions (as_press s')). fired combo b held t" if one: "length (steps combo) = 1"
  proof -
    have "c2 = c1" using c2(1) c1 one by (simp add: advance_pulse_completed_step_def)
    then have "press_transition c1 b \<in> set (ps_transitions (as_press s'))"
      using c2(2) c1 one by (simp add: finish_completed_def Let_def)
    moreover have "fired combo b held (press_transition c1 b)"
      using c1 cc tr by (simp add: fired_def press_transition_def candidate_trigger_bindings_def)
    ultimately show ?thesis by blast
  qed
  with c2(2) show ?thesis by simp
qed

lemma activate_first_step_frame:
  assumes "activate_first_step it b now combo s = Some s'"
  shows "(as_matched s \<longrightarrow> as_matched s')
    \<and> set (ps_transitions (as_press s)) \<subseteq> set (ps_transitions (as_press s'))
    \<and> (cid \<noteq> combo_id combo \<longrightarrow>
         map_of (candidates (ps_engine (as_press s'))) cid = map_of (candidates (ps_engine (as_press s))) cid)"
  using assms
  by (auto simp: activate_first_step_def Let_def finish_completed_others finish_completed_def
      split: option.splits list.splits if_splits bind_splits prod.splits)

lemma held_bindings_for_bindings_cong:
  "held_candidates_for_binding e' = held_candidates_for_binding e \<Longrightarrow>
   held_bindings_for_bindings it e' cur es M f = held_bindings_for_bindings it e cur es M f"
  by (induction it e cur es M f rule: held_bindings_for_bindings.induct)
     (auto split: option.splits)

lemma held_bindings_for_step_frame:
  assumes "engine_frame e e'"
  shows "held_bindings_for_step it e' st cur = held_bindings_for_step it e st cur"
  unfolding held_bindings_for_step_def
  by (intro held_bindings_for_bindings_cong)
     (simp add: fun_eq_iff held_candidates_for_binding_def engine_frameD [OF assms] split: prod.split)

lemma activate_first_steps_fires:
  assumes it: "set_iteration it" and "engine_inv (ps_engine (as_press s))"
    and "\<forall>c\<in>set combos. steps c \<noteq> [] \<and> step_matches_binding (hd (steps c)) b
      \<and> combo_map (ps_engine (as_press s)) (combo_id c) = Some c"
    and "binding_is_pulse b \<or> b \<in> held_bindings (ps_engine (as_press s))"
    and "distinct (map combo_id combos)" and "combo \<in> set combos"
    and "map_of (candidates (ps_engine (as_press s))) (combo_id combo) = None"
    and "held_bindings_for_step it (ps_engine (as_press s)) (hd (steps combo)) (Some b) = Some held"
    and pulse: "binding_is_pulse b \<longrightarrow> pulse_can_complete_first_step combo b held"
    and "activate_first_steps it b now combos s = Some s'"
  shows "as_matched s' \<and> (length (steps combo) = 1 \<longrightarrow> (\<exists>t\<in>set (ps_transitions (as_press s')). fired combo b held t))"
proof -
  have mono: "activate_first_steps it b now combos s = Some s' \<Longrightarrow>
      (as_matched s \<longrightarrow> as_matched s') \<and> set (ps_transitions (as_press s)) \<subseteq> set (ps_transitions (as_press s'))"
    for combos and s s' :: "'a activation_state"
  proof (induction combos arbitrary: s)
    case (Cons x xs)
    then obtain s1 where "activate_first_step it b now x s = Some s1" "activate_first_steps it b now xs s1 = Some s'"
      by (auto split: bind_splits)
    with activate_first_step_frame [of it b now x s s1] Cons.IH [of s1] show ?case by blast
  qed simp
  show ?thesis
    using assms(2-8,10)
  proof (induction combos arbitrary: s)
    case (Cons x xs)
    obtain s1 where s1: "activate_first_step it b now x s = Some s1" "activate_first_steps it b now xs s1 = Some s'"
      using Cons.prems(8) by (auto split: bind_splits)
    note m = mono [OF s1(2)]
    show ?case
    proof (cases "combo = x")
      case True
      then show ?thesis
        using activate_first_step_fires [OF it Cons.prems(1) _ _ Cons.prems(6,7) pulse] s1(1) Cons.prems(2) m
        by fastforce
    next
      case False
      have "\<exists>s1'. activate_first_step it b now x s = Some s1' \<and> press_effect (as_press s) (as_press s1')"
        using Cons.prems by (intro activate_first_step_effect [OF it]) simp_all
      then have eff: "engine_inv (ps_engine (as_press s1))" "engine_frame (ps_engine (as_press s)) (ps_engine (as_press s1))"
        using s1(1) by (simp_all add: press_effect_def)
      have "combo_id combo \<noteq> combo_id x" using False Cons.prems(4,5) by (auto simp: image_iff)
      then have "map_of (candidates (ps_engine (as_press s1))) (combo_id combo) = None"
        using activate_first_step_frame [OF s1(1), of "combo_id combo"] Cons.prems(6) by simp
      then show ?thesis
        using Cons.IH [OF eff(1) _ _ _ _ _ _ s1(2)] False Cons.prems(2-5,7) engine_frameD(1,3) [OF eff(2)]
          held_bindings_for_step_frame [OF eff(2)] by simp
    qed
  qed simp
qed

section \<open>Press events\<close>

lemma press_matching_free:
  assumes "press_matching b now cids ps = Some ps'" and "map_of (candidates (ps_engine ps)) x = None"
  shows "map_of (candidates (ps_engine ps')) x = None"
  using assms
proof (induction cids arbitrary: ps)
  case (Cons cid cids)
  then obtain ps1 where 1: "press_matching_candidate b now cid ps = Some ps1" "press_matching b now cids ps1 = Some ps'"
    by (auto split: bind_splits)
  moreover from 1(1) Cons.prems(2) have "x \<noteq> cid"
    by (auto simp: press_matching_candidate_def split: bind_splits)
  then have "map_of (candidates (ps_engine ps1)) x = None"
    using 1(1) Cons.prems(2)
    by (auto simp: press_matching_candidate_def finish_completed_others Let_def
        split: bind_splits if_splits prod.splits)
  ultimately show ?case using Cons.IH by blast
qed simp

lemma map_of_without_None: "map_of d k = None \<Longrightarrow> map_of (dict_without ks d) k = None"
  by (auto simp: map_of_eq_None_iff set_dict_without)

lemma handle_waiting_free:
  assumes res: "handle_waiting_candidate_press b now e = Some (d, e')"
    and free: "map_of (candidates e) x = None"
  shows "map_of (candidates e') x = None"
proof -
  have press: "map_of (candidates (ps_engine ps)) x = None"
    if "press_matching b now cids (press_state_of (e\<lparr>candidates := dict_without ks (candidates e)\<rparr>)) = Some ps"
    for ks cids ps
    using press_matching_free [OF that] map_of_without_None [OF free] by (simp add: press_state_of_def)
  show ?thesis
    using res free unfolding handle_waiting_candidate_press_def Let_def
    by (auto simp: map_of_without_None dest!: press split: bind_splits if_splits prod.splits)
qed

lemma candidate_first_step_combos_distinct:
  assumes "first_steps_ok e"
  shows "distinct (map combo_id (candidate_first_step_combos e b))"
proof -
  have id: "combo_id combo = cid" if "combo_map e cid = Some combo" for cid combo
    using assms that by (simp add: first_steps_ok_def)
  have "distinct ids \<Longrightarrow> distinct (map combo_id (List.map_filter (combo_map e) ids))
      \<and> set (map combo_id (List.map_filter (combo_map e) ids)) \<subseteq> set ids" for ids
    by (induction ids) (auto simp: List.map_filter_simps id split: option.split)
  from conjunct1 [OF this [OF candidate_first_step_combo_ids_distinct]] show ?thesis
    unfolding candidate_first_step_combos_def .
qed

lemma handle_press_fires:
  assumes it: "set_iteration it" and inv: "engine_inv e"
    and b: "binding_is_pulse b \<or> b \<in> held_bindings e"
    and combo: "combo \<in> set (candidate_first_step_combos e b)"
    and free: "combo_id combo \<notin> fst ` set (candidates e)"
    and held: "held_bindings_for_step it e (hd (steps combo)) (Some b) = Some held"
    and pulse: "binding_is_pulse b \<longrightarrow> pulse_can_complete_first_step combo b held"
    and res: "handle_press_event it b now e = Some (d, e')"
  shows "consume_current_event d
    \<and> (length (steps combo) = 1 \<longrightarrow> (\<exists>t\<in>set (decision_transitions d). fired combo b held t))"
proof -
  obtain dw e1 where w: "handle_waiting_candidate_press b now e = Some (dw, e1)" "handler_effect e dw e1"
    using handle_waiting_effect [OF inv b, of now] by blast
  then have inv1: "engine_inv e1" and fr: "engine_frame e e1" by (simp_all add: handler_effect_def)
  have "map_of (candidates e) (combo_id combo) = None" using free by (simp add: map_of_eq_None_iff)
  then have free1: "map_of (candidates e1) (combo_id combo) = None" by (rule handle_waiting_free [OF w(1)])
  have same: "candidate_first_step_combos e1 b = candidate_first_step_combos e b"
    by (simp add: candidate_first_step_combos_def candidate_first_step_combo_ids_def engine_frameD [OF fr])
  have ok: "first_steps_ok e" using inv by (simp add: engine_inv_def)
  obtain s where s: "activate_first_steps it b now (candidate_first_step_combos e b)
        \<lparr>as_press = press_state_of e1, as_matched = False\<rparr> = Some s"
      "d = merge_decisions [dw, with_transitions (ps_transitions (as_press s))
          (ComboDecision_default\<lparr> consume_current_event := True,
             recall_events := dedupe_recall_events (ps_recall_events (as_press s)) \<rparr>)]
       \<or> \<not> as_matched s"
    using res w(1) same
    by (fastforce simp: handle_press_event_def activate_satisfied_first_steps_def Let_def merge_decisions_def
        split: bind_splits if_splits)
  have "as_matched s \<and> (length (steps combo) = 1 \<longrightarrow> (\<exists>t\<in>set (ps_transitions (as_press s)). fired combo b held t))"
    by (rule activate_first_steps_fires [OF it _ _ _ _ combo _ _ pulse s(1)])
       (use inv1 b free1 held candidate_first_step_combosD [OF ok] candidate_first_step_combos_distinct [OF ok]
          engine_frameD(1,3) [OF fr] held_bindings_for_step_frame [OF fr] in \<open>auto simp: press_state_of_def\<close>)
  with s(2) show ?thesis by (auto simp: merge_decisions_def Let_def)
qed

lemma press_consumes_if_waiting:
  assumes "handle_press_event it b now e = Some (d, e')"
    and "handle_waiting_candidate_press b now e = Some (dw, e1)" and "consume_current_event dw"
  shows "consume_current_event d"
  using assms by (auto simp: handle_press_event_def merge_decisions_def Let_def split: bind_splits)

section \<open>The first-step index\<close>

lemma first_steps_ok_cong:
  "combo_map e = combo_map e' \<Longrightarrow> first_step_binding_index e = first_step_binding_index e' \<Longrightarrow>
   first_steps_ok e' \<Longrightarrow> first_steps_ok e"
  by (simp only: first_steps_ok_def)

lemma first_step_combos_set:
  assumes ok: "combos_ok combos"
  shows "set (candidate_first_step_combos (set_combos combos preserve_ids e) b)
      = {combo \<in> set combos. step_matches_binding (hd (steps combo)) b}
    \<and> distinct (candidate_first_step_combos (set_combos combos preserve_ids e) b)"
proof -
  let ?e = "set_combos combos preserve_ids e"
  have d: "distinct (map combo_id combos)" using ok by (simp add: combos_ok_def)
  have fields: "combo_map ?e = map_of (rev (map (\<lambda>c. (combo_id c, c)) combos))"
    "first_step_binding_index ?e = build_first_step_index combos Map.empty"
    by (simp_all add: set_combos_def Let_def preserve_candidates_def engine_reset_def split: option.split)
  have fs: "first_steps_ok ?e"
    by (rule first_steps_ok_cong [OF _ _ set_combos_first_steps_ok [OF ok, where e = engine_init and ord = "\<lambda>_. None"]])
       (simp_all add: fields)
  have dist: "distinct (candidate_first_step_combos ?e b)"
    using candidate_first_step_combos_distinct [OF fs, of b] by (simp add: distinct_map)
  have "combo \<in> set (candidate_first_step_combos ?e b) \<longleftrightarrow>
      combo \<in> set combos \<and> step_matches_binding (hd (steps combo)) b" for combo
  proof
    assume m: "combo \<in> set (candidate_first_step_combos ?e b)"
    then have "combo_map ?e (combo_id combo) = Some combo" and "step_matches_binding (hd (steps combo)) b"
      using candidate_first_step_combosD [OF fs m] by simp_all
    then show "combo \<in> set combos \<and> step_matches_binding (hd (steps combo)) b"
      by (simp add: fields combo_map_of [OF d] combo_with_id_iff [OF d])
  next
    assume c: "combo \<in> set combos \<and> step_matches_binding (hd (steps combo)) b"
    obtain hw nm src where b: "normalized_binding_parts b = (hw, nm, src)"
      by (cases "normalized_binding_parts b")
    obtain sb hk sk where sb: "sb \<in> set (bindings (hd (steps combo)))" "normalized_binding_parts sb = (hk, nm, sk)"
        "hk \<in> {hw, []}" "sk \<in> {src, []}"
    proof -
      obtain sb where m: "sb \<in> set (bindings (hd (steps combo)))" "binding_matches sb b"
        using c by (auto simp: step_matches_binding_def list_ex_iff)
      obtain hk en sk where p: "normalized_binding_parts sb = (hk, en, sk)"
        by (cases "normalized_binding_parts sb")
      with m(2) b have "en = nm" "hk \<in> {hw, []}" "sk \<in> {src, []}"
        by (auto simp: binding_matches_def)
      with m(1) p that show thesis by blast
    qed
    have "combo_id combo \<in> set (indexed_ids (build_first_step_index combos Map.empty) (hk, nm, sk))"
      unfolding indexed_ids_build using c sb(1,2) ok by (auto simp: combos_ok_def)
    then have "combo_id combo \<in> set (candidate_first_step_combo_ids ?e b)"
      unfolding candidate_first_step_combo_ids_iff [OF b] fields
      using sb(3,4) by (auto simp: in_indexed_ids)
    moreover have "combo_map ?e (combo_id combo) = Some combo"
      using c by (simp add: fields combo_map_of [OF d] combo_with_id_iff [OF d])
    ultimately show "combo \<in> set (candidate_first_step_combos ?e b)"
      by (auto simp: candidate_first_step_combos_def in_map_filter)
  qed
  with dist show ?thesis by auto
qed

end
