(* ===== verification/Combo_Properties.thy ===== *)
theory Combo_Properties
  imports Combo_Firing
begin

text \<open>
  The properties of the combo engine, for every engine its own operations reach and every order
  in which Python may iterate a set.  The witnesses run the engine on a two-step combo.
\<close>

section \<open>A concrete configuration for the witnesses\<close>

definition kb :: "string \<Rightarrow> RuntimeComboBinding" where
  "kb k = RuntimeComboBinding ''kbd'' k ''''"

definition demo_combo :: "string \<Rightarrow> RuntimeComboStep list \<Rightarrow> string RuntimeCombo" where
  "demo_combo cid sts =
    \<lparr> combo_id = cid, combo_name = cid, steps = sts, combo_action = Some cid,
      combo_profile_name = ''p'', recall_trigger_keys = False, restore_trigger_keys = [],
      match_across_devices = False, release_outputs_on_cancel = False \<rparr>"

definition two_step :: "string RuntimeCombo" where
  "two_step = demo_combo ''c''
     [RuntimeComboStep [kb ''key_x''] None, RuntimeComboStep [kb ''ctrl'', kb ''key_a''] None]"

definition key_event :: "string \<Rightarrow> int \<Rightarrow> ComboInputEvent" where
  "key_event k v = ComboInputEvent (kb k) v"

definition demo_ops :: "string engine_op list" where
  "demo_ops = [SetCombos [two_step] None, HandleEvent (key_event ''key_x'' 1) 0,
     HandleEvent (key_event ''key_x'' 0) 0]"

lemma demo_combos_ok: "combos_ok [two_step]"
  by (simp add: combos_ok_def two_step_def demo_combo_def)

lemma demo_guard: "guarded_run engine_guard (engine_step it) engine_init demo_ops"
  by (simp add: demo_ops_def demo_combos_ok preserve_ok_def key_event_def event_value_ok_def)

lemmas sorted_order = sorted_iteration.set_iteration_axioms

section \<open>No handler raises\<close>

lemma engine_reachable_inv:
  "set_iteration it \<Longrightarrow> guarded_run engine_guard (engine_step it) engine_init ops \<Longrightarrow>
   engine_inv (run_steps (engine_step it) engine_init ops)"
  by (rule inv_machine.inv_run [OF engine_machine])

lemma pulse_completes_candidate_total:
  "\<forall>p\<in>set cs. step_index (snd p) < length (steps (candidate_combo (snd p))) \<Longrightarrow>
   \<exists>r. pulse_completes_candidate b cs = Some r"
  by (induction b cs rule: pulse_completes_candidate.induct) auto

lemma pulse_completes_first_step_total:
  "\<forall>combo\<in>set combos. steps combo \<noteq> [] \<Longrightarrow> \<exists>r. pulse_completes_first_step it e b combos = Some r"
  by (induction it e b combos rule: pulse_completes_first_step.induct)
     (auto split: option.split list.split)

lemma would_consume_pulse_total:
  assumes "engine_inv e"
  shows "\<exists>r. would_consume_pulse it b e = Some r"
proof -
  have "\<forall>p\<in>set (candidates e). step_index (snd p) < length (steps (candidate_combo (snd p)))"
    using engine_inv_in [OF assms] by (auto simp: candidate_ok_def candidate_core_def)
  then obtain r where r: "pulse_completes_candidate b (candidates e) = Some r"
    using pulse_completes_candidate_total by blast
  have "first_steps_ok e" using assms by (simp add: engine_inv_def)
  then have "\<forall>combo\<in>set (candidate_first_step_combos e b). steps combo \<noteq> []"
    using candidate_first_step_combosD by blast
  then obtain s where "pulse_completes_first_step it e b (candidate_first_step_combos e b) = Some s"
    using pulse_completes_first_step_total by blast
  with r show ?thesis by (cases r) (auto simp: would_consume_pulse_def)
qed

lemma engine_never_raises_run:
  assumes "set_iteration it" and "guarded_run engine_guard (engine_step it) engine_init ops"
    and "event_value_ok event"
  shows "\<exists>d e'. handle_event it event now (run_steps (engine_step it) engine_init ops) = Some (d, e')"
  using handle_event_effect [OF assms(1) engine_reachable_inv [OF assms(1,2)] assms(3)] by blast

text \<open>C10. An engine reached by any sequence of its public operations, in any iteration order of
  Python's sets, handles every event (a press, a release or a repeat) and predicts every pulse
  without raising, and satisfies the representation invariant.\<close>

theorem engine_never_raises:
  assumes "set_iteration it" and "guarded_run engine_guard (engine_step it) engine_init ops"
    and "event_value_ok event"
  shows "engine_inv (run_steps (engine_step it) engine_init ops)
    \<and> (\<exists>d e'. handle_event it event now (run_steps (engine_step it) engine_init ops) = Some (d, e'))
    \<and> (\<exists>r. would_consume_pulse it b (run_steps (engine_step it) engine_init ops) = Some r)"
proof -
  have inv: "engine_inv (run_steps (engine_step it) engine_init ops)"
    using assms(1,2) by (rule engine_reachable_inv)
  then show ?thesis
    using handle_event_effect [OF assms(1) inv assms(3)] would_consume_pulse_total [OF inv] by blast
qed

theorem engine_never_raises_witness:
  "\<exists>d e'. handle_event sorted_list_of_set (key_event ''key_a'' 1) 1
     (run_steps (engine_step sorted_list_of_set) engine_init demo_ops) = Some (d, e')"
  using engine_never_raises [OF sorted_order demo_guard, of "key_event ''key_a'' 1" 1 "kb ''wheel_up''"]
  by (simp add: key_event_def event_value_ok_def)

section \<open>The life of an action\<close>

fun event_trace ::
    "set_order \<Rightarrow> 'a ComboEngine \<Rightarrow> (ComboInputEvent \<times> rat) list \<Rightarrow>
     'a ComboActionTransition list \<times> 'a ComboEngine" where
  "event_trace it e [] = ([], e)"
| "event_trace it e ((event, now) # evs) =
    (case handle_event it event now e of
       None \<Rightarrow> ([], e)
     | Some (d, e1) \<Rightarrow>
         let (ts, e') = event_trace it e1 evs in (decision_transitions d @ ts, e'))"

definition action_history :: "string \<Rightarrow> 'a ComboActionTransition list \<Rightarrow> string list" where
  "action_history cid ts =
    map transition_kind (filter (\<lambda>t. transition_combo_id t = cid \<and> transition_kind t \<noteq> ''pulse'') ts)"

fun alternates :: "bool \<Rightarrow> string list \<Rightarrow> bool" where
  "alternates active [] = True"
| "alternates active (k # ks) =
    (k = (if active then ''release'' else ''press'') \<and> alternates (\<not> active) ks)"

lemma action_run_alternates:
  "action_run S ts = Some S' \<Longrightarrow>
   alternates (cid \<in> S) (action_history cid ts)
   \<and> (cid \<in> S' \<longleftrightarrow> (cid \<in> S) \<noteq> odd (length (action_history cid ts)))"
proof (induction ts arbitrary: S)
  case (Cons t ts)
  then obtain S1 where S1: "action_step S t = Some S1" "action_run S1 ts = Some S'"
    by (auto split: option.splits)
  then show ?case
    using Cons.IH [OF S1(2)]
    by (auto simp: action_step_def Let_def action_history_def split: if_splits)
qed (simp add: action_history_def)

lemma event_trace_run:
  "set_iteration it \<Longrightarrow> engine_inv e \<Longrightarrow> list_all (\<lambda>p. event_value_ok (fst p)) evs \<Longrightarrow>
   event_trace it e evs = (ts, e') \<Longrightarrow>
   engine_inv e' \<and> action_run (active_ids (candidates e)) ts = Some (active_ids (candidates e'))"
proof (induction evs arbitrary: e ts)
  case (Cons p evs)
  obtain event now where p: "p = (event, now)" by force
  obtain d e1 where h: "handle_event it event now e = Some (d, e1)" "event_effect e d e1"
    using handle_event_effect [OF Cons.prems(1,2)] Cons.prems(3) by (force simp: p)
  obtain ts1 where ts: "event_trace it e1 evs = (ts1, e')" "ts = decision_transitions d @ ts1"
    using Cons.prems(4) h(1) by (auto simp: p split: prod.splits)
  have "engine_inv e1" using h(2) by (simp add: event_effect_def)
  then have "engine_inv e' \<and> action_run (active_ids (candidates e1)) ts1 = Some (active_ids (candidates e'))"
    using Cons.IH [OF Cons.prems(1) _ _ ts(1)] Cons.prems(3) by simp
  then show ?case using h(2) by (simp add: ts(2) action_run_append event_effect_def)
qed simp

text \<open>C1. The engine implements the machine of actions: over any sequence of events the
  transitions it emits take the set of combos whose action was active to the set whose action is
  active now, so for each combo presses and releases strictly alternate, starting with the kind
  its state asks for, and a pulse is only emitted for a combo that is not active.\<close>

theorem action_lifecycle:
  assumes "set_iteration it" and "guarded_run engine_guard (engine_step it) engine_init ops"
    and "list_all (\<lambda>p. event_value_ok (fst p)) evs"
    and "event_trace it (run_steps (engine_step it) engine_init ops) evs = (ts, e')"
  shows "action_run (active_ids (candidates (run_steps (engine_step it) engine_init ops))) ts
      = Some (active_ids (candidates e'))
    \<and> alternates (cid \<in> active_ids (candidates (run_steps (engine_step it) engine_init ops)))
        (action_history cid ts)"
proof -
  have "engine_inv (run_steps (engine_step it) engine_init ops)"
    using assms(1,2) by (rule engine_reachable_inv)
  from event_trace_run [OF assms(1) this assms(3,4)] action_run_alternates show ?thesis by blast
qed

definition demo_events :: "(ComboInputEvent \<times> rat) list" where
  "demo_events = [(key_event ''key_leftctrl'' 1, 0), (key_event ''key_a'' 1, 0), (key_event ''key_a'' 0, 0)]"

theorem action_lifecycle_witness:
  "alternates
     (''c'' \<in> active_ids (candidates (run_steps (engine_step sorted_list_of_set) engine_init demo_ops)))
     (action_history ''c'' (fst (event_trace sorted_list_of_set
        (run_steps (engine_step sorted_list_of_set) engine_init demo_ops) demo_events)))"
  using action_lifecycle [OF sorted_order demo_guard _ prod.collapse [symmetric], of demo_events "''c''"]
  by (simp add: demo_events_def key_event_def event_value_ok_def)

section \<open>Combos fire\<close>

text \<open>The engine as the handler of a press sees it: expired candidates gone, the key recorded.\<close>

definition press_view :: "rat \<Rightarrow> RuntimeComboBinding \<Rightarrow> 'a ComboEngine \<Rightarrow> 'a ComboEngine" where
  "press_view now b e =
    (let e1 = snd (expire_timeouts now e) in if binding_is_pulse b then e1 else record_held_press b e1)"

lemma press_view_ok:
  assumes "engine_inv e"
  shows "engine_inv (press_view now b e)" "binding_is_pulse b \<or> b \<in> held_bindings (press_view now b e)"
  using assms by (simp_all add: press_view_def record_held_press_inv expire_timeouts_inv Let_def)

lemma finish_event_consume [simp]:
  "consume_current_event (fst (finish_event x h (d, e))) = consume_current_event d"
  by (simp add: finish_event_def Let_def)

lemma handle_event_press:
  "handle_event it (ComboInputEvent b 1) now e =
    map_option (finish_event (fst (expire_timeouts now e)) (candidates (snd (expire_timeouts now e)) \<noteq> []))
      (handle_press_event it b now (press_view now b e))"
  by (simp add: handle_event_def press_view_def Let_def split: prod.split)

lemma handle_event_press_decision:
  assumes "handle_press_event it b now (press_view now b e) = Some (d, e2)"
  obtains d' e' where "handle_event it (ComboInputEvent b 1) now e = Some (d', e')"
    "consume_current_event d' = consume_current_event d" "decision_transitions d' = decision_transitions d"
proof -
  obtain d' e' where f: "finish_event (fst (expire_timeouts now e))
      (candidates (snd (expire_timeouts now e)) \<noteq> []) (d, e2) = (d', e')" by force
  then have "handle_event it (ComboInputEvent b 1) now e = Some (d', e')"
    using assms by (simp add: handle_event_press)
  moreover have "consume_current_event d' = consume_current_event d" "decision_transitions d' = decision_transitions d"
    using f by (metis finish_event_consume fst_conv, metis decision_transitions_finish fst_conv)
  ultimately show thesis by (rule that)
qed

text \<open>C9. A single-step combo whose keys are all held fires: when a press makes the held keys
  satisfy its only step (and, for a wheel pulse, the pulse may complete it), the press is consumed
  and exactly the keys it was satisfied with trigger the combo's action, whatever other combos and
  candidates the same press concerns.\<close>

theorem satisfied_combo_fires:
  assumes "set_iteration it" and "guarded_run engine_guard (engine_step it) engine_init ops"
    and "e = press_view now b (run_steps (engine_step it) engine_init ops)"
    and "combo \<in> set (candidate_first_step_combos e b)" and "length (steps combo) = 1"
    and "combo_id combo \<notin> fst ` set (candidates e)"
    and "held_bindings_for_step it e (hd (steps combo)) (Some b) = Some held"
    and "binding_is_pulse b \<longrightarrow> pulse_can_complete_first_step combo b held"
  shows "\<exists>d e'. handle_event it (ComboInputEvent b 1) now (run_steps (engine_step it) engine_init ops) = Some (d, e')
    \<and> consume_current_event d \<and> (\<exists>t\<in>set (decision_transitions d). fired combo b held t)"
proof -
  note inv = press_view_ok [OF engine_reachable_inv [OF assms(1,2)], where now = now and b = b, folded assms(3)]
  obtain d e2 where h: "handle_press_event it b now e = Some (d, e2)"
    using handle_press_effect [OF assms(1) inv] by blast
  note fires = handle_press_fires [OF assms(1) inv assms(4,6,7,8) h]
  show ?thesis
    using handle_event_press_decision [OF h [unfolded assms(3)]] fires assms(5) by metis
qed

definition one_step :: "string RuntimeCombo" where
  "one_step = demo_combo ''c'' [RuntimeComboStep [kb ''ctrl'', kb ''key_a''] None]"

definition one_step_ops :: "string engine_op list" where
  "one_step_ops = [SetCombos [one_step] None, HandleEvent (key_event ''key_leftctrl'' 1) 0]"

lemma one_step_guard: "guarded_run engine_guard (engine_step it) engine_init one_step_ops"
  by (simp add: one_step_ops_def combos_ok_def one_step_def demo_combo_def preserve_ok_def
      key_event_def event_value_ok_def)

lemma one_step_view:
  "let e = press_view 1 (kb ''key_a'') (run_steps (engine_step sorted_list_of_set) engine_init one_step_ops)
   in candidate_first_step_combos e (kb ''key_a'') = [one_step] \<and> candidates e = []
      \<and> held_bindings_for_step sorted_list_of_set e (hd (steps one_step)) (Some (kb ''key_a''))
          = Some {kb ''key_leftctrl'', kb ''key_a''}"
  by code_simp

theorem satisfied_combo_fires_witness:
  "\<exists>d e'. handle_event sorted_list_of_set (ComboInputEvent (kb ''key_a'') 1) 1
       (run_steps (engine_step sorted_list_of_set) engine_init one_step_ops) = Some (d, e')
     \<and> consume_current_event d
     \<and> (\<exists>t\<in>set (decision_transitions d). fired one_step (kb ''key_a'') {kb ''key_leftctrl'', kb ''key_a''} t)"
proof (rule satisfied_combo_fires [OF sorted_order one_step_guard refl])
  show "binding_is_pulse (kb ''key_a'') \<longrightarrow>
      pulse_can_complete_first_step one_step (kb ''key_a'') {kb ''key_leftctrl'', kb ''key_a''}"
    by code_simp
qed (use one_step_view in \<open>simp_all add: Let_def one_step_def demo_combo_def\<close>)

lemma pulse_completes_candidate_found:
  "pulse_completes_candidate b cs = Some True \<Longrightarrow>
   \<exists>cid c. (cid, c) \<in> set cs \<and> \<not> releasing c \<and> matches_current c b \<and> completes_step c"
proof (induction cs)
  case (Cons p rest)
  obtain cid c where p: "p = (cid, c)" by force
  have "\<not> releasing c \<and> matches_current c b \<and> completes_step c \<or> pulse_completes_candidate b rest = Some True"
    using Cons.prems by (auto simp: p matches_current_def completes_step_def split: if_splits bind_splits)
  with Cons.IH show ?case unfolding p by (meson list.set_intros)
qed simp

lemma pulse_completes_first_step_found:
  "pulse_completes_first_step it e b combos = Some True \<Longrightarrow>
   \<exists>combo\<in>set combos. combo_id combo \<notin> fst ` set (candidates e) \<and> (\<exists>held.
      held_bindings_for_step it e (hd (steps combo)) (Some b) = Some held
      \<and> pulse_can_complete_first_step combo b held)"
  by (induction it e b combos rule: pulse_completes_first_step.induct)
     (auto split: if_splits option.splits list.splits)

text \<open>\<open>would_consume_pulse\<close> is safe to rely on: when no deadline has passed and it answers
  yes for a wheel pulse, handling that pulse does consume it.\<close>

theorem would_consume_pulse_sound:
  assumes "set_iteration it" and "guarded_run engine_guard (engine_step it) engine_init ops"
    and "e = run_steps (engine_step it) engine_init ops"
    and "would_consume_pulse it b e = Some True"
    and "\<not> fst (expire_timeouts now e)"
  shows "\<exists>d e'. handle_event it (ComboInputEvent b 1) now e = Some (d, e') \<and> consume_current_event d"
proof -
  have inv: "engine_inv e" using assms(1-3) engine_reachable_inv by blast
  have pulse: "binding_is_pulse b" using assms(4) by (simp add: would_consume_pulse_def split: if_splits)
  have view: "press_view now b e = e"
    using assms(5) pulse by (auto simp: press_view_def expire_timeouts_def Let_def split: if_splits)
  obtain d e2 where h: "handle_press_event it b now e = Some (d, e2)"
    using handle_press_effect [OF assms(1) inv] pulse by blast
  consider (waiting) cid c where "(cid, c) \<in> set (candidates e)" "\<not> releasing c" "matches_current c b" "completes_step c"
    | (first) combo held where "combo \<in> set (candidate_first_step_combos e b)" "combo_id combo \<notin> fst ` set (candidates e)"
        "held_bindings_for_step it e (hd (steps combo)) (Some b) = Some held" "pulse_can_complete_first_step combo b held"
    using assms(4) pulse_completes_candidate_found [of b "candidates e"]
      pulse_completes_first_step_found [of it e b "candidate_first_step_combos e b"]
    by (auto simp: would_consume_pulse_def split: if_splits bind_splits)
  then have "consume_current_event d"
  proof cases
    case waiting
    obtain dw e1 where w: "handle_waiting_candidate_press b now e = Some (dw, e1)"
      using handle_waiting_effect [OF inv] pulse by blast
    have "b \<notin> pressed_bindings c"
      using engine_inv_in [OF inv waiting(1)] pulse
      by (auto simp: candidate_ok_def candidate_core_def dest: tracks_okD(2))
    then have "consume_current_event dw"
      using waiting_completion_consumes [OF inv _ waiting(1-3) _ waiting(4) w] pulse by blast
    with h w show ?thesis by (rule press_consumes_if_waiting)
  next
    case first
    then show ?thesis using handle_press_fires [OF assms(1) inv _ first(1-3) _ h] pulse by blast
  qed
  moreover have "handle_press_event it b now (press_view now b e) = Some (d, e2)"
    unfolding view by (rule h)
  ultimately show ?thesis using handle_event_press_decision by metis
qed

definition wheel_combo :: "string RuntimeCombo" where
  "wheel_combo = demo_combo ''w'' [RuntimeComboStep [kb ''wheel_up''] None]"

theorem would_consume_pulse_sound_witness:
  "\<exists>d e'. handle_event sorted_list_of_set (ComboInputEvent (kb ''wheel_up'') 1) 1
     (run_steps (engine_step sorted_list_of_set) engine_init [SetCombos [wheel_combo] None]) = Some (d, e')
     \<and> consume_current_event d"
proof (rule would_consume_pulse_sound [OF sorted_order _ refl])
  show "guarded_run engine_guard (engine_step sorted_list_of_set) engine_init [SetCombos [wheel_combo] None]"
    by (simp add: combos_ok_def wheel_combo_def demo_combo_def preserve_ok_def)
  show "would_consume_pulse sorted_list_of_set (kb ''wheel_up'')
      (run_steps (engine_step sorted_list_of_set) engine_init [SetCombos [wheel_combo] None]) = Some True"
    by code_simp
  show "\<not> fst (expire_timeouts 1 (run_steps (engine_step sorted_list_of_set) engine_init
      [SetCombos [wheel_combo] None]))"
    by code_simp
qed


section \<open>The indexes agree with their specifications\<close>

text \<open>The four incrementally maintained indexes of held keys answer every lookup with
  exactly the held keys that match the binding: the optimised lookup equals a scan.\<close>

theorem held_index_correct:
  assumes "set_iteration it" and "guarded_run engine_guard (engine_step it) engine_init ops"
  shows "held_candidates_for_binding (run_steps (engine_step it) engine_init ops) expected
    = {h \<in> held_bindings (run_steps (engine_step it) engine_init ops). binding_matches expected h}"
  using engine_reachable_inv [OF assms] by (simp add: engine_inv_def held_candidates_for_binding_eq)

theorem held_index_correct_witness:
  "held_candidates_for_binding (run_steps (engine_step sorted_list_of_set) engine_init one_step_ops)
     (RuntimeComboBinding ''kbd'' ''ctrl'' '''')
   = {h \<in> held_bindings (run_steps (engine_step sorted_list_of_set) engine_init one_step_ops).
        binding_matches (RuntimeComboBinding ''kbd'' ''ctrl'' '''') h}"
  by (rule held_index_correct [OF sorted_order one_step_guard])

text \<open>After a configuration the first-step index finds, for every key, each combo whose
  first step has a binding that the key matches, and no other, each once.\<close>

theorem first_step_index_correct:
  assumes ok: "combos_ok combos"
  shows "set (candidate_first_step_combos (set_combos combos preserve_ids e) b)
      = {combo \<in> set combos. step_matches_binding (hd (steps combo)) b}
    \<and> distinct (candidate_first_step_combos (set_combos combos preserve_ids e) b)"
  using ok by (rule first_step_combos_set)

theorem first_step_index_correct_witness:
  "set (candidate_first_step_combos (set_combos [two_step] None engine_init) (kb ''key_x''))
     = {combo \<in> set [two_step]. step_matches_binding (hd (steps combo)) (kb ''key_x'')}"
  using first_step_index_correct [OF demo_combos_ok] by simp

text \<open>The held keys a first step is satisfied with are an assignment of different keys to its
  bindings: as many keys as bindings, each matching one, all held (the pressed key included).\<close>

theorem held_bindings_for_step_correct:
  assumes "set_iteration it" and "guarded_run engine_guard (engine_step it) engine_init ops"
    and "e = run_steps (engine_step it) engine_init ops"
    and "held_bindings_for_step it e st (Some b) = Some held"
  shows "card held = length (bindings st) \<and> held \<subseteq> insert b (held_bindings e)
    \<and> (\<forall>h\<in>held. step_matches_binding st h) \<and> (step_matches_binding st b \<longrightarrow> b \<in> held)"
  using held_bindings_for_step_sound [OF assms(1) _ assms(4)] engine_reachable_inv [OF assms(1,2)] assms(3)
  by blast

theorem held_bindings_for_step_correct_witness:
  "let e = run_steps (engine_step sorted_list_of_set) engine_init one_step_ops;
       held = {kb ''key_leftctrl'', kb ''key_a''}
   in held_bindings_for_step sorted_list_of_set e (hd (steps one_step)) (Some (kb ''key_a'')) = Some held
      \<and> card held = length (bindings (hd (steps one_step)))"
proof -
  have h: "held_bindings_for_step sorted_list_of_set
      (run_steps (engine_step sorted_list_of_set) engine_init one_step_ops)
      (hd (steps one_step)) (Some (kb ''key_a'')) = Some {kb ''key_leftctrl'', kb ''key_a''}"
    by code_simp
  show ?thesis
    using held_bindings_for_step_correct [OF sorted_order one_step_guard refl h] h by (simp add: Let_def)
qed

section \<open>Decisions\<close>

lemma merge_exclusive:
  "consume_current_event (merge_decisions ds) \<Longrightarrow> passthrough_current_event (merge_decisions ds) \<Longrightarrow> False"
  by (simp add: merge_decisions_def Let_def split: if_splits)

definition exclusive :: "'a ComboDecision \<Rightarrow> bool" where
  "exclusive d \<longleftrightarrow> \<not> (consume_current_event d \<and> passthrough_current_event d)"

lemma handle_press_exclusive: "handle_press_event it b now e = Some (d, e') \<Longrightarrow> exclusive d"
  by (auto simp: handle_press_event_def exclusive_def Let_def split: bind_splits if_splits)
     (metis merge_exclusive)

lemma default_exclusive [simp]: "exclusive ComboDecision_default"
  by (simp add: exclusive_def ComboDecision_default_def)

lemma handle_release_exclusive: "handle_release_event b v now e = Some (d, e') \<Longrightarrow> exclusive d"
  by (auto simp: handle_release_event_def handle_releasing_event_def handle_release_before_completion_def
      exclusive_def Let_def ComboDecision_default_def split: bind_splits if_splits)

lemma finish_event_exclusive: "exclusive d \<Longrightarrow> exclusive (fst (finish_event x h (d, e)))"
  by (simp add: exclusive_def finish_event_def Let_def)

text \<open>No decision asks for an event to be both consumed and passed through, for any engine
  state, event, time and iteration order.\<close>

theorem decision_exclusive:
  "case handle_event it event now e of None \<Rightarrow> True
   | Some (d, e') \<Rightarrow> \<not> (consume_current_event d \<and> passthrough_current_event d)"
proof (cases "handle_event it event now e")
  case (Some p)
  obtain d e' where p: "p = (d, e')" by force
  obtain x e1 where x: "expire_timeouts now e = (x, e1)" by force
  have fin: "exclusive d" if "finish_event x h (d0, e0) = (d, e')" "exclusive d0" for h d0 e0
    using finish_event_exclusive [OF that(2), of x h e0] that(1) by simp
  have "exclusive d"
    using Some unfolding handle_event_def x p Let_def
    by (auto split: if_splits dest!: handle_press_exclusive handle_release_exclusive intro: fin)
       (auto simp: exclusive_def ComboDecision_default_def)
  with Some p show ?thesis by (simp add: exclusive_def)
qed simp

text \<open>The keys a decision recalls are each released once: no key twice, value 0, never a
  modifier and never a wheel pulse.\<close>

theorem recall_events_correct:
  assumes "set_iteration it" and "guarded_run engine_guard (engine_step it) engine_init ops"
    and "event_value_ok event"
    and "handle_event it event now (run_steps (engine_step it) engine_init ops) = Some (d, e')"
  shows "distinct (map synthetic_binding (recall_events d))
    \<and> (\<forall>ev\<in>set (recall_events d). synthetic_value ev = 0 \<and> \<not> binding_is_modifier (synthetic_binding ev)
         \<and> \<not> binding_is_pulse (synthetic_binding ev))"
  using handle_event_effect [OF assms(1) engine_reachable_inv [OF assms(1,2)] assms(3), of now] assms(4)
  by (auto simp: event_effect_def recall_ok_def)

definition recall_combo :: "string RuntimeCombo" where
  "recall_combo = demo_combo ''r'' [RuntimeComboStep [kb ''key_q'', kb ''key_a''] None]"

definition recall_ops :: "string engine_op list" where
  "recall_ops = [SetCombos [recall_combo] None, HandleEvent (key_event ''key_q'' 1) 0]"

theorem recall_events_correct_witness:
  "case handle_event sorted_list_of_set (key_event ''key_a'' 1) 1
      (run_steps (engine_step sorted_list_of_set) engine_init recall_ops) of
     None \<Rightarrow> False
   | Some (d, e') \<Rightarrow> recall_events d = [ComboSyntheticEvent (kb ''key_q'') 0]
       \<and> distinct (map synthetic_binding (recall_events d))"
proof -
  let ?e = "run_steps (engine_step sorted_list_of_set) engine_init recall_ops"
  have g: "guarded_run engine_guard (engine_step sorted_list_of_set) engine_init recall_ops"
    by (simp add: recall_ops_def combos_ok_def recall_combo_def demo_combo_def preserve_ok_def
        key_event_def event_value_ok_def)
  have v: "event_value_ok (key_event ''key_a'' 1)" by (simp add: key_event_def event_value_ok_def)
  obtain d e' where h: "handle_event sorted_list_of_set (key_event ''key_a'' 1) 1 ?e = Some (d, e')"
    using engine_never_raises_run [OF sorted_order g v] by blast
  have "map_option (recall_events \<circ> fst) (handle_event sorted_list_of_set (key_event ''key_a'' 1) 1 ?e)
      = Some [ComboSyntheticEvent (kb ''key_q'') 0]"
    by code_simp
  with h recall_events_correct [OF sorted_order g v h] show ?thesis by simp
qed

section \<open>Deadlines\<close>

lemma expire_timeouts_filter:
  assumes inv: "engine_inv e"
  shows "candidates (snd (expire_timeouts now e)) = filter (\<lambda>p. \<not> deadline_passed now (snd p)) (candidates e)"
proof -
  have d: "distinct (map fst (candidates e))" using inv by simp
  let ?ids = "map fst (filter (\<lambda>p. deadline_passed now (snd p)) (candidates e))"
  have "dict_without ?ids (candidates e) = filter (\<lambda>p. \<not> deadline_passed now (snd p)) (candidates e)"
    unfolding dict_without_filter
  proof (rule filter_cong [OF refl])
    fix p assume p: "p \<in> set (candidates e)"
    show "(fst p \<notin> set ?ids) = (\<not> deadline_passed now (snd p))"
      using d p by (cases p) (auto simp: image_iff dest: eq_key_imp_eq_value)
  qed
  then show ?thesis
    by (auto simp: expire_timeouts_def Let_def filter_empty_conv filter_id_conv)
qed

text \<open>Timeouts are exact: a sweep at a given time finds something to expire just when the
  next deadline has been reached; it drops exactly the candidates whose deadline has passed, and
  never one whose action is active.\<close>

theorem expire_timeouts_correct:
  assumes "set_iteration it" and "guarded_run engine_guard (engine_step it) engine_init ops"
    and "e = run_steps (engine_step it) engine_init ops"
  shows "(fst (expire_timeouts now e) \<longleftrightarrow> (\<exists>t. next_deadline e = Some t \<and> t \<le> now))
    \<and> candidates (snd (expire_timeouts now e)) = filter (\<lambda>p. \<not> deadline_passed now (snd p)) (candidates e)
    \<and> active_ids (candidates (snd (expire_timeouts now e))) = active_ids (candidates e)"
proof -
  have inv: "engine_inv e" using assms engine_reachable_inv by blast
  have "fst (expire_timeouts now e) \<longleftrightarrow> (\<exists>p\<in>set (candidates e). deadline_passed now (snd p))"
    by (simp add: expire_timeouts_def Let_def filter_empty_conv)
  also have "\<dots> \<longleftrightarrow> (\<exists>p\<in>set (candidates e). \<exists>t. next_step_deadline (snd p) = Some t \<and> t \<le> now)"
    by (intro bex_cong refl) (simp add: deadline_passed_def split: option.split)
  also have "\<dots> \<longleftrightarrow> (\<exists>t\<in>set (deadlines e). t \<le> now)"
    unfolding deadlines_def Bex_def in_map_filter by blast
  also have "\<dots> \<longleftrightarrow> (\<exists>t. next_deadline e = Some t \<and> t \<le> now)"
    by (simp add: next_deadline_def Min_le_iff)
  finally have 1: "fst (expire_timeouts now e) \<longleftrightarrow> (\<exists>t. next_deadline e = Some t \<and> t \<le> now)" .
  note 2 = expire_timeouts_filter [OF inv, of now]
  from 1 2 expire_timeouts_active [OF inv, of now] show ?thesis by blast
qed

theorem expire_timeouts_correct_witness:
  "let e = run_steps (engine_step sorted_list_of_set) engine_init demo_ops
   in next_deadline e = Some (3 / 5) \<and> fst (expire_timeouts 1 e)"
proof -
  let ?e = "run_steps (engine_step sorted_list_of_set) engine_init demo_ops"
  have "next_deadline ?e = Some (3 / 5)" by code_simp
  with expire_timeouts_correct [OF sorted_order demo_guard refl, of 1]
  have "fst (expire_timeouts 1 ?e) \<longleftrightarrow> (3 / 5 :: rat) \<le> 1" by (simp only: option.inject) blast
  with \<open>next_deadline ?e = _\<close> show ?thesis by (simp add: Let_def)
qed

text \<open>C28. Nothing sticks: once no key is held, no combo's action is active, and there is a time
  after which any sweep leaves no candidate at all.\<close>

theorem released_engine_drains:
  assumes "set_iteration it" and "guarded_run engine_guard (engine_step it) engine_init ops"
    and "e = run_steps (engine_step it) engine_init ops" and "held_bindings e = {}"
  shows "active_ids (candidates e) = {}
    \<and> (\<exists>last. \<forall>now\<ge>last. candidates (snd (expire_timeouts now e)) = [])"
proof -
  have inv: "engine_inv e" using assms(1-3) engine_reachable_inv by blast
  have waiting: "\<not> releasing c \<and> \<not> action_active c \<and> next_step_deadline c \<noteq> None"
    if "(cid, c) \<in> set (candidates e)" for cid c
    using engine_inv_in [OF inv that] assms(4) by (auto simp: candidate_ok_def phase_ok_def split: if_splits)
  let ?last = "Max (set (deadlines e))"
  have "candidates (snd (expire_timeouts now e)) = []" if "?last \<le> now" for now
  proof -
    have "deadline_passed now (snd p)" if p: "p \<in> set (candidates e)" for p
    proof -
      obtain t where t: "next_step_deadline (snd p) = Some t" using waiting [of "fst p" "snd p"] p by auto
      then have "t \<in> set (deadlines e)" using p by (auto simp: deadlines_def in_map_filter)
      then have "t \<le> ?last" by simp
      with t \<open>?last \<le> now\<close> show ?thesis by (simp add: deadline_passed_def)
    qed
    then have "filter (\<lambda>p. \<not> deadline_passed now (snd p)) (candidates e) = []"
      by (simp add: filter_empty_conv)
    with expire_timeouts_filter [OF inv, of now] show ?thesis by simp
  qed
  moreover have "active_ids (candidates e) = {}" using waiting by (auto simp: set_eq_iff in_active_ids)
  ultimately show ?thesis by blast
qed

theorem released_engine_drains_witness:
  "active_ids (candidates (run_steps (engine_step sorted_list_of_set) engine_init demo_ops)) = {}"
proof -
  have "held_bindings (run_steps (engine_step sorted_list_of_set) engine_init demo_ops) = {}"
    by code_simp
  with released_engine_drains [OF sorted_order demo_guard refl] show ?thesis by blast
qed

end
