(* ===== verification/Combo_Findings.thy ===== *)
theory Combo_Findings
  imports Combo_Properties
begin

text \<open>
  Two runs of the combo engine that do not do what the rest of the code expects, evaluated step by
  step.  In the first, the second step of a combo, which asks for Ctrl and A, is completed by the
  left and the right Ctrl key: \<open>_handle_waiting_candidate_press\<close> counts the pressed keys that match
  any binding of the step, where the first step is matched one key per binding.  In the second,
  \<open>would_consume_pulse\<close> answers no for a wheel pulse that \<open>handle_event\<close> then consumes: the pulse
  drops the waiting candidate of its combo and activates the combo's first step again.
\<close>

definition ctrl_a_second :: "string engine_op list" where
  "ctrl_a_second = demo_ops @ [HandleEvent (key_event ''key_leftctrl'' 1) 0]"

text \<open>The second step of a combo, Ctrl and A, is completed by the left and the right Ctrl key:
  the action of the combo is pressed though A was never pressed.\<close>

theorem second_step_completed_by_two_ctrl_keys:
  "(case handle_event sorted_list_of_set (key_event ''key_rightctrl'' 1) 0
       (run_steps (engine_step sorted_list_of_set) engine_init ctrl_a_second) of
      None \<Rightarrow> []
    | Some (d, e') \<Rightarrow> map (\<lambda>t. (transition_kind t, trigger_bindings t)) (decision_transitions d))
   = [(''press'', [kb ''key_leftctrl'', kb ''key_rightctrl''])]"
  by code_simp

definition wheel :: RuntimeComboBinding where
  "wheel = RuntimeComboBinding ''mouse'' ''wheel_up'' ''''"

definition zoom_combo :: "string RuntimeCombo" where
  "zoom_combo = demo_combo ''z''
     [RuntimeComboStep [kb ''key_leftctrl'', wheel] None,
      RuntimeComboStep [RuntimeComboBinding ''mouse'' ''btn_left'' ''''] None]"

definition zoom_twice :: "string engine_op list" where
  "zoom_twice =
    [SetCombos [zoom_combo] None, HandleEvent (key_event ''key_leftctrl'' 1) 0,
     HandleEvent (ComboInputEvent wheel 1) 0, HandleEvent (key_event ''key_leftctrl'' 0) 0,
     HandleEvent (key_event ''key_leftctrl'' 1) 0]"

text \<open>Repeating Ctrl and wheel within the timeout of the next step: the prediction for the second
  pulse is no, and the pulse is consumed.\<close>

theorem pulse_predicted_unconsumed_is_consumed:
  "let e = run_steps (engine_step sorted_list_of_set) engine_init zoom_twice
   in would_consume_pulse sorted_list_of_set wheel e = Some False
      \<and> (case handle_event sorted_list_of_set (ComboInputEvent wheel 1) 0 e of
           None \<Rightarrow> False
         | Some (d, e') \<Rightarrow> consume_current_event d)"
  by code_simp

end
