(* ===== verification/Superkey.thy ===== *)
theory Superkey
  imports Prelude
begin

text \<open>
  Superkeys (\<open>keymasq/keymasqd/superkey_state.py\<close>): the state machine that turns the presses of one
  key into the slots tap, double tap, hold and tap-hold, and presses and releases their actions.

  The two asyncio tasks of the machine are timers: a field holds the time from which the sleep of
  the pending task may end, and \<open>None\<close> when no task is pending.  Here a handler runs to its end before
  the next one starts, as it does while actions are executed without waiting; \<open>Superkey_Tasks\<close> has the
  coroutines that wait for each action, and relates them to these handlers.  What an action does is opaque: the machine's effects are the presses and releases of
  the actions with their index in the slot's list, the slots recorded for repetition, and the call
  of the retirement callback.  An action is assumed not to raise.
\<close>

section \<open>Data\<close>

datatype SuperkeyState = IDLE | DOWN_WAIT | UP_WAIT | HOLDING | DOWN_WAIT_2 | TAP_HOLDING

datatype SuperkeyMode = PATTERN | OVERLOAD

record 'p SuperkeyActionData =
  sk_action_type :: string
  sk_rapidfire_enabled :: bool
  sk_payload :: 'p

record 'p OverloadAction =
  overload_action_type :: string
  overload_payload :: 'p

record 'p SuperkeyConfig =
  config_name :: string
  superkey_mode :: SuperkeyMode
  tap_timeout_ms :: int
  double_tap_window_ms :: int
  hold_threshold_ms :: int
  tap_actions :: "'p SuperkeyActionData list"
  double_tap_actions :: "'p SuperkeyActionData list"
  hold_actions :: "'p SuperkeyActionData list"
  tap_hold_actions :: "'p SuperkeyActionData list"
  overload_actions :: "'p OverloadAction list"
  overload_down_actions :: "'p OverloadAction list"
  overload_up_actions :: "'p OverloadAction list"

text \<open>\<open>SuperkeyConfig.__post_init__\<close>: \<open>None\<close> is the \<open>ValueError\<close> of a nested superkey.\<close>

definition checked_config :: "'p SuperkeyConfig \<Rightarrow> 'p SuperkeyConfig option" where
  "checked_config c =
    (if list_ex (\<lambda>a. sk_action_type a = ''superkey'')
          (tap_actions c @ double_tap_actions c @ hold_actions c @ tap_hold_actions c) then None
     else if list_ex (\<lambda>a. overload_action_type a = ''superkey'')
          (overload_actions c @ overload_down_actions c @ overload_up_actions c) then None
     else Some c)"

definition named_config :: "string \<Rightarrow> 'p SuperkeyConfig" where
  "named_config name =
    \<lparr> config_name = name, superkey_mode = PATTERN, tap_timeout_ms = 200, double_tap_window_ms = 300,
      hold_threshold_ms = 300, tap_actions = [], double_tap_actions = [], hold_actions = [],
      tap_hold_actions = [], overload_actions = [], overload_down_actions = [], overload_up_actions = [] \<rparr>"

record 'p SuperkeyMachine =
  sk_config :: "'p SuperkeyConfig"
  sk_state :: SuperkeyState
  press_started_at :: "rat option"
  hold_task :: "rat option"
  double_tap_task :: "rat option"
  held_actions :: "(nat \<times> 'p SuperkeyActionData) list"
  sk_running :: bool
  retire_pending :: bool

definition new_superkey :: "'p SuperkeyConfig \<Rightarrow> 'p SuperkeyMachine" where
  "new_superkey c =
    \<lparr> sk_config = c, sk_state = IDLE, press_started_at = None, hold_task = None,
      double_tap_task = None, held_actions = [], sk_running = True, retire_pending = False \<rparr>"

datatype SuperkeySlot = SlotTap | SlotDoubleTap | SlotHold | SlotTapHold

datatype 'p SuperkeyEffect =
    ActionDown nat "'p SuperkeyActionData"
  | ActionUp nat "'p SuperkeyActionData"
  | RecordRepeat SuperkeySlot
  | Retired

type_synonym 'p step_result = "'p SuperkeyEffect list \<times> 'p SuperkeyMachine"

section \<open>Running the actions of a slot\<close>

definition is_emergency_reset :: "'p SuperkeyActionData \<Rightarrow> bool" where
  "is_emergency_reset a = (sk_action_type a = ''emergency_reset'')"

text \<open>The actions a list presses: all of them, or up to its first emergency reset.\<close>

fun started_actions :: "nat \<Rightarrow> 'p SuperkeyActionData list \<Rightarrow> (nat \<times> 'p SuperkeyActionData) list" where
  "started_actions index [] = []"
| "started_actions index (a # rest) =
    (index, a) # (if is_emergency_reset a then [] else started_actions (index + 1) rest)"

definition execute_actions_tap :: "'p SuperkeyActionData list \<Rightarrow> 'p SuperkeyEffect list" where
  "execute_actions_tap actions =
    (let pressed = started_actions 0 actions
     in map (\<lambda>(i, a). ActionDown i a) pressed @ map (\<lambda>(i, a). ActionUp i a) (rev pressed))"

definition execute_actions_down :: "'p SuperkeyActionData list \<Rightarrow> 'p SuperkeyMachine \<Rightarrow> 'p step_result" where
  "execute_actions_down actions m =
    (let pressed = started_actions 0 actions
     in (map (\<lambda>(i, a). ActionDown i a) pressed, m\<lparr>held_actions := held_actions m @ pressed\<rparr>))"

definition execute_held_actions_up :: "'p SuperkeyMachine \<Rightarrow> 'p step_result" where
  "execute_held_actions_up m =
    (map (\<lambda>(i, a). ActionUp i a) (rev (held_actions m)), m\<lparr>held_actions := []\<rparr>)"

definition emit_tap :: "'p SuperkeyMachine \<Rightarrow> 'p SuperkeyEffect list" where
  "emit_tap m =
    (if tap_actions (sk_config m) = [] then []
     else RecordRepeat SlotTap # execute_actions_tap (tap_actions (sk_config m)))"

definition emit_double_tap :: "'p SuperkeyMachine \<Rightarrow> 'p SuperkeyEffect list" where
  "emit_double_tap m =
    (if double_tap_actions (sk_config m) = [] then []
     else RecordRepeat SlotDoubleTap # execute_actions_tap (double_tap_actions (sk_config m)))"

definition emit_hold_down :: "'p SuperkeyMachine \<Rightarrow> 'p step_result" where
  "emit_hold_down m =
    (if hold_actions (sk_config m) = [] then ([], m)
     else let (es, m1) = execute_actions_down (hold_actions (sk_config m)) m
          in (RecordRepeat SlotHold # es, m1))"

definition emit_hold_up :: "'p SuperkeyMachine \<Rightarrow> 'p step_result" where
  "emit_hold_up m = (if hold_actions (sk_config m) = [] then ([], m) else execute_held_actions_up m)"

definition emit_tap_hold_down :: "'p SuperkeyMachine \<Rightarrow> 'p step_result" where
  "emit_tap_hold_down m =
    (if tap_hold_actions (sk_config m) = [] then ([], m)
     else let (es, m1) = execute_actions_down (tap_hold_actions (sk_config m)) m
          in (RecordRepeat SlotTapHold # es, m1))"

definition emit_tap_hold_up :: "'p SuperkeyMachine \<Rightarrow> 'p step_result" where
  "emit_tap_hold_up m = (if tap_hold_actions (sk_config m) = [] then ([], m) else execute_held_actions_up m)"

definition execute_repeat_slot :: "SuperkeySlot \<Rightarrow> 'p SuperkeyMachine \<Rightarrow> 'p SuperkeyEffect list" where
  "execute_repeat_slot slot m =
    (let actions = (case slot of
         SlotTap \<Rightarrow> tap_actions (sk_config m) | SlotDoubleTap \<Rightarrow> double_tap_actions (sk_config m)
       | SlotHold \<Rightarrow> hold_actions (sk_config m) | SlotTapHold \<Rightarrow> tap_hold_actions (sk_config m))
     in if actions = [] then [] else RecordRepeat slot # execute_actions_tap actions)"

section \<open>The state machine\<close>

definition become_idle :: "'p SuperkeyMachine \<Rightarrow> 'p step_result" where
  "become_idle m =
    (let m1 = m\<lparr>sk_state := IDLE\<rparr>
     in if retire_pending m1
        then ([Retired], m1\<lparr>retire_pending := False, sk_config := named_config (config_name (sk_config m1))\<rparr>)
        else ([], m1))"

text \<open>Run the effects, then become idle.\<close>

definition then_idle :: "'p step_result \<Rightarrow> 'p step_result" where
  "then_idle r = (let (es, m) = r; (es', m') = become_idle m in (es @ es', m'))"

definition retire_when_idle :: "'p SuperkeyMachine \<Rightarrow> 'p step_result" where
  "retire_when_idle m =
    (let m1 = m\<lparr>retire_pending := True\<rparr> in if sk_state m1 = IDLE then become_idle m1 else ([], m1))"

definition stop :: "'p SuperkeyMachine \<Rightarrow> 'p step_result" where
  "stop m =
    then_idle (execute_held_actions_up
      (m\<lparr> sk_running := False, press_started_at := None, hold_task := None, double_tap_task := None \<rparr>))"

definition transition_to_down_wait :: "rat \<Rightarrow> 'p SuperkeyMachine \<Rightarrow> 'p step_result" where
  "transition_to_down_wait now m =
    (let m1 = m\<lparr>sk_state := DOWN_WAIT, press_started_at := Some now\<rparr>
     in ([], if hold_actions (sk_config m1) = [] then m1
             else m1\<lparr>hold_task := Some (now + of_int (hold_threshold_ms (sk_config m1)) / 1000)\<rparr>))"

definition on_second_down :: "rat \<Rightarrow> 'p SuperkeyMachine \<Rightarrow> 'p step_result" where
  "on_second_down now m =
    (let m1 = m\<lparr>double_tap_task := None, sk_state := DOWN_WAIT_2, press_started_at := Some now\<rparr>
     in ([], if tap_hold_actions (sk_config m1) = [] \<and> hold_actions (sk_config m1) = [] then m1
             else m1\<lparr>hold_task := Some (now + of_int (hold_threshold_ms (sk_config m1)) / 1000)\<rparr>))"

definition on_down :: "rat \<Rightarrow> 'p SuperkeyMachine \<Rightarrow> 'p step_result" where
  "on_down now m =
    (case sk_state m of
       IDLE \<Rightarrow> transition_to_down_wait now m
     | UP_WAIT \<Rightarrow> on_second_down now m
     | _ \<Rightarrow> ([], m))"

definition release_qualifies_as_tap :: "rat \<Rightarrow> 'p SuperkeyMachine \<Rightarrow> bool \<times> 'p SuperkeyMachine" where
  "release_qualifies_as_tap now m =
    (let m1 = m\<lparr>press_started_at := None\<rparr>
     in case press_started_at m of
          None \<Rightarrow> (False, m1)
        | Some started_at \<Rightarrow>
            (max 0 (now - started_at) * 1000 \<le> of_int (max 0 (tap_timeout_ms (sk_config m))), m1))"

definition on_first_up :: "rat \<Rightarrow> 'p SuperkeyMachine \<Rightarrow> 'p step_result" where
  "on_first_up now m =
    (let (is_tap, m1) = release_qualifies_as_tap now m;
         m2 = m1\<lparr>hold_task := None\<rparr>
     in if \<not> is_tap then become_idle m2
        else if double_tap_actions (sk_config m2) \<noteq> [] \<or> tap_hold_actions (sk_config m2) \<noteq> []
        then ([], m2\<lparr> sk_state := UP_WAIT,
                      double_tap_task := Some (now + of_int (double_tap_window_ms (sk_config m2)) / 1000) \<rparr>)
        else if tap_actions (sk_config m2) \<noteq> [] then then_idle (emit_tap m2, m2)
        else become_idle m2)"

definition on_second_up :: "rat \<Rightarrow> 'p SuperkeyMachine \<Rightarrow> 'p step_result" where
  "on_second_up now m =
    (let (is_tap, m1) = release_qualifies_as_tap now m;
         m2 = m1\<lparr>hold_task := None\<rparr>
     in then_idle
          (if is_tap \<and> double_tap_actions (sk_config m2) \<noteq> [] then emit_double_tap m2
           else if tap_actions (sk_config m2) \<noteq> [] then emit_tap m2 else [], m2))"

definition on_up :: "rat \<Rightarrow> 'p SuperkeyMachine \<Rightarrow> 'p step_result" where
  "on_up now m =
    (case sk_state m of
       DOWN_WAIT \<Rightarrow> on_first_up now m
     | HOLDING \<Rightarrow> then_idle (emit_hold_up m)
     | DOWN_WAIT_2 \<Rightarrow> on_second_up now m
     | TAP_HOLDING \<Rightarrow> then_idle (emit_tap_hold_up m)
     | _ \<Rightarrow> ([], m))"

definition start_holding :: "'p SuperkeyMachine \<Rightarrow> 'p step_result" where
  "start_holding m = emit_hold_down (m\<lparr>press_started_at := None, sk_state := HOLDING\<rparr>)"

definition start_tap_holding :: "'p SuperkeyMachine \<Rightarrow> 'p step_result" where
  "start_tap_holding m =
    (let m1 = m\<lparr>press_started_at := None\<rparr>
     in if tap_hold_actions (sk_config m1) = [] then start_holding m1
        else emit_tap_hold_down (m1\<lparr>sk_state := TAP_HOLDING\<rparr>))"

text \<open>The end of the sleep of a pending task; the task is over afterwards.\<close>

definition hold_timeout :: "'p SuperkeyMachine \<Rightarrow> 'p step_result" where
  "hold_timeout m =
    (let m1 = m\<lparr>hold_task := None\<rparr>
     in if \<not> sk_running m1 then ([], m1)
        else if sk_state m1 = DOWN_WAIT then start_holding m1
        else if sk_state m1 = DOWN_WAIT_2 then start_tap_holding m1
        else ([], m1))"

definition double_tap_timeout :: "'p SuperkeyMachine \<Rightarrow> 'p step_result" where
  "double_tap_timeout m =
    (let m1 = m\<lparr>double_tap_task := None\<rparr>
     in if \<not> sk_running m1 then ([], m1)
        else if sk_state m1 = UP_WAIT then then_idle (emit_tap m1, m1)
        else ([], m1))"

end
