(* ===== verification/Superkey_Properties.thy ===== *)
theory Superkey_Properties
  imports Superkey
begin

text \<open>
  The superkey machine as a step relation over its inputs, its timers and its owner's calls, while handlers are not
  interrupted; the
  invariant of every run, the nesting of the presses it makes, what \<open>stop\<close> leaves behind, and which
  slot a single press and a double press select.
\<close>

section \<open>Steps and runs\<close>

inductive superkey_step ::
    "rat \<Rightarrow> 'p SuperkeyMachine \<Rightarrow> 'p SuperkeyEffect list \<Rightarrow> 'p SuperkeyMachine \<Rightarrow> bool" where
  Down: "on_down now m = (es, m') \<Longrightarrow> superkey_step now m es m'"
| Up: "on_up now m = (es, m') \<Longrightarrow> superkey_step now m es m'"
| Hold_Timeout: "hold_task m = Some due \<Longrightarrow> due \<le> now \<Longrightarrow> hold_timeout m = (es, m') \<Longrightarrow>
    superkey_step now m es m'"
| Double_Tap_Timeout: "double_tap_task m = Some due \<Longrightarrow> due \<le> now \<Longrightarrow> double_tap_timeout m = (es, m') \<Longrightarrow>
    superkey_step now m es m'"
| Stop: "stop m = (es, m') \<Longrightarrow> superkey_step now m es m'"
| Retire: "retire_when_idle m = (es, m') \<Longrightarrow> superkey_step now m es m'"
| Repeat: "execute_repeat_slot slot m = es \<Longrightarrow> superkey_step now m es m"

inductive superkey_run :: "'p SuperkeyConfig \<Rightarrow> 'p SuperkeyEffect list \<Rightarrow> 'p SuperkeyMachine \<Rightarrow> bool"
  for c where
  Start: "superkey_run c [] (new_superkey c)"
| Step: "superkey_run c es m \<Longrightarrow> superkey_step now m es' m' \<Longrightarrow> superkey_run c (es @ es') m'"

text \<open>Presses and releases nest: a release ends the latest press that has not ended.\<close>

fun nest :: "(nat \<times> 'p SuperkeyActionData) list \<Rightarrow> 'p SuperkeyEffect list \<Rightarrow>
    (nat \<times> 'p SuperkeyActionData) list option" where
  "nest st [] = Some st"
| "nest st (ActionDown i a # es) = nest ((i, a) # st) es"
| "nest st (ActionUp i a # es) =
    (case st of [] \<Rightarrow> None | p # rest \<Rightarrow> if p = (i, a) then nest rest es else None)"
| "nest st (RecordRepeat s # es) = nest st es"
| "nest st (Retired # es) = nest st es"

lemma nest_append: "nest st es = Some st' \<Longrightarrow> nest st (es @ fs) = nest st' fs"
  by (induction st es rule: nest.induct) (auto split: list.splits if_splits)

lemma nest_downs: "nest st (map (\<lambda>(i, a). ActionDown i a) ps) = Some (rev ps @ st)"
  by (induction ps arbitrary: st) auto

lemma nest_ups: "nest (ps @ st) (map (\<lambda>(i, a). ActionUp i a) ps) = Some st"
  by (induction ps) auto

section \<open>Well-formed machines\<close>

definition pending_ok :: "'p SuperkeyMachine \<Rightarrow> bool" where
  "pending_ok m \<longleftrightarrow>
    (hold_task m = None \<or> sk_state m = DOWN_WAIT \<or> sk_state m = DOWN_WAIT_2)
    \<and> (double_tap_task m = None \<or> sk_state m = UP_WAIT)
    \<and> (sk_state m = UP_WAIT \<longrightarrow> \<not> sk_running m \<or> double_tap_task m \<noteq> None)
    \<and> (press_started_at m = None) = (sk_state m \<noteq> DOWN_WAIT \<and> sk_state m \<noteq> DOWN_WAIT_2)"

definition held_ok :: "'p SuperkeyMachine \<Rightarrow> bool" where
  "held_ok m \<longleftrightarrow>
    (held_actions m = [] \<or> sk_state m = HOLDING \<or> sk_state m = TAP_HOLDING)
    \<and> (sk_state m = HOLDING \<longrightarrow> hold_actions (sk_config m) \<noteq> [])
    \<and> (sk_state m = TAP_HOLDING \<longrightarrow> tap_hold_actions (sk_config m) \<noteq> [])
    \<and> (hold_task m = None \<or> hold_actions (sk_config m) \<noteq> []
         \<or> (sk_state m = DOWN_WAIT_2 \<and> tap_hold_actions (sk_config m) \<noteq> []))
    \<and> (retire_pending m \<longrightarrow> sk_state m \<noteq> IDLE)"

definition superkey_inv :: "'p SuperkeyMachine \<Rightarrow> bool" where
  "superkey_inv m \<longleftrightarrow> pending_ok m \<and> held_ok m"

text \<open>A handler's effects take the open presses to the held actions of its machine.\<close>

definition result_ok :: "'p SuperkeyMachine \<Rightarrow> 'p step_result \<Rightarrow> bool" where
  "result_ok m r \<longleftrightarrow>
    superkey_inv (snd r) \<and> nest (rev (held_actions m)) (fst r) = Some (rev (held_actions (snd r)))"

lemmas handler_defs =
  superkey_inv_def pending_ok_def held_ok_def result_ok_def then_idle_def become_idle_def named_config_def

lemma nest_tap: "nest st (execute_actions_tap as) = Some st"
  by (simp add: execute_actions_tap_def Let_def nest_append [OF nest_downs] nest_ups)

lemma nest_emit [simp]:
  "nest st (emit_tap m) = Some st"
  "nest st (emit_double_tap m) = Some st"
  "nest st (execute_repeat_slot slot m) = Some st"
  by (simp_all add: emit_tap_def emit_double_tap_def execute_repeat_slot_def nest_tap Let_def)

text \<open>Becoming idle with nothing pending and nothing held.\<close>

definition quiet :: "'p SuperkeyMachine \<Rightarrow> bool" where
  "quiet m \<longleftrightarrow> held_actions m = [] \<and> hold_task m = None \<and> double_tap_task m = None \<and> press_started_at m = None"

lemma then_idle_ok:
  assumes "quiet m'" and "nest (rev (held_actions m)) es = Some []"
  shows "result_ok m (then_idle (es, m'))"
  using assms
  by (auto simp: handler_defs quiet_def Let_def nest_append)

lemma become_idle_ok:
  "quiet m' \<Longrightarrow> held_actions m = [] \<Longrightarrow> result_ok m (become_idle m')"
  by (auto simp: handler_defs quiet_def Let_def)

lemma superkey_invD:
  assumes "superkey_inv m"
  shows "sk_state m \<notin> {HOLDING, TAP_HOLDING} \<Longrightarrow> held_actions m = []"
    and "sk_state m \<notin> {DOWN_WAIT, DOWN_WAIT_2} \<Longrightarrow> hold_task m = None \<and> press_started_at m = None"
    and "sk_state m \<noteq> UP_WAIT \<Longrightarrow> double_tap_task m = None"
  using assms by (auto simp: superkey_inv_def pending_ok_def held_ok_def)

lemma on_down_ok: "superkey_inv m \<Longrightarrow> result_ok m (on_down now m)"
  by (cases "sk_state m")
     (auto simp: on_down_def transition_to_down_wait_def on_second_down_def handler_defs Let_def)

lemma release_qualifies_frame:
  "snd (release_qualifies_as_tap now m) = m\<lparr>press_started_at := None\<rparr>"
  by (simp add: release_qualifies_as_tap_def Let_def split: option.split)

lemma on_first_up_ok:
  assumes inv: "superkey_inv m" and s: "sk_state m = DOWN_WAIT"
  shows "result_ok m (on_first_up now m)"
proof -
  let ?m2 = "m\<lparr>press_started_at := None, hold_task := None\<rparr>"
  obtain tap where tap: "release_qualifies_as_tap now m = (tap, m\<lparr>press_started_at := None\<rparr>)"
    using release_qualifies_frame [of now m] by (metis prod.collapse)
  have q: "quiet ?m2" "held_actions m = []"
    using superkey_invD [OF inv] s by (auto simp: quiet_def)
  have "result_ok m ([], ?m2\<lparr>sk_state := UP_WAIT, double_tap_task := Some t\<rparr>)" for t
    using inv s q by (auto simp: handler_defs)
  then show ?thesis
    using q by (auto simp: on_first_up_def tap Let_def intro: become_idle_ok then_idle_ok)
qed

lemma on_second_up_ok:
  assumes inv: "superkey_inv m" and s: "sk_state m = DOWN_WAIT_2"
  shows "result_ok m (on_second_up now m)"
proof -
  obtain tap where tap: "release_qualifies_as_tap now m = (tap, m\<lparr>press_started_at := None\<rparr>)"
    using release_qualifies_frame [of now m] by (metis prod.collapse)
  have "quiet (m\<lparr>press_started_at := None, hold_task := None\<rparr>)" "held_actions m = []"
    using superkey_invD [OF inv] s by (auto simp: quiet_def)
  then show ?thesis
    by (auto simp: on_second_up_def tap Let_def intro!: then_idle_ok)
qed

lemma held_up_ok:
  assumes inv: "superkey_inv m" and s: "sk_state m = HOLDING \<or> sk_state m = TAP_HOLDING"
  shows "result_ok m (then_idle (execute_held_actions_up m))"
proof -
  have "quiet (m\<lparr>held_actions := []\<rparr>)"
    using superkey_invD [OF inv] s by (auto simp: quiet_def)
  then show ?thesis
    using nest_ups [of "rev (held_actions m)" "[]"]
    by (auto simp: execute_held_actions_up_def intro!: then_idle_ok)
qed

lemma on_up_ok:
  assumes "superkey_inv m"
  shows "result_ok m (on_up now m)"
proof (cases "sk_state m")
  case HOLDING
  then show ?thesis
    using assms held_up_ok [OF assms] by (simp add: on_up_def emit_hold_up_def superkey_inv_def held_ok_def)
next
  case TAP_HOLDING
  then show ?thesis
    using assms held_up_ok [OF assms] by (simp add: on_up_def emit_tap_hold_up_def superkey_inv_def held_ok_def)
next
  case DOWN_WAIT
  with assms show ?thesis by (simp add: on_up_def on_first_up_ok)
next
  case DOWN_WAIT_2
  with assms show ?thesis by (simp add: on_up_def on_second_up_ok)
qed (use assms in \<open>simp_all add: on_up_def result_ok_def\<close>)

lemma start_holding_ok:
  assumes inv: "superkey_inv m" and s: "sk_state m \<in> {DOWN_WAIT, DOWN_WAIT_2}" and a: "hold_actions (sk_config m) \<noteq> []"
  shows "result_ok m (start_holding (m\<lparr>hold_task := None\<rparr>))"
proof -
  have f: "held_actions m = []" "double_tap_task m = None" "retire_pending m \<longrightarrow> sk_state m \<noteq> IDLE"
    using superkey_invD [OF inv] s inv by (auto simp: superkey_inv_def held_ok_def)
  show ?thesis
    unfolding start_holding_def emit_hold_down_def execute_actions_down_def Let_def
    using a f by (simp add: handler_defs nest_downs [of "[]", simplified])
qed

lemma hold_timeout_ok:
  assumes inv: "superkey_inv m" and t: "hold_task m \<noteq> None"
  shows "result_ok m (hold_timeout m)"
proof (cases "sk_running m \<and> sk_state m = DOWN_WAIT_2 \<and> tap_hold_actions (sk_config m) \<noteq> []")
  case True
  then have f: "held_actions m = []" "double_tap_task m = None"
    using superkey_invD [OF inv] by auto
  show ?thesis
    unfolding hold_timeout_def start_tap_holding_def emit_tap_hold_down_def execute_actions_down_def Let_def
    using True f by (simp add: handler_defs nest_downs [of "[]", simplified])
next
  case False
  have "result_ok m ([], m\<lparr>hold_task := None\<rparr>)"
    using inv by (auto simp: handler_defs)
  then show ?thesis
    using False inv t start_holding_ok [OF inv]
    by (auto simp: hold_timeout_def start_tap_holding_def Let_def superkey_inv_def held_ok_def
        start_holding_def)
qed

lemma double_tap_timeout_ok:
  assumes inv: "superkey_inv m" and t: "double_tap_task m \<noteq> None"
  shows "result_ok m (double_tap_timeout m)"
proof -
  have s: "sk_state m = UP_WAIT" using inv t by (auto simp: superkey_inv_def pending_ok_def)
  have q: "quiet (m\<lparr>double_tap_task := None\<rparr>)" "held_actions m = []"
    using superkey_invD [OF inv] s by (auto simp: quiet_def)
  show ?thesis
  proof (cases "sk_running m")
    case True
    with s q show ?thesis by (auto simp: double_tap_timeout_def Let_def intro!: then_idle_ok)
  next
    case False
    with inv s q show ?thesis by (auto simp: double_tap_timeout_def handler_defs)
  qed
qed

lemma stop_ok: "result_ok m (stop m)"
  using nest_ups [of "rev (held_actions m)" "[]"]
  by (auto simp: stop_def execute_held_actions_up_def quiet_def intro!: then_idle_ok)

lemma retire_ok:
  assumes inv: "superkey_inv m"
  shows "result_ok m (retire_when_idle m)"
proof (cases "sk_state m = IDLE")
  case True
  then have "quiet (m\<lparr>retire_pending := True\<rparr>)" "held_actions m = []"
    using superkey_invD [OF inv] by (simp_all add: quiet_def)
  then show ?thesis
    using True become_idle_ok by (simp add: retire_when_idle_def)
next
  case False
  have "pending_ok (m\<lparr>retire_pending := True\<rparr>) = pending_ok m" by (simp add: pending_ok_def)
  moreover have "held_ok m \<Longrightarrow> held_ok (m\<lparr>retire_pending := True\<rparr>)" unfolding held_ok_def using False by simp
  ultimately show ?thesis
    using False inv by (simp add: retire_when_idle_def result_ok_def superkey_inv_def)
qed

lemma superkey_step_ok:
  "superkey_step now m es m' \<Longrightarrow> superkey_inv m \<Longrightarrow> result_ok m (es, m')"
proof (induction rule: superkey_step.induct)
  case (Down now m es m')
  then show ?case using on_down_ok [of m now] by simp
next
  case (Up now m es m')
  then show ?case using on_up_ok [of m now] by simp
next
  case (Hold_Timeout m due now es m')
  then show ?case using hold_timeout_ok [of m] by simp
next
  case (Double_Tap_Timeout m due now es m')
  then show ?case using double_tap_timeout_ok [of m] by simp
next
  case (Stop m es m' now)
  then show ?case using stop_ok [of m] by simp
next
  case (Retire m es m' now)
  then show ?case using retire_ok [of m] by simp
next
  case (Repeat slot m es now)
  then show ?case by (auto simp: result_ok_def)
qed

section \<open>Runs\<close>

lemma superkey_run_ok:
  "superkey_run c es m \<Longrightarrow> superkey_inv m \<and> nest [] es = Some (rev (held_actions m))"
proof (induction rule: superkey_run.induct)
  case Start
  then show ?case by (simp add: new_superkey_def superkey_inv_def pending_ok_def held_ok_def)
next
  case (Step es m now es' m')
  then have "result_ok m (es', m')" by (blast intro: superkey_step_ok)
  with Step.IH show ?case by (simp add: result_ok_def nest_append)
qed

text \<open>Whatever the order of presses, releases, timeouts, repetitions, retirement and stops, a
  superkey machine stays well formed (a timer is pending only in the states that wait for it, and
  actions are held only while a hold slot is down) and its effects nest: every release it emits ends
  the latest press still open, and the open presses are exactly its held actions.\<close>

theorem superkey_presses_nest:
  assumes "superkey_run c es m"
  shows "superkey_inv m \<and> nest [] es = Some (rev (held_actions m))"
  using assms by (rule superkey_run_ok)

definition key_action :: "string \<Rightarrow> unit SuperkeyActionData" where
  "key_action t = \<lparr>sk_action_type = t, sk_rapidfire_enabled = False, sk_payload = ()\<rparr>"

definition hold_config :: "unit SuperkeyConfig" where
  "hold_config = (named_config ''k'')\<lparr>tap_actions := [key_action ''keyboard''],
     hold_actions := [key_action ''keyboard'', key_action ''mouse'']\<rparr>"

lemma hold_run:
  "superkey_run hold_config
     ([] @ [] @ [RecordRepeat SlotHold, ActionDown 0 (key_action ''keyboard''), ActionDown 1 (key_action ''mouse'')])
     (snd (hold_timeout (snd (on_down 0 (new_superkey hold_config)))))"
proof -
  let ?m0 = "new_superkey hold_config" and ?m1 = "snd (on_down 0 (new_superkey hold_config))"
  have "superkey_step 0 ?m0 [] ?m1"
    by (rule superkey_step.Down) (simp add: on_down_def transition_to_down_wait_def new_superkey_def Let_def)
  moreover have "superkey_step 1 ?m1
      [RecordRepeat SlotHold, ActionDown 0 (key_action ''keyboard''), ActionDown 1 (key_action ''mouse'')]
      (snd (hold_timeout ?m1))"
    by (rule superkey_step.Hold_Timeout [of _ "3 / 10"])
       (simp_all add: on_down_def transition_to_down_wait_def new_superkey_def hold_config_def named_config_def
          hold_timeout_def start_holding_def emit_hold_down_def execute_actions_down_def key_action_def
          is_emergency_reset_def Let_def)
  moreover have "superkey_run hold_config [] ?m0" by (rule superkey_run.Start)
  ultimately have "superkey_run hold_config (([] @ []) @ [RecordRepeat SlotHold,
      ActionDown 0 (key_action ''keyboard''), ActionDown 1 (key_action ''mouse'')]) (snd (hold_timeout ?m1))"
    by (blast intro: superkey_run.Step)
  then show ?thesis by simp
qed

theorem superkey_presses_nest_witness:
  "held_actions (snd (hold_timeout (snd (on_down 0 (new_superkey hold_config)))))
   = [(0, key_action ''keyboard''), (1, key_action ''mouse'')]"
proof -
  have "rev (held_actions (snd (hold_timeout (snd (on_down 0 (new_superkey hold_config))))))
      = [(1, key_action ''mouse''), (0, key_action ''keyboard'')]"
    using superkey_presses_nest [OF hold_run] by simp
  then show ?thesis by (simp add: rev_swap)
qed



section \<open>Gestures\<close>

text \<open>Timed inputs: before an input is handled, a timer that is due has fired.\<close>

datatype key_input = KeyDown | KeyUp

definition fire_timers :: "rat \<Rightarrow> 'p SuperkeyMachine \<Rightarrow> 'p step_result" where
  "fire_timers now m =
    (case hold_task m of
       Some due \<Rightarrow> if due \<le> now then hold_timeout m else ([], m)
     | None \<Rightarrow>
         (case double_tap_task m of
            Some due \<Rightarrow> if due \<le> now then double_tap_timeout m else ([], m)
          | None \<Rightarrow> ([], m)))"

fun drive :: "(rat \<times> key_input) list \<Rightarrow> rat \<Rightarrow> 'p SuperkeyMachine \<Rightarrow> 'p step_result" where
  "drive [] end m = fire_timers end m"
| "drive ((now, i) # rest) end m =
    (let (es1, m1) = fire_timers now m;
         (es2, m2) = (case i of KeyDown \<Rightarrow> on_down now m1 | KeyUp \<Rightarrow> on_up now m1);
         (es3, m3) = drive rest end m2
     in (es1 @ es2 @ es3, m3))"

definition slots :: "'p SuperkeyEffect list \<Rightarrow> SuperkeySlot list" where
  "slots es = List.map_filter (\<lambda>e. case e of RecordRepeat s \<Rightarrow> Some s | _ \<Rightarrow> None) es"

definition is_tap_time :: "'p SuperkeyConfig \<Rightarrow> rat \<Rightarrow> bool" where
  "is_tap_time c d = (d * 1000 \<le> of_int (max 0 (tap_timeout_ms c)))"

definition is_hold_time :: "'p SuperkeyConfig \<Rightarrow> rat \<Rightarrow> bool" where
  "is_hold_time c d = (of_int (hold_threshold_ms c) / 1000 \<le> d)"

definition single_press_slots :: "'p SuperkeyConfig \<Rightarrow> rat \<Rightarrow> SuperkeySlot list" where
  "single_press_slots c d =
    (if hold_actions c \<noteq> [] \<and> is_hold_time c d then [SlotHold]
     else if is_tap_time c d \<and> tap_actions c \<noteq> [] then [SlotTap] else [])"

definition double_press_slots :: "'p SuperkeyConfig \<Rightarrow> rat \<Rightarrow> SuperkeySlot list" where
  "double_press_slots c d =
    (if (tap_hold_actions c \<noteq> [] \<or> hold_actions c \<noteq> []) \<and> is_hold_time c d
     then [if tap_hold_actions c \<noteq> [] then SlotTapHold else SlotHold]
     else if is_tap_time c d \<and> double_tap_actions c \<noteq> [] then [SlotDoubleTap]
     else if tap_actions c \<noteq> [] then [SlotTap] else [])"

lemma slots_simps [simp]:
  "slots [] = []" "slots (es @ fs) = slots es @ slots fs"
  "slots (RecordRepeat s # es) = s # slots es" "slots (Retired # es) = slots es"
  "slots (map (\<lambda>(i, a). ActionDown i a) ps) = []" "slots (map (\<lambda>(i, a). ActionUp i a) ps) = []"
  by (simp_all add: slots_def List.map_filter_def filter_empty_conv split: prod.split)

lemma slots_tap [simp]: "slots (execute_actions_tap as) = []"
  by (simp add: execute_actions_tap_def Let_def)

lemma emit_slots [simp]:
  "slots (emit_tap m) = (if tap_actions (sk_config m) = [] then [] else [SlotTap])"
  "slots (emit_double_tap m) = (if double_tap_actions (sk_config m) = [] then [] else [SlotDoubleTap])"
  "slots (fst (emit_hold_down m)) = (if hold_actions (sk_config m) = [] then [] else [SlotHold])"
  "slots (fst (emit_tap_hold_down m)) = (if tap_hold_actions (sk_config m) = [] then [] else [SlotTapHold])"
  "slots (fst (execute_held_actions_up m)) = []"
  by (simp_all add: emit_tap_def emit_double_tap_def emit_hold_down_def emit_tap_hold_down_def
      execute_actions_down_def execute_held_actions_up_def Let_def)

lemmas machine_defs = on_down_def on_up_def transition_to_down_wait_def on_second_down_def on_first_up_def
  on_second_up_def release_qualifies_as_tap_def hold_timeout_def double_tap_timeout_def start_holding_def
  start_tap_holding_def then_idle_def become_idle_def emit_hold_down_def emit_tap_hold_down_def
  emit_hold_up_def emit_tap_hold_up_def execute_actions_down_def execute_held_actions_up_def fire_timers_def

text \<open>A single press, with its timers firing when due, selects exactly one slot by its length:
  hold when hold actions exist and the hold threshold is reached, else tap when the release is within
  the tap timeout (whether the tap is emitted at once or after the double-tap window), else none; the
  machine is then back in its initial state.\<close>

theorem single_press_selects:
  assumes "0 \<le> d" and "t0 + d + of_int (double_tap_window_ms c) / 1000 \<le> end" and "t0 + d \<le> end"
    and "drive [(t0, KeyDown), (t0 + d, KeyUp)] end (new_superkey c) = (es, m)"
  shows "slots es = single_press_slots c d \<and> m = new_superkey c"
  using assms(4,1-3)
  by (auto simp: machine_defs new_superkey_def single_press_slots_def is_hold_time_def is_tap_time_def
      Let_def split: if_splits)

theorem single_press_selects_witness:
  "slots (fst (drive [(0, KeyDown), (0 + 1 / 10, KeyUp)] 1 (new_superkey hold_config))) = [SlotTap]"
proof -
  have "single_press_slots hold_config (1 / 10) = [SlotTap]" by code_simp
  moreover have "(0::rat) + 1 / 10 + of_int (double_tap_window_ms hold_config) / 1000 \<le> 1"
    by (simp add: hold_config_def named_config_def)
  ultimately show ?thesis
    using single_press_selects [of "1 / 10" 0 hold_config 1 _ _, OF _ _ _ prod.collapse [symmetric]] by simp
qed

text \<open>C34. A second press inside the double-tap window of a tap selects exactly one slot: held for
  the threshold, tap-hold if it has actions and else hold; released in time, double tap if it has
  actions; and otherwise the first tap, deferred until then, is not lost.  The machine is then back
  in its initial state.\<close>

theorem double_press_selects:
  assumes "0 \<le> d1" and "0 \<le> gap" and "0 \<le> d2"
    and "double_tap_actions c \<noteq> [] \<or> tap_hold_actions c \<noteq> []"
    and "is_tap_time c d1" and "hold_actions c = [] \<or> \<not> is_hold_time c d1"
    and "gap < of_int (double_tap_window_ms c) / 1000" and "t0 + d1 + gap + d2 \<le> end"
    and "drive [(t0, KeyDown), (t0 + d1, KeyUp), (t0 + d1 + gap, KeyDown), (t0 + d1 + gap + d2, KeyUp)] end
           (new_superkey c) = (es, m)"
  shows "slots es = double_press_slots c d2 \<and> m = new_superkey c"
  using assms(9,1-8)
  by (auto simp: machine_defs new_superkey_def double_press_slots_def is_hold_time_def is_tap_time_def
      Let_def split: if_splits)

definition double_config :: "unit SuperkeyConfig" where
  "double_config = (named_config ''k'')\<lparr>tap_actions := [key_action ''keyboard''],
     double_tap_actions := [key_action ''mouse''], tap_hold_actions := [key_action ''exec'']\<rparr>"

theorem double_press_selects_witness:
  "slots (fst (drive [(0, KeyDown), (0 + 1 / 10, KeyUp), (0 + 1 / 10 + 1 / 10, KeyDown),
       (0 + 1 / 10 + 1 / 10 + 1 / 2, KeyUp)] 1 (new_superkey double_config))) = [SlotTapHold]"
proof -
  have "double_press_slots double_config (1 / 2) = [SlotTapHold]" by code_simp
  moreover have "is_tap_time double_config (1 / 10)" by code_simp
  ultimately show ?thesis
    using double_press_selects [of "1 / 10" "1 / 10" "1 / 2" double_config 0 1 _ _,
        OF _ _ _ _ _ _ _ _ prod.collapse [symmetric]]
    by (simp add: double_config_def named_config_def)
qed

text \<open>An emergency reset ends the list it stands in: what a list presses is its actions up to
  and including the first reset, in order with their positions, and a tap releases exactly those in
  reverse order.\<close>

theorem emergency_reset_ends_list:
  "map snd (started_actions 0 actions) = takeWhile (\<lambda>a. \<not> is_emergency_reset a) actions
      @ take 1 (dropWhile (\<lambda>a. \<not> is_emergency_reset a) actions)
   \<and> map fst (started_actions 0 actions) = [0..<length (started_actions 0 actions)]
   \<and> execute_actions_tap actions = map (\<lambda>(i, a). ActionDown i a) (started_actions 0 actions)
      @ map (\<lambda>(i, a). ActionUp i a) (rev (started_actions 0 actions))"
proof -
  have "map snd (started_actions n actions) = takeWhile (\<lambda>a. \<not> is_emergency_reset a) actions
      @ take 1 (dropWhile (\<lambda>a. \<not> is_emergency_reset a) actions)" for n
    by (induction n actions rule: started_actions.induct) auto
  moreover have "map fst (started_actions n actions) = [n..<n + length (started_actions n actions)]" for n
    by (induction n actions rule: started_actions.induct) (auto simp: upt_rec)
  from this [of 0] have "map fst (started_actions 0 actions) = [0..<length (started_actions 0 actions)]" by simp
  ultimately show ?thesis by (simp add: execute_actions_tap_def Let_def)
qed

end
