(* ===== verification/Superkey_Tasks.thy ===== *)
theory Superkey_Tasks
  imports Superkey_Properties "HOL-Library.Multiset"
begin

text \<open>
  The coroutines of a superkey machine (\<open>keymasq/keymasqd/superkey_state.py\<close>), switched at every \<open>await\<close>: the timers,
  the lists of actions that are pressed or released one by one, and the handlers that start them.  Here an action may
  take any time, and keys, timers, \<open>stop\<close> and repetitions come while others are under way; \<open>Superkey\<close> is the case
  that nothing comes in between.  A reference \<open>_hold_task\<close> or \<open>_double_tap_task\<close> is the number of a coroutine, which
  it may outlive.  The lists have no natural cursor moves, so \<open>ActionSequences.run\<close> executes them in the caller.
\<close>

section \<open>Coroutines\<close>

text \<open>
  \<open>HoldSleep\<close> and \<open>TapSleep\<close> are timers with their due time; \<open>Down\<close> has the actions still to be pressed and held, \<open>Up\<close>
  releases the held actions and becomes idle; \<open>Tap\<close> has what it pressed and what it still has to press, \<open>TapOff\<close> what
  it still has to release, and whether the machine becomes idle afterwards.
\<close>

datatype 'p coroutine =
    HoldSleep rat
  | TapSleep rat
  | Down "(nat \<times> 'p SuperkeyActionData) list"
  | Up
  | Tap "(nat \<times> 'p SuperkeyActionData) list" "(nat \<times> 'p SuperkeyActionData) list" bool
  | TapOff "(nat \<times> 'p SuperkeyActionData) list" bool

record 'p SuperkeyTasks =
  mach :: "'p SuperkeyMachine"
  coros :: "nat \<rightharpoonup> 'p coroutine"
  next_coro :: nat
  hold_ref :: "nat option"
  tap_ref :: "nat option"
  emitted :: "'p SuperkeyEffect list"
  lost :: "(nat \<times> 'p SuperkeyActionData) list"

definition new_tasks :: "'p SuperkeyConfig \<Rightarrow> 'p SuperkeyTasks" where
  "new_tasks c = \<lparr>mach = new_superkey c, coros = Map.empty, next_coro = 0, hold_ref = None, tap_ref = None,
     emitted = [], lost = []\<rparr>"

definition emit :: "'p SuperkeyEffect list \<Rightarrow> 'p SuperkeyTasks \<Rightarrow> 'p SuperkeyTasks" where
  "emit es t = t\<lparr>emitted := emitted t @ es\<rparr>"

definition spawn :: "'p coroutine \<Rightarrow> 'p SuperkeyTasks \<Rightarrow> 'p SuperkeyTasks" where
  "spawn c t = t\<lparr>coros := (coros t)(next_coro t \<mapsto> c), next_coro := next_coro t + 1\<rparr>"

definition set_coro :: "nat \<Rightarrow> 'p coroutine option \<Rightarrow> 'p SuperkeyTasks \<Rightarrow> 'p SuperkeyTasks" where
  "set_coro i c t = t\<lparr>coros := (coros t)(i := c)\<rparr>"

text \<open>
  A cancelled coroutine gets a \<open>CancelledError\<close> where it waits: a tap releases what it pressed (its \<open>finally\<close>) and does
  not go on to become idle; a release that is cut short leaves the rest of its actions pressed.
\<close>

definition cancel_task :: "nat option \<Rightarrow> 'p SuperkeyTasks \<Rightarrow> 'p SuperkeyTasks" where
  "cancel_task ref t =
    (case ref of
       None \<Rightarrow> t
     | Some i \<Rightarrow>
         (case coros t i of
            None \<Rightarrow> t
          | Some (Tap pressed rest idle) \<Rightarrow> set_coro i (Some (TapOff pressed False)) t
          | Some (TapOff pressed idle) \<Rightarrow> set_coro i None (t\<lparr>lost := lost t @ pressed\<rparr>)
          | Some c \<Rightarrow> set_coro i None t))"

definition idle_task :: "'p SuperkeyTasks \<Rightarrow> 'p SuperkeyTasks" where
  "idle_task t = (case become_idle (mach t) of (es, m) \<Rightarrow> emit es (t\<lparr>mach := m\<rparr>))"

section \<open>Handlers\<close>

definition hold_due :: "rat \<Rightarrow> 'p SuperkeyTasks \<Rightarrow> rat" where
  "hold_due now t = now + of_int (hold_threshold_ms (sk_config (mach t))) / 1000"

definition start_hold_timer :: "rat \<Rightarrow> 'p SuperkeyTasks \<Rightarrow> 'p SuperkeyTasks" where
  "start_hold_timer now t = spawn (HoldSleep (hold_due now t)) (t\<lparr>hold_ref := Some (next_coro t)\<rparr>)"

definition task_on_down :: "rat \<Rightarrow> 'p SuperkeyTasks \<Rightarrow> 'p SuperkeyTasks" where
  "task_on_down now t =
    (case sk_state (mach t) of
       IDLE \<Rightarrow>
         (let t1 = t\<lparr>mach := (mach t)\<lparr>sk_state := DOWN_WAIT, press_started_at := Some now\<rparr>\<rparr>
          in if hold_actions (sk_config (mach t)) = [] then t1 else start_hold_timer now t1)
     | UP_WAIT \<Rightarrow>
         (let t1 = (cancel_task (tap_ref t) t)\<lparr>tap_ref := None,
                     mach := (mach t)\<lparr>sk_state := DOWN_WAIT_2, press_started_at := Some now\<rparr>\<rparr>
          in if tap_hold_actions (sk_config (mach t)) = [] \<and> hold_actions (sk_config (mach t)) = [] then t1
             else start_hold_timer now t1)
     | _ \<Rightarrow> t)"

definition spawn_tap :: "SuperkeySlot \<Rightarrow> 'p SuperkeyActionData list \<Rightarrow> bool \<Rightarrow> 'p SuperkeyTasks \<Rightarrow> 'p SuperkeyTasks" where
  "spawn_tap slot actions idle t = spawn (Tap [] (started_actions 0 actions) idle) (emit [RecordRepeat slot] t)"

definition release_timer :: "rat \<Rightarrow> 'p SuperkeyTasks \<Rightarrow> bool \<times> 'p SuperkeyTasks" where
  "release_timer now t =
    (case release_qualifies_as_tap now (mach t) of
       (is_tap, m) \<Rightarrow> (is_tap, (cancel_task (hold_ref t) (t\<lparr>mach := m\<rparr>))\<lparr>hold_ref := None\<rparr>))"

definition task_first_up :: "rat \<Rightarrow> 'p SuperkeyTasks \<Rightarrow> 'p SuperkeyTasks" where
  "task_first_up now t =
    (case release_timer now t of
       (is_tap, t1) \<Rightarrow>
         let c = sk_config (mach t1)
         in if \<not> is_tap then idle_task t1
            else if double_tap_actions c \<noteq> [] \<or> tap_hold_actions c \<noteq> []
            then spawn (TapSleep (now + of_int (double_tap_window_ms c) / 1000))
                   (t1\<lparr>mach := (mach t1)\<lparr>sk_state := UP_WAIT\<rparr>, tap_ref := Some (next_coro t1)\<rparr>)
            else if tap_actions c \<noteq> [] then spawn_tap SlotTap (tap_actions c) True t1
            else idle_task t1)"

definition task_second_up :: "rat \<Rightarrow> 'p SuperkeyTasks \<Rightarrow> 'p SuperkeyTasks" where
  "task_second_up now t =
    (case release_timer now t of
       (is_tap, t1) \<Rightarrow>
         let c = sk_config (mach t1)
         in if is_tap \<and> double_tap_actions c \<noteq> [] then spawn_tap SlotDoubleTap (double_tap_actions c) True t1
            else if tap_actions c \<noteq> [] then spawn_tap SlotTap (tap_actions c) True t1
            else idle_task t1)"

definition task_on_up :: "rat \<Rightarrow> 'p SuperkeyTasks \<Rightarrow> 'p SuperkeyTasks" where
  "task_on_up now t =
    (case sk_state (mach t) of
       DOWN_WAIT \<Rightarrow> task_first_up now t
     | HOLDING \<Rightarrow> if hold_actions (sk_config (mach t)) = [] then idle_task t else spawn Up t
     | DOWN_WAIT_2 \<Rightarrow> task_second_up now t
     | TAP_HOLDING \<Rightarrow> if tap_hold_actions (sk_config (mach t)) = [] then idle_task t else spawn Up t
     | _ \<Rightarrow> t)"

text \<open>A timer ends its sleep; its coroutine goes on with the actions it starts.\<close>

definition task_hold :: "nat \<Rightarrow> SuperkeyState \<Rightarrow> SuperkeySlot \<Rightarrow> 'p SuperkeyActionData list \<Rightarrow> 'p SuperkeyTasks \<Rightarrow> 'p SuperkeyTasks"
where
  "task_hold i state slot actions t =
    (let t1 = t\<lparr>mach := (mach t)\<lparr>press_started_at := None, sk_state := state\<rparr>\<rparr>
     in if actions = [] then set_coro i None t1
        else set_coro i (Some (Down (started_actions 0 actions))) (emit [RecordRepeat slot] t1))"

definition task_fires :: "nat \<Rightarrow> 'p SuperkeyTasks \<Rightarrow> 'p SuperkeyTasks" where
  "task_fires i t =
    (let m = mach t; c = sk_config m
     in case coros t i of
          Some (HoldSleep due) \<Rightarrow>
            if \<not> sk_running m then set_coro i None t
            else if sk_state m = DOWN_WAIT \<or> sk_state m = DOWN_WAIT_2 \<and> tap_hold_actions c = []
            then task_hold i HOLDING SlotHold (hold_actions c) t
            else if sk_state m = DOWN_WAIT_2 then task_hold i TAP_HOLDING SlotTapHold (tap_hold_actions c) t
            else set_coro i None t
        | Some (TapSleep due) \<Rightarrow>
            if \<not> sk_running m \<or> sk_state m \<noteq> UP_WAIT then set_coro i None t
            else if tap_actions c = [] then idle_task (set_coro i None t)
            else set_coro i (Some (Tap [] (started_actions 0 (tap_actions c)) True)) (emit [RecordRepeat SlotTap] t)
        | _ \<Rightarrow> t)"

text \<open>A coroutine runs to its next \<open>await\<close>.\<close>

definition task_resumes :: "nat \<Rightarrow> 'p SuperkeyTasks \<Rightarrow> 'p SuperkeyTasks" where
  "task_resumes i t =
    (case coros t i of
       Some (Down []) \<Rightarrow> set_coro i None t
     | Some (Down (x # rest)) \<Rightarrow>
         set_coro i (Some (Down rest)) (emit [ActionDown (fst x) (snd x)]
           (t\<lparr>mach := (mach t)\<lparr>held_actions := held_actions (mach t) @ [x]\<rparr>\<rparr>))
     | Some Up \<Rightarrow>
         if held_actions (mach t) = [] then idle_task (set_coro i None t)
         else let x = last (held_actions (mach t))
              in emit [ActionUp (fst x) (snd x)]
                   (t\<lparr>mach := (mach t)\<lparr>held_actions := butlast (held_actions (mach t))\<rparr>\<rparr>)
     | Some (Tap pressed [] idle) \<Rightarrow> set_coro i (Some (TapOff pressed idle)) t
     | Some (Tap pressed (x # rest) idle) \<Rightarrow>
         set_coro i (Some (Tap (pressed @ [x]) rest idle)) (emit [ActionDown (fst x) (snd x)] t)
     | Some (TapOff pressed idle) \<Rightarrow>
         if pressed = [] then (if idle then idle_task (set_coro i None t) else set_coro i None t)
         else let x = last pressed
              in set_coro i (Some (TapOff (butlast pressed) idle)) (emit [ActionUp (fst x) (snd x)] t)
     | _ \<Rightarrow> t)"

definition task_stop :: "'p SuperkeyTasks \<Rightarrow> 'p SuperkeyTasks" where
  "task_stop t =
    spawn Up ((cancel_task (tap_ref t) (cancel_task (hold_ref t) t))\<lparr>hold_ref := None, tap_ref := None,
      mach := (mach t)\<lparr>sk_running := False, press_started_at := None\<rparr>\<rparr>)"

definition task_retire :: "'p SuperkeyTasks \<Rightarrow> 'p SuperkeyTasks" where
  "task_retire t = (case retire_when_idle (mach t) of (es, m) \<Rightarrow> emit es (t\<lparr>mach := m\<rparr>))"

definition slot_actions :: "SuperkeySlot \<Rightarrow> 'p SuperkeyConfig \<Rightarrow> 'p SuperkeyActionData list" where
  "slot_actions slot c =
    (case slot of SlotTap \<Rightarrow> tap_actions c | SlotDoubleTap \<Rightarrow> double_tap_actions c
     | SlotHold \<Rightarrow> hold_actions c | SlotTapHold \<Rightarrow> tap_hold_actions c)"

definition task_repeat :: "SuperkeySlot \<Rightarrow> 'p SuperkeyTasks \<Rightarrow> 'p SuperkeyTasks" where
  "task_repeat slot t =
    (if slot_actions slot (sk_config (mach t)) = [] then t
     else spawn_tap slot (slot_actions slot (sk_config (mach t))) False t)"

datatype task_event = OnDown rat | OnUp rat | Fires nat rat | Resumes nat | Stopped | Retires | Repeats SuperkeySlot

fun task_step :: "'p SuperkeyTasks \<Rightarrow> task_event \<Rightarrow> 'p SuperkeyTasks" where
  "task_step t (OnDown now) = task_on_down now t"
| "task_step t (OnUp now) = task_on_up now t"
| "task_step t (Fires i now) = task_fires i t"
| "task_step t (Resumes i) = task_resumes i t"
| "task_step t Stopped = task_stop t"
| "task_step t Retires = task_retire t"
| "task_step t (Repeats slot) = task_repeat slot t"

text \<open>A timer fires when it is due; everything else may happen at any time.\<close>

fun task_guard :: "'p SuperkeyTasks \<Rightarrow> task_event \<Rightarrow> bool" where
  "task_guard t (Fires i now) =
    (case coros t i of Some (HoldSleep due) \<Rightarrow> due \<le> now | Some (TapSleep due) \<Rightarrow> due \<le> now | _ \<Rightarrow> False)"
| "task_guard t (Resumes i) = (coros t i \<noteq> None)"
| "task_guard t e = True"

section \<open>Every press is accounted for\<close>

text \<open>The open presses: a release ends an open press of the same action.\<close>

fun open_presses :: "(nat \<times> 'p SuperkeyActionData) multiset \<Rightarrow> 'p SuperkeyEffect list \<Rightarrow> (nat \<times> 'p SuperkeyActionData) multiset option"
where
  "open_presses M [] = Some M"
| "open_presses M (ActionDown i a # es) = open_presses (add_mset (i, a) M) es"
| "open_presses M (ActionUp i a # es) = (if (i, a) \<in># M then open_presses (M - {#(i, a)#}) es else None)"
| "open_presses M (RecordRepeat s # es) = open_presses M es"
| "open_presses M (Retired # es) = open_presses M es"

lemma open_presses_append:
  "open_presses M es = Some M' \<Longrightarrow> open_presses M (es @ fs) = open_presses M' fs"
  by (induction M es rule: open_presses.induct) (auto split: if_splits)

definition pressed_by :: "'p coroutine option \<Rightarrow> (nat \<times> 'p SuperkeyActionData) multiset" where
  "pressed_by c = (case c of Some (Tap pressed rest idle) \<Rightarrow> mset pressed | Some (TapOff pressed idle) \<Rightarrow> mset pressed | _ \<Rightarrow> {#})"

definition accounted :: "'p SuperkeyTasks \<Rightarrow> (nat \<times> 'p SuperkeyActionData) multiset" where
  "accounted t = mset (held_actions (mach t)) + (\<Sum>i<next_coro t. pressed_by (coros t i)) + mset (lost t)"

definition tasks_inv :: "'p SuperkeyTasks \<Rightarrow> bool" where
  "tasks_inv t \<longleftrightarrow> (\<forall>i. next_coro t \<le> i \<longrightarrow> coros t i = None) \<and> open_presses {#} (emitted t) = Some (accounted t)"

lemma pressed_by_simps [simp]:
  "pressed_by None = {#}" "pressed_by (Some (HoldSleep due)) = {#}" "pressed_by (Some (TapSleep due)) = {#}"
  "pressed_by (Some (Down rest)) = {#}" "pressed_by (Some Up) = {#}"
  "pressed_by (Some (Tap pressed rest idle)) = mset pressed" "pressed_by (Some (TapOff pressed idle)) = mset pressed"
  by (simp_all add: pressed_by_def)

lemma sum_update:
  fixes f :: "'b \<Rightarrow> 'c::comm_monoid_add"
  assumes "i < (n::nat)"
  shows "(\<Sum>j<n. f ((g(i := x)) j)) + f (g i) = (\<Sum>j<n. f (g j)) + f x"
proof -
  have "(\<Sum>j<n. f ((g(i := x)) j)) = f x + (\<Sum>j\<in>{..<n} - {i}. f ((g(i := x)) j))"
    using assms by (subst sum.remove [of _ i]) auto
  moreover have "(\<Sum>j\<in>{..<n} - {i}. f ((g(i := x)) j)) = (\<Sum>j\<in>{..<n} - {i}. f (g j))" by (rule sum.cong) auto
  moreover have "(\<Sum>j<n. f (g j)) = f (g i) + (\<Sum>j\<in>{..<n} - {i}. f (g j))"
    using assms by (subst sum.remove [of _ i]) auto
  ultimately show ?thesis by (simp add: ac_simps)
qed

lemma accounted_fields [simp]:
  "accounted (t\<lparr>hold_ref := h\<rparr>) = accounted t" "accounted (t\<lparr>tap_ref := h\<rparr>) = accounted t"
  "accounted (t\<lparr>emitted := es\<rparr>) = accounted t" "accounted (emit es t) = accounted t"
  "held_actions m = held_actions (mach t) \<Longrightarrow> accounted (t\<lparr>mach := m\<rparr>) = accounted t"
  by (simp_all add: accounted_def emit_def)

lemma accounted_spawn [simp]:
  assumes "\<forall>i. next_coro t \<le> i \<longrightarrow> coros t i = None"
  shows "accounted (spawn c t) = accounted t + pressed_by (Some c)"
  using assms by (simp add: accounted_def spawn_def sum.lessThan_Suc) 

lemma accounted_set:
  "i < next_coro t \<Longrightarrow> accounted (set_coro i c t) + pressed_by (coros t i) = accounted t + pressed_by c"
  using sum_update [of i "next_coro t" pressed_by "coros t" c] by (simp add: accounted_def set_coro_def ac_simps)

lemma task_fields [simp]:
  "mach (emit es t) = mach t" "coros (emit es t) = coros t" "next_coro (emit es t) = next_coro t"
  "emitted (emit es t) = emitted t @ es" "lost (emit es t) = lost t" "hold_ref (emit es t) = hold_ref t" "tap_ref (emit es t) = tap_ref t"
  "mach (spawn c t) = mach t" "next_coro (spawn c t) = next_coro t + 1" "emitted (spawn c t) = emitted t"
  "coros (spawn c t) = (coros t)(next_coro t \<mapsto> c)" "lost (spawn c t) = lost t"
  "hold_ref (spawn c t) = hold_ref t" "tap_ref (spawn c t) = tap_ref t"
  "mach (set_coro i x t) = mach t" "next_coro (set_coro i x t) = next_coro t" "emitted (set_coro i x t) = emitted t"
  "coros (set_coro i x t) = (coros t)(i := x)" "lost (set_coro i x t) = lost t"
  "hold_ref (set_coro i x t) = hold_ref t" "tap_ref (set_coro i x t) = tap_ref t"
  by (simp_all add: emit_def spawn_def set_coro_def)

lemma tasks_invD:
  assumes "tasks_inv t"
  shows "\<forall>i. next_coro t \<le> i \<longrightarrow> coros t i = None" "open_presses {#} (emitted t) = Some (accounted t)"
    "coros t i = Some c \<Longrightarrow> i < next_coro t"
  using assms by (auto simp: tasks_inv_def) (metis not_le_imp_less option.distinct(1))

lemma tasks_inv_fields [simp]:
  "tasks_inv (t\<lparr>hold_ref := h\<rparr>) = tasks_inv t" "tasks_inv (t\<lparr>tap_ref := h\<rparr>) = tasks_inv t"
  "held_actions m = held_actions (mach t) \<Longrightarrow> tasks_inv (t\<lparr>mach := m\<rparr>) = tasks_inv t"
  by (simp_all add: tasks_inv_def)

lemma tasks_inv_spawn: "tasks_inv t \<Longrightarrow> pressed_by (Some c) = {#} \<Longrightarrow> tasks_inv (spawn c t)"
  by (auto simp: tasks_inv_def)

lemma tasks_inv_set:
  assumes inv: "tasks_inv t" and i: "i < next_coro t" and "pressed_by c = pressed_by (coros t i)"
  shows "tasks_inv (set_coro i c t)"
  using assms accounted_set [OF i, of c] by (auto simp: tasks_inv_def)

lemma tasks_inv_emit:
  assumes inv: "tasks_inv t" and es: "\<And>M. open_presses M es = Some M"
  shows "tasks_inv (emit es t)"
  using assms tasks_invD(2) [OF inv] by (auto simp: tasks_inv_def open_presses_append)

lemma tasks_inv_idle: "tasks_inv t \<Longrightarrow> tasks_inv (idle_task t)"
  by (auto simp: idle_task_def become_idle_def Let_def intro!: tasks_inv_emit split: if_splits)

lemma tasks_inv_cancel:
  assumes inv: "tasks_inv t" shows "tasks_inv (cancel_task ref t)"
proof (cases ref)
  case (Some i)
  show ?thesis
  proof (cases "coros t i")
    case (Some c)
    then have i: "i < next_coro t" by (rule tasks_invD(3) [OF inv])
    show ?thesis
    proof (cases c)
      case (TapOff pressed idle)
      have "accounted (set_coro i None (t\<lparr>lost := lost t @ pressed\<rparr>)) + mset pressed = accounted t + mset pressed"
        using accounted_set [of i "t\<lparr>lost := lost t @ pressed\<rparr>" None] i Some TapOff
        by (simp add: accounted_def ac_simps)
      then show ?thesis using inv Some TapOff \<open>ref = Some i\<close> by (auto simp: cancel_task_def tasks_inv_def)
    qed (use inv i Some \<open>ref = Some i\<close> in \<open>auto simp: cancel_task_def intro!: tasks_inv_set\<close>)
  qed (use inv \<open>ref = Some i\<close> in \<open>simp add: cancel_task_def\<close>)
qed (use inv in \<open>simp add: cancel_task_def\<close>)

lemma mach_cancel [simp]: "mach (cancel_task ref t) = mach t" "emitted (cancel_task ref t) = emitted t"
  by (simp_all add: cancel_task_def split: option.splits coroutine.splits)

lemma tasks_inv_spawn_tap: "tasks_inv t \<Longrightarrow> tasks_inv (spawn_tap slot actions idle t)"
  by (auto simp: spawn_tap_def intro!: tasks_inv_spawn tasks_inv_emit)

lemma tasks_inv_hold_timer: "tasks_inv t \<Longrightarrow> tasks_inv (start_hold_timer now t)"
  by (auto simp: start_hold_timer_def intro!: tasks_inv_spawn)

lemma tasks_inv_release_timer: "tasks_inv t \<Longrightarrow> tasks_inv (snd (release_timer now t))"
  by (auto simp: release_timer_def release_qualifies_as_tap_def Let_def intro!: tasks_inv_cancel split: option.splits)

lemma tasks_inv_on_down: "tasks_inv t \<Longrightarrow> tasks_inv (task_on_down now t)"
  by (auto simp: task_on_down_def Let_def tasks_inv_cancel intro!: tasks_inv_hold_timer split: SuperkeyState.split)

lemma tasks_inv_first_up:
  assumes "tasks_inv t" shows "tasks_inv (task_first_up now t)"
proof -
  obtain is_tap t1 where t1: "release_timer now t = (is_tap, t1)" by fastforce
  then have "tasks_inv t1" using tasks_inv_release_timer [OF assms, of now] by simp
  then show ?thesis
    by (auto simp: task_first_up_def t1 Let_def intro!: tasks_inv_idle tasks_inv_spawn tasks_inv_spawn_tap)
qed

lemma tasks_inv_second_up:
  assumes "tasks_inv t" shows "tasks_inv (task_second_up now t)"
proof -
  obtain is_tap t1 where t1: "release_timer now t = (is_tap, t1)" by fastforce
  then have "tasks_inv t1" using tasks_inv_release_timer [OF assms, of now] by simp
  then show ?thesis by (auto simp: task_second_up_def t1 Let_def intro!: tasks_inv_idle tasks_inv_spawn_tap)
qed

lemma tasks_inv_on_up: "tasks_inv t \<Longrightarrow> tasks_inv (task_on_up now t)"
  by (auto simp: task_on_up_def tasks_inv_first_up tasks_inv_second_up tasks_inv_idle intro!: tasks_inv_spawn
      split: SuperkeyState.split)

lemma tasks_inv_hold:
  assumes "tasks_inv t" and "coros t i = Some (HoldSleep due)"
  shows "tasks_inv (task_hold i state slot actions t)"
  using assms tasks_invD(3) [OF assms] by (auto simp: task_hold_def Let_def intro!: tasks_inv_set tasks_inv_emit)

lemma tasks_inv_fires:
  assumes inv: "tasks_inv t" shows "tasks_inv (task_fires i t)"
proof (cases "coros t i")
  case (Some c)
  then have i: "i < next_coro t" by (rule tasks_invD(3) [OF inv])
  show ?thesis
  proof (cases c)
    case (HoldSleep due)
    then show ?thesis
      using inv i Some by (auto simp: task_fires_def Let_def intro!: tasks_inv_set tasks_inv_hold)
  next
    case (TapSleep due)
    then show ?thesis
      using inv i Some by (auto simp: task_fires_def Let_def intro!: tasks_inv_set tasks_inv_idle tasks_inv_emit)
  qed (use inv Some in \<open>simp_all add: task_fires_def\<close>)
qed (use inv in \<open>simp add: task_fires_def\<close>)

lemma accounted_held:
  "accounted (t\<lparr>mach := (mach t)\<lparr>held_actions := h\<rparr>\<rparr>) + mset (held_actions (mach t)) = accounted t + mset h"
  by (simp add: accounted_def ac_simps)

lemma mset_last: "xs \<noteq> [] \<Longrightarrow> add_mset (last xs) (mset (butlast xs)) = mset xs"
  by (induction xs rule: rev_induct) simp_all

lemma last_released: "A + mset xs = B + mset (butlast xs) \<Longrightarrow> xs \<noteq> [] \<Longrightarrow> B = add_mset (last xs) A"
  by (simp add: mset_last [symmetric])

lemma tasks_inv_resumes:
  assumes inv: "tasks_inv t" shows "tasks_inv (task_resumes i t)"
proof (cases "coros t i")
  case (Some c)
  then have i: "i < next_coro t" by (rule tasks_invD(3) [OF inv])
  note old = tasks_invD(1,2) [OF inv]
  show ?thesis
  proof (cases c)
    case (Down rest)
    show ?thesis
    proof (cases rest)
      case Nil
      then show ?thesis using inv i Some Down by (auto simp: task_resumes_def intro!: tasks_inv_set)
    next
      case (Cons x more)
      let ?t = "t\<lparr>mach := (mach t)\<lparr>held_actions := held_actions (mach t) @ [x]\<rparr>\<rparr>"
      have "accounted ?t = add_mset x (accounted t)"
        using accounted_held [of "held_actions (mach t) @ [x]" t] by simp
      then have "tasks_inv (emit [ActionDown (fst x) (snd x)] ?t)" using old by (simp add: tasks_inv_def open_presses_append)
      then have "tasks_inv (set_coro i (Some (Down more)) (emit [ActionDown (fst x) (snd x)] ?t))"
        using i Some Down by (intro tasks_inv_set) simp_all
      then show ?thesis using Some Down Cons by (simp add: task_resumes_def)
    qed
  next
    case Up
    show ?thesis
    proof (cases "held_actions (mach t) = []")
      case True
      then show ?thesis using inv i Some Up by (auto simp: task_resumes_def intro!: tasks_inv_idle tasks_inv_set)
    next
      case False
      let ?x = "last (held_actions (mach t))"
      let ?t = "t\<lparr>mach := (mach t)\<lparr>held_actions := butlast (held_actions (mach t))\<rparr>\<rparr>"
      have acc: "accounted t = add_mset ?x (accounted ?t)"
        using accounted_held [of "butlast (held_actions (mach t))" t] False by (rule last_released)
      then have "tasks_inv (emit [ActionUp (fst ?x) (snd ?x)] ?t)"
        using old by (simp add: tasks_inv_def open_presses_append)
      then show ?thesis using False Some Up by (simp add: task_resumes_def Let_def)
    qed
  next
    case (Tap pressed rest idle)
    show ?thesis
    proof (cases rest)
      case Nil
      then show ?thesis using inv i Some Tap by (auto simp: task_resumes_def intro!: tasks_inv_set)
    next
      case (Cons x more)
      let ?t = "set_coro i (Some (Tap (pressed @ [x]) more idle)) (emit [ActionDown (fst x) (snd x)] t)"
      have "accounted ?t = add_mset x (accounted t)"
        using accounted_set [of i "emit [ActionDown (fst x) (snd x)] t" "Some (Tap (pressed @ [x]) more idle)"] i Some Tap by simp
      then have "tasks_inv ?t" using old i by (simp add: tasks_inv_def open_presses_append)
      then show ?thesis using Some Tap Cons by (simp add: task_resumes_def)
    qed
  next
    case (TapOff pressed idle)
    show ?thesis
    proof (cases "pressed = []")
      case True
      then show ?thesis using inv i Some TapOff by (auto simp: task_resumes_def intro!: tasks_inv_idle tasks_inv_set)
    next
      case False
      let ?x = "last pressed"
      let ?t = "set_coro i (Some (TapOff (butlast pressed) idle)) (emit [ActionUp (fst ?x) (snd ?x)] t)"
      have "accounted ?t + mset pressed = accounted t + mset (butlast pressed)"
        using accounted_set [of i "emit [ActionUp (fst ?x) (snd ?x)] t" "Some (TapOff (butlast pressed) idle)"] i Some TapOff by simp
      then have "accounted t = add_mset ?x (accounted ?t)"
        using False by (rule last_released)
      then have "tasks_inv ?t" using old i by (simp add: tasks_inv_def open_presses_append)
      then show ?thesis using Some TapOff False by (simp add: task_resumes_def Let_def)
    qed
  qed (use inv Some in \<open>simp_all add: task_resumes_def\<close>)
qed (use inv in \<open>simp add: task_resumes_def\<close>)

lemma tasks_inv_step: "tasks_inv t \<Longrightarrow> tasks_inv (task_step t e)"
proof (cases e)
  case Stopped
  assume "tasks_inv t"
  then show ?thesis using Stopped by (auto simp: task_stop_def intro!: tasks_inv_spawn tasks_inv_cancel)
next
  case Retires
  assume "tasks_inv t"
  then show ?thesis using Retires
    by (auto simp: task_retire_def retire_when_idle_def become_idle_def Let_def intro!: tasks_inv_emit split: if_splits)
next
  case (Repeats slot)
  assume "tasks_inv t"
  then show ?thesis using Repeats by (simp add: task_repeat_def tasks_inv_spawn_tap)
qed (simp_all add: tasks_inv_on_down tasks_inv_on_up tasks_inv_fires tasks_inv_resumes)

lemma tasks_inv_new: "tasks_inv (new_tasks c)"
  by (simp add: tasks_inv_def new_tasks_def accounted_def new_superkey_def)

interpretation tasks: inv_machine "new_tasks c" task_guard task_step tasks_inv for c
  by unfold_locales (simp_all add: tasks_inv_new tasks_inv_step)


section \<open>Nothing in between\<close>

text \<open>The coroutine \<open>i\<close> is resumed until \<open>t'\<close> is reached, and nothing else happens.\<close>

definition finishes :: "nat \<Rightarrow> 'p SuperkeyTasks \<Rightarrow> 'p SuperkeyTasks \<Rightarrow> bool" where
  "finishes i t t' \<longleftrightarrow> (\<exists>n. guarded_run task_guard task_step t (replicate n (Resumes i))
     \<and> run_steps task_step t (replicate n (Resumes i)) = t')"

text \<open>A machine of \<open>Superkey\<close> and the tasks it stands for: no coroutine is under way but the timer it waits for.\<close>

definition settled :: "'p SuperkeyMachine \<Rightarrow> 'p SuperkeyTasks \<Rightarrow> bool" where
  "settled m t \<longleftrightarrow> mach t = m\<lparr>hold_task := None, double_tap_task := None\<rparr> \<and> (\<forall>i. next_coro t \<le> i \<longrightarrow> coros t i = None)
    \<and> (case (hold_task m, double_tap_task m) of
         (None, None) \<Rightarrow> coros t = Map.empty
       | (Some due, None) \<Rightarrow> \<exists>i. hold_ref t = Some i \<and> coros t = [i \<mapsto> HoldSleep due]
       | (None, Some due) \<Rightarrow> \<exists>i. tap_ref t = Some i \<and> coros t = [i \<mapsto> TapSleep due]
       | _ \<Rightarrow> False)"

fun atomic_step :: "'p SuperkeyMachine \<Rightarrow> task_event \<Rightarrow> 'p step_result" where
  "atomic_step m (OnDown now) = on_down now m"
| "atomic_step m (OnUp now) = on_up now m"
| "atomic_step m (Fires i now) = (if hold_task m = None then double_tap_timeout m else hold_timeout m)"
| "atomic_step m (Resumes i) = ([], m)"
| "atomic_step m Stopped = stop m"
| "atomic_step m Retires = retire_when_idle m"
| "atomic_step m (Repeats slot) = (execute_repeat_slot slot m, m)"

lemma finishes_refl [simp]: "finishes i t t"
  unfolding finishes_def by (rule exI [of _ 0]) simp

lemma finishes_step: "coros t i \<noteq> None \<Longrightarrow> finishes i (task_resumes i t) t' \<Longrightarrow> finishes i t t'"
  unfolding finishes_def by (elim exE conjE, rule_tac x = "Suc n" in exI) auto

lemma task_algebra [simp]:
  "emit [] t = t" "emit fs (emit es t) = emit (es @ fs) t" "set_coro i b (set_coro i a t) = set_coro i b t"
  "emit es (set_coro i a t) = set_coro i a (emit es t)"
  "emit es (t\<lparr>mach := m\<rparr>) = (emit es t)\<lparr>mach := m\<rparr>" "set_coro i a (t\<lparr>mach := m\<rparr>) = (set_coro i a t)\<lparr>mach := m\<rparr>"
  by (simp_all add: emit_def set_coro_def)

definition downs :: "(nat \<times> 'p SuperkeyActionData) list \<Rightarrow> 'p SuperkeyEffect list" where
  "downs ps = map (\<lambda>(i, a). ActionDown i a) ps"

definition ups :: "(nat \<times> 'p SuperkeyActionData) list \<Rightarrow> 'p SuperkeyEffect list" where
  "ups ps = map (\<lambda>(i, a). ActionUp i a) ps"

lemma downs_ups [simp]:
  "downs [] = []" "downs (x # ps) = ActionDown (fst x) (snd x) # downs ps"
  "ups [] = []" "ups (x # ps) = ActionUp (fst x) (snd x) # ups ps" "ups (ps @ qs) = ups ps @ ups qs"
  by (simp_all add: downs_def ups_def case_prod_beta)

lemma tap_off_finishes:
  "coros t i = Some (TapOff pressed idle) \<Longrightarrow>
   finishes i t ((if idle then idle_task else id) (set_coro i None (emit (ups (rev pressed)) t)))"
proof (induction pressed arbitrary: t rule: rev_induct)
  case Nil
  then show ?case by - (cases idle; rule finishes_step; simp add: task_resumes_def)
next
  case (snoc x pressed)
  let ?t = "set_coro i (Some (TapOff pressed idle)) (emit [ActionUp (fst x) (snd x)] t)"
  have "finishes i ?t ((if idle then idle_task else id) (set_coro i None (emit (ups (rev pressed)) ?t)))"
    by (rule snoc.IH) simp
  then show ?case
    using snoc.prems by - (cases idle; rule finishes_step; simp add: task_resumes_def Let_def)
qed

lemma tap_finishes:
  "coros t i = Some (Tap pressed rest idle) \<Longrightarrow>
   finishes i t ((if idle then idle_task else id)
     (set_coro i None (emit (downs rest @ ups (rev (pressed @ rest))) t)))"
proof (induction rest arbitrary: t pressed)
  case Nil
  have "finishes i (set_coro i (Some (TapOff pressed idle)) t)
      ((if idle then idle_task else id) (set_coro i None (emit (ups (rev pressed)) (set_coro i (Some (TapOff pressed idle)) t))))"
    by (rule tap_off_finishes) simp
  then show ?case using Nil by - (cases idle; rule finishes_step; simp add: task_resumes_def)
next
  case (Cons x rest)
  let ?t = "set_coro i (Some (Tap (pressed @ [x]) rest idle)) (emit [ActionDown (fst x) (snd x)] t)"
  have "finishes i ?t ((if idle then idle_task else id)
      (set_coro i None (emit (downs rest @ ups (rev ((pressed @ [x]) @ rest))) ?t)))"
    by (rule Cons.IH) simp
  then show ?case
    using Cons.prems by - (cases idle; rule finishes_step; simp add: task_resumes_def)
qed

lemma down_finishes:
  "coros t i = Some (Down rest) \<Longrightarrow>
   finishes i t (set_coro i None (emit (downs rest) (t\<lparr>mach := (mach t)\<lparr>held_actions := held_actions (mach t) @ rest\<rparr>\<rparr>)))"
proof (induction rest arbitrary: t)
  case Nil
  then show ?case by - (rule finishes_step, simp_all add: task_resumes_def)
next
  case (Cons x rest)
  let ?t = "set_coro i (Some (Down rest)) (emit [ActionDown (fst x) (snd x)]
    (t\<lparr>mach := (mach t)\<lparr>held_actions := held_actions (mach t) @ [x]\<rparr>\<rparr>))"
  have "finishes i ?t (set_coro i None (emit (downs rest) (?t\<lparr>mach := (mach ?t)\<lparr>held_actions := held_actions (mach ?t) @ rest\<rparr>\<rparr>)))"
    by (rule Cons.IH) simp
  then show ?case
    using Cons.prems by - (rule finishes_step; simp add: task_resumes_def)
qed

lemma up_finishes:
  "coros t i = Some Up \<Longrightarrow> held_actions (mach t) = held \<Longrightarrow>
   finishes i t (idle_task (set_coro i None (emit (ups (rev held)) (t\<lparr>mach := (mach t)\<lparr>held_actions := []\<rparr>\<rparr>))))"
proof (induction held arbitrary: t rule: rev_induct)
  case Nil
  have same: "t\<lparr>mach := (mach t)\<lparr>held_actions := []\<rparr>\<rparr> = t"
    using Nil(2) by (cases t, cases "mach t") simp
  show ?case unfolding same using Nil by - (rule finishes_step; simp add: task_resumes_def)
next
  case (snoc x held)
  let ?t = "emit [ActionUp (fst x) (snd x)] (t\<lparr>mach := (mach t)\<lparr>held_actions := held\<rparr>\<rparr>)"
  have "finishes i ?t (idle_task (set_coro i None (emit (ups (rev held)) (?t\<lparr>mach := (mach ?t)\<lparr>held_actions := []\<rparr>\<rparr>))))"
    by (rule snoc.IH) (simp_all add: snoc.prems)
  then show ?case
    using snoc.prems by - (rule finishes_step; simp add: task_resumes_def Let_def)
qed


lemma settled_fields [simp]:
  "settled m (emit es t) = settled m t"
  by (simp add: settled_def cong: option.case_cong)

lemma settled_same:
  assumes "settled m t" "mach t' = mach t" "coros t' = coros t" "hold_ref t' = hold_ref t" "tap_ref t' = tap_ref t"
    "next_coro t \<le> next_coro t'"
  shows "settled m t'"
  using assms by (simp add: settled_def cong: option.case_cong)

lemma settled_idle:
  assumes "settled m t"
  shows "settled (snd (become_idle m)) (idle_task t)" "emitted (idle_task t) = emitted t @ fst (become_idle m)"
  using assms by (auto simp: settled_def idle_task_def become_idle_def Let_def split: option.splits)

lemma settled_tap:
  assumes m: "settled m t"
  shows "\<exists>t'. finishes (next_coro t) (spawn_tap slot actions idle t) t'
    \<and> settled (snd (if idle then become_idle m else ([], m))) t'
    \<and> emitted t' = emitted t @ RecordRepeat slot # execute_actions_tap actions @ fst (if idle then become_idle m else ([], m))"
proof -
  let ?ps = "started_actions 0 actions" and ?s = "spawn_tap slot actions idle t"
  let ?q = "set_coro (next_coro t) None (emit (downs ?ps @ ups (rev ?ps)) ?s)"
  have "finishes (next_coro t) ?s ((if idle then idle_task else id) ?q)"
    using tap_finishes [of ?s "next_coro t" "[]" ?ps idle] by (simp add: spawn_tap_def)
  moreover have "coros t (next_coro t) = None" using m by (simp add: settled_def)
  then have "settled m ?q" by (intro settled_same [OF m]) (simp_all add: spawn_tap_def fun_upd_idem)
  moreover have "emitted ?q = emitted t @ RecordRepeat slot # execute_actions_tap actions"
    by (simp add: spawn_tap_def execute_actions_tap_def Let_def downs_def ups_def)
  ultimately show ?thesis using settled_idle [of m ?q] by (cases idle) auto
qed

lemma settled_held_up:
  assumes m: "settled m t"
  shows "\<exists>t'. finishes (next_coro t) (spawn Up t) t' \<and> settled (snd (then_idle (execute_held_actions_up m))) t'
    \<and> emitted t' = emitted t @ fst (then_idle (execute_held_actions_up m))"
proof -
  let ?s = "spawn Up t" and ?m = "m\<lparr>held_actions := []\<rparr>"
  let ?q = "set_coro (next_coro t) None (emit (ups (rev (held_actions (mach t)))) (?s\<lparr>mach := (mach ?s)\<lparr>held_actions := []\<rparr>\<rparr>))"
  have "finishes (next_coro t) ?s (idle_task ?q)" by (rule up_finishes) simp_all
  moreover have "coros t (next_coro t) = None" using m by (simp add: settled_def)
  then have "coros ?q = coros t" by (simp add: fun_upd_idem)
  then have "settled ?m ?q" using m by (simp add: settled_def cong: option.case_cong)
  moreover have "emitted ?q = emitted t @ map (\<lambda>(i, a). ActionUp i a) (rev (held_actions m))"
    using m by (simp add: settled_def ups_def)
  ultimately show ?thesis
    using settled_idle [of ?m ?q] by (auto simp: then_idle_def execute_held_actions_up_def case_prod_beta)
qed


definition undisturbed :: "'p SuperkeyTasks \<Rightarrow> 'p SuperkeyTasks \<Rightarrow> 'p step_result \<Rightarrow> bool" where
  "undisturbed t t1 r \<longleftrightarrow> (\<exists>i t'. finishes i t1 t' \<and> settled (snd r) t' \<and> emitted t' = emitted t @ fst r)"

lemma undisturbed_now: "settled (snd r) t1 \<Longrightarrow> emitted t1 = emitted t @ fst r \<Longrightarrow> undisturbed t t1 r"
  unfolding undisturbed_def by (intro exI [of _ 0] exI [of _ t1]) simp

lemma undisturbed_idle: "settled m1 t1 \<Longrightarrow> emitted t1 = emitted t \<Longrightarrow> undisturbed t (idle_task t1) (become_idle m1)"
  using settled_idle [of m1 t1] by (intro undisturbed_now) simp_all

lemma undisturbed_tap:
  assumes "settled m1 t1" and "emitted t1 = emitted t"
  shows "undisturbed t (spawn_tap slot actions True t1) (then_idle (RecordRepeat slot # execute_actions_tap actions, m1))"
  using settled_tap [OF assms(1), of slot actions True] assms(2)
  by (auto simp: undisturbed_def then_idle_def case_prod_beta)

lemma undisturbed_up:
  assumes "settled m1 t1" and "emitted t1 = emitted t"
  shows "undisturbed t (spawn Up t1) (then_idle (execute_held_actions_up m1))"
  using settled_held_up [OF assms(1)] assms(2) by (auto simp: undisturbed_def)

lemma undisturbed_down:
  assumes m: "settled m t" and inv: "superkey_inv m"
  shows "undisturbed t (task_on_down now t) (on_down now m)"
proof (cases "sk_state m")
  case IDLE
  then show ?thesis
    using m inv by (intro undisturbed_now)
      (auto simp: settled_def on_down_def transition_to_down_wait_def task_on_down_def start_hold_timer_def hold_due_def
         superkey_inv_def pending_ok_def Let_def)
next
  case UP_WAIT
  then show ?thesis
    using m inv by (intro undisturbed_now)
      (auto simp: settled_def on_down_def on_second_down_def task_on_down_def start_hold_timer_def hold_due_def
         cancel_task_def superkey_inv_def pending_ok_def Let_def split: option.splits)
qed (use m in \<open>auto simp: settled_def on_down_def task_on_down_def intro!: undisturbed_now\<close>)

lemma settled_release:
  assumes m: "settled m t" and inv: "superkey_inv m" and s: "sk_state m = DOWN_WAIT \<or> sk_state m = DOWN_WAIT_2"
    and r: "release_qualifies_as_tap now m = (is_tap, m1)"
  shows "\<exists>t1. release_timer now t = (is_tap, t1) \<and> settled (m1\<lparr>hold_task := None\<rparr>) t1 \<and> emitted t1 = emitted t
    \<and> hold_task (m1\<lparr>hold_task := None\<rparr>) = None \<and> double_tap_task m1 = None"
  using assms
  by (auto simp: settled_def release_timer_def release_qualifies_as_tap_def cancel_task_def superkey_inv_def pending_ok_def
      Let_def split: option.splits)

lemma undisturbed_first_up:
  assumes m: "settled m t" and inv: "superkey_inv m" and s: "sk_state m = DOWN_WAIT"
  shows "undisturbed t (task_first_up now t) (on_first_up now m)"
proof -
  obtain is_tap m1 where r: "release_qualifies_as_tap now m = (is_tap, m1)" by fastforce
  let ?m = "m1\<lparr>hold_task := None\<rparr>"
  obtain t1 where t1: "release_timer now t = (is_tap, t1)" "settled ?m t1" "emitted t1 = emitted t" "double_tap_task m1 = None"
    using settled_release [OF m inv _ r] s by auto
  have c: "sk_config (mach t1) = sk_config m1" using t1(2) by (simp add: settled_def)
  let ?d = "now + of_int (double_tap_window_ms (sk_config m1)) / 1000"
  have wait: "undisturbed t
      (spawn (TapSleep ?d) (t1\<lparr>mach := (mach t1)\<lparr>sk_state := UP_WAIT\<rparr>, tap_ref := Some (next_coro t1)\<rparr>))
      ([], ?m\<lparr>sk_state := UP_WAIT, double_tap_task := Some ?d\<rparr>)"
    using t1 by (intro undisturbed_now) (simp_all add: settled_def)
  show ?thesis
    using undisturbed_idle [OF t1(2,3)] undisturbed_tap [OF t1(2,3)] wait
    by (simp add: task_first_up_def on_first_up_def r t1(1) c emit_tap_def Let_def)
qed

lemma undisturbed_second_up:
  assumes m: "settled m t" and inv: "superkey_inv m" and s: "sk_state m = DOWN_WAIT_2"
  shows "undisturbed t (task_second_up now t) (on_second_up now m)"
proof -
  obtain is_tap m1 where r: "release_qualifies_as_tap now m = (is_tap, m1)" by fastforce
  let ?m = "m1\<lparr>hold_task := None\<rparr>"
  obtain t1 where t1: "release_timer now t = (is_tap, t1)" "settled ?m t1" "emitted t1 = emitted t"
    using settled_release [OF m inv _ r] s by auto
  have c: "sk_config (mach t1) = sk_config m1" using t1(2) by (simp add: settled_def)
  have idle: "then_idle ([], ?m) = become_idle ?m" by (simp add: then_idle_def)
  show ?thesis
    using undisturbed_idle [OF t1(2,3)] undisturbed_tap [OF t1(2,3)]
    by (simp add: task_second_up_def on_second_up_def r t1(1) c idle emit_tap_def emit_double_tap_def Let_def)
qed

lemma undisturbed_on_up:
  assumes m: "settled m t" and inv: "superkey_inv m"
  shows "undisturbed t (task_on_up now t) (on_up now m)"
proof -
  have c: "sk_state (mach t) = sk_state m" "sk_config (mach t) = sk_config m" using m by (simp_all add: settled_def)
  have idle: "then_idle ([], m) = become_idle m" by (simp add: then_idle_def)
  show ?thesis
    using undisturbed_first_up [OF m inv] undisturbed_second_up [OF m inv] undisturbed_idle [OF m refl]
      undisturbed_up [OF m refl] undisturbed_now [of "([], m)" t t] m
    by (cases "sk_state m") (simp_all add: task_on_up_def on_up_def c emit_hold_up_def emit_tap_hold_up_def idle)
qed

lemma undisturbed_hold:
  assumes m: "settled m t" and i: "coros t i = Some (HoldSleep due)" and t1: "hold_task m = Some due"
  shows "undisturbed t (task_hold i st slot actions t)
    (if actions = [] then ([], m\<lparr>hold_task := None, press_started_at := None, sk_state := st\<rparr>)
     else (RecordRepeat slot # fst (execute_actions_down actions m),
       m\<lparr>hold_task := None, press_started_at := None, sk_state := st,
         held_actions := held_actions m @ started_actions 0 actions\<rparr>))"
proof (cases "actions = []")
  case True
  then show ?thesis
    using assms by (intro undisturbed_now) (auto simp: task_hold_def Let_def settled_def split: option.splits if_splits)
next
  case False
  let ?s = "task_hold i st slot actions t"
  let ?q = "set_coro i None (emit (downs (started_actions 0 actions))
    (?s\<lparr>mach := (mach ?s)\<lparr>held_actions := held_actions (mach ?s) @ started_actions 0 actions\<rparr>\<rparr>))"
  have "finishes i ?s ?q" by (rule down_finishes) (simp add: task_hold_def False Let_def)
  moreover have "settled (m\<lparr>hold_task := None, press_started_at := None, sk_state := st,
         held_actions := held_actions m @ started_actions 0 actions\<rparr>) ?q"
    using assms False by (auto simp: task_hold_def Let_def settled_def split: option.splits if_splits)
  moreover have "emitted ?q = emitted t @ RecordRepeat slot # fst (execute_actions_down actions m)"
    using False by (simp add: task_hold_def Let_def execute_actions_down_def downs_def)
  ultimately show ?thesis
    unfolding undisturbed_def using False by (intro exI [of _ i] exI [of _ ?q]) simp
qed


lemma undisturbed_hold_timer:
  assumes m: "settled m t" and i: "coros t i = Some (HoldSleep due)" and d: "hold_task m = Some due"
  shows "undisturbed t (task_fires i t) (hold_timeout m)"
proof -
  have c: "sk_state (mach t) = sk_state m" "sk_config (mach t) = sk_config m" "sk_running (mach t) = sk_running m"
    using m by (simp_all add: settled_def)
  have "settled (m\<lparr>hold_task := None\<rparr>) (set_coro i None t)"
    using assms by (auto simp: settled_def split: option.splits if_splits)
  then have off: "undisturbed t (set_coro i None t) ([], m\<lparr>hold_task := None\<rparr>)" by (intro undisturbed_now) simp_all
  show ?thesis
    using off undisturbed_hold [OF assms, of HOLDING SlotHold "hold_actions (sk_config m)"]
      undisturbed_hold [OF assms, of TAP_HOLDING SlotTapHold "tap_hold_actions (sk_config m)"]
    by (auto simp: task_fires_def i c hold_timeout_def start_holding_def start_tap_holding_def emit_hold_down_def
        emit_tap_hold_down_def execute_actions_down_def Let_def)
qed

lemma undisturbed_tap_timer:
  assumes m: "settled m t" and i: "coros t i = Some (TapSleep due)" and d: "double_tap_task m = Some due"
  shows "undisturbed t (task_fires i t) (double_tap_timeout m)"
proof -
  let ?m = "m\<lparr>double_tap_task := None\<rparr>" and ?ps = "started_actions 0 (tap_actions (sk_config m))"
  have c: "sk_state (mach t) = sk_state m" "sk_config (mach t) = sk_config m" "sk_running (mach t) = sk_running m"
    using m by (simp_all add: settled_def)
  have e: "settled ?m (set_coro i None t)"
    using assms by (auto simp: settled_def split: option.splits if_splits)
  then have off: "undisturbed t (set_coro i None t) ([], ?m)" by (intro undisturbed_now) simp_all
  have tap: "undisturbed t (set_coro i (Some (Tap [] ?ps True)) (emit [RecordRepeat SlotTap] t))
      (then_idle (RecordRepeat SlotTap # execute_actions_tap (tap_actions (sk_config m)), ?m))" (is "undisturbed t ?s ?r")
  proof -
    let ?q = "set_coro i None (emit (downs ?ps @ ups (rev ?ps)) ?s)"
    have "finishes i ?s (idle_task ?q)" using tap_finishes [of ?s i "[]" ?ps True] by simp
    moreover have "settled ?m ?q" using settled_same [OF e, of ?q] by simp
    then have "settled (snd (become_idle ?m)) (idle_task ?q)" "emitted (idle_task ?q) = emitted ?q @ fst (become_idle ?m)"
      by (rule settled_idle)+
    moreover have "emitted ?q = emitted t @ RecordRepeat SlotTap # execute_actions_tap (tap_actions (sk_config m))"
      by (simp add: execute_actions_tap_def Let_def downs_def ups_def)
    ultimately show ?thesis
      unfolding undisturbed_def by (intro exI [of _ i] exI [of _ "idle_task ?q"]) (simp add: then_idle_def case_prod_beta)
  qed
  have idle: "then_idle ([], ?m) = become_idle ?m" by (simp add: then_idle_def)
  show ?thesis
    using off tap undisturbed_idle [OF e, of t]
    by (auto simp: task_fires_def i c idle double_tap_timeout_def emit_tap_def Let_def)
qed

lemma cancel_timer:
  "coros t = Map.empty \<Longrightarrow> cancel_task r t = t"
  "coros t = [i \<mapsto> HoldSleep due] \<Longrightarrow> cancel_task r t = (if r = Some i then set_coro i None t else t)"
  "coros t = [i \<mapsto> TapSleep due] \<Longrightarrow> cancel_task r t = (if r = Some i then set_coro i None t else t)"
  by (auto simp: cancel_task_def split: option.split)

lemma undisturbed_stop:
  assumes m: "settled m t" shows "undisturbed t (task_stop t) (stop m)"
proof -
  let ?t = "(cancel_task (tap_ref t) (cancel_task (hold_ref t) t))\<lparr>hold_ref := None, tap_ref := None,
      mach := (mach t)\<lparr>sk_running := False, press_started_at := None\<rparr>\<rparr>"
  have "settled (m\<lparr>sk_running := False, press_started_at := None, hold_task := None, double_tap_task := None\<rparr>) ?t"
    using m by (auto simp: settled_def cancel_timer split: option.splits)
  moreover have "emitted ?t = emitted t" by simp
  ultimately show ?thesis unfolding task_stop_def stop_def by (rule undisturbed_up)
qed

lemma undisturbed_retire:
  assumes m: "settled m t" shows "undisturbed t (task_retire t) (retire_when_idle m)"
proof -
  let ?m = "m\<lparr>retire_pending := True\<rparr>" and ?t = "t\<lparr>mach := (mach t)\<lparr>retire_pending := True\<rparr>\<rparr>"
  have e: "settled ?m ?t" using m by (auto simp: settled_def split: option.splits)
  have "sk_state (mach t) = sk_state m" using m by (simp add: settled_def)
  then have "task_retire t = (if sk_state m = IDLE then idle_task ?t else ?t)"
    by (simp add: task_retire_def retire_when_idle_def idle_task_def Let_def case_prod_beta emit_def)
  then show ?thesis
    using undisturbed_idle [OF e, of t] undisturbed_now [of "([], ?m)" ?t t] e
    by (simp add: retire_when_idle_def Let_def)
qed

lemma undisturbed_repeat:
  assumes m: "settled m t" shows "undisturbed t (task_repeat slot t) (execute_repeat_slot slot m, m)"
proof -
  have c: "sk_config (mach t) = sk_config m" using m by (simp add: settled_def)
  show ?thesis
    using settled_tap [OF m, of slot "slot_actions slot (sk_config m)" False] undisturbed_now [of "([], m)" t t] m
    by (cases "slot_actions slot (sk_config m) = []")
       (auto simp: undisturbed_def task_repeat_def c execute_repeat_slot_def slot_actions_def Let_def)
qed


lemma settled_timer:
  assumes "settled m t" and "coros t i = Some c"
  shows "(\<exists>due. c = HoldSleep due \<and> hold_task m = Some due) \<or> (\<exists>due. c = TapSleep due \<and> double_tap_task m = Some due \<and> hold_task m = None)"
  using assms by (auto simp: settled_def split: option.splits if_splits)

lemma undisturbed_step:
  assumes m: "settled m t" and inv: "superkey_inv m" and g: "task_guard t e"
  shows "undisturbed t (task_step t e) (atomic_step m e)"
proof (cases e)
  case (Fires i now)
  then obtain c where "coros t i = Some c" using g by (auto split: option.splits)
  then show ?thesis
    using settled_timer [OF m] undisturbed_hold_timer [OF m] undisturbed_tap_timer [OF m] Fires by fastforce
next
  case (Resumes i)
  then obtain c where "coros t i = Some c" using g by auto
  then have "task_resumes i t = t" using settled_timer [OF m, of i c] by (auto simp: task_resumes_def)
  then show ?thesis using m undisturbed_now [of "([], m)" t t] Resumes by simp
qed (simp_all add: undisturbed_down [OF m inv] undisturbed_on_up [OF m inv] undisturbed_stop [OF m] undisturbed_retire [OF m]
  undisturbed_repeat [OF m])

lemma settled_new: "settled (new_superkey c) (new_tasks c)"
  by (simp add: settled_def new_tasks_def new_superkey_def)

lemma superkey_step_event:
  assumes "superkey_step now m es m'" and "settled m t"
  shows "\<exists>e. task_guard t e \<and> atomic_step m e = (es, m')"
  using assms
proof (induction rule: superkey_step.induct)
  case (Down now m es m')
  then show ?case by (intro exI [of _ "OnDown now"]) simp
next
  case (Up now m es m')
  then show ?case by (intro exI [of _ "OnUp now"]) simp
next
  case (Hold_Timeout m due now es m')
  then obtain i where "coros t i = Some (HoldSleep due)" by (auto simp: settled_def split: option.splits)
  with Hold_Timeout show ?case by (intro exI [of _ "Fires i now"]) simp
next
  case (Double_Tap_Timeout m due now es m')
  then obtain i where "coros t i = Some (TapSleep due)" "hold_task m = None" by (auto simp: settled_def split: option.splits)
  with Double_Tap_Timeout show ?case by (intro exI [of _ "Fires i now"]) simp
next
  case (Stop m es m' now)
  then show ?case by (intro exI [of _ Stopped]) simp
next
  case (Retire m es m' now)
  then show ?case by (intro exI [of _ Retires]) simp
next
  case (Repeat slot m es now)
  then show ?case by (intro exI [of _ "Repeats slot"]) simp
qed

lemma run_is_task_run:
  "superkey_run c es m \<Longrightarrow> \<exists>evs. guarded_run task_guard task_step (new_tasks c) evs
     \<and> settled m (run_steps task_step (new_tasks c) evs) \<and> emitted (run_steps task_step (new_tasks c) evs) = es"
proof (induction rule: superkey_run.induct)
  case Start
  show ?case by (rule exI [of _ "[]"]) (simp add: settled_new, simp add: new_tasks_def)
next
  case (Step es m now es' m')
  then obtain evs where evs: "guarded_run task_guard task_step (new_tasks c) evs"
      "settled m (run_steps task_step (new_tasks c) evs)" "emitted (run_steps task_step (new_tasks c) evs) = es" by blast
  let ?t = "run_steps task_step (new_tasks c) evs"
  obtain e where e: "task_guard ?t e" "atomic_step m e = (es', m')" using superkey_step_event [OF Step.hyps(2) evs(2)] by blast
  have "superkey_inv m" using superkey_run_ok [OF Step.hyps(1)] by blast
  from undisturbed_step [OF evs(2) this e(1)] obtain i n where
    n: "guarded_run task_guard task_step (task_step ?t e) (replicate n (Resumes i))"
      "settled m' (run_steps task_step (task_step ?t e) (replicate n (Resumes i)))"
      "emitted (run_steps task_step (task_step ?t e) (replicate n (Resumes i))) = es @ es'"
    by (auto simp: undisturbed_def finishes_def e(2) evs(3))
  show ?case
    using evs e n by (intro exI [of _ "evs @ e # replicate n (Resumes i)"]) simp
qed



text \<open>The releases of a tap that its cancellation cuts short.\<close>

definition cut_short :: "'p SuperkeyTasks \<Rightarrow> (nat \<times> 'p SuperkeyActionData) list" where
  "cut_short t = (case tap_ref t of Some i \<Rightarrow> (case coros t i of Some (TapOff pressed idle) \<Rightarrow> pressed | _ \<Rightarrow> []) | None \<Rightarrow> [])"

fun cuts_short :: "'p SuperkeyTasks \<Rightarrow> task_event \<Rightarrow> (nat \<times> 'p SuperkeyActionData) list" where
  "cuts_short t (OnDown now) = (if sk_state (mach t) = UP_WAIT then cut_short t else [])"
| "cuts_short t Stopped = cut_short t"
| "cuts_short t e = []"

text \<open>The reference \<open>_hold_task\<close> is never one of a coroutine that taps.\<close>

definition holds :: "'p coroutine option \<Rightarrow> bool" where
  "holds c = (case c of None \<Rightarrow> True | Some (HoldSleep due) \<Rightarrow> True | Some (Down rest) \<Rightarrow> True | _ \<Rightarrow> False)"

definition hold_ref_ok :: "'p SuperkeyTasks \<Rightarrow> bool" where
  "hold_ref_ok t \<longleftrightarrow> (\<forall>i. hold_ref t = Some i \<longrightarrow> i < next_coro t \<and> holds (coros t i))"

lemma holds_simps [simp]:
  "holds None" "holds (Some (HoldSleep due))" "holds (Some (Down rest))" "\<not> holds (Some (TapSleep due))"
  "\<not> holds (Some Up)" "\<not> holds (Some (Tap pressed rest idle))" "\<not> holds (Some (TapOff pressed idle))"
  by (simp_all add: holds_def)

lemma hold_ref_ok_fields [simp]:
  "hold_ref_ok (t\<lparr>mach := m\<rparr>) = hold_ref_ok t" "hold_ref_ok (t\<lparr>tap_ref := r\<rparr>) = hold_ref_ok t"
  "hold_ref_ok (t\<lparr>lost := l\<rparr>) = hold_ref_ok t" "hold_ref_ok (emit es t) = hold_ref_ok t"
  "hold_ref_ok (t\<lparr>hold_ref := None\<rparr>)" "hold_ref_ok (idle_task t) = hold_ref_ok t"
  by (simp_all add: hold_ref_ok_def idle_task_def case_prod_beta emit_def)

lemma hold_ref_ok_spawn: "hold_ref_ok t \<Longrightarrow> hold_ref_ok (spawn c t)"
  by (auto simp: hold_ref_ok_def)

lemma hold_ref_ok_set: "hold_ref_ok t \<Longrightarrow> (holds (coros t i) \<longrightarrow> holds c) \<Longrightarrow> hold_ref_ok (set_coro i c t)"
  by (auto simp: hold_ref_ok_def)

lemma hold_ref_ok_cancel: "hold_ref_ok t \<Longrightarrow> hold_ref_ok (cancel_task r t)"
  by (auto simp: cancel_task_def intro!: hold_ref_ok_set split: option.split coroutine.split)

lemma hold_ref_ok_tap: "hold_ref_ok t \<Longrightarrow> hold_ref_ok (spawn_tap slot actions idle t)"
  by (simp add: spawn_tap_def hold_ref_ok_spawn)

lemma hold_ref_ok_timer: "hold_ref_ok (start_hold_timer now t)"
  by (simp add: start_hold_timer_def hold_ref_ok_def)

lemma hold_ref_ok_step:
  assumes ok: "hold_ref_ok t" shows "hold_ref_ok (task_step t e)"
proof (cases e)
  case (OnDown now)
  then show ?thesis
    using ok by (auto simp: task_on_down_def Let_def hold_ref_ok_timer hold_ref_ok_cancel split: SuperkeyState.split)
next
  case (OnUp now)
  then show ?thesis
    using ok by (auto simp: task_on_up_def task_first_up_def task_second_up_def release_timer_def Let_def case_prod_beta
      intro!: hold_ref_ok_spawn hold_ref_ok_tap split: SuperkeyState.split)
next
  case (Fires i now)
  then show ?thesis
    using ok by (auto simp: task_fires_def task_hold_def Let_def intro!: hold_ref_ok_set split: option.split coroutine.split)
next
  case (Resumes i)
  then show ?thesis
    using ok by (auto simp: task_resumes_def Let_def intro!: hold_ref_ok_set split: option.split coroutine.split list.split)
next
  case Stopped
  then show ?thesis by (auto simp: task_stop_def intro!: hold_ref_ok_spawn)
next
  case Retires
  then show ?thesis using ok by (simp add: task_retire_def case_prod_beta)
next
  case (Repeats slot)
  then show ?thesis using ok by (simp add: task_repeat_def hold_ref_ok_tap)
qed

interpretation refs: inv_machine "new_tasks c" task_guard task_step hold_ref_ok for c
  by unfold_locales (simp_all add: hold_ref_ok_step, simp add: hold_ref_ok_def new_tasks_def)

lemma lost_idle [simp]: "lost (idle_task t) = lost t" "lost (spawn_tap slot actions idle t) = lost t"
  "lost (start_hold_timer now t) = lost t"
  by (simp_all add: idle_task_def spawn_tap_def start_hold_timer_def case_prod_beta)

lemma lost_cancel:
  "lost (cancel_task r t) = lost t @ (case r of Some i \<Rightarrow> (case coros t i of Some (TapOff pressed idle) \<Rightarrow> pressed | _ \<Rightarrow> []) | None \<Rightarrow> [])"
  by (simp add: cancel_task_def split: option.split coroutine.split)

lemma lost_cancel_hold: "hold_ref_ok t \<Longrightarrow> lost (cancel_task (hold_ref t) t) = lost t"
  by (auto simp: lost_cancel hold_ref_ok_def split: option.split coroutine.split)

lemma lost_step: "hold_ref_ok t \<Longrightarrow> lost (task_step t e) = lost t @ cuts_short t e"
proof (cases e)
  case (OnDown now)
  then show ?thesis
    by (cases "sk_state (mach t)") (simp_all add: task_on_down_def Let_def lost_cancel cut_short_def)
next
  case (OnUp now)
  assume ok: "hold_ref_ok t"
  then have "lost (snd (release_timer now t)) = lost t"
    using lost_cancel_hold [of "t\<lparr>mach := m\<rparr>" for m] by (simp add: release_timer_def case_prod_beta)
  with OnUp show ?thesis
    by (cases "sk_state (mach t)") (simp_all add: task_on_up_def task_first_up_def task_second_up_def Let_def case_prod_beta)
next
  case (Fires i now)
  then show ?thesis by (simp add: task_fires_def task_hold_def Let_def split: option.split coroutine.split)
next
  case (Resumes i)
  then show ?thesis by (simp add: task_resumes_def Let_def split: option.split coroutine.split list.split)
next
  case Stopped
  assume ok: "hold_ref_ok t"
  have "cut_short (cancel_task (hold_ref t) t) = cut_short t"
  proof (cases "hold_ref t")
    case (Some j)
    then have "holds (coros t j)" using ok by (simp add: hold_ref_ok_def)
    then show ?thesis
      by (auto simp: Some cut_short_def cancel_task_def holds_def split: option.split coroutine.splits option.splits)
  qed (simp add: cancel_task_def)
  moreover have "tap_ref (cancel_task r t) = tap_ref t" for r
    by (simp add: cancel_task_def split: option.split coroutine.split)
  ultimately show ?thesis
    using Stopped lost_cancel_hold [OF ok] by (simp add: task_stop_def lost_cancel [of "tap_ref t"] cut_short_def)
qed (simp_all add: task_retire_def task_repeat_def case_prod_beta)

text \<open>C4. Whatever is under way when a key, a timer, a repetition or \<open>stop\<close> comes, every release of a superkey ends a
  press of the same action that is open, and the presses still open are those of the held actions, those a tap under
  way has still to release, and those a tap did not come to release.  The last grow only when a second press or \<open>stop\<close>
  cancels a tap that is releasing, by the presses it has still to release.\<close>

theorem superkey_presses_accounted:
  assumes "guarded_run task_guard task_step (new_tasks c) evs"
    and "t = run_steps task_step (new_tasks c) evs"
  shows "open_presses {#} (emitted t)
      = Some (mset (held_actions (mach t)) + (\<Sum>i<next_coro t. pressed_by (coros t i)) + mset (lost t))
    \<and> (\<forall>e. lost (task_step t e) = lost t @ cuts_short t e)"
  using tasks.inv_run [OF assms(1)] lost_step [OF refs.inv_run [OF assms(1)]] assms(2)
  by (simp add: tasks_inv_def accounted_def)


definition held_run :: "task_event list" where
  "held_run = [OnDown 0, Fires 0 1, Resumes 0, Resumes 0, OnUp 2, Resumes 1]"

theorem superkey_presses_accounted_witness:
  "open_presses {#} (emitted (run_steps task_step (new_tasks hold_config) held_run)) = Some {#(0, key_action ''keyboard'')#}"
proof -
  let ?t = "run_steps task_step (new_tasks hold_config) held_run"
  have g: "guarded_run task_guard task_step (new_tasks hold_config) held_run" by code_simp
  have "held_actions (mach ?t) = [(0, key_action ''keyboard'')]" "lost ?t = []" by code_simp+
  moreover have "next_coro ?t = 2" "pressed_by (coros ?t 0) = {#}" "pressed_by (coros ?t 1) = {#}" by code_simp+
  moreover have "(\<Sum>i<2. f i) = f 0 + f 1" for f :: "nat \<Rightarrow> (nat \<times> unit SuperkeyActionData) multiset"
    by (simp add: numeral_2_eq_2 sum.lessThan_Suc)
  ultimately show ?thesis using superkey_presses_accounted [OF g refl] by simp
qed

section \<open>A release before the actions are pressed\<close>

lemma open_presses_downs: "open_presses M (downs ps) = Some (M + mset ps)"
  by (induction ps arbitrary: M) simp_all

lemma overtaken:
  assumes "started_actions 0 (hold_actions c) = x # y # rest"
  shows "run_steps task_step (new_tasks c) [OnDown t0, Fires 0 t1, Resumes 0, OnUp t2, Resumes 1, Resumes 1]
    = \<lparr>mach = (new_superkey c), coros = [0 \<mapsto> Down (y # rest)], next_coro = 2, hold_ref = Some 0, tap_ref = None,
       emitted = [RecordRepeat SlotHold, ActionDown (fst x) (snd x), ActionUp (fst x) (snd x)], lost = []\<rparr>"
proof -
  have "hold_actions c \<noteq> []" using assms by auto
  then show ?thesis
    by (simp add: new_tasks_def new_superkey_def task_on_down_def start_hold_timer_def spawn_def set_coro_def emit_def
        task_fires_def task_hold_def assms task_resumes_def task_on_up_def idle_task_def become_idle_def Let_def fun_upd_twist)
qed



end
