(* ===== verification/Json.thy ===== *)
theory Json
  imports Prelude
begin

text \<open>
  Values of decoded JSON and the coercions of \<open>keymasq/common/coercion.py\<close>.  A finite float is the
  rational it denotes.  Text is read and written with Python's rules for \<open>int\<close> and \<open>str\<close>; the
  \<open>str\<close> of a float, a list or an object is the parameter \<open>repr\<close>.  Coercion to float is not modelled.
\<close>

section \<open>Values\<close>

datatype json =
    JNull
  | JBool bool
  | JInt int
  | JFloat rat
  | JNan
  | JInfinity bool
  | JString string
  | JList "json list"
  | JObject "(string \<times> json) list"

fun json_truthy :: "json \<Rightarrow> bool" where
  "json_truthy JNull = False"
| "json_truthy (JBool b) = b"
| "json_truthy (JInt i) = (i \<noteq> 0)"
| "json_truthy (JFloat r) = (r \<noteq> 0)"
| "json_truthy JNan = True"
| "json_truthy (JInfinity neg) = True"
| "json_truthy (JString s) = (s \<noteq> [])"
| "json_truthy (JList xs) = (xs \<noteq> [])"
| "json_truthy (JObject kvs) = (kvs \<noteq> [])"

text \<open>\<open>d.get(key)\<close>: \<open>None\<close> in Python, \<open>JNull\<close> here, for a missing key.\<close>

definition json_get :: "(string \<times> json) list \<Rightarrow> string \<Rightarrow> json" where
  "json_get d key = (case map_of d key of None \<Rightarrow> JNull | Some v \<Rightarrow> v)"

definition json_get_default :: "(string \<times> json) list \<Rightarrow> string \<Rightarrow> json \<Rightarrow> json" where
  "json_get_default d key v = (case map_of d key of None \<Rightarrow> v | Some w \<Rightarrow> w)"

section \<open>Integers as text\<close>

fun nat_text :: "nat \<Rightarrow> string" where
  "nat_text n = (if n < 10 then [char_of (48 + n)] else nat_text (n div 10) @ [char_of (48 + n mod 10)])"

declare nat_text.simps [simp del]

definition int_text :: "int \<Rightarrow> string" where
  "int_text i = (if i < 0 then CHR ''-'' # nat_text (nat (- i)) else nat_text (nat i))"

definition is_digit :: "char \<Rightarrow> bool" where
  "is_digit c = (48 \<le> (of_char c :: nat) \<and> (of_char c :: nat) \<le> 57)"

definition digit_value :: "char \<Rightarrow> nat" where
  "digit_value c = of_char c - 48"

text \<open>The digits of \<open>int(text)\<close>, underscores allowed between two digits.\<close>

fun digits_value :: "nat \<Rightarrow> bool \<Rightarrow> string \<Rightarrow> nat option" where
  "digits_value acc after_digit [] = (if after_digit then Some acc else None)"
| "digits_value acc after_digit (c # cs) =
    (if is_digit c then digits_value (10 * acc + digit_value c) True cs
     else if c = CHR ''_'' \<and> after_digit then digits_value acc False cs
     else None)"

definition int_of_text :: "string \<Rightarrow> int option" where
  "int_of_text s =
    (case py_strip s of
       [] \<Rightarrow> None
     | c # cs \<Rightarrow>
         if c = CHR ''-'' then map_option (\<lambda>n. - int n) (digits_value 0 False cs)
         else if c = CHR ''+'' then map_option int (digits_value 0 False cs)
         else map_option int (digits_value 0 False (c # cs)))"

section \<open>Coercions\<close>

fun json_object :: "json \<Rightarrow> (string \<times> json) list option" where
  "json_object (JObject d) = Some d"
| "json_object v = None"

fun json_object_or_empty :: "json \<Rightarrow> (string \<times> json) list" where
  "json_object_or_empty (JObject d) = d"
| "json_object_or_empty v = []"

text \<open>\<open>None\<close> is the \<open>ValueError\<close>.\<close>

fun require_json_object :: "json \<Rightarrow> (string \<times> json) list option" where
  "require_json_object (JObject d) = Some d"
| "require_json_object v = None"

fun json_list :: "json \<Rightarrow> json list" where
  "json_list (JList xs) = xs"
| "json_list v = []"

fun py_str :: "(json \<Rightarrow> string) \<Rightarrow> json \<Rightarrow> string" where
  "py_str repr JNull = ''None''"
| "py_str repr (JBool b) = (if b then ''True'' else ''False'')"
| "py_str repr (JInt i) = int_text i"
| "py_str repr JNan = ''nan''"
| "py_str repr (JInfinity neg) = (if neg then ''-inf'' else ''inf'')"
| "py_str repr (JString s) = s"
| "py_str repr v = repr v"

definition coerce_str :: "(json \<Rightarrow> string) \<Rightarrow> json \<Rightarrow> string option \<Rightarrow> string option" where
  "coerce_str repr v dflt = (if v = JNull then dflt else Some (py_str repr v))"

text \<open>\<open>int(value)\<close>: \<open>None\<close> where it raises one of the conversion errors.\<close>

fun py_int :: "json \<Rightarrow> int option" where
  "py_int (JBool b) = Some (if b then 1 else 0)"
| "py_int (JInt i) = Some i"
| "py_int (JFloat r) = Some (if 0 \<le> r then \<lfloor>r\<rfloor> else \<lceil>r\<rceil>)"
| "py_int (JString s) = int_of_text s"
| "py_int v = None"

fun is_empty_number_text :: "json \<Rightarrow> bool" where
  "is_empty_number_text (JString s) = (s = [])"
| "is_empty_number_text v = False"

fun is_json_bool :: "json \<Rightarrow> bool" where
  "is_json_bool (JBool b) = True"
| "is_json_bool v = False"

definition coerce_int :: "json \<Rightarrow> int option \<Rightarrow> int option" where
  "coerce_int v dflt =
    (if v = JNull \<or> is_empty_number_text v \<or> is_json_bool v then dflt
     else case py_int v of None \<Rightarrow> dflt | Some i \<Rightarrow> Some i)"

definition TRUE_BOOL_TEXT :: "string set" where
  "TRUE_BOOL_TEXT = {''1'', ''true'', ''yes'', ''on''}"

definition FALSE_BOOL_TEXT :: "string set" where
  "FALSE_BOOL_TEXT = {''0'', ''false'', ''no'', ''off''}"

definition bool_of_text :: "string \<Rightarrow> bool option" where
  "bool_of_text s =
    (let normalized = py_lower (py_strip s)
     in if normalized \<in> TRUE_BOOL_TEXT then Some True
        else if normalized \<in> FALSE_BOOL_TEXT then Some False else None)"

text \<open>\<open>None\<close> is the \<open>ValueError\<close> of the strict variant.\<close>

definition coerce_bool :: "json \<Rightarrow> bool \<Rightarrow> bool \<Rightarrow> bool option" where
  "coerce_bool v dflt strict =
    (case v of
       JNull \<Rightarrow> Some dflt
     | JString s \<Rightarrow>
         if py_lower (py_strip s) = [] then Some dflt
         else (case bool_of_text s of
                 Some b \<Rightarrow> Some b
               | None \<Rightarrow> if strict then None else Some dflt)
     | JList xs \<Rightarrow> if strict then None else Some (json_truthy v)
     | JObject d \<Rightarrow> if strict then None else Some (json_truthy v)
     | _ \<Rightarrow> Some (json_truthy v))"

definition bool_value :: "json \<Rightarrow> bool" where
  "bool_value v =
    (case v of
       JString s \<Rightarrow> py_lower (py_strip s) \<in> TRUE_BOOL_TEXT
     | _ \<Rightarrow> json_truthy v)"

section \<open>Text and numbers\<close>

lemma digit_char:
  assumes "n < 10"
  shows "is_digit (char_of (48 + n))" "digit_value (char_of (48 + n)) = n"
  using assms by (simp_all add: is_digit_def digit_value_def)

lemma digits_value_app:
  "digits_value acc True (ds @ [d]) =
    (if is_digit d then map_option (\<lambda>n. 10 * n + digit_value d) (digits_value acc True ds)
     else None)" if "list_all is_digit ds"
  using that by (induction ds arbitrary: acc) auto

lemma nat_text_digits: "list_all is_digit (nat_text n) \<and> nat_text n \<noteq> []"
proof (induction n rule: nat_text.induct)
  case (1 n)
  then show ?case
    by (subst (1 2) nat_text.simps) (auto simp: digit_char)
qed

lemma digits_value_nat_text: "digits_value 0 True (nat_text n) = Some n"
proof (induction n rule: nat_text.induct)
  case (1 n)
  show ?case
  proof (cases "n < 10")
    case True
    then show ?thesis by (subst nat_text.simps) (simp add: digit_char)
  next
    case False
    then show ?thesis
      using 1 nat_text_digits [of "n div 10"]
      by (subst nat_text.simps) (simp add: digits_value_app digit_char)
  qed
qed

lemma digits_value_False: "is_digit (hd ds) \<Longrightarrow> ds \<noteq> [] \<Longrightarrow> digits_value 0 False ds = digits_value 0 True ds"
  by (cases ds) auto

lemma digit_not_space: "is_digit c \<Longrightarrow> \<not> py_is_space c \<and> c \<noteq> CHR ''-'' \<and> c \<noteq> CHR ''+''"
  by (auto simp: is_digit_def py_is_space_def Let_def)

lemma py_strip_id:
  assumes "s \<noteq> []" and "\<not> py_is_space (hd s)" and "\<not> py_is_space (last s)"
  shows "py_strip s = s"
  using assms by (simp add: py_strip_def dropWhile_hd_id hd_rev)

lemma list_all_hd_last: "list_all P xs \<Longrightarrow> xs \<noteq> [] \<Longrightarrow> P (hd xs) \<and> P (last xs)"
  by (auto simp: list_all_iff)

lemma int_of_text_int_text: "int_of_text (int_text i) = Some i"
proof -
  have d: "is_digit (hd (nat_text n)) \<and> is_digit (last (nat_text n)) \<and> nat_text n \<noteq> []" for n
    using list_all_hd_last nat_text_digits by blast
  have v: "digits_value 0 False (nat_text n) = Some n" for n
    using d [of n] by (simp add: digits_value_False digits_value_nat_text)
  have strip: "py_strip (nat_text n) = nat_text n" for n
    using d [of n] digit_not_space by (intro py_strip_id) auto
  have minus: "py_strip (CHR ''-'' # nat_text n) = CHR ''-'' # nat_text n" for n
    using d [of n] digit_not_space by (intro py_strip_id) (auto simp: py_is_space_def)
  show ?thesis
  proof (cases "i < 0")
    case True
    then show ?thesis by (simp add: int_of_text_def int_text_def minus v)
  next
    case False
    obtain c cs where c: "nat_text (nat i) = c # cs" using d [of "nat i"] by (cases "nat_text (nat i)") auto
    then have "c \<noteq> CHR ''-'' \<and> c \<noteq> CHR ''+''" using d [of "nat i"] digit_not_space by auto
    with False c v [of "nat i"] strip [of "nat i"] show ?thesis
      by (simp add: int_of_text_def int_text_def)
  qed
qed

text \<open>An integer survives JSON in either form: its decimal text and the number itself are both
  coerced back to it, whatever the default.\<close>

theorem coerce_int_roundtrip:
  "coerce_int (JString (int_text i)) dflt = Some i \<and> coerce_int (JInt i) dflt = Some i
   \<and> coerce_str repr (JInt i) None = Some (int_text i)"
proof -
  have "int_text i \<noteq> []" using nat_text_digits [of "nat i"] by (simp add: int_text_def)
  then show ?thesis by (simp add: coerce_int_def int_of_text_int_text coerce_str_def)
qed

end
