(* ===== verification/Combo_Manager.thy ===== *)
theory Combo_Manager
  imports Combo_Firing Json
begin

text \<open>
  The configuration of combos (\<open>keymasq/keymasqd/runtime/manager_combos.py\<close>): parsing the
  session's payload, the signatures that decide which candidates survive a new configuration, the
  emergency combos of the grabbed keyboards, and the hand-over to the engine.

  Parameters: \<open>repr\<close>, Python's \<open>str\<close> of values that are not plain text or integers;
  \<open>parse_action\<close>, the action parser; \<open>emergency_action\<close>, the superkey action of the emergency combo;
  and the held bindings that the grabbed devices report.  Clearing the outputs of combo actions that
  are not preserved is not modelled here.
\<close>

section \<open>Parsing\<close>

definition lower_text :: "(json \<Rightarrow> string) \<Rightarrow> json \<Rightarrow> string" where
  "lower_text repr v = (case coerce_str repr v (Some []) of None \<Rightarrow> [] | Some s \<Rightarrow> py_lower s)"

definition plain_text :: "(json \<Rightarrow> string) \<Rightarrow> json \<Rightarrow> string" where
  "plain_text repr v = (case coerce_str repr v (Some []) of None \<Rightarrow> [] | Some s \<Rightarrow> s)"

definition parse_event :: "(json \<Rightarrow> string) \<Rightarrow> bool \<Rightarrow> json \<Rightarrow> RuntimeComboBinding option" where
  "parse_event repr across event_data = do {
     event_dict \<leftarrow> json_object event_data;
     let hw = lower_text repr (json_get event_dict ''hardware_id'');
     let evdev_name = lower_text repr (json_get event_dict ''evdev'');
     let src = lower_text repr (json_get event_dict ''source'');
     if evdev_name = [] then None
     else Some (if across then RuntimeComboBinding [] evdev_name []
                else RuntimeComboBinding hw evdev_name src) }"

definition parse_step :: "(json \<Rightarrow> string) \<Rightarrow> bool \<Rightarrow> json \<Rightarrow> RuntimeComboStep option" where
  "parse_step repr across step_data = do {
     step_dict \<leftarrow> json_object step_data;
     let parsed = List.map_filter (parse_event repr across) (json_list (json_get step_dict ''events''));
     let timeout_raw = json_get step_dict ''timeout_ms'';
     if parsed = [] then None
     else Some (RuntimeComboStep parsed
                  (if timeout_raw = JNull then None else coerce_int timeout_raw (Some 0))) }"

fun action_payload :: "json \<Rightarrow> bool" where
  "action_payload (JString s) = True"
| "action_payload (JObject d) = True"
| "action_payload v = False"

definition restore_key_text :: "(json \<Rightarrow> string) \<Rightarrow> json \<Rightarrow> string" where
  "restore_key_text repr v = (if json_truthy v then py_str repr v else [])"

definition parse_runtime_combo ::
    "(json \<Rightarrow> string) \<Rightarrow> (json \<Rightarrow> 'a option) \<Rightarrow> json \<Rightarrow> 'a RuntimeCombo option" where
  "parse_runtime_combo repr parse_action combo_data = do {
     combo_dict \<leftarrow> json_object combo_data;
     let action_data = json_get combo_dict ''action'';
     if \<not> action_payload action_data then None
     else do {
       let across = json_truthy (json_get_default combo_dict ''match_across_devices'' (JBool False));
       let sts = List.map_filter (parse_step repr across) (json_list (json_get combo_dict ''steps''));
       if sts = [] then None
       else Some
         \<lparr> combo_id = plain_text repr (json_get combo_dict ''id''),
           combo_name = plain_text repr (json_get combo_dict ''name''),
           steps = sts,
           combo_action = parse_action action_data,
           combo_profile_name = plain_text repr (json_get combo_dict ''profile_name''),
           recall_trigger_keys = json_truthy (json_get_default combo_dict ''recall_trigger_keys'' (JBool False)),
           restore_trigger_keys = normalize_combo_restore_keys
             (map (restore_key_text repr) (json_list (json_get combo_dict ''restore_trigger_keys''))),
           match_across_devices = across,
           release_outputs_on_cancel = False \<rparr> } }"

definition parse_runtime_combos ::
    "(json \<Rightarrow> string) \<Rightarrow> (json \<Rightarrow> 'a option) \<Rightarrow> json list \<Rightarrow> 'a RuntimeCombo list" where
  "parse_runtime_combos repr parse_action payloads =
    List.map_filter (parse_runtime_combo repr parse_action) payloads"

section \<open>Signatures\<close>

type_synonym step_signature = "(string \<times> string \<times> string) list \<times> int option"

definition step_signature :: "RuntimeComboStep \<Rightarrow> step_signature" where
  "step_signature st =
    (sort (map (\<lambda>b. (py_lower (hardware_id b), py_lower (source b), py_lower (evdev b))) (bindings st)),
     timeout_ms st)"

type_synonym 'a combo_signature =
  "string \<times> string \<times> step_signature list \<times> 'a option \<times> bool \<times> string list \<times> bool \<times> bool"

definition combo_runtime_signature :: "'a RuntimeCombo \<Rightarrow> 'a combo_signature" where
  "combo_runtime_signature combo =
    (combo_id combo, combo_profile_name combo, map step_signature (steps combo), combo_action combo,
     recall_trigger_keys combo, restore_trigger_keys combo, match_across_devices combo,
     release_outputs_on_cancel combo)"

text \<open>A dict comprehension: a later combo with the same id replaces an earlier one.\<close>

definition combo_runtime_signatures :: "'a RuntimeCombo list \<Rightarrow> (string \<rightharpoonup> 'a combo_signature)" where
  "combo_runtime_signatures combos =
    map_of (rev (map (\<lambda>c. (combo_id c, combo_runtime_signature c)) (filter (\<lambda>c. combo_id c \<noteq> []) combos)))"

fun unchanged_combo_ids_loop ::
    "(string \<rightharpoonup> 'a combo_signature) \<Rightarrow> 'a RuntimeCombo list \<Rightarrow> string set \<Rightarrow> string set \<Rightarrow> string set" where
  "unchanged_combo_ids_loop old [] seen preserved = preserved"
| "unchanged_combo_ids_loop old (combo # rest) seen preserved =
    (if combo_id combo = [] \<or> combo_id combo \<in> seen
     then unchanged_combo_ids_loop old rest seen preserved
     else unchanged_combo_ids_loop old rest (insert (combo_id combo) seen)
            (if old (combo_id combo) = Some (combo_runtime_signature combo)
             then insert (combo_id combo) preserved else preserved))"

definition unchanged_combo_ids ::
    "(string \<rightharpoonup> 'a combo_signature) \<Rightarrow> 'a RuntimeCombo list \<Rightarrow> string set" where
  "unchanged_combo_ids old combos = unchanged_combo_ids_loop old combos {} {}"

section \<open>Emergency combos\<close>

record GrabbedDevice =
  device_type_value :: string
  device_type_items :: "string list"

definition grabbed_device_is_keyboard :: "GrabbedDevice \<Rightarrow> bool" where
  "grabbed_device_is_keyboard d =
    (py_lower (device_type_value d) = ''keyboard''
     \<or> list_ex (\<lambda>item. py_lower item = ''keyboard'') (device_type_items d))"

definition grabbed_keyboard_hardware_ids :: "(string \<times> GrabbedDevice list) list \<Rightarrow> string list" where
  "grabbed_keyboard_hardware_ids grabbed =
    sort (remdups (map (\<lambda>p. py_lower (fst p))
      (filter (\<lambda>p. py_lower (fst p) \<noteq> [] \<and> list_ex grabbed_device_is_keyboard (snd p)) grabbed)))"

definition EMERGENCY_CANCEL_COMBO_ID_PREFIX :: string where
  "EMERGENCY_CANCEL_COMBO_ID_PREFIX = ''__keymasq_emergency_cancel:''"

definition EMERGENCY_CANCEL_COMBO_EVDEVS :: "string list" where
  "EMERGENCY_CANCEL_COMBO_EVDEVS = [''ctrl'', ''alt'', ''key_esc'']"

definition emergency_cancel_combo :: "'a option \<Rightarrow> string \<Rightarrow> 'a RuntimeCombo" where
  "emergency_cancel_combo emergency_action hw =
    \<lparr> combo_id = EMERGENCY_CANCEL_COMBO_ID_PREFIX @ hw,
      combo_name = ''Keymasq Emergency Cancel'',
      steps = [RuntimeComboStep (map (\<lambda>k. RuntimeComboBinding hw k []) EMERGENCY_CANCEL_COMBO_EVDEVS) None],
      combo_action = emergency_action,
      combo_profile_name = ''__keymasq_internal'',
      recall_trigger_keys = True, restore_trigger_keys = [],
      match_across_devices = False, release_outputs_on_cancel = True \<rparr>"

definition is_emergency_cancel_duplicate :: "'a RuntimeCombo \<Rightarrow> string set \<Rightarrow> bool" where
  "is_emergency_cancel_duplicate combo keyboard_hardware_ids =
    (case steps combo of
       [st] \<Rightarrow>
         bindings st \<noteq> [] \<and> is_emergency_cancel_combo_evdevs (map evdev (bindings st))
         \<and> list_all (\<lambda>b. hardware_id b = [] \<or> hardware_id b \<in> keyboard_hardware_ids) (bindings st)
     | _ \<Rightarrow> False)"

definition with_emergency_cancel_combos ::
    "bool \<Rightarrow> 'a option \<Rightarrow> (string \<times> GrabbedDevice list) list \<Rightarrow> 'a RuntimeCombo list \<Rightarrow>
     'a RuntimeCombo list" where
  "with_emergency_cancel_combos enabled emergency_action grabbed combos =
    (let hardware_ids = grabbed_keyboard_hardware_ids grabbed
     in if \<not> enabled \<or> hardware_ids = [] then combos
        else map (emergency_cancel_combo emergency_action) hardware_ids
             @ filter (\<lambda>c. \<not> is_emergency_cancel_duplicate c (set hardware_ids)) combos)"

section \<open>The manager\<close>

record 'a ComboManager =
  emergency_cancel_combo_enabled :: bool
  configured_combos :: "'a RuntimeCombo list"
  active_combos :: "'a RuntimeCombo list"
  progression_engine :: "'a ComboEngine"

definition initial_manager :: "bool \<Rightarrow> 'a ComboManager" where
  "initial_manager enabled =
    \<lparr> emergency_cancel_combo_enabled = enabled, configured_combos = [], active_combos = [],
      progression_engine = engine_init \<rparr>"

definition refresh_combo_runtime ::
    "'a option \<Rightarrow> (string \<times> GrabbedDevice list) list \<Rightarrow> RuntimeComboBinding set \<Rightarrow> string set option \<Rightarrow>
     'a ComboManager \<Rightarrow> 'a ComboManager" where
  "refresh_combo_runtime emergency_action grabbed held preserve_combo_ids m =
    (let active = with_emergency_cancel_combos (emergency_cancel_combo_enabled m) emergency_action grabbed
                    (configured_combos m)
     in m\<lparr> active_combos := active,
           progression_engine :=
             prime_held_bindings held (set_combos active preserve_combo_ids (progression_engine m)) \<rparr>)"

definition preserve_or_reset :: "string set \<Rightarrow> string set option" where
  "preserve_or_reset unchanged_ids = (if unchanged_ids = {} then None else Some unchanged_ids)"

definition manager_set_combos ::
    "(json \<Rightarrow> string) \<Rightarrow> (json \<Rightarrow> 'a option) \<Rightarrow> 'a option \<Rightarrow> (string \<times> GrabbedDevice list) list \<Rightarrow>
     RuntimeComboBinding set \<Rightarrow> json list \<Rightarrow> 'a ComboManager \<Rightarrow> 'a ComboManager" where
  "manager_set_combos repr parse_action emergency_action grabbed held payloads m =
    (let parsed = parse_runtime_combos repr parse_action payloads;
         unchanged_ids = unchanged_combo_ids (combo_runtime_signatures (active_combos m))
           (with_emergency_cancel_combos (emergency_cancel_combo_enabled m) emergency_action grabbed parsed)
     in refresh_combo_runtime emergency_action grabbed held (preserve_or_reset unchanged_ids)
          (m\<lparr>configured_combos := parsed\<rparr>))"

definition refresh_combo_runtime_preserving_unchanged ::
    "'a option \<Rightarrow> (string \<times> GrabbedDevice list) list \<Rightarrow> RuntimeComboBinding set \<Rightarrow>
     'a ComboManager \<Rightarrow> 'a ComboManager" where
  "refresh_combo_runtime_preserving_unchanged emergency_action grabbed held m =
    refresh_combo_runtime emergency_action grabbed held
      (preserve_or_reset (unchanged_combo_ids (combo_runtime_signatures (active_combos m))
         (with_emergency_cancel_combos (emergency_cancel_combo_enabled m) emergency_action grabbed
            (configured_combos m)))) m"

section \<open>Parsed combos\<close>

definition lower_binding :: "RuntimeComboBinding \<Rightarrow> bool" where
  "lower_binding b \<longleftrightarrow> py_lower (hardware_id b) = hardware_id b \<and> py_lower (evdev b) = evdev b
    \<and> py_lower (source b) = source b"

definition runtime_combo_ok :: "'a RuntimeCombo \<Rightarrow> bool" where
  "runtime_combo_ok combo \<longleftrightarrow>
    steps combo \<noteq> [] \<and> (\<forall>st\<in>set (steps combo). bindings st \<noteq> [] \<and> (\<forall>b\<in>set (bindings st).
      lower_binding b \<and> evdev b \<noteq> []
      \<and> (match_across_devices combo \<longrightarrow> hardware_id b = [] \<and> source b = [])))"

lemma lower_text_lower [simp]: "py_lower (lower_text repr v) = lower_text repr v"
  by (simp add: lower_text_def split: option.split)

lemma parse_event_ok:
  "parse_event repr across ev = Some b \<Longrightarrow>
   lower_binding b \<and> evdev b \<noteq> [] \<and> (across \<longrightarrow> hardware_id b = [] \<and> source b = [])"
  by (auto simp: parse_event_def lower_binding_def Let_def split: bind_splits if_splits)

lemma parse_step_ok:
  "parse_step repr across sd = Some st \<Longrightarrow>
   bindings st \<noteq> [] \<and> (\<forall>b\<in>set (bindings st). lower_binding b \<and> evdev b \<noteq> []
     \<and> (across \<longrightarrow> hardware_id b = [] \<and> source b = []))"
  by (auto simp: parse_step_def Let_def in_map_filter dest!: parse_event_ok split: bind_splits if_splits)

lemma parsed_ok:
  "combo \<in> set (parse_runtime_combos repr parse_action payloads) \<Longrightarrow> runtime_combo_ok combo"
proof -
  assume "combo \<in> set (parse_runtime_combos repr parse_action payloads)"
  then obtain v where "parse_runtime_combo repr parse_action v = Some combo"
    by (auto simp: parse_runtime_combos_def in_map_filter)
  then obtain d across where c: "steps combo = List.map_filter (parse_step repr across) d" "steps combo \<noteq> []"
      "match_across_devices combo = across"
    by (auto simp: parse_runtime_combo_def Let_def split: bind_splits if_splits)
  have "bindings st \<noteq> [] \<and> (\<forall>b\<in>set (bindings st). lower_binding b \<and> evdev b \<noteq> []
      \<and> (match_across_devices combo \<longrightarrow> hardware_id b = [] \<and> source b = []))" if "st \<in> set (steps combo)" for st
    using that c by (auto simp: in_map_filter dest: parse_step_ok)
  with c(2) show "runtime_combo_ok combo" by (simp add: runtime_combo_ok_def)
qed

text \<open>Whatever JSON the session sends, every combo that parsing keeps has steps, every step has
  bindings, and every binding is lower case with a name; a combo that matches across devices names
  no device and no source.\<close>

theorem parse_runtime_combos_ok:
  "list_all runtime_combo_ok (parse_runtime_combos repr parse_action payloads)"
  by (simp add: list_all_iff parsed_ok)

section \<open>Signatures and preserved candidates\<close>

lemma step_signature_same:
  assumes s: "step_signature st = step_signature st'"
    and low: "\<forall>b\<in>set (bindings st) \<union> set (bindings st'). lower_binding b"
  shows "same_step st st'"
proof -
  let ?g = "\<lambda>b. (hardware_id b, source b, evdev b)"
  have map: "map (\<lambda>b. (py_lower (hardware_id b), py_lower (source b), py_lower (evdev b))) bs = map ?g bs"
    if "\<forall>b\<in>set bs. lower_binding b" for bs
    using that by (simp add: lower_binding_def)
  have "sort (map ?g (bindings st)) = sort (map ?g (bindings st'))"
    using s low by (simp add: step_signature_def map)
  then have im: "image_mset ?g (mset (bindings st)) = image_mset ?g (mset (bindings st'))"
    by (drule_tac f = mset in arg_cong) (simp only: mset_sort mset_map)
  have "inj ?g" by (rule injI) (auto intro: RuntimeComboBinding.expand)
  then have "mset (bindings st) = mset (bindings st')"
    by (rule injD [OF multiset.inj_map im])
  with s show ?thesis by (simp add: same_step_def step_signature_def)
qed

definition lower_combo :: "'a RuntimeCombo \<Rightarrow> bool" where
  "lower_combo combo \<longleftrightarrow> (\<forall>st\<in>set (steps combo). \<forall>b\<in>set (bindings st). lower_binding b)"

lemma signature_same_steps:
  assumes "combo_runtime_signature c = combo_runtime_signature c'" and "lower_combo c" and "lower_combo c'"
  shows "same_steps c c'"
proof -
  have "map step_signature (steps c) = map step_signature (steps c')"
    using assms(1) by (simp add: combo_runtime_signature_def)
  then have "list_all2 (\<lambda>s t. step_signature s = step_signature t) (steps c) (steps c')"
    by (simp add: list_all2_map1 list_all2_map2 list.rel_eq [symmetric])
  then show ?thesis
    unfolding same_steps_def
    by (rule list.rel_mono_strong) (use assms(2,3) in \<open>auto simp: lower_combo_def intro: step_signature_same\<close>)
qed

lemma unchanged_loop:
  "cid \<in> unchanged_combo_ids_loop old combos seen preserved \<Longrightarrow>
   cid \<in> preserved \<or> (\<exists>c\<in>set combos. combo_id c = cid \<and> cid \<noteq> [] \<and> old cid = Some (combo_runtime_signature c))"
proof (induction combos arbitrary: seen preserved)
  case (Cons c cs)
  show ?case
  proof (cases "combo_id c = [] \<or> combo_id c \<in> seen")
    case True
    with Cons show ?thesis by auto
  next
    case False
    let ?p = "if old (combo_id c) = Some (combo_runtime_signature c) then insert (combo_id c) preserved else preserved"
    have "cid \<in> unchanged_combo_ids_loop old cs (insert (combo_id c) seen) ?p"
      using Cons.prems False by simp
    from Cons.IH [OF this] False show ?thesis by (auto split: if_splits)
  qed
qed simp

lemma unchanged_loop_complete:
  "distinct (map combo_id combos) \<Longrightarrow> c \<in> set combos \<Longrightarrow> combo_id c \<noteq> [] \<Longrightarrow> combo_id c \<notin> seen \<Longrightarrow>
   old (combo_id c) = Some (combo_runtime_signature c) \<Longrightarrow>
   combo_id c \<in> unchanged_combo_ids_loop old combos seen preserved"
proof (induction combos arbitrary: seen preserved)
  case (Cons x xs)
  have keep: "cid \<in> preserved \<Longrightarrow> cid \<in> unchanged_combo_ids_loop old xs seen preserved" for cid seen preserved
    by (induction xs arbitrary: seen preserved) auto
  show ?case using Cons keep by (auto simp: image_iff)
qed simp

lemma signatures_of:
  assumes "distinct (map combo_id combos)"
  shows "combo_runtime_signatures combos cid = Some s \<longleftrightarrow>
    cid \<noteq> [] \<and> (\<exists>c\<in>set combos. combo_id c = cid \<and> s = combo_runtime_signature c)"
proof -
  let ?l = "rev (map (\<lambda>c. (combo_id c, combo_runtime_signature c)) (filter (\<lambda>c. combo_id c \<noteq> []) combos))"
  have "distinct (map fst ?l)"
    using assms by (simp add: rev_map [symmetric] o_def distinct_map_filter)
  from map_of_eq_Some_iff [OF this] show ?thesis
    by (auto simp: combo_runtime_signatures_def)
qed

definition manager_inv :: "'a ComboManager \<Rightarrow> bool" where
  "manager_inv m \<longleftrightarrow>
    engine_inv (progression_engine m) \<and> combos_ok (active_combos m)
    \<and> (\<forall>cid. combo_map (progression_engine m) cid = combo_with_id cid (active_combos m))
    \<and> (\<forall>combo\<in>set (active_combos m). lower_combo combo)"

lemma combo_map_set_combos:
  "distinct (map combo_id combos) \<Longrightarrow> combo_map (set_combos combos ids e) cid = combo_with_id cid combos"
  by (simp add: set_combos_def Let_def preserve_candidates_def engine_reset_def combo_map_of split: option.split)

lemma prime_fields [simp]:
  "combo_map (prime_held_bindings held e) = combo_map e"
  "candidates (prime_held_bindings held e) = candidates e"
proof -
  have "combo_map (fold record_held_press bs e) = combo_map e
      \<and> candidates (fold record_held_press bs e) = candidates e" for bs and e :: "'a ComboEngine"
    by (induction bs arbitrary: e) auto
  then show "combo_map (prime_held_bindings held e) = combo_map e"
    "candidates (prime_held_bindings held e) = candidates e"
    by (simp_all add: prime_held_bindings_def)
qed

lemma unchanged_preserve_ok:
  assumes inv: "manager_inv m" and ok: "combos_ok new" and low: "\<forall>combo\<in>set new. lower_combo combo"
  shows "preserve_ok (progression_engine m) new
    (preserve_or_reset (unchanged_combo_ids (combo_runtime_signatures (active_combos m)) new))"
proof -
  let ?e = "progression_engine m" and ?old = "combo_runtime_signatures (active_combos m)"
  have d: "distinct (map combo_id (active_combos m))" "distinct (map combo_id new)"
    using inv ok by (simp_all add: manager_inv_def combos_ok_def)
  have "same_steps (candidate_combo c) combo"
    if c: "(cid, c) \<in> set (candidates ?e)" and u: "cid \<in> unchanged_combo_ids ?old new"
      and n: "combo_with_id cid new = Some combo" for cid c combo
  proof -
    have "engine_inv ?e" using inv by (simp add: manager_inv_def)
    from engine_inv_in [OF this c] have "combo_with_id cid (active_combos m) = Some (candidate_combo c)"
      using inv by (simp add: candidate_ok_def candidate_core_def manager_inv_def)
    then have cc: "candidate_combo c \<in> set (active_combos m)" "combo_id (candidate_combo c) = cid"
      by (simp_all add: combo_with_id_iff [OF d(1)])
    obtain x where x: "x \<in> set new" "combo_id x = cid" "?old cid = Some (combo_runtime_signature x)"
      using unchanged_loop [of cid ?old new "{}" "{}"] u by (auto simp: unchanged_combo_ids_def)
    have "x = combo" using n x(1,2) by (metis combo_with_id_iff [OF d(2)] option.inject)
    obtain y where y: "y \<in> set (active_combos m)" "combo_id y = cid" "combo_runtime_signature x = combo_runtime_signature y"
      using x(3) signatures_of [OF d(1)] by auto
    have "y = candidate_combo c"
      using y(1,2) cc by (metis combo_with_id_iff [OF d(1)] option.inject)
    moreover have "lower_combo x" "lower_combo y" using low x(1) inv y(1) by (auto simp: manager_inv_def)
    ultimately show ?thesis
      using signature_same_steps [of y x] y(3) \<open>x = combo\<close> by simp
  qed
  then show ?thesis
    by (auto simp: preserve_ok_def preserve_or_reset_def list_all_iff split: option.split)
qed

lemma refresh_inv:
  assumes inv: "engine_inv (progression_engine m)"
    and new: "new = with_emergency_cancel_combos (emergency_cancel_combo_enabled m) act grabbed (configured_combos m)"
    and ok: "combos_ok new" "\<forall>combo\<in>set new. lower_combo combo"
    and pres: "preserve_ok (progression_engine m) new ids"
  shows "manager_inv (refresh_combo_runtime act grabbed held ids m)"
proof -
  have "distinct (map combo_id new)" using ok by (simp add: combos_ok_def)
  then show ?thesis
    using set_combos_inv [OF inv ok(1) pres] ok
    by (simp add: refresh_combo_runtime_def Let_def new [symmetric] manager_inv_def prime_held_bindings_inv
        combo_map_set_combos)
qed

lemma emergency_lower: "py_lower hw = hw \<Longrightarrow> lower_combo (emergency_cancel_combo act hw)"
  by (auto simp: lower_combo_def emergency_cancel_combo_def EMERGENCY_CANCEL_COMBO_EVDEVS_def lower_binding_def
      py_lower_def py_lower_char_def)

lemma keyboard_ids_lower: "hw \<in> set (grabbed_keyboard_hardware_ids grabbed) \<Longrightarrow> py_lower hw = hw \<and> hw \<noteq> []"
  by (auto simp: grabbed_keyboard_hardware_ids_def)

lemma with_emergency_ok:
  assumes "\<forall>combo\<in>set combos. steps combo \<noteq> [] \<and> lower_combo combo"
  shows "\<forall>combo\<in>set (with_emergency_cancel_combos enabled act grabbed combos). steps combo \<noteq> [] \<and> lower_combo combo"
  using assms keyboard_ids_lower
  by (auto simp: with_emergency_cancel_combos_def Let_def emergency_lower)
     (simp add: emergency_cancel_combo_def)

section \<open>Every configuration\<close>

datatype 'a manager_op =
    ConfigureCombos "json list" "(string \<times> GrabbedDevice list) list" "RuntimeComboBinding set"
  | RefreshCombos "(string \<times> GrabbedDevice list) list" "RuntimeComboBinding set"
  | EngineOp "'a engine_op"

definition distinct_ids :: "'a RuntimeCombo list \<Rightarrow> bool" where
  "distinct_ids combos = distinct (map combo_id combos)"

fun manager_guard ::
    "(json \<Rightarrow> string) \<Rightarrow> (json \<Rightarrow> 'a option) \<Rightarrow> 'a option \<Rightarrow> 'a ComboManager \<Rightarrow> 'a manager_op \<Rightarrow> bool" where
  "manager_guard repr pa act m (ConfigureCombos payloads grabbed held) =
    distinct_ids (with_emergency_cancel_combos (emergency_cancel_combo_enabled m) act grabbed
      (parse_runtime_combos repr pa payloads))"
| "manager_guard repr pa act m (RefreshCombos grabbed held) =
    distinct_ids (with_emergency_cancel_combos (emergency_cancel_combo_enabled m) act grabbed
      (configured_combos m))"
| "manager_guard repr pa act m (EngineOp op) =
    (case op of SetCombos combos ids \<Rightarrow> False | _ \<Rightarrow> engine_guard (progression_engine m) op)"

fun manager_step ::
    "set_order \<Rightarrow> (json \<Rightarrow> string) \<Rightarrow> (json \<Rightarrow> 'a option) \<Rightarrow> 'a option \<Rightarrow>
     'a ComboManager \<Rightarrow> 'a manager_op \<Rightarrow> 'a ComboManager" where
  "manager_step it repr pa act m (ConfigureCombos payloads grabbed held) =
    manager_set_combos repr pa act grabbed held payloads m"
| "manager_step it repr pa act m (RefreshCombos grabbed held) =
    refresh_combo_runtime_preserving_unchanged act grabbed held m"
| "manager_step it repr pa act m (EngineOp op) =
    m\<lparr>progression_engine := engine_step it (progression_engine m) op\<rparr>"

definition manager_state_ok :: "'a ComboManager \<Rightarrow> bool" where
  "manager_state_ok m \<longleftrightarrow> manager_inv m
    \<and> (\<forall>combo\<in>set (configured_combos m). steps combo \<noteq> [] \<and> lower_combo combo)"

lemma with_emergency_combos_ok:
  assumes "\<forall>combo\<in>set combos. steps combo \<noteq> [] \<and> lower_combo combo"
    and "distinct_ids (with_emergency_cancel_combos en act grabbed combos)"
  shows "combos_ok (with_emergency_cancel_combos en act grabbed combos)
    \<and> (\<forall>combo\<in>set (with_emergency_cancel_combos en act grabbed combos). lower_combo combo)"
  using with_emergency_ok [OF assms(1)] assms(2) by (simp add: combos_ok_def distinct_ids_def)

lemma engine_step_combo_map:
  assumes "set_iteration it" and "engine_inv e" and "engine_guard e op" and "\<forall>combos ids. op \<noteq> SetCombos combos ids"
  shows "combo_map (engine_step it e op) = combo_map e"
proof (cases op)
  case (HandleEvent event now)
  then show ?thesis
    using handle_event_effect [OF assms(1,2), of event now] assms(3) by (auto simp: event_effect_def)
next
  case (DropScope hw src)
  then show ?thesis by (simp add: drop_candidates_for_binding_scope_def Let_def)
qed (use assms(4) in simp_all)

lemma engine_init_combo_map: "combo_map engine_init cid = None"
  by (simp add: engine_init_def)

lemma manager_machine:
  assumes it: "set_iteration it"
  shows "inv_machine (initial_manager en) (manager_guard repr pa act) (manager_step it repr pa act) manager_state_ok"
proof
  show "manager_state_ok (initial_manager en)"
    by (simp add: manager_state_ok_def manager_inv_def initial_manager_def engine_inv_init combos_ok_def
        combo_with_id_def engine_init_combo_map)
  fix m :: "'a ComboManager" and op
  assume ok: "manager_state_ok m" and g: "manager_guard repr pa act m op"
  have inv: "manager_inv m" and einv: "engine_inv (progression_engine m)"
    using ok by (simp_all add: manager_state_ok_def manager_inv_def)
  show "manager_state_ok (manager_step it repr pa act m op)"
  proof (cases op)
    case (ConfigureCombos payloads grabbed held)
    let ?p = "parse_runtime_combos repr pa payloads"
    let ?new = "with_emergency_cancel_combos (emergency_cancel_combo_enabled m) act grabbed ?p"
    have p: "\<forall>combo\<in>set ?p. steps combo \<noteq> [] \<and> lower_combo combo"
      using parsed_ok by (fastforce simp: runtime_combo_ok_def lower_combo_def)
    have new: "combos_ok ?new" "\<forall>combo\<in>set ?new. lower_combo combo"
      using with_emergency_combos_ok [OF p] g ConfigureCombos by simp_all
    have "manager_inv (manager_set_combos repr pa act grabbed held payloads m)"
      unfolding manager_set_combos_def Let_def
      by (rule refresh_inv [OF _ refl]) (use new einv unchanged_preserve_ok [OF inv new] in simp_all)
    then show ?thesis
      using p ConfigureCombos
      by (simp add: manager_state_ok_def manager_set_combos_def Let_def refresh_combo_runtime_def)
  next
    case (RefreshCombos grabbed held)
    let ?new = "with_emergency_cancel_combos (emergency_cancel_combo_enabled m) act grabbed (configured_combos m)"
    have p: "\<forall>combo\<in>set (configured_combos m). steps combo \<noteq> [] \<and> lower_combo combo"
      using ok by (simp add: manager_state_ok_def)
    have new: "combos_ok ?new" "\<forall>combo\<in>set ?new. lower_combo combo"
      using with_emergency_combos_ok [OF p] g RefreshCombos by simp_all
    have "manager_inv (refresh_combo_runtime_preserving_unchanged act grabbed held m)"
      unfolding refresh_combo_runtime_preserving_unchanged_def
      by (rule refresh_inv [OF einv refl new]) (rule unchanged_preserve_ok [OF inv new])
    then show ?thesis
      using p RefreshCombos
      by (simp add: manager_state_ok_def refresh_combo_runtime_preserving_unchanged_def
          refresh_combo_runtime_def Let_def)
  next
    case (EngineOp eop)
    then have eg: "engine_guard (progression_engine m) eop" and ns: "\<forall>combos ids. eop \<noteq> SetCombos combos ids"
      using g by (auto split: engine_op.splits)
    have "engine_inv (engine_step it (progression_engine m) eop)"
      by (rule inv_machine.inv_step [OF engine_machine [OF it] einv eg])
    then show ?thesis
      using ok EngineOp engine_step_combo_map [OF it einv eg ns]
      by (simp add: manager_state_ok_def manager_inv_def)
  qed
qed

interpretation combo_manager: inv_machine "initial_manager True"
    "manager_guard (\<lambda>_. ''?'') (\<lambda>v. Some v) (Some JNull)"
    "manager_step sorted_list_of_set (\<lambda>_. ''?'') (\<lambda>v. Some v) (Some JNull)" manager_state_ok
  by (rule manager_machine [OF sorted_iteration.set_iteration_axioms])

lemma unchanged_combo_ids_iff:
  assumes "distinct (map combo_id old)" and "distinct (map combo_id new)"
  shows "cid \<in> unchanged_combo_ids (combo_runtime_signatures old) new \<longleftrightarrow>
    (\<exists>x\<in>set old. \<exists>c\<in>set new. combo_id c = cid \<and> cid \<noteq> []
       \<and> combo_id x = cid \<and> combo_runtime_signature x = combo_runtime_signature c)"
proof
  assume "cid \<in> unchanged_combo_ids (combo_runtime_signatures old) new"
  then obtain c where c: "c \<in> set new" "combo_id c = cid" "cid \<noteq> []"
      "combo_runtime_signatures old cid = Some (combo_runtime_signature c)"
    using unchanged_loop [of cid _ new "{}" "{}"] by (auto simp: unchanged_combo_ids_def)
  obtain x where x: "x \<in> set old" "combo_id x = cid" "combo_runtime_signature c = combo_runtime_signature x"
    using iffD1 [OF signatures_of [OF assms(1)] c(4)] by blast
  show "\<exists>x\<in>set old. \<exists>c\<in>set new. combo_id c = cid \<and> cid \<noteq> []
       \<and> combo_id x = cid \<and> combo_runtime_signature x = combo_runtime_signature c"
    by (intro bexI [OF _ x(1)] bexI [OF _ c(1)] conjI c(2,3) x(2) x(3) [symmetric])
next
  assume "\<exists>x\<in>set old. \<exists>c\<in>set new. combo_id c = cid \<and> cid \<noteq> []
       \<and> combo_id x = cid \<and> combo_runtime_signature x = combo_runtime_signature c"
  then obtain x c where x: "x \<in> set old" "combo_id x = cid" "cid \<noteq> []"
    and c: "c \<in> set new" "combo_id c = cid" "combo_runtime_signature x = combo_runtime_signature c"
    by (elim bexE conjE) (rule that)
  have "combo_runtime_signatures old cid = Some (combo_runtime_signature c)"
    by (rule iffD2 [OF signatures_of [OF assms(1)]])
       (intro conjI x(3) bexI [OF _ x(1)] x(2) c(3) [symmetric])
  then show "cid \<in> unchanged_combo_ids (combo_runtime_signatures old) new"
    using unchanged_loop_complete [OF assms(2) c(1)] c(2) x(3) by (simp add: unchanged_combo_ids_def)
qed

lemma preserve_entry_progress:
  assumes "\<And>cid. cid \<in> ids \<Longrightarrow> M cid \<noteq> None"
  shows "map (\<lambda>(cid, c). (cid, step_index c, tracked_presses c, pressed_bindings c, action_active c))
      (List.map_filter (preserve_entry ids M) cs)
    = map (\<lambda>(cid, c). (cid, step_index c, tracked_presses c, pressed_bindings c, action_active c))
      (filter (\<lambda>p. fst p \<in> ids) cs)"
proof (induction cs)
  case (Cons p cs)
  then show ?case
    using assms [of "fst p"]
    by (cases "M (fst p)") (auto simp: List.map_filter_simps preserve_entry_def split_beta)
qed (simp add: List.map_filter_simps)

text \<open>C29. A new configuration never breaks the engine and never disturbs a combo it does not change:
  after any sequence of configurations, refreshes and engine operations, the engine's invariant
  holds, and a configuration keeps exactly the candidates of the combos whose signature is unchanged
  (all are dropped when none is), each with its progress.\<close>

theorem reconfiguration_keeps_unchanged:
  assumes "set_iteration it"
    and "guarded_run (manager_guard repr pa act) (manager_step it repr pa act) (initial_manager en) ops"
    and "m = run_steps (manager_step it repr pa act) (initial_manager en) ops"
    and "new = with_emergency_cancel_combos (emergency_cancel_combo_enabled m) act grabbed
           (parse_runtime_combos repr pa payloads)"
    and "distinct_ids new"
    and "m' = manager_set_combos repr pa act grabbed held payloads m"
  shows "engine_inv (progression_engine m')
    \<and> map (\<lambda>(cid, c). (cid, step_index c, tracked_presses c, pressed_bindings c, action_active c))
        (candidates (progression_engine m'))
      = map (\<lambda>(cid, c). (cid, step_index c, tracked_presses c, pressed_bindings c, action_active c))
        (filter (\<lambda>p. \<exists>old\<in>set (active_combos m). \<exists>combo\<in>set new. combo_id combo = fst p \<and> fst p \<noteq> []
             \<and> combo_id old = fst p \<and> combo_runtime_signature old = combo_runtime_signature combo)
          (candidates (progression_engine m)))"
proof -
  have ok: "manager_state_ok m"
    using inv_machine.inv_run [OF manager_machine [OF assms(1)] assms(2)] assms(3) by simp
  then have inv: "manager_inv m" and d: "distinct (map combo_id (active_combos m))" "distinct (map combo_id new)"
    using assms(5) by (simp_all add: manager_state_ok_def manager_inv_def combos_ok_def distinct_ids_def)
  let ?e = "progression_engine m"
  define ids where "ids = unchanged_combo_ids (combo_runtime_signatures (active_combos m)) new"
  have e': "progression_engine m' = prime_held_bindings held (set_combos new (preserve_or_reset ids) ?e)"
    by (simp add: assms(4,6) manager_set_combos_def refresh_combo_runtime_def Let_def ids_def)
  have ids: "cid \<in> ids \<longleftrightarrow> (\<exists>old\<in>set (active_combos m). \<exists>combo\<in>set new. combo_id combo = cid \<and> cid \<noteq> []
      \<and> combo_id old = cid \<and> combo_runtime_signature old = combo_runtime_signature combo)" for cid
    unfolding ids_def by (rule unchanged_combo_ids_iff [OF d])
  have "manager_state_ok (manager_step it repr pa act m (ConfigureCombos payloads grabbed held))"
    by (rule inv_machine.inv_step [OF manager_machine [OF assms(1)] ok]) (use assms(4,5) in simp)
  then have 1: "engine_inv (progression_engine m')"
    by (simp add: assms(6) manager_state_ok_def manager_inv_def)
  have some: "combo_with_id cid new \<noteq> None" if "cid \<in> ids" for cid
    using that combo_with_id_iff [OF d(2)] by (auto simp: ids)
  have "candidates (progression_engine m') =
      List.map_filter (preserve_entry ids (\<lambda>cid. combo_with_id cid new)) (candidates ?e)"
  proof (cases "ids = {}")
    case True
    have none: "preserve_entry {} M p = None" for M :: "string \<rightharpoonup> 'a RuntimeCombo" and p
      by (simp add: preserve_entry_def)
    show ?thesis
      by (simp add: e' True preserve_or_reset_def set_combos_def engine_reset_def none List.map_filter_def)
  next
    case False
    have m: "(\<lambda>cid. map_of (rev (map (\<lambda>c. (combo_id c, c)) new)) cid) = (\<lambda>cid. combo_with_id cid new)"
      by (simp add: combo_map_of [OF d(2)])
    show ?thesis
      using False m by (simp add: e' preserve_or_reset_def set_combos_def preserve_candidates_eq)
  qed
  moreover have "map (\<lambda>(cid, c). (cid, step_index c, tracked_presses c, pressed_bindings c, action_active c))
      (List.map_filter (preserve_entry ids (\<lambda>cid. combo_with_id cid new)) (candidates ?e))
    = map (\<lambda>(cid, c). (cid, step_index c, tracked_presses c, pressed_bindings c, action_active c))
      (filter (\<lambda>p. fst p \<in> ids) (candidates ?e))"
    by (rule preserve_entry_progress) (rule some)
  ultimately show ?thesis using 1 unfolding ids by simp
qed

definition two_key_payload :: json where
  "two_key_payload = JObject [(''id'', JString ''c''), (''action'', JString ''tap''),
     (''steps'', JList [JObject [(''events'', JList [JObject [(''evdev'', JString ''KEY_A'')]])]])]"

theorem reconfiguration_keeps_unchanged_witness:
  "engine_inv (progression_engine (manager_set_combos (\<lambda>_. ''?'') Some None [] {} [two_key_payload]
     (initial_manager True)))"
  by (rule conjunct1 [OF reconfiguration_keeps_unchanged [OF sorted_iteration.set_iteration_axioms _ _ refl _ refl,
          where ops = "[]" and en = True and repr = "\<lambda>_. ''?''" and pa = Some and act = None]])
     (simp_all, code_simp)

section \<open>The emergency combo\<close>

lemma emergency_in_active:
  assumes "hw \<in> set (grabbed_keyboard_hardware_ids grabbed)"
  shows "emergency_cancel_combo act hw \<in> set (with_emergency_cancel_combos True act grabbed combos)"
  using assms by (auto simp: with_emergency_cancel_combos_def Let_def)

lemma prime_first_steps:
  "candidate_first_step_combos (prime_held_bindings held e) b = candidate_first_step_combos e b"
proof -
  have "first_step_binding_index (fold record_held_press bs e) = first_step_binding_index e"
    for bs and e :: "'a ComboEngine"
    by (induction bs arbitrary: e) (auto simp: record_held_press_def Let_def)
  then have "first_step_binding_index (prime_held_bindings held e) = first_step_binding_index e"
    by (simp add: prime_held_bindings_def)
  then show ?thesis
    by (simp add: candidate_first_step_combos_def candidate_first_step_combo_ids_def)
qed

lemma emergency_step_matches:
  assumes "normalize_combo_evdev k \<in> EMERGENCY_CANCEL_COMBO_EVDEV_SET"
  shows "step_matches_binding (hd (steps (emergency_cancel_combo act hw))) (RuntimeComboBinding hw k src)"
proof -
  have "normalize_combo_evdev ''ctrl'' = ''ctrl''" "normalize_combo_evdev ''alt'' = ''alt''"
    "normalize_combo_evdev ''key_esc'' = ''key_esc''" by code_simp+
  with assms show ?thesis
    by (auto simp: step_matches_binding_def emergency_cancel_combo_def EMERGENCY_CANCEL_COMBO_EVDEVS_def
        EMERGENCY_CANCEL_COMBO_EVDEV_SET_def binding_matches_def normalized_binding_parts_def)
qed

text \<open>The way out always works: whatever combos the session configures, each of Ctrl, Alt and Esc
  (by any of their names) on each grabbed keyboard finds that keyboard's emergency combo in the
  engine's first-step index.\<close>

theorem emergency_combo_indexed:
  assumes "emergency_cancel_combo_enabled m"
    and "distinct_ids (with_emergency_cancel_combos True act grabbed (parse_runtime_combos repr pa payloads))"
    and "hw \<in> set (grabbed_keyboard_hardware_ids grabbed)"
    and "normalize_combo_evdev k \<in> EMERGENCY_CANCEL_COMBO_EVDEV_SET"
  shows "emergency_cancel_combo act hw \<in> set (candidate_first_step_combos
    (progression_engine (manager_set_combos repr pa act grabbed held payloads m)) (RuntimeComboBinding hw k src))"
proof -
  let ?new = "with_emergency_cancel_combos True act grabbed (parse_runtime_combos repr pa payloads)"
  have "\<forall>combo\<in>set ?new. steps combo \<noteq> []"
    using with_emergency_ok [of "parse_runtime_combos repr pa payloads" True act grabbed] parsed_ok
    by (fastforce simp: runtime_combo_ok_def lower_combo_def)
  then have ok: "combos_ok ?new" using assms(2) by (simp add: combos_ok_def distinct_ids_def)
  have "emergency_cancel_combo act hw \<in> set (candidate_first_step_combos (set_combos ?new ids e)
      (RuntimeComboBinding hw k src))" for ids and e :: "'a ComboEngine"
    unfolding conjunct1 [OF first_step_combos_set [OF ok]]
    using emergency_in_active [OF assms(3)] emergency_step_matches [OF assms(4)] by blast
  then show ?thesis
    by (simp add: manager_set_combos_def refresh_combo_runtime_def assms(1) prime_first_steps Let_def)
qed

definition demo_keyboards :: "(string \<times> GrabbedDevice list) list" where
  "demo_keyboards = [(''046D:C31C'', [\<lparr>device_type_value = ''keyboard'', device_type_items = []\<rparr>])]"

theorem emergency_combo_indexed_witness:
  "emergency_cancel_combo None ''046d:c31c'' \<in> set (candidate_first_step_combos
    (progression_engine (manager_set_combos (\<lambda>_. ''?'') (Some :: json \<Rightarrow> json option) None demo_keyboards {}
       [two_key_payload] (initial_manager True))) (RuntimeComboBinding ''046d:c31c'' ''key_esc'' ''''))"
proof (rule emergency_combo_indexed)
  show "emergency_cancel_combo_enabled (initial_manager True :: json ComboManager)"
    by (simp add: initial_manager_def)
  show "distinct_ids (with_emergency_cancel_combos True None demo_keyboards
      (parse_runtime_combos (\<lambda>_. ''?'') (Some :: json \<Rightarrow> json option) [two_key_payload]))"
    by code_simp
  show "''046d:c31c'' \<in> set (grabbed_keyboard_hardware_ids demo_keyboards)" by code_simp
  show "normalize_combo_evdev ''key_esc'' \<in> EMERGENCY_CANCEL_COMBO_EVDEV_SET" by code_simp
qed

end
