(* ===== verification/Macro_Timing.thy ===== *)
theory Macro_Timing
  imports Prelude
begin

text \<open>
  The clock of a macro playback (\<open>keymasq/keymasqd/runtime/macro/timing.py\<close>): \<open>MacroPauseState\<close>,
  the pause requests of one instance, and \<open>MacroPlaybackTimeline\<close>, the deadlines of its events.

  Seconds are rational numbers (the code has doubles).  The event loop's timer is its deadline,
  \<open>None\<close> when it is not armed; \<open>expire\<close> also answers whether it calls \<open>on_expire\<close>.  The callbacks
  \<open>on_pause\<close> and \<open>on_resume\<close> and the waiting itself are not modelled.
\<close>

section \<open>Pausing\<close>

record MacroPauseState =
  paused_at_s :: "rat option"
  elapsed_s :: rat
  timeout_s :: rat
  timeout_handle :: "rat option"

definition new_pause_state :: "rat \<Rightarrow> MacroPauseState" where
  "new_pause_state limit =
    \<lparr>paused_at_s = None, elapsed_s = 0, timeout_s = limit, timeout_handle = None\<rparr>"

definition paused :: "MacroPauseState \<Rightarrow> bool" where
  "paused p \<longleftrightarrow> paused_at_s p \<noteq> None"

definition pause_total :: "MacroPauseState \<Rightarrow> rat \<Rightarrow> rat" where
  "pause_total p now = elapsed_s p + (case paused_at_s p of None \<Rightarrow> 0 | Some t \<Rightarrow> max 0 (now - t))"

definition clear_timeout :: "MacroPauseState \<Rightarrow> MacroPauseState" where
  "clear_timeout p = p\<lparr>timeout_handle := None\<rparr>"

definition pause_at :: "MacroPauseState \<Rightarrow> rat \<Rightarrow> MacroPauseState" where
  "pause_at p now =
    (if paused p then p
     else p\<lparr>paused_at_s := Some now,
            timeout_handle := (if timeout_s p > 0 then Some (now + timeout_s p) else timeout_handle p)\<rparr>)"

definition resume_at :: "MacroPauseState \<Rightarrow> rat \<Rightarrow> MacroPauseState" where
  "resume_at p now =
    (let p' = clear_timeout p in p'\<lparr>elapsed_s := pause_total p' now, paused_at_s := None\<rparr>)"

definition pause_expired :: "MacroPauseState \<Rightarrow> rat \<Rightarrow> bool" where
  "pause_expired p now =
    (case paused_at_s p of None \<Rightarrow> False | Some t \<Rightarrow> timeout_s p > 0 \<and> now \<ge> t + timeout_s p)"

definition expire :: "MacroPauseState \<Rightarrow> MacroPauseState \<times> bool" where
  "expire p = (clear_timeout p, paused p)"

section \<open>The timeline\<close>

record MacroPlaybackTimeline =
  anchor_s :: rat
  speed_factor :: rat
  blocking_offset_s :: rat
  pause_of :: "MacroPauseState option"
  pause_baseline_s :: rat

definition new_timeline :: "rat \<Rightarrow> rat \<Rightarrow> MacroPauseState option \<Rightarrow> rat \<Rightarrow> MacroPlaybackTimeline" where
  "new_timeline anchor speed pause baseline =
    \<lparr>anchor_s = anchor, speed_factor = max (1 / 100) speed, blocking_offset_s = 0,
     pause_of = pause, pause_baseline_s = baseline\<rparr>"

definition event_deadline :: "MacroPlaybackTimeline \<Rightarrow> int \<Rightarrow> rat" where
  "event_deadline line timestamp_us =
    anchor_s line + blocking_offset_s line + (of_int timestamp_us / speed_factor line) / 1000000"

definition pause_offset :: "MacroPlaybackTimeline \<Rightarrow> rat \<Rightarrow> rat" where
  "pause_offset line now =
    (case pause_of line of None \<Rightarrow> 0 | Some p \<Rightarrow> pause_total p now - pause_baseline_s line)"

definition event_delay :: "MacroPlaybackTimeline \<Rightarrow> int \<Rightarrow> rat \<Rightarrow> rat" where
  "event_delay line timestamp_us now = max 0 (event_deadline line timestamp_us + pause_offset line now - now)"

definition extend_for_blocking_action :: "MacroPlaybackTimeline \<Rightarrow> rat \<Rightarrow> MacroPlaybackTimeline" where
  "extend_for_blocking_action line elapsed =
    line\<lparr>blocking_offset_s := blocking_offset_s line + max 0 elapsed\<rparr>"

definition nominal_end_deadline :: "MacroPlaybackTimeline \<Rightarrow> int \<Rightarrow> rat" where
  "nominal_end_deadline line duration_us =
    anchor_s line + (of_int duration_us / speed_factor line) / 1000000"

definition nominal_end_delay :: "MacroPlaybackTimeline \<Rightarrow> int \<Rightarrow> rat \<Rightarrow> rat" where
  "nominal_end_delay line duration_us now =
    max 0 (nominal_end_deadline line duration_us + pause_offset line now - now)"

section \<open>The pause history\<close>

text \<open>What a run of pauses, resumes and timer expiries at increasing times should have counted: the
  total length of the periods that were paused, up to a given time.\<close>

datatype pause_op = OpPause rat | OpResume rat | OpExpire rat

fun op_time :: "pause_op \<Rightarrow> rat" where
  "op_time (OpPause t) = t"
| "op_time (OpResume t) = t"
| "op_time (OpExpire t) = t"

fun pause_step :: "MacroPauseState \<Rightarrow> pause_op \<Rightarrow> MacroPauseState" where
  "pause_step p (OpPause t) = pause_at p t"
| "pause_step p (OpResume t) = resume_at p t"
| "pause_step p (OpExpire t) = fst (expire p)"

fun paused_after :: "bool \<Rightarrow> pause_op \<Rightarrow> bool" where
  "paused_after was (OpPause t) = True"
| "paused_after was (OpResume t) = False"
| "paused_after was (OpExpire t) = was"

text \<open>\<open>paused_time was t ops now\<close>: from time \<open>t\<close>, in the state \<open>was\<close>, to time \<open>now\<close>.\<close>

fun paused_time :: "bool \<Rightarrow> rat \<Rightarrow> pause_op list \<Rightarrow> rat \<Rightarrow> rat" where
  "paused_time was t [] now = (if was then now - t else 0)"
| "paused_time was t (e # es) now =
    (if was then op_time e - t else 0) + paused_time (paused_after was e) (op_time e) es now"

fun in_order :: "rat \<Rightarrow> pause_op list \<Rightarrow> rat \<Rightarrow> bool" where
  "in_order t [] now = (t \<le> now)"
| "in_order t (e # es) now = (t \<le> op_time e \<and> in_order (op_time e) es now)"

definition pause_ok :: "MacroPauseState \<Rightarrow> rat \<Rightarrow> bool" where
  "pause_ok p t \<longleftrightarrow>
    (case paused_at_s p of None \<Rightarrow> timeout_handle p = None
     | Some start \<Rightarrow> start \<le> t \<and> (timeout_handle p = None
                              \<or> (timeout_s p > 0 \<and> timeout_handle p = Some (start + timeout_s p))))"

lemma pause_total_resumed [simp]: "pause_total (resume_at p t) now = pause_total p t"
  by (simp add: resume_at_def pause_total_def clear_timeout_def)

lemma pause_total_cleared [simp]: "pause_total (clear_timeout p) now = pause_total p now"
  by (simp add: clear_timeout_def pause_total_def)

lemma pause_total_paused: "\<not> paused p \<Longrightarrow> t \<le> now \<Longrightarrow> pause_total (pause_at p t) now = pause_total p t + (now - t)"
  by (simp add: pause_at_def paused_def pause_total_def)

lemma pause_total_later:
  "pause_ok p t \<Longrightarrow> t \<le> now \<Longrightarrow> pause_total p now = pause_total p t + (if paused p then now - t else 0)"
  by (auto simp: pause_ok_def pause_total_def paused_def split: option.splits)

lemma pause_step_ok:
  assumes "pause_ok p t" and "t \<le> op_time e"
  shows "pause_ok (pause_step p e) (op_time e)
    \<and> paused (pause_step p e) = paused_after (paused p) e
    \<and> pause_total (pause_step p e) (op_time e) = pause_total p (op_time e)
    \<and> timeout_s (pause_step p e) = timeout_s p"
proof (cases e)
  case (OpPause u)
  show ?thesis
  proof (cases "paused p")
    case True
    then show ?thesis
      using assms by (simp add: OpPause pause_at_def pause_ok_def paused_def split: option.splits)
  next
    case False
    then show ?thesis
      using assms by (simp add: OpPause pause_at_def pause_ok_def paused_def pause_total_def)
  qed
next
  case (OpResume u)
  show ?thesis
    by (simp add: OpResume resume_at_def pause_ok_def paused_def pause_total_def clear_timeout_def)
next
  case (OpExpire u)
  show ?thesis
    using assms
    by (cases "paused_at_s p") (simp_all add: OpExpire expire_def pause_ok_def paused_def pause_total_def clear_timeout_def)
qed

lemma pause_history:
  assumes "pause_ok p t" and "in_order t es now"
  shows "pause_total (fold (\<lambda>e p. pause_step p e) es p) now
      = pause_total p t + paused_time (paused p) t es now
    \<and> pause_ok (fold (\<lambda>e p. pause_step p e) es p) now \<and> timeout_s (fold (\<lambda>e p. pause_step p e) es p) = timeout_s p"
  using assms
proof (induction es arbitrary: p t)
  case Nil
  then have "t \<le> now" by simp
  then have "pause_ok p now"
    using Nil.prems(1) by (cases "paused_at_s p") (auto simp: pause_ok_def)
  with pause_total_later [OF Nil.prems(1) \<open>t \<le> now\<close>] show ?case by simp
next
  case (Cons e es)
  from Cons.prems(2) have t: "t \<le> op_time e" and o: "in_order (op_time e) es now" by simp_all
  note st = pause_step_ok [OF Cons.prems(1) t]
  note later = pause_total_later [OF Cons.prems(1) t]
  show ?case
    using Cons.IH [OF conjunct1 [OF st] o] st by (simp add: later)
qed

text \<open>Pausing stops the clock of a playback for exactly the time it is paused: after any run of
  pauses, resumes and timer expiries at increasing times, the counted pause is the length of the
  paused periods, so an event is due (its delay is zero) exactly when the time the playback has run,
  the pauses and blocking actions left out, has reached the event's timestamp at the playback's
  speed.  A timer is armed only while paused, at the pause's start plus the timeout.\<close>

theorem pause_clock:
  assumes "in_order t0 es now"
    and "p = fold (\<lambda>e p. pause_step p e) es (new_pause_state limit)"
    and "line = (new_timeline t0 speed (Some p) 0)\<lparr>blocking_offset_s := blocked\<rparr>"
  shows "pause_total p now = paused_time False t0 es now
    \<and> (event_delay line ts now = 0 \<longleftrightarrow>
      of_int ts / 1000000 \<le> max (1 / 100) speed * (now - t0 - paused_time False t0 es now - blocked))
    \<and> (timeout_handle p = None \<or>
      (\<exists>start. paused_at_s p = Some start \<and> start \<le> now \<and> limit > 0 \<and> timeout_handle p = Some (start + limit)))"
proof -
  have i: "pause_ok (new_pause_state limit) t0" "\<not> paused (new_pause_state limit)"
    "pause_total (new_pause_state limit) t0 = 0"
    by (simp_all add: pause_ok_def new_pause_state_def paused_def pause_total_def)
  have h: "pause_total p now = paused_time False t0 es now" "pause_ok p now" "timeout_s p = limit"
    using pause_history [OF i(1) assms(1)] i(2,3) by (simp_all add: assms(2) new_pause_state_def)
  define s where "s = max (1 / 100) speed"
  have s: "s > 0" by (simp add: s_def less_max_iff_disj)
  have "event_delay line ts now = 0 \<longleftrightarrow> t0 + blocked + (of_int ts / s) / 1000000 + paused_time False t0 es now - now \<le> 0"
    by (simp add: event_delay_def event_deadline_def pause_offset_def assms(3) new_timeline_def h(1) s_def max_def)
  also have "\<dots> \<longleftrightarrow> (of_int ts / 1000000) / s \<le> now - t0 - paused_time False t0 es now - blocked"
  proof -
    have "of_int ts / s / 1000000 = of_int ts / 1000000 / s" by simp
    then show ?thesis by (simp only: le_diff_eq) (simp add: algebra_simps)
  qed
  also have "\<dots> \<longleftrightarrow> of_int ts / 1000000 \<le> s * (now - t0 - paused_time False t0 es now - blocked)"
    by (simp only: pos_divide_le_eq [OF s] mult.commute [of s])
  finally have "event_delay line ts now = 0 \<longleftrightarrow>
      of_int ts / 1000000 \<le> s * (now - t0 - paused_time False t0 es now - blocked)" .
  moreover have "timeout_handle p = None \<or>
      (\<exists>start. paused_at_s p = Some start \<and> start \<le> now \<and> limit > 0 \<and> timeout_handle p = Some (start + limit))"
    using h(2,3) by (auto simp: pause_ok_def split: option.splits)
  ultimately show ?thesis using h(1) unfolding s_def by simp
qed

text \<open>Two pauses, of 1 s and of 2 s that is resumed: at 10 s the playback has run for 7 s.\<close>

theorem pause_clock_witness:
  "pause_total (fold (\<lambda>e p. pause_step p e) [OpPause 1, OpResume 2, OpPause 5, OpResume 7] (new_pause_state 60)) 10 = 3"
proof -
  have "in_order 0 [OpPause 1, OpResume 2, OpPause 5, OpResume 7] 10" by simp
  from conjunct1 [OF pause_clock [OF this refl refl, where limit = 60 and speed = 1 and blocked = 0]]
  show ?thesis by simp
qed

end
