(* ===== verification/Macro_State.thy ===== *)
theory Macro_State
  imports Macro_Timing
begin

text \<open>
  The bookkeeping of running macros (\<open>keymasq/keymasqd/runtime/macro/state.py\<close> and
  \<open>runtime/macro/loops.py\<close>): instances, their metadata, the tree of calls, the trigger's lifecycle, and
  the plans that stop loops.

  A dict whose order matters is an association list, any other one a map.  An instance's metadata
  dict is a record; the keys that only root instances have are \<open>None\<close> in the others.  A task is
  whether it is done.  The order in which Python iterates a set of instance ids is the parameter
  \<open>ord\<close>.
\<close>

section \<open>State\<close>

record MacroMeta =
  loop_mode :: string
  source_device :: string
  source_button :: string
  macro_name :: string
  loop_active :: bool
  loop_stop_behavior :: string
  parent_instance_id :: "int option"
  root_instance_id :: int
  source_lifecycle_available :: "bool option"
  source_lifecycle_active :: "bool option"
  source_released_at_s :: "rat option"

type_synonym output_key = "string \<times> int"

record MacroRuntimeState =
  tasks :: "(int \<times> bool) list"
  instance_meta :: "int \<rightharpoonup> MacroMeta"
  instance_seq :: int
  instance_held :: "int \<rightharpoonup> output_key set"
  held_refcount :: "output_key \<rightharpoonup> nat"
  instance_held_abs :: "int \<rightharpoonup> output_key set"
  held_abs_refcount :: "output_key \<rightharpoonup> nat"
  cancel_instance_ids :: "int set"
  instance_children :: "(int \<times> int set) list"
  pauses :: "int \<rightharpoonup> MacroPauseState"
  pause_released :: "int \<rightharpoonup> (string \<times> int \<times> int) set"

definition initial_macro_state :: MacroRuntimeState where
  "initial_macro_state =
    \<lparr>tasks = [], instance_meta = Map.empty, instance_seq = 0, instance_held = Map.empty,
     held_refcount = Map.empty, instance_held_abs = Map.empty, held_abs_refcount = Map.empty,
     cancel_instance_ids = {}, instance_children = [], pauses = Map.empty,
     pause_released = Map.empty\<rparr>"

definition get_set :: "('k \<rightharpoonup> 'a set) \<Rightarrow> 'k \<Rightarrow> 'a set" where
  "get_set m k = (case m k of None \<Rightarrow> {} | Some S \<Rightarrow> S)"

section \<open>Instances\<close>

definition parent_root :: "MacroRuntimeState \<Rightarrow> int option \<Rightarrow> int \<Rightarrow> int" where
  "parent_root s parent instance_id =
    (case parent of
       None \<Rightarrow> instance_id
     | Some p \<Rightarrow> (case instance_meta s p of None \<Rightarrow> instance_id | Some meta \<Rightarrow> root_instance_id meta))"

definition new_meta ::
    "string \<Rightarrow> string \<times> string \<Rightarrow> string \<Rightarrow> string \<Rightarrow> int option \<Rightarrow> int \<Rightarrow> MacroMeta" where
  "new_meta mode source_key name stop_behavior parent own_root =
    \<lparr>loop_mode = mode, source_device = fst source_key, source_button = snd source_key,
     macro_name = name, loop_active = (mode = ''hold'' \<or> mode = ''toggle''),
     loop_stop_behavior = stop_behavior, parent_instance_id = parent, root_instance_id = own_root,
     source_lifecycle_available =
       (if parent = None then Some (fst source_key \<noteq> [] \<or> snd source_key \<noteq> []) else None),
     source_lifecycle_active = (if parent = None then Some True else None),
     source_released_at_s = None\<rparr>"

definition allocate_instance ::
    "string \<Rightarrow> string \<times> string \<Rightarrow> string \<Rightarrow> string \<Rightarrow> int option \<Rightarrow> MacroRuntimeState \<Rightarrow>
     MacroRuntimeState \<times> int" where
  "allocate_instance mode source_key name stop_behavior parent s =
    (let instance_id = instance_seq s + 1;
         children = AList.update instance_id {} (instance_children s);
         own_root = parent_root s parent instance_id
     in (s\<lparr>instance_seq := instance_id,
           instance_held := (instance_held s)(instance_id \<mapsto> {}),
           instance_held_abs := (instance_held_abs s)(instance_id \<mapsto> {}),
           cancel_instance_ids := cancel_instance_ids s - {instance_id},
           instance_meta := (instance_meta s)
             (instance_id \<mapsto> new_meta mode source_key name stop_behavior parent own_root),
           instance_children :=
             (case parent of
                None \<Rightarrow> children
              | Some p \<Rightarrow> AList.update p (insert instance_id (get_set (map_of children) p)) children)\<rparr>,
         instance_id))"

definition released_meta :: "string \<times> string \<Rightarrow> rat \<Rightarrow> MacroMeta \<Rightarrow> MacroMeta" where
  "released_meta source_key now meta =
    (if parent_instance_id meta \<noteq> None then meta
     else if source_device meta = fst source_key \<and> source_button meta = snd source_key
     then meta\<lparr>source_released_at_s :=
                 (if source_lifecycle_active meta \<noteq> Some False then Some now else source_released_at_s meta),
               source_lifecycle_active := Some False\<rparr>
     else meta)"

definition mark_source_released :: "string \<times> string \<Rightarrow> rat \<Rightarrow> MacroRuntimeState \<Rightarrow> MacroRuntimeState" where
  "mark_source_released source_key now s =
    s\<lparr>instance_meta := (\<lambda>i. map_option (released_meta source_key now) (instance_meta s i))\<rparr>"

definition source_lifecycle :: "MacroRuntimeState \<Rightarrow> int \<Rightarrow> bool \<times> bool" where
  "source_lifecycle s instance_id =
    (let own_root = (case instance_meta s instance_id of None \<Rightarrow> instance_id | Some meta \<Rightarrow> root_instance_id meta)
     in case instance_meta s own_root of
          None \<Rightarrow> (False, False)
        | Some root_meta \<Rightarrow>
            (source_lifecycle_available root_meta = Some True, source_lifecycle_active root_meta = Some True))"

definition forget_instance :: "int \<Rightarrow> MacroRuntimeState \<Rightarrow> MacroRuntimeState" where
  "forget_instance instance_id s =
    (let children =
       (case Option.bind (instance_meta s instance_id) parent_instance_id of
          None \<Rightarrow> instance_children s
        | Some p \<Rightarrow>
            (case map_of (instance_children s) p of
               None \<Rightarrow> instance_children s
             | Some siblings \<Rightarrow> AList.update p (siblings - {instance_id}) (instance_children s)))
     in s\<lparr>cancel_instance_ids := cancel_instance_ids s - {instance_id},
          tasks := AList.delete instance_id (tasks s),
          instance_meta := (instance_meta s)(instance_id := None),
          instance_children := AList.delete instance_id children,
          pauses := (pauses s)(instance_id := None),
          pause_released := (pause_released s)(instance_id := None)\<rparr>)"

section \<open>The tree of calls\<close>

text \<open>\<open>pending\<close> is the Python list reversed: its head is what \<open>pop\<close> takes.  The loop ends because an
  instance is expanded at most once and only finitely many have children.\<close>

function descendant_loop ::
    "(int set \<Rightarrow> int list) \<Rightarrow> (int \<times> int set) list \<Rightarrow> int list \<Rightarrow> int set \<Rightarrow> int list \<Rightarrow> int list" where
  "descendant_loop ord children [] seen expanded = expanded"
| "descendant_loop ord children (instance_id # pending) seen expanded =
    (if instance_id \<in> seen then descendant_loop ord children pending seen expanded
     else descendant_loop ord children
            (case map_of children instance_id of
               None \<Rightarrow> pending
             | Some kids \<Rightarrow> rev (ord kids) @ pending)
            (insert instance_id seen) (expanded @ [instance_id]))"
  by pat_completeness auto

termination
proof (relation "measures [\<lambda>(ord, children, pending, seen, expanded). card (fst ` set children - seen),
    \<lambda>(ord, children, pending, seen, expanded). length pending]")
  show "((ord, children, case map_of children i of None \<Rightarrow> pending | Some kids \<Rightarrow> rev (ord kids) @ pending,
      insert i seen, expanded @ [i]), ord, children, i # pending, seen, expanded)
    \<in> measures [\<lambda>(ord, children, pending, seen, expanded). card (fst ` set children - seen),
        \<lambda>(ord, children, pending, seen, expanded). length pending]"
    if "i \<notin> seen" for ord :: "int set \<Rightarrow> int list" and children i pending seen expanded
  proof (cases "map_of children i")
    case None
    then have "i \<notin> fst ` set children" by (simp add: map_of_eq_None_iff)
    then have "fst ` set children - insert i seen = fst ` set children - seen" by blast
    with None show ?thesis by simp
  next
    case (Some kids)
    then have "i \<in> fst ` set children" by (force dest: map_of_SomeD)
    with that have "fst ` set children - insert i seen \<subset> fst ` set children - seen" by blast
    then have "card (fst ` set children - insert i seen) < card (fst ` set children - seen)"
      by (rule psubset_card_mono [rotated]) simp
    then show ?thesis by simp
  qed
qed auto

definition descendant_instance_ids ::
    "(int set \<Rightarrow> int list) \<Rightarrow> int list \<Rightarrow> MacroRuntimeState \<Rightarrow> int list" where
  "descendant_instance_ids ord instance_ids s =
    descendant_loop ord (instance_children s) (remdups instance_ids) {} []"

definition shown_name :: "MacroMeta option \<Rightarrow> string" where
  "shown_name meta =
    (case meta of None \<Rightarrow> ''<unnamed>''
     | Some m \<Rightarrow> if macro_name m = [] then ''<unnamed>'' else macro_name m)"

partial_function (option) ancestor_names ::
    "MacroRuntimeState \<Rightarrow> int \<Rightarrow> string list \<Rightarrow> string list option" where
  "ancestor_names s current names =
    (let meta = instance_meta s current; names' = names @ [shown_name meta]
     in case Option.bind meta parent_instance_id of
          None \<Rightarrow> Some names'
        | Some p \<Rightarrow> ancestor_names s p names')"

fun join_arrows :: "string list \<Rightarrow> string" where
  "join_arrows [] = []"
| "join_arrows [x] = x"
| "join_arrows (x # y # ys) = x @ '' -> '' @ join_arrows (y # ys)"

definition call_chain :: "MacroRuntimeState \<Rightarrow> int \<Rightarrow> string \<Rightarrow> string option" where
  "call_chain s instance_id child_name =
    (case ancestor_names s instance_id [] of
       None \<Rightarrow> None
     | Some names \<Rightarrow> Some (join_arrows (rev names @ (if child_name = [] then [] else [child_name]))))"

partial_function (option) call_chain_contains ::
    "MacroRuntimeState \<Rightarrow> int \<Rightarrow> string \<Rightarrow> bool option" where
  "call_chain_contains s current name =
    (let meta = instance_meta s current
     in if (case meta of None \<Rightarrow> [] | Some m \<Rightarrow> macro_name m) = name then Some True
        else case Option.bind meta parent_instance_id of
               None \<Rightarrow> Some False
             | Some p \<Rightarrow> call_chain_contains s p name)"

section \<open>Loops\<close>

definition LOOP_MODES :: "string set" where
  "LOOP_MODES = {''none'', ''count'', ''hold'', ''toggle''}"

definition normalize_loop_mode :: "string \<Rightarrow> string" where
  "normalize_loop_mode v =
    (let mode = py_lower (if v = [] then ''none'' else v) in if mode \<in> LOOP_MODES then mode else ''none'')"

record MacroLoopStateMachine =
  loop_mode_of :: string
  loop_count :: int
  iterations :: int
  still_active :: bool

definition new_loop :: "string \<Rightarrow> int \<Rightarrow> MacroLoopStateMachine" where
  "new_loop mode count =
    \<lparr>loop_mode_of = normalize_loop_mode mode, loop_count = max 1 count, iterations = 0, still_active = True\<rparr>"

definition begin_iteration :: "MacroLoopStateMachine \<Rightarrow> MacroLoopStateMachine" where
  "begin_iteration l = l\<lparr>iterations := iterations l + 1\<rparr>"

definition should_continue :: "MacroLoopStateMachine \<Rightarrow> bool" where
  "should_continue l =
    (if loop_mode_of l = ''count'' then iterations l < loop_count l
     else if loop_mode_of l = ''hold'' \<or> loop_mode_of l = ''toggle'' then still_active l
     else False)"

definition running_macro_instance_ids :: "MacroRuntimeState \<Rightarrow> int list" where
  "running_macro_instance_ids s = map fst (filter (\<lambda>(i, done). \<not> done) (tasks s))"

definition matches_source :: "string option \<Rightarrow> (string \<times> string) option \<Rightarrow> MacroMeta option \<Rightarrow> bool" where
  "matches_source mode source_key meta \<longleftrightarrow>
    (mode = None \<or> map_option loop_mode meta = mode)
    \<and> (source_key = None
        \<or> map_option (\<lambda>m. (source_device m, source_button m)) meta = source_key)"

definition find_matching_macro_instances ::
    "string option \<Rightarrow> (string \<times> string) option \<Rightarrow> MacroRuntimeState \<Rightarrow> int list" where
  "find_matching_macro_instances mode source_key s =
    map fst (filter (\<lambda>(i, done). \<not> done \<and> i \<notin> cancel_instance_ids s
      \<and> matches_source mode source_key (instance_meta s i)) (tasks s))"

definition DEFAULT_MACRO_LOOP_STOP_BEHAVIOR :: string where
  "DEFAULT_MACRO_LOOP_STOP_BEHAVIOR = ''finish_run''"

definition MACRO_LOOP_STOP_BEHAVIORS :: "string set" where
  "MACRO_LOOP_STOP_BEHAVIORS = {''cancel_run'', ''finish_run'', ''pause_run''}"

definition normalize_macro_loop_stop_behavior :: "string \<Rightarrow> string" where
  "normalize_macro_loop_stop_behavior v =
    (let behavior = py_lower (if v = [] then DEFAULT_MACRO_LOOP_STOP_BEHAVIOR else v)
     in if behavior \<in> MACRO_LOOP_STOP_BEHAVIORS then behavior else DEFAULT_MACRO_LOOP_STOP_BEHAVIOR)"

definition loop_stop_of :: "MacroRuntimeState \<Rightarrow> int \<Rightarrow> string" where
  "loop_stop_of s i =
    normalize_macro_loop_stop_behavior
      (case instance_meta s i of None \<Rightarrow> DEFAULT_MACRO_LOOP_STOP_BEHAVIOR | Some m \<Rightarrow> loop_stop_behavior m)"

fun plan_loop ::
    "(int \<Rightarrow> string) \<Rightarrow> int list \<Rightarrow> int list \<Rightarrow> int list \<Rightarrow> int list \<times> int list" where
  "plan_loop stop [] cancel_ids finish_ids = (cancel_ids, finish_ids)"
| "plan_loop stop (i # is) cancel_ids finish_ids =
    (if stop i = ''cancel_run'' then plan_loop stop is (cancel_ids @ [i]) finish_ids
     else plan_loop stop is cancel_ids (finish_ids @ [i]))"

definition plan_loop_stop :: "MacroRuntimeState \<Rightarrow> int list \<Rightarrow> int list \<times> int list" where
  "plan_loop_stop s instance_ids = plan_loop (loop_stop_of s) instance_ids [] []"

definition mark_loop_instances_stopping :: "int list \<Rightarrow> MacroRuntimeState \<Rightarrow> MacroRuntimeState" where
  "mark_loop_instances_stopping instance_ids s =
    s\<lparr>instance_meta := fold (\<lambda>i m. case m i of None \<Rightarrow> m | Some meta \<Rightarrow> m(i \<mapsto> meta\<lparr>loop_active := False\<rparr>))
        instance_ids (instance_meta s)\<rparr>"

definition is_loop_instance_active :: "MacroRuntimeState \<Rightarrow> int \<Rightarrow> bool" where
  "is_loop_instance_active s i = (case instance_meta s i of None \<Rightarrow> True | Some m \<Rightarrow> loop_active m)"

section \<open>The invariant of the tree\<close>

definition child_of :: "MacroRuntimeState \<Rightarrow> int \<Rightarrow> int \<Rightarrow> bool" where
  "child_of s p c \<longleftrightarrow> Option.bind (instance_meta s c) parent_instance_id = Some p"

definition listed_child :: "MacroRuntimeState \<Rightarrow> int \<Rightarrow> int \<Rightarrow> bool" where
  "listed_child s p c \<longleftrightarrow> c \<in> get_set (map_of (instance_children s)) p"

definition macro_tree_ok :: "MacroRuntimeState \<Rightarrow> bool" where
  "macro_tree_ok s \<longleftrightarrow>
    0 \<le> instance_seq s
    \<and> (\<forall>i. instance_meta s i \<noteq> None \<longrightarrow> 1 \<le> i \<and> i \<le> instance_seq s)
    \<and> (\<forall>p c. child_of s p c \<longrightarrow> 1 \<le> p \<and> p < c)
    \<and> (\<forall>p c. listed_child s p c \<longrightarrow> child_of s p c)
    \<and> (\<forall>p c. child_of s p c \<longrightarrow> instance_meta s p \<noteq> None \<longrightarrow> listed_child s p c)
    \<and> (\<forall>p \<in> fst ` set (instance_children s). 1 \<le> p \<and> p \<le> instance_seq s)
    \<and> (\<forall>p. finite (get_set (map_of (instance_children s)) p))
    \<and> (\<forall>i m. instance_meta s i = Some m \<longrightarrow> parent_instance_id m = None \<longrightarrow> root_instance_id m = i)
    \<and> (\<forall>i p m n. instance_meta s i = Some m \<longrightarrow> parent_instance_id m = Some p \<longrightarrow> instance_meta s p = Some n \<longrightarrow>
         root_instance_id m = root_instance_id n)"

lemma macro_treeD:
  assumes "macro_tree_ok s"
  shows "0 \<le> instance_seq s"
    and "instance_meta s i \<noteq> None \<Longrightarrow> 1 \<le> i \<and> i \<le> instance_seq s"
    and "child_of s p c \<Longrightarrow> 1 \<le> p \<and> p < c"
    and "listed_child s p c \<Longrightarrow> child_of s p c"
    and "child_of s p c \<Longrightarrow> instance_meta s p \<noteq> None \<Longrightarrow> listed_child s p c"
    and "p \<in> fst ` set (instance_children s) \<Longrightarrow> 1 \<le> p \<and> p \<le> instance_seq s"
    and "finite (get_set (map_of (instance_children s)) p)"
    and "instance_meta s i = Some m \<Longrightarrow> parent_instance_id m = None \<Longrightarrow> root_instance_id m = i"
    and "instance_meta s i = Some m \<Longrightarrow> parent_instance_id m = Some p \<Longrightarrow> instance_meta s p = Some n \<Longrightarrow>
         root_instance_id m = root_instance_id n"
proof -
  have a: "0 \<le> instance_seq s"
    "\<forall>i. instance_meta s i \<noteq> None \<longrightarrow> 1 \<le> i \<and> i \<le> instance_seq s"
    "\<forall>p c. child_of s p c \<longrightarrow> 1 \<le> p \<and> p < c"
    "\<forall>p c. listed_child s p c \<longrightarrow> child_of s p c"
    "\<forall>p c. child_of s p c \<longrightarrow> instance_meta s p \<noteq> None \<longrightarrow> listed_child s p c"
    "\<forall>p \<in> fst ` set (instance_children s). 1 \<le> p \<and> p \<le> instance_seq s"
    "\<forall>p. finite (get_set (map_of (instance_children s)) p)"
    "\<forall>i m. instance_meta s i = Some m \<longrightarrow> parent_instance_id m = None \<longrightarrow> root_instance_id m = i"
    "\<forall>i p m n. instance_meta s i = Some m \<longrightarrow> parent_instance_id m = Some p \<longrightarrow> instance_meta s p = Some n \<longrightarrow>
       root_instance_id m = root_instance_id n"
    using assms unfolding macro_tree_ok_def by - (elim conjE, assumption)+
  show "0 \<le> instance_seq s" by (rule a(1))
  show "instance_meta s i \<noteq> None \<Longrightarrow> 1 \<le> i \<and> i \<le> instance_seq s"
    by (rule a(2) [rule_format])
  show "child_of s p c \<Longrightarrow> 1 \<le> p \<and> p < c" by (rule a(3) [THEN spec, THEN spec, THEN mp])
  show "listed_child s p c \<Longrightarrow> child_of s p c" by (rule a(4) [rule_format])
  show "child_of s p c \<Longrightarrow> instance_meta s p \<noteq> None \<Longrightarrow> listed_child s p c"
    by (rule a(5) [rule_format])
  show "p \<in> fst ` set (instance_children s) \<Longrightarrow> 1 \<le> p \<and> p \<le> instance_seq s"
    by (rule a(6) [rule_format])
  show "finite (get_set (map_of (instance_children s)) p)" by (rule a(7) [rule_format])
  show "instance_meta s i = Some m \<Longrightarrow> parent_instance_id m = None \<Longrightarrow> root_instance_id m = i"
    by (rule a(8) [rule_format])
  show "instance_meta s i = Some m \<Longrightarrow> parent_instance_id m = Some p \<Longrightarrow> instance_meta s p = Some n \<Longrightarrow>
         root_instance_id m = root_instance_id n"
    by (rule a(9) [rule_format])
qed

lemma child_of_live: "child_of s p c \<Longrightarrow> instance_meta s c \<noteq> None"
  by (cases "instance_meta s c") (simp_all add: child_of_def)

lemma macro_tree_init: "macro_tree_ok initial_macro_state"
  by (simp add: macro_tree_ok_def initial_macro_state_def child_of_def listed_child_def get_set_def)

lemma macro_tree_cong:
  assumes "macro_tree_ok s"
    and "instance_meta s' = instance_meta s" "instance_seq s' = instance_seq s"
      "instance_children s' = instance_children s"
  shows "macro_tree_ok s'"
  using assms(1) unfolding macro_tree_ok_def child_of_def listed_child_def assms(2-4) .

lemma get_set_update: "get_set (m(k \<mapsto> S)) j = (if j = k then S else get_set m j)"
  by (simp add: get_set_def)

lemma get_set_remove: "get_set (m(k := None)) j = (if j = k then {} else get_set m j)"
  by (simp add: get_set_def)

lemma map_of_fresh: "k \<notin> fst ` set d \<Longrightarrow> get_set (map_of d) k = {}"
  by (simp add: get_set_def map_of_eq_None_iff [THEN iffD2])

lemma allocate_fields:
  assumes "macro_tree_ok s" and "\<forall>p. parent = Some p \<longrightarrow> 1 \<le> p \<and> p \<le> instance_seq s"
    and "allocate_instance mode key name stop parent s = (s', i)"
  shows "i = instance_seq s + 1" "instance_seq s' = i" "instance_meta s i = None"
    and "listed_child s' p c \<longleftrightarrow> listed_child s p c \<or> (parent = Some p \<and> c = i)"
    and "child_of s' p c \<longleftrightarrow> child_of s p c \<or> (parent = Some p \<and> c = i)"
    and "\<exists>m. instance_meta s' = (instance_meta s)(i \<mapsto> m) \<and> parent_instance_id m = parent
      \<and> root_instance_id m = parent_root s parent i"
    and "fst ` set (instance_children s') = fst ` set (instance_children s) \<union> {i} \<union> set_option parent"
proof -
  show i: "i = instance_seq s + 1" and seq: "instance_seq s' = i"
    using assms(3) by (auto simp: allocate_instance_def Let_def)
  show new: "instance_meta s i = None"
    using macro_treeD(2) [OF assms(1), of i] by (cases "instance_meta s i") (simp_all add: i)
  have "i \<notin> fst ` set (instance_children s)"
    using macro_treeD(6) [OF assms(1), of i] by (auto simp: i)
  then have empty: "get_set (map_of (instance_children s)) i = {}" by (rule map_of_fresh)
  have kids: "instance_children s' = (case parent of None \<Rightarrow> AList.update i {} (instance_children s)
      | Some p \<Rightarrow> AList.update p (insert i (get_set (map_of (AList.update i {} (instance_children s))) p))
          (AList.update i {} (instance_children s)))"
  proof -
    have "instance_children s' = instance_children (fst (allocate_instance mode key name stop parent s))"
      by (simp add: assms(3))
    then show ?thesis by (simp add: i allocate_instance_def Let_def split: option.split)
  qed
  show "listed_child s' p c \<longleftrightarrow> listed_child s p c \<or> (parent = Some p \<and> c = i)"
  proof (cases parent)
    case None
    then show ?thesis using empty by (simp add: listed_child_def kids get_set_update)
  next
    case (Some q)
    then have "q \<noteq> i" using assms(2) i by auto
    then show ?thesis using empty by (auto simp: listed_child_def kids get_set_update Some)
  qed
  have "instance_meta s' = instance_meta (fst (allocate_instance mode key name stop parent s))"
    by (simp add: assms(3))
  then have m: "instance_meta s' = (instance_meta s)(i \<mapsto> new_meta mode key name stop parent (parent_root s parent i))"
    by (simp add: i allocate_instance_def Let_def)
  show meta: "\<exists>m. instance_meta s' = (instance_meta s)(i \<mapsto> m) \<and> parent_instance_id m = parent
      \<and> root_instance_id m = parent_root s parent i"
    by (rule exI [where x = "new_meta mode key name stop parent (parent_root s parent i)"])
       (simp add: m new_meta_def)
  then show "child_of s' p c \<longleftrightarrow> child_of s p c \<or> (parent = Some p \<and> c = i)"
    using new by (cases "c = i") (auto simp: child_of_def)
  show "fst ` set (instance_children s') = fst ` set (instance_children s) \<union> {i} \<union> set_option parent"
    unfolding kids by (cases parent) auto
qed

lemma allocate_tree:
  assumes "macro_tree_ok s" and "\<forall>p. parent = Some p \<longrightarrow> 1 \<le> p \<and> p \<le> instance_seq s"
    and "allocate_instance mode key name stop parent s = (s', i)"
  shows "macro_tree_ok s'"
proof -
  note f = allocate_fields [OF assms]
  obtain m where m: "instance_meta s' = (instance_meta s)(i \<mapsto> m)" "parent_instance_id m = parent"
    "root_instance_id m = parent_root s parent i" using f(6) by blast
  note ok = macro_treeD [OF assms(1)]
  show ?thesis
    unfolding macro_tree_ok_def
  proof (intro conjI allI impI ballI)
    show "0 \<le> instance_seq s'" using ok(1) f(1,2) by simp
  next
    fix j assume "instance_meta s' j \<noteq> None"
    then have "1 \<le> j \<and> j \<le> instance_seq s'"
      using ok(1) ok(2) [of j] f(1,2) m(1) by (cases "j = i") auto
    then show "1 \<le> j" "j \<le> instance_seq s'" by simp_all
  next
    fix p c assume "child_of s' p c"
    then consider "child_of s p c" | "parent = Some p" "c = i" unfolding f(5) by blast
    then have "1 \<le> p \<and> p < c" using ok(3) f(1) assms(2) by cases auto
    then show "1 \<le> p" "p < c" by simp_all
  next
    fix p c assume "listed_child s' p c"
    then show "child_of s' p c" unfolding f(4,5) using ok(4) by blast
  next
    fix p c assume c: "child_of s' p c" "instance_meta s' p \<noteq> None"
    show "listed_child s' p c"
    proof (cases "child_of s p c")
      case True
      then have "c \<le> instance_seq s" using ok(2) child_of_live by blast
      moreover have "p < c" using ok(3) True by blast
      ultimately have "p \<noteq> i" using f(1) by simp
      with c(2) m(1) have "instance_meta s p \<noteq> None" by simp
      with True show ?thesis unfolding f(4) using ok(5) by blast
    next
      case False
      with c(1) show ?thesis unfolding f(4,5) by blast
    qed
  next
    fix p assume "p \<in> fst ` set (instance_children s')"
    then consider "p \<in> fst ` set (instance_children s)" | "p = i" | "parent = Some p" unfolding f(7) by auto
    then have "1 \<le> p \<and> p \<le> instance_seq s'"
      using ok(1) ok(6) [of p] f(1,2) assms(2) by cases auto
    then show "1 \<le> p" "p \<le> instance_seq s'" by simp_all
  next
    fix p
    have "get_set (map_of (instance_children s')) p \<subseteq> insert i (get_set (map_of (instance_children s)) p)"
      using f(4) by (auto simp: listed_child_def)
    then show "finite (get_set (map_of (instance_children s')) p)"
      by (rule finite_subset) (simp add: ok(7))
  next
    fix j n assume j: "instance_meta s' j = Some n" "parent_instance_id n = None"
    show "root_instance_id n = j"
    proof (cases "j = i")
      case True
      with j m show ?thesis by (simp add: parent_root_def)
    next
      case False
      with j m show ?thesis using ok(8) by simp
    qed
  next
    fix j p n n' assume j: "instance_meta s' j = Some n" "parent_instance_id n = Some p" "instance_meta s' p = Some n'"
    show "root_instance_id n = root_instance_id n'"
    proof (cases "j = i")
      case True
      then have "parent = Some p" using j(1,2) m by simp
      then have "p \<noteq> i" using assms(2) f(1) by simp
      then have "instance_meta s p = Some n'" using j(3) m(1) by simp
      then have "root_instance_id m = root_instance_id n'"
        using m(3) \<open>parent = Some p\<close> by (simp add: parent_root_def)
      then show ?thesis using True j(1) m(1) by simp
    next
      case False
      then have jm: "instance_meta s j = Some n" using j m(1) by simp
      then have "child_of s p j" using j(2) by (simp add: child_of_def)
      then have "p < j" "j \<le> instance_seq s" using ok(3) ok(2) [of j] jm by auto
      then have "instance_meta s p = Some n'" using j(3) m(1) f(1) by simp
      with jm j(2) show ?thesis using ok(9) by blast
    qed
  qed
qed

lemma macro_tree_meta:
  assumes ok: "macro_tree_ok s"
    and same: "instance_seq s' = instance_seq s" "instance_children s' = instance_children s"
    and meta: "\<And>i. map_option (\<lambda>m. (parent_instance_id m, root_instance_id m)) (instance_meta s' i)
      = map_option (\<lambda>m. (parent_instance_id m, root_instance_id m)) (instance_meta s i)"
  shows "macro_tree_ok s'"
proof -
  have live: "instance_meta s' i \<noteq> None \<longleftrightarrow> instance_meta s i \<noteq> None" for i
    using meta [of i] by (cases "instance_meta s i"; cases "instance_meta s' i") auto
  have some: "\<exists>n. instance_meta s i = Some n \<and> parent_instance_id n = parent_instance_id m
      \<and> root_instance_id n = root_instance_id m" if "instance_meta s' i = Some m" for i m
    using meta [of i] that by (cases "instance_meta s i") auto
  have child: "child_of s' p c \<longleftrightarrow> child_of s p c" for p c
    using meta [of c] by (cases "instance_meta s c"; cases "instance_meta s' c") (auto simp: child_of_def)
  have listed: "listed_child s' p c \<longleftrightarrow> listed_child s p c" for p c
    by (simp add: listed_child_def same)
  note okD = macro_treeD [OF ok]
  show ?thesis
    unfolding macro_tree_ok_def child listed same live
  proof (intro conjI allI impI ballI)
    fix i m assume m: "instance_meta s' i = Some m" "parent_instance_id m = None"
    from some [OF m(1)] obtain n where n: "instance_meta s i = Some n"
      "parent_instance_id n = parent_instance_id m" "root_instance_id n = root_instance_id m" by blast
    show "root_instance_id m = i" using okD(8) [OF n(1)] n(2,3) m(2) by simp
  next
    fix i p m k assume m: "instance_meta s' i = Some m" "parent_instance_id m = Some p" "instance_meta s' p = Some k"
    from some [OF m(1)] obtain n where n: "instance_meta s i = Some n"
      "parent_instance_id n = parent_instance_id m" "root_instance_id n = root_instance_id m" by blast
    from some [OF m(3)] obtain l where l: "instance_meta s p = Some l" "root_instance_id l = root_instance_id k" by blast
    show "root_instance_id m = root_instance_id k" using okD(9) [OF n(1) _ l(1)] n(2,3) m(2) l(2) by simp
  qed (use okD in simp_all)
qed

lemma released_meta_fields [simp]:
  "parent_instance_id (released_meta key now m) = parent_instance_id m"
  "root_instance_id (released_meta key now m) = root_instance_id m"
  by (simp_all add: released_meta_def)

lemma mark_source_released_tree: "macro_tree_ok s \<Longrightarrow> macro_tree_ok (mark_source_released key now s)"
  by (rule macro_tree_meta [of s]) (simp_all add: mark_source_released_def option.map_comp o_def)

lemma mark_stopping_meta:
  "map_option (\<lambda>m. (parent_instance_id m, root_instance_id m))
     (fold (\<lambda>i m. case m i of None \<Rightarrow> m | Some meta \<Rightarrow> m(i \<mapsto> meta\<lparr>loop_active := False\<rparr>)) is metas i)
   = map_option (\<lambda>m. (parent_instance_id m, root_instance_id m)) (metas i)"
  by (induction "is" arbitrary: metas) (auto split: option.splits)

lemma mark_stopping_tree: "macro_tree_ok s \<Longrightarrow> macro_tree_ok (mark_loop_instances_stopping is s)"
  by (rule macro_tree_meta [of s]) (simp_all add: mark_loop_instances_stopping_def mark_stopping_meta)

lemma forget_fields:
  "instance_meta (forget_instance i s) = (instance_meta s)(i := None)"
  "instance_seq (forget_instance i s) = instance_seq s"
  "fst ` set (instance_children (forget_instance i s)) \<subseteq> fst ` set (instance_children s)"
  "listed_child (forget_instance i s) p c \<longleftrightarrow>
    listed_child s p c \<and> p \<noteq> i \<and> \<not> (c = i \<and> child_of s p i)"
proof -
  show "instance_meta (forget_instance i s) = (instance_meta s)(i := None)"
    "instance_seq (forget_instance i s) = instance_seq s"
    by (simp_all add: forget_instance_def Let_def)
  show "fst ` set (instance_children (forget_instance i s)) \<subseteq> fst ` set (instance_children s)"
    by (auto simp: forget_instance_def Let_def dest: map_of_SomeD split: option.split intro: rev_image_eqI)
  show "listed_child (forget_instance i s) p c \<longleftrightarrow>
    listed_child s p c \<and> p \<noteq> i \<and> \<not> (c = i \<and> child_of s p i)"
  proof (cases "Option.bind (instance_meta s i) parent_instance_id")
    case None
    then show ?thesis
      by (simp add: listed_child_def child_of_def forget_instance_def Let_def get_set_remove)
  next
    case (Some q)
    show ?thesis
    proof (cases "map_of (instance_children s) q")
      case None
      then show ?thesis
        using Some by (auto simp: listed_child_def child_of_def forget_instance_def Let_def get_set_def)
    next
      case (Some S)
      with \<open>Option.bind (instance_meta s i) parent_instance_id = Some q\<close> show ?thesis
        by (auto simp: listed_child_def child_of_def forget_instance_def Let_def get_set_def)
    qed
  qed
qed

lemma forget_tree:
  assumes "macro_tree_ok s"
  shows "macro_tree_ok (forget_instance i s)"
proof -
  note okD = macro_treeD [OF assms]
  let ?s = "forget_instance i s"
  have child: "child_of ?s p c \<longleftrightarrow> child_of s p c \<and> c \<noteq> i" for p c
    by (simp add: child_of_def forget_fields)
  show ?thesis
    unfolding macro_tree_ok_def child forget_fields(2,4)
  proof (intro conjI allI impI ballI)
    show "0 \<le> instance_seq s" by (rule okD(1))
  next
    fix j assume "instance_meta ?s j \<noteq> None"
    then have "instance_meta s j \<noteq> None" by (simp add: forget_fields split: if_splits)
    then show "1 \<le> j" "j \<le> instance_seq s" using okD(2) by blast+
  next
    fix p c assume "child_of s p c \<and> c \<noteq> i"
    then show "1 \<le> p" "p < c" using okD(3) by blast+
  next
    fix p c assume "listed_child s p c \<and> p \<noteq> i \<and> \<not> (c = i \<and> child_of s p i)"
    then show "child_of s p c" "c \<noteq> i" using okD(4) by blast+
  next
    fix p c assume "child_of s p c \<and> c \<noteq> i" "instance_meta ?s p \<noteq> None"
    then show "listed_child s p c" "p \<noteq> i" "\<not> (c = i \<and> child_of s p i)"
      using okD(5) by (auto simp: forget_fields split: if_splits)
  next
    fix p assume "p \<in> fst ` set (instance_children ?s)"
    then have "p \<in> fst ` set (instance_children s)" using forget_fields(3) by blast
    then show "1 \<le> p" "p \<le> instance_seq s" using okD(6) by blast+
  next
    fix p
    have "get_set (map_of (instance_children ?s)) p \<subseteq> get_set (map_of (instance_children s)) p"
      using forget_fields(4) by (auto simp: listed_child_def)
    then show "finite (get_set (map_of (instance_children ?s)) p)"
      by (rule finite_subset) (rule okD(7))
  next
    fix j m assume m: "instance_meta ?s j = Some m" "parent_instance_id m = None"
    then have "instance_meta s j = Some m" by (simp add: forget_fields split: if_splits)
    then show "root_instance_id m = j" using m(2) by (rule okD(8))
  next
    fix j p m n assume m: "instance_meta ?s j = Some m" "parent_instance_id m = Some p" "instance_meta ?s p = Some n"
    then have "instance_meta s j = Some m" "instance_meta s p = Some n"
      by (simp_all add: forget_fields split: if_splits)
    then show "root_instance_id m = root_instance_id n" using m(2) by (intro okD(9))
  qed
qed

section \<open>Descendants and call chains\<close>

definition child_rel :: "(int \<times> int set) list \<Rightarrow> (int \<times> int) set" where
  "child_rel children = {(p, c). c \<in> get_set (map_of children) p}"

lemma descendant_loop_spec:
  assumes "set_iteration ord" and "\<forall>p. finite (get_set (map_of children) p)"
    and "set expanded = seen" "distinct expanded"
    and "child_rel children `` seen \<subseteq> seen \<union> set pending"
  shows "distinct (descendant_loop ord children pending seen expanded)
    \<and> seen \<union> set pending \<subseteq> set (descendant_loop ord children pending seen expanded)
    \<and> child_rel children `` set (descendant_loop ord children pending seen expanded)
        \<subseteq> set (descendant_loop ord children pending seen expanded)
    \<and> set (descendant_loop ord children pending seen expanded) \<subseteq> seen \<union> (child_rel children)\<^sup>* `` set pending"
  using assms
proof (induction ord children pending seen expanded rule: descendant_loop.induct)
  case (1 ord children seen expanded)
  then show ?case by simp
next
  case (2 ord children i pending seen expanded)
  show ?case
  proof (cases "i \<in> seen")
    case True
    then have "seen \<union> set (i # pending) = seen \<union> set pending" by auto
    with "2.IH"(1) [OF True] "2.prems" True show ?thesis by auto
  next
    case False
    let ?pending = "case map_of children i of None \<Rightarrow> pending | Some kids \<Rightarrow> rev (ord kids) @ pending"
    have fin: "finite (get_set (map_of children) i)" using "2.prems"(2) by simp
    have pend: "set ?pending = get_set (map_of children) i \<union> set pending"
    proof (cases "map_of children i")
      case (Some kids)
      with fin have "finite kids" by (simp add: get_set_def)
      then show ?thesis using set_iteration.set_it [OF "2.prems"(1)] Some by (simp add: get_set_def)
    qed (simp add: get_set_def)
    have kids: "child_rel children `` {i} = get_set (map_of children) i" by (auto simp: child_rel_def)
    let ?r = "descendant_loop ord children ?pending (insert i seen) (expanded @ [i])"
    have step: "child_rel children `` insert i seen \<subseteq> insert i seen \<union> set ?pending"
    proof -
      have "child_rel children `` insert i seen = child_rel children `` seen \<union> get_set (map_of children) i"
        using kids by blast
      then show ?thesis using "2.prems"(5) unfolding pend by auto
    qed
    have new: "set (expanded @ [i]) = insert i seen" "distinct (expanded @ [i])"
      using "2.prems"(3,4) False by auto
    note ih = "2.IH"(2) [OF False "2.prems"(1,2) new step]
    have "(child_rel children)\<^sup>* `` get_set (map_of children) i \<subseteq> (child_rel children)\<^sup>* `` {i}"
      unfolding kids [symmetric] by (auto intro: converse_rtrancl_into_rtrancl)
    then have reach: "(child_rel children)\<^sup>* `` set ?pending \<subseteq> (child_rel children)\<^sup>* `` set (i # pending)"
      unfolding pend by auto
    have "set ?r \<subseteq> seen \<union> (child_rel children)\<^sup>* `` set (i # pending)"
    proof
      fix x assume "x \<in> set ?r"
      then consider "x = i" | "x \<in> seen" | "x \<in> (child_rel children)\<^sup>* `` set ?pending" using ih by blast
      then show "x \<in> seen \<union> (child_rel children)\<^sup>* `` set (i # pending)"
        using reach by cases auto
    qed
    moreover have "seen \<union> set (i # pending) \<subseteq> set ?r" using ih pend by auto
    ultimately show ?thesis using ih False by simp
  qed
qed

lemma descendant_ids_spec:
  assumes "set_iteration ord" and "macro_tree_ok s"
  shows "distinct (descendant_instance_ids ord ids s)
    \<and> set (descendant_instance_ids ord ids s) = (child_rel (instance_children s))\<^sup>* `` set ids"
proof -
  let ?R = "child_rel (instance_children s)" and ?r = "descendant_instance_ids ord ids s"
  have "\<forall>p. finite (get_set (map_of (instance_children s)) p)"
    using macro_treeD(7) [OF assms(2)] by blast
  from descendant_loop_spec [OF assms(1) this, of "[]" "{}" "remdups ids"]
  have r: "distinct ?r" "set ids \<subseteq> set ?r" "?R `` set ?r \<subseteq> set ?r" "set ?r \<subseteq> ?R\<^sup>* `` set ids"
    by (simp_all add: descendant_instance_ids_def)
  have "?R\<^sup>* `` set ids \<subseteq> ?R\<^sup>* `` set ?r" using r(2) by blast
  also have "\<dots> = set ?r" using r(3) by (rule Image_closed_trancl)
  finally show ?thesis using r(1,4) by blast
qed

text \<open>The lists of children and the metadata describe the same tree below a living instance.\<close>

lemma child_rel_live:
  assumes "macro_tree_ok s" and "instance_meta s p \<noteq> None"
  shows "(p, c) \<in> (child_rel (instance_children s))\<^sup>* \<longleftrightarrow> (child_of s)\<^sup>*\<^sup>* p c"
proof
  assume "(p, c) \<in> (child_rel (instance_children s))\<^sup>*"
  then show "(child_of s)\<^sup>*\<^sup>* p c"
  proof (induction rule: rtrancl_induct)
    case (step y z)
    then have "listed_child s y z" by (simp add: child_rel_def listed_child_def)
    then have "child_of s y z" by (rule macro_treeD(4) [OF assms(1)])
    with step.IH show ?case by (rule rtranclp.rtrancl_into_rtrancl)
  qed simp
next
  assume "(child_of s)\<^sup>*\<^sup>* p c"
  then have "(p, c) \<in> (child_rel (instance_children s))\<^sup>* \<and> instance_meta s c \<noteq> None"
  proof (induction rule: rtranclp_induct)
    case (step y z)
    then have "listed_child s y z" using macro_treeD(5) [OF assms(1)] by blast
    then have "(y, z) \<in> child_rel (instance_children s)" by (simp add: child_rel_def listed_child_def)
    with step show ?case using child_of_live by (blast intro: rtrancl_into_rtrancl)
  qed (simp add: assms(2))
  then show "(p, c) \<in> (child_rel (instance_children s))\<^sup>*" by simp
qed

text \<open>A call chain goes to older instances only, so following it ends; it lists the ancestors.\<close>

lemma ancestor_names_total:
  assumes "macro_tree_ok s"
  shows "\<exists>ns. ancestor_names s i names = Some (names @ ns)"
proof (induction "nat i" arbitrary: i names rule: less_induct)
  case less
  show ?case
  proof (cases "Option.bind (instance_meta s i) parent_instance_id")
    case None
    then show ?thesis by (subst ancestor_names.simps) simp
  next
    case (Some p)
    then have "child_of s p i" by (simp add: child_of_def)
    then have "1 \<le> p \<and> p < i" by (rule macro_treeD(3) [OF assms])
    then have "nat p < nat i" by simp
    from less.hyps [OF this, of "names @ [shown_name (instance_meta s i)]"] Some
    show ?thesis by (subst ancestor_names.simps) auto
  qed
qed

definition named :: "MacroRuntimeState \<Rightarrow> int \<Rightarrow> string \<Rightarrow> bool" where
  "named s i name \<longleftrightarrow> (case instance_meta s i of None \<Rightarrow> [] | Some m \<Rightarrow> macro_name m) = name"

lemma call_chain_contains_spec:
  assumes "macro_tree_ok s"
  shows "call_chain_contains s i name = Some (\<exists>a. (child_of s)\<^sup>*\<^sup>* a i \<and> named s a name)"
proof (induction "nat i" arbitrary: i rule: less_induct)
  case less
  have chain: "(\<exists>a. (child_of s)\<^sup>*\<^sup>* a i \<and> named s a name)
      \<longleftrightarrow> named s i name \<or> (\<exists>p a. child_of s p i \<and> (child_of s)\<^sup>*\<^sup>* a p \<and> named s a name)"
    by (metis rtranclp.simps)
  show ?case
  proof (cases "Option.bind (instance_meta s i) parent_instance_id")
    case None
    then show ?thesis
      unfolding chain by (subst call_chain_contains.simps) (simp add: child_of_def named_def Let_def)
  next
    case (Some p)
    then have c: "child_of s q i \<longleftrightarrow> q = p" for q by (auto simp: child_of_def)
    have "1 \<le> p \<and> p < i" using c macro_treeD(3) [OF assms] by blast
    then have "nat p < nat i" by simp
    from less.hyps [OF this] Some show ?thesis
      unfolding chain c by (subst call_chain_contains.simps) (simp add: named_def Let_def)
  qed
qed

end
