(* ===== verification/Macro_Outputs.thy ===== *)
theory Macro_Outputs
  imports Macro_State Json
begin

text \<open>
  The outputs of running macros: the routing of gamepad outputs (\<open>resolve\<close> of
  \<open>runtime/virtual_gamepads.py\<close>), what a macro event writes and which outputs its instance holds then
  (\<open>runtime/macro/outputs.py\<close>), and the cancellation of instances (\<open>runtime/macro/cleanup.py\<close>).

  An output device is a value of the type \<open>'u\<close>.  The record \<open>OutputState\<close> is what the code finds
  outside the macro subsystem when it runs: the devices that exist, which of them have a writer and
  which raise \<open>OSError\<close> on a write.  Each operation answers the writes it makes.  The order in which
  Python iterates a set is a parameter.
\<close>

section \<open>Routing\<close>

record 'u OutputState =
  keyboard_uinput :: "'u option"
  mouse_uinput :: "'u option"
  gamepad_uinput :: "'u option"
  virtual_gamepad_uinputs :: "(string \<times> 'u option) list"
  virtual_device_specs :: "string set"
  physical_gamepads :: "string \<rightharpoonup> 'u"
  has_writer :: "'u \<Rightarrow> bool"
  write_fails :: "'u \<Rightarrow> bool"

definition MAX_VIRTUAL_GAMEPADS :: int where
  "MAX_VIRTUAL_GAMEPADS = 4"

definition clamp_virtual_gamepad_count :: "json \<Rightarrow> int" where
  "clamp_virtual_gamepad_count v =
    (let count = (case py_int v of None \<Rightarrow> 1 | Some n \<Rightarrow> n) in max 0 (min MAX_VIRTUAL_GAMEPADS count))"

text \<open>\<open>None\<close> is the \<open>ValueError\<close> of an index out of range.\<close>

definition virtual_gamepad_output_id :: "int \<Rightarrow> string option" where
  "virtual_gamepad_output_id index =
    (if 1 \<le> index \<and> index \<le> MAX_VIRTUAL_GAMEPADS then Some (''virtual-gamepad-'' @ int_text index) else None)"

definition starts_with :: "string \<Rightarrow> string \<Rightarrow> bool" where
  "starts_with p s \<longleftrightarrow> take (length p) s = p"

definition is_virtual_gamepad_output_id :: "string \<Rightarrow> bool" where
  "is_virtual_gamepad_output_id output_id =
    (starts_with ''virtual-gamepad-'' output_id
     \<and> (case int_of_text (drop 16 output_id) of
          None \<Rightarrow> False
        | Some index \<Rightarrow> virtual_gamepad_output_id index = Some output_id))"

text \<open>Only the device and the class under which its outputs are tracked are modelled: a cached target
  has the same two.\<close>

definition gamepad_device :: "'u OutputState \<Rightarrow> string \<Rightarrow> 'u option" where
  "gamepad_device env resolved_id =
    (if resolved_id \<in> fst ` set (virtual_gamepad_uinputs env)
        \<or> resolved_id \<in> virtual_device_specs env \<or> is_virtual_gamepad_output_id resolved_id
     then Option.bind (map_of (virtual_gamepad_uinputs env) resolved_id) id
     else physical_gamepads env resolved_id)"

definition resolve_gamepad_output :: "'u OutputState \<Rightarrow> string option \<Rightarrow> ('u \<times> string) option" where
  "resolve_gamepad_output env output_id =
    (let wanted = py_strip (case output_id of None \<Rightarrow> ''virtual-gamepad-1''
                            | Some t \<Rightarrow> if t = [] then ''virtual-gamepad-1'' else t);
         resolved_id = (if wanted = [] then ''virtual-gamepad-1'' else wanted)
     in map_option (\<lambda>u. (u, ''gamepad:'' @ resolved_id)) (gamepad_device env resolved_id))"

definition gamepad_output_class :: "string \<Rightarrow> string option" where
  "gamepad_output_class device_class =
    (if device_class = ''gamepad'' then Some ''virtual-gamepad-1''
     else if starts_with ''gamepad:'' device_class
     then (let output_id = py_strip (drop 8 device_class) in if output_id = [] then None else Some output_id)
     else None)"

definition EV_KEY :: int where "EV_KEY = 1"
definition EV_REL :: int where "EV_REL = 2"
definition EV_ABS :: int where "EV_ABS = 3"

text \<open>\<open>ABS_X\<close>, \<open>ABS_Y\<close>, \<open>ABS_Z\<close>, \<open>ABS_RX\<close>, \<open>ABS_RY\<close>, \<open>ABS_RZ\<close>, \<open>ABS_HAT0X\<close> and \<open>ABS_HAT0Y\<close>.\<close>

definition gamepad_abs_cleanup_codes :: "int set" where
  "gamepad_abs_cleanup_codes = {0, 1, 3, 4, 2, 5, 16, 17}"

definition writer_of :: "'u OutputState \<Rightarrow> 'u option \<Rightarrow> 'u option" where
  "writer_of env raw = (case raw of None \<Rightarrow> None | Some u \<Rightarrow> if has_writer env u then Some u else None)"

definition macro_target ::
    "'u OutputState \<Rightarrow> int \<Rightarrow> string \<Rightarrow> string option \<Rightarrow> ('u option \<times> string) option" where
  "macro_target env event_type device_type output_id =
    (if device_type = ''keyboard'' then Some (keyboard_uinput env, ''keyboard'')
     else if device_type = ''mouse'' then Some (mouse_uinput env, ''mouse'')
     else if device_type = ''gamepad''
     then map_option (\<lambda>(u, bucket). (Some u, bucket)) (resolve_gamepad_output env output_id)
     else if event_type = EV_KEY then Some (keyboard_uinput env, ''keyboard'')
     else if event_type = EV_REL \<or> event_type = EV_ABS then Some (mouse_uinput env, ''mouse'')
     else None)"

definition resolve_macro_output ::
    "'u OutputState \<Rightarrow> int \<Rightarrow> string \<Rightarrow> string option \<Rightarrow> ('u \<times> string) option" where
  "resolve_macro_output env event_type device_type output_id =
    (case macro_target env event_type device_type output_id of
       None \<Rightarrow> None
     | Some (raw, output_class) \<Rightarrow> map_option (\<lambda>u. (u, output_class)) (writer_of env raw))"

section \<open>Held outputs\<close>

text \<open>An instance starts or stops holding an output; the count of holders follows.\<close>

definition add_hold ::
    "int \<Rightarrow> output_key \<Rightarrow> (int \<rightharpoonup> output_key set) \<times> (output_key \<rightharpoonup> nat) \<Rightarrow>
     (int \<rightharpoonup> output_key set) \<times> (output_key \<rightharpoonup> nat)" where
  "add_hold i key = (\<lambda>(holds, counts).
    (let held = get_set holds i
     in if key \<in> held then (holds(i \<mapsto> held), counts)
        else (holds(i \<mapsto> insert key held),
              counts(key \<mapsto> (case counts key of None \<Rightarrow> 0 | Some n \<Rightarrow> n) + 1))))"

definition decrement :: "output_key \<Rightarrow> (output_key \<rightharpoonup> nat) \<Rightarrow> (output_key \<rightharpoonup> nat)" where
  "decrement key counts =
    (let count = (case counts key of None \<Rightarrow> 0 | Some n \<Rightarrow> n)
     in if count \<le> 1 then counts(key := None) else counts(key \<mapsto> count - 1))"

definition drop_hold ::
    "int \<Rightarrow> output_key \<Rightarrow> (int \<rightharpoonup> output_key set) \<times> (output_key \<rightharpoonup> nat) \<Rightarrow>
     (int \<rightharpoonup> output_key set) \<times> (output_key \<rightharpoonup> nat)" where
  "drop_hold i key = (\<lambda>(holds, counts).
    (let held = get_set holds i
     in if key \<notin> held then (holds, counts)
        else (holds(i \<mapsto> held - {key}), decrement key counts)))"

definition with_keys ::
    "((int \<rightharpoonup> output_key set) \<times> (output_key \<rightharpoonup> nat) \<Rightarrow> (int \<rightharpoonup> output_key set) \<times> (output_key \<rightharpoonup> nat)) \<Rightarrow>
     MacroRuntimeState \<Rightarrow> MacroRuntimeState" where
  "with_keys f s =
    (let (holds, counts) = f (instance_held s, held_refcount s)
     in s\<lparr>instance_held := holds, held_refcount := counts\<rparr>)"

definition with_axes ::
    "((int \<rightharpoonup> output_key set) \<times> (output_key \<rightharpoonup> nat) \<Rightarrow> (int \<rightharpoonup> output_key set) \<times> (output_key \<rightharpoonup> nat)) \<Rightarrow>
     MacroRuntimeState \<Rightarrow> MacroRuntimeState" where
  "with_axes f s =
    (let (holds, counts) = f (instance_held_abs s, held_abs_refcount s)
     in s\<lparr>instance_held_abs := holds, held_abs_refcount := counts\<rparr>)"

definition track_macro_key_press :: "int \<Rightarrow> string \<Rightarrow> int \<Rightarrow> MacroRuntimeState \<Rightarrow> MacroRuntimeState" where
  "track_macro_key_press i device_class code s = with_keys (add_hold i (device_class, code)) s"

definition track_macro_key_release :: "int \<Rightarrow> string \<Rightarrow> int \<Rightarrow> MacroRuntimeState \<Rightarrow> MacroRuntimeState" where
  "track_macro_key_release i device_class code s = with_keys (drop_hold i (device_class, code)) s"

text \<open>For an axis \<open>setdefault\<close> runs before the value is looked at.\<close>

definition ensure_held ::
    "int \<Rightarrow> (int \<rightharpoonup> output_key set) \<times> (output_key \<rightharpoonup> nat) \<Rightarrow>
     (int \<rightharpoonup> output_key set) \<times> (output_key \<rightharpoonup> nat)" where
  "ensure_held i = (\<lambda>(holds, counts). (holds(i \<mapsto> get_set holds i), counts))"

definition track_macro_abs_value ::
    "int \<Rightarrow> string \<Rightarrow> int \<Rightarrow> int \<Rightarrow> MacroRuntimeState \<Rightarrow> MacroRuntimeState" where
  "track_macro_abs_value i device_class code v s =
    (if gamepad_output_class device_class = None \<or> code \<notin> gamepad_abs_cleanup_codes then s
     else with_axes ((if v = 0 then drop_hold i (device_class, code) else add_hold i (device_class, code))
                       \<circ> ensure_held i) s)"

section \<open>Emitting and releasing\<close>

datatype 'u output_write = Write 'u int int int | Syn 'u

text \<open>The first component of the answer is the outcome: \<open>None\<close> when the writer raises, otherwise what
  \<open>emit_macro_event\<close> returns.\<close>

definition emit_macro_event ::
    "'u OutputState \<Rightarrow> int \<Rightarrow> int \<Rightarrow> int \<Rightarrow> int \<Rightarrow> string \<Rightarrow> string option \<Rightarrow> MacroRuntimeState \<Rightarrow>
     bool option \<times> MacroRuntimeState \<times> 'u output_write list" where
  "emit_macro_event env i event_type event_code event_value device_type output_id s =
    (case resolve_macro_output env event_type device_type output_id of
       None \<Rightarrow> (Some False, s, [])
     | Some (u, output_class) \<Rightarrow>
         (let key = (output_class, event_type, event_code);
              released = get_set (pause_released s) i;
              s' = (if key \<in> released
                    then s\<lparr>pause_released := (pause_released s)(i \<mapsto> released - {key})\<rparr> else s)
          in if key \<in> released \<and> event_value = 0 then (Some False, s', [])
             else if key \<in> released \<and> event_type = EV_KEY \<and> event_value = 2 then (Some False, s, [])
             else if write_fails env u then (None, s', [])
             else (Some True,
                   (if event_type = EV_KEY
                    then (if event_value = 1 then track_macro_key_press i output_class event_code s'
                          else if event_value = 0 then track_macro_key_release i output_class event_code s'
                          else s')
                    else if event_type = EV_ABS
                    then track_macro_abs_value i output_class event_code event_value s'
                    else s'),
                   [Write u event_type event_code event_value, Syn u])))"

definition cleanup_uinput :: "'u OutputState \<Rightarrow> string \<Rightarrow> 'u option" where
  "cleanup_uinput env device_class =
    (if device_class = ''keyboard'' then keyboard_uinput env
     else if device_class = ''mouse'' then mouse_uinput env
     else if device_class = ''gamepad'' then gamepad_uinput env
     else case map_of (map (\<lambda>(output_id, u). (''gamepad:'' @ output_id, u)) (virtual_gamepad_uinputs env))
                 device_class of
            Some u \<Rightarrow> u
          | None \<Rightarrow>
              (case gamepad_output_class device_class of
                 None \<Rightarrow> None
               | Some output_id \<Rightarrow> map_option fst (resolve_gamepad_output env (Some output_id))))"

text \<open>Releasing the outputs of a list, one after the other: an output another instance holds too is
  only counted down, the last holder's is also set to zero on its device.\<close>

fun release_outputs ::
    "'u OutputState \<Rightarrow> int \<Rightarrow> output_key list \<Rightarrow> (output_key \<rightharpoonup> nat) \<Rightarrow>
     (output_key \<rightharpoonup> nat) \<times> 'u output_write list \<times> string set" where
  "release_outputs env event_type [] counts = (counts, [], {})"
| "release_outputs env event_type ((device_class, code) # keys) counts =
    (let count = (case counts (device_class, code) of None \<Rightarrow> 0 | Some n \<Rightarrow> n);
         (counts', writes, synced) = release_outputs env event_type keys (decrement (device_class, code) counts)
     in if count > 1 then (counts', writes, synced)
        else case writer_of env (cleanup_uinput env device_class) of
               None \<Rightarrow> (counts', writes, synced)
             | Some u \<Rightarrow>
                 if write_fails env u then (counts', writes, synced)
                 else (counts', Write u event_type code 0 # writes, insert device_class synced))"

definition syn_writes :: "'u OutputState \<Rightarrow> string list \<Rightarrow> 'u output_write list" where
  "syn_writes env classes =
    map Syn (List.map_filter (\<lambda>c. writer_of env (cleanup_uinput env c)) classes)"

definition release_macro_held_for_instance ::
    "'u OutputState \<Rightarrow> (output_key set \<Rightarrow> output_key list) \<Rightarrow> (string set \<Rightarrow> string list) \<Rightarrow> int \<Rightarrow>
     MacroRuntimeState \<Rightarrow> MacroRuntimeState \<times> 'u output_write list" where
  "release_macro_held_for_instance env ord_keys ord_classes i s =
    (let held = get_set (instance_held s) i; held_abs = get_set (instance_held_abs s) i;
         (key_counts, key_writes, key_synced) = release_outputs env EV_KEY (ord_keys held) (held_refcount s);
         (abs_counts, abs_writes, abs_synced) = release_outputs env EV_ABS (ord_keys held_abs) (held_abs_refcount s)
     in (s\<lparr>instance_held := (instance_held s)(i := None), held_refcount := key_counts,
           instance_held_abs := (instance_held_abs s)(i := None), held_abs_refcount := abs_counts\<rparr>,
         key_writes @ abs_writes @ syn_writes env (ord_classes (key_synced \<union> abs_synced))))"

definition pause_macro_outputs ::
    "'u OutputState \<Rightarrow> (output_key set \<Rightarrow> output_key list) \<Rightarrow> (string set \<Rightarrow> string list) \<Rightarrow> int \<Rightarrow>
     MacroRuntimeState \<Rightarrow> MacroRuntimeState \<times> 'u output_write list" where
  "pause_macro_outputs env ord_keys ord_classes i s =
    (let released = get_set (pause_released s) i
           \<union> (\<lambda>(c, code). (c, EV_KEY, code)) ` get_set (instance_held s) i
           \<union> (\<lambda>(c, code). (c, EV_ABS, code)) ` get_set (instance_held_abs s) i
     in release_macro_held_for_instance env ord_keys ord_classes i
          (s\<lparr>pause_released := (pause_released s)(i \<mapsto> released)\<rparr>))"

section \<open>Cancelling\<close>

fun release_all ::
    "'u OutputState \<Rightarrow> (output_key set \<Rightarrow> output_key list) \<Rightarrow> (string set \<Rightarrow> string list) \<Rightarrow> int list \<Rightarrow>
     MacroRuntimeState \<Rightarrow> MacroRuntimeState \<times> 'u output_write list" where
  "release_all env ord_keys ord_classes [] s = (s, [])"
| "release_all env ord_keys ord_classes (i # is) s =
    (let (s1, w1) = release_macro_held_for_instance env ord_keys ord_classes i s;
         (s2, w2) = release_all env ord_keys ord_classes is s1
     in (s2, w1 @ w2))"

text \<open>The part of \<open>cancel_macro_instances\<close> before it waits for the cancelled tasks, with the list of
  instances it will forget; \<open>forget_all\<close> is the part after.\<close>

definition cancel_macro_instances ::
    "'u OutputState \<Rightarrow> (output_key set \<Rightarrow> output_key list) \<Rightarrow> (string set \<Rightarrow> string list) \<Rightarrow>
     (int set \<Rightarrow> int list) \<Rightarrow> int list \<Rightarrow> MacroRuntimeState \<Rightarrow>
     int list \<times> MacroRuntimeState \<times> 'u output_write list" where
  "cancel_macro_instances env ord_keys ord_classes ord_ids instance_ids s =
    (let unique_ids = descendant_instance_ids ord_ids instance_ids s
     in (unique_ids,
         release_all env ord_keys ord_classes unique_ids
           (s\<lparr>cancel_instance_ids := cancel_instance_ids s \<union> set unique_ids\<rparr>)))"

definition forget_all :: "int list \<Rightarrow> MacroRuntimeState \<Rightarrow> MacroRuntimeState" where
  "forget_all ids s = fold forget_instance ids s"

definition clear_pause_timeout :: "int \<Rightarrow> MacroRuntimeState \<Rightarrow> MacroRuntimeState" where
  "clear_pause_timeout i s =
    (case pauses s i of None \<Rightarrow> s | Some p \<Rightarrow> s\<lparr>pauses := (pauses s)(i \<mapsto> clear_timeout p)\<rparr>)"

fun expire_all ::
    "'u OutputState \<Rightarrow> (output_key set \<Rightarrow> output_key list) \<Rightarrow> (string set \<Rightarrow> string list) \<Rightarrow> int list \<Rightarrow>
     MacroRuntimeState \<Rightarrow> MacroRuntimeState \<times> 'u output_write list" where
  "expire_all env ord_keys ord_classes [] s = (s, [])"
| "expire_all env ord_keys ord_classes (i # is) s =
    (let (s1, w1) = release_macro_held_for_instance env ord_keys ord_classes i (clear_pause_timeout i s);
         s1' = (if map_of (tasks s1) i = Some False then s1 else forget_instance i s1);
         (s2, w2) = expire_all env ord_keys ord_classes is s1'
     in (s2, w1 @ w2))"

text \<open>A running task is cancelled; its instance is forgotten when the task is done.\<close>

definition expire_paused_instance ::
    "'u OutputState \<Rightarrow> (output_key set \<Rightarrow> output_key list) \<Rightarrow> (string set \<Rightarrow> string list) \<Rightarrow>
     (int set \<Rightarrow> int list) \<Rightarrow> int \<Rightarrow> MacroRuntimeState \<Rightarrow> MacroRuntimeState \<times> 'u output_write list" where
  "expire_paused_instance env ord_keys ord_classes ord_ids expired_id s =
    (if expired_id \<in> cancel_instance_ids s \<or> instance_meta s expired_id = None then (s, [])
     else (let ids = descendant_instance_ids ord_ids [expired_id] s
           in expire_all env ord_keys ord_classes ids
                (s\<lparr>cancel_instance_ids := cancel_instance_ids s \<union> set ids\<rparr>)))"

section \<open>Counting the holders\<close>

definition holders :: "(int \<rightharpoonup> output_key set) \<Rightarrow> output_key \<Rightarrow> int set" where
  "holders holds key = {i. key \<in> get_set holds i}"

definition count_of :: "(output_key \<rightharpoonup> nat) \<Rightarrow> output_key \<Rightarrow> nat" where
  "count_of counts key = (case counts key of None \<Rightarrow> 0 | Some n \<Rightarrow> n)"

text \<open>The counts are right when the outputs of \<open>pending\<close> each have one holder more than \<open>holds\<close> says.\<close>

definition counts_ok :: "(int \<rightharpoonup> output_key set) \<Rightarrow> (output_key \<rightharpoonup> nat) \<Rightarrow> output_key set \<Rightarrow> bool" where
  "counts_ok holds counts pending \<longleftrightarrow>
    (\<forall>k. counts k \<noteq> Some 0 \<and> count_of counts k = card (holders holds k) + (if k \<in> pending then 1 else 0))"

definition holds_ok :: "(int \<rightharpoonup> output_key set) \<Rightarrow> bool" where
  "holds_ok holds \<longleftrightarrow> finite (dom holds) \<and> (\<forall>i. finite (get_set holds i))"

lemma holders_finite: "holds_ok holds \<Longrightarrow> finite (holders holds k)"
  by (rule finite_subset [of _ "dom holds"]) (auto simp: holds_ok_def holders_def get_set_def split: option.splits)

lemma holds_ok_upd: "holds_ok holds \<Longrightarrow> finite S \<Longrightarrow> holds_ok (holds(i \<mapsto> S))"
  by (simp add: holds_ok_def get_set_update)

lemma holds_ok_remove: "holds_ok holds \<Longrightarrow> holds_ok (holds(i := None))"
  by (simp add: holds_ok_def get_set_remove)

lemma counts_okD:
  assumes "counts_ok holds counts pending"
  shows "counts k \<noteq> Some 0" and "count_of counts k = card (holders holds k) + (if k \<in> pending then 1 else 0)"
  using assms unfolding counts_ok_def by blast+

lemma counts_okI:
  assumes "\<And>k. counts k \<noteq> Some 0"
    and "\<And>k. count_of counts k = card (holders holds k) + (if k \<in> pending then 1 else 0)"
  shows "counts_ok holds counts pending"
  unfolding counts_ok_def using assms by blast

lemma count_of_upd: "count_of (counts(k \<mapsto> n)) j = (if j = k then n else count_of counts j)"
  by (simp add: count_of_def)

lemma count_of_decrement: "count_of (decrement k counts) j = (if j = k then count_of counts k - 1 else count_of counts j)"
  by (simp add: decrement_def Let_def count_of_def)

lemma decrement_nz: "counts j \<noteq> Some 0 \<Longrightarrow> decrement k counts j \<noteq> Some 0"
  by (auto simp: decrement_def Let_def)

lemma holders_insert:
  "holders (holds(i \<mapsto> insert key (get_set holds i))) k = (if k = key then insert i (holders holds k) else holders holds k)"
  by (auto simp: holders_def get_set_update)

lemma holders_delete:
  "holders (holds(i \<mapsto> get_set holds i - {key})) k = (if k = key then holders holds k - {i} else holders holds k)"
  by (auto simp: holders_def get_set_update)

lemma holders_same: "holders (holds(i \<mapsto> get_set holds i)) k = holders holds k"
  by (auto simp: holders_def get_set_update)

lemma add_hold_ok:
  assumes "holds_ok holds" "counts_ok holds counts {}" and "add_hold i key (holds, counts) = (holds', counts')"
  shows "holds_ok holds' \<and> counts_ok holds' counts' {}
    \<and> (\<forall>j. get_set holds' j = (if j = i then insert key (get_set holds i) else get_set holds j))
    \<and> dom holds' \<subseteq> insert i (dom holds)"
proof (cases "key \<in> get_set holds i")
  case True
  with assms(3) have e: "holds' = holds(i \<mapsto> get_set holds i)" "counts' = counts"
    by (auto simp: add_hold_def Let_def)
  have "finite (get_set holds i)" using assms(1) by (simp add: holds_ok_def)
  then show ?thesis
    using assms(1,2) True by (auto simp: e holds_ok_upd counts_ok_def holders_same get_set_update)
next
  case False
  with assms(3) have e: "holds' = holds(i \<mapsto> insert key (get_set holds i))" "counts' = counts(key \<mapsto> count_of counts key + 1)"
    by (auto simp: add_hold_def Let_def count_of_def)
  have fin: "finite (get_set holds i)" using assms(1) by (simp add: holds_ok_def)
  have "i \<notin> holders holds key" using False by (simp add: holders_def)
  then have "card (insert i (holders holds key)) = card (holders holds key) + 1"
    using holders_finite [OF assms(1)] by simp
  then have "counts_ok holds' counts' {}"
    using counts_okD [OF assms(2)] by (intro counts_okI) (simp_all add: e holders_insert count_of_upd)
  with fin assms(1) show ?thesis by (auto simp: e holds_ok_upd get_set_update)
qed

lemma drop_hold_ok:
  assumes "holds_ok holds" "counts_ok holds counts {}" and "drop_hold i key (holds, counts) = (holds', counts')"
  shows "holds_ok holds' \<and> counts_ok holds' counts' {}
    \<and> (\<forall>j. get_set holds' j = (if j = i then get_set holds i - {key} else get_set holds j))
    \<and> dom holds' \<subseteq> insert i (dom holds)"
proof (cases "key \<in> get_set holds i")
  case False
  with assms(3) have "holds' = holds" "counts' = counts" by (auto simp: drop_hold_def Let_def)
  with assms(1,2) False show ?thesis by auto
next
  case True
  with assms(3) have e: "holds' = holds(i \<mapsto> get_set holds i - {key})" "counts' = decrement key counts"
    by (auto simp: drop_hold_def Let_def)
  have fin: "finite (get_set holds i)" using assms(1) by (simp add: holds_ok_def)
  have "i \<in> holders holds key" using True by (simp add: holders_def)
  then have "card (holders holds key - {i}) = card (holders holds key) - 1"
    using holders_finite [OF assms(1)] by simp
  then have "counts_ok holds' counts' {}"
    using counts_okD [OF assms(2)] by (intro counts_okI) (simp_all add: e holders_delete count_of_decrement decrement_nz)
  with fin assms(1) show ?thesis by (auto simp: e holds_ok_upd get_set_update)
qed

lemma ensure_held_ok:
  assumes "holds_ok holds" "counts_ok holds counts {}" and "ensure_held i (holds, counts) = (holds', counts')"
  shows "holds_ok holds' \<and> counts_ok holds' counts' {} \<and> (\<forall>j. get_set holds' j = get_set holds j)
    \<and> dom holds' \<subseteq> insert i (dom holds)"
proof -
  have e: "holds' = holds(i \<mapsto> get_set holds i)" "counts' = counts" using assms(3) by (auto simp: ensure_held_def)
  have "finite (get_set holds i)" using assms(1) by (simp add: holds_ok_def)
  then show ?thesis
    using assms(1,2) by (auto simp: e holds_ok_upd counts_ok_def holders_same get_set_update)
qed

text \<open>An instance that lets go of everything: its outputs are pending until each is counted down.\<close>

lemma counts_ok_pop:
  assumes "holds_ok holds" "counts_ok holds counts {}"
  shows "counts_ok (holds(i := None)) counts (get_set holds i)"
  unfolding counts_ok_def
proof (intro allI conjI)
  fix k
  show "counts k \<noteq> Some 0" by (rule counts_okD(1) [OF assms(2)])
  have h: "holders (holds(i := None)) k = holders holds k - {i}" by (auto simp: holders_def get_set_remove)
  have i: "i \<in> holders holds k \<longleftrightarrow> k \<in> get_set holds i" by (simp add: holders_def)
  have c: "count_of counts k = card (holders holds k)" using counts_okD(2) [OF assms(2), of k] by simp
  show "count_of counts k = card (holders (holds(i := None)) k) + (if k \<in> get_set holds i then 1 else 0)"
  proof (cases "k \<in> get_set holds i")
    case True
    have "card (holders holds k) = Suc (card (holders holds k - {i}))"
      by (rule card.remove [OF holders_finite [OF assms(1)]]) (use True i in simp)
    then show ?thesis using True by (simp add: h c)
  next
    case False
    then show ?thesis using i by (simp add: h c)
  qed
qed

lemma release_counts:
  assumes "counts_ok holds counts (set keys)" and "distinct keys"
  shows "counts_ok holds (fst (release_outputs env t keys counts)) {}"
  using assms
proof (induction keys arbitrary: counts)
  case (Cons key keys)
  obtain c code where key: "key = (c, code)" by (cases key)
  have "counts_ok holds (decrement key counts) (set keys)"
  proof (rule counts_okI)
    fix k
    show "decrement key counts k \<noteq> Some 0" by (rule decrement_nz) (rule counts_okD(1) [OF Cons.prems(1)])
    show "count_of (decrement key counts) k = card (holders holds k) + (if k \<in> set keys then 1 else 0)"
      using counts_okD(2) [OF Cons.prems(1), of k] Cons.prems(2)
      by (cases "k = key") (simp_all add: count_of_decrement)
  qed
  then have "counts_ok holds (fst (release_outputs env t keys (decrement key counts))) {}"
    using Cons.IH Cons.prems(2) by simp
  moreover have "fst (release_outputs env t (key # keys) counts)
      = fst (release_outputs env t keys (decrement key counts))"
    by (cases "release_outputs env t keys (decrement key counts)") (simp add: key Let_def split: option.split)
  ultimately show ?case by simp
qed simp

end
