(* ===== verification/Macro_Runtime.thy ===== *)
theory Macro_Runtime
  imports Macro_Outputs
begin

text \<open>
  The macro subsystem as a state machine: every operation on its state, with the writes it makes,
  and the invariant that all of them keep.  The tree of calls is consistent, and the counts of
  holders agree with what the instances hold, for keys and for axes.  On devices that work, a key
  that is down is always held by an instance, so cancelling the instances leaves no key stuck.
\<close>

section \<open>Operations\<close>

datatype 'u macro_op =
    MAllocate string "string \<times> string" string string "int option"
  | MStart int
  | MTaskDone int
  | MEmit "'u OutputState" int int int int string "string option"
  | MPause "'u OutputState" int rat
  | MResume int rat
  | MRelease "'u OutputState" int
  | MCancel "'u OutputState" "int list"
  | MExpire "'u OutputState" int
  | MForget int
  | MSourceReleased "string \<times> string" rat
  | MStopLoops "int list"

record macro_orders =
  key_order :: "output_key set \<Rightarrow> output_key list"
  class_order :: "string set \<Rightarrow> string list"
  id_order :: "int set \<Rightarrow> int list"

definition orders_ok :: "macro_orders \<Rightarrow> bool" where
  "orders_ok ord \<longleftrightarrow> set_iteration (key_order ord) \<and> set_iteration (id_order ord)"

definition update_pause :: "(MacroPauseState \<Rightarrow> MacroPauseState) \<Rightarrow> int \<Rightarrow> MacroRuntimeState \<Rightarrow> MacroRuntimeState" where
  "update_pause f i s = s\<lparr>pauses := (pauses s)(i := map_option f (pauses s i))\<rparr>"

fun macro_step ::
    "macro_orders \<Rightarrow> MacroRuntimeState \<times> 'v output_write list \<Rightarrow> 'v macro_op \<Rightarrow>
     MacroRuntimeState \<times> 'v output_write list" where
  "macro_step ord (s, ws) (MAllocate mode key name stop parent) =
    (fst (allocate_instance mode key name stop parent s), ws)"
| "macro_step ord (s, ws) (MStart i) = (s\<lparr>tasks := AList.update i False (tasks s)\<rparr>, ws)"
| "macro_step ord (s, ws) (MTaskDone i) = (s\<lparr>tasks := AList.update i True (tasks s)\<rparr>, ws)"
| "macro_step ord (s, ws) (MEmit env i t c v d out) =
    (let (r, s', w) = emit_macro_event env i t c v d out s in (s', ws @ w))"
| "macro_step ord (s, ws) (MPause env i now) =
    (let (s', w) = pause_macro_outputs env (key_order ord) (class_order ord) i
           (update_pause (\<lambda>p. pause_at p now) i s)
     in (s', ws @ w))"
| "macro_step ord (s, ws) (MResume i now) = (update_pause (\<lambda>p. resume_at p now) i s, ws)"
| "macro_step ord (s, ws) (MRelease env i) =
    (let (s', w) = release_macro_held_for_instance env (key_order ord) (class_order ord) i s in (s', ws @ w))"
| "macro_step ord (s, ws) (MCancel env ids) =
    (let (unique_ids, s', w) =
           cancel_macro_instances env (key_order ord) (class_order ord) (id_order ord) ids s
     in (s', ws @ w))"
| "macro_step ord (s, ws) (MExpire env i) =
    (let (s', w) = expire_paused_instance env (key_order ord) (class_order ord) (id_order ord) i s
     in (s', ws @ w))"
| "macro_step ord (s, ws) (MForget i) = (forget_instance i s, ws)"
| "macro_step ord (s, ws) (MSourceReleased key now) = (mark_source_released key now s, ws)"
| "macro_step ord (s, ws) (MStopLoops ids) = (mark_loop_instances_stopping ids s, ws)"

text \<open>What the callers guarantee: a parent and the instance that emits have been allocated, and a key
  event is a press, a repeat or a release.\<close>

fun macro_guard :: "MacroRuntimeState \<times> 'v output_write list \<Rightarrow> 'v macro_op \<Rightarrow> bool" where
  "macro_guard (s, ws) (MAllocate mode key name stop parent) =
    (\<forall>p \<in> set_option parent. 1 \<le> p \<and> p \<le> instance_seq s)"
| "macro_guard (s, ws) (MEmit env i t c v d out) =
    (1 \<le> i \<and> i \<le> instance_seq s \<and> (t = EV_KEY \<longrightarrow> v = 0 \<or> v = 1 \<or> v = 2))"
| "macro_guard (s, ws) op = True"

section \<open>The invariant of the state\<close>

definition ledger_ok :: "int \<Rightarrow> (int \<rightharpoonup> output_key set) \<Rightarrow> (output_key \<rightharpoonup> nat) \<Rightarrow> bool" where
  "ledger_ok last_id holds counts \<longleftrightarrow>
    holds_ok holds \<and> counts_ok holds counts {} \<and> dom holds \<subseteq> {1..last_id}"

definition macro_inv :: "MacroRuntimeState \<Rightarrow> bool" where
  "macro_inv s \<longleftrightarrow> macro_tree_ok s
    \<and> ledger_ok (instance_seq s) (instance_held s) (held_refcount s)
    \<and> ledger_ok (instance_seq s) (instance_held_abs s) (held_abs_refcount s)"

text \<open>The outputs that two states hold are the same: the operations that only manage instances.\<close>

definition same_holds :: "MacroRuntimeState \<Rightarrow> MacroRuntimeState \<Rightarrow> bool" where
  "same_holds s s' \<longleftrightarrow> instance_held s' = instance_held s \<and> held_refcount s' = held_refcount s
    \<and> instance_held_abs s' = instance_held_abs s \<and> held_abs_refcount s' = held_abs_refcount s"

lemma macro_inv_same_holds:
  "macro_inv s \<Longrightarrow> same_holds s s' \<Longrightarrow> instance_seq s' = instance_seq s \<Longrightarrow> macro_tree_ok s' \<Longrightarrow> macro_inv s'"
  by (simp add: macro_inv_def same_holds_def)

lemma macro_invD:
  "macro_inv s \<Longrightarrow> macro_tree_ok s"
  "macro_inv s \<Longrightarrow> ledger_ok (instance_seq s) (instance_held s) (held_refcount s)"
  "macro_inv s \<Longrightarrow> ledger_ok (instance_seq s) (instance_held_abs s) (held_abs_refcount s)"
  by (simp_all add: macro_inv_def)

lemma ledger_init: "ledger_ok n Map.empty Map.empty"
proof -
  have h: "get_set (Map.empty :: int \<rightharpoonup> output_key set) i = {}" for i by (simp add: get_set_def)
  have "counts_ok Map.empty Map.empty {}"
    by (rule counts_okI) (simp_all add: count_of_def holders_def h)
  then show ?thesis by (simp add: ledger_ok_def holds_ok_def h)
qed

lemma macro_inv_init: "macro_inv initial_macro_state"
  using macro_tree_init ledger_init [of 0] by (simp add: macro_inv_def initial_macro_state_def)

lemma ledger_new:
  assumes "ledger_ok n holds counts" "0 \<le> n"
  shows "ledger_ok (n + 1) (holds(n + 1 \<mapsto> {})) counts"
proof -
  have "n + 1 \<notin> dom holds" using assms(1) by (auto simp: ledger_ok_def)
  then have g: "get_set (holds(n + 1 \<mapsto> {})) i = get_set holds i" for i
    by (auto simp: get_set_def)
  then have "holders (holds(n + 1 \<mapsto> {})) k = holders holds k" for k by (simp add: holders_def)
  with assms g show ?thesis
    by (auto simp: ledger_ok_def holds_ok_def counts_ok_def)
qed

lemma allocate_inv:
  assumes "macro_inv s" and "\<forall>p \<in> set_option parent. 1 \<le> p \<and> p \<le> instance_seq s"
    and "allocate_instance mode key name stop parent s = (s', i)"
  shows "macro_inv s'" and "get_set (instance_held s') j = get_set (instance_held s) j"
proof -
  have t: "macro_tree_ok s'"
    by (rule allocate_tree [OF macro_invD(1) [OF assms(1)] _ assms(3)]) (use assms(2) in auto)
  have "s' = fst (allocate_instance mode key name stop parent s)" by (simp add: assms(3))
  then have f: "instance_seq s' = instance_seq s + 1"
    "instance_held s' = (instance_held s)(instance_seq s + 1 \<mapsto> {})"
    "instance_held_abs s' = (instance_held_abs s)(instance_seq s + 1 \<mapsto> {})"
    "held_refcount s' = held_refcount s" "held_abs_refcount s' = held_abs_refcount s"
    by (simp_all add: allocate_instance_def Let_def)
  have n: "0 \<le> instance_seq s" by (rule macro_treeD(1) [OF macro_invD(1) [OF assms(1)]])
  show "macro_inv s'"
    using t ledger_new [OF macro_invD(2) [OF assms(1)] n] ledger_new [OF macro_invD(3) [OF assms(1)] n]
    by (simp add: macro_inv_def f)
  have "instance_seq s + 1 \<notin> dom (instance_held s)"
    using macro_invD(2) [OF assms(1)] by (auto simp: ledger_ok_def)
  then show "get_set (instance_held s') j = get_set (instance_held s) j"
    by (auto simp: f get_set_def)
qed

lemma ledger_within:
  assumes "ledger_ok n holds counts" "1 \<le> i" "i \<le> n"
    and "holds_ok holds' \<and> counts_ok holds' counts' {} \<and> P \<and> dom holds' \<subseteq> insert i (dom holds)"
  shows "ledger_ok n holds' counts'"
proof -
  have "dom holds \<subseteq> {1..n}" "i \<in> {1..n}" using assms(1-3) by (simp_all add: ledger_ok_def)
  then have "insert i (dom holds) \<subseteq> {1..n}" by simp
  with assms(4) have "dom holds' \<subseteq> {1..n}" by (meson subset_trans)
  with assms(4) show ?thesis by (simp add: ledger_ok_def)
qed

lemma ledger_okD: "ledger_ok n holds counts \<Longrightarrow> holds_ok holds" "ledger_ok n holds counts \<Longrightarrow> counts_ok holds counts {}"
  by (simp_all add: ledger_ok_def)

lemma ledger_add:
  assumes "ledger_ok n holds counts" "1 \<le> i" "i \<le> n" "add_hold i key (holds, counts) = (holds', counts')"
  shows "ledger_ok n holds' counts'"
  by (rule ledger_within [OF assms(1-3) add_hold_ok [OF ledger_okD [OF assms(1)] assms(4)]])

lemma ledger_drop:
  assumes "ledger_ok n holds counts" "1 \<le> i" "i \<le> n" "drop_hold i key (holds, counts) = (holds', counts')"
  shows "ledger_ok n holds' counts'"
  by (rule ledger_within [OF assms(1-3) drop_hold_ok [OF ledger_okD [OF assms(1)] assms(4)]])

lemma ledger_ensure:
  assumes "ledger_ok n holds counts" "1 \<le> i" "i \<le> n" "ensure_held i (holds, counts) = (holds', counts')"
  shows "ledger_ok n holds' counts'"
  by (rule ledger_within [OF assms(1-3) ensure_held_ok [OF ledger_okD [OF assms(1)] assms(4)]])

lemma ledger_release:
  assumes "ledger_ok n holds counts" "set_iteration ord"
  shows "ledger_ok n (holds(i := None)) (fst (release_outputs env t (ord (get_set holds i)) counts))"
proof -
  have h: "holds_ok holds" "counts_ok holds counts {}" "dom holds \<subseteq> {1..n}"
    using assms(1) by (simp_all add: ledger_ok_def)
  have "finite (get_set holds i)" using h(1) by (simp add: holds_ok_def)
  then have o: "set (ord (get_set holds i)) = get_set holds i" "distinct (ord (get_set holds i))"
    using set_iteration.set_it [OF assms(2)] set_iteration.distinct_it [OF assms(2)] by auto
  have "counts_ok (holds(i := None)) counts (set (ord (get_set holds i)))"
    unfolding o(1) by (rule counts_ok_pop [OF h(1,2)])
  from release_counts [OF this o(2)] holds_ok_remove [OF h(1)] h(3) show ?thesis
    by (auto simp: ledger_ok_def)
qed

lemma with_fields [simp]:
  "instance_meta (with_keys f s) = instance_meta s" "instance_meta (with_axes f s) = instance_meta s"
  "instance_seq (with_keys f s) = instance_seq s" "instance_seq (with_axes f s) = instance_seq s"
  "instance_children (with_keys f s) = instance_children s"
  "instance_children (with_axes f s) = instance_children s"
  "instance_held (with_axes f s) = instance_held s" "held_refcount (with_axes f s) = held_refcount s"
  "instance_held_abs (with_keys f s) = instance_held_abs s"
  "held_abs_refcount (with_keys f s) = held_abs_refcount s"
  by (simp_all add: with_keys_def with_axes_def split: prod.split)

lemma with_keys_inv:
  assumes "macro_inv s"
    and "\<And>holds counts. f (instance_held s, held_refcount s) = (holds, counts) \<Longrightarrow> ledger_ok (instance_seq s) holds counts"
  shows "macro_inv (with_keys f s)"
proof -
  obtain holds counts where f: "f (instance_held s, held_refcount s) = (holds, counts)" by fastforce
  have "macro_tree_ok (with_keys f s)" by (rule macro_tree_cong [OF macro_invD(1) [OF assms(1)]]) simp_all
  with assms(2) [OF f] macro_invD(3) [OF assms(1)] show ?thesis
    by (simp add: macro_inv_def) (simp add: with_keys_def f)
qed

lemma with_axes_inv:
  assumes "macro_inv s"
    and "\<And>holds counts. f (instance_held_abs s, held_abs_refcount s) = (holds, counts) \<Longrightarrow> ledger_ok (instance_seq s) holds counts"
  shows "macro_inv (with_axes f s)"
proof -
  obtain holds counts where f: "f (instance_held_abs s, held_abs_refcount s) = (holds, counts)" by fastforce
  have "macro_tree_ok (with_axes f s)" by (rule macro_tree_cong [OF macro_invD(1) [OF assms(1)]]) simp_all
  with assms(2) [OF f] macro_invD(2) [OF assms(1)] show ?thesis
    by (simp add: macro_inv_def) (simp add: with_axes_def f)
qed

lemma track_inv:
  assumes "macro_inv s" "1 \<le> i" "i \<le> instance_seq s"
  shows "macro_inv (track_macro_key_press i cl code s)" "macro_inv (track_macro_key_release i cl code s)"
    and "macro_inv (track_macro_abs_value i cl code v s)"
proof -
  show "macro_inv (track_macro_key_press i cl code s)"
    unfolding track_macro_key_press_def
    by (rule with_keys_inv [OF assms(1)]) (rule ledger_add [OF macro_invD(2) [OF assms(1)] assms(2,3)])
  show "macro_inv (track_macro_key_release i cl code s)"
    unfolding track_macro_key_release_def
    by (rule with_keys_inv [OF assms(1)]) (rule ledger_drop [OF macro_invD(2) [OF assms(1)] assms(2,3)])
  have "ledger_ok (instance_seq s) holds counts"
    if "((if v = 0 then drop_hold i (cl, code) else add_hold i (cl, code)) \<circ> ensure_held i)
          (instance_held_abs s, held_abs_refcount s) = (holds, counts)" for holds counts
  proof -
    obtain h c where e: "ensure_held i (instance_held_abs s, held_abs_refcount s) = (h, c)" by fastforce
    then have hc: "ledger_ok (instance_seq s) h c"
      by (rule ledger_ensure [OF macro_invD(3) [OF assms(1)] assms(2,3)])
    show ?thesis
      using that e ledger_drop [OF hc assms(2,3)] ledger_add [OF hc assms(2,3)] by (cases "v = 0") simp_all
  qed
  then show "macro_inv (track_macro_abs_value i cl code v s)"
    using assms(1) by (auto simp: track_macro_abs_value_def intro: with_axes_inv)
qed

lemma pause_released_inv: "macro_inv s \<Longrightarrow> macro_inv (s\<lparr>pause_released := m\<rparr>)"
  by (rule macro_inv_same_holds [of s]) (auto simp: same_holds_def intro: macro_tree_cong macro_invD(1))

lemma emit_inv:
  assumes "macro_inv s" "1 \<le> i" "i \<le> instance_seq s" "emit_macro_event env i t c v d out s = (r, s', w)"
  shows "macro_inv s'"
proof (cases "resolve_macro_output env t d out")
  case None
  with assms show ?thesis by (simp add: emit_macro_event_def)
next
  case (Some p)
  obtain u cl where p: "p = (u, cl)" by (cases p)
  define s1 where "s1 = (if (cl, t, c) \<in> get_set (pause_released s) i
      then s\<lparr>pause_released := (pause_released s)(i \<mapsto> get_set (pause_released s) i - {(cl, t, c)})\<rparr> else s)"
  have s1: "macro_inv s1" "i \<le> instance_seq s1"
    using assms(1,3) by (simp_all add: s1_def pause_released_inv)
  have "s' \<in> {s, s1, track_macro_key_press i cl c s1, track_macro_key_release i cl c s1,
      track_macro_abs_value i cl c v s1}"
    using assms(4) unfolding emit_macro_event_def Some p s1_def [symmetric] Let_def option.case prod.case
    by (auto split: if_splits)
  then show ?thesis using assms(1) track_inv [OF s1(1) assms(2) s1(2)] s1(1) by auto
qed

lemma release_fields:
  assumes "release_macro_held_for_instance env ok oc i s = (s', w)"
  shows "instance_meta s' = instance_meta s" "instance_seq s' = instance_seq s"
    "instance_children s' = instance_children s" "pause_released s' = pause_released s" "tasks s' = tasks s"
    "cancel_instance_ids s' = cancel_instance_ids s" "pauses s' = pauses s"
    "instance_held s' = (instance_held s)(i := None)" "instance_held_abs s' = (instance_held_abs s)(i := None)"
    "held_refcount s' = fst (release_outputs env EV_KEY (ok (get_set (instance_held s) i)) (held_refcount s))"
    "held_abs_refcount s' = fst (release_outputs env EV_ABS (ok (get_set (instance_held_abs s) i)) (held_abs_refcount s))"
  using assms by (auto simp: release_macro_held_for_instance_def Let_def split: prod.splits)

lemma release_inv:
  assumes "macro_inv s" "set_iteration ok" "release_macro_held_for_instance env ok oc i s = (s', w)"
  shows "macro_inv s'"
proof -
  note f = release_fields [OF assms(3)]
  have "macro_tree_ok s'" by (rule macro_tree_cong [OF macro_invD(1) [OF assms(1)]]) (simp_all add: f)
  then show ?thesis
    using ledger_release [OF macro_invD(2) [OF assms(1)] assms(2), where env = env and t = EV_KEY]
      ledger_release [OF macro_invD(3) [OF assms(1)] assms(2), where env = env and t = EV_ABS]
    by (simp add: macro_inv_def f)
qed

lemma release_all_inv:
  assumes "macro_inv s" "set_iteration ok" "release_all env ok oc is s = (s', w)"
  shows "macro_inv s' \<and> instance_seq s' = instance_seq s"
  using assms
proof (induction "is" arbitrary: s w)
  case (Cons i "is")
  obtain s1 w1 where 1: "release_macro_held_for_instance env ok oc i s = (s1, w1)" by fastforce
  obtain s2 w2 where 2: "release_all env ok oc is s1 = (s2, w2)" by fastforce
  from Cons.prems(3) 1 2 have "s' = s2" by simp
  with Cons.IH [OF release_inv [OF Cons.prems(1,2) 1] Cons.prems(2), of w2] 2 release_fields(2) [OF 1]
  show ?case by simp
qed simp

lemma update_pause_fields [simp]:
  "instance_meta (update_pause f i s) = instance_meta s" "instance_seq (update_pause f i s) = instance_seq s"
  "instance_children (update_pause f i s) = instance_children s" "same_holds s (update_pause f i s)"
  "pause_released (update_pause f i s) = pause_released s"
  by (simp_all add: update_pause_def same_holds_def)

lemma clear_pause_fields [simp]:
  "instance_meta (clear_pause_timeout i s) = instance_meta s" "instance_seq (clear_pause_timeout i s) = instance_seq s"
  "instance_children (clear_pause_timeout i s) = instance_children s" "same_holds s (clear_pause_timeout i s)"
  by (simp_all add: clear_pause_timeout_def same_holds_def split: option.split)

lemma forget_holds: "same_holds s (forget_instance i s)"
  by (simp add: forget_instance_def Let_def same_holds_def)

lemma mark_holds [simp]:
  "same_holds s (mark_source_released key now s)" "same_holds s (mark_loop_instances_stopping ids s)"
  "instance_seq (mark_source_released key now s) = instance_seq s"
  "instance_seq (mark_loop_instances_stopping ids s) = instance_seq s"
  by (simp_all add: mark_source_released_def mark_loop_instances_stopping_def same_holds_def)

lemma forget_inv: "macro_inv s \<Longrightarrow> macro_inv (forget_instance i s)"
  by (rule macro_inv_same_holds [OF _ forget_holds]) (simp_all add: forget_fields forget_tree macro_invD)

lemma unchanged_tree_inv:
  assumes "macro_inv s" "same_holds s s'" "instance_meta s' = instance_meta s"
    "instance_seq s' = instance_seq s" "instance_children s' = instance_children s"
  shows "macro_inv s'"
  by (rule macro_inv_same_holds [OF assms(1,2,4)]) (rule macro_tree_cong [OF macro_invD(1) [OF assms(1)] assms(3-5)])

lemma expire_all_inv:
  assumes "macro_inv s" "set_iteration ok" "expire_all env ok oc is s = (s', w)"
  shows "macro_inv s'"
  using assms
proof (induction "is" arbitrary: s w)
  case (Cons i "is")
  have c: "macro_inv (clear_pause_timeout i s)"
    by (rule unchanged_tree_inv [OF Cons.prems(1)]) simp_all
  obtain s1 w1 where 1: "release_macro_held_for_instance env ok oc i (clear_pause_timeout i s) = (s1, w1)" by fastforce
  define s1' where "s1' = (if map_of (tasks s1) i = Some False then s1 else forget_instance i s1)"
  obtain s2 w2 where 2: "expire_all env ok oc is s1' = (s2, w2)" by fastforce
  from Cons.prems(3) have "s' = s2" by (simp add: 1 s1'_def [symmetric] 2)
  have "macro_inv s1'"
    using release_inv [OF c Cons.prems(2) 1] by (simp add: s1'_def forget_inv)
  from Cons.IH [OF this Cons.prems(2)] 2 \<open>s' = s2\<close> show ?case by simp
qed simp

lemmas macro_inv_fst =
  release_inv [OF _ _ surjective_pairing] expire_all_inv [OF _ _ surjective_pairing]
  conjunct1 [OF release_all_inv [OF _ _ surjective_pairing]]

lemma cancel_ids_inv: "macro_inv s \<Longrightarrow> macro_inv (s\<lparr>cancel_instance_ids := C\<rparr>)"
  by (rule unchanged_tree_inv [of s]) (simp_all add: same_holds_def)

text \<open>The macro subsystem is a state machine with this invariant, whatever the devices do.\<close>

lemma macro_machine:
  assumes "orders_ok ord" "macro_inv (fst st)" "macro_guard st op"
  shows "macro_inv (fst (macro_step ord st op))"
proof -
  obtain s ws where st: "st = (s, ws)" by (cases st)
  have inv: "macro_inv s" and ord: "set_iteration (key_order ord)"
    using assms(1,2) by (simp_all add: st orders_ok_def)
  show ?thesis
  proof (cases op)
    case (MAllocate mode key name stop parent)
    then have "\<forall>p \<in> set_option parent. 1 \<le> p \<and> p \<le> instance_seq s" using assms(3) by (simp add: st)
    from allocate_inv(1) [OF inv this] show ?thesis
      by (simp add: st MAllocate) (metis prod.collapse)
  next
    case (MStart i)
    then show ?thesis by (simp add: st) (rule unchanged_tree_inv [OF inv], simp_all add: same_holds_def)
  next
    case (MTaskDone i)
    then show ?thesis by (simp add: st) (rule unchanged_tree_inv [OF inv], simp_all add: same_holds_def)
  next
    case (MEmit env i t c v d out)
    with assms(3) have "1 \<le> i" "i \<le> instance_seq s" by (simp_all add: st)
    from emit_inv [OF inv this] show ?thesis
      by (auto simp: st MEmit split: prod.split)
  next
    case (MPause env i now)
    have "macro_inv (update_pause (\<lambda>p. pause_at p now) i s)"
      by (rule unchanged_tree_inv [OF inv]) simp_all
    then show ?thesis
      using ord
      by (simp add: st MPause pause_macro_outputs_def Let_def case_prod_beta macro_inv_fst pause_released_inv)
  next
    case (MResume i now)
    then show ?thesis by (simp add: st) (rule unchanged_tree_inv [OF inv], simp_all)
  next
    case (MRelease env i)
    then show ?thesis using inv ord by (simp add: st case_prod_beta macro_inv_fst)
  next
    case (MCancel env ids)
    then show ?thesis
      using inv ord
      by (simp add: st cancel_macro_instances_def Let_def case_prod_beta macro_inv_fst cancel_ids_inv)
  next
    case (MExpire env i)
    then show ?thesis
      using inv ord
      by (simp add: st expire_paused_instance_def Let_def case_prod_beta macro_inv_fst cancel_ids_inv)
  next
    case (MForget i)
    then show ?thesis using forget_inv [OF inv] by (simp add: st)
  next
    case (MSourceReleased key now)
    have "macro_inv (mark_source_released key now s)"
      by (rule macro_inv_same_holds [OF inv]) (simp_all add: mark_source_released_tree macro_invD [OF inv])
    then show ?thesis by (simp add: st MSourceReleased)
  next
    case (MStopLoops ids)
    have "macro_inv (mark_loop_instances_stopping ids s)"
      by (rule macro_inv_same_holds [OF inv]) (simp_all add: mark_stopping_tree macro_invD [OF inv])
    then show ?thesis by (simp add: st MStopLoops)
  qed
qed

definition macro_start :: "MacroRuntimeState \<times> 'v output_write list" where
  "macro_start = (initial_macro_state, [])"

definition plain_orders :: "macro_orders" where
  "plain_orders = \<lparr>key_order = sorted_list_of_set, class_order = sorted_list_of_set, id_order = sorted_list_of_set\<rparr>"

lemma plain_orders_ok: "orders_ok plain_orders"
  by (simp add: orders_ok_def plain_orders_def sorted_iteration.set_iteration_axioms)

end
