(* ===== verification/Macro_Properties.thy ===== *)
theory Macro_Properties
  imports Macro_Runtime
begin

text \<open>
  The properties of the macro subsystem: termination and correctness of the walks over the call
  tree, the counts of holders, and the safety of the output devices.
\<close>

section \<open>Runs\<close>

fun op_env :: "'v macro_op \<Rightarrow> 'v OutputState option" where
  "op_env (MEmit env i t c v d out) = Some env"
| "op_env (MPause env i now) = Some env"
| "op_env (MRelease env i) = Some env"
| "op_env (MCancel env ids) = Some env"
| "op_env (MExpire env i) = Some env"
| "op_env op = None"

text \<open>Every device of \<open>env\<close> has a writer, and writing to it succeeds.\<close>

definition working :: "'v OutputState \<Rightarrow> bool" where
  "working env \<longleftrightarrow> (\<forall>u. has_writer env u \<and> \<not> write_fails env u)"

definition in_env :: "'v OutputState \<Rightarrow> 'v macro_op \<Rightarrow> bool" where
  "in_env env op \<longleftrightarrow> (case op_env op of None \<Rightarrow> True | Some e \<Rightarrow> e = env)"

section \<open>The keys of the devices\<close>

text \<open>A device's key is down after a write of 1 and up after a write of 0; a repeat changes nothing.\<close>

fun key_effect :: "'v output_write \<Rightarrow> ('v \<times> int) set \<Rightarrow> ('v \<times> int) set" where
  "key_effect (Syn u) down = down"
| "key_effect (Write u t code v) down =
    (if t \<noteq> EV_KEY \<or> v = 2 then down else if v = 0 then down - {(u, code)} else insert (u, code) down)"

definition keys_down :: "'v output_write list \<Rightarrow> ('v \<times> int) set" where
  "keys_down writes = fold key_effect writes {}"

text \<open>Every key that is down is held by an instance under a class whose device it is, or is still to be
  released.\<close>

definition covered ::
    "'v OutputState \<Rightarrow> (int \<rightharpoonup> output_key set) \<Rightarrow> output_key set \<Rightarrow> ('v \<times> int) set \<Rightarrow> bool" where
  "covered env holds pending down \<longleftrightarrow>
    (\<forall>u code. (u, code) \<in> down \<longrightarrow>
      (\<exists>c. cleanup_uinput env c = Some u
        \<and> ((c, code) \<in> pending \<or> (\<exists>i. (c, code) \<in> get_set holds i))))"

lemma coveredI:
  assumes "\<And>u code. (u, code) \<in> down \<Longrightarrow> \<exists>c. cleanup_uinput env c = Some u
        \<and> ((c, code) \<in> pending \<or> (\<exists>i. (c, code) \<in> get_set holds i))"
  shows "covered env holds pending down"
  using assms by (simp add: covered_def)

lemma coveredD:
  assumes "covered env holds pending down" "(u, code) \<in> down"
  shows "\<exists>c. cleanup_uinput env c = Some u \<and> ((c, code) \<in> pending \<or> (\<exists>i. (c, code) \<in> get_set holds i))"
  by (rule assms(1) [unfolded covered_def, rule_format, OF assms(2)])

lemma writer_working: "working env \<Longrightarrow> writer_of env raw = raw"
  by (simp add: writer_of_def working_def split: option.split)

lemma axis_writes_no_effect:
  "fold key_effect (fst (snd (release_outputs env EV_ABS keys counts))) down = down"
proof (induction keys arbitrary: counts down)
  case (Cons key keys)
  obtain c code where key: "key = (c, code)" by (cases key)
  obtain counts' ws synced where r: "release_outputs env EV_ABS keys (decrement key counts) = (counts', ws, synced)"
    by (rule prod_cases3)
  have "fold key_effect ws down' = down'" for down'
    using Cons.IH [of "decrement key counts" down'] r by simp
  moreover have "EV_ABS \<noteq> EV_KEY" by (simp add: EV_ABS_def EV_KEY_def)
  ultimately show ?case
    by (simp add: key Let_def r [unfolded key] split: option.split)
qed simp

lemma syn_writes_no_effect: "fold key_effect (syn_writes env cs) down = down"
proof -
  have "fold key_effect (map Syn xs) down = down" for xs :: "'a list" by (induction xs) simp_all
  then show ?thesis by (simp add: syn_writes_def)
qed

text \<open>Releasing the outputs an instance has let go of: each key that has no other holder goes up.\<close>

lemma release_covered:
  assumes "working env" "covered env holds (set keys) down" "counts_ok holds counts (set keys)" "distinct keys"
  shows "covered env holds {} (fold key_effect (fst (snd (release_outputs env EV_KEY keys counts))) down)"
  using assms(2-)
proof (induction keys arbitrary: counts down)
  case (Cons key keys)
  obtain c code where key: "key = (c, code)" by (cases key)
  let ?counts = "decrement key counts"
  have counts: "counts_ok holds ?counts (set keys)"
  proof (rule counts_okI)
    fix k
    show "?counts k \<noteq> Some 0" by (rule decrement_nz) (rule counts_okD(1) [OF Cons.prems(2)])
    show "count_of ?counts k = card (holders holds k) + (if k \<in> set keys then 1 else 0)"
      using counts_okD(2) [OF Cons.prems(2), of k] Cons.prems(3)
      by (cases "k = key") (simp_all add: count_of_decrement)
  qed
  have fewer: "covered env holds (set keys) down'"
    if "\<And>u. (u, code) \<in> down' \<Longrightarrow> cleanup_uinput env c = Some u \<Longrightarrow> \<exists>i. key \<in> get_set holds i" "down' \<subseteq> down"
    for down'
  proof (rule coveredI)
    fix u d assume d: "(u, d) \<in> down'"
    with that(2) have "(u, d) \<in> down" by blast
    from coveredD [OF Cons.prems(1) this] obtain c' where c': "cleanup_uinput env c' = Some u"
      "(c', d) \<in> set (key # keys) \<or> (\<exists>i. (c', d) \<in> get_set holds i)" by blast
    have "(c', d) \<in> set keys \<or> (\<exists>i. (c', d) \<in> get_set holds i)"
    proof (cases "(c', d) = key")
      case True
      then show ?thesis using that(1) [of u] d c'(1) by (auto simp: key)
    next
      case False
      then show ?thesis using c'(2) by simp
    qed
    with c'(1) show "\<exists>c. cleanup_uinput env c = Some u \<and> ((c, d) \<in> set keys \<or> (\<exists>i. (c, d) \<in> get_set holds i))"
      by blast
  qed
  obtain counts' ws synced where r: "release_outputs env EV_KEY keys ?counts = (counts', ws, synced)"
    by (rule prod_cases3)
  have ih: "covered env holds {} (fold key_effect ws down')" if "covered env holds (set keys) down'" for down'
    using Cons.IH [OF that counts] Cons.prems(3) r by simp
  let ?count = "case counts (c, code) of None \<Rightarrow> 0 | Some n \<Rightarrow> n"
  consider (shared) "?count > 1" | (gone) "\<not> ?count > 1" "cleanup_uinput env c = None"
    | (last) u where "\<not> ?count > 1" "cleanup_uinput env c = Some u" by (cases "cleanup_uinput env c") auto
  then show ?case
  proof cases
    case shared
    have "count_of counts key = card (holders holds key) + 1"
      using counts_okD(2) [OF Cons.prems(2), of key] by simp
    with shared have "card (holders holds key) \<noteq> 0" by (simp add: count_of_def key)
    then have "holders holds key \<noteq> {}" by auto
    then have "covered env holds (set keys) down" by (intro fewer) (auto simp: holders_def)
    from ih [OF this] shared show ?thesis by (simp add: key Let_def r [unfolded key])
  next
    case gone
    then have "covered env holds (set keys) down" by (intro fewer) auto
    from ih [OF this] gone show ?thesis
      by (simp add: key Let_def r [unfolded key] writer_working [OF assms(1)])
  next
    case (last u)
    then have "covered env holds (set keys) (down - {(u, code)})" by (intro fewer) auto
    from ih [OF this] last assms(1) show ?thesis
      by (simp add: key Let_def r [unfolded key] writer_working working_def)
  qed
qed simp


section \<open>Routing\<close>

lemma py_strip_resolved:
  assumes "resolve_gamepad_output env out = Some (u, cl)"
  obtains rid where "cl = ''gamepad:'' @ rid" "py_strip rid = rid" "rid \<noteq> []"
    "gamepad_device env rid = Some u"
proof -
  define wanted where "wanted = py_strip (case out of None \<Rightarrow> ''virtual-gamepad-1''
      | Some t \<Rightarrow> if t = [] then ''virtual-gamepad-1'' else t)"
  define rid where "rid = (if wanted = [] then ''virtual-gamepad-1'' else wanted)"
  have plain: "py_strip ''virtual-gamepad-1'' = ''virtual-gamepad-1''" by code_simp
  have "py_strip rid = rid" by (simp add: rid_def plain) (simp add: wanted_def)
  moreover have "rid \<noteq> []" by (simp add: rid_def)
  moreover have "gamepad_device env rid = Some u \<and> cl = ''gamepad:'' @ rid"
    using assms unfolding resolve_gamepad_output_def wanted_def [symmetric] rid_def [symmetric] Let_def
    by auto
  ultimately show ?thesis using that by blast
qed

lemma map_of_prefixed:
  "map_of (map (\<lambda>(output_id, u). (p @ output_id, u)) xs) (p @ k) = map_of xs k"
  by (induction xs) auto

lemma resolve_again:
  assumes "py_strip rid = rid" "rid \<noteq> []"
    "gamepad_device env rid = Some u"
  shows "resolve_gamepad_output env (Some rid) = Some (u, ''gamepad:'' @ rid)"
  using assms by (simp add: resolve_gamepad_output_def Let_def)

lemma gamepad_class_prefixed: "py_strip rid = rid \<Longrightarrow> rid \<noteq> [] \<Longrightarrow> gamepad_output_class (''gamepad:'' @ rid) = Some rid"
  by (simp add: gamepad_output_class_def starts_with_def)

text \<open>The class under which a macro holds a gamepad's outputs leads the cleanup to the same device.\<close>

lemma gamepad_cleanup:
  assumes res: "resolve_gamepad_output env out = Some (u, cl)"
  shows "cleanup_uinput env cl = Some u"
proof -
  obtain rid where cl: "cl = ''gamepad:'' @ rid" and rid: "py_strip rid = rid" "rid \<noteq> []" and
    dev: "gamepad_device env rid = Some u"
    by (rule py_strip_resolved [OF res])
  show ?thesis
  proof (cases "map_of (virtual_gamepad_uinputs env) rid")
    case (Some x)
    then have "rid \<in> fst ` set (virtual_gamepad_uinputs env)" by (force dest: map_of_SomeD)
    with dev Some have "x = Some u" by (simp add: gamepad_device_def)
    with Some rid(2) show ?thesis
      using map_of_prefixed [of "''gamepad:''" "virtual_gamepad_uinputs env" rid]
      by (simp add: cleanup_uinput_def cl)
  next
    case None
    with rid(2) show ?thesis
      using map_of_prefixed [of "''gamepad:''" "virtual_gamepad_uinputs env" rid]
        gamepad_class_prefixed [OF rid] resolve_again [OF rid dev]
      by (simp add: cleanup_uinput_def cl)
  qed
qed

lemma target_cleanup: "macro_target env t d out = Some (raw, cl) \<Longrightarrow> cleanup_uinput env cl = raw"
proof (cases "d = ''gamepad''")
  case True
  assume "macro_target env t d out = Some (raw, cl)"
  with True obtain u where "resolve_gamepad_output env out = Some (u, cl)" "raw = Some u"
    by (auto simp: macro_target_def)
  then show ?thesis by (simp add: gamepad_cleanup)
next
  case False
  assume t: "macro_target env t d out = Some (raw, cl)"
  from t False have "(raw, cl) = (keyboard_uinput env, ''keyboard'') \<or> (raw, cl) = (mouse_uinput env, ''mouse'')"
    unfolding macro_target_def
    by (simp split: if_split_asm)
  then show ?thesis by (elim disjE) (simp_all add: cleanup_uinput_def)
qed

lemma resolve_cleanup:
  assumes "resolve_macro_output env t d out = Some (u, cl)"
  shows "cleanup_uinput env cl = Some u"
proof -
  obtain raw where "macro_target env t d out = Some (raw, cl)" "writer_of env raw = Some u"
    using assms by (auto simp: resolve_macro_output_def split: option.splits)
  moreover from this(2) have "raw = Some u" by (auto simp: writer_of_def split: option.splits if_splits)
  ultimately show ?thesis using target_cleanup by blast
qed

section \<open>Devices that work\<close>

lemma track_holds:
  "get_set (instance_held (track_macro_key_press i cl c s)) j
    = (if j = i then insert (cl, c) (get_set (instance_held s) i) else get_set (instance_held s) j)"
  "get_set (instance_held (track_macro_key_release i cl c s)) j
    = (if j = i then get_set (instance_held s) i - {(cl, c)} else get_set (instance_held s) j)"
  "instance_held (track_macro_abs_value i cl c v s) = instance_held s"
  by (auto simp: track_macro_key_press_def track_macro_key_release_def track_macro_abs_value_def with_keys_def
      add_hold_def drop_hold_def Let_def get_set_update)

lemma emit_covered:
  assumes "working env" "covered env (instance_held s) {} down" "t = EV_KEY \<longrightarrow> v = 0 \<or> v = 1 \<or> v = 2"
    and "emit_macro_event env i t c v d out s = (r, s', w)"
  shows "covered env (instance_held s') {} (fold key_effect w down)"
proof (cases "resolve_macro_output env t d out")
  case None
  with assms show ?thesis by (simp add: emit_macro_event_def)
next
  case (Some p)
  obtain u cl where p: "p = (u, cl)" by (cases p)
  have dev: "cleanup_uinput env cl = Some u" by (rule resolve_cleanup [OF Some [unfolded p]])
  have ok: "\<not> write_fails env u" using assms(1) by (simp add: working_def)
  define s1 where "s1 = (if (cl, t, c) \<in> get_set (pause_released s) i
      then s\<lparr>pause_released := (pause_released s)(i \<mapsto> get_set (pause_released s) i - {(cl, t, c)})\<rparr> else s)"
  have s1: "instance_held s1 = instance_held s" by (simp add: s1_def)
  note e = assms(4) [unfolded emit_macro_event_def Some p s1_def [symmetric] Let_def option.case prod.case]
  consider (silent) "w = []" "s' = s \<or> s' = s1"
    | (press) "t = EV_KEY" "v = 1" "s' = track_macro_key_press i cl c s1" "w = [Write u t c v, Syn u]"
    | (release) "t = EV_KEY" "v = 0" "s' = track_macro_key_release i cl c s1" "w = [Write u t c v, Syn u]"
    | (other) "t \<noteq> EV_KEY \<or> v = 2" "instance_held s' = instance_held s1" "w = [Write u t c v, Syn u]"
  proof -
    have a: "instance_held (track_macro_abs_value i cl c v s1) = instance_held s1" by (rule track_holds(3))
    let ?rel = "(cl, t, c) \<in> get_set (pause_released s) i"
    show ?thesis
    proof (cases "?rel \<and> v = 0 \<or> ?rel \<and> t = EV_KEY \<and> v = 2")
      case True
      with e show ?thesis by (intro silent) (auto split: if_splits)
    next
      case False
      then have w: "w = [Write u t c v, Syn u]" and s': "s' = (if t = EV_KEY
          then (if v = 1 then track_macro_key_press i cl c s1
                else if v = 0 then track_macro_key_release i cl c s1 else s1)
          else if t = EV_ABS then track_macro_abs_value i cl c v s1 else s1)"
        using e ok by (auto split: if_splits)
      show ?thesis
      proof (cases "t = EV_KEY")
        case True
        then consider "v = 0" | "v = 1" | "v = 2" using assms(3) by blast
        then show ?thesis
        proof cases
          case 1 with True w s' show ?thesis by (intro release) simp_all
        next
          case 2 with True w s' show ?thesis by (intro press) simp_all
        next
          case 3 with True w s' show ?thesis by (intro other) simp_all
        qed
      next
        case False
        with w s' a show ?thesis by (intro other) simp_all
      qed
    qed
  qed
  then show ?thesis
  proof cases
    case silent
    with assms(2) s1 show ?thesis by auto
  next
    case press
    have "covered env (instance_held s') {} (insert (u, c) down)"
    proof (rule coveredI)
      fix u' c' assume "(u', c') \<in> insert (u, c) down"
      then consider "u' = u" "c' = c" | "(u', c') \<in> down" by blast
      then show "\<exists>b. cleanup_uinput env b = Some u'
          \<and> ((b, c') \<in> {} \<or> (\<exists>j. (b, c') \<in> get_set (instance_held s') j))"
      proof cases
        case 1
        with dev show ?thesis by (auto simp: press track_holds)
      next
        case 2
        from coveredD [OF assms(2) this] show ?thesis by (auto simp: press track_holds s1)
      qed
    qed
    then show ?thesis by (simp add: press)
  next
    case release
    have "covered env (instance_held s') {} (down - {(u, c)})"
    proof (rule coveredI)
      fix u' c' assume d: "(u', c') \<in> down - {(u, c)}"
      then have "(u', c') \<in> down" by blast
      from coveredD [OF assms(2) this] obtain b j where b: "cleanup_uinput env b = Some u'"
        "(b, c') \<in> get_set (instance_held s) j" by blast
      have "(b, c') \<noteq> (cl, c)" using d b(1) dev by auto
      with b show "\<exists>b. cleanup_uinput env b = Some u'
          \<and> ((b, c') \<in> {} \<or> (\<exists>j. (b, c') \<in> get_set (instance_held s') j))"
        by (auto simp: release track_holds s1)
    qed
    then show ?thesis by (simp add: release EV_KEY_def)
  next
    case other
    with assms(2) show ?thesis by (auto simp: s1)
  qed
qed

lemma release_instance_covered:
  assumes "working env" "set_iteration ok" "macro_inv s" "covered env (instance_held s) {} down"
    and "release_macro_held_for_instance env ok oc i s = (s', w)"
  shows "covered env (instance_held s') {} (fold key_effect w down)"
proof -
  let ?held = "get_set (instance_held s) i" and ?holds = "(instance_held s)(i := None)"
  note l = macro_invD(2) [OF assms(3)]
  have h: "holds_ok (instance_held s)" "counts_ok (instance_held s) (held_refcount s) {}"
    using ledger_okD [OF l] by blast+
  have "finite ?held" using h(1) by (simp add: holds_ok_def)
  then have o: "set (ok ?held) = ?held" "distinct (ok ?held)"
    using set_iteration.set_it [OF assms(2)] set_iteration.distinct_it [OF assms(2)] by auto
  have "covered env ?holds ?held down"
  proof (rule coveredI)
    fix u c assume "(u, c) \<in> down"
    from coveredD [OF assms(4) this]
    obtain b j where b: "cleanup_uinput env b = Some u" "(b, c) \<in> get_set (instance_held s) j" by blast
    then have "(b, c) \<in> ?held \<or> (b, c) \<in> get_set ?holds j" by (cases "j = i") (simp_all add: get_set_remove)
    with b(1) show "\<exists>b. cleanup_uinput env b = Some u \<and> ((b, c) \<in> ?held \<or> (\<exists>j. (b, c) \<in> get_set ?holds j))"
      by blast
  qed
  then have "covered env ?holds {} (fold key_effect
      (fst (snd (release_outputs env EV_KEY (ok ?held) (held_refcount s)))) down)"
    using release_covered [OF assms(1), of ?holds "ok ?held" down "held_refcount s"] o counts_ok_pop [OF h] by simp
  moreover have "w = fst (snd (release_outputs env EV_KEY (ok ?held) (held_refcount s)))
      @ fst (snd (release_outputs env EV_ABS (ok (get_set (instance_held_abs s) i)) (held_abs_refcount s)))
      @ syn_writes env (oc (snd (snd (release_outputs env EV_KEY (ok ?held) (held_refcount s)))
          \<union> snd (snd (release_outputs env EV_ABS (ok (get_set (instance_held_abs s) i)) (held_abs_refcount s)))))"
    using assms(5) by (simp add: release_macro_held_for_instance_def Let_def case_prod_beta)
  ultimately show ?thesis
    by (simp add: axis_writes_no_effect syn_writes_no_effect release_fields(8) [OF assms(5)])
qed

definition clean :: "'v OutputState \<Rightarrow> MacroRuntimeState \<times> 'v output_write list \<Rightarrow> bool" where
  "clean env st \<longleftrightarrow> macro_inv (fst st) \<and> covered env (instance_held (fst st)) {} (keys_down (snd st))"

lemma clean_same:
  "clean env (s, ws) \<Longrightarrow> macro_inv s' \<Longrightarrow> instance_held s' = instance_held s \<Longrightarrow> clean env (s', ws)"
  by (simp add: clean_def)

lemma keys_down_append: "keys_down (ws @ w) = fold key_effect w (keys_down ws)"
  by (simp add: keys_down_def)

lemma release_clean:
  assumes "working env" "set_iteration ok" "clean env (s, ws)"
    and "release_macro_held_for_instance env ok oc i s = (s', w)"
  shows "clean env (s', ws @ w)"
  using release_inv [OF _ assms(2,4)] release_instance_covered [OF assms(1,2) _ _ assms(4)] assms(3)
  by (simp add: clean_def keys_down_append)

lemma release_all_clean:
  assumes "working env" "set_iteration ok" "clean env (s, ws)" "release_all env ok oc is s = (s', w)"
  shows "clean env (s', ws @ w)
    \<and> (\<forall>j. get_set (instance_held s') j = (if j \<in> set is then {} else get_set (instance_held s) j))"
  using assms(3,4)
proof (induction "is" arbitrary: s ws w)
  case (Cons i "is")
  obtain s1 w1 where 1: "release_macro_held_for_instance env ok oc i s = (s1, w1)" by fastforce
  obtain s2 w2 where 2: "release_all env ok oc is s1 = (s2, w2)" by fastforce
  have e: "s' = s2" "w = w1 @ w2" using Cons.prems(2) 1 2 by simp_all
  have "clean env (s1, ws @ w1)" by (rule release_clean [OF assms(1,2) Cons.prems(1) 1])
  from Cons.IH [OF this 2 [folded e(1)]] show ?case
    by (simp add: e release_fields(8) [OF 1] get_set_remove)
qed simp

lemma expire_all_clean:
  assumes "working env" "set_iteration ok" "clean env (s, ws)" "expire_all env ok oc is s = (s', w)"
  shows "clean env (s', ws @ w)"
  using assms(3,4)
proof (induction "is" arbitrary: s ws w)
  case (Cons i "is")
  have "macro_inv s" using Cons.prems(1) by (simp add: clean_def)
  then have "macro_inv (clear_pause_timeout i s)" by (rule unchanged_tree_inv) simp_all
  moreover have "instance_held (clear_pause_timeout i s) = instance_held s"
    using clear_pause_fields(4) [of s i] by (simp add: same_holds_def)
  ultimately have c: "clean env (clear_pause_timeout i s, ws)" by (rule clean_same [OF Cons.prems(1)])
  obtain s1 w1 where 1: "release_macro_held_for_instance env ok oc i (clear_pause_timeout i s) = (s1, w1)" by fastforce
  define s1' where "s1' = (if map_of (tasks s1) i = Some False then s1 else forget_instance i s1)"
  obtain s2 w2 where 2: "expire_all env ok oc is s1' = (s2, w2)" by fastforce
  from Cons.prems(2) have e: "s' = s2" "w = w1 @ w2" by (simp_all add: 1 s1'_def [symmetric] 2)
  have r: "clean env (s1, ws @ w1)" by (rule release_clean [OF assms(1,2) c 1])
  have "instance_held s1' = instance_held s1"
    using forget_holds [of s1 i] by (simp add: s1'_def same_holds_def)
  moreover have "macro_inv s1'" using r by (simp add: s1'_def clean_def forget_inv)
  ultimately have "clean env (s1', ws @ w1)" using clean_same [OF r] by blast
  from Cons.IH [OF this 2 [folded e(1)]] show ?case by (simp add: e)
qed simp

lemma macro_clean_step:
  assumes "orders_ok ord" "working env" "clean env st" "macro_guard st op" "in_env env op"
  shows "clean env (macro_step ord st op)"
proof -
  obtain s ws where st: "st = (s, ws)" by (cases st)
  have ok: "set_iteration (key_order ord)" using assms(1) by (simp add: orders_ok_def)
  have inv: "macro_inv s" and cov: "covered env (instance_held s) {} (keys_down ws)"
    using assms(3) by (simp_all add: st clean_def)
  have inv': "macro_inv (fst (macro_step ord st op))"
    by (rule macro_machine [OF assms(1) _ assms(4)]) (simp add: st inv)
  have same: "clean env (macro_step ord st op)"
    if "snd (macro_step ord st op) = ws" "instance_held (fst (macro_step ord st op)) = instance_held s"
    using inv' cov that by (simp add: clean_def)
  have upd: "clean env (s\<lparr>cancel_instance_ids := C\<rparr>, ws)" for C
    using cancel_ids_inv [OF inv] cov by (simp add: clean_def)
  show ?thesis
  proof (cases op)
    case (MAllocate mode key name stop parent)
    obtain s' i where a: "allocate_instance mode key name stop parent s = (s', i)" by fastforce
    have "\<forall>p \<in> set_option parent. 1 \<le> p \<and> p \<le> instance_seq s" using assms(4) by (simp add: st MAllocate)
    note g = allocate_inv [OF inv this a]
    have "covered env (instance_held s') {} (keys_down ws)"
      using cov by (simp add: covered_def g(2))
    with g(1) show ?thesis by (simp add: st MAllocate a clean_def)
  next
    case (MStart i) then show ?thesis by (intro same) (simp_all add: st)
  next
    case (MTaskDone i) then show ?thesis by (intro same) (simp_all add: st)
  next
    case (MEmit e i t c v d out)
    with assms(5) have e: "e = env" by (simp add: in_env_def)
    obtain r s' w where em: "emit_macro_event env i t c v d out s = (r, s', w)" by (rule prod_cases3)
    have "covered env (instance_held s') {} (fold key_effect w (keys_down ws))"
      by (rule emit_covered [OF assms(2) cov _ em]) (use assms(4) in \<open>simp add: st MEmit\<close>)
    then show ?thesis using inv' by (simp add: st MEmit e em clean_def keys_down_append)
  next
    case (MPause e i now)
    with assms(5) have e: "e = env" by (simp add: in_env_def)
    let ?s = "update_pause (\<lambda>p. pause_at p now) i s"
    obtain s' w where p: "pause_macro_outputs env (key_order ord) (class_order ord) i ?s = (s', w)" by fastforce
    have "macro_inv ?s" by (rule unchanged_tree_inv [OF inv]) simp_all
    moreover have "instance_held ?s = instance_held s" by (simp add: update_pause_def)
    ultimately have "clean env (?s\<lparr>pause_released := R\<rparr>, ws)" for R
      using cov by (simp add: clean_def pause_released_inv)
    from release_clean [OF assms(2) ok this] p have "clean env (s', ws @ w)"
      unfolding pause_macro_outputs_def Let_def by blast
    then show ?thesis by (simp add: st MPause e p)
  next
    case (MResume i now) then show ?thesis by (intro same) (simp_all add: st update_pause_def)
  next
    case (MRelease e i)
    with assms(5) have e: "e = env" by (simp add: in_env_def)
    obtain s' w where r: "release_macro_held_for_instance env (key_order ord) (class_order ord) i s = (s', w)" by fastforce
    from release_clean [OF assms(2) ok assms(3) [unfolded st] r] show ?thesis by (simp add: st MRelease e r)
  next
    case (MCancel e ids)
    with assms(5) have e: "e = env" by (simp add: in_env_def)
    then show ?thesis
      using release_all_clean [OF assms(2) ok upd surjective_pairing]
      by (simp add: st MCancel cancel_macro_instances_def Let_def case_prod_beta)
  next
    case (MExpire e i)
    with assms(5) have e: "e = env" by (simp add: in_env_def)
    then show ?thesis
      using expire_all_clean [OF assms(2) ok upd surjective_pairing] assms(3)
      by (simp add: st MExpire expire_paused_instance_def Let_def case_prod_beta)
  next
    case (MForget i)
    then show ?thesis
      using forget_holds [of s i] by (intro same) (simp_all add: st same_holds_def)
  next
    case (MSourceReleased key now)
    then show ?thesis
      using mark_holds(1) [of s key now] by (intro same) (simp_all add: st same_holds_def)
  next
    case (MStopLoops ids)
    then show ?thesis
      using mark_holds(2) [of s ids] by (intro same) (simp_all add: st same_holds_def)
  qed
qed

lemma clean_start: "clean env macro_start"
  by (simp add: macro_start_def clean_def macro_inv_init keys_down_def covered_def)

text \<open>The callers' guarantees, and the same on devices that work.\<close>

definition runtime_guard :: "macro_orders \<Rightarrow> MacroRuntimeState \<times> 'v output_write list \<Rightarrow> 'v macro_op \<Rightarrow> bool" where
  "runtime_guard ord st op \<longleftrightarrow> orders_ok ord \<and> macro_guard st op"

definition device_guard ::
    "macro_orders \<Rightarrow> 'v OutputState \<Rightarrow> MacroRuntimeState \<times> 'v output_write list \<Rightarrow> 'v macro_op \<Rightarrow> bool" where
  "device_guard ord env st op \<longleftrightarrow> orders_ok ord \<and> working env \<and> macro_guard st op \<and> in_env env op"

interpretation macro_runtime: inv_machine macro_start "runtime_guard ord" "macro_step ord" "\<lambda>st. macro_inv (fst st)" for ord
  by unfold_locales (auto simp: macro_start_def macro_inv_init runtime_guard_def intro: macro_machine)

interpretation macro_devices: inv_machine macro_start "device_guard ord env" "macro_step ord" "clean env" for ord env
  by unfold_locales (auto simp: device_guard_def intro: clean_start macro_clean_step)

section \<open>Properties\<close>

definition macro_demo_env :: "nat OutputState" where
  "macro_demo_env =
    \<lparr>keyboard_uinput = Some 1, mouse_uinput = Some 2, gamepad_uinput = None,
     virtual_gamepad_uinputs = [(''virtual-gamepad-1'', Some 3)], virtual_device_specs = {},
     physical_gamepads = Map.empty, has_writer = (\<lambda>u. True), write_fails = (\<lambda>u. False)\<rparr>"

text \<open>Two nested macros press the same key, and the inner one a gamepad axis.\<close>

definition macro_demo_run :: "nat macro_op list" where
  "macro_demo_run =
    [MAllocate ''none'' (''kbd'', ''key_f1'') ''outer'' ''finish_run'' None, MStart 1,
     MAllocate ''none'' (''kbd'', ''key_f1'') ''inner'' ''finish_run'' (Some 1), MStart 2,
     MEmit macro_demo_env 1 EV_KEY 30 1 ''keyboard'' None,
     MEmit macro_demo_env 2 EV_KEY 30 1 ''keyboard'' None,
     MEmit macro_demo_env 2 EV_ABS 0 100 ''gamepad'' None]"

lemma macro_demo_guard: "guarded_run (device_guard plain_orders macro_demo_env) (macro_step plain_orders) macro_start macro_demo_run"
proof -
  have "working macro_demo_env" by (simp add: working_def macro_demo_env_def)
  moreover have "guarded_run (\<lambda>st op. macro_guard st op) (macro_step plain_orders) macro_start macro_demo_run"
    by code_simp
  ultimately show ?thesis
    using plain_orders_ok
    by (simp add: macro_demo_run_def device_guard_def in_env_def)
qed

text \<open>C11. Whatever the devices do, the count of an output is the number of macro instances that hold it,
  and there is none for an output that no instance holds, for keys and for axes.\<close>

theorem macro_refcounts:
  assumes "guarded_run (runtime_guard ord) (macro_step ord) macro_start ops"
    and "s = fst (run_steps (macro_step ord) macro_start ops)"
  shows "held_refcount s key
      = (if \<exists>i. key \<in> get_set (instance_held s) i then Some (card {i. key \<in> get_set (instance_held s) i}) else None)
    \<and> held_abs_refcount s key
      = (if \<exists>i. key \<in> get_set (instance_held_abs s) i then Some (card {i. key \<in> get_set (instance_held_abs s) i}) else None)"
proof -
  have inv: "macro_inv s" unfolding assms(2) by (rule macro_runtime.inv_run [OF assms(1)])
  have "counts key = (if \<exists>i. key \<in> get_set holds i then Some (card {i. key \<in> get_set holds i}) else None)"
    if l: "ledger_ok n holds counts" for n holds counts
  proof -
    have c: "counts key \<noteq> Some 0" "count_of counts key = card (holders holds key)"
      using counts_okD [OF ledger_okD(2) [OF l], of key] by simp_all
    have "card (holders holds key) = 0 \<longleftrightarrow> (\<nexists>i. key \<in> get_set holds i)"
      using holders_finite [OF ledger_okD(1) [OF l]] by (auto simp: holders_def)
    with c show ?thesis by (cases "counts key") (auto simp: count_of_def holders_def)
  qed
  with macro_invD(2,3) [OF inv] show ?thesis by blast
qed

lemma macro_demo_runtime: "guarded_run (runtime_guard plain_orders) (macro_step plain_orders) macro_start macro_demo_run"
  using macro_demo_guard by (simp add: macro_demo_run_def device_guard_def runtime_guard_def)

theorem macro_refcounts_witness:
  "held_refcount (fst (run_steps (macro_step plain_orders) macro_start macro_demo_run)) (''keyboard'', 30)
    = Some (card {i. (''keyboard'', 30) \<in> get_set (instance_held
        (fst (run_steps (macro_step plain_orders) macro_start macro_demo_run))) i})"
proof -
  have "(''keyboard'', 30) \<in> get_set (instance_held (fst (run_steps (macro_step plain_orders) macro_start macro_demo_run))) 1"
    by code_simp
  then have "\<exists>i. (''keyboard'', 30) \<in> get_set (instance_held (fst (run_steps (macro_step plain_orders) macro_start macro_demo_run))) i"
    by (rule exI)
  then show ?thesis
    using conjunct1 [OF macro_refcounts [OF macro_demo_runtime refl, of "(''keyboard'', 30)"]] by (simp only: if_True)
qed

text \<open>C3. No key stays stuck: as long as the output devices work, every key that macros have left down on
  a device is held by a macro instance under a class that leads to this device, and cancelling
  instances, each with all its descendants, leaves no key down once every instance that holds a key
  is among them.\<close>

theorem no_stuck_macro_keys:
  assumes "guarded_run (device_guard ord env) (macro_step ord) macro_start (ops @ [MCancel env ids])"
    and "run_steps (macro_step ord) macro_start ops = (s, writes)"
    and "\<forall>i. get_set (instance_held s) i = {}
      \<or> (\<exists>a\<in>set ids. a = i \<or> (instance_meta s a \<noteq> None \<and> (child_of s)\<^sup>*\<^sup>* a i))"
  shows "(\<forall>(u, code)\<in>keys_down writes. \<exists>i c. cleanup_uinput env c = Some u \<and> (c, code) \<in> get_set (instance_held s) i)
    \<and> keys_down (snd (run_steps (macro_step ord) macro_start (ops @ [MCancel env ids]))) = {}"
proof -
  have run: "guarded_run (device_guard ord env) (macro_step ord) macro_start ops"
    and ok: "orders_ok ord" "working env"
    using assms(1,2) by (simp_all add: device_guard_def)
  have c: "clean env (s, writes)" using macro_devices.inv_run [OF run] by (simp add: assms(2))
  then have inv: "macro_tree_ok s" by (simp add: clean_def macro_invD)
  define all where "all = descendant_instance_ids (id_order ord) ids s"
  have covers: "i \<in> set all \<or> get_set (instance_held s) i = {}" for i
  proof -
    have all: "set all = (child_rel (instance_children s))\<^sup>* `` set ids"
      using descendant_ids_spec [OF _ inv] ok(1) by (simp add: all_def orders_ok_def)
    show ?thesis
      using assms(3) [rule_format, of i] child_rel_live [OF inv] unfolding all by blast
  qed
  obtain s' w where r: "release_all env (key_order ord) (class_order ord) all
      (s\<lparr>cancel_instance_ids := cancel_instance_ids s \<union> set all\<rparr>) = (s', w)" by fastforce
  have "clean env (s\<lparr>cancel_instance_ids := cancel_instance_ids s \<union> set all\<rparr>, writes)"
    using c cancel_ids_inv by (simp add: clean_def)
  from release_all_clean [OF ok(2) _ this r] ok(1)
  have c': "clean env (s', writes @ w)" and none: "get_set (instance_held s') j = {}" for j
    using covers [of j] by (auto simp: orders_ok_def)
  have e: "snd (run_steps (macro_step ord) macro_start (ops @ [MCancel env ids])) = writes @ w"
    by (simp add: assms(2) cancel_macro_instances_def Let_def all_def [symmetric] r)
  have "keys_down (writes @ w) = {}" using c' none by (auto simp: clean_def covered_def)
  moreover have "\<forall>(u, code)\<in>keys_down writes. \<exists>i c. cleanup_uinput env c = Some u \<and> (c, code) \<in> get_set (instance_held s) i"
    using c by (fastforce simp: clean_def covered_def)
  ultimately show ?thesis unfolding e by blast
qed

text \<open>The outer macro of the demonstration and its child are cancelled together.\<close>

theorem no_stuck_macro_keys_witness:
  "keys_down (snd (run_steps (macro_step plain_orders) macro_start (macro_demo_run @ [MCancel macro_demo_env [1]]))) = {}"
proof -
  define s where "s = fst (run_steps (macro_step plain_orders) macro_start macro_demo_run)"
  define ws where "ws = snd (run_steps (macro_step plain_orders) macro_start macro_demo_run)"
  have sws: "run_steps (macro_step plain_orders) macro_start macro_demo_run = (s, ws)" by (simp add: s_def ws_def)
  have "guarded_run (device_guard plain_orders macro_demo_env) (macro_step plain_orders) macro_start
      (macro_demo_run @ [MCancel macro_demo_env [1]])"
  proof -
    have "working macro_demo_env" by (simp add: working_def macro_demo_env_def)
    then have "device_guard plain_orders macro_demo_env (s, ws) (MCancel macro_demo_env [1])"
      using plain_orders_ok by (simp add: device_guard_def in_env_def)
    then show ?thesis using macro_demo_guard unfolding guarded_run_append sws by simp
  qed
  moreover have "\<forall>i. get_set (instance_held s) i = {}
      \<or> (\<exists>a\<in>set [1]. a = i \<or> (instance_meta s a \<noteq> None \<and> (child_of s)\<^sup>*\<^sup>* a i))"
  proof
    fix i
    have inv: "macro_inv s" unfolding s_def by (rule macro_runtime.inv_run [OF macro_demo_runtime])
    have seq: "instance_seq s = 2" unfolding s_def by code_simp
    have live: "instance_meta s 1 \<noteq> None" unfolding s_def by code_simp
    have child: "child_of s 1 2" unfolding s_def by code_simp
    show "get_set (instance_held s) i = {}
      \<or> (\<exists>a\<in>set [1]. a = i \<or> (instance_meta s a \<noteq> None \<and> (child_of s)\<^sup>*\<^sup>* a i))"
    proof (cases "get_set (instance_held s) i = {}")
      case False
      then have "i \<in> dom (instance_held s)" by (auto simp: get_set_def split: option.splits)
      then have "i \<in> {1..2}" using macro_invD(2) [OF inv] by (auto simp: ledger_ok_def seq)
      then have "i = 1 \<or> i = 2" by auto
      then show ?thesis using live child by auto
    qed simp
  qed
  ultimately show ?thesis using no_stuck_macro_keys [OF _ sws] by blast
qed

text \<open>The names on the path from the top of a call tree to an instance, joined by arrows.\<close>

lemma ancestor_names_path:
  assumes ok: "macro_tree_ok s"
  shows "\<exists>top path. last (top # path) = i \<and> (\<forall>q. \<not> child_of s q top) \<and> successively (child_of s) (top # path)
    \<and> ancestor_names s i names = Some (names @ map (\<lambda>a. shown_name (instance_meta s a)) (rev (top # path)))"
proof (induction "nat i" arbitrary: i names rule: less_induct)
  case less
  show ?case
  proof (cases "Option.bind (instance_meta s i) parent_instance_id")
    case None
    then have "\<forall>q. \<not> child_of s q i" by (simp add: child_of_def)
    moreover have "ancestor_names s i names = Some (names @ [shown_name (instance_meta s i)])"
      using None by (subst ancestor_names.simps) simp
    ultimately show ?thesis by (intro exI [of _ i] exI [of _ "[]"]) simp
  next
    case (Some p)
    then have p: "child_of s p i" by (simp add: child_of_def)
    then have "1 \<le> p \<and> p < i" by (rule macro_treeD(3) [OF ok])
    then have "nat p < nat i" by simp
    from less.hyps [OF this] obtain top path where path: "last (top # path) = p" "\<forall>q. \<not> child_of s q top"
        "successively (child_of s) (top # path)"
        "ancestor_names s p (names @ [shown_name (instance_meta s i)])
          = Some ((names @ [shown_name (instance_meta s i)]) @ map (\<lambda>a. shown_name (instance_meta s a)) (rev (top # path)))"
      by blast
    have "successively (child_of s) ((top # path) @ [i])" unfolding successively_append_iff using path(1,3) p by simp
    moreover have "ancestor_names s i names
        = Some (names @ map (\<lambda>a. shown_name (instance_meta s a)) (rev (top # path @ [i])))"
      using Some path(4) by (subst ancestor_names.simps) simp
    ultimately show ?thesis using path(2) by (intro exI [of _ top] exI [of _ "path @ [i]"]) simp
  qed
qed

lemma join_arrows_Cons: "join_arrows (x # xs) = x @ concat (map (\<lambda>y. '' -> '' @ y) xs)"
  by (induction xs arbitrary: x) auto

lemma call_chain_path:
  assumes "macro_tree_ok s"
  shows "\<exists>top path. last (top # path) = i \<and> (\<forall>q. \<not> child_of s q top) \<and> successively (child_of s) (top # path)
    \<and> call_chain s i child_name = Some (shown_name (instance_meta s top)
        @ concat (map (\<lambda>a. '' -> '' @ shown_name (instance_meta s a)) path)
        @ (if child_name = [] then [] else '' -> '' @ child_name))"
proof -
  obtain top path where path: "last (top # path) = i" "\<forall>q. \<not> child_of s q top" "successively (child_of s) (top # path)"
      "ancestor_names s i [] = Some (map (\<lambda>a. shown_name (instance_meta s a)) (rev (top # path)))"
    using ancestor_names_path [OF assms, of i "[]"] by auto
  have "call_chain s i child_name = Some (join_arrows (map (\<lambda>a. shown_name (instance_meta s a)) (top # path)
      @ (if child_name = [] then [] else [child_name])))"
    by (simp add: call_chain_def path(4) rev_map)
  then have "call_chain s i child_name = Some (shown_name (instance_meta s top)
        @ concat (map (\<lambda>a. '' -> '' @ shown_name (instance_meta s a)) path)
        @ (if child_name = [] then [] else '' -> '' @ child_name))"
    by (simp add: join_arrows_Cons map_concat comp_def)
  with path(1-3) show ?thesis by blast
qed

text \<open>C31. The walks over the call tree end and are right in every reachable state: \<open>descendant_instance_ids\<close>
  of living instances lists exactly their descendants, each once; following a call chain upwards
  ends, and its text joins the names on the path from the instance without a parent down to the instance, and the
  child's name if there is one, with arrows; \<open>call_chain_contains\<close> answers whether an ancestor (or the instance)
  has the name; and all living instances of a call tree share the root instance of its start.\<close>

theorem macro_call_tree:
  assumes "guarded_run (runtime_guard ord) (macro_step ord) macro_start ops" "orders_ok ord"
    and "s = fst (run_steps (macro_step ord) macro_start ops)"
    and "\<forall>a\<in>set ids. instance_meta s a \<noteq> None"
  shows "distinct (descendant_instance_ids (id_order ord) ids s)
    \<and> set (descendant_instance_ids (id_order ord) ids s) = {d. \<exists>a\<in>set ids. (child_of s)\<^sup>*\<^sup>* a d}
    \<and> (\<exists>top path. last (top # path) = i \<and> (\<forall>q. \<not> child_of s q top) \<and> successively (child_of s) (top # path)
         \<and> call_chain s i child_name = Some (shown_name (instance_meta s top)
             @ concat (map (\<lambda>a. '' -> '' @ shown_name (instance_meta s a)) path)
             @ (if child_name = [] then [] else '' -> '' @ child_name)))
    \<and> call_chain_contains s i name = Some (\<exists>a. (child_of s)\<^sup>*\<^sup>* a i \<and> named s a name)
    \<and> (\<forall>a\<in>set ids. (child_of s)\<^sup>*\<^sup>* a i \<longrightarrow>
          map_option root_instance_id (instance_meta s i) = map_option root_instance_id (instance_meta s a))"
proof -
  have ok: "macro_tree_ok s"
    unfolding assms(3) by (rule macro_invD(1) [OF macro_runtime.inv_run [OF assms(1)]])
  have "set_iteration (id_order ord)" using assms(2) by (simp add: orders_ok_def)
  note d = descendant_ids_spec [OF this ok, of ids]
  have kids: "set (descendant_instance_ids (id_order ord) ids s) = {d. \<exists>a\<in>set ids. (child_of s)\<^sup>*\<^sup>* a d}"
  proof -
    have "(\<exists>a\<in>set ids. (a, x) \<in> (child_rel (instance_children s))\<^sup>*)
        \<longleftrightarrow> (\<exists>a\<in>set ids. (child_of s)\<^sup>*\<^sup>* a x)" for x
      by (rule bex_cong) (simp_all add: child_rel_live [OF ok] assms(4))
    then show ?thesis unfolding conjunct2 [OF d] by blast
  qed
  note chain = call_chain_path [OF ok, of i child_name]
  have root: "map_option root_instance_id (instance_meta s i) = map_option root_instance_id (instance_meta s a)"
    if live: "instance_meta s a \<noteq> None" and below: "(child_of s)\<^sup>*\<^sup>* a i" for a
    using below
  proof (induction rule: rtranclp_induct)
    case (step y z)
    obtain m where m: "instance_meta s z = Some m" "parent_instance_id m = Some y"
      using step.hyps(2) by (cases "instance_meta s z") (auto simp: child_of_def)
    obtain k where "instance_meta s y = Some k"
      using step.IH live by (cases "instance_meta s y") auto
    with macro_treeD(9) [OF ok m] m step.IH show ?case by simp
  qed simp
  show ?thesis
    using conjunct1 [OF d] kids chain call_chain_contains_spec [OF ok] root assms(4) by blast
qed

theorem macro_call_tree_witness:
  "set (descendant_instance_ids (id_order plain_orders) [1]
      (fst (run_steps (macro_step plain_orders) macro_start macro_demo_run)))
    = {d. \<exists>a\<in>set [1]. (child_of (fst (run_steps (macro_step plain_orders) macro_start macro_demo_run)))\<^sup>*\<^sup>* a d}"
  by (rule macro_call_tree [OF macro_demo_runtime plain_orders_ok refl, THEN conjunct2, THEN conjunct1]) code_simp

text \<open>A pause hides itself from the rest of the timeline: an instance that is paused lets go of all its
  outputs; of a key it held, the release and the repeats that follow in its events write nothing
  more, and the first press writes again, is tracked, and makes the next release count.\<close>

theorem paused_outputs_stay_silent:
  assumes "pause_macro_outputs env ok oc i s = (s1, w1)"
    and "(cl, code) \<in> get_set (instance_held s) i"
    and "resolve_macro_output env' EV_KEY d out = Some (u, cl)" "\<not> write_fails env' u"
  shows "get_set (instance_held s1) i = {} \<and> get_set (instance_held_abs s1) i = {}
    \<and> snd (snd (emit_macro_event env' i EV_KEY code 0 d out s1)) = []
    \<and> emit_macro_event env' i EV_KEY code 2 d out s1 = (Some False, s1, [])
    \<and> (\<exists>s2 s3. emit_macro_event env' i EV_KEY code 1 d out s1 = (Some True, s2, [Write u EV_KEY code 1, Syn u])
        \<and> (cl, code) \<in> get_set (instance_held s2) i
        \<and> emit_macro_event env' i EV_KEY code 0 d out s2 = (Some True, s3, [Write u EV_KEY code 0, Syn u])
        \<and> (cl, code) \<notin> get_set (instance_held s3) i)"
proof -
  let ?key = "(cl, EV_KEY, code)"
  note r = release_fields [OF assms(1) [unfolded pause_macro_outputs_def Let_def]]
  have "(\<lambda>(c, code). (c, EV_KEY, code)) (cl, code) \<in> (\<lambda>(c, code). (c, EV_KEY, code)) ` get_set (instance_held s) i"
    by (rule imageI) (rule assms(2))
  then have p: "?key \<in> get_set (pause_released s1) i"
    by (simp add: r get_set_update)
  have none: "get_set (instance_held s1) i = {}" "get_set (instance_held_abs s1) i = {}"
    by (simp_all add: r get_set_remove)
  define s1' where "s1' = s1\<lparr>pause_released := (pause_released s1)(i \<mapsto> get_set (pause_released s1) i - {?key})\<rparr>"
  define s2 where "s2 = track_macro_key_press i cl code s1'"
  define s3 where "s3 = track_macro_key_release i cl code s2"
  have press: "emit_macro_event env' i EV_KEY code 1 d out s1 = (Some True, s2, [Write u EV_KEY code 1, Syn u])"
    using p assms(4) by (simp add: emit_macro_event_def assms(3) Let_def s2_def s1'_def)
  have "pause_released s2 = pause_released s1'"
    by (simp add: s2_def track_macro_key_press_def with_keys_def split: prod.split)
  then have "?key \<notin> get_set (pause_released s2) i" by (simp add: s1'_def get_set_update)
  then have release: "emit_macro_event env' i EV_KEY code 0 d out s2 = (Some True, s3, [Write u EV_KEY code 0, Syn u])"
    using assms(4) by (simp add: emit_macro_event_def assms(3) Let_def s3_def)
  have "snd (snd (emit_macro_event env' i EV_KEY code 0 d out s1)) = []"
    "emit_macro_event env' i EV_KEY code 2 d out s1 = (Some False, s1, [])"
    using p by (simp_all add: emit_macro_event_def assms(3) Let_def)
  with none press release show ?thesis
    by (simp add: s2_def s3_def track_holds)
qed

theorem paused_outputs_stay_silent_witness:
  "snd (snd (emit_macro_event macro_demo_env 1 EV_KEY 30 0 ''keyboard'' None
     (fst (pause_macro_outputs macro_demo_env sorted_list_of_set sorted_list_of_set 1
        (fst (run_steps (macro_step plain_orders) macro_start macro_demo_run)))))) = []"
proof -
  have h: "(''keyboard'', 30) \<in> get_set (instance_held (fst (run_steps (macro_step plain_orders) macro_start macro_demo_run))) 1"
    by code_simp
  have r: "resolve_macro_output macro_demo_env EV_KEY ''keyboard'' None = Some (1, ''keyboard'')" by code_simp
  have w: "\<not> write_fails macro_demo_env 1" by (simp add: macro_demo_env_def)
  show ?thesis
    by (rule paused_outputs_stay_silent [OF surjective_pairing h r w, THEN conjunct2, THEN conjunct2, THEN conjunct1])
qed

end
