(* ===== verification/Macro_Cache.thy ===== *)
theory Macro_Cache
  imports Prelude
begin

text \<open>
  The cache of parsed macros (\<open>keymasq/keymasqd/runtime/macro/cache.py\<close>): an LRU of revisions with a
  byte budget, and the candidates that reserve bytes while a first playback streams the events.

  A revision is a path and the identity of the file at a time.  The estimated size of an event is a
  number of its own, its weight; the duration an entry carries along is left out.  Both ordered dicts are lists in their order; candidates are numbered.
\<close>

section \<open>State\<close>

type_synonym 'i revision = "string \<times> 'i"

record ('i, 'e) MacroCacheEntry =
  entry_revision :: "'i revision"
  entry_event_count :: nat
  entry_events :: "('e \<times> nat) list"
  entry_weight :: nat

record ('i, 'e) MacroCacheCandidate =
  candidate_revision :: "'i revision"
  candidate_event_count :: nat
  candidate_events :: "('e \<times> nat) list"
  candidate_weight :: nat
  candidate_active :: bool

record ('i, 'e) MacroReplayCache =
  max_bytes :: nat
  entries :: "('i revision \<times> ('i, 'e) MacroCacheEntry) list"
  ineligible :: "'i revision list"
  resident_bytes :: int
  candidate_bytes :: int

definition MAX_INELIGIBLE_REVISIONS :: nat where
  "MAX_INELIGIBLE_REVISIONS = 256"

definition new_cache :: "int \<Rightarrow> ('i, 'e) MacroReplayCache" where
  "new_cache limit =
    \<lparr>max_bytes = nat (max 0 limit), entries = [], ineligible = [], resident_bytes = 0, candidate_bytes = 0\<rparr>"

definition total_bytes :: "('i, 'e) MacroReplayCache \<Rightarrow> int" where
  "total_bytes c = resident_bytes c + candidate_bytes c"

definition entry_bytes :: "('i revision \<times> ('i, 'e) MacroCacheEntry) list \<Rightarrow> int" where
  "entry_bytes es = (\<Sum>p\<leftarrow>es. int (entry_weight (snd p)))"

section \<open>The cache\<close>

definition other_revision :: "'i revision \<Rightarrow> 'i revision \<Rightarrow> bool" where
  "other_revision current r \<longleftrightarrow> fst r = fst current \<and> r \<noteq> current"

text \<open>Popping every entry of another revision of the path: each pop subtracts its weight.\<close>

definition discard_other_revisions :: "'i revision \<Rightarrow> ('i, 'e) MacroReplayCache \<Rightarrow> ('i, 'e) MacroReplayCache" where
  "discard_other_revisions current c =
    c\<lparr>entries := filter (\<lambda>p. \<not> other_revision current (fst p)) (entries c),
      resident_bytes := resident_bytes c
        - entry_bytes (filter (\<lambda>p. other_revision current (fst p)) (entries c)),
      ineligible := filter (\<lambda>r. \<not> other_revision current r) (ineligible c)\<rparr>"

definition cache_get ::
    "'i revision \<Rightarrow> ('i, 'e) MacroReplayCache \<Rightarrow> ('i, 'e) MacroCacheEntry option \<times> ('i, 'e) MacroReplayCache" where
  "cache_get revision c =
    (let c' = discard_other_revisions revision c
     in case map_of (entries c') revision of
          None \<Rightarrow> (None, c')
        | Some entry \<Rightarrow> (Some entry, c'\<lparr>entries := AList.delete revision (entries c') @ [(revision, entry)]\<rparr>))"

definition begin_candidate ::
    "'i revision \<Rightarrow> nat \<Rightarrow> ('i, 'e) MacroReplayCache \<Rightarrow>
     ('i, 'e) MacroCacheCandidate option \<times> ('i, 'e) MacroReplayCache" where
  "begin_candidate revision count c =
    (let c' = discard_other_revisions revision c
     in if max_bytes c' = 0 \<or> count = 0 \<or> revision \<in> fst ` set (entries c') \<or> revision \<in> set (ineligible c')
        then (None, c')
        else (Some \<lparr>candidate_revision = revision, candidate_event_count = count, candidate_events = [],
                   candidate_weight = 0, candidate_active = True\<rparr>, c'))"

text \<open>The loop that evicts the oldest entries until the bytes fit.\<close>

fun evict ::
    "int \<Rightarrow> int \<Rightarrow> int \<Rightarrow> ('i revision \<times> ('i, 'e) MacroCacheEntry) list \<Rightarrow>
     int \<times> ('i revision \<times> ('i, 'e) MacroCacheEntry) list" where
  "evict limit required resident [] = (resident, [])"
| "evict limit required resident (p # es) =
    (if resident + required > limit
     then evict limit required (resident - int (entry_weight (snd p))) es
     else (resident, p # es))"

definition reserve_candidate_bytes ::
    "nat \<Rightarrow> ('i, 'e) MacroReplayCache \<Rightarrow> bool \<times> ('i, 'e) MacroReplayCache" where
  "reserve_candidate_bytes required c =
    (let (resident, kept) =
           evict (int (max_bytes c)) (candidate_bytes c + int required) (resident_bytes c) (entries c);
         c' = c\<lparr>resident_bytes := resident, entries := kept\<rparr>
     in if total_bytes c' + int required > int (max_bytes c') then (False, c')
        else (True, c'\<lparr>candidate_bytes := candidate_bytes c' + int required\<rparr>))"

definition commit_candidate ::
    "('i, 'e) MacroCacheEntry \<Rightarrow> nat \<Rightarrow> ('i, 'e) MacroReplayCache \<Rightarrow> ('i, 'e) MacroReplayCache" where
  "commit_candidate entry bytes c =
    (let revision = entry_revision entry;
         freed = (case map_of (entries c) revision of None \<Rightarrow> 0 | Some previous \<Rightarrow> int (entry_weight previous))
     in c\<lparr>candidate_bytes := max 0 (candidate_bytes c - int bytes),
          entries := AList.delete revision (entries c) @ [(revision, entry)],
          resident_bytes := resident_bytes c - freed + int (entry_weight entry),
          ineligible := filter (\<lambda>r. r \<noteq> revision) (ineligible c)\<rparr>)"

definition cache_release_candidate ::
    "'i revision \<Rightarrow> nat \<Rightarrow> bool \<Rightarrow> ('i, 'e) MacroReplayCache \<Rightarrow> ('i, 'e) MacroReplayCache" where
  "cache_release_candidate revision weight reject c =
    (let c' = c\<lparr>candidate_bytes := max 0 (candidate_bytes c - int weight)\<rparr>;
         rejected = filter (\<lambda>r. r \<noteq> revision) (ineligible c') @ [revision]
     in if \<not> reject then c'
        else c'\<lparr>ineligible := drop (length rejected - MAX_INELIGIBLE_REVISIONS) rejected\<rparr>)"

section \<open>Candidates\<close>

definition finish_candidate ::
    "bool \<Rightarrow> ('i, 'e) MacroCacheCandidate \<Rightarrow> ('i, 'e) MacroReplayCache \<Rightarrow>
     ('i, 'e) MacroCacheCandidate \<times> ('i, 'e) MacroReplayCache" where
  "finish_candidate reject k c =
    (if \<not> candidate_active k then (k, c)
     else (k\<lparr>candidate_events := [], candidate_weight := 0, candidate_active := False\<rparr>,
           cache_release_candidate (candidate_revision k) (candidate_weight k) reject c))"

definition observe_event ::
    "'e \<times> nat \<Rightarrow> ('i, 'e) MacroCacheCandidate \<Rightarrow> ('i, 'e) MacroReplayCache \<Rightarrow>
     ('i, 'e) MacroCacheCandidate \<times> ('i, 'e) MacroReplayCache" where
  "observe_event event k c =
    (if \<not> candidate_active k then (k, c)
     else (let weight = snd event; (reserved, c') = reserve_candidate_bytes weight c
           in if \<not> reserved then finish_candidate (candidate_weight k + weight > max_bytes c') k c'
              else (k\<lparr>candidate_events := candidate_events k @ [event],
                      candidate_weight := candidate_weight k + weight\<rparr>, c')))"

definition commit ::
    "('i, 'e) MacroCacheCandidate \<Rightarrow> ('i, 'e) MacroReplayCache \<Rightarrow>
     ('i, 'e) MacroCacheEntry option \<times> ('i, 'e) MacroCacheCandidate \<times> ('i, 'e) MacroReplayCache" where
  "commit k c =
    (if \<not> candidate_active k then (None, k, c)
     else if length (candidate_events k) \<noteq> candidate_event_count k
     then (None, finish_candidate True k c)
     else (let entry = \<lparr>entry_revision = candidate_revision k, entry_event_count = candidate_event_count k,
                        entry_events = candidate_events k, entry_weight = candidate_weight k\<rparr>
           in (Some entry,
               k\<lparr>candidate_events := [], candidate_weight := 0, candidate_active := False\<rparr>,
               commit_candidate entry (candidate_weight k) c)))"

section \<open>The system of a cache and its candidates\<close>

datatype ('i, 'e) cache_op =
    CGet "'i revision"
  | CBegin nat "'i revision" nat
  | CObserve nat "'e \<times> nat"
  | CCommit nat
  | CReject nat
  | CDiscard nat

type_synonym ('i, 'e) cache_system = "(nat \<times> ('i, 'e) MacroCacheCandidate) list \<times> ('i, 'e) MacroReplayCache"

definition on_candidate ::
    "(('i, 'e) MacroCacheCandidate \<Rightarrow> ('i, 'e) MacroReplayCache \<Rightarrow>
      ('i, 'e) MacroCacheCandidate \<times> ('i, 'e) MacroReplayCache) \<Rightarrow>
     nat \<Rightarrow> ('i, 'e) cache_system \<Rightarrow> ('i, 'e) cache_system" where
  "on_candidate f n st =
    (case map_of (fst st) n of
       None \<Rightarrow> st
     | Some k \<Rightarrow> (let (k', c') = f k (snd st) in (AList.update n k' (fst st), c')))"

fun cache_step :: "('i, 'e) cache_system \<Rightarrow> ('i, 'e) cache_op \<Rightarrow> ('i, 'e) cache_system" where
  "cache_step st (CGet r) = (fst st, snd (cache_get r (snd st)))"
| "cache_step st (CBegin n r count) =
    (let (k, c') = begin_candidate r count (snd st)
     in (case k of None \<Rightarrow> fst st | Some cand \<Rightarrow> fst st @ [(n, cand)], c'))"
| "cache_step st (CObserve n e) = on_candidate (observe_event e) n st"
| "cache_step st (CCommit n) = on_candidate (\<lambda>k c. snd (commit k c)) n st"
| "cache_step st (CReject n) = on_candidate (finish_candidate True) n st"
| "cache_step st (CDiscard n) = on_candidate (finish_candidate False) n st"

text \<open>A candidate is a new object: its number is unused.\<close>

fun cache_guard :: "('i, 'e) cache_system \<Rightarrow> ('i, 'e) cache_op \<Rightarrow> bool" where
  "cache_guard st (CBegin n r count) = (n \<notin> fst ` set (fst st))"
| "cache_guard st op = True"

section \<open>The invariant\<close>

definition entry_ok :: "'i revision \<times> ('i, 'e) MacroCacheEntry \<Rightarrow> bool" where
  "entry_ok p \<longleftrightarrow> entry_revision (snd p) = fst p
    \<and> entry_event_count (snd p) = length (entry_events (snd p))
    \<and> entry_weight (snd p) = sum_list (map snd (entry_events (snd p)))"

definition cache_candidate_ok :: "('i, 'e) MacroCacheCandidate \<Rightarrow> bool" where
  "cache_candidate_ok k \<longleftrightarrow> candidate_weight k = sum_list (map snd (candidate_events k))"

definition reserved :: "(nat \<times> ('i, 'e) MacroCacheCandidate) list \<Rightarrow> int" where
  "reserved ks = (\<Sum>p\<leftarrow>ks. int (candidate_weight (snd p)))"

definition cache_ok :: "('i, 'e) MacroReplayCache \<Rightarrow> bool" where
  "cache_ok c \<longleftrightarrow> (\<forall>p\<in>set (entries c). entry_ok p) \<and> distinct (map fst (entries c))
    \<and> resident_bytes c = entry_bytes (entries c) \<and> total_bytes c \<le> int (max_bytes c)
    \<and> distinct (ineligible c) \<and> length (ineligible c) \<le> MAX_INELIGIBLE_REVISIONS"

definition system_ok :: "('i, 'e) cache_system \<Rightarrow> bool" where
  "system_ok st \<longleftrightarrow> cache_ok (snd st) \<and> (\<forall>p\<in>set (fst st). cache_candidate_ok (snd p))
    \<and> distinct (map fst (fst st)) \<and> candidate_bytes (snd st) = reserved (fst st)"

lemma entry_bytes_simps [simp]:
  "entry_bytes [] = 0" "entry_bytes (p # es) = int (entry_weight (snd p)) + entry_bytes es"
  "entry_bytes (es @ fs) = entry_bytes es + entry_bytes fs"
  by (simp_all add: entry_bytes_def)

lemma entry_bytes_nonneg [simp]: "0 \<le> entry_bytes es"
  by (induction es) auto

lemma entry_bytes_filter: "entry_bytes (filter P es) = entry_bytes es - entry_bytes (filter (\<lambda>p. \<not> P p) es)"
  by (induction es) auto

lemma entry_bytes_delete:
  "distinct (map fst es) \<Longrightarrow>
   entry_bytes (AList.delete k es)
    = entry_bytes es - (case map_of es k of None \<Rightarrow> 0 | Some e \<Rightarrow> int (entry_weight e))"
proof (induction es)
  case (Cons p es)
  show ?case
  proof (cases "fst p = k")
    case True
    with Cons.prems have "k \<notin> fst ` set es" by auto
    then have "AList.delete k es = es" "map_of es k = None" by (simp_all add: map_of_eq_None_iff)
    with True show ?thesis by (cases p) simp
  next
    case False
    with Cons show ?thesis by (cases p) simp
  qed
qed simp

lemma cache_okD:
  assumes "cache_ok c"
  shows "\<forall>p\<in>set (entries c). entry_ok p" "distinct (map fst (entries c))" "resident_bytes c = entry_bytes (entries c)"
    "resident_bytes c + candidate_bytes c \<le> int (max_bytes c)"
    "distinct (ineligible c)" "length (ineligible c) \<le> MAX_INELIGIBLE_REVISIONS"
  using assms by (simp_all add: cache_ok_def total_bytes_def)

lemma discard_fields [simp]:
  "max_bytes (discard_other_revisions r c) = max_bytes c"
  "candidate_bytes (discard_other_revisions r c) = candidate_bytes c"
  by (simp_all add: discard_other_revisions_def)

lemma discard_ok: "cache_ok c \<Longrightarrow> cache_ok (discard_other_revisions r c)"
proof -
  assume ok: "cache_ok c"
  note d = cache_okD [OF ok]
  have "entry_bytes (filter (\<lambda>p. \<not> other_revision r (fst p)) (entries c)) \<le> entry_bytes (entries c)"
    by (subst entry_bytes_filter) simp
  then show ?thesis
    using d by (simp add: cache_ok_def total_bytes_def discard_other_revisions_def distinct_map_filter
        entry_bytes_filter [of "\<lambda>p. other_revision r (fst p)"]
        le_trans [OF length_filter_le])
qed

lemma get_ok:
  assumes "cache_ok c" "cache_get r c = (res, c')"
  shows "cache_ok c' \<and> candidate_bytes c' = candidate_bytes c \<and> max_bytes c' = max_bytes c
    \<and> (\<forall>e. res = Some e \<longrightarrow> entry_revision e = r \<and> entry_ok (r, e) \<and> last (entries c') = (r, e) \<and> entries c' \<noteq> [])
    \<and> (\<forall>q\<in>fst ` set (entries c'). fst q = fst r \<longrightarrow> q = r)"
proof -
  let ?c = "discard_other_revisions r c"
  note d = cache_okD [OF discard_ok [OF assms(1), of r]]
  have only: "\<forall>q\<in>fst ` set (entries ?c). fst q = fst r \<longrightarrow> q = r"
    by (auto simp: discard_other_revisions_def other_revision_def)
  show ?thesis
  proof (cases "map_of (entries ?c) r")
    case None
    with assms(2) have "res = None" "c' = ?c" by (auto simp: cache_get_def Let_def)
    with only discard_ok [OF assms(1), of r] show ?thesis by auto
  next
    case (Some e)
    with assms(2) have e: "res = Some e" "c' = ?c\<lparr>entries := AList.delete r (entries ?c) @ [(r, e)]\<rparr>"
      by (auto simp: cache_get_def Let_def)
    have ek: "entry_ok (r, e)" using d(1) Some by (auto dest: map_of_SomeD)
    then have rev: "entry_revision e = r" by (simp add: entry_ok_def)
    have bytes: "entry_bytes (entries c') = entry_bytes (entries ?c)"
      using d(2) Some by (simp add: e entry_bytes_delete)
    have "cache_ok c'"
      using d bytes ek
      by (auto simp: cache_ok_def total_bytes_def e in_set_AList_delete distinct_AList_delete
          simp flip: keys_AList_delete)
    then show ?thesis using only ek rev by (auto simp: e in_set_AList_delete)
  qed
qed

lemma evict_spec:
  assumes "resident = entry_bytes es"
  shows "\<exists>k. evict limit required resident es = (entry_bytes (drop k es), drop k es)
    \<and> (\<forall>j<k. entry_bytes (drop j es) + required > limit)
    \<and> (entry_bytes (drop k es) + required > limit \<longrightarrow> drop k es = [])"
  using assms
proof (induction es arbitrary: resident)
  case (Cons p es)
  show ?case
  proof (cases "resident + required > limit")
    case True
    have "resident - int (entry_weight (snd p)) = entry_bytes es" using Cons.prems by simp
    from Cons.IH [OF this] obtain k where k:
      "evict limit required (resident - int (entry_weight (snd p))) es = (entry_bytes (drop k es), drop k es)"
      "\<forall>j<k. entry_bytes (drop j es) + required > limit"
      "entry_bytes (drop k es) + required > limit \<longrightarrow> drop k es = []" by blast
    show ?thesis
    proof (intro exI conjI)
      show "evict limit required resident (p # es) = (entry_bytes (drop (Suc k) (p # es)), drop (Suc k) (p # es))"
        using True k(1) by simp
      show "\<forall>j<Suc k. entry_bytes (drop j (p # es)) + required > limit"
        using k(2) True Cons.prems by (auto simp: less_Suc_eq_0_disj)
      show "entry_bytes (drop (Suc k) (p # es)) + required > limit \<longrightarrow> drop (Suc k) (p # es) = []"
        using k(3) by simp
    qed
  next
    case False
    with Cons.prems show ?thesis by (intro exI [of _ 0]) simp
  qed
qed (auto intro: exI [of _ 0])

lemma reserve_ok:
  assumes "cache_ok c" "reserve_candidate_bytes w c = (b, c')" "0 \<le> candidate_bytes c"
  shows "cache_ok c' \<and> candidate_bytes c' = candidate_bytes c + (if b then int w else 0) \<and> max_bytes c' = max_bytes c
    \<and> (\<exists>k. entries c' = drop k (entries c)
         \<and> (\<forall>j<k. entry_bytes (drop j (entries c)) + candidate_bytes c + int w > int (max_bytes c)))
    \<and> (b \<longleftrightarrow> candidate_bytes c + int w \<le> int (max_bytes c))"
proof -
  note d = cache_okD [OF assms(1)]
  obtain k where k: "evict (int (max_bytes c)) (candidate_bytes c + int w) (resident_bytes c) (entries c)
      = (entry_bytes (drop k (entries c)), drop k (entries c))"
    "\<forall>j<k. entry_bytes (drop j (entries c)) + (candidate_bytes c + int w) > int (max_bytes c)"
    "entry_bytes (drop k (entries c)) + (candidate_bytes c + int w) > int (max_bytes c) \<longrightarrow> drop k (entries c) = []"
    using evict_spec [OF d(3)] by blast
  let ?es = "drop k (entries c)"
  have less: "entry_bytes ?es \<le> entry_bytes (entries c)"
  proof -
    have "entry_bytes (entries c) = entry_bytes (take k (entries c)) + entry_bytes ?es"
      by (metis append_take_drop_id entry_bytes_simps(3))
    then show ?thesis by simp
  qed
  have keep: "\<forall>p\<in>set ?es. entry_ok p" "distinct (map fst ?es)"
    using d(1,2) by (auto dest: in_set_dropD simp: drop_map [symmetric])
  let ?c = "c\<lparr>resident_bytes := entry_bytes ?es, entries := ?es\<rparr>"
  have b: "b \<longleftrightarrow> entry_bytes ?es + candidate_bytes c + int w \<le> int (max_bytes c)"
    and c': "c' = (if b then ?c\<lparr>candidate_bytes := candidate_bytes c + int w\<rparr> else ?c)"
    using assms(2) by (auto simp: reserve_candidate_bytes_def k(1) Let_def total_bytes_def split: if_splits)
  have "b \<longleftrightarrow> candidate_bytes c + int w \<le> int (max_bytes c)"
  proof (cases "entry_bytes ?es + (candidate_bytes c + int w) > int (max_bytes c)")
    case True
    with k(3) have "entry_bytes ?es = 0" by simp
    then show ?thesis using b by simp
  next
    case False
    with entry_bytes_nonneg [of ?es] have "candidate_bytes c + int w \<le> int (max_bytes c)" by linarith
    then show ?thesis using b False by linarith
  qed
  moreover have "cache_ok c'"
    using keep d less b by (auto simp: cache_ok_def c' total_bytes_def)
  ultimately show ?thesis using k(2) by (auto simp: c' add.assoc)
qed

lemma commit_candidate_ok:
  assumes "cache_ok c" "entry_ok (entry_revision entry, entry)" "entry_weight entry = w" "int w \<le> candidate_bytes c"
    and "c' = commit_candidate entry w c"
  shows "cache_ok c' \<and> candidate_bytes c' = candidate_bytes c - int w \<and> max_bytes c' = max_bytes c"
proof -
  note d = cache_okD [OF assms(1)]
  let ?r = "entry_revision entry"
  let ?es = "AList.delete ?r (entries c) @ [(?r, entry)]"
  define freed where "freed = (case map_of (entries c) ?r of None \<Rightarrow> 0 | Some previous \<Rightarrow> int (entry_weight previous))"
  have bytes: "entry_bytes ?es = entry_bytes (entries c) - freed + int w"
    using entry_bytes_delete [OF d(2), of ?r] by (simp add: assms(3) freed_def)
  have freed: "0 \<le> freed" by (simp add: freed_def split: option.split)
  have c': "c' = c\<lparr>candidate_bytes := candidate_bytes c - int w, entries := ?es,
      resident_bytes := resident_bytes c - freed + int w, ineligible := filter (\<lambda>r. r \<noteq> ?r) (ineligible c)\<rparr>"
    using assms(4) by (simp add: assms(5) commit_candidate_def Let_def freed_def assms(3))
  have keys: "distinct (map fst ?es)"
    using d(2) by (simp add: distinct_AList_delete)
  have all: "\<forall>p\<in>set ?es. entry_ok p" using d(1) assms(2) by (auto simp: in_set_AList_delete)
  have "length (filter (\<lambda>r. r \<noteq> ?r) (ineligible c)) \<le> MAX_INELIGIBLE_REVISIONS"
    using d(6) length_filter_le le_trans by blast
  then show ?thesis
    using keys all bytes freed d(3-5) by (simp add: c' cache_ok_def total_bytes_def)
qed

lemma cache_release_ok:
  assumes "cache_ok c" "int w \<le> candidate_bytes c" "c' = cache_release_candidate r w reject c"
  shows "cache_ok c' \<and> candidate_bytes c' = candidate_bytes c - int w \<and> max_bytes c' = max_bytes c"
proof -
  note d = cache_okD [OF assms(1)]
  define rejected where "rejected = filter (\<lambda>q. q \<noteq> r) (ineligible c) @ [r]"
  have "distinct rejected" using d(5) by (simp add: rejected_def)
  then have "distinct (drop n rejected)" for n by (rule distinct_drop)
  moreover have "length (drop (length rejected - MAX_INELIGIBLE_REVISIONS) rejected) \<le> MAX_INELIGIBLE_REVISIONS" by simp
  moreover have "c' = (if reject
      then c\<lparr>candidate_bytes := candidate_bytes c - int w,
             ineligible := drop (length rejected - MAX_INELIGIBLE_REVISIONS) rejected\<rparr>
      else c\<lparr>candidate_bytes := candidate_bytes c - int w\<rparr>)"
    using assms(2) by (simp add: assms(3) cache_release_candidate_def Let_def rejected_def)
  ultimately show ?thesis
    using d by (simp add: cache_ok_def total_bytes_def)
qed

lemma reserved_simps [simp]:
  "reserved [] = 0" "reserved (p # ks) = int (candidate_weight (snd p)) + reserved ks"
  "reserved (ks @ ls) = reserved ks + reserved ls"
  by (simp_all add: reserved_def)

lemma reserved_nonneg [simp]: "0 \<le> reserved ks"
  by (induction ks) auto

lemma reserved_update:
  "distinct (map fst ks) \<Longrightarrow> map_of ks n = Some k \<Longrightarrow>
   reserved (AList.update n k' ks) = reserved ks - int (candidate_weight k) + int (candidate_weight k')"
proof (induction ks)
  case (Cons p ks)
  then show ?case by (cases p; cases "fst p = n") auto
qed simp

lemma reserved_member: "map_of ks n = Some k \<Longrightarrow> int (candidate_weight k) \<le> reserved ks"
  by (induction ks) (auto split: if_splits simp: add_increasing)

text \<open>An operation on a candidate keeps the system in order when it keeps the cache in order and
  changes the reserved bytes by what it changes the candidate's weight.\<close>

definition candidate_op_ok ::
    "(('i, 'e) MacroCacheCandidate \<Rightarrow> ('i, 'e) MacroReplayCache \<Rightarrow>
      ('i, 'e) MacroCacheCandidate \<times> ('i, 'e) MacroReplayCache) \<Rightarrow> bool" where
  "candidate_op_ok f \<longleftrightarrow> (\<forall>k c k' c'. f k c = (k', c') \<longrightarrow> cache_ok c \<longrightarrow> cache_candidate_ok k \<longrightarrow>
    int (candidate_weight k) \<le> candidate_bytes c \<longrightarrow>
    cache_ok c' \<and> cache_candidate_ok k' \<and> max_bytes c' = max_bytes c
    \<and> candidate_bytes c' = candidate_bytes c - int (candidate_weight k) + int (candidate_weight k'))"

lemma on_candidate_ok:
  assumes "candidate_op_ok f" "system_ok st"
  shows "system_ok (on_candidate f n st) \<and> max_bytes (snd (on_candidate f n st)) = max_bytes (snd st)"
proof (cases "map_of (fst st) n")
  case None
  then show ?thesis using assms(2) by (simp add: on_candidate_def)
next
  case (Some k)
  obtain k' c' where f: "f k (snd st) = (k', c')" by fastforce
  have ok: "cache_ok (snd st)" "\<forall>p\<in>set (fst st). cache_candidate_ok (snd p)" "distinct (map fst (fst st))"
    "candidate_bytes (snd st) = reserved (fst st)"
    using assms(2) by (simp_all add: system_ok_def)
  have k: "cache_candidate_ok k" using bspec [OF ok(2) map_of_SomeD [OF Some]] by simp
  have w: "int (candidate_weight k) \<le> candidate_bytes (snd st)" using reserved_member [OF Some] by (simp add: ok(4))
  from assms(1) [unfolded candidate_op_ok_def, rule_format, OF f ok(1) k w]
  have r: "cache_ok c'" "cache_candidate_ok k'" "max_bytes c' = max_bytes (snd st)"
    "candidate_bytes c' = candidate_bytes (snd st) - int (candidate_weight k) + int (candidate_weight k')" by simp_all
  have "\<forall>p\<in>set (AList.update n k' (fst st)). cache_candidate_ok (snd p)"
    using ok(2) r(2) by (auto simp: in_set_AList_update [OF ok(3)])
  moreover have "candidate_bytes c' = reserved (AList.update n k' (fst st))"
    using r(4) by (simp add: reserved_update [OF ok(3) Some] ok(4))
  moreover have "on_candidate f n st = (AList.update n k' (fst st), c')"
    by (simp add: on_candidate_def Some f)
  ultimately show ?thesis
    using r(1,3) distinct_AList_update [OF ok(3)] by (simp add: system_ok_def)
qed

lemma finish_op_ok: "candidate_op_ok (finish_candidate reject)"
  unfolding candidate_op_ok_def
proof (intro allI impI)
  fix k c k' c'
  assume f: "finish_candidate reject k c = (k', c')" and c: "cache_ok c" "cache_candidate_ok k" "int (candidate_weight k) \<le> candidate_bytes c"
  show "cache_ok c' \<and> cache_candidate_ok k' \<and> max_bytes c' = max_bytes c
    \<and> candidate_bytes c' = candidate_bytes c - int (candidate_weight k) + int (candidate_weight k')"
  proof (cases "candidate_active k")
    case True
    then have k': "k' = k\<lparr>candidate_events := [], candidate_weight := 0, candidate_active := False\<rparr>"
      and c': "c' = cache_release_candidate (candidate_revision k) (candidate_weight k) reject c"
      using f by (auto simp: finish_candidate_def)
    from cache_release_ok [OF c(1,3) c'] show ?thesis by (simp add: k' cache_candidate_ok_def)
  next
    case False
    then show ?thesis using f c by (simp add: finish_candidate_def)
  qed
qed

lemma observe_op_ok: "candidate_op_ok (observe_event e)"
  unfolding candidate_op_ok_def
proof (intro allI impI)
  fix k c k' c'
  assume f: "observe_event e k c = (k', c')" and c: "cache_ok c" "cache_candidate_ok k" "int (candidate_weight k) \<le> candidate_bytes c"
  obtain b c1 where r: "reserve_candidate_bytes (snd e) c = (b, c1)" by fastforce
  have pos: "0 \<le> candidate_bytes c" using c(3) by linarith
  have c1: "cache_ok c1" "candidate_bytes c1 = candidate_bytes c + (if b then int (snd e) else 0)" "max_bytes c1 = max_bytes c"
    using reserve_ok [OF c(1) r pos] by simp_all
  consider "\<not> candidate_active k" | "candidate_active k" "b" | "candidate_active k" "\<not> b" by blast
  then show "cache_ok c' \<and> cache_candidate_ok k' \<and> max_bytes c' = max_bytes c
    \<and> candidate_bytes c' = candidate_bytes c - int (candidate_weight k) + int (candidate_weight k')"
  proof cases
    case 1
    then show ?thesis using f c by (simp add: observe_event_def)
  next
    case 2
    then have "k' = k\<lparr>candidate_events := candidate_events k @ [e], candidate_weight := candidate_weight k + snd e\<rparr>" "c' = c1"
      using f by (auto simp: observe_event_def r Let_def)
    then show ?thesis using c c1 2 by (simp add: cache_candidate_ok_def)
  next
    case 3
    then have "finish_candidate (candidate_weight k + snd e > max_bytes c) k c1 = (k', c')"
      using f by (simp add: observe_event_def r Let_def c1(3))
    from finish_op_ok [unfolded candidate_op_ok_def, rule_format, OF this c1(1) c(2)] c1 3 c(3)
    show ?thesis by simp
  qed
qed

lemma commit_op_ok: "candidate_op_ok (\<lambda>k c. snd (commit k c))"
  unfolding candidate_op_ok_def
proof (intro allI impI)
  fix k c k' c'
  assume f: "snd (commit k c) = (k', c')" and c: "cache_ok c" "cache_candidate_ok k" "int (candidate_weight k) \<le> candidate_bytes c"
  consider "\<not> candidate_active k" | "candidate_active k" "length (candidate_events k) \<noteq> candidate_event_count k"
    | "candidate_active k" "length (candidate_events k) = candidate_event_count k" by blast
  then show "cache_ok c' \<and> cache_candidate_ok k' \<and> max_bytes c' = max_bytes c
    \<and> candidate_bytes c' = candidate_bytes c - int (candidate_weight k) + int (candidate_weight k')"
  proof cases
    case 1
    then show ?thesis using f c by (simp add: commit_def)
  next
    case 2
    then have "finish_candidate True k c = (k', c')" using f by (simp add: commit_def)
    from finish_op_ok [unfolded candidate_op_ok_def, rule_format, OF this c] show ?thesis .
  next
    case 3
    let ?e = "\<lparr>entry_revision = candidate_revision k, entry_event_count = candidate_event_count k,
                        entry_events = candidate_events k, entry_weight = candidate_weight k\<rparr>"
    from 3 have "k' = k\<lparr>candidate_events := [], candidate_weight := 0, candidate_active := False\<rparr>"
      "c' = commit_candidate ?e (candidate_weight k) c"
      using f by (auto simp: commit_def Let_def)
    then show ?thesis
      using commit_candidate_ok [OF c(1), of ?e "candidate_weight k"] c(2,3) 3
      by (simp add: cache_candidate_ok_def entry_ok_def)
  qed
qed

lemma cache_system_step:
  assumes "system_ok st" "cache_guard st op"
  shows "system_ok (cache_step st op) \<and> max_bytes (snd (cache_step st op)) = max_bytes (snd st)"
proof -
  have ok: "cache_ok (snd st)" "\<forall>p\<in>set (fst st). cache_candidate_ok (snd p)" "distinct (map fst (fst st))"
    "candidate_bytes (snd st) = reserved (fst st)"
    using assms(1) by (simp_all add: system_ok_def)
  show ?thesis
  proof (cases op)
    case (CGet r)
    obtain e c' where g: "cache_get r (snd st) = (e, c')" by fastforce
    with get_ok [OF ok(1) g] ok show ?thesis by (simp add: CGet system_ok_def)
  next
    case (CBegin n r count)
    obtain k c' where b: "begin_candidate r count (snd st) = (k, c')" by fastforce
    then have c': "c' = discard_other_revisions r (snd st)"
      and k: "k = None \<or> k = Some \<lparr>candidate_revision = r, candidate_event_count = count, candidate_events = [],
                   candidate_weight = 0, candidate_active = True\<rparr>"
      by (auto simp: begin_candidate_def Let_def split: if_splits)
    show ?thesis
      using k discard_ok [OF ok(1), of r] ok assms(2)
      by (elim disjE) (simp_all add: CBegin b c' system_ok_def cache_candidate_ok_def)
  next
    case (CObserve n e)
    show ?thesis unfolding CObserve cache_step.simps by (rule on_candidate_ok [OF observe_op_ok assms(1)])
  next
    case (CCommit n)
    show ?thesis unfolding CCommit cache_step.simps by (rule on_candidate_ok [OF commit_op_ok assms(1)])
  next
    case (CReject n)
    show ?thesis unfolding CReject cache_step.simps by (rule on_candidate_ok [OF finish_op_ok assms(1)])
  next
    case (CDiscard n)
    show ?thesis unfolding CDiscard cache_step.simps by (rule on_candidate_ok [OF finish_op_ok assms(1)])
  qed
qed

lemma cache_start: "system_ok ([], new_cache limit)"
  by (simp add: system_ok_def new_cache_def cache_ok_def total_bytes_def)

interpretation macro_cache: inv_machine "([], new_cache limit)" cache_guard cache_step
    "\<lambda>st. system_ok st \<and> max_bytes (snd st) = nat (max 0 limit)" for limit
proof
  show "system_ok ([], new_cache limit) \<and> max_bytes (snd ([], new_cache limit)) = nat (max 0 limit)"
    using cache_start by (simp add: new_cache_def)
  show "system_ok (cache_step st op) \<and> max_bytes (snd (cache_step st op)) = nat (max 0 limit)"
    if "system_ok st \<and> max_bytes (snd st) = nat (max 0 limit)" "cache_guard st op"
    for st :: "('a, 'b) cache_system" and op
    using that cache_system_step [of st op] by simp
qed

section \<open>Properties\<close>

text \<open>C25. The cache never exceeds its budget and its books are right: in every run of lookups and of any
  number of interleaved candidates, the resident bytes are the weights of the entries, the candidate
  bytes those of the events the candidates hold, their sum stays within the limit, an entry has as
  many events as announced, and at most 256 revisions are remembered as ineligible, each once.\<close>

theorem cache_budget:
  assumes "guarded_run cache_guard cache_step ([], new_cache limit) ops"
    and "run_steps cache_step ([], new_cache limit) ops = (candidates, c)"
  shows "total_bytes c \<le> max 0 limit
    \<and> resident_bytes c = (\<Sum>(r, e)\<leftarrow>entries c. int (sum_list (map snd (entry_events e))))
    \<and> candidate_bytes c = (\<Sum>(n, k)\<leftarrow>candidates. int (sum_list (map snd (candidate_events k))))
    \<and> distinct (map fst (entries c))
    \<and> (\<forall>(r, e)\<in>set (entries c). entry_revision e = r \<and> length (entry_events e) = entry_event_count e)
    \<and> distinct (ineligible c) \<and> length (ineligible c) \<le> 256"
proof -
  have ok: "system_ok (candidates, c)" "max_bytes c = nat (max 0 limit)"
    using macro_cache.inv_run [OF assms(1)] by (simp_all add: assms(2))
  then have c: "cache_ok c" "\<forall>p\<in>set candidates. cache_candidate_ok (snd p)" "candidate_bytes c = reserved candidates"
    by (simp_all add: system_ok_def)
  note d = cache_okD [OF c(1)]
  have "entry_bytes (entries c) = (\<Sum>(r, e)\<leftarrow>entries c. int (sum_list (map snd (entry_events e))))"
    unfolding entry_bytes_def using d(1)
    by (intro arg_cong [of _ _ sum_list] map_cong refl) (auto simp: entry_ok_def)
  moreover have "reserved candidates = (\<Sum>(n, k)\<leftarrow>candidates. int (sum_list (map snd (candidate_events k))))"
    unfolding reserved_def using c(2)
    by (intro arg_cong [of _ _ sum_list] map_cong refl) (auto simp: cache_candidate_ok_def)
  moreover have "\<forall>(r, e)\<in>set (entries c). entry_revision e = r \<and> length (entry_events e) = entry_event_count e"
    using d(1) by (auto simp: entry_ok_def)
  ultimately show ?thesis
    using d ok(2) c(3) by (simp add: total_bytes_def MAX_INELIGIBLE_REVISIONS_def)
qed

text \<open>Two macros of 6 bytes in a cache of 10: the second evicts the first.\<close>

definition cache_demo :: "(nat, nat) cache_op list" where
  "cache_demo = [CBegin 0 (''a'', 1) 2, CObserve 0 (7, 3), CObserve 0 (8, 3), CCommit 0,
     CBegin 1 (''b'', 1) 2, CObserve 1 (7, 3), CObserve 1 (8, 3), CCommit 1, CGet (''b'', 1)]"

theorem cache_budget_witness:
  "total_bytes (snd (run_steps cache_step ([], new_cache 10) cache_demo)) \<le> 10
   \<and> map fst (entries (snd (run_steps cache_step ([], new_cache 10) cache_demo))) = [(''b'', 1)]"
proof -
  have "guarded_run cache_guard cache_step ([], new_cache 10) cache_demo" by code_simp
  from conjunct1 [OF cache_budget [OF this surjective_pairing]]
  have "total_bytes (snd (run_steps cache_step ([], new_cache 10) cache_demo)) \<le> 10" by simp
  moreover have "map fst (entries (snd (run_steps cache_step ([], new_cache 10) cache_demo))) = [(''b'', 1)]"
    by code_simp
  ultimately show ?thesis ..
qed

text \<open>Eviction is least recently used and no more than needed: reserving bytes for a candidate drops the
  shortest front part of the entries that makes room, and fails, with nothing but candidates left to
  count, only when the candidates alone exceed the limit; a lookup moves the entry it finds to
  the end, the part evicted last, answers an entry of exactly the wanted revision of the file, and
  leaves no entry of another revision of that file behind.\<close>

theorem lru_eviction:
  assumes "guarded_run cache_guard cache_step ([], new_cache limit) ops"
    and "c = snd (run_steps cache_step ([], new_cache limit) ops)"
    and "reserve_candidate_bytes w c = (b, c')" and "cache_get r c = (found, c'')"
  shows "(\<exists>k. entries c' = drop k (entries c)
       \<and> (\<forall>j<k. entry_bytes (drop j (entries c)) + candidate_bytes c + int w > int (max_bytes c)))
    \<and> (b \<longleftrightarrow> candidate_bytes c + int w \<le> int (max_bytes c)) \<and> (b \<longrightarrow> total_bytes c' \<le> int (max_bytes c))
    \<and> (case found of
         None \<Rightarrow> r \<notin> fst ` set (entries c)
       | Some e \<Rightarrow> entry_revision e = r \<and> entries c'' \<noteq> [] \<and> last (entries c'') = (r, e))
    \<and> (\<forall>q\<in>fst ` set (entries c''). fst q = fst r \<longrightarrow> q = r)"
proof -
  have ok: "system_ok (run_steps cache_step ([], new_cache limit) ops)"
    using macro_cache.inv_run [OF assms(1)] by simp
  then have c: "cache_ok c" "0 \<le> candidate_bytes c" by (simp_all add: assms(2) system_ok_def)
  note res = reserve_ok [OF c(1) assms(3) c(2)] and get = get_ok [OF c(1) assms(4)]
  have "r \<notin> fst ` set (entries c)" if "found = None"
  proof -
    have "map_of (entries (discard_other_revisions r c)) r = None"
      using assms(4) that by (auto simp: cache_get_def Let_def split: option.splits)
    then have "r \<notin> fst ` set (entries (discard_other_revisions r c))" by (simp add: map_of_eq_None_iff)
    then show ?thesis by (auto simp: discard_other_revisions_def other_revision_def)
  qed
  moreover have "total_bytes c' \<le> int (max_bytes c)"
    using res cache_okD(4) [of c'] by (simp add: total_bytes_def)
  ultimately show ?thesis using res get by (auto split: option.split)
qed

theorem lru_eviction_witness:
  "\<exists>k. entries (snd (reserve_candidate_bytes 5 (snd (run_steps cache_step ([], new_cache 10) cache_demo))))
    = drop k (entries (snd (run_steps cache_step ([], new_cache 10) cache_demo)))"
proof -
  have "guarded_run cache_guard cache_step ([], new_cache 10) cache_demo" by code_simp
  from lru_eviction [OF this refl surjective_pairing surjective_pairing]
  show ?thesis by blast
qed

end
