(* ===== verification/Macro_Rapidfire.thy ===== *)
theory Macro_Rapidfire
  imports Json
begin

text \<open>
  Rapidfire blocks of a macro (\<open>keymasq/common/macro_rapidfire.py\<close>): the plan of a block of fixed
  duration, its pulses, and their expansion into events.  \<open>Fraction\<close> is a rational number.
\<close>

section \<open>Plans\<close>

definition MIN_RAPIDFIRE_HOLD_MS :: int where "MIN_RAPIDFIRE_HOLD_MS = 0"
definition MIN_RAPIDFIRE_WAIT_MS :: int where "MIN_RAPIDFIRE_WAIT_MS = 1"
definition DEFAULT_RAPIDFIRE_HOLD_MS :: int where "DEFAULT_RAPIDFIRE_HOLD_MS = 20"
definition DEFAULT_RAPIDFIRE_WAIT_MS :: int where "DEFAULT_RAPIDFIRE_WAIT_MS = 20"

definition clamp_rapidfire_hold_ms :: "int \<Rightarrow> int" where
  "clamp_rapidfire_hold_ms hold_ms = max MIN_RAPIDFIRE_HOLD_MS hold_ms"

definition clamp_rapidfire_wait_ms :: "int \<Rightarrow> int" where
  "clamp_rapidfire_wait_ms wait_ms = max MIN_RAPIDFIRE_WAIT_MS wait_ms"

record MacroRapidfirePlan =
  duration_us :: int
  hold_us :: int
  pulse_count :: int

definition wait_us :: "MacroRapidfirePlan \<Rightarrow> rat" where
  "wait_us p =
    (if pulse_count p = 1 then 0
     else of_int (duration_us p - pulse_count p * hold_us p) / of_int (pulse_count p - 1))"

definition pulse :: "MacroRapidfirePlan \<Rightarrow> int \<Rightarrow> int \<times> int" where
  "pulse p index =
    (if pulse_count p = 1 then (0, duration_us p)
     else (let gaps = pulse_count p - 1;
               press = ((duration_us p - hold_us p) * index + gaps div 2) div gaps
           in (press, press + hold_us p)))"

definition wait_error :: "int \<Rightarrow> int \<Rightarrow> int \<Rightarrow> int \<Rightarrow> rat" where
  "wait_error duration hold wait n = \<bar>of_int (duration - n * hold) / of_int (n - 1) - of_int wait\<bar>"

definition max_pulses :: "int \<Rightarrow> int \<Rightarrow> int" where
  "max_pulses duration hold =
    (duration + MIN_RAPIDFIRE_WAIT_MS * 1000) div (hold + MIN_RAPIDFIRE_WAIT_MS * 1000)"

definition plan_macro_rapidfire :: "int \<Rightarrow> int \<Rightarrow> int \<Rightarrow> MacroRapidfirePlan" where
  "plan_macro_rapidfire duration hold_ms wait_ms =
    (let duration = max 0 duration;
         hold = clamp_rapidfire_hold_ms hold_ms * 1000;
         wait = clamp_rapidfire_wait_ms wait_ms * 1000;
         max_count = max_pulses duration hold
     in if max_count < 2 then \<lparr>duration_us = duration, hold_us = duration, pulse_count = 1\<rparr>
        else (let below = (duration + wait) div (hold + wait);
                  candidates = map (\<lambda>n. max 2 (min max_count n)) [below, below + 1];
                  best = py_min_key (\<lambda>n. (wait_error duration hold wait n, n)) candidates
              in \<lparr>duration_us = duration, hold_us = hold,
                  pulse_count = (case best of None \<Rightarrow> 1 | Some n \<Rightarrow> n)\<rparr>))"

section \<open>Events\<close>

definition int_of :: "(string \<times> json) list \<Rightarrow> string \<Rightarrow> int \<Rightarrow> int" where
  "int_of event key dflt = (case coerce_int (json_get event key) (Some dflt) of None \<Rightarrow> dflt | Some n \<Rightarrow> n)"

definition macro_event_end_us :: "(string \<times> json) list \<Rightarrow> int" where
  "macro_event_end_us event =
    (let start = int_of event ''t_us'' 0
     in if json_get event ''macro_action'' = JString ''macro_rapidfire''
        then start + max 0 (int_of event ''duration_us'' 0) else start)"

datatype rapidfire_error = TypeError | ValueError string | KeyError string

text \<open>A list or an object cannot be looked up in a Python set.\<close>

fun hashable :: "json \<Rightarrow> bool" where
  "hashable (JList xs) = False"
| "hashable (JObject d) = False"
| "hashable v = True"

definition pulse_events ::
    "(string \<times> json) list \<Rightarrow> int \<Rightarrow> MacroRapidfirePlan \<Rightarrow> int \<Rightarrow> (string \<times> json) list list" where
  "pulse_events target start plan index =
    (let (press, release) = pulse plan index
     in [target @ [(''value'', JInt 1), (''t_us'', JInt (start + press))],
         target @ [(''value'', JInt 0), (''t_us'', JInt (start + release))]])"

definition macro_rapidfire_events ::
    "(string \<times> json) list \<Rightarrow> rapidfire_error + (string \<times> json) list list" where
  "macro_rapidfire_events event =
    (if \<not> hashable (json_get event ''device_type'') then Inl TypeError
     else if json_get event ''device_type'' \<notin> {JString ''keyboard'', JString ''mouse'', JString ''gamepad''}
     then Inl (ValueError ''Macro rapidfire requires a keyboard, mouse, or gamepad button'')
     else if int_of event ''type'' 0 \<noteq> 1
     then Inl (ValueError ''Macro rapidfire requires an EV_KEY target'')
     else case map_of event ''code'' of
            None \<Rightarrow> Inl (KeyError ''code'')
          | Some code \<Rightarrow>
              (let plan = plan_macro_rapidfire (int_of event ''duration_us'' 0)
                            (int_of event ''rapidfire_hold_ms'' DEFAULT_RAPIDFIRE_HOLD_MS)
                            (int_of event ''rapidfire_wait_ms'' DEFAULT_RAPIDFIRE_WAIT_MS);
                   start = int_of event ''t_us'' 0;
                   target = [(''device_type'', json_get event ''device_type''),
                             (''type'', json_get event ''type''), (''code'', code)]
                            @ (if json_truthy (json_get event ''output_id'')
                               then [(''output_id'', json_get event ''output_id'')] else [])
               in Inr (concat (map (\<lambda>i. pulse_events target start plan (int i)) [0..<nat (pulse_count plan)]))))"

section \<open>Lemmas\<close>

lemma plan_cases:
  fixes d h w :: int
  defines "D \<equiv> max 0 d" and "H \<equiv> clamp_rapidfire_hold_ms h * 1000" and "W \<equiv> clamp_rapidfire_wait_ms w * 1000"
  shows "(max_pulses D H < 2 \<and> plan_macro_rapidfire d h w = \<lparr>duration_us = D, hold_us = D, pulse_count = 1\<rparr>)
    \<or> (\<exists>n. 2 \<le> max_pulses D H \<and> 2 \<le> n \<and> n \<le> max_pulses D H
        \<and> plan_macro_rapidfire d h w = \<lparr>duration_us = D, hold_us = H, pulse_count = n\<rparr>
        \<and> (let below = (D + W) div (H + W) in
             n \<in> (\<lambda>n. max 2 (min (max_pulses D H) n)) ` {below, below + 1}
             \<and> (\<forall>m\<in>(\<lambda>n. max 2 (min (max_pulses D H) n)) ` {below, below + 1}.
                   (wait_error D H W n, n) \<le> (wait_error D H W m, m))))"
proof (cases "max_pulses D H < 2")
  case True
  then show ?thesis by (simp add: plan_macro_rapidfire_def Let_def D_def H_def)
next
  case False
  let ?below = "(D + W) div (H + W)"
  let ?cs = "map (\<lambda>n. max 2 (min (max_pulses D H) n)) [?below, ?below + 1]"
  obtain n where n: "py_min_key (\<lambda>n. (wait_error D H W n, n)) ?cs = Some n"
    by (cases "py_min_key (\<lambda>n. (wait_error D H W n, n)) ?cs") auto
  have m: "n \<in> set ?cs" "\<forall>m\<in>set ?cs. (wait_error D H W n, n) \<le> (wait_error D H W m, m)"
    using py_min_key_Some [OF n] by blast+
  have "plan_macro_rapidfire d h w = \<lparr>duration_us = D, hold_us = H, pulse_count = n\<rparr>"
    using False n by (simp add: plan_macro_rapidfire_def Let_def D_def H_def W_def)
  moreover have "2 \<le> n" "n \<le> max_pulses D H" using m(1) False by auto
  ultimately show ?thesis using False m by (simp add: Let_def)
qed

lemma plan_count_pos: "1 \<le> pulse_count (plan_macro_rapidfire d h w)"
  using plan_cases [of d h w] by (elim disjE conjE exE) simp_all

lemma clamped:
  "0 \<le> clamp_rapidfire_hold_ms h" "1 \<le> clamp_rapidfire_wait_ms w"
  by (simp_all add: clamp_rapidfire_hold_ms_def clamp_rapidfire_wait_ms_def MIN_RAPIDFIRE_HOLD_MS_def MIN_RAPIDFIRE_WAIT_MS_def)

lemma int_le_div_iff:
  fixes n a q :: int
  assumes "0 < q"
  shows "n \<le> a div q \<longleftrightarrow> n * q \<le> a"
proof
  assume "n \<le> a div q"
  then have "n * q \<le> a div q * q" using assms by (intro mult_right_mono) simp_all
  also have "\<dots> \<le> a" using assms by (simp add: minus_mod_eq_div_mult [symmetric])
  finally show "n * q \<le> a" .
next
  assume "n * q \<le> a"
  then have "n * q div q \<le> a div q" using assms by (intro zdiv_mono1) simp_all
  then show "n \<le> a div q" using assms by simp
qed

lemma max_pulses_iff:
  "0 \<le> H \<Longrightarrow> n \<le> max_pulses D H \<longleftrightarrow> n * H + (n - 1) * 1000 \<le> D"
  using int_le_div_iff [of "H + 1000" n "D + 1000"]
  by (simp add: max_pulses_def MIN_RAPIDFIRE_WAIT_MS_def algebra_simps)

lemma max_pulses_room:
  assumes "0 \<le> H" "2 \<le> n" "n \<le> max_pulses D H"
  shows "(n - 1) * (H + 1000) \<le> D - H" and "H < D"
proof -
  show r: "(n - 1) * (H + 1000) \<le> D - H"
    using assms(3) by (simp add: max_pulses_iff [OF assms(1)] algebra_simps)
  have "1 * (H + 1000) \<le> (n - 1) * (H + 1000)" using assms(1,2) by (intro mult_right_mono) simp_all
  also note r
  finally show "H < D" using assms(1) by simp
qed

text \<open>The rounded offsets: they start at 0, end at the whole length, and keep every whole distance that
  the exact ones have.\<close>

lemma rounded_step:
  fixes A g i m :: int
  assumes "0 < g" "m * g \<le> A"
  shows "(A * i + g div 2) div g + m \<le> (A * (i + 1) + g div 2) div g"
proof -
  have "(A * i + g div 2) div g + m = (A * i + g div 2 + m * g) div g" using assms(1) by simp
  also have "\<dots> \<le> (A * (i + 1) + g div 2) div g"
    using assms by (intro zdiv_mono1) (simp_all add: algebra_simps)
  finally show ?thesis .
qed

lemma rounded_ends:
  fixes A g :: int
  assumes "0 < g"
  shows "(A * 0 + g div 2) div g = 0" "(A * g + g div 2) div g = A"
proof -
  have "g div 2 div g = 0" using assms by (intro div_pos_pos_trivial) auto
  then show "(A * 0 + g div 2) div g = 0" "(A * g + g div 2) div g = A"
    using assms by simp_all
qed

lemma rounded_bounds:
  fixes A g i :: int
  assumes "0 < g" "0 \<le> A" "0 \<le> i" "i \<le> g"
  shows "0 \<le> (A * i + g div 2) div g" "(A * i + g div 2) div g \<le> A"
proof -
  show "0 \<le> (A * i + g div 2) div g" using assms by (intro div_int_pos_iff [THEN iffD2]) auto
  have "(A * i + g div 2) div g \<le> (A * g + g div 2) div g"
    using assms by (intro zdiv_mono1 add_right_mono mult_left_mono) auto
  then show "(A * i + g div 2) div g \<le> A" unfolding rounded_ends(2) [OF assms(1)] .
qed

lemma pulses_fit:
  assumes plan: "plan = plan_macro_rapidfire d h w" and i: "0 \<le> i" "i < pulse_count plan"
    and pr: "pulse plan i = (press, release)"
  shows "0 \<le> press" "press \<le> release" "release \<le> max 0 d" "1 \<le> pulse_count plan"
    and "i = 0 \<Longrightarrow> press = 0"
    and "i = pulse_count plan - 1 \<Longrightarrow> release = max 0 d"
    and "i + 1 < pulse_count plan \<Longrightarrow> release + 1000 \<le> fst (pulse plan (i + 1))"
    and "pulse_count plan = 1 \<or> release = press + clamp_rapidfire_hold_ms h * 1000"
proof -
  define D where "D = max 0 d"
  define H where "H = clamp_rapidfire_hold_ms h * 1000"
  have H: "0 \<le> H" using clamped(1) by (simp add: H_def)
  have D: "0 \<le> D" by (simp add: D_def)
  consider (one) "plan = \<lparr>duration_us = D, hold_us = D, pulse_count = 1\<rparr>"
    | (many) n where "2 \<le> n" "n \<le> max_pulses D H" "plan = \<lparr>duration_us = D, hold_us = H, pulse_count = n\<rparr>"
    using plan_cases [of d h w] unfolding plan D_def [symmetric] H_def [symmetric] by blast
  then have "0 \<le> press \<and> press \<le> release \<and> release \<le> D \<and> 1 \<le> pulse_count plan
    \<and> (i = 0 \<longrightarrow> press = 0) \<and> (i = pulse_count plan - 1 \<longrightarrow> release = D)
    \<and> (i + 1 < pulse_count plan \<longrightarrow> release + 1000 \<le> fst (pulse plan (i + 1)))
    \<and> (pulse_count plan = 1 \<or> release = press + H)"
  proof cases
    case one
    with pr D i show ?thesis by (auto simp: pulse_def)
  next
    case many
    define g where "g = n - 1"
    have g: "0 < g" using many(1) by (simp add: g_def)
    note room = max_pulses_room [OF H many(1,2)]
    have p: "press = ((D - H) * i + g div 2) div g" "release = press + H"
      using pr many(1,3) by (auto simp: pulse_def Let_def g_def)
    have ig: "i \<le> g" using i(2) many(3) by (simp add: g_def)
    have b: "0 \<le> press" "press \<le> D - H"
      using rounded_bounds [OF g _ i(1) ig, of "D - H"] room(2) by (simp_all add: p(1))
    have next_press: "fst (pulse plan (i + 1)) = ((D - H) * (i + 1) + g div 2) div g"
      using many(1,3) by (simp add: pulse_def Let_def g_def)
    have "release + 1000 \<le> fst (pulse plan (i + 1))"
      using rounded_step [OF g, of "H + 1000" "D - H" i] room(1)
      by (simp add: next_press p g_def mult.commute)
    moreover have "i = 0 \<longrightarrow> press = 0" using rounded_ends(1) [OF g, of "D - H"] by (simp add: p(1))
    moreover have "i = pulse_count plan - 1 \<longrightarrow> release = D"
      using rounded_ends(2) [OF g, of "D - H"] by (simp add: p many(3) g_def)
    ultimately show ?thesis using b H many by (auto simp: p(2))
  qed
  then show "0 \<le> press" "press \<le> release" "release \<le> max 0 d" "1 \<le> pulse_count plan"
    "i = 0 \<Longrightarrow> press = 0" "i = pulse_count plan - 1 \<Longrightarrow> release = max 0 d"
    "i + 1 < pulse_count plan \<Longrightarrow> release + 1000 \<le> fst (pulse plan (i + 1))"
    "pulse_count plan = 1 \<or> release = press + clamp_rapidfire_hold_ms h * 1000"
    by (simp_all add: D_def H_def)
qed

lemma wait_antitone:
  fixes D H m n :: int
  assumes "H < D" "2 \<le> m" "m < n"
  shows "(of_int (D - n * H) / of_int (n - 1) :: rat) < of_int (D - m * H) / of_int (m - 1)"
proof -
  have f: "(of_int (D - k * H) / of_int (k - 1) :: rat) = of_int (D - H) / of_int (k - 1) - of_int H" if k: "2 \<le> k" for k
  proof -
    define x where "x = (of_int (k - 1) :: rat)"
    have x: "x \<noteq> 0" using k by (simp add: x_def)
    have e: "(of_int (D - k * H) :: rat) = of_int (D - H) - x * of_int H"
      by (simp add: x_def algebra_simps)
    have "(a - x * b) / x = a / x - b" for a b using x by (simp add: diff_divide_distrib)
    then show ?thesis unfolding x_def [symmetric] e by blast
  qed
  have "(of_int (D - H) / of_int (n - 1) :: rat) < of_int (D - H) / of_int (m - 1)"
    using assms by (intro divide_strict_left_mono) (simp_all add: zero_less_mult_iff)
  then show ?thesis using f [of n] f [of m] assms(2,3) by simp
qed

lemma wait_side:
  fixes D H W n :: int
  assumes "0 < H + W" "2 \<le> n"
  shows "n \<le> (D + W) div (H + W) \<longleftrightarrow> (of_int W :: rat) \<le> of_int (D - n * H) / of_int (n - 1)"
proof -
  have "n \<le> (D + W) div (H + W) \<longleftrightarrow> n * (H + W) \<le> D + W"
    using assms(1) by (rule int_le_div_iff)
  also have "\<dots> \<longleftrightarrow> W * (n - 1) \<le> D - n * H" by (simp add: algebra_simps)
  also have "\<dots> \<longleftrightarrow> (of_int (W * (n - 1)) :: rat) \<le> of_int (D - n * H)" by (simp only: of_int_le_iff)
  also have "\<dots> \<longleftrightarrow> (of_int W :: rat) \<le> of_int (D - n * H) / of_int (n - 1)"
    using assms(2) by (subst pos_le_divide_eq) simp_all
  finally show ?thesis .
qed

section \<open>Properties\<close>

text \<open>C38. The plan is the best one: whenever two pulses fit in the block (with at least 1 ms between them),
  no other number of pulses that fits comes closer to the wanted wait, and none that comes equally
  close has fewer pulses; otherwise there is one pulse over the whole block.\<close>

theorem rapidfire_plan_optimal:
  fixes d h w :: int
  defines "D \<equiv> max 0 d" and "H \<equiv> clamp_rapidfire_hold_ms h * 1000" and "W \<equiv> clamp_rapidfire_wait_ms w * 1000"
  shows "if 2 * H + 1000 \<le> D
    then (\<exists>n. plan_macro_rapidfire d h w = \<lparr>duration_us = D, hold_us = H, pulse_count = n\<rparr>
        \<and> 2 \<le> n \<and> n * H + (n - 1) * 1000 \<le> D
        \<and> (\<forall>m. 2 \<le> m \<and> m * H + (m - 1) * 1000 \<le> D \<longrightarrow>
             wait_error D H W n < wait_error D H W m \<or> (wait_error D H W n = wait_error D H W m \<and> n \<le> m)))
    else plan_macro_rapidfire d h w = \<lparr>duration_us = D, hold_us = D, pulse_count = 1\<rparr>"
proof -
  have H: "0 \<le> H" and W: "1000 \<le> W" using clamped by (simp_all add: H_def W_def)
  note fits = max_pulses_iff [OF H, of _ D]
  have two: "2 \<le> max_pulses D H \<longleftrightarrow> 2 * H + 1000 \<le> D" using fits [of 2] by simp
  define below where "below = (D + W) div (H + W)"
  define f where "f n = (of_int (D - n * H) / of_int (n - 1) :: rat)" for n
  have err: "wait_error D H W n = \<bar>f n - of_int W\<bar>" for n by (simp add: wait_error_def f_def)
  show ?thesis
  proof (cases "2 * H + 1000 \<le> D")
    case False
    with two plan_cases [of d h w] show ?thesis by (auto simp: D_def H_def)
  next
    case True
    then have M: "2 \<le> max_pulses D H" using two by simp
    obtain n where n: "2 \<le> n" "n \<le> max_pulses D H"
      "plan_macro_rapidfire d h w = \<lparr>duration_us = D, hold_us = H, pulse_count = n\<rparr>"
      "\<forall>m\<in>(\<lambda>n. max 2 (min (max_pulses D H) n)) ` {below, below + 1}.
          (wait_error D H W n, n) \<le> (wait_error D H W m, m)"
      using plan_cases [of d h w] M
      unfolding D_def [symmetric] H_def [symmetric] W_def [symmetric] below_def [symmetric] Let_def by auto
    have D: "H < D" by (rule max_pulses_room(2) [OF H n(1,2)])
    have anti: "f n < f m" if "2 \<le> m" "m < n" for m n
      unfolding f_def by (rule wait_antitone [OF D that])
    have side: "n \<le> below \<longleftrightarrow> of_int W \<le> f n" if "2 \<le> n" for n
      unfolding f_def below_def using wait_side [of H W n D] H W that by simp
    have best: "wait_error D H W n < wait_error D H W c \<or> (wait_error D H W n = wait_error D H W c \<and> n \<le> c)"
      if "c = max 2 (min (max_pulses D H) below) \<or> c = max 2 (min (max_pulses D H) (below + 1))" for c
    proof -
      have "(wait_error D H W n, n) \<le> (wait_error D H W c, c)" using n(4) that by blast
      then show ?thesis by (auto simp: less_eq_prod_def le_less)
    qed
    have closer: "wait_error D H W n < wait_error D H W m \<or> (wait_error D H W n = wait_error D H W m \<and> n \<le> m)"
      if m: "2 \<le> m" "m \<le> max_pulses D H" for m
    proof (cases "m \<le> below")
      case True
      define c where "c = max 2 (min (max_pulses D H) below)"
      have c: "m \<le> c" "c \<le> below" "2 \<le> c" using m True by (auto simp: c_def)
      have "of_int W \<le> f c" using side [OF c(3)] c(2) by simp
      moreover have "f c \<le> f m" using anti [OF m(1), of c] c(1) by (cases "m = c") auto
      moreover have "c = m \<or> f c < f m" using anti [OF m(1), of c] c(1) by (cases "m = c") auto
      ultimately have "c = m \<or> wait_error D H W c < wait_error D H W m" by (auto simp: err)
      with best [of c] show ?thesis by (auto simp: c_def)
    next
      case False
      define c where "c = max 2 (min (max_pulses D H) (below + 1))"
      have c: "c \<le> m" "below < c" "2 \<le> c" using m False by (auto simp: c_def)
      have "f c < of_int W" using side [OF c(3)] c(2) by simp
      moreover have "c = m \<or> f m < f c" using anti [OF c(3), of m] c(1) by (cases "m = c") auto
      ultimately have "c = m \<or> wait_error D H W c < wait_error D H W m" by (auto simp: err)
      with best [of c] show ?thesis by (auto simp: c_def)
    qed
    have "n * H + (n - 1) * 1000 \<le> D" using n(2) fits by blast
    moreover have "\<forall>m. 2 \<le> m \<and> m * H + (m - 1) * 1000 \<le> D \<longrightarrow>
        wait_error D H W n < wait_error D H W m \<or> (wait_error D H W n = wait_error D H W m \<and> n \<le> m)"
      using closer fits by blast
    ultimately show ?thesis using True n(1,3) by auto
  qed
qed

theorem rapidfire_plan_optimal_witness:
  "\<exists>n. plan_macro_rapidfire 100500 20 15 = \<lparr>duration_us = 100500, hold_us = 20000, pulse_count = n\<rparr>
     \<and> wait_error 100500 20000 15000 n \<le> wait_error 100500 20000 15000 4"
proof -
  have hold: "clamp_rapidfire_hold_ms 20 = 20" and wait: "clamp_rapidfire_wait_ms 15 = 15" by code_simp+
  have "\<exists>n. plan_macro_rapidfire 100500 20 15 = \<lparr>duration_us = 100500, hold_us = 20000, pulse_count = n\<rparr>
      \<and> 2 \<le> n \<and> n * 20000 + (n - 1) * 1000 \<le> 100500
      \<and> (\<forall>m. 2 \<le> m \<and> m * 20000 + (m - 1) * 1000 \<le> 100500 \<longrightarrow>
           wait_error 100500 20000 15000 n < wait_error 100500 20000 15000 m
           \<or> (wait_error 100500 20000 15000 n = wait_error 100500 20000 15000 m \<and> n \<le> m))"
    using rapidfire_plan_optimal [of 20 100500 15] by (simp add: hold wait)
  then obtain n where n: "plan_macro_rapidfire 100500 20 15 = \<lparr>duration_us = 100500, hold_us = 20000, pulse_count = n\<rparr>"
    and best: "\<forall>m. 2 \<le> m \<and> m * 20000 + (m - 1) * 1000 \<le> 100500 \<longrightarrow>
           wait_error 100500 20000 15000 n < wait_error 100500 20000 15000 m
           \<or> (wait_error 100500 20000 15000 n = wait_error 100500 20000 15000 m \<and> n \<le> m)"
    by blast
  have "wait_error 100500 20000 15000 n \<le> wait_error 100500 20000 15000 4"
    using best [rule_format, of 4] by auto
  with n show ?thesis by blast
qed
lemma concat_pairs:
  "concat (map (\<lambda>i. [a i, b i]) [0..<n]) ! (2 * i) = a i"
  "concat (map (\<lambda>i. [a i, b i]) [0..<n]) ! (2 * i + 1) = b i" if "i < n"
  using that by (induction n) (auto simp: nth_append length_concat sum_list_triv o_def less_Suc_eq)

lemma length_concat_pairs: "length (concat (map (\<lambda>i. [a i, b i]) [0..<n])) = 2 * n"
  by (induction n) simp_all

text \<open>A block expands into what it says: on a keyboard, mouse or gamepad key the events alternate press
  and release, in the order of their times; the first is at the block's start and the last at its
  end, which is where \<open>macro_event_end_us\<close> puts it; and at least 1 ms lies between a release and
  the next press.  Any other target is refused.\<close>

theorem rapidfire_events_fit:
  assumes "macro_rapidfire_events event = Inr evs"
    and "json_get event ''macro_action'' = JString ''macro_rapidfire''"
  shows "\<exists>n\<ge>1. length evs = 2 * n
    \<and> (\<forall>i<n. json_get (evs ! (2 * i)) ''value'' = JInt 1 \<and> json_get (evs ! (2 * i + 1)) ''value'' = JInt 0
        \<and> int_of (evs ! (2 * i)) ''t_us'' 0 \<le> int_of (evs ! (2 * i + 1)) ''t_us'' 0)
    \<and> (\<forall>i. i + 1 < n \<longrightarrow>
        int_of (evs ! (2 * i + 1)) ''t_us'' 0 + 1000 \<le> int_of (evs ! (2 * (i + 1))) ''t_us'' 0)
    \<and> int_of (evs ! 0) ''t_us'' 0 = int_of event ''t_us'' 0
    \<and> int_of (evs ! (2 * n - 1)) ''t_us'' 0 = macro_event_end_us event"
proof -
  define d where "d = int_of event ''duration_us'' 0"
  define h where "h = int_of event ''rapidfire_hold_ms'' DEFAULT_RAPIDFIRE_HOLD_MS"
  define plan where "plan = plan_macro_rapidfire d h (int_of event ''rapidfire_wait_ms'' DEFAULT_RAPIDFIRE_WAIT_MS)"
  define n where "n = nat (pulse_count plan)"
  define start where "start = int_of event ''t_us'' 0"
  obtain target where evs: "evs = concat (map (\<lambda>i. pulse_events target start plan (int i)) [0..<n])"
    and t: "map_of target ''value'' = None" "map_of target ''t_us'' = None"
    using assms(1)
    by (auto simp: macro_rapidfire_events_def Let_def d_def h_def plan_def n_def start_def
        split: if_splits option.splits)
  define a where "a i = target @ [(''value'', JInt 1), (''t_us'', JInt (start + fst (pulse plan (int i))))]" for i
  define b where "b i = target @ [(''value'', JInt 0), (''t_us'', JInt (start + snd (pulse plan (int i))))]" for i
  have pairs: "evs = concat (map (\<lambda>i. [a i, b i]) [0..<n])"
    by (simp add: evs pulse_events_def a_def b_def case_prod_beta Let_def)
  have vals: "json_get (a i) ''value'' = JInt 1" "json_get (b i) ''value'' = JInt 0"
    "int_of (a i) ''t_us'' 0 = start + fst (pulse plan (int i))"
    "int_of (b i) ''t_us'' 0 = start + snd (pulse plan (int i))" for i
    using t by (simp_all add: json_get_def a_def b_def map_add_def int_of_def coerce_int_def)
  have fit: "fst (pulse plan (int i)) \<le> snd (pulse plan (int i))"
    "i = 0 \<Longrightarrow> fst (pulse plan (int i)) = 0"
    "i = n - 1 \<Longrightarrow> snd (pulse plan (int i)) = max 0 d"
    "i + 1 < n \<Longrightarrow> snd (pulse plan (int i)) + 1000 \<le> fst (pulse plan (int i + 1))" if "i < n" for i
  proof -
    have i: "0 \<le> int i" "int i < pulse_count plan" using that by (simp_all add: n_def)
    note p = pulses_fit [OF plan_def i surjective_pairing]
    show "fst (pulse plan (int i)) \<le> snd (pulse plan (int i))" by (rule p(2))
    show "i = 0 \<Longrightarrow> fst (pulse plan (int i)) = 0" using p(5) by simp
    show "i = n - 1 \<Longrightarrow> snd (pulse plan (int i)) = max 0 d" using p(4,6) that by (simp add: n_def of_nat_diff)
    show "i + 1 < n \<Longrightarrow> snd (pulse plan (int i)) + 1000 \<le> fst (pulse plan (int i + 1))"
      using p(7) by (simp add: n_def)
  qed
  have n1: "1 \<le> n"
  proof -
    have "1 \<le> pulse_count plan" unfolding plan_def by (rule plan_count_pos)
    then show ?thesis by (simp add: n_def)
  qed
  have last: "2 * n - 1 = 2 * (n - 1) + 1" using n1 by simp
  show ?thesis
  proof (intro exI [of _ n] conjI allI impI)
    show "1 \<le> n" by (rule n1)
    show "length evs = 2 * n" by (simp add: pairs length_concat_pairs)
    show "int_of (evs ! 0) ''t_us'' 0 = int_of event ''t_us'' 0"
      using concat_pairs(1) [of 0 n a b] n1 fit(2) [of 0] by (simp add: pairs vals start_def)
    show "int_of (evs ! (2 * n - 1)) ''t_us'' 0 = macro_event_end_us event"
      unfolding last using concat_pairs(2) [of "n - 1" n a b] n1 fit(3) [of "n - 1"] assms(2)
      by (simp add: pairs vals macro_event_end_us_def start_def d_def)
  next
    fix i assume i: "i < n"
    show "json_get (evs ! (2 * i)) ''value'' = JInt 1" "json_get (evs ! (2 * i + 1)) ''value'' = JInt 0"
      "int_of (evs ! (2 * i)) ''t_us'' 0 \<le> int_of (evs ! (2 * i + 1)) ''t_us'' 0"
      using concat_pairs [OF i, of a b] fit(1) [OF i] by (simp_all add: pairs vals)
  next
    fix i assume i: "i + 1 < n"
    then have "i < n" by simp
    show "int_of (evs ! (2 * i + 1)) ''t_us'' 0 + 1000 \<le> int_of (evs ! (2 * (i + 1))) ''t_us'' 0"
      using concat_pairs(2) [OF \<open>i < n\<close>, of a b] concat_pairs(1) [OF i, of a b] fit(4) [OF \<open>i < n\<close> i]
      by (simp add: pairs vals add.commute [of 1])
  qed
qed

definition demo_block :: "(string \<times> json) list" where
  "demo_block = [(''macro_action'', JString ''macro_rapidfire''), (''device_type'', JString ''keyboard''),
     (''type'', JInt 1), (''code'', JInt 30), (''t_us'', JInt 500), (''duration_us'', JInt 100000)]"

theorem rapidfire_events_fit_witness:
  "\<exists>evs n. macro_rapidfire_events demo_block = Inr evs \<and> length evs = 2 * n
     \<and> int_of (evs ! (2 * n - 1)) ''t_us'' 0 = 100500"
proof -
  obtain evs where e: "macro_rapidfire_events demo_block = Inr evs"
    by (cases "macro_rapidfire_events demo_block")
       (auto simp: macro_rapidfire_events_def demo_block_def json_get_def int_of_def coerce_int_def Let_def)
  have "json_get demo_block ''macro_action'' = JString ''macro_rapidfire''" by code_simp
  moreover have "macro_event_end_us demo_block = 100500" by code_simp
  ultimately show ?thesis using rapidfire_events_fit [OF e] e by auto
qed

end
