(* ===== verification/Rollover_Groups.thy ===== *)
theory Rollover_Groups
  imports Json
begin

text \<open>
  Rollover groups, \<open>keymasq/common/rollover.py\<close>: the two parsers (the lenient one of the IPC and the
  strict one of profile files), the encoder, the layering of the groups of several profiles and the
  removal of members.  Messages of errors are constructors that carry what the message names; a
  value read from TOML is a value of \<open>json\<close>.
\<close>

section \<open>Groups\<close>

datatype RolloverWinner = NEWEST | OLDEST | NEUTRAL | PRIORITY

record RolloverMember =
  hardware_id :: string
  button :: string

record RolloverGroup =
  name :: string
  members :: "RolloverMember list"
  winner :: RolloverWinner
  restore :: bool

definition ROLLOVER_MIN_MEMBERS :: nat where
  "ROLLOVER_MIN_MEMBERS = 2"

fun winner_value :: "RolloverWinner \<Rightarrow> string" where
  "winner_value NEWEST = ''newest''"
| "winner_value OLDEST = ''oldest''"
| "winner_value NEUTRAL = ''neutral''"
| "winner_value PRIORITY = ''priority''"

definition all_winners :: "RolloverWinner list" where
  "all_winners = [NEWEST, OLDEST, NEUTRAL, PRIORITY]"

section \<open>Lenient parsing\<close>

text \<open>\<open>str(value or "")\<close>.\<close>

definition text_or_empty :: "(json \<Rightarrow> string) \<Rightarrow> json \<Rightarrow> string" where
  "text_or_empty repr v = (if json_truthy v then py_str repr v else [])"

definition parse_rollover_winner :: "(json \<Rightarrow> string) \<Rightarrow> json \<Rightarrow> RolloverWinner" where
  "parse_rollover_winner repr v =
    (let token = py_lower (py_strip (text_or_empty repr v))
     in case find (\<lambda>w. winner_value w = token) all_winners of Some w \<Rightarrow> w | None \<Rightarrow> NEWEST)"

fun rollover_member_from_data :: "(json \<Rightarrow> string) \<Rightarrow> json \<Rightarrow> RolloverMember option" where
  "rollover_member_from_data repr (JObject values) =
    (let hw = py_strip (text_or_empty repr (json_get values ''hardware_id''));
         b = py_strip (text_or_empty repr (json_get values ''button''))
     in if hw = [] \<or> b = [] then None else Some \<lparr>hardware_id = hw, button = b\<rparr>)"
| "rollover_member_from_data repr v = None"

definition rollover_member_to_data :: "RolloverMember \<Rightarrow> json" where
  "rollover_member_to_data m =
    JObject [(''hardware_id'', JString (hardware_id m)), (''button'', JString (button m))]"

definition add_member :: "(json \<Rightarrow> string) \<Rightarrow> RolloverMember list \<Rightarrow> json \<Rightarrow> RolloverMember list" where
  "add_member repr ms raw =
    (case rollover_member_from_data repr raw of
       None \<Rightarrow> ms
     | Some m \<Rightarrow> if m \<in> set ms then ms else ms @ [m])"

fun normalize_rollover_members :: "(json \<Rightarrow> string) \<Rightarrow> json \<Rightarrow> RolloverMember list" where
  "normalize_rollover_members repr (JList raws) = foldl (add_member repr) [] raws"
| "normalize_rollover_members repr v = []"

fun rollover_group_from_data :: "(json \<Rightarrow> string) \<Rightarrow> json \<Rightarrow> RolloverGroup option" where
  "rollover_group_from_data repr (JObject values) =
    (let ms = normalize_rollover_members repr (json_get values ''members'')
     in if length ms < ROLLOVER_MIN_MEMBERS then None
        else Some \<lparr>name = py_strip (text_or_empty repr (json_get values ''name'')),
                   members = ms,
                   winner = parse_rollover_winner repr (json_get values ''winner''),
                   restore = the (coerce_bool (json_get values ''restore'') True False)\<rparr>)"
| "rollover_group_from_data repr v = None"

fun rollover_groups_from_data :: "(json \<Rightarrow> string) \<Rightarrow> json \<Rightarrow> RolloverGroup list" where
  "rollover_groups_from_data repr (JList items) = List.map_filter (rollover_group_from_data repr) items"
| "rollover_groups_from_data repr v = []"

definition rollover_group_to_data :: "RolloverGroup \<Rightarrow> json" where
  "rollover_group_to_data g =
    JObject [(''name'', JString (name g)),
             (''members'', JList (map rollover_member_to_data (members g))),
             (''winner'', JString (winner_value (winner g))),
             (''restore'', JBool (restore g))]"

section \<open>Strict parsing of profile files\<close>

datatype group_label = Named string | Numbered nat

datatype rollover_error =
    NotAnArray
  | NotATable nat
  | NameNotString nat
  | BadWinner group_label json
  | BadRestore group_label json
  | NoMembersArray group_label
  | BadMember group_label nat
  | ListedTwice group_label RolloverMember
  | InTwoGroups RolloverMember group_label group_label
  | TooFewMembers group_label

type_synonym owners = "RolloverMember \<rightharpoonup> group_label"

fun strict_member :: "json \<Rightarrow> RolloverMember option" where
  "strict_member (JObject values) =
    (case (json_get values ''hardware_id'', json_get values ''button'') of
       (JString hw, JString b) \<Rightarrow>
         if py_strip hw \<noteq> [] \<and> py_strip b \<noteq> []
         then Some \<lparr>hardware_id = py_strip hw, button = py_strip b\<rparr> else None
     | _ \<Rightarrow> None)"
| "strict_member v = None"

fun toml_members ::
  "group_label \<Rightarrow> owners \<Rightarrow> RolloverMember list \<Rightarrow> nat \<Rightarrow> json list
    \<Rightarrow> rollover_error + RolloverMember list \<times> owners"
where
  "toml_members label own ms position [] = Inr (ms, own)"
| "toml_members label own ms position (raw # raws) =
    (case strict_member raw of
       None \<Rightarrow> Inl (BadMember label position)
     | Some m \<Rightarrow>
         if m \<in> set ms then Inl (ListedTwice label m)
         else case own m of
                Some owner \<Rightarrow> Inl (InTwoGroups m owner label)
              | None \<Rightarrow> toml_members label (own(m \<mapsto> label)) (ms @ [m]) (position + 1) raws)"

fun is_winner_text :: "json \<Rightarrow> bool" where
  "is_winner_text (JString s) = (py_lower (py_strip s) \<in> set (map winner_value all_winners))"
| "is_winner_text v = False"

text \<open>One table: the checks in the order of the code.\<close>

fun toml_group ::
  "(json \<Rightarrow> string) \<Rightarrow> owners \<Rightarrow> nat \<Rightarrow> json \<Rightarrow> rollover_error + RolloverGroup \<times> owners"
where
  "toml_group repr own index (JObject values) =
    (case json_get_default values ''name'' (JString []) of
       JString nm \<Rightarrow>
         (let label = (if py_strip nm \<noteq> [] then Named (py_strip nm) else Numbered index);
              w = json_get values ''winner'';
              r = json_get values ''restore''
          in if w \<noteq> JNull \<and> \<not> is_winner_text w then Inl (BadWinner label w)
             else if r \<noteq> JNull \<and> \<not> is_json_bool r then Inl (BadRestore label r)
             else case json_get values ''members'' of
                    JList raws \<Rightarrow>
                      (case toml_members label own [] 1 raws of
                         Inl e \<Rightarrow> Inl e
                       | Inr (ms, own') \<Rightarrow>
                           if length ms < ROLLOVER_MIN_MEMBERS then Inl (TooFewMembers label)
                           else Inr (\<lparr>name = py_strip nm, members = ms,
                                      winner = parse_rollover_winner repr w,
                                      restore = (if r = JNull then True else json_truthy r)\<rparr>, own'))
                  | _ \<Rightarrow> Inl (NoMembersArray label))
     | _ \<Rightarrow> Inl (NameNotString index))"
| "toml_group repr own index v = Inl (NotATable index)"

fun toml_groups ::
  "(json \<Rightarrow> string) \<Rightarrow> owners \<Rightarrow> nat \<Rightarrow> json list \<Rightarrow> rollover_error + RolloverGroup list"
where
  "toml_groups repr own index [] = Inr []"
| "toml_groups repr own index (item # items) =
    (case toml_group repr own index item of
       Inl e \<Rightarrow> Inl e
     | Inr (g, own') \<Rightarrow>
         (case toml_groups repr own' (index + 1) items of
            Inl e \<Rightarrow> Inl e
          | Inr gs \<Rightarrow> Inr (g # gs)))"

fun rollover_groups_from_toml :: "(json \<Rightarrow> string) \<Rightarrow> json \<Rightarrow> rollover_error + RolloverGroup list" where
  "rollover_groups_from_toml repr JNull = Inr []"
| "rollover_groups_from_toml repr (JList items) = toml_groups repr Map.empty 1 items"
| "rollover_groups_from_toml repr v = Inl NotAnArray"

section \<open>Layers and removal\<close>

definition add_layer :: "RolloverGroup list \<Rightarrow> RolloverGroup \<Rightarrow> RolloverGroup list" where
  "add_layer layered g =
    (if card (set (members g)) < ROLLOVER_MIN_MEMBERS then layered
     else filter (\<lambda>existing. set (members g) \<inter> set (members existing) = {}) layered @ [g])"

definition layer_rollover_groups :: "RolloverGroup list \<Rightarrow> RolloverGroup list" where
  "layer_rollover_groups gs = foldl add_layer [] gs"

definition drop_rollover_members ::
  "RolloverGroup list \<Rightarrow> (RolloverMember \<Rightarrow> bool) \<Rightarrow> RolloverGroup list"
where
  "drop_rollover_members gs dropped =
    List.map_filter (\<lambda>g. let ms = filter (\<lambda>m. \<not> dropped m) (members g)
                        in if length ms < ROLLOVER_MIN_MEMBERS then None else Some (g\<lparr>members := ms\<rparr>)) gs"

definition remove_rollover_member :: "RolloverGroup list \<Rightarrow> RolloverMember \<Rightarrow> RolloverGroup list" where
  "remove_rollover_member gs m = drop_rollover_members gs (\<lambda>c. c = m)"

definition remove_rollover_device :: "RolloverGroup list \<Rightarrow> string \<Rightarrow> RolloverGroup list" where
  "remove_rollover_device gs hw = drop_rollover_members gs (\<lambda>c. hardware_id c = hw)"

definition rollover_group_for_member :: "RolloverGroup list \<Rightarrow> RolloverMember \<Rightarrow> RolloverGroup option" where
  "rollover_group_for_member gs m = find (\<lambda>g. m \<in> set (members g)) gs"

definition default_rollover_group_name :: "RolloverMember list \<Rightarrow> (RolloverMember \<rightharpoonup> string) \<Rightarrow> string" where
  "default_rollover_group_name ms labels =
    (let names = map (\<lambda>m. case labels m of
           Some l \<Rightarrow> if l \<noteq> [] then l else button m | None \<Rightarrow> button m) ms
     in concat (case names of [] \<Rightarrow> [] | n # ns \<Rightarrow> n # map (\<lambda>x. '' / '' @ x) ns))"

section \<open>What the strict parser accepts\<close>

definition stripped_text :: "string \<Rightarrow> bool" where
  "stripped_text s \<longleftrightarrow> s \<noteq> [] \<and> py_strip s = s"

definition member_ok :: "RolloverMember \<Rightarrow> bool" where
  "member_ok m \<longleftrightarrow> stripped_text (hardware_id m) \<and> stripped_text (button m)"

definition group_ok :: "RolloverGroup \<Rightarrow> bool" where
  "group_ok g \<longleftrightarrow> py_strip (name g) = name g \<and> (\<forall>m\<in>set (members g). member_ok m)
    \<and> distinct (members g) \<and> ROLLOVER_MIN_MEMBERS \<le> length (members g)"

definition no_shared_member :: "RolloverGroup list \<Rightarrow> bool" where
  "no_shared_member gs \<longleftrightarrow> sorted_wrt (\<lambda>g h. set (members g) \<inter> set (members h) = {}) gs"

lemma text_or_empty_simps [simp]:
  "text_or_empty repr (JString s) = s" "text_or_empty repr JNull = []"
  by (simp_all add: text_or_empty_def)

lemma strict_member_lenient:
  "strict_member raw = Some m \<Longrightarrow> rollover_member_from_data repr raw = Some m \<and> member_ok m"
  by (cases raw) (auto simp: member_ok_def stripped_text_def Let_def split: json.splits if_splits)

lemma toml_members_result:
  assumes "toml_members label own ms position raws = Inr (ms', own')"
    and "distinct ms" "\<forall>m\<in>set ms. member_ok m"
  shows "distinct ms' \<and> (\<forall>m\<in>set ms'. member_ok m)
    \<and> foldl (add_member repr) ms raws = ms'
    \<and> (\<forall>m\<in>set ms'. m \<in> set ms \<or> own m = None)
    \<and> dom own' = dom own \<union> (set ms' - set ms) \<and> set ms \<subseteq> set ms'"
  using assms
proof (induction raws arbitrary: own ms position)
  case Nil
  then show ?case by auto
next
  case (Cons raw raws)
  from Cons.prems(1) obtain m where m: "strict_member raw = Some m" "m \<notin> set ms" "own m = None"
      "toml_members label (own(m \<mapsto> label)) (ms @ [m]) (position + 1) raws = Inr (ms', own')"
    by (auto split: option.splits if_splits)
  note lenient = strict_member_lenient [OF m(1), of repr]
  have "distinct (ms @ [m])" "\<forall>k\<in>set (ms @ [m]). member_ok k" using Cons.prems m(2) lenient by auto
  from Cons.IH [OF m(4) this] m lenient show ?case
    by (auto simp: add_member_def split: if_splits)
qed

lemma toml_group_result:
  assumes "toml_group repr own index item = Inr (g, own')"
  shows "rollover_group_from_data repr item = Some g \<and> group_ok g
    \<and> set (members g) \<inter> dom own = {} \<and> dom own' = dom own \<union> set (members g)"
proof (cases item)
  case (JObject vs)
  obtain nm where nm: "json_get_default vs ''name'' (JString []) = JString nm"
    using assms unfolding JObject by (auto split: json.splits)
  obtain raws where raws: "json_get vs ''members'' = JList raws"
    using assms unfolding JObject by (auto simp: nm Let_def split: if_splits json.splits)
  obtain label ms where ms: "toml_members label own [] 1 raws = Inr (ms, own')" "\<not> length ms < ROLLOVER_MIN_MEMBERS"
      and g: "g = \<lparr>name = py_strip nm, members = ms, winner = parse_rollover_winner repr (json_get vs ''winner''),
                restore = (if json_get vs ''restore'' = JNull then True else json_truthy (json_get vs ''restore''))\<rparr>"
      and r: "json_get vs ''restore'' = JNull \<or> is_json_bool (json_get vs ''restore'')"
    using assms unfolding JObject by (auto simp: nm raws Let_def split: if_splits sum.splits)
  have "restore g = the (coerce_bool (json_get vs ''restore'') True False)"
    using r by (cases "json_get vs ''restore''") (auto simp: g coerce_bool_def)
  moreover have "py_strip (text_or_empty repr (json_get vs ''name'')) = py_strip nm"
    using nm by (auto simp: json_get_def json_get_default_def split: option.splits)
  moreover note toml_members_result [OF ms(1), of repr]
  ultimately show ?thesis
    using ms(2) by (auto simp: JObject raws g group_ok_def Let_def)
qed (use assms in auto)

lemma toml_groups_result:
  assumes "toml_groups repr own index items = Inr gs"
  shows "length gs = length items \<and> List.map_filter (rollover_group_from_data repr) items = gs
    \<and> (\<forall>g\<in>set gs. group_ok g \<and> set (members g) \<inter> dom own = {}) \<and> no_shared_member gs"
  using assms
proof (induction items arbitrary: own index gs)
  case Nil
  then show ?case by (simp add: List.map_filter_simps no_shared_member_def)
next
  case (Cons item items)
  then obtain g own' gs' where g: "toml_group repr own index item = Inr (g, own')"
      and gs': "toml_groups repr own' (index + 1) items = Inr gs'" "gs = g # gs'"
    by (auto split: sum.splits prod.splits)
  note first = toml_group_result [OF g] and rest = Cons.IH [OF gs'(1)]
  then have "\<forall>h\<in>set gs'. set (members h) \<inter> dom own = {} \<and> set (members g) \<inter> set (members h) = {}" by blast
  with first rest gs'(2) show ?case by (simp add: List.map_filter_simps no_shared_member_def)
qed

lemma plain_member_data:
  "member_ok m \<Longrightarrow> strict_member (rollover_member_to_data m) = Some m"
  by (simp add: member_ok_def stripped_text_def rollover_member_to_data_def json_get_def)

lemma toml_members_data:
  assumes "\<forall>m\<in>set ns. member_ok m \<and> own m = None" and "distinct (ms @ ns)"
  shows "\<exists>own'. toml_members label own ms position (map rollover_member_to_data ns) = Inr (ms @ ns, own')
    \<and> dom own' = dom own \<union> set ns"
  using assms
proof (induction ns arbitrary: own ms position)
  case (Cons m ns)
  have "\<exists>own'. toml_members label (own(m \<mapsto> label)) (ms @ [m]) (position + 1) (map rollover_member_to_data ns)
      = Inr ((ms @ [m]) @ ns, own') \<and> dom own' = dom (own(m \<mapsto> label)) \<union> set ns"
    using Cons.prems by (intro Cons.IH) auto
  then show ?case using Cons.prems by (auto simp: plain_member_data)
qed auto

lemma winner_value_read: "parse_rollover_winner repr (JString (winner_value w)) = w \<and> is_winner_text (JString (winner_value w))"
proof -
  have "list_all (\<lambda>w. py_lower (py_strip (winner_value w)) = winner_value w) all_winners" by code_simp
  moreover have "w \<in> set all_winners" by (cases w) (simp_all add: all_winners_def)
  ultimately have "py_lower (py_strip (winner_value w)) = winner_value w" by (simp add: list_all_iff)
  then show ?thesis by (cases w) (simp_all add: parse_rollover_winner_def Let_def all_winners_def)
qed

lemma toml_group_data:
  assumes ok: "group_ok g" and free: "set (members g) \<inter> dom own = {}"
  shows "\<exists>own'. toml_group repr own index (rollover_group_to_data g) = Inr (g, own')
    \<and> dom own' = dom own \<union> set (members g)"
proof -
  have "\<forall>m\<in>set (members g). member_ok m \<and> own m = None" "distinct ([] @ members g)"
    using ok free by (auto simp: group_ok_def)
  note mem = toml_members_data [OF this, where position = 1]
  have "\<exists>own'. toml_members label own [] (Suc 0) (map rollover_member_to_data (members g)) = Inr (members g, own')
      \<and> dom own' = dom own \<union> set (members g)" for label
    using mem [of label] by simp
  from this [of "Named (name g)"] this [of "Numbered index"] show ?thesis
    using ok winner_value_read [of repr "winner g"]
    by (cases "name g = []")
       (auto simp: rollover_group_to_data_def json_get_def json_get_default_def Let_def group_ok_def)
qed

lemma toml_groups_data:
  assumes "\<forall>g\<in>set gs. group_ok g \<and> set (members g) \<inter> dom own = {}" and "no_shared_member gs"
  shows "toml_groups repr own index (map rollover_group_to_data gs) = Inr gs"
  using assms
proof (induction gs arbitrary: own index)
  case (Cons g gs)
  then obtain own' where own': "toml_group repr own index (rollover_group_to_data g) = Inr (g, own')"
      "dom own' = dom own \<union> set (members g)"
    using toml_group_data [of g own repr index] by auto
  have "toml_groups repr own' (index + 1) (map rollover_group_to_data gs) = Inr gs"
  proof (rule Cons.IH)
    show "no_shared_member gs" using Cons.prems(2) by (simp add: no_shared_member_def)
    have "set (members g) \<inter> set (members h) = {}" if "h \<in> set gs" for h
      using Cons.prems(2) that by (simp add: no_shared_member_def)
    with Cons.prems(1) show "\<forall>g\<in>set gs. group_ok g \<and> set (members g) \<inter> dom own' = {}"
      unfolding own'(2) by (simp add: Int_Un_distrib Int_commute)
  qed
  with own' show ?case by simp
qed simp

section \<open>Layers\<close>

definition shares_member :: "RolloverGroup \<Rightarrow> RolloverGroup \<Rightarrow> bool" where
  "shares_member g h \<longleftrightarrow> set (members g) \<inter> set (members h) \<noteq> {}"

definition large_enough :: "RolloverGroup \<Rightarrow> bool" where
  "large_enough g \<longleftrightarrow> ROLLOVER_MIN_MEMBERS \<le> card (set (members g))"

text \<open>What layering means: a group counts unless a later group shares a member with it.\<close>

fun visible_layers :: "RolloverGroup list \<Rightarrow> RolloverGroup list" where
  "visible_layers [] = []"
| "visible_layers (g # gs) =
    (if large_enough g \<and> \<not> list_ex (\<lambda>h. large_enough h \<and> shares_member g h) gs
     then g # visible_layers gs else visible_layers gs)"

lemma fold_layers:
  "foldl add_layer acc gs =
    filter (\<lambda>e. \<not> list_ex (\<lambda>h. large_enough h \<and> shares_member e h) gs) acc @ visible_layers gs"
proof (induction gs arbitrary: acc)
  case (Cons g gs)
  have "add_layer acc g = (if large_enough g then filter (\<lambda>e. \<not> shares_member e g) acc @ [g] else acc)"
    by (auto simp: add_layer_def large_enough_def shares_member_def not_le Int_commute)
  moreover have "filter P (filter Q xs) = filter (\<lambda>x. Q x \<and> P x) xs" for P Q and xs :: "RolloverGroup list"
    by simp
  ultimately show ?case
    by (simp add: Cons.IH)
qed simp

lemma visible_no_shared: "no_shared_member (visible_layers gs)"
proof (induction gs)
  case (Cons g gs)
  have "set (visible_layers gs) \<subseteq> {h \<in> set gs. large_enough h}" by (induction gs) auto
  with Cons show ?case
    by (auto simp: no_shared_member_def list_ex_iff shares_member_def)
qed (simp add: no_shared_member_def)

lemma visible_owner:
  "find (\<lambda>g. m \<in> set (members g)) (visible_layers gs)
    \<in> {None, find (\<lambda>g. large_enough g \<and> m \<in> set (members g)) (rev gs)}"
proof (induction gs)
  case (Cons g gs)
  have tail: "find (\<lambda>g. large_enough g \<and> m \<in> set (members g)) (rev gs) = None
      \<or> list_ex (\<lambda>h. large_enough h \<and> m \<in> set (members h)) gs"
    by (auto simp: find_None_iff list_ex_iff)
  have app: "find P (xs @ ys) = (case find P xs of None \<Rightarrow> find P ys | Some x \<Rightarrow> Some x)"
    for P and xs ys :: "RolloverGroup list" by (induction xs) auto
  show ?case
  proof (cases "m \<in> set (members g) \<and> g \<in> set [g] \<and> large_enough g
      \<and> \<not> list_ex (\<lambda>h. large_enough h \<and> shares_member g h) gs")
    case True
    then have "\<not> list_ex (\<lambda>h. large_enough h \<and> m \<in> set (members h)) gs"
      by (auto simp: list_ex_iff shares_member_def)
    with True tail show ?thesis by (auto simp: app)
  next
    case False
    then have "find (\<lambda>g. m \<in> set (members g)) (visible_layers (g # gs)) = find (\<lambda>g. m \<in> set (members g)) (visible_layers gs)"
      by auto
    with Cons show ?thesis by (auto simp: app split: option.split)
  qed
qed simp

lemma visible_all:
  assumes "no_shared_member gs" and "\<forall>g\<in>set gs. group_ok g"
  shows "visible_layers gs = gs"
  using assms
proof (induction gs)
  case (Cons g gs)
  have "large_enough g" using Cons.prems by (auto simp: large_enough_def group_ok_def distinct_card)
  with Cons show ?case by (auto simp: no_shared_member_def list_ex_iff shares_member_def)
qed simp

lemma layers_visible: "layer_rollover_groups gs = visible_layers gs"
  by (simp add: layer_rollover_groups_def fold_layers)

lemma dropped_members:
  "g \<in> set (drop_rollover_members gs dropped) \<longleftrightarrow>
    (\<exists>h\<in>set gs. g = h\<lparr>members := filter (\<lambda>m. \<not> dropped m) (members h)\<rparr>
      \<and> ROLLOVER_MIN_MEMBERS \<le> length (members g))"
  by (induction gs) (auto simp: drop_rollover_members_def List.map_filter_simps Let_def not_less)

lemma dropped_no_shared: "no_shared_member gs \<Longrightarrow> no_shared_member (drop_rollover_members gs dropped)"
proof (induction gs)
  case (Cons g gs)
  have cons: "drop_rollover_members (g # gs) dropped =
      drop_rollover_members [g] dropped @ drop_rollover_members gs dropped"
    by (simp add: drop_rollover_members_def List.map_filter_simps Let_def)
  have "set (members a) \<inter> set (members b) = {}"
    if a: "a \<in> set (drop_rollover_members [g] dropped)" and b: "b \<in> set (drop_rollover_members gs dropped)" for a b
  proof -
    obtain h where "h \<in> set gs" "set (members b) \<subseteq> set (members h)" using b by (auto simp: dropped_members)
    moreover have "set (members a) \<subseteq> set (members g)" using a by (auto simp: dropped_members)
    ultimately show ?thesis using Cons.prems by (auto simp: no_shared_member_def)
  qed
  moreover have "no_shared_member (drop_rollover_members [g] dropped)"
    by (simp add: no_shared_member_def drop_rollover_members_def List.map_filter_simps Let_def)
  ultimately show ?case
    using Cons by (simp add: cons no_shared_member_def sorted_wrt_append)
qed (simp add: drop_rollover_members_def List.map_filter_simps no_shared_member_def)

section \<open>Properties\<close>

text \<open>C40. The strict parser accepts only what the lenient one reads without dropping anything: on a
  value it accepts both return the same groups, one per table; every group has at least two members,
  all distinct, with stripped texts; no member is in two groups, so layering leaves them as they are.\<close>

theorem rollover_toml_strict:
  assumes "rollover_groups_from_toml repr v = Inr gs"
  shows "rollover_groups_from_data repr v = gs \<and> length gs = length (json_list v)
    \<and> (\<forall>g\<in>set gs. group_ok g) \<and> no_shared_member gs \<and> layer_rollover_groups gs = gs"
proof (cases v)
  case (JList items)
  then have "toml_groups repr Map.empty 1 items = Inr gs" using assms by simp
  note r = toml_groups_result [OF this]
  then have "visible_layers gs = gs" by (intro visible_all) auto
  with r JList show ?thesis by (auto simp: layers_visible)
qed (use assms in \<open>auto simp: no_shared_member_def layers_visible\<close>)

definition demo_groups :: "RolloverGroup list" where
  "demo_groups =
    [\<lparr>name = ''Strafe'', members = [\<lparr>hardware_id = ''kb'', button = ''a''\<rparr>, \<lparr>hardware_id = ''kb'', button = ''d''\<rparr>],
      winner = NEUTRAL, restore = False\<rparr>,
     \<lparr>name = [], members = [\<lparr>hardware_id = ''kb'', button = ''w''\<rparr>, \<lparr>hardware_id = ''pad'', button = ''up''\<rparr>],
      winner = PRIORITY, restore = True\<rparr>]"

lemma demo_groups_ok: "\<forall>g\<in>set demo_groups. group_ok g" "no_shared_member demo_groups"
proof -
  have "list_all (\<lambda>g. py_strip (name g) = name g \<and> list_all member_ok (members g) \<and> distinct (members g)
      \<and> ROLLOVER_MIN_MEMBERS \<le> length (members g)) demo_groups" by code_simp
  then show "\<forall>g\<in>set demo_groups. group_ok g" by (simp add: list_all_iff group_ok_def)
qed (simp add: no_shared_member_def demo_groups_def)

theorem rollover_toml_strict_witness:
  "rollover_groups_from_data (\<lambda>_. []) (JList (map rollover_group_to_data demo_groups)) = demo_groups
   \<and> layer_rollover_groups demo_groups = demo_groups"
proof -
  have "rollover_groups_from_toml (\<lambda>_. []) (JList (map rollover_group_to_data demo_groups)) = Inr demo_groups"
    using demo_groups_ok by (simp add: toml_groups_data)
  from rollover_toml_strict [OF this] show ?thesis by simp
qed

text \<open>Groups survive a profile file: the encoding of any groups that satisfy the parser's rules is
  read back as those groups, by both parsers.\<close>

theorem rollover_groups_roundtrip:
  assumes "\<forall>g\<in>set gs. group_ok g" and "no_shared_member gs"
  shows "rollover_groups_from_toml repr (JList (map rollover_group_to_data gs)) = Inr gs
    \<and> rollover_groups_from_data repr (JList (map rollover_group_to_data gs)) = gs"
proof -
  have "toml_groups repr Map.empty 1 (map rollover_group_to_data gs) = Inr gs"
    using assms by (intro toml_groups_data) auto
  with toml_groups_result [OF this] show ?thesis by simp
qed

theorem rollover_groups_roundtrip_witness:
  "rollover_groups_from_toml (\<lambda>_. []) (JList (map rollover_group_to_data demo_groups)) = Inr demo_groups"
  using rollover_groups_roundtrip [OF demo_groups_ok] by blast

text \<open>C32. Layering the groups of the active profiles keeps exactly the groups that no later group
  with at least two members overlaps, in their order: the remaining groups share no member, and the
  group of a member is the last one that lists it, or none when that one was replaced.\<close>

theorem rollover_layering:
  "layer_rollover_groups gs = visible_layers gs
   \<and> no_shared_member (layer_rollover_groups gs)
   \<and> rollover_group_for_member (layer_rollover_groups gs) m
       \<in> {None, find (\<lambda>g. large_enough g \<and> m \<in> set (members g)) (rev gs)}"
  unfolding layers_visible rollover_group_for_member_def
  by (intro conjI refl visible_no_shared visible_owner)

end
