(* ===== verification/Action_Model.thy ===== *)
theory Action_Model
  imports Macro_Outputs Macro_Rapidfire
begin

text \<open>
  Mapping actions and their normalization: \<open>keymasq/common/model/actions.py\<close>, the action types of
  \<open>keymasq/common/model/core.py\<close> and the axis targets of \<open>keymasq/common/gamepad_axes.py\<close>.

  A field that is annotated as text, number or bool has that type here; values read from a file or a
  message are \<open>json\<close>.  \<open>abs_code\<close> says which names the evdev library knows as absolute axes.
  Configuration objects (analog, motion, pointer) are opaque, as are the fields the normalization
  leaves alone (\<open>rest\<close>).  Where a conversion lets an \<open>OverflowError\<close> escape the result is \<open>None\<close>.
\<close>

section \<open>Action types\<close>

datatype ActionType =
    PASSTHROUGH | KEYBOARD | MOUSE | GAMEPAD | GAMEPAD_AXIS | ANALOG_CONTROL | MOTION_CONTROL
  | POINTER_MOVEMENT | EXEC | COMPOSITOR_DISPATCH | SUPPRESS | SUPERKEY | START_MACRO_RECORDING
  | STOP_MACRO_RECORDING | PLAY_MACRO_SLOT | CANCEL_MACRO_PLAYBACK | EMERGENCY_RESET | MACRO
  | MOUSE_MOVE_REL | MOUSE_MOVE_ABS | MOUSE_MOVE_NATURAL_ABS | PROFILE_ENABLE | PROFILE_DISABLE
  | PROFILE_TOGGLE | MPRIS | REPEAT

definition RAPIDFIRE_ACTION_TYPES :: "ActionType list" where
  "RAPIDFIRE_ACTION_TYPES =
    [KEYBOARD, MOUSE, GAMEPAD, GAMEPAD_AXIS, MOUSE_MOVE_REL, MOUSE_MOVE_ABS, REPEAT]"

section \<open>Texts\<close>

text \<open>\<open>str(value or dflt)\<close>.\<close>

definition text_or :: "(json \<Rightarrow> string) \<Rightarrow> json \<Rightarrow> string \<Rightarrow> string" where
  "text_or repr v dflt = (if json_truthy v then py_str repr v else dflt)"

definition underscores :: "string \<Rightarrow> string" where
  "underscores s = map (\<lambda>c. if c = CHR ''-'' then CHR ''_'' else c) s"

fun opt_text :: "string option \<Rightarrow> json" where
  "opt_text None = JNull"
| "opt_text (Some s) = JString s"

definition MPRIS_COMMANDS :: "string list" where
  "MPRIS_COMMANDS = [''play_pause'', ''pause'', ''play'', ''next'', ''previous'', ''stop'']"

definition MPRIS_COMMAND_ALIASES :: "(string \<times> string) list" where
  "MPRIS_COMMAND_ALIASES =
    [(''playpause'', ''play_pause''), (''play-pause'', ''play_pause''), (''play/pause'', ''play_pause''),
     (''toggle'', ''play_pause''), (''prev'', ''previous'')]"

definition aliased :: "(string \<times> string) list \<Rightarrow> string \<Rightarrow> string" where
  "aliased aliases s = (case map_of aliases s of Some t \<Rightarrow> t | None \<Rightarrow> s)"

definition parse_mpris_command :: "(json \<Rightarrow> string) \<Rightarrow> json \<Rightarrow> string option" where
  "parse_mpris_command repr v =
    (let command = aliased MPRIS_COMMAND_ALIASES (underscores (py_lower (py_strip (text_or repr v []))))
     in if command \<in> set MPRIS_COMMANDS then Some command else None)"

definition normalize_mpris_command :: "(json \<Rightarrow> string) \<Rightarrow> json \<Rightarrow> string" where
  "normalize_mpris_command repr v =
    (case parse_mpris_command repr v of Some command \<Rightarrow> command | None \<Rightarrow> ''play_pause'')"

definition normalize_natural_mouse_move_curve :: "(json \<Rightarrow> string) \<Rightarrow> json \<Rightarrow> string" where
  "normalize_natural_mouse_move_curve repr v =
    (let curve = underscores (py_lower (py_strip (text_or repr v [])))
     in if curve \<in> {''linear'', ''natural''} then curve else ''natural'')"

definition is_protected_button :: "string \<Rightarrow> bool" where
  "is_protected_button button_id \<longleftrightarrow> py_lower button_id \<in> {''btn_left'', ''btn_right''}"

text \<open>\<open>int(value)\<close> with \<open>TypeError\<close> and \<open>ValueError\<close> caught: an infinite float escapes.\<close>

fun int_or :: "int option \<Rightarrow> json \<Rightarrow> int option option" where
  "int_or dflt (JInfinity neg) = None"
| "int_or dflt v = Some (case py_int v of Some i \<Rightarrow> Some i | None \<Rightarrow> dflt)"

definition recording_slot :: "int \<Rightarrow> int" where
  "recording_slot slot = (if 1 \<le> slot \<and> slot \<le> 4 then slot else 0)"

definition normalize_macro_recording_slot :: "json \<Rightarrow> int option" where
  "normalize_macro_recording_slot v =
    map_option (\<lambda>r. case r of Some slot \<Rightarrow> recording_slot slot | None \<Rightarrow> 0) (int_or None v)"

section \<open>Rapid fire\<close>

definition action_type_supports_rapidfire :: "ActionType \<Rightarrow> bool" where
  "action_type_supports_rapidfire t \<longleftrightarrow> t \<in> set RAPIDFIRE_ACTION_TYPES"

definition normalize_rapidfire_fields :: "ActionType \<Rightarrow> bool \<Rightarrow> int \<Rightarrow> int \<Rightarrow> bool \<times> int \<times> int" where
  "normalize_rapidfire_fields t enabled hold_ms wait_ms =
    (if \<not> action_type_supports_rapidfire t
     then (False, DEFAULT_RAPIDFIRE_HOLD_MS, DEFAULT_RAPIDFIRE_WAIT_MS)
     else (enabled, clamp_rapidfire_hold_ms hold_ms, clamp_rapidfire_wait_ms wait_ms))"

definition resolve_rapidfire_fields ::
  "ActionType \<Rightarrow> bool \<Rightarrow> int \<Rightarrow> int \<Rightarrow> (bool \<times> int \<times> int) \<times> bool"
where
  "resolve_rapidfire_fields t enabled hold_ms wait_ms =
    (normalize_rapidfire_fields t enabled hold_ms wait_ms, enabled \<and> \<not> action_type_supports_rapidfire t)"

definition parse_rapidfire_fields ::
  "ActionType \<Rightarrow> json \<Rightarrow> json \<Rightarrow> json \<Rightarrow> (bool \<times> int \<times> int) \<times> bool"
where
  "parse_rapidfire_fields t enabled hold_ms wait_ms =
    resolve_rapidfire_fields t (json_truthy enabled)
      (the (coerce_int hold_ms (Some DEFAULT_RAPIDFIRE_HOLD_MS)))
      (the (coerce_int wait_ms (Some DEFAULT_RAPIDFIRE_WAIT_MS)))"

section \<open>Outputs\<close>

definition normalize_output_id :: "string option \<Rightarrow> string option" where
  "normalize_output_id output_id =
    (case output_id of
       None \<Rightarrow> None
     | Some s \<Rightarrow> if py_strip s = [] then None else Some (py_strip s))"

definition normalize_gamepad_output_id :: "ActionType \<Rightarrow> string option \<Rightarrow> string option" where
  "normalize_gamepad_output_id t output_id =
    (if t \<notin> {GAMEPAD, GAMEPAD_AXIS} then None else normalize_output_id output_id)"

definition GAMEPAD_AXIS_RANGES :: "(string \<times> int \<times> int) list" where
  "GAMEPAD_AXIS_RANGES =
    [(''abs_x'', -32768, 32767), (''abs_y'', -32768, 32767), (''abs_rx'', -32768, 32767),
     (''abs_ry'', -32768, 32767), (''abs_z'', 0, 255), (''abs_rz'', 0, 255)]"

definition GAMEPAD_AXIS_ALIASES :: "(string \<times> string) list" where
  "GAMEPAD_AXIS_ALIASES =
    [(''x'', ''abs_x''), (''y'', ''abs_y''), (''rx'', ''abs_rx''), (''ry'', ''abs_ry''), (''z'', ''abs_z''),
     (''rz'', ''abs_rz''), (''lt'', ''abs_z''), (''rt'', ''abs_rz''), (''left_trigger'', ''abs_z''),
     (''right_trigger'', ''abs_rz'')]"

definition remove_prefix :: "string \<Rightarrow> string \<Rightarrow> string" where
  "remove_prefix p s = (if starts_with p s then drop (length p) s else s)"

definition is_custom_abs_axis :: "(string \<Rightarrow> bool) \<Rightarrow> string \<Rightarrow> bool" where
  "is_custom_abs_axis abs_code target \<longleftrightarrow> starts_with ''abs_'' target \<and> abs_code target"

definition axis_target :: "(string \<Rightarrow> bool) \<Rightarrow> string \<Rightarrow> string option" where
  "axis_target abs_code target =
    (if starts_with ''abs_'' target \<and> map_of GAMEPAD_AXIS_RANGES target \<noteq> None then Some target
     else let t = (if starts_with ''abs'' target
                   then ''abs_'' @ dropWhile (\<lambda>c. c = CHR ''_'') (remove_prefix ''abs'' target) else target)
          in case map_of GAMEPAD_AXIS_ALIASES t of
               Some n \<Rightarrow> Some n
             | None \<Rightarrow>
                 if map_of GAMEPAD_AXIS_RANGES t \<noteq> None then Some t
                 else if is_custom_abs_axis abs_code t then Some t else None)"

definition normalize_gamepad_axis_target ::
  "(json \<Rightarrow> string) \<Rightarrow> (string \<Rightarrow> bool) \<Rightarrow> json \<Rightarrow> string option"
where
  "normalize_gamepad_axis_target repr abs_code v =
    (let target = py_lower (py_strip (text_or repr v []))
     in if target = [] then None else axis_target abs_code (remove_prefix ''ev_'' target))"

definition gamepad_axis_range ::
  "(json \<Rightarrow> string) \<Rightarrow> (string \<Rightarrow> bool) \<Rightarrow> json \<Rightarrow> (int \<times> int) option"
where
  "gamepad_axis_range repr abs_code v =
    Option.bind (normalize_gamepad_axis_target repr abs_code v) (map_of GAMEPAD_AXIS_RANGES)"

definition gamepad_axis_max_value :: "(json \<Rightarrow> string) \<Rightarrow> (string \<Rightarrow> bool) \<Rightarrow> json \<Rightarrow> int" where
  "gamepad_axis_max_value repr abs_code v =
    (case gamepad_axis_range repr abs_code v of None \<Rightarrow> 0 | Some (lo, hi) \<Rightarrow> hi)"

definition clamp_gamepad_axis_value ::
  "(json \<Rightarrow> string) \<Rightarrow> (string \<Rightarrow> bool) \<Rightarrow> json \<Rightarrow> int \<Rightarrow> string option \<Rightarrow> int"
where
  "clamp_gamepad_axis_value repr abs_code target raw_value output_id =
    (let known = normalize_gamepad_axis_target repr abs_code target \<noteq> None
     in case output_id of
          Some out \<Rightarrow>
            if out \<noteq> [] \<and> \<not> is_virtual_gamepad_output_id out
            then (if known then max (- 2147483648) (min 2147483647 raw_value) else 0)
            else (case gamepad_axis_range repr abs_code target of
                    None \<Rightarrow> if known then raw_value else 0
                  | Some (lo, hi) \<Rightarrow> max lo (min hi raw_value))
        | None \<Rightarrow>
            (case gamepad_axis_range repr abs_code target of
               None \<Rightarrow> if known then raw_value else 0
             | Some (lo, hi) \<Rightarrow> max lo (min hi raw_value)))"

section \<open>Repeat categories\<close>

definition REPEAT_CATEGORIES :: "string list" where
  "REPEAT_CATEGORIES = [''keyboard'', ''mouse'', ''gamepad'', ''macro'', ''special'']"

definition REPEAT_CATEGORY_ALIASES :: "(string \<times> string) list" where
  "REPEAT_CATEGORY_ALIASES = [(''mouse_button'', ''mouse''), (''mouse_wheel'', ''mouse'')]"

definition add_category :: "(json \<Rightarrow> string) \<Rightarrow> string list \<Rightarrow> json \<Rightarrow> string list" where
  "add_category repr normalized v =
    (let category = aliased REPEAT_CATEGORY_ALIASES (py_lower (py_strip (text_or repr v [])))
     in if category \<notin> set REPEAT_CATEGORIES \<or> category \<in> set normalized then normalized
        else normalized @ [category])"

definition categories_of :: "(json \<Rightarrow> string) \<Rightarrow> json list \<Rightarrow> string list" where
  "categories_of repr raw_values =
    (if raw_values = [] then []
     else let normalized = foldl (add_category repr) [] raw_values
          in if normalized = [] then REPEAT_CATEGORIES else normalized)"

fun normalize_repeat_categories :: "(json \<Rightarrow> string) \<Rightarrow> json \<Rightarrow> string list" where
  "normalize_repeat_categories repr (JString s) = categories_of repr [JString s]"
| "normalize_repeat_categories repr (JList vs) = categories_of repr vs"
| "normalize_repeat_categories repr v = REPEAT_CATEGORIES"

section \<open>Deactivation policies\<close>

record ProfileDeactivationPolicy =
  on_trigger_end :: bool
  after_actions :: "int option"
  timeout_ms :: "int option"

definition has_condition :: "ProfileDeactivationPolicy \<Rightarrow> bool" where
  "has_condition p \<longleftrightarrow> on_trigger_end p
    \<or> (case after_actions p of None \<Rightarrow> False | Some n \<Rightarrow> 0 < n)
    \<or> (case timeout_ms p of None \<Rightarrow> False | Some n \<Rightarrow> 0 < n)"

definition positive_int :: "int option \<Rightarrow> int option" where
  "positive_int v = (case v of None \<Rightarrow> None | Some n \<Rightarrow> if 0 < n then Some n else None)"

definition positive_int_or_none :: "json \<Rightarrow> int option option" where
  "positive_int_or_none v = map_option positive_int (int_or None v)"

definition positive_policy :: "ProfileDeactivationPolicy \<Rightarrow> ProfileDeactivationPolicy" where
  "positive_policy p = \<lparr>on_trigger_end = on_trigger_end p, after_actions = positive_int (after_actions p),
                        timeout_ms = positive_int (timeout_ms p)\<rparr>"

definition normalize_profile_deactivation_policy ::
  "ActionType \<Rightarrow> ProfileDeactivationPolicy option \<Rightarrow> ProfileDeactivationPolicy option"
where
  "normalize_profile_deactivation_policy t policy =
    (if t \<notin> {PROFILE_ENABLE, PROFILE_TOGGLE} then None
     else case policy of
            None \<Rightarrow> None
          | Some p \<Rightarrow> if has_condition (positive_policy p) then Some (positive_policy p) else None)"

text \<open>The outer \<open>None\<close> is the \<open>OverflowError\<close>.\<close>

fun parse_profile_deactivation_policy :: "json \<Rightarrow> ProfileDeactivationPolicy option option" where
  "parse_profile_deactivation_policy (JObject payload) =
    (case (positive_int_or_none (json_get payload ''after_actions''),
           positive_int_or_none (json_get payload ''timeout_ms'')) of
       (Some after, Some timeout) \<Rightarrow>
         (let policy = \<lparr>on_trigger_end = the (coerce_bool (json_get payload ''on_trigger_end'') False False),
                       after_actions = after, timeout_ms = timeout\<rparr>
          in Some (if has_condition policy then Some policy else None))
     | _ \<Rightarrow> None)"
| "parse_profile_deactivation_policy v = Some None"

definition profile_deactivation_policy_to_dict ::
  "ProfileDeactivationPolicy option \<Rightarrow> json"
where
  "profile_deactivation_policy_to_dict policy =
    (case policy of
       None \<Rightarrow> JNull
     | Some q \<Rightarrow>
         (let p = positive_policy q
          in if \<not> has_condition p then JNull
             else JObject
               ((if on_trigger_end p then [(''on_trigger_end'', JBool True)] else [])
                @ (case after_actions p of None \<Rightarrow> [] | Some n \<Rightarrow> [(''after_actions'', JInt n)])
                @ (case timeout_ms p of None \<Rightarrow> [] | Some n \<Rightarrow> [(''timeout_ms'', JInt n)]))))"

section \<open>Mapping actions\<close>

record ('c, 'x) MappingAction =
  action_type :: ActionType
  target :: "string option"
  output_id :: "string option"
  keys :: "string list option"
  analog_control_name :: "string option"
  analog_control_names :: "string list"
  analog_control_config :: "'c option"
  analog_control_configs :: "'c list"
  motion_control_name :: "string option"
  motion_control_names :: "string list"
  motion_control_config :: "'c option"
  motion_control_configs :: "'c list"
  pointer_movement :: "'c option"
  macro_recording_slot :: int
  mpris_command :: "string option"
  axis_value :: int
  move_speed :: rat
  move_jitter :: rat
  move_curve :: string
  move_tolerance :: int
  move_max_duration_ms :: int
  move_stop_on_failure :: bool
  rapidfire_enabled :: bool
  rapidfire_hold_ms :: int
  rapidfire_wait_ms :: int
  tap_enabled :: bool
  profile_deactivation :: "ProfileDeactivationPolicy option"
  source_profile_name :: "string option"
  repeat_categories :: "string list option"
  rest :: 'x

definition strip_names :: "string list \<Rightarrow> string list" where
  "strip_names ns = filter (\<lambda>s. s \<noteq> []) (map py_strip ns)"

text \<open>\<open>list(dict.fromkeys(xs))\<close>: the first occurrences.\<close>

definition unique_first :: "'a list \<Rightarrow> 'a list" where
  "unique_first xs = rev (remdups (rev xs))"

definition analog_names_of :: "string option \<Rightarrow> string list \<Rightarrow> string option \<times> string list" where
  "analog_names_of nm names =
    (if nm \<noteq> None \<and> nm \<noteq> Some [] \<and> names = [] then (nm, [the nm])
     else case strip_names names of
            [] \<Rightarrow> (nm, [])
          | n # ns \<Rightarrow> (Some n, n # ns))"

fun configs_of :: "'c option \<Rightarrow> 'c list \<Rightarrow> 'c option \<times> 'c list" where
  "configs_of (Some c) [] = (Some c, [c])"
| "configs_of config (c # cs) = (Some c, c # cs)"
| "configs_of None [] = (None, [])"

definition motion_names_of :: "string option \<Rightarrow> string list \<Rightarrow> string list" where
  "motion_names_of nm names =
    (case unique_first (strip_names names) of
       n # ns \<Rightarrow> n # ns
     | [] \<Rightarrow> (case nm of
                None \<Rightarrow> []
              | Some n \<Rightarrow> if py_strip n \<noteq> [] then [py_strip n] else []))"

text \<open>\<open>__post_init__\<close> up to the common normalization.\<close>

definition post_init :: "'c \<Rightarrow> ('c, 'x) MappingAction \<Rightarrow> ('c, 'x) MappingAction" where
  "post_init new_pointer a =
    (let (analog_nm, analog_names) = analog_names_of (analog_control_name a) (analog_control_names a);
         (analog_config, analog_configs) = configs_of (analog_control_config a) (analog_control_configs a);
         motion_names = motion_names_of (motion_control_name a) (motion_control_names a);
         (motion_config, motion_configs) = configs_of (motion_control_config a) (motion_control_configs a)
     in a\<lparr>source_profile_name := normalize_output_id (source_profile_name a),
          analog_control_name := analog_nm, analog_control_names := analog_names,
          analog_control_config := analog_config, analog_control_configs := analog_configs,
          motion_control_names := motion_names,
          motion_control_name := (case motion_names of [] \<Rightarrow> None | n # _ \<Rightarrow> Some n),
          motion_control_config := motion_config, motion_control_configs := motion_configs,
          pointer_movement :=
            (if action_type a \<noteq> POINTER_MOVEMENT then None
             else case pointer_movement a of None \<Rightarrow> Some new_pointer | Some p \<Rightarrow> Some p)\<rparr>)"

definition normalize_common_action_fields ::
  "(json \<Rightarrow> string) \<Rightarrow> (string \<Rightarrow> bool) \<Rightarrow> ('c, 'x) MappingAction \<Rightarrow> ('c, 'x) MappingAction"
where
  "normalize_common_action_fields repr abs_code a =
    (let t = action_type a;
         out = normalize_gamepad_output_id t (output_id a);
         tgt = (if t = GAMEPAD_AXIS then normalize_gamepad_axis_target repr abs_code (opt_text (target a))
                else target a);
         axis = (if t = GAMEPAD_AXIS then clamp_gamepad_axis_value repr abs_code (opt_text tgt) (axis_value a) out
                 else axis_value a);
         (enabled, hold_ms, wait_ms) = normalize_rapidfire_fields t (rapidfire_enabled a)
           (rapidfire_hold_ms a) (rapidfire_wait_ms a);
         natural = (t = MOUSE_MOVE_NATURAL_ABS)
     in a\<lparr>output_id := out, target := tgt, axis_value := axis,
          rapidfire_enabled := enabled, rapidfire_hold_ms := hold_ms, rapidfire_wait_ms := wait_ms,
          profile_deactivation := normalize_profile_deactivation_policy t (profile_deactivation a),
          mpris_command :=
            (if t = MPRIS then Some (normalize_mpris_command repr (opt_text (mpris_command a))) else None),
          macro_recording_slot :=
            (if t \<in> {START_MACRO_RECORDING, STOP_MACRO_RECORDING, PLAY_MACRO_SLOT}
             then recording_slot (macro_recording_slot a) else 0),
          move_speed := (if natural then max 1 (move_speed a) else move_speed a),
          move_jitter := (if natural then max 0 (move_jitter a) else move_jitter a),
          move_curve := (if natural then normalize_natural_mouse_move_curve repr (JString (move_curve a))
                         else move_curve a),
          move_tolerance := (if natural then max 0 (move_tolerance a) else move_tolerance a),
          move_max_duration_ms := (if natural then max 1 (move_max_duration_ms a) else move_max_duration_ms a)\<rparr>)"

definition post_repeat :: "(json \<Rightarrow> string) \<Rightarrow> ('c, 'x) MappingAction \<Rightarrow> ('c, 'x) MappingAction" where
  "post_repeat repr a =
    a\<lparr>repeat_categories :=
       (if action_type a = REPEAT
        then Some (normalize_repeat_categories repr
               (case repeat_categories a of None \<Rightarrow> JNull | Some cs \<Rightarrow> JList (map JString cs)))
        else None)\<rparr>"

text \<open>\<open>MappingAction(...)\<close>: the constructor ends with \<open>__post_init__\<close>.\<close>

definition new_action ::
  "(json \<Rightarrow> string) \<Rightarrow> (string \<Rightarrow> bool) \<Rightarrow> 'c \<Rightarrow> ('c, 'x) MappingAction \<Rightarrow> ('c, 'x) MappingAction"
where
  "new_action repr abs_code new_pointer a =
    post_repeat repr (normalize_common_action_fields repr abs_code (post_init new_pointer a))"

section \<open>Normal texts\<close>

lemma lower_space [simp]: "py_is_space (py_lower_char c) \<longleftrightarrow> py_is_space c"
  using nat_of_char_less_256 [of c] by (auto simp: py_is_space_def py_lower_char_def Let_def)

lemma strip_map:
  assumes "\<And>c. py_is_space (f c) \<longleftrightarrow> py_is_space c"
  shows "py_strip (map f s) = map f (py_strip s)"
  using assms by (simp add: py_strip_def dropWhile_map rev_map o_def)

lemma strip_lower: "py_strip (py_lower s) = py_lower (py_strip s)"
  by (simp add: py_lower_def strip_map)

lemma text_or_JString [simp]: "text_or repr (JString s) dflt = (if s = [] then dflt else s)"
  by (simp add: text_or_def)

lemma text_or_JNull [simp]: "text_or repr JNull dflt = dflt"
  by (simp add: text_or_def)

lemma mpris_fixed: "command \<in> set MPRIS_COMMANDS \<Longrightarrow> normalize_mpris_command repr (JString command) = command"
proof -
  assume mem: "command \<in> set MPRIS_COMMANDS"
  have "list_all (\<lambda>c. c \<noteq> [] \<and> aliased MPRIS_COMMAND_ALIASES (underscores (py_lower (py_strip c))) = c) MPRIS_COMMANDS"
    by code_simp
  with mem show ?thesis
    by (auto simp: list_all_iff normalize_mpris_command_def parse_mpris_command_def Let_def)
qed

lemma mpris_normal: "normalize_mpris_command repr v \<in> set MPRIS_COMMANDS"
  by (auto simp: normalize_mpris_command_def parse_mpris_command_def Let_def MPRIS_COMMANDS_def)

lemma curve_normal: "normalize_natural_mouse_move_curve repr v \<in> {''linear'', ''natural''}"
  by (auto simp: normalize_natural_mouse_move_curve_def Let_def)

lemma curve_fixed:
  "c \<in> {''linear'', ''natural''} \<Longrightarrow> normalize_natural_mouse_move_curve repr (JString c) = c"
proof -
  assume mem: "c \<in> {''linear'', ''natural''}"
  have "list_all (\<lambda>c. underscores (py_lower (py_strip c)) = c) [''linear'', ''natural'']" by code_simp
  with mem show ?thesis by (auto simp: normalize_natural_mouse_move_curve_def Let_def)
qed

section \<open>Categories\<close>

lemma categories_fold:
  assumes "distinct acc" "set acc \<subseteq> set REPEAT_CATEGORIES"
  shows "distinct (foldl (add_category repr) acc vs) \<and> set (foldl (add_category repr) acc vs) \<subseteq> set REPEAT_CATEGORIES"
  using assms by (induction vs arbitrary: acc) (auto simp: add_category_def Let_def)

lemma categories_normal:
  "distinct (normalize_repeat_categories repr v) \<and> set (normalize_repeat_categories repr v) \<subseteq> set REPEAT_CATEGORIES"
proof -
  have all: "distinct REPEAT_CATEGORIES" by (simp add: REPEAT_CATEGORIES_def)
  have "distinct (categories_of repr vs) \<and> set (categories_of repr vs) \<subseteq> set REPEAT_CATEGORIES" for vs
    using categories_fold [of "[]" repr vs] all by (simp add: categories_of_def Let_def)
  with all show ?thesis by (cases v) simp_all
qed

lemma category_fixed:
  assumes "c \<in> set REPEAT_CATEGORIES"
  shows "add_category repr acc (JString c) = (if c \<in> set acc then acc else acc @ [c])"
proof -
  have "list_all (\<lambda>c. c \<noteq> [] \<and> aliased REPEAT_CATEGORY_ALIASES (py_lower (py_strip c)) = c) REPEAT_CATEGORIES"
    by code_simp
  with assms show ?thesis by (auto simp: list_all_iff add_category_def Let_def)
qed

lemma categories_fixed:
  assumes "distinct cs" "set cs \<subseteq> set REPEAT_CATEGORIES"
  shows "normalize_repeat_categories repr (JList (map JString cs)) = cs"
proof -
  have "foldl (add_category repr) acc (map JString cs) = acc @ cs" if "distinct (acc @ cs)" for acc
    using assms(2) that by (induction cs arbitrary: acc) (auto simp: category_fixed)
  from this [of "[]"] assms show ?thesis by (simp add: categories_of_def Let_def)
qed

section \<open>Axis targets\<close>

lemma starts_with_iff: "starts_with p s \<longleftrightarrow> (\<exists>t. s = p @ t)"
  by (metis append_eq_conv_conj append_take_drop_id starts_with_def)

definition lowered :: "string \<Rightarrow> bool" where
  "lowered s \<longleftrightarrow> py_lower s = s \<and> (s \<noteq> [] \<longrightarrow> \<not> py_is_space (last s))"

lemma lowered_append: "lowered (p @ s) \<Longrightarrow> lowered s"
  by (auto simp: lowered_def py_lower_def)

lemma lowered_strip: "lowered (py_lower (py_strip s))"
proof -
  have "py_strip (py_lower s) \<noteq> [] \<Longrightarrow> \<not> py_is_space (last (py_strip (py_lower s)))"
    using py_strip_no_space_ends by blast
  then show ?thesis by (simp add: lowered_def strip_lower)
qed

lemma lowered_prefix: "lowered s \<Longrightarrow> lowered (remove_prefix p s)"
  by (auto simp: remove_prefix_def starts_with_iff dest: lowered_append)

lemma lowered_dropWhile: "lowered s \<Longrightarrow> lowered (dropWhile P s)"
  using lowered_append [of "takeWhile P s" "dropWhile P s"] by simp

lemma lowered_abs:
  assumes "lowered s"
  shows "lowered (''abs_'' @ s)"
proof -
  have "py_lower ''abs_'' = ''abs_''" by code_simp
  then have "py_lower (''abs_'' @ s) = ''abs_'' @ s"
    using assms unfolding lowered_def py_lower_def map_append by metis
  moreover have "\<not> py_is_space (CHR ''_'')" by code_simp
  then have "\<not> py_is_space (last (''abs_'' @ s))" using assms by (cases "s = []") (simp_all add: lowered_def)
  ultimately show ?thesis by (simp only: lowered_def simp_thms)
qed

lemma axis_known_fixed:
  assumes "map_of GAMEPAD_AXIS_RANGES t \<noteq> None"
  shows "normalize_gamepad_axis_target repr abs_code (JString t) = Some t"
proof -
  have "list_all (\<lambda>t. t \<noteq> [] \<and> py_lower (py_strip t) = t \<and> remove_prefix ''ev_'' t = t \<and> starts_with ''abs_'' t)
      (map fst GAMEPAD_AXIS_RANGES)" by code_simp
  moreover have "t \<in> set (map fst GAMEPAD_AXIS_RANGES)"
    using assms by (metis list.set_map map_of_eq_None_iff)
  ultimately have "t \<noteq> []" "py_lower (py_strip t) = t" "remove_prefix ''ev_'' t = t" "starts_with ''abs_'' t"
    unfolding list_all_iff by blast+
  with assms show ?thesis by (simp add: normalize_gamepad_axis_target_def axis_target_def)
qed

lemma alias_known: "map_of GAMEPAD_AXIS_ALIASES t = Some n \<Longrightarrow> map_of GAMEPAD_AXIS_RANGES n \<noteq> None"
proof -
  have "list_all (\<lambda>p. map_of GAMEPAD_AXIS_RANGES (snd p) \<noteq> None) GAMEPAD_AXIS_ALIASES" by code_simp
  then have all: "\<forall>p\<in>set GAMEPAD_AXIS_ALIASES. map_of GAMEPAD_AXIS_RANGES (snd p) \<noteq> None"
    unfolding list_all_iff .
  assume "map_of GAMEPAD_AXIS_ALIASES t = Some n"
  with bspec [OF all map_of_SomeD] show ?thesis by force
qed

lemma axis_custom_fixed:
  assumes t: "t = ''abs_'' @ rest'" and hd: "rest' = [] \<or> hd rest' \<noteq> CHR ''_''" and low: "lowered t"
    and new: "map_of GAMEPAD_AXIS_RANGES t = None" "map_of GAMEPAD_AXIS_ALIASES t = None" and known: "abs_code t"
  shows "normalize_gamepad_axis_target repr abs_code (JString t) = Some t"
proof -
  have "py_strip t = t" using low by (intro py_strip_id) (simp_all add: t lowered_def py_is_space_def)
  then have l: "py_lower (py_strip t) = t" using low by (simp add: lowered_def)
  have ev: "remove_prefix ''ev_'' t = t" by (simp add: remove_prefix_def starts_with_def t)
  have abs: "starts_with ''abs'' t" "starts_with ''abs_'' t" "remove_prefix ''abs'' t = CHR ''_'' # rest'"
    by (simp_all add: starts_with_def remove_prefix_def t)
  have "dropWhile (\<lambda>c. c = CHR ''_'') rest' = rest'" using hd by (intro dropWhile_hd_id) auto
  then have same: "''abs_'' @ dropWhile (\<lambda>c. c = CHR ''_'') (remove_prefix ''abs'' t) = t"
    by (subst abs(3)) (simp add: t)
  have "is_custom_abs_axis abs_code t" using abs(2) known by (simp add: is_custom_abs_axis_def)
  then have "axis_target abs_code t = Some t"
    unfolding axis_target_def Let_def if_P [OF abs(1)] same by (simp add: new)
  moreover have "t \<noteq> []" by (simp add: t)
  ultimately show ?thesis by (simp add: normalize_gamepad_axis_target_def l ev)
qed

lemma axis_target_fixed:
  assumes "normalize_gamepad_axis_target repr abs_code v = Some t"
  shows "normalize_gamepad_axis_target repr abs_code (JString t) = Some t"
proof -
  define s where "s = remove_prefix ''ev_'' (py_lower (py_strip (text_or repr v [])))"
  have s: "lowered s" unfolding s_def by (intro lowered_prefix lowered_strip)
  have res: "axis_target abs_code s = Some t"
    using assms by (simp add: normalize_gamepad_axis_target_def s_def Let_def split: if_splits)
  show ?thesis
  proof (cases "map_of GAMEPAD_AXIS_RANGES t")
    case None
    define u where "u = (if starts_with ''abs'' s then ''abs_'' @ dropWhile (\<lambda>c. c = CHR ''_'') (remove_prefix ''abs'' s) else s)"
    have tu: "(case map_of GAMEPAD_AXIS_ALIASES u of
          Some n \<Rightarrow> Some n
        | None \<Rightarrow> if map_of GAMEPAD_AXIS_RANGES u \<noteq> None then Some u
                  else if is_custom_abs_axis abs_code u then Some u else None) = Some t"
      using res None unfolding axis_target_def u_def [symmetric] Let_def by (auto split: if_splits)
    have noalias: "map_of GAMEPAD_AXIS_ALIASES u = None"
    proof (rule ccontr)
      assume "map_of GAMEPAD_AXIS_ALIASES u \<noteq> None"
      then have "map_of GAMEPAD_AXIS_ALIASES u = Some t" using tu by auto
      from alias_known [OF this] None show False by simp
    qed
    have u: "t = u" "is_custom_abs_axis abs_code t" "map_of GAMEPAD_AXIS_ALIASES t = None"
      using tu noalias None by (auto split: if_splits)
    have "starts_with ''abs'' s"
      using u(1,2) by (auto simp: is_custom_abs_axis_def u_def starts_with_iff split: if_splits)
    then have t: "t = ''abs_'' @ dropWhile (\<lambda>c. c = CHR ''_'') (remove_prefix ''abs'' s)" using u(1) by (simp add: u_def)
    have "lowered (dropWhile (\<lambda>c. c = CHR ''_'') (remove_prefix ''abs'' s))"
      by (intro lowered_dropWhile lowered_prefix s)
    then have low: "lowered t" unfolding t by (rule lowered_abs)
    have hd: "dropWhile (\<lambda>c. c = CHR ''_'') xs = [] \<or> hd (dropWhile (\<lambda>c. c = CHR ''_'') xs) \<noteq> CHR ''_''" for xs
      using hd_dropWhile [of "\<lambda>c. c = CHR ''_''" xs] by argo
    have "abs_code t" using u(2) by (simp add: is_custom_abs_axis_def)
    then show ?thesis by (rule axis_custom_fixed [OF t hd low None u(3)])
  qed (simp add: axis_known_fixed)
qed

section \<open>Properties\<close>

lemma output_id_normal:
  "normalize_output_id (normalize_output_id v) = normalize_output_id v"
  "normalize_gamepad_output_id t (normalize_gamepad_output_id t v) = normalize_gamepad_output_id t v"
  by (auto simp: normalize_output_id_def normalize_gamepad_output_id_def split: option.split)

lemma positive_int_idem [simp]: "positive_int (positive_int v) = positive_int v"
  by (simp add: positive_int_def split: option.split)

lemma policy_normal:
  "normalize_profile_deactivation_policy t (normalize_profile_deactivation_policy t p)
    = normalize_profile_deactivation_policy t p"
  by (auto simp: normalize_profile_deactivation_policy_def positive_policy_def split: option.split)

lemma rapidfire_normal:
  "normalize_rapidfire_fields t e h w = (e', h', w') \<Longrightarrow> normalize_rapidfire_fields t e' h' w' = (e', h', w')
    \<and> (e' \<longrightarrow> action_type_supports_rapidfire t) \<and> 0 \<le> h' \<and> 1 \<le> w'"
  by (auto simp: normalize_rapidfire_fields_def clamp_rapidfire_hold_ms_def clamp_rapidfire_wait_ms_def
      MIN_RAPIDFIRE_HOLD_MS_def MIN_RAPIDFIRE_WAIT_MS_def DEFAULT_RAPIDFIRE_HOLD_MS_def
      DEFAULT_RAPIDFIRE_WAIT_MS_def split: if_splits)

lemma slot_normal: "recording_slot (recording_slot n) = recording_slot n" "0 \<le> recording_slot n" "recording_slot n \<le> 4"
  by (simp_all add: recording_slot_def)

lemma axis_normal:
  "normalize_gamepad_axis_target repr abs_code (opt_text (normalize_gamepad_axis_target repr abs_code v))
    = normalize_gamepad_axis_target repr abs_code v"
proof (cases "normalize_gamepad_axis_target repr abs_code v")
  case None
  then show ?thesis by (simp add: normalize_gamepad_axis_target_def)
next
  case (Some s)
  then show ?thesis using axis_target_fixed by simp
qed

lemma clamp_idem:
  "clamp_gamepad_axis_value repr abs_code t (clamp_gamepad_axis_value repr abs_code t n out) out
    = clamp_gamepad_axis_value repr abs_code t n out"
proof -
  have "lo \<le> hi" if "map_of GAMEPAD_AXIS_RANGES s = Some (lo, hi)" for s lo hi
  proof -
    have "list_all (\<lambda>p. fst (snd p) \<le> snd (snd p)) GAMEPAD_AXIS_RANGES" by code_simp
    with map_of_SomeD [OF that] show ?thesis by (auto simp: list_all_iff)
  qed
  then have ordered: "lo \<le> hi" if "gamepad_axis_range repr abs_code t = Some (lo, hi)" for lo hi
    using that by (auto simp: gamepad_axis_range_def bind_eq_Some_conv)
  show ?thesis
  proof (cases "gamepad_axis_range repr abs_code t")
    case None
    then show ?thesis by (cases out) (simp_all add: clamp_gamepad_axis_value_def Let_def)
  next
    case (Some r)
    moreover obtain lo hi where "r = (lo, hi)" by (cases r)
    ultimately show ?thesis using ordered [of lo hi]
      by (cases out) (simp_all add: clamp_gamepad_axis_value_def Let_def)
  qed
qed

lemma strip_names_idem: "strip_names (strip_names ns) = strip_names ns"
proof -
  have "\<forall>n\<in>set (strip_names ns). py_strip n = n \<and> n \<noteq> []" by (auto simp: strip_names_def)
  then have "map py_strip (strip_names ns) = strip_names ns" "filter (\<lambda>s. s \<noteq> []) (strip_names ns) = strip_names ns"
    by (auto intro: map_idI)
  then show ?thesis by (simp add: strip_names_def [of "strip_names ns"])
qed

lemma unique_first_distinct: "distinct (unique_first xs)" "set (unique_first xs) = set xs"
  "distinct xs \<Longrightarrow> unique_first xs = xs"
  by (simp_all add: unique_first_def distinct_remdups_id)

text \<open>Names the constructor settles in one go: a single name without blanks around it, and a list that
  is empty or names something.\<close>

definition analog_plain :: "string option \<Rightarrow> string list \<Rightarrow> bool" where
  "analog_plain nm names \<longleftrightarrow> (case nm of None \<Rightarrow> True | Some n \<Rightarrow> py_strip n = n)
    \<and> (names = [] \<or> strip_names names \<noteq> [])"

lemma analog_names_idem:
  assumes "analog_plain nm names" and "analog_names_of nm names = (nm', names')"
  shows "analog_names_of nm' names' = (nm', names')"
proof (cases "strip_names names")
  case Nil
  with assms have "names = []" by (auto simp: analog_plain_def)
  with assms Nil show ?thesis
    by (auto simp: analog_names_of_def analog_plain_def strip_names_def split: if_splits option.splits)
next
  case (Cons n ns)
  then have fixed: "strip_names (n # ns) = n # ns" using strip_names_idem [of names] by simp
  have "names \<noteq> []" using Cons by (auto simp: strip_names_def)
  then have "(nm', names') = (Some n, n # ns)" using assms(2) Cons by (simp add: analog_names_of_def)
  then show ?thesis using fixed by (simp add: analog_names_of_def)
qed

lemma configs_idem: "configs_of config configs = (config', configs') \<Longrightarrow> configs_of config' configs' = (config', configs')"
  by (cases "(config, configs)" rule: configs_of.cases) auto

lemma motion_names_normal:
  "strip_names (motion_names_of nm names) = motion_names_of nm names \<and> distinct (motion_names_of nm names)"
proof (cases "unique_first (strip_names names)")
  case Nil
  then show ?thesis by (simp add: motion_names_of_def strip_names_def split: option.split)
next
  case (Cons n ns)
  have "\<forall>n\<in>set (unique_first (strip_names names)). py_strip n = n \<and> n \<noteq> []"
    by (auto simp: unique_first_distinct strip_names_def)
  then have "strip_names (unique_first (strip_names names)) = unique_first (strip_names names)"
    unfolding strip_names_def [of "unique_first _"] by (simp add: map_idI)
  with unique_first_distinct(1) [of "strip_names names"] show ?thesis by (simp add: motion_names_of_def Cons)
qed

lemma motion_names_idem:
  "motion_names_of nm' (motion_names_of nm names) = motion_names_of nm names"
  if "motion_names_of nm names \<noteq> [] \<or> nm' = None"
proof -
  have "unique_first (strip_names (motion_names_of nm names)) = motion_names_of nm names"
    using motion_names_normal [of nm names] by (simp add: unique_first_distinct(3))
  then show ?thesis using that
    by (cases "motion_names_of nm names") (auto simp: motion_names_of_def [of nm'] motion_names_of_def [of None]
      strip_names_def unique_first_def)
qed

text \<open>What each field of a new action is.\<close>

lemma new_action_fields:
  fixes a :: "('c, 'x) MappingAction" and repr :: "json \<Rightarrow> string" and abs_code :: "string \<Rightarrow> bool" and new_pointer :: 'c
  defines "b \<equiv> new_action repr abs_code new_pointer a"
  defines "t \<equiv> action_type a"
  shows "action_type b = t" "keys b = keys a" "tap_enabled b = tap_enabled a" "rest b = rest a"
    "move_stop_on_failure b = move_stop_on_failure a"
    "source_profile_name b = normalize_output_id (source_profile_name a)"
    "output_id b = normalize_gamepad_output_id t (output_id a)"
    "target b = (if t = GAMEPAD_AXIS then normalize_gamepad_axis_target repr abs_code (opt_text (target a)) else target a)"
    "axis_value b = (if t = GAMEPAD_AXIS
       then clamp_gamepad_axis_value repr abs_code (opt_text (target b)) (axis_value a) (output_id b) else axis_value a)"
    "(rapidfire_enabled b, rapidfire_hold_ms b, rapidfire_wait_ms b)
      = normalize_rapidfire_fields t (rapidfire_enabled a) (rapidfire_hold_ms a) (rapidfire_wait_ms a)"
    "profile_deactivation b = normalize_profile_deactivation_policy t (profile_deactivation a)"
    "mpris_command b = (if t = MPRIS then Some (normalize_mpris_command repr (opt_text (mpris_command a))) else None)"
    "macro_recording_slot b = (if t \<in> {START_MACRO_RECORDING, STOP_MACRO_RECORDING, PLAY_MACRO_SLOT}
       then recording_slot (macro_recording_slot a) else 0)"
    "pointer_movement b = (if t \<noteq> POINTER_MOVEMENT then None
       else case pointer_movement a of None \<Rightarrow> Some new_pointer | Some p \<Rightarrow> Some p)"
    "repeat_categories b = (if t = REPEAT then Some (normalize_repeat_categories repr
       (case repeat_categories a of None \<Rightarrow> JNull | Some cs \<Rightarrow> JList (map JString cs))) else None)"
    "(analog_control_name b, analog_control_names b) = analog_names_of (analog_control_name a) (analog_control_names a)"
    "(analog_control_config b, analog_control_configs b) = configs_of (analog_control_config a) (analog_control_configs a)"
    "motion_control_names b = motion_names_of (motion_control_name a) (motion_control_names a)"
    "motion_control_name b = (case motion_control_names b of [] \<Rightarrow> None | n # _ \<Rightarrow> Some n)"
    "(motion_control_config b, motion_control_configs b) = configs_of (motion_control_config a) (motion_control_configs a)"
    "move_speed b = (if t = MOUSE_MOVE_NATURAL_ABS then max 1 (move_speed a) else move_speed a)"
    "move_jitter b = (if t = MOUSE_MOVE_NATURAL_ABS then max 0 (move_jitter a) else move_jitter a)"
    "move_tolerance b = (if t = MOUSE_MOVE_NATURAL_ABS then max 0 (move_tolerance a) else move_tolerance a)"
    "move_max_duration_ms b = (if t = MOUSE_MOVE_NATURAL_ABS then max 1 (move_max_duration_ms a) else move_max_duration_ms a)"
    "move_curve b = (if t = MOUSE_MOVE_NATURAL_ABS
       then normalize_natural_mouse_move_curve repr (JString (move_curve a)) else move_curve a)"
  unfolding b_def t_def new_action_def post_init_def normalize_common_action_fields_def post_repeat_def
    Let_def case_prod_beta
  by simp_all

definition in_axis_range :: "string option \<Rightarrow> string option \<Rightarrow> int \<Rightarrow> bool" where
  "in_axis_range t out n \<longleftrightarrow>
    (case t of
       None \<Rightarrow> n = 0
     | Some s \<Rightarrow>
         (if out \<noteq> None \<and> \<not> is_virtual_gamepad_output_id (the out) then - 2147483648 \<le> n \<and> n \<le> 2147483647
          else case map_of GAMEPAD_AXIS_RANGES s of None \<Rightarrow> True | Some (lo, hi) \<Rightarrow> lo \<le> n \<and> n \<le> hi))"

definition action_ok :: "('c, 'x) MappingAction \<Rightarrow> bool" where
  "action_ok a \<longleftrightarrow>
    (rapidfire_enabled a \<longrightarrow> action_type_supports_rapidfire (action_type a))
    \<and> 0 \<le> rapidfire_hold_ms a \<and> 1 \<le> rapidfire_wait_ms a
    \<and> (output_id a \<noteq> None \<longrightarrow> action_type a \<in> {GAMEPAD, GAMEPAD_AXIS} \<and> normalize_output_id (output_id a) = output_id a)
    \<and> (action_type a = GAMEPAD_AXIS \<longrightarrow> in_axis_range (target a) (output_id a) (axis_value a))
    \<and> (case profile_deactivation a of None \<Rightarrow> True
       | Some p \<Rightarrow> action_type a \<in> {PROFILE_ENABLE, PROFILE_TOGGLE} \<and> has_condition p \<and> positive_policy p = p)
    \<and> (mpris_command a \<in> (if action_type a = MPRIS then Some ` set MPRIS_COMMANDS else {None}))
    \<and> 0 \<le> macro_recording_slot a \<and> macro_recording_slot a \<le> 4
    \<and> (pointer_movement a \<noteq> None \<longleftrightarrow> action_type a = POINTER_MOVEMENT)
    \<and> strip_names (motion_control_names a) = motion_control_names a \<and> distinct (motion_control_names a)
    \<and> (case repeat_categories a of None \<Rightarrow> action_type a \<noteq> REPEAT
       | Some cs \<Rightarrow> action_type a = REPEAT \<and> distinct cs \<and> set cs \<subseteq> set REPEAT_CATEGORIES)"

lemma axis_in_range:
  "in_axis_range (normalize_gamepad_axis_target repr abs_code v) out
    (clamp_gamepad_axis_value repr abs_code (opt_text (normalize_gamepad_axis_target repr abs_code v)) n out)"
  if "out \<noteq> Some []"
proof (cases "normalize_gamepad_axis_target repr abs_code v")
  case None
  have "normalize_gamepad_axis_target repr abs_code JNull = None" by (simp add: normalize_gamepad_axis_target_def)
  then show ?thesis
    by (simp add: None in_axis_range_def clamp_gamepad_axis_value_def gamepad_axis_range_def Let_def split: option.split)
next
  case (Some s)
  note fixed = axis_target_fixed [OF Some]
  have "lo \<le> hi" if "map_of GAMEPAD_AXIS_RANGES s = Some (lo, hi)" for lo hi
  proof -
    have "list_all (\<lambda>p. fst (snd p) \<le> snd (snd p)) GAMEPAD_AXIS_RANGES" by code_simp
    with map_of_SomeD [OF that] show ?thesis by (auto simp: list_all_iff)
  qed
  with that show ?thesis
    by (auto simp: Some fixed in_axis_range_def clamp_gamepad_axis_value_def gamepad_axis_range_def Let_def
        split: option.split)
qed

lemma policy_ok:
  "case normalize_profile_deactivation_policy t v of None \<Rightarrow> True
   | Some p \<Rightarrow> t \<in> {PROFILE_ENABLE, PROFILE_TOGGLE} \<and> has_condition p \<and> positive_policy p = p"
  by (auto simp: normalize_profile_deactivation_policy_def positive_policy_def split: option.split)

lemma new_action_ok: "action_ok (new_action repr abs_code new_pointer a)"
proof -
  let ?b = "new_action repr abs_code new_pointer a"
  note f = new_action_fields [of repr abs_code new_pointer a]
  have fire: "normalize_rapidfire_fields (action_type a) (rapidfire_enabled a) (rapidfire_hold_ms a) (rapidfire_wait_ms a)
      = (rapidfire_enabled ?b, rapidfire_hold_ms ?b, rapidfire_wait_ms ?b)" using f(10) by simp
  have out: "output_id ?b \<noteq> None \<longrightarrow> action_type a \<in> {GAMEPAD, GAMEPAD_AXIS} \<and> normalize_output_id (output_id ?b) = output_id ?b"
    "output_id ?b \<noteq> Some []"
    by (auto simp: f(7) normalize_gamepad_output_id_def normalize_output_id_def split: option.splits)
  have axis: "action_type a = GAMEPAD_AXIS \<longrightarrow> in_axis_range (target ?b) (output_id ?b) (axis_value ?b)"
    using axis_in_range [OF out(2)] by (simp add: f(8,9))
  have cats: "case repeat_categories ?b of None \<Rightarrow> action_type a \<noteq> REPEAT
       | Some cs \<Rightarrow> action_type a = REPEAT \<and> distinct cs \<and> set cs \<subseteq> set REPEAT_CATEGORIES"
    using categories_normal by (simp add: f(15))
  have mpris: "mpris_command ?b \<in> (if action_type a = MPRIS then Some ` set MPRIS_COMMANDS else {None})"
    using mpris_normal by (simp add: f(12))
  have pointer: "pointer_movement ?b \<noteq> None \<longleftrightarrow> action_type a = POINTER_MOVEMENT" by (simp add: f(14) split: option.split)
  have slot: "0 \<le> macro_recording_slot ?b" "macro_recording_slot ?b \<le> 4" using slot_normal by (simp_all add: f(13))
  show ?thesis
    unfolding action_ok_def f(1)
    using rapidfire_normal [OF fire] out(1) axis policy_ok [of "action_type a" "profile_deactivation a", folded f(11)]
      mpris slot pointer motion_names_normal [of "motion_control_name a" "motion_control_names a", folded f(18)] cats
    by (intro conjI) (elim conjE; assumption)+
qed

lemma new_action_idem:
  fixes a :: "('c, 'x) MappingAction"
  assumes plain: "analog_plain (analog_control_name a) (analog_control_names a)"
  shows "new_action repr abs_code new_pointer (new_action repr abs_code new_pointer a) = new_action repr abs_code new_pointer a"
proof -
  let ?n = "new_action repr abs_code new_pointer :: ('c, 'x) MappingAction \<Rightarrow> _"
  let ?b = "?n a"
  note f = new_action_fields [of repr abs_code new_pointer a]
    and g = new_action_fields [of repr abs_code new_pointer ?b]
  have fire: "normalize_rapidfire_fields (action_type a) (rapidfire_enabled a) (rapidfire_hold_ms a) (rapidfire_wait_ms a)
      = (rapidfire_enabled ?b, rapidfire_hold_ms ?b, rapidfire_wait_ms ?b)" using f(10) by simp
  have "(rapidfire_enabled (?n ?b), rapidfire_hold_ms (?n ?b), rapidfire_wait_ms (?n ?b))
      = (rapidfire_enabled ?b, rapidfire_hold_ms ?b, rapidfire_wait_ms ?b)"
    using rapidfire_normal [OF fire] unfolding g(10) f(1) by blast
  moreover have "(analog_control_name (?n ?b), analog_control_names (?n ?b)) = (analog_control_name ?b, analog_control_names ?b)"
    unfolding g(16) by (rule analog_names_idem [OF plain f(16) [symmetric]])
  moreover have "(analog_control_config (?n ?b), analog_control_configs (?n ?b)) = (analog_control_config ?b, analog_control_configs ?b)"
    unfolding g(17) by (rule configs_idem [OF f(17) [symmetric]])
  moreover have "(motion_control_config (?n ?b), motion_control_configs (?n ?b)) = (motion_control_config ?b, motion_control_configs ?b)"
    unfolding g(20) by (rule configs_idem [OF f(20) [symmetric]])
  moreover have names: "motion_control_names (?n ?b) = motion_control_names ?b"
    unfolding g(18) f(18) by (rule motion_names_idem) (simp add: f(18,19) split: list.split)
  moreover have "motion_control_name (?n ?b) = motion_control_name ?b" unfolding g(19) names f(19) ..
  moreover have "source_profile_name (?n ?b) = source_profile_name ?b" "output_id (?n ?b) = output_id ?b"
    by (simp_all only: g f output_id_normal)
  moreover have target: "target (?n ?b) = target ?b"
    by (simp add: g(8) f(1,8) axis_normal)
  moreover have "axis_value (?n ?b) = axis_value ?b"
    unfolding g(9) target g(7) by (simp add: f(1,9) clamp_idem flip: f(7)) (simp add: f(7) output_id_normal clamp_idem)
  moreover have "profile_deactivation (?n ?b) = profile_deactivation ?b" by (simp only: g f policy_normal)
  moreover have "mpris_command (?n ?b) = mpris_command ?b"
    using mpris_normal by (simp add: g(12) f(1,12) mpris_fixed)
  moreover have "macro_recording_slot (?n ?b) = macro_recording_slot ?b" by (simp add: g(13) f(1,13) slot_normal)
  moreover have "pointer_movement (?n ?b) = pointer_movement ?b" by (simp add: g(14) f(1,14) split: option.split)
  moreover have "repeat_categories (?n ?b) = repeat_categories ?b"
  proof -
    have "normalize_repeat_categories repr (JList (map JString (normalize_repeat_categories repr v)))
        = normalize_repeat_categories repr v" for v
      using categories_normal by (intro categories_fixed) blast+
    then show ?thesis by (simp add: g(15) f(1,15))
  qed
  moreover have "move_curve (?n ?b) = move_curve ?b"
    using curve_normal by (simp add: g(25) f(1,25) curve_fixed)
  moreover have "move_speed (?n ?b) = move_speed ?b" "move_jitter (?n ?b) = move_jitter ?b"
    "move_tolerance (?n ?b) = move_tolerance ?b" "move_max_duration_ms (?n ?b) = move_max_duration_ms ?b"
    by (simp_all add: g(21-24) f(1,21-24))
  ultimately show ?thesis
    by (intro MappingAction.equality) (simp_all add: g(1-5))
qed


definition demo_action :: "(nat, unit) MappingAction" where
  "demo_action =
    \<lparr>action_type = GAMEPAD_AXIS, target = Some '' EV_ABS__X '', output_id = Some '' pad '', keys = None,
     analog_control_name = None, analog_control_names = [], analog_control_config = None, analog_control_configs = [],
     motion_control_name = Some '' gyro '', motion_control_names = [''  ''], motion_control_config = None,
     motion_control_configs = [7], pointer_movement = Some 3, macro_recording_slot = 2, mpris_command = Some ''stop'',
     axis_value = 5000000000, move_speed = 0, move_jitter = 0, move_curve = [], move_tolerance = 0,
     move_max_duration_ms = 0, move_stop_on_failure = False, rapidfire_enabled = True, rapidfire_hold_ms = -4,
     rapidfire_wait_ms = 0, tap_enabled = False, profile_deactivation = None, source_profile_name = Some '' '',
     repeat_categories = Some [], rest = ()\<rparr>"


text \<open>A deactivation policy survives a profile file: reading what was written gives the policy
  normalized, and nothing for a policy without a positive condition.\<close>

theorem deactivation_policy_roundtrip:
  "parse_profile_deactivation_policy (profile_deactivation_policy_to_dict policy)
    = Some (normalize_profile_deactivation_policy PROFILE_ENABLE policy)"
proof (cases policy)
  case (Some q)
  obtain t m n where p: "positive_policy q = \<lparr>on_trigger_end = t, after_actions = m, timeout_ms = n\<rparr>"
    by (cases "positive_policy q")
  then have "positive_int m = m" "positive_int n = n" by (auto simp: positive_policy_def)
  then show ?thesis
    by (cases t; cases m; cases n)
       (auto simp: Some p normalize_profile_deactivation_policy_def profile_deactivation_policy_to_dict_def
         Let_def json_get_def positive_int_or_none_def coerce_bool_def has_condition_def)
qed (simp add: normalize_profile_deactivation_policy_def profile_deactivation_policy_to_dict_def)

end
