(* ===== verification/Rollover_State.thy ===== *)
theory Rollover_State
  imports Rollover_Groups Action_Model
begin

text \<open>
  One rollover group at run time: \<open>choose_active\<close> and \<open>RolloverGroupState\<close> of
  \<open>keymasqd/runtime/rollover.py\<close> and the handovers of \<open>grabbed_device/event/rollover.py\<close>.

  A \<open>HeldMember\<close> object is known by its member, which occurs once in a group; a grabbed device
  interface is a number.  What a settle does to the outputs is the list of commands it issues, in
  order.  The bookkeeping of outputs that moves between devices at a handover (\<open>tracked\<close>,
  \<open>withheld\<close>) and the queue of events that wait for the group's lock are not modelled: an event
  runs to its end before the next one.
\<close>

section \<open>The output of a member\<close>

definition PLAIN_OUTPUT_ACTION_TYPES :: "ActionType list" where
  "PLAIN_OUTPUT_ACTION_TYPES = [KEYBOARD, MOUSE, GAMEPAD, GAMEPAD_AXIS]"

definition ONE_SHOT_ACTION_TYPES :: "ActionType list" where
  "ONE_SHOT_ACTION_TYPES =
    [EXEC, COMPOSITOR_DISPATCH, START_MACRO_RECORDING, STOP_MACRO_RECORDING, PLAY_MACRO_SLOT,
     CANCEL_MACRO_PLAYBACK, EMERGENCY_RESET, PROFILE_ENABLE, PROFILE_DISABLE, PROFILE_TOGGLE, MPRIS]"

definition action_output_id :: "('c, 'x) MappingAction \<Rightarrow> string" where
  "action_output_id a =
    (case normalize_output_id (output_id a) of
       Some out \<Rightarrow> out
     | None \<Rightarrow> if action_type a \<in> {GAMEPAD, GAMEPAD_AXIS} then the (virtual_gamepad_output_id 1) else [])"

definition is_plain_output_action :: "('c, 'x) MappingAction option \<Rightarrow> bool" where
  "is_plain_output_action action =
    (case action of
       None \<Rightarrow> False
     | Some a \<Rightarrow> action_type a \<in> set PLAIN_OUTPUT_ACTION_TYPES \<and> \<not> tap_enabled a \<and> \<not> rapidfire_enabled a)"

datatype RolloverOutput =
    PassthroughOut string int
  | GamepadRoute string int
  | AxisOut string "string option"
  | PlainOut ActionType string string "string list"

definition rollover_output ::
  "(json \<Rightarrow> string) \<Rightarrow> (string \<Rightarrow> bool) \<Rightarrow> ('c, 'x) MappingAction option \<Rightarrow> RolloverOutput
    \<Rightarrow> RolloverOutput option"
where
  "rollover_output repr abs_code action passthrough =
    (case action of
       None \<Rightarrow> Some passthrough
     | Some a \<Rightarrow>
         if action_type a = PASSTHROUGH then Some passthrough
         else if \<not> is_plain_output_action action then None
         else if action_type a = GAMEPAD_AXIS
         then Some (AxisOut (action_output_id a) (normalize_gamepad_axis_target repr abs_code (opt_text (target a))))
         else Some (PlainOut (action_type a) (action_output_id a)
                     (py_lower (case target a of None \<Rightarrow> [] | Some s \<Rightarrow> s))
                     (case keys a of None \<Rightarrow> [] | Some ks \<Rightarrow> ks)))"

section \<open>The active member\<close>

definition member_order :: "RolloverGroup \<Rightarrow> RolloverMember \<Rightarrow> nat" where
  "member_order g m =
    (case map_of (rev (zip (members g) [0..<length (members g)])) m of
       Some i \<Rightarrow> i
     | None \<Rightarrow> card (set (members g)))"

definition choose_active ::
  "RolloverGroup \<Rightarrow> RolloverMember list \<Rightarrow> RolloverMember set \<Rightarrow> RolloverMember option"
where
  "choose_active g held_members lost_members =
    (if winner g = NEUTRAL
     then (case held_members of
             [only] \<Rightarrow> if restore g \<or> only \<notin> lost_members then Some only else None
           | _ \<Rightarrow> None)
     else let candidates = (if restore g then held_members else filter (\<lambda>m. m \<notin> lost_members) held_members)
          in if candidates = [] then None
             else case winner g of
                    OLDEST \<Rightarrow> Some (hd candidates)
                  | PRIORITY \<Rightarrow> py_min_key (member_order g) candidates
                  | _ \<Rightarrow> Some (last candidates))"

section \<open>The state of a group\<close>

record HeldMember =
  member :: RolloverMember
  runtime :: nat
  event_code :: int
  event_name :: string
  press_seq :: nat
  member_output :: "RolloverOutput option"
  pressed :: bool
  recalled :: bool
  fired :: bool

record RolloverGroupState =
  group :: RolloverGroup
  held :: "HeldMember list"
  lost :: "RolloverMember set"
  active :: "RolloverMember option"

definition new_group_state :: "RolloverGroup \<Rightarrow> RolloverGroupState" where
  "new_group_state g = \<lparr>group = g, held = [], lost = {}, active = None\<rparr>"

definition find_member :: "RolloverGroupState \<Rightarrow> RolloverMember \<Rightarrow> HeldMember option" where
  "find_member st m = find (\<lambda>h. member h = m) (held st)"

definition next_active :: "RolloverGroupState \<Rightarrow> HeldMember option" where
  "next_active st =
    (case choose_active (group st) (map member (filter (\<lambda>h. \<not> recalled h) (held st))) (lost st) of
       None \<Rightarrow> None
     | Some m \<Rightarrow> find_member st m)"

definition mark_losers :: "RolloverMember option \<Rightarrow> RolloverGroupState \<Rightarrow> RolloverGroupState" where
  "mark_losers w st =
    (if restore (group st) then st
     else st\<lparr>lost := lost st \<union> {m \<in> set (map member (held st)). Some m \<noteq> w}\<rparr>)"

text \<open>\<open>bisect.insort\<close> by press order, which keeps equal keys in their order of insertion.\<close>

fun insort_held :: "HeldMember \<Rightarrow> HeldMember list \<Rightarrow> HeldMember list" where
  "insort_held h [] = [h]"
| "insort_held h (x # xs) = (if press_seq h < press_seq x then h # x # xs else x # insort_held h xs)"

definition drop_member :: "RolloverMember \<Rightarrow> HeldMember list \<Rightarrow> HeldMember list" where
  "drop_member m hs = filter (\<lambda>h. member h \<noteq> m) hs"

section \<open>Handovers\<close>

text \<open>What the handover reads of the devices: the action a member's key is mapped to now, the one it
  was pressed with (\<open>held_source_actions\<close>), the output it has when it passes through and whether
  its tap is still running.\<close>

record ('c, 'x) GroupEnv =
  env_repr :: "json \<Rightarrow> string"
  env_abs_code :: "string \<Rightarrow> bool"
  mapped_action :: "RolloverMember \<Rightarrow> ('c, 'x) MappingAction option"
  held_action :: "RolloverMember \<Rightarrow> ('c, 'x) MappingAction option"
  passthrough_output :: "RolloverMember \<Rightarrow> RolloverOutput"
  tap_running :: "RolloverMember \<Rightarrow> bool"

datatype command =
    PressMember RolloverMember bool
  | ReleaseMember RolloverMember
  | HandOver RolloverMember
  | EndTap RolloverMember
  | Rewrite RolloverMember
  | LeftToCombo RolloverMember
  | LeftWithDevice RolloverMember

definition env_output ::
  "('c, 'x) GroupEnv \<Rightarrow> ('c, 'x) MappingAction option \<Rightarrow> RolloverMember \<Rightarrow> RolloverOutput option"
where
  "env_output env action m = rollover_output (env_repr env) (env_abs_code env) action (passthrough_output env m)"

definition chosen_output :: "('c, 'x) GroupEnv \<Rightarrow> HeldMember \<Rightarrow> RolloverOutput option" where
  "chosen_output env h =
    (if pressed h then member_output h else env_output env (mapped_action env (member h)) (member h))"

text \<open>The copy of the action without its tap is \<open>dataclasses.replace\<close>: constructing an action again
  from its own fields changes nothing else (\<open>mapping_action_normal\<close>).\<close>

definition tap_output :: "('c, 'x) GroupEnv \<Rightarrow> HeldMember \<Rightarrow> RolloverOutput option" where
  "tap_output env h =
    (case held_action env (member h) of
       None \<Rightarrow> None
     | Some a \<Rightarrow> if \<not> tap_enabled a then None
                 else env_output env (Some (a\<lparr>tap_enabled := False\<rparr>)) (member h))"

text \<open>The loop over the losers: commands, donors, and whether a tap that shared the chosen output was
  ended.\<close>

fun give_up ::
  "('c, 'x) GroupEnv \<Rightarrow> HeldMember option \<Rightarrow> RolloverOutput option \<Rightarrow> HeldMember list
    \<Rightarrow> command list \<times> HeldMember list \<times> bool"
where
  "give_up env chosen out [] = ([], [], False)"
| "give_up env chosen out (h # hs) =
    (let (cmds, donors, tapped) = give_up env chosen out hs
     in if out \<noteq> None \<and> member_output h = out then (HandOver (member h) # cmds, h # donors, tapped)
        else let tap = tap_output env h;
                 shared = (tap \<noteq> None \<and> tap = out);
                 unknown = (case chosen of None \<Rightarrow> False | Some c \<Rightarrow> \<not> pressed c \<and> out = None);
                 ended = ((shared \<or> (unknown \<and> tap \<noteq> None)) \<and> tap_running env (member h))
             in (ReleaseMember (member h) # (if ended then [EndTap (member h)] else []) @ cmds,
                 donors, (ended \<and> shared) \<or> tapped))"

fun is_axis :: "RolloverOutput \<Rightarrow> bool" where
  "is_axis (AxisOut out t) = True"
| "is_axis v = False"

fun passes_through :: "RolloverOutput \<Rightarrow> bool" where
  "passes_through (PassthroughOut path code) = True"
| "passes_through (GamepadRoute out code) = True"
| "passes_through v = False"

definition reassert :: "('c, 'x) GroupEnv \<Rightarrow> HeldMember \<Rightarrow> bool \<Rightarrow> command list" where
  "reassert env h rewrite =
    (case member_output h of
       None \<Rightarrow> []
     | Some out \<Rightarrow>
         if \<not> is_axis out \<and> \<not> rewrite then []
         else if held_action env (member h) \<noteq> None \<or> passes_through out then [Rewrite (member h)] else [])"

definition one_shot_again :: "('c, 'x) GroupEnv \<Rightarrow> HeldMember \<Rightarrow> bool" where
  "one_shot_again env h \<longleftrightarrow> fired h \<and>
    (case mapped_action env (member h) of
       None \<Rightarrow> False
     | Some a \<Rightarrow> action_type a \<in> set ONE_SHOT_ACTION_TYPES)"

definition press_chosen :: "('c, 'x) GroupEnv \<Rightarrow> HeldMember \<Rightarrow> command list \<times> HeldMember" where
  "press_chosen env h =
    ([PressMember (member h) (\<not> one_shot_again env h)],
     h\<lparr>pressed := True, fired := True,
       member_output := env_output env (held_action env (member h)) (member h)\<rparr>)"

definition set_member :: "HeldMember \<Rightarrow> HeldMember list \<Rightarrow> HeldMember list" where
  "set_member h hs = map (\<lambda>k. if member k = member h then h else k) hs"

text \<open>\<open>_settle\<close>.  \<open>gone\<close> is the member whose release this event is: it has left the held list and may
  still be the active one.\<close>

definition previous_active :: "HeldMember option \<Rightarrow> RolloverGroupState \<Rightarrow> HeldMember option" where
  "previous_active gone st =
    (case active st of
       None \<Rightarrow> None
     | Some m \<Rightarrow> (case gone of
                    Some g \<Rightarrow> if member g = m then Some g else find_member st m
                  | None \<Rightarrow> find_member st m))"

definition losers_of :: "HeldMember option \<Rightarrow> RolloverMember option \<Rightarrow> RolloverGroupState \<Rightarrow> HeldMember list" where
  "losers_of gone w st =
    (let losers = filter (\<lambda>h. pressed h \<and> Some (member h) \<noteq> w) (held st)
     in case previous_active gone st of
          Some p \<Rightarrow> if pressed p \<and> Some (member p) \<noteq> w then p # drop_member (member p) losers else losers
        | None \<Rightarrow> losers)"

definition settle ::
  "('c, 'x) GroupEnv \<Rightarrow> HeldMember option \<Rightarrow> RolloverGroupState \<Rightarrow> command list \<times> RolloverGroupState"
where
  "settle env gone st =
    (let chosen = next_active st;
         w = map_option member chosen;
         st1 = mark_losers w st;
         out = (case chosen of None \<Rightarrow> None | Some c \<Rightarrow> chosen_output env c);
         (cmds, donors, tapped) = give_up env chosen out (losers_of gone w st1);
         st2 = st1\<lparr>held := map (\<lambda>h. if Some (member h) \<noteq> w then h\<lparr>pressed := False\<rparr> else h) (held st1),
                   active := w\<rparr>
     in case chosen of
          None \<Rightarrow> (cmds, st2)
        | Some c \<Rightarrow>
            if pressed c then (cmds @ (if donors \<noteq> [] \<or> tapped then reassert env c tapped else []), st2)
            else let (press, c') = press_chosen env c in (cmds @ press, st2\<lparr>held := set_member c' (held st2)\<rparr>))"

section \<open>Events\<close>

record MemberEvent =
  ev_member :: RolloverMember
  ev_runtime :: nat
  ev_code :: int
  ev_name :: string
  ev_value :: int
  ev_press_seq :: nat

datatype event_label = NormalDispatch | RolloverMember | PressSuppressed | RepeatSuppressed

definition new_held :: "MemberEvent \<Rightarrow> HeldMember" where
  "new_held ev = \<lparr>member = ev_member ev, runtime = ev_runtime ev, event_code = ev_code ev,
     event_name = ev_name ev, press_seq = ev_press_seq ev, member_output = None, pressed = False,
     recalled = False, fired = False\<rparr>"

definition leave :: "RolloverMember \<Rightarrow> RolloverGroupState \<Rightarrow> RolloverGroupState" where
  "leave m st = st\<lparr>held := drop_member m (held st), lost := lost st - {m}\<rparr>"

definition apply_member_event ::
  "('c, 'x) GroupEnv \<Rightarrow> MemberEvent \<Rightarrow> RolloverGroupState \<Rightarrow> event_label \<times> command list \<times> RolloverGroupState"
where
  "apply_member_event env ev st =
    (let m = ev_member ev
     in if ev_value ev \<notin> {0, 1}
        then (case find_member st m of
                None \<Rightarrow> (NormalDispatch, [], st)
              | Some h \<Rightarrow> if active st = Some m \<and> pressed h then (NormalDispatch, [], st)
                          else (RepeatSuppressed, [], st))
        else if ev_value ev = 1
        then (case find_member st m of
                Some h \<Rightarrow>
                  if \<not> recalled h then (PressSuppressed, [], st)
                  else let h' = h\<lparr>recalled := False, fired := False, press_seq := ev_press_seq ev\<rparr>;
                           st' = (leave m st)\<lparr>held := insort_held h' (drop_member m (held st))\<rparr>
                       in (RolloverMember, settle env None st')
              | None \<Rightarrow> (RolloverMember, settle env None (st\<lparr>held := insort_held (new_held ev) (held st)\<rparr>)))
        else (case find_member st m of
                None \<Rightarrow> (NormalDispatch, [], st)
              | Some h \<Rightarrow> (RolloverMember, settle env (Some h) (leave m st))))"

definition consumed_release ::
  "('c, 'x) GroupEnv \<Rightarrow> RolloverMember \<Rightarrow> RolloverGroupState \<Rightarrow> command list \<times> RolloverGroupState"
where
  "consumed_release env m st =
    (case find_member st m of None \<Rightarrow> ([], st) | Some h \<Rightarrow> settle env (Some h) (leave m st))"

definition recall_rollover_member :: "RolloverMember \<Rightarrow> RolloverGroupState \<Rightarrow> command list \<times> RolloverGroupState" where
  "recall_rollover_member m st =
    (case find_member st m of
       None \<Rightarrow> ([], st)
     | Some h \<Rightarrow> (if pressed h then [LeftToCombo m] else [],
                 st\<lparr>held := set_member (h\<lparr>recalled := True, pressed := False\<rparr>) (held st)\<rparr>))"

definition restore_rollover_member :: "RolloverMember \<Rightarrow> RolloverGroupState \<Rightarrow> bool \<times> RolloverGroupState" where
  "restore_rollover_member m st =
    (case find_member st m of
       None \<Rightarrow> (False, st)
     | Some h \<Rightarrow> if \<not> recalled h then (False, st)
                 else (True, st\<lparr>held := set_member (h\<lparr>recalled := False\<rparr>) (held st)\<rparr>))"

text \<open>\<open>forget_runtime\<close>: the result says whether the group needs a settle; the names are the keys
  quarantined on the device.\<close>

definition forget_runtime ::
  "nat \<Rightarrow> RolloverGroupState \<Rightarrow> bool \<times> string list \<times> RolloverGroupState"
where
  "forget_runtime r st =
    (let removed = filter (\<lambda>h. runtime h = r) (held st)
     in if removed = [] then (False, [], st)
        else let active_gone = (case active st of
                                  None \<Rightarrow> False
                                | Some m \<Rightarrow> m \<in> set (map member removed));
                 st' = st\<lparr>held := filter (\<lambda>h. runtime h \<noteq> r) (held st),
                          lost := lost st - set (map member removed),
                          active := (if active_gone then None else active st)\<rparr>
             in (map_option member (next_active st') \<noteq> active st', map event_name removed, st'))"

section \<open>The machine of a group\<close>

datatype ('c, 'x) group_op =
    KeyEvent "('c, 'x) GroupEnv" MemberEvent
  | ConsumedRelease "('c, 'x) GroupEnv" RolloverMember
  | Recall RolloverMember
  | Restore RolloverMember
  | ForgetDevice nat
  | Resettle "('c, 'x) GroupEnv"

fun group_step :: "RolloverGroupState \<Rightarrow> ('c, 'x) group_op \<Rightarrow> command list \<times> RolloverGroupState" where
  "group_step st (KeyEvent env ev) = snd (apply_member_event env ev st)"
| "group_step st (ConsumedRelease env m) = consumed_release env m st"
| "group_step st (Recall m) = recall_rollover_member m st"
| "group_step st (Restore m) = ([], snd (restore_rollover_member m st))"
| "group_step st (ForgetDevice r) =
    (map (\<lambda>h. LeftWithDevice (member h)) (filter (\<lambda>h. runtime h = r \<and> pressed h) (held st)),
     snd (snd (forget_runtime r st)))"
| "group_step st (Resettle env) = settle env None st"

text \<open>A run keeps the commands issued so far.\<close>

definition traced_step ::
  "command list \<times> RolloverGroupState \<Rightarrow> ('c, 'x) group_op \<Rightarrow> command list \<times> RolloverGroupState"
where
  "traced_step ts op = (let (cmds, st) = group_step (snd ts) op in (fst ts @ cmds, st))"

text \<open>The members whose mapping is down after some commands; \<open>None\<close> once a member is pressed while
  another one is down, or released or rewritten while it is up.\<close>

fun driven :: "RolloverMember set \<Rightarrow> command list \<Rightarrow> RolloverMember set option" where
  "driven D [] = Some D"
| "driven D (PressMember m runs # cs) = (if D = {} then driven {m} cs else None)"
| "driven D (EndTap m # cs) = (if m \<in> D then None else driven D cs)"
| "driven D (Rewrite m # cs) = (if m \<in> D then driven D cs else None)"
| "driven D (ReleaseMember m # cs) = (if m \<in> D then driven (D - {m}) cs else None)"
| "driven D (HandOver m # cs) = (if m \<in> D then driven (D - {m}) cs else None)"
| "driven D (LeftToCombo m # cs) = (if m \<in> D then driven (D - {m}) cs else None)"
| "driven D (LeftWithDevice m # cs) = (if m \<in> D then driven (D - {m}) cs else None)"

definition pressed_members :: "HeldMember list \<Rightarrow> RolloverMember set" where
  "pressed_members hs = member ` {h \<in> set hs. pressed h}"

text \<open>What holds of a group before its first settle, and after it.\<close>

definition group_wf :: "RolloverGroupState \<Rightarrow> bool" where
  "group_wf st \<longleftrightarrow> distinct (map member (held st)) \<and> sorted (map press_seq (held st))
    \<and> (\<forall>h\<in>set (held st). recalled h \<longrightarrow> \<not> pressed h)
    \<and> lost st \<subseteq> member ` set (held st) \<and> active st \<in> insert None (Some ` member ` set (held st))"

definition group_inv :: "RolloverGroupState \<Rightarrow> bool" where
  "group_inv st \<longleftrightarrow> group_wf st \<and> (\<forall>h\<in>set (held st). pressed h \<longrightarrow> active st = Some (member h))"

lemma drive_append: "driven D (a @ b) = Option.bind (driven D a) (\<lambda>D'. driven D' b)"
  by (induction D a rule: driven.induct) auto

lemma py_min_key_in: "py_min_key k xs = Some x \<Longrightarrow> x \<in> set xs"
  using py_min_key_Some by fast

lemma choose_active_in: "choose_active g ms ls = Some m \<Longrightarrow> m \<in> set ms \<and> (restore g \<or> m \<notin> ls)"
proof (cases "winner g = NEUTRAL")
  case False
  assume chosen: "choose_active g ms ls = Some m"
  define cs where "cs = (if restore g then ms else filter (\<lambda>m. m \<notin> ls) ms)"
  have "cs \<noteq> [] \<and> m \<in> set cs"
    using chosen False unfolding choose_active_def Let_def cs_def [symmetric]
    by (cases "winner g") (auto split: if_splits intro: py_min_key_in)
  then show ?thesis by (auto simp: cs_def split: if_splits)
qed (auto simp: choose_active_def split: if_splits list.splits)

lemma insort_held_set [simp]: "set (insort_held h hs) = insert h (set hs)"
  by (induction hs) auto

lemma insort_held_sorted: "sorted (map press_seq hs) \<Longrightarrow> sorted (map press_seq (insort_held h hs))"
  by (induction hs) (auto simp: le_less)

lemma insort_held_distinct:
  "distinct (map member (insort_held h hs)) \<longleftrightarrow> member h \<notin> member ` set hs \<and> distinct (map member hs)"
  by (induction hs) auto

lemma drop_member_facts:
  "set (drop_member m hs) = {h \<in> set hs. member h \<noteq> m}"
  "distinct (map member hs) \<Longrightarrow> distinct (map member (drop_member m hs))"
  "sorted (map press_seq hs) \<Longrightarrow> sorted (map press_seq (drop_member m hs))"
  by (auto simp: drop_member_def distinct_map_filter intro: sorted_filter)

lemma set_member_facts:
  "map member (set_member h hs) = map member hs"
  "set (set_member h hs) \<subseteq> insert h (set hs)"
  by (auto simp: set_member_def)

lemma find_member_Some:
  "find_member st m = Some h \<Longrightarrow> h \<in> set (held st) \<and> member h = m"
  by (auto simp: find_member_def find_Some_iff)

lemma find_member_None: "find_member st m = None \<longleftrightarrow> m \<notin> member ` set (held st)"
  by (auto simp: find_member_def find_None_iff)

lemma find_member_in:
  assumes "distinct (map member (held st))" "h \<in> set (held st)"
  shows "find_member st (member h) = Some h"
proof (cases "find_member st (member h)")
  case None
  then show ?thesis using assms(2) by (auto simp: find_member_None)
next
  case (Some k)
  from find_member_Some [OF this] assms show ?thesis using Some by (auto simp: distinct_map inj_on_def)
qed

lemma pressed_iff:
  assumes "distinct (map member (held st))" "find_member st m = Some k"
  shows "m \<in> pressed_members (held st) \<longleftrightarrow> pressed k"
proof
  assume "m \<in> pressed_members (held st)"
  then obtain h where h: "h \<in> set (held st)" "pressed h" "m = member h" by (auto simp: pressed_members_def)
  with find_member_in [OF assms(1) h(1)] assms(2) show "pressed k" by simp
next
  assume "pressed k"
  with find_member_Some [OF assms(2)] show "m \<in> pressed_members (held st)" by (auto simp: pressed_members_def)
qed

lemma next_active_Some:
  assumes "distinct (map member (held st))" and "next_active st = Some c"
  shows "c \<in> set (held st) \<and> \<not> recalled c \<and> (restore (group st) \<or> member c \<notin> lost st)"
proof -
  obtain m where m: "choose_active (group st) (map member (filter (\<lambda>h. \<not> recalled h) (held st))) (lost st) = Some m"
      "find_member st m = Some c"
    using assms(2) by (auto simp: next_active_def split: option.splits)
  obtain h where h: "h \<in> set (held st)" "\<not> recalled h" "member h = m"
    using choose_active_in [OF m(1)] by auto
  with find_member_in [OF assms(1) h(1)] m choose_active_in [OF m(1)] show ?thesis by auto
qed

lemma give_up_drive:
  assumes "give_up env chosen out hs = (cmds, donors, tapped)"
    and "distinct (map member hs)" and "member ` set hs \<subseteq> D"
  shows "driven D cmds = Some (D - member ` set hs)"
  using assms
proof (induction hs arbitrary: D cmds donors tapped)
  case (Cons h hs)
  obtain cmds' donors' tapped' where rest: "give_up env chosen out hs = (cmds', donors', tapped')"
    by (cases "give_up env chosen out hs") auto
  have "driven (D - {member h}) cmds' = Some (D - {member h} - member ` set hs)"
  proof (rule Cons.IH [OF rest])
    show "distinct (map member hs)" using Cons.prems(2) by simp
    show "member ` set hs \<subseteq> D - {member h}"
      using Cons.prems(2,3) by (simp add: subset_Diff_insert)
  qed
  moreover have "cmds = HandOver (member h) # cmds' \<or> cmds = ReleaseMember (member h) # cmds'
      \<or> cmds = ReleaseMember (member h) # EndTap (member h) # cmds'"
    using Cons.prems(1) by (auto simp: rest Let_def split: if_splits)
  moreover have "D - {member h} - member ` set hs = D - member ` set (h # hs)" "member h \<in> D"
    using Cons.prems(3) by auto
  ultimately show ?case by auto
qed simp

lemma losers_of_facts:
  assumes "distinct (map member (held st))"
    and "case gone of None \<Rightarrow> active st \<in> insert None (Some ` member ` set (held st))
         | Some g \<Rightarrow> member g \<notin> member ` set (held st) \<and> (pressed g \<longrightarrow> active st = Some (member g))"
  shows "distinct (map member (losers_of gone w st))"
    and "member ` set (losers_of gone w st) =
      {m \<in> pressed_members (held st) \<union> (case gone of None \<Rightarrow> {} | Some g \<Rightarrow> if pressed g then {member g} else {}). Some m \<noteq> w}"
proof -
  define L where "L = filter (\<lambda>h. pressed h \<and> Some (member h) \<noteq> w) (held st)"
  have L: "distinct (map member L)" "member ` set L = {m \<in> pressed_members (held st). Some m \<noteq> w}"
    using assms(1) by (auto simp: L_def distinct_map_filter pressed_members_def)
  have p: "p \<in> set (held st) \<or> (\<exists>g. gone = Some g \<and> p = g)" if "previous_active gone st = Some p" for p
    using that find_member_Some by (fastforce simp: previous_active_def split: option.splits if_splits)
  have g: "previous_active gone st = Some g" if "gone = Some g" "pressed g" for g
    using that assms(2) by (simp add: previous_active_def)
  show "distinct (map member (losers_of gone w st))"
    using L(1) by (auto simp: losers_of_def L_def [symmetric] drop_member_facts split: option.split)
  show "member ` set (losers_of gone w st) =
      {m \<in> pressed_members (held st) \<union> (case gone of None \<Rightarrow> {} | Some g \<Rightarrow> if pressed g then {member g} else {}). Some m \<noteq> w}"
  proof (cases "\<exists>p. previous_active gone st = Some p \<and> pressed p \<and> Some (member p) \<noteq> w")
    case True
    then obtain p where pp: "previous_active gone st = Some p" "pressed p" "Some (member p) \<noteq> w" by blast
    then have "member ` set (losers_of gone w st) = insert (member p) (member ` set L)"
      by (auto simp: losers_of_def L_def [symmetric] drop_member_facts)
    moreover have "member p \<in> pressed_members (held st) \<or> gone = Some p"
      using p [OF pp(1)] pp(2) by (auto simp: pressed_members_def)
    moreover have "g = p" if "gone = Some g" "pressed g" for g using g [OF that] pp(1) by simp
    ultimately show ?thesis using pp(2,3) L(2) by (auto split: option.splits)
  next
    case False
    then have "losers_of gone w st = L"
      by (auto simp: losers_of_def L_def [symmetric] split: option.splits)
    moreover have "Some (member g) = w" if "gone = Some g" "pressed g" for g using False g [OF that] that(2) by blast
    ultimately show ?thesis using L(2) by (auto split: option.splits)
  qed
qed

text \<open>Where the group stands before a settle: \<open>gone\<close> has just left.\<close>

definition settles :: "HeldMember option \<Rightarrow> RolloverGroupState \<Rightarrow> bool" where
  "settles gone st \<longleftrightarrow> distinct (map member (held st)) \<and> sorted (map press_seq (held st))
    \<and> (\<forall>h\<in>set (held st). recalled h \<longrightarrow> \<not> pressed h) \<and> lost st \<subseteq> member ` set (held st)
    \<and> (case gone of None \<Rightarrow> active st \<in> insert None (Some ` member ` set (held st))
       | Some g \<Rightarrow> member g \<notin> member ` set (held st) \<and> (pressed g \<longrightarrow> active st = Some (member g)))"

definition down_with :: "HeldMember option \<Rightarrow> RolloverGroupState \<Rightarrow> RolloverMember set" where
  "down_with gone st = pressed_members (held st) \<union>
    (case gone of None \<Rightarrow> {} | Some g \<Rightarrow> if pressed g then {member g} else {})"

lemma mark_losers_fields [simp]:
  "held (mark_losers w st) = held st" "active (mark_losers w st) = active st" "group (mark_losers w st) = group st"
  by (simp_all add: mark_losers_def)

lemma find_member_mark [simp]: "find_member (mark_losers w st) = find_member st"
  by (simp add: find_member_def fun_eq_iff)

lemma losers_of_mark [simp]: "losers_of gone w (mark_losers v st) = losers_of gone w st"
  unfolding losers_of_def previous_active_def mark_losers_fields find_member_mark ..

lemma settled_inv:
  assumes ok: "settles gone st" and st': "held st' = hs" "active st' = w" "lost st' = lost (mark_losers w st)"
    and same: "map member hs = map member (held st)" "map press_seq hs = map press_seq (held st)"
    and flags: "\<forall>h\<in>set hs. (recalled h \<longrightarrow> \<not> pressed h) \<and> (pressed h \<longrightarrow> Some (member h) = w)"
    and w: "w \<in> insert None (Some ` member ` set (held st))"
  shows "group_inv st'"
proof -
  have mem: "member ` set hs = member ` set (held st)" using same(1) by (metis list.set_map)
  have "lost st' \<subseteq> member ` set (held st)"
    using ok by (auto simp: st'(3) settles_def mark_losers_def)
  moreover have "distinct (map member hs)" "sorted (map press_seq hs)"
    unfolding same using ok by (simp_all add: settles_def)
  ultimately show ?thesis
    using flags w unfolding group_inv_def group_wf_def st'(1,2) mem by auto
qed

lemma reassert_drive: "m = member h \<Longrightarrow> driven {m} (reassert env h r) = Some {m}"
  by (simp add: reassert_def split: option.split)

lemma settle_ok:
  assumes ok: "settles gone st" and res: "settle env gone st = (cmds, st')"
  shows "driven (down_with gone st) cmds = Some (pressed_members (held st'))"
    and "group_inv st'" and "map member (held st') = map member (held st)" and "group st' = group st"
    and "active st' = map_option member (next_active st)"
    and "lost st' = lost (mark_losers (active st') st)"
    and "pressed_members (held st') = set_option (active st')"
proof -
  define chosen where "chosen = next_active st"
  define w where "w = map_option member chosen"
  define out where "out = (case chosen of None \<Rightarrow> None | Some c \<Rightarrow> chosen_output env c)"
  obtain gcmds donors tapped where give: "give_up env chosen out (losers_of gone w st) = (gcmds, donors, tapped)"
    by (cases "give_up env chosen out (losers_of gone w st)") auto
  define hs where "hs = map (\<lambda>h. if Some (member h) \<noteq> w then h\<lparr>pressed := False\<rparr> else h) (held st)"
  define st2 where "st2 = (mark_losers w st)\<lparr>held := hs, active := w\<rparr>"
  have res': "(cmds, st') = (case chosen of
        None \<Rightarrow> (gcmds, st2)
      | Some c \<Rightarrow>
          if pressed c then (gcmds @ (if donors \<noteq> [] \<or> tapped then reassert env c tapped else []), st2)
          else let (press, c') = press_chosen env c in (gcmds @ press, st2\<lparr>held := set_member c' (held st2)\<rparr>))"
    using res unfolding settle_def Let_def chosen_def [symmetric] w_def [symmetric] out_def [symmetric]
      losers_of_mark mark_losers_fields hs_def [symmetric] give prod.case st2_def [symmetric] by (rule sym)
  have dist: "distinct (map member (held st))" and rec: "\<forall>h\<in>set (held st). recalled h \<longrightarrow> \<not> pressed h"
    using ok by (simp_all add: settles_def)
  note losers = losers_of_facts [OF dist, of gone w]
  have gone_ok: "case gone of None \<Rightarrow> active st \<in> insert None (Some ` member ` set (held st))
       | Some g \<Rightarrow> member g \<notin> member ` set (held st) \<and> (pressed g \<longrightarrow> active st = Some (member g))"
    using ok by (simp add: settles_def)
  have give_drive: "driven (down_with gone st) gcmds = Some {m \<in> down_with gone st. Some m = w}"
  proof -
    have all: "member ` set (losers_of gone w st) = {m \<in> down_with gone st. Some m \<noteq> w}"
      using losers(2) [OF gone_ok] by (simp add: down_with_def)
    then have "driven (down_with gone st) gcmds = Some (down_with gone st - {m \<in> down_with gone st. Some m \<noteq> w})"
      using give_up_drive [OF give losers(1) [OF gone_ok], of "down_with gone st"] by auto
    moreover have "down_with gone st - {m \<in> down_with gone st. Some m \<noteq> w} = {m \<in> down_with gone st. Some m = w}" by blast
    ultimately show ?thesis by simp
  qed
  have hs: "map member hs = map member (held st)" "map press_seq hs = map press_seq (held st)"
    "pressed_members hs = {m \<in> pressed_members (held st). Some m = w}"
    by (auto simp: hs_def pressed_members_def o_def intro!: map_cong)
  have hs_rec: "\<forall>h\<in>set hs. recalled h \<longrightarrow> \<not> pressed h" "\<forall>h\<in>set hs. pressed h \<longrightarrow> Some (member h) = w"
    using rec by (auto simp: hs_def)
  have gone_not: "{m \<in> down_with gone st. Some m = w} = pressed_members hs"
  proof -
    have "Some (member g) \<noteq> w" if "gone = Some g" for g
    proof
      assume "Some (member g) = w"
      then obtain c where "next_active st = Some c" "member c = member g"
        by (cases "next_active st") (auto simp: w_def chosen_def)
      with next_active_Some [OF dist, of c] have "c \<in> set (held st)" by blast
      from imageI [OF this, of member] have "member g \<in> member ` set (held st)" by (simp add: \<open>member c = member g\<close>)
      with gone_ok that show False by simp
    qed
    then show ?thesis by (auto simp: hs(3) down_with_def split: option.splits)
  qed
  have "driven (down_with gone st) cmds = Some (pressed_members (held st')) \<and> group_inv st'
    \<and> map member (held st') = map member (held st) \<and> group st' = group st \<and> active st' = w
    \<and> lost st' = lost (mark_losers w st) \<and> pressed_members (held st') = set_option w"
  proof (cases chosen)
    case None
    then have st': "cmds = gcmds" "st' = st2" using res' by simp_all
    have none: "pressed_members hs = {}" using hs_rec(2) None by (auto simp: pressed_members_def w_def)
    have "group_inv st'"
      using hs_rec by (intro settled_inv [OF ok _ _ _ hs(1,2)]) (auto simp: st' st2_def w_def None)
    then show ?thesis using give_drive gone_not hs(1) none by (simp add: st' st2_def w_def None)
  next
    case (Some c)
    have c: "c \<in> set (held st)" "\<not> recalled c" "w = Some (member c)"
      using next_active_Some [OF dist, of c] Some by (simp_all add: chosen_def w_def)
    have c_hs: "c \<in> set hs" using c(1,3) by (force simp: hs_def)
    have only: "h = c" if "h \<in> set hs" "member h = member c" for h
    proof -
      have "distinct (map member hs)" using dist hs(1) by simp
      then show ?thesis using that c_hs by (auto simp: distinct_map inj_on_def)
    qed
    have down_c: "h = c" if "h \<in> set hs" "pressed h" for h
    proof -
      have "Some (member h) = w" using hs_rec(2) that by blast
      then show ?thesis using only that(1) c(3) by simp
    qed
    show ?thesis
    proof (cases "pressed c")
      case True
      have st': "st' = st2" and cmds: "cmds = gcmds @ (if donors \<noteq> [] \<or> tapped then reassert env c tapped else [])"
        using res' Some True by simp_all
      have down: "pressed_members hs = {member c}"
        using down_c c_hs True unfolding pressed_members_def by blast
      have "group_inv st'"
        using hs_rec c(1) by (intro settled_inv [OF ok _ _ _ hs(1,2), where w = w and st' = st']) (auto simp: st' st2_def c(3))
      then show ?thesis
        using give_drive gone_not hs(1) down by (simp add: st' cmds st2_def drive_append reassert_drive c(3))
    next
      case False
      define c' where "c' = snd (press_chosen env c)"
      have c': "member c' = member c" "pressed c'" "\<not> recalled c'" "press_seq c' = press_seq c"
        using c(2) by (simp_all add: c'_def press_chosen_def)
      have st': "st' = st2\<lparr>held := set_member c' hs\<rparr>"
        and cmds: "cmds = gcmds @ [PressMember (member c) (\<not> one_shot_again env c)]"
        using res' Some False by (simp_all add: press_chosen_def c'_def st2_def)
      have none: "pressed_members hs = {}"
        using down_c False unfolding pressed_members_def by blast
      have new: "map member (set_member c' hs) = map member (held st)" "map press_seq (set_member c' hs) = map press_seq (held st)"
      proof -
        have "press_seq (if member k = member c' then c' else k) = press_seq k" if "k \<in> set hs" for k
          using only [OF that] c'(1,4) by auto
        then have "map press_seq (set_member c' hs) = map press_seq hs" by (simp add: set_member_def)
        then show "map member (set_member c' hs) = map member (held st)" "map press_seq (set_member c' hs) = map press_seq (held st)"
          using hs(1,2) by (simp_all add: set_member_facts)
      qed
      have down: "pressed_members (set_member c' hs) = {member c}"
      proof -
        have "c' \<in> set (set_member c' hs)" using c_hs c'(1) by (force simp: set_member_def)
        moreover have "h = c'" if "h \<in> set (set_member c' hs)" "pressed h" for h
          using that none set_member_facts(2) [of c' hs] by (auto simp: pressed_members_def)
        ultimately have "{h \<in> set (set_member c' hs). pressed h} = {c'}" using c'(2) by blast
        then show ?thesis using c'(1) by (simp add: pressed_members_def)
      qed
      have rec': "\<forall>h\<in>set (set_member c' hs). (recalled h \<longrightarrow> \<not> pressed h) \<and> (pressed h \<longrightarrow> Some (member h) = w)"
        using hs_rec c'(1,3) c(3) by (auto simp: set_member_def)
      have "group_inv st'"
        using rec' c(1) by (intro settled_inv [OF ok _ _ _ new, where w = w and st' = st']) (auto simp: st' st2_def c(3))
      then show ?thesis
        using give_drive gone_not none new(1) down by (simp add: st' cmds st2_def drive_append c(3))
    qed
  qed
  then show "driven (down_with gone st) cmds = Some (pressed_members (held st'))"
    and "group_inv st'" and "map member (held st') = map member (held st)" and "group st' = group st"
    and "active st' = map_option member (next_active st)"
    and "lost st' = lost (mark_losers (active st') st)"
    and "pressed_members (held st') = set_option (active st')"
    by (simp_all add: w_def chosen_def)
qed

lemma settle_from_wf:
  assumes "group_wf st"
  shows "settles None st" "down_with None st = pressed_members (held st)"
  using assms by (simp_all add: group_wf_def settles_def down_with_def)

lemma leave_settles:
  assumes inv: "group_inv st" and h: "find_member st m = Some h"
  shows "settles (Some h) (leave m st)" "down_with (Some h) (leave m st) = pressed_members (held st)"
proof -
  note mem = find_member_Some [OF h]
  have dist: "distinct (map member (held st))" using inv by (simp add: group_inv_def group_wf_def)
  have uniq: "k = h" if "k \<in> set (held st)" "member k = m" for k
    using dist mem that by (auto simp: distinct_map inj_on_def)
  show "settles (Some h) (leave m st)"
    using inv mem by (auto simp: settles_def leave_def group_inv_def group_wf_def drop_member_facts)
  show "down_with (Some h) (leave m st) = pressed_members (held st)"
    using mem uniq by (auto simp: down_with_def leave_def pressed_members_def drop_member_facts)
qed

lemma insort_wf:
  assumes wf: "group_wf st" and new: "find_member st (member h) = None" and up: "\<not> pressed h"
  shows "group_wf (st\<lparr>held := insort_held h (held st)\<rparr>)"
    "pressed_members (insort_held h (held st)) = pressed_members (held st)"
  using assms
  by (auto simp: group_wf_def insort_held_distinct insort_held_sorted find_member_None pressed_members_def)

lemma set_member_inv:
  assumes inv: "group_inv st" and k: "find_member st m = Some k" and h: "member h = m" "press_seq h = press_seq k"
    and low: "\<not> pressed h"
  shows "group_inv (st\<lparr>held := set_member h (held st)\<rparr>)"
    "pressed_members (set_member h (held st)) = pressed_members (held st) - {m}"
proof -
  have dist: "distinct (map member (held st))" using inv by (simp add: group_inv_def group_wf_def)
  have uniq: "x = k" if "x \<in> set (held st)" "member x = m" for x
    using dist find_member_Some [OF k] that by (auto simp: distinct_map inj_on_def)
  have "map member (set_member h (held st)) = map member (held st)"
    "map press_seq (set_member h (held st)) = map press_seq (held st)"
    using uniq h by (auto simp: set_member_def intro!: map_cong)
  moreover have "\<forall>x\<in>set (set_member h (held st)). x = h \<or> x \<in> set (held st)" by (auto simp: set_member_def)
  ultimately show "group_inv (st\<lparr>held := set_member h (held st)\<rparr>)"
    using inv low unfolding group_inv_def group_wf_def list.set_map [symmetric] by simp metis
  show "pressed_members (set_member h (held st)) = pressed_members (held st) - {m}"
    using h low by (auto simp: pressed_members_def set_member_def split: if_splits)
qed

lemma press_again:
  assumes inv: "group_inv st" and k: "find_member st m = Some k" and h: "member h = m" "\<not> pressed h" and up: "\<not> pressed k"
  defines "st' \<equiv> (leave m st)\<lparr>held := insort_held h (drop_member m (held st))\<rparr>"
  shows "group_wf st'" "pressed_members (held st') = pressed_members (held st)"
proof -
  have dist: "distinct (map member (held st))" using inv by (simp add: group_inv_def group_wf_def)
  have uniq: "x = k" if "x \<in> set (held st)" "member x = m" for x
    using dist find_member_Some [OF k] that by (auto simp: distinct_map inj_on_def)
  show "group_wf st'"
    using inv h find_member_Some [OF k]
    by (auto simp: st'_def leave_def group_inv_def group_wf_def insort_held_distinct insort_held_sorted drop_member_facts)
  show "pressed_members (held st') = pressed_members (held st)"
    using uniq h up by (auto simp: st'_def leave_def pressed_members_def drop_member_facts)
qed

lemma forget_ok:
  fixes r :: nat and st :: RolloverGroupState
  assumes inv: "group_inv st"
  defines "st' \<equiv> snd (snd (forget_runtime r st))"
  shows "group_inv st'"
    and "driven (pressed_members (held st)) (map (\<lambda>h. LeftWithDevice (member h)) (filter (\<lambda>h. runtime h = r \<and> pressed h) (held st)))
      = Some (pressed_members (held st'))"
proof -
  have dist: "distinct (map member (held st))" using inv by (simp add: group_inv_def group_wf_def)
  have held: "held st' = filter (\<lambda>h. runtime h \<noteq> r) (held st)"
    by (auto simp: st'_def forget_runtime_def Let_def filter_empty_conv intro: filter_True)
  have gone: "driven D (map (\<lambda>h. LeftWithDevice (member h)) hs) = Some (D - member ` set hs)"
    if "distinct (map member hs)" "member ` set hs \<subseteq> D" for D hs
    using that
  proof (induction hs arbitrary: D)
    case (Cons h hs)
    have "driven (D - {member h}) (map (\<lambda>h. LeftWithDevice (member h)) hs) = Some (D - {member h} - member ` set hs)"
      using Cons.prems by (intro Cons.IH) (auto simp: subset_Diff_insert)
    moreover have "D - {member h} - member ` set hs = D - member ` set (h # hs)" by auto
    ultimately show ?case using Cons.prems(2) by simp
  qed simp
  define ps where "ps = filter (\<lambda>h. runtime h = r \<and> pressed h) (held st)"
  have ps: "distinct (map member ps)" "member ` set ps \<subseteq> pressed_members (held st)"
    using dist by (auto simp: ps_def distinct_map_filter pressed_members_def)
  have uniq: "x = y" if "x \<in> set (held st)" "y \<in> set (held st)" "member x = member y" for x y
    using dist that by (auto simp: distinct_map inj_on_def)
  have "pressed_members (held st) - member ` set ps = pressed_members (held st')"
    using uniq by (auto simp: pressed_members_def held ps_def)
  with gone [OF ps] show "driven (pressed_members (held st))
      (map (\<lambda>h. LeftWithDevice (member h)) (filter (\<lambda>h. runtime h = r \<and> pressed h) (held st))) = Some (pressed_members (held st'))"
    by (simp add: ps_def)
  have mem: "member ` set (held st') = member ` set (held st) - member ` set (filter (\<lambda>h. runtime h = r) (held st))"
    using uniq by (auto simp: held)
  have fields: "lost st' = lost st - member ` set (filter (\<lambda>h. runtime h = r) (held st))"
    "active st' = (case active st of None \<Rightarrow> None
       | Some m \<Rightarrow> if m \<in> member ` set (filter (\<lambda>h. runtime h = r) (held st)) then None else Some m)"
    by (auto simp: st'_def forget_runtime_def Let_def filter_empty_conv split: option.split)
  have keep: "active st' = Some (member h)" if "h \<in> set (held st')" "active st = Some (member h)" for h
    using imageI [OF that(1), of member] that(2) unfolding mem fields(2) by simp
  have lost: "lost st' \<subseteq> member ` set (held st')"
    using inv by (auto simp: mem fields(1) group_inv_def group_wf_def)
  have "active st' \<in> insert None (Some ` member ` set (held st'))"
    using inv unfolding mem fields(2) group_inv_def group_wf_def by (auto split: option.split)
  moreover have "sorted (map press_seq (held st'))" "distinct (map member (held st'))"
    using inv by (auto simp: held group_inv_def group_wf_def distinct_map_filter intro: sorted_filter)
  ultimately show "group_inv st'"
    using inv lost keep by (auto simp: group_inv_def group_wf_def held)
qed

end
