(* ===== verification/Rollover_Properties.thy ===== *)
theory Rollover_Properties
  imports Rollover_State
begin

text \<open>
  Runs of one rollover group: at most one member drives its mapping, and the group refines a stack of
  held keys with a driver.
\<close>

section \<open>One driver\<close>

lemma apply_event_cases:
  assumes "apply_member_event env ev st = (label, cmds, st')"
  obtains (quiet) "cmds = []" "st' = st"
  | (press) "ev_value ev = 1" "find_member st (ev_member ev) = None"
      "settle env None (st\<lparr>held := insort_held (new_held ev) (held st)\<rparr>) = (cmds, st')"
  | (again) k where "ev_value ev = 1" "find_member st (ev_member ev) = Some k" "recalled k"
      "settle env None ((leave (ev_member ev) st)\<lparr>held := insort_held
          (k\<lparr>recalled := False, fired := False, press_seq := ev_press_seq ev\<rparr>)
          (drop_member (ev_member ev) (held st))\<rparr>) = (cmds, st')"
  | (release) k where "ev_value ev = 0" "find_member st (ev_member ev) = Some k"
      "settle env (Some k) (leave (ev_member ev) st) = (cmds, st')"
proof -
  consider "ev_value ev \<notin> {0, 1}" | "ev_value ev = 1" | "ev_value ev = 0" by blast
  then show thesis
  proof cases
    case 1
    then show thesis using assms quiet by (auto simp: apply_member_event_def Let_def split: option.splits if_splits)
  next
    case 2
    then show thesis
      using assms quiet press again by (auto simp: apply_member_event_def Let_def split: option.splits if_splits)
  next
    case 3
    then show thesis
      using assms quiet release by (auto simp: apply_member_event_def Let_def split: option.splits)
  qed
qed

lemma group_step_ok:
  assumes inv: "group_inv st" and step: "group_step st op = (cmds, st')"
  shows "driven (pressed_members (held st)) cmds = Some (pressed_members (held st')) \<and> group_inv st'"
proof (cases op)
  case (KeyEvent env ev)
  have wf: "group_wf st" using inv by (simp add: group_inv_def)
  obtain label where "apply_member_event env ev st = (label, cmds, st')"
    using step by (cases "apply_member_event env ev st") (simp add: KeyEvent)
  then show ?thesis
  proof (cases rule: apply_event_cases)
    case quiet
    then show ?thesis using inv by simp
  next
    case press
    have "find_member st (member (new_held ev)) = None" "\<not> pressed (new_held ev)"
      using press(2) by (simp_all add: new_held_def)
    note new = insort_wf [OF wf this]
    then show ?thesis using settle_ok [OF settle_from_wf(1) [OF new(1)] press(3)] settle_from_wf(2) [OF new(1)] by simp
  next
    case (again k)
    have k: "member k = ev_member ev" "\<not> pressed k"
      using find_member_Some [OF again(2)] again(3) wf by (auto simp: group_wf_def)
    let ?h = "k\<lparr>recalled := False, fired := False, press_seq := ev_press_seq ev\<rparr>"
    have "member ?h = ev_member ev" "\<not> pressed ?h" using k by simp_all
    note new = press_again [OF inv again(2) this k(2)]
    then show ?thesis using settle_ok [OF settle_from_wf(1) [OF new(1)] again(4)] settle_from_wf(2) [OF new(1)] by simp
  next
    case (release k)
    note gone = leave_settles [OF inv release(2)]
    then show ?thesis using settle_ok [OF gone(1) release(3)] by simp
  qed
next
  case (ConsumedRelease env m)
  show ?thesis
  proof (cases "find_member st m")
    case None
    then show ?thesis using step inv ConsumedRelease by (simp add: consumed_release_def)
  next
    case (Some k)
    have "settle env (Some k) (leave m st) = (cmds, st')" using step Some ConsumedRelease by (simp add: consumed_release_def)
    with settle_ok [OF leave_settles(1) [OF inv Some] this] leave_settles(2) [OF inv Some] show ?thesis by simp
  qed
next
  case (Recall m)
  show ?thesis
  proof (cases "find_member st m")
    case None
    then show ?thesis using step inv Recall by (simp add: recall_rollover_member_def)
  next
    case (Some k)
    let ?h = "k\<lparr>recalled := True, pressed := False\<rparr>"
    note mem = find_member_Some [OF Some]
    have "member ?h = m" "press_seq ?h = press_seq k" "\<not> pressed ?h" using mem by simp_all
    note new = set_member_inv [OF inv Some this]
    have res: "cmds = (if pressed k then [LeftToCombo m] else [])" "st' = st\<lparr>held := set_member ?h (held st)\<rparr>"
      using step Some Recall by (simp_all add: recall_rollover_member_def)
    have dist: "distinct (map member (held st))" using inv by (simp add: group_inv_def group_wf_def)
    have "m \<in> pressed_members (held st) \<longleftrightarrow> pressed k"
      by (rule pressed_iff [OF dist Some])
    then show ?thesis using new by (auto simp: res)
  qed
next
  case (Restore m)
  show ?thesis
  proof (cases "\<exists>k. find_member st m = Some k \<and> recalled k")
    case False
    then show ?thesis using step inv Restore by (auto simp: restore_rollover_member_def split: option.splits)
  next
    case True
    then obtain k where k: "find_member st m = Some k" "recalled k" by blast
    let ?h = "k\<lparr>recalled := False\<rparr>"
    have low: "\<not> pressed k" using k find_member_Some [OF k(1)] inv by (auto simp: group_inv_def group_wf_def)
    have "member ?h = m" "press_seq ?h = press_seq k" "\<not> pressed ?h" using find_member_Some [OF k(1)] low by simp_all
    note new = set_member_inv [OF inv k(1) this]
    have res: "cmds = []" "st' = st\<lparr>held := set_member ?h (held st)\<rparr>"
      using step k Restore by (simp_all add: restore_rollover_member_def)
    have dist: "distinct (map member (held st))" using inv by (simp add: group_inv_def group_wf_def)
    have "m \<notin> pressed_members (held st)"
      using low pressed_iff [OF dist k(1)] by simp
    then show ?thesis using new by (simp add: res)
  qed
next
  case (ForgetDevice r)
  then show ?thesis using forget_ok [OF inv, of r] step by (simp add: o_def)
next
  case (Resettle env)
  have wf: "group_wf st" using inv by (simp add: group_inv_def)
  then show ?thesis
    using settle_ok [OF settle_from_wf(1) [OF wf]] settle_from_wf(2) [OF wf] step Resettle by auto
qed

lemma traced_run:
  assumes "group_inv (snd ts)" and "driven D (fst ts) = Some (pressed_members (held (snd ts)))"
  shows "group_inv (snd (run_steps traced_step ts ops))
    \<and> driven D (fst (run_steps traced_step ts ops)) = Some (pressed_members (held (snd (run_steps traced_step ts ops))))"
  using assms
proof (induction ops arbitrary: ts)
  case (Cons op ops)
  obtain cmds st' where step: "group_step (snd ts) op = (cmds, st')" by (cases "group_step (snd ts) op")
  note ok = group_step_ok [OF Cons.prems(1) step]
  have "traced_step ts op = (fst ts @ cmds, st')" using step by (simp add: traced_step_def)
  with Cons.IH [of "traced_step ts op"] Cons.prems(2) ok show ?case by (simp add: drive_append)
qed simp

text \<open>C5. At most one member drives its mapping.  From any consistent state, after the settle that
  follows a change of groups, in every order of key events, consumed releases, combos that recall or
  restore members, vanishing devices and further settles: a member is pressed only when no other one
  is down, only a member that is down is released, handed over or rewritten, its tap ends after its
  release, and in the end the members that are down are none or the active one alone.\<close>

theorem rollover_one_driver:
  assumes "group_wf st0"
  shows "case run_steps traced_step ([], st0) (Resettle env # ops) of
    (cmds, st) \<Rightarrow> driven (pressed_members (held st0)) cmds = Some (pressed_members (held st))
      \<and> pressed_members (held st) \<subseteq> set_option (active st) \<and> group_inv st"
proof -
  obtain cmds st where step: "settle env None st0 = (cmds, st)" by (cases "settle env None st0")
  note ok = settle_ok [OF settle_from_wf(1) [OF assms] step]
  have first: "traced_step ([], st0) (Resettle env) = (cmds, st)" by (simp add: traced_step_def step)
  obtain cmds' st' where run: "run_steps traced_step ([], st0) (Resettle env # ops) = (cmds', st')"
    by (cases "run_steps traced_step ([], st0) (Resettle env # ops)")
  have "group_inv st' \<and> driven (pressed_members (held st0)) cmds' = Some (pressed_members (held st'))"
    using traced_run [of "(cmds, st)" "pressed_members (held st0)" ops] ok(1,2) settle_from_wf(2) [OF assms] run
    by (simp add: first)
  moreover then have "pressed_members (held st') \<subseteq> set_option (active st')"
    by (auto simp: group_inv_def pressed_members_def)
  ultimately show ?thesis unfolding run prod.case by simp
qed

section \<open>The group as a stack of keys\<close>

text \<open>The contract: the keys that are down in the order of their presses, and the one that drives.
  Without \<open>restore\<close> only the current driver and a new press are eligible.\<close>

type_synonym key_stack = "RolloverMember list \<times> RolloverMember option"

datatype key_change = Pressed RolloverMember | Released RolloverMember | Unchanged

definition pick :: "RolloverGroup \<Rightarrow> RolloverMember list \<Rightarrow> (RolloverMember \<Rightarrow> bool) \<Rightarrow> RolloverMember option" where
  "pick g ks eligible =
    (case filter eligible ks of
       [] \<Rightarrow> None
     | e # es \<Rightarrow>
         (case winner g of
            NEWEST \<Rightarrow> Some (last (e # es))
          | OLDEST \<Rightarrow> Some e
          | PRIORITY \<Rightarrow> py_min_key (member_order g) (e # es)
          | NEUTRAL \<Rightarrow> if length ks = 1 then Some e else None))"

fun stack_step :: "RolloverGroup \<Rightarrow> key_stack \<Rightarrow> key_change \<Rightarrow> key_stack" where
  "stack_step g (ks, d) (Pressed m) =
    (if m \<in> set ks then (ks, d)
     else (ks @ [m], pick g (ks @ [m]) (\<lambda>k. restore g \<or> k = m \<or> Some k = d)))"
| "stack_step g (ks, d) (Released m) =
    (if m \<notin> set ks then (ks, d)
     else let ks' = filter (\<lambda>k. k \<noteq> m) ks in (ks', pick g ks' (\<lambda>k. restore g \<or> Some k = d)))"
| "stack_step g kd Unchanged = kd"

fun key_change_of :: "('c, 'x) group_op \<Rightarrow> key_change" where
  "key_change_of (KeyEvent env ev) =
    (if ev_value ev = 1 then Pressed (ev_member ev)
     else if ev_value ev = 0 then Released (ev_member ev) else Unchanged)"
| "key_change_of (ConsumedRelease env m) = Released m"
| "key_change_of op = Unchanged"

text \<open>Key events only, each press handled after the presses before it.\<close>

fun key_guard :: "RolloverGroupState \<Rightarrow> ('c, 'x) group_op \<Rightarrow> bool" where
  "key_guard st (KeyEvent env ev) =
    (ev_value ev = 1 \<longrightarrow> (\<forall>h\<in>set (held st). press_seq h \<le> ev_press_seq ev))"
| "key_guard st (ConsumedRelease env m) = True"
| "key_guard st op = False"

definition stack_of :: "RolloverGroupState \<Rightarrow> key_stack" where
  "stack_of st = (map member (held st), active st)"

definition stack_inv :: "RolloverGroupState \<Rightarrow> bool" where
  "stack_inv st \<longleftrightarrow> group_inv st \<and> (\<forall>h\<in>set (held st). \<not> recalled h)
    \<and> (restore (group st) \<or> lost st = {m \<in> member ` set (held st). Some m \<noteq> active st})
    \<and> pressed_members (held st) = set_option (active st)"

lemma choose_pick: "choose_active g ks ls = pick g ks (\<lambda>k. restore g \<or> k \<notin> ls)"
proof (cases "winner g = NEUTRAL")
  case True
  show ?thesis
  proof (cases "length ks = 1")
    case True
    then obtain k where "ks = [k]" by (auto simp: length_Suc_conv)
    then show ?thesis using \<open>winner g = NEUTRAL\<close> by (auto simp: choose_active_def pick_def)
  next
    case False
    then have "choose_active g ks ls = None"
      using \<open>winner g = NEUTRAL\<close> by (auto simp: choose_active_def split: list.split)
    then show ?thesis using False \<open>winner g = NEUTRAL\<close> by (simp add: pick_def split: list.split)
  qed
next
  case False
  have eq: "(if restore g then ks else filter (\<lambda>m. m \<notin> ls) ks) = filter (\<lambda>k. restore g \<or> k \<notin> ls) ks" by auto
  define cs where "cs = filter (\<lambda>k. restore g \<or> k \<notin> ls) ks"
  have "choose_active g ks ls = (if cs = [] then None
      else case winner g of
             OLDEST \<Rightarrow> Some (hd cs)
           | PRIORITY \<Rightarrow> py_min_key (member_order g) cs
           | _ \<Rightarrow> Some (last cs))"
    unfolding choose_active_def Let_def eq if_not_P [OF False] cs_def ..
  also have "\<dots> = (case cs of
       [] \<Rightarrow> None
     | e # es \<Rightarrow>
         (case winner g of
            NEWEST \<Rightarrow> Some (last (e # es))
          | OLDEST \<Rightarrow> Some e
          | PRIORITY \<Rightarrow> py_min_key (member_order g) (e # es)
          | NEUTRAL \<Rightarrow> if length ks = 1 then Some e else None))"
  proof (cases cs)
    case (Cons e es)
    then show ?thesis using False by (cases "winner g") auto
  qed simp
  finally show ?thesis unfolding pick_def cs_def .
qed

lemma pick_cong: "(\<And>k. k \<in> set ks \<Longrightarrow> P k = Q k) \<Longrightarrow> pick g ks P = pick g ks Q"
proof -
  assume "\<And>k. k \<in> set ks \<Longrightarrow> P k = Q k"
  then have "filter P ks = filter Q ks" by (intro filter_cong) auto
  then show ?thesis by (simp add: pick_def)
qed

lemma next_active_pick:
  assumes "distinct (map member (held st))" and "\<forall>h\<in>set (held st). \<not> recalled h"
  shows "map_option member (next_active st) = pick (group st) (map member (held st)) (\<lambda>k. restore (group st) \<or> k \<notin> lost st)"
proof -
  have all: "filter (\<lambda>h. \<not> recalled h) (held st) = held st" using assms(2) by (simp add: filter_id_conv)
  have "map_option member (next_active st) = choose_active (group st) (map member (held st)) (lost st)"
  proof (cases "choose_active (group st) (map member (held st)) (lost st)")
    case None
    then show ?thesis by (simp add: next_active_def all)
  next
    case (Some m)
    then obtain h where "h \<in> set (held st)" "member h = m" using choose_active_in by fastforce
    with Some find_member_in [OF assms(1)] show ?thesis by (auto simp: next_active_def all)
  qed
  then show ?thesis by (simp add: choose_pick)
qed

lemma settle_recalled:
  assumes "\<forall>h\<in>set (held st). \<not> recalled h" and "settle env gone st = (cmds, st')"
    and "distinct (map member (held st))"
  shows "\<forall>h\<in>set (held st'). \<not> recalled h"
proof -
  have c: "\<not> recalled c" if "next_active st = Some c" for c using next_active_Some [OF assms(3) that] by blast
  show ?thesis
    using assms(1,2) c
    by (auto simp: settle_def Let_def press_chosen_def set_member_def split: option.splits prod.splits if_splits)
qed

lemma settle_stack:
  assumes ok: "settles gone st" and low: "\<forall>h\<in>set (held st). \<not> recalled h"
    and res: "settle env gone st = (cmds, st')"
    and lost: "restore (group st) \<or> (\<forall>k\<in>member ` set (held st). k \<notin> lost st \<longleftrightarrow> P k)"
    and some: "\<not> restore (group st) \<longrightarrow> lost st \<subseteq> member ` set (held st)"
  shows "stack_inv st'"
    and "stack_of st' = (map member (held st), pick (group st) (map member (held st)) (\<lambda>k. restore (group st) \<or> P k))"
    and "group st' = group st"
proof -
  note s = settle_ok [OF ok res]
  have dist: "distinct (map member (held st))" using ok by (simp add: settles_def)
  have "active st' = pick (group st) (map member (held st)) (\<lambda>k. restore (group st) \<or> k \<notin> lost st)"
    using s(5) next_active_pick [OF dist low] by simp
  also have "\<dots> = pick (group st) (map member (held st)) (\<lambda>k. restore (group st) \<or> P k)"
    using lost by (intro pick_cong) auto
  finally have act: "active st' = pick (group st) (map member (held st)) (\<lambda>k. restore (group st) \<or> P k)" .
  then show "stack_of st' = (map member (held st), pick (group st) (map member (held st)) (\<lambda>k. restore (group st) \<or> P k))"
    by (simp add: stack_of_def s(3))
  show "group st' = group st" by (rule s(4))
  have mem: "member ` set (held st') = member ` set (held st)" using s(3) by (metis list.set_map)
  have "lost st' = {m \<in> member ` set (held st'). Some m \<noteq> active st'}" if nr: "\<not> restore (group st)"
  proof -
    have "Some m \<noteq> active st'" if "m \<in> lost st" for m
    proof
      assume "Some m = active st'"
      then obtain c where "next_active st = Some c" "member c = m" using s(5) by (cases "next_active st") auto
      with next_active_Some [OF dist] nr \<open>m \<in> lost st\<close> show False by blast
    qed
    moreover have "lost st' = lost st \<union> {m \<in> member ` set (held st). Some m \<noteq> active st'}"
      using nr by (simp add: s(6) mark_losers_def)
    ultimately show ?thesis using some nr unfolding mem by blast
  qed
  with s settle_recalled [OF low res dist] show "stack_inv st'" by (auto simp: stack_inv_def)
qed

lemma key_step_refines:
  assumes inv: "stack_inv st" and guard: "key_guard st op"
  defines "st' \<equiv> snd (group_step st op)"
  shows "stack_inv st' \<and> group st' = group st \<and> stack_of st' = stack_step (group st) (stack_of st) (key_change_of op)"
proof -
  have g: "group_inv st" and wf: "group_wf st" and low: "\<forall>h\<in>set (held st). \<not> recalled h"
    using inv by (simp_all add: stack_inv_def group_inv_def)
  have lost: "restore (group st) \<or> lost st = {m \<in> member ` set (held st). Some m \<noteq> active st}"
    using inv by (simp add: stack_inv_def)
  have rel: "stack_inv st2 \<and> group st2 = group st \<and> stack_of st2 = stack_step (group st) (stack_of st) (Released m)"
    if k: "find_member st m = Some k" and res: "settle env (Some k) (leave m st) = (cmds, st2)" for m k env cmds st2
  proof -
    have mem: "member ` set (held (leave m st)) = member ` set (held st) - {m}"
      "map member (held (leave m st)) = filter (\<lambda>k. k \<noteq> m) (map member (held st))"
      by (auto simp: leave_def drop_member_def filter_map o_def)
    have "\<forall>h\<in>set (held (leave m st)). \<not> recalled h" using low by (simp add: leave_def drop_member_facts)
    moreover have "restore (group (leave m st))
        \<or> (\<forall>k\<in>member ` set (held (leave m st)). k \<notin> lost (leave m st) \<longleftrightarrow> Some k = active st)"
      using lost unfolding mem by (auto simp: leave_def)
    moreover have "lost (leave m st) \<subseteq> member ` set (held (leave m st))"
      using wf unfolding mem by (auto simp: leave_def group_wf_def)
    ultimately have r: "stack_inv st2" "group st2 = group (leave m st)"
      "stack_of st2 = (map member (held (leave m st)),
         pick (group (leave m st)) (map member (held (leave m st))) (\<lambda>k. restore (group (leave m st)) \<or> Some k = active st))"
      using settle_stack [OF leave_settles(1) [OF g k] _ res, of "\<lambda>k. Some k = active st"] by blast+
    have "m \<in> set (map member (held st))" using find_member_Some [OF k] by auto
    moreover have "group (leave m st) = group st" by (simp add: leave_def)
    ultimately show ?thesis using r unfolding stack_of_def mem(2) by (simp add: Let_def)
  qed
  have quiet: "stack_of st = stack_step (group st) (stack_of st) (Released m)" if "find_member st m = None" for m
    using that by (simp add: stack_of_def find_member_None)
  show ?thesis
  proof (cases op)
    case (KeyEvent env ev)
    let ?m = "ev_member ev"
    obtain label cmds where step: "apply_member_event env ev st = (label, cmds, st')"
      using KeyEvent by (cases "apply_member_event env ev st") (simp add: st'_def)
    consider "ev_value ev \<notin> {0, 1}" | "ev_value ev = 1" | "ev_value ev = 0" by blast
    then show ?thesis
    proof cases
      case 1
      then have "st' = st" using step by (auto simp: apply_member_event_def Let_def split: option.splits if_splits)
      then show ?thesis using 1 inv KeyEvent by simp
    next
      case 2
      show ?thesis
      proof (cases "find_member st ?m")
        case (Some k)
        have "\<not> recalled k" using find_member_Some [OF Some] low by blast
        then have "st' = st" using step 2 Some by (simp add: apply_member_event_def)
        moreover have "?m \<in> set (map member (held st))" using Some find_member_None [of st ?m] by auto
        ultimately show ?thesis using 2 inv KeyEvent by (simp add: stack_of_def)
      next
        case None
        let ?st1 = "st\<lparr>held := insort_held (new_held ev) (held st)\<rparr>"
        have res: "settle env None ?st1 = (cmds, st')" using step 2 None by (simp add: apply_member_event_def)
        have new: "find_member st (member (new_held ev)) = None" "\<not> pressed (new_held ev)"
          using None by (simp_all add: new_held_def)
        have at_end: "insort_held (new_held ev) (held st) = held st @ [new_held ev]"
        proof -
          have "insort_held h hs = hs @ [h]" if "\<forall>x\<in>set hs. press_seq x \<le> press_seq h" for h hs
            using that by (induction hs) auto
          then show ?thesis using guard 2 KeyEvent by (simp add: new_held_def)
        qed
        have fresh: "?m \<notin> member ` set (held st)" using None by (simp add: find_member_None)
        have "\<forall>h\<in>set (held ?st1). \<not> recalled h" using low by (simp add: new_held_def)
        moreover have "restore (group ?st1)
            \<or> (\<forall>k\<in>member ` set (held ?st1). k \<notin> lost ?st1 \<longleftrightarrow> k = ?m \<or> Some k = active st)"
          using lost fresh by (auto simp: new_held_def)
        moreover have "lost ?st1 \<subseteq> member ` set (held ?st1)" using wf by (auto simp: group_wf_def)
        ultimately have r: "stack_inv st'" "group st' = group ?st1"
          "stack_of st' = (map member (held ?st1),
             pick (group ?st1) (map member (held ?st1)) (\<lambda>k. restore (group ?st1) \<or> k = ?m \<or> Some k = active st))"
          using settle_stack [OF settle_from_wf(1) [OF insort_wf(1) [OF wf new]] _ res,
            of "\<lambda>k. k = ?m \<or> Some k = active st"] by blast+
        have "?m \<notin> set (map member (held st))" using fresh by simp
        moreover have "map member (held ?st1) = map member (held st) @ [?m]"
        proof -
          have "member (new_held ev) = ?m" by (simp add: new_held_def)
          then show ?thesis by (simp add: at_end)
        qed
        ultimately show ?thesis using r(1,2) r(3) 2 KeyEvent by (simp add: stack_of_def)
      qed
    next
      case 3
      show ?thesis
      proof (cases "find_member st ?m")
        case None
        then have "st' = st" using step 3 by (simp add: apply_member_event_def)
        then show ?thesis using quiet [OF None] inv 3 KeyEvent by simp
      next
        case (Some k)
        then have "settle env (Some k) (leave ?m st) = (cmds, st')" using step 3 by (simp add: apply_member_event_def)
        from rel [OF Some this] show ?thesis using 3 KeyEvent by simp
      qed
    qed
  next
    case (ConsumedRelease env m)
    show ?thesis
    proof (cases "find_member st m")
      case None
      then show ?thesis using quiet [OF None] inv ConsumedRelease by (simp add: st'_def consumed_release_def)
    next
      case (Some k)
      obtain cmds st2 where res: "settle env (Some k) (leave m st) = (cmds, st2)"
        by (cases "settle env (Some k) (leave m st)")
      have "st' = st2" using Some res ConsumedRelease by (simp add: st'_def consumed_release_def)
      with rel [OF Some res] ConsumedRelease show ?thesis by simp
    qed
  qed (use guard in simp_all)
qed

definition key_step :: "RolloverGroupState \<Rightarrow> ('c, 'x) group_op \<Rightarrow> RolloverGroupState" where
  "key_step st op = snd (group_step st op)"

interpretation key_machine: inv_machine "new_group_state g" key_guard key_step
  "\<lambda>st. stack_inv st \<and> group st = g" for g
proof unfold_locales
  show "stack_inv (new_group_state g) \<and> group (new_group_state g) = g"
    by (simp add: new_group_state_def stack_inv_def group_inv_def group_wf_def pressed_members_def)
next
  fix st and op :: "('a, 'b) group_op"
  assume "stack_inv st \<and> group st = g" "key_guard st op"
  with key_step_refines [of st op] show "stack_inv (key_step st op) \<and> group (key_step st op) = g"
    by (simp add: key_step_def)
qed

text \<open>C22. A group refines a stack of keys: handling key events in the order of their presses keeps the
  keys that are down in press order, and the active member is the one the setting of the group picks
  from them (newest, oldest, first in the list, or the only one); without \<open>restore\<close> a key that lost
  stays out until it is pressed again.  Exactly the active member is pressed.\<close>

theorem rollover_refines_stack:
  assumes "guarded_run key_guard key_step (new_group_state g) ops"
  shows "stack_of (run_steps key_step (new_group_state g) ops)
      = run_steps (stack_step g) ([], None) (map key_change_of ops)
    \<and> pressed_members (held (run_steps key_step (new_group_state g) ops))
      = set_option (snd (run_steps (stack_step g) ([], None) (map key_change_of ops)))"
proof -
  have "stack_of (run_steps key_step st ops) = run_steps (stack_step g) (stack_of st) (map key_change_of ops)"
    if "stack_inv st" "group st = g" "guarded_run key_guard key_step st ops" for st
    using that
  proof (induction ops arbitrary: st)
    case (Cons op ops)
    from Cons.prems key_step_refines [of st op] Cons.IH [of "key_step st op"] show ?case
      by (simp add: key_step_def)
  qed simp
  moreover have "stack_inv (new_group_state g)" "group (new_group_state g) = g"
    using key_machine.inv_init by simp_all
  moreover have "stack_of (new_group_state g) = ([], None)" by (simp add: stack_of_def new_group_state_def)
  ultimately have run: "stack_of (run_steps key_step (new_group_state g) ops)
      = run_steps (stack_step g) ([], None) (map key_change_of ops)"
    using assms by metis
  have "stack_inv (run_steps key_step (new_group_state g) ops)" using key_machine.inv_run [OF assms] by blast
  with run show ?thesis by (simp add: stack_inv_def stack_of_def flip: run)
qed

section \<open>A group that adopts held keys\<close>

definition key_a :: RolloverMember where "key_a = \<lparr>hardware_id = ''kb'', button = ''a''\<rparr>"
definition key_d :: RolloverMember where "key_d = \<lparr>hardware_id = ''kb'', button = ''d''\<rparr>"

definition strafe :: RolloverGroup where
  "strafe = \<lparr>name = ''Strafe'', members = [key_a, key_d], winner = NEWEST, restore = True\<rparr>"

definition demo_held :: "RolloverMember \<Rightarrow> nat \<Rightarrow> HeldMember" where
  "demo_held m n = \<lparr>member = m, runtime = 0, event_code = int n, event_name = button m, press_seq = n,
     member_output = Some (PassthroughOut ''kb'' (int n)), pressed = True, recalled = False, fired = True\<rparr>"

definition adopted :: RolloverGroupState where
  "adopted = \<lparr>group = strafe, held = [demo_held key_a 1, demo_held key_d 2], lost = {}, active = None\<rparr>"

definition demo_env :: "(unit, unit) GroupEnv" where
  "demo_env = \<lparr>env_repr = (\<lambda>_. []), env_abs_code = (\<lambda>_. False), mapped_action = (\<lambda>_. None),
     held_action = (\<lambda>_. None), passthrough_output = (\<lambda>m. PassthroughOut (button m) 0), tap_running = (\<lambda>_. False)\<rparr>"

definition demo_event :: "RolloverMember \<Rightarrow> int \<Rightarrow> nat \<Rightarrow> MemberEvent" where
  "demo_event m v n = \<lparr>ev_member = m, ev_runtime = 0, ev_code = 0, ev_name = button m, ev_value = v, ev_press_seq = n\<rparr>"

lemmas demo_defs = key_a_def key_d_def strafe_def demo_held_def adopted_def demo_env_def demo_event_def

lemma adopted_pressed: "pressed_members (held adopted) = {key_a, key_d}"
proof -
  have "{h \<in> set (held adopted). pressed h} = {demo_held key_a 1, demo_held key_d 2}"
    by (auto simp: adopted_def demo_held_def)
  then show ?thesis by (simp add: pressed_members_def demo_held_def)
qed

lemma adopted_wf: "group_wf adopted"
  by (simp add: group_wf_def demo_defs)

theorem rollover_one_driver_witness:
  "case run_steps traced_step ([], adopted) (Resettle demo_env # [KeyEvent demo_env (demo_event key_d 0 0)]) of
    (cmds, st) \<Rightarrow> cmds = [ReleaseMember key_a, ReleaseMember key_d, PressMember key_a True]
      \<and> driven {key_a, key_d} cmds = Some (pressed_members (held st))"
proof -
  have "fst (run_steps traced_step ([], adopted) (Resettle demo_env # [KeyEvent demo_env (demo_event key_d 0 0)]))
      = [ReleaseMember key_a, ReleaseMember key_d, PressMember key_a True]"
    by code_simp
  then show ?thesis
    using rollover_one_driver [OF adopted_wf, of demo_env "[KeyEvent demo_env (demo_event key_d 0 0)]"]
    unfolding case_prod_beta adopted_pressed by (simp only: simp_thms)
qed

theorem rollover_refines_stack_witness:
  "stack_of (run_steps key_step (new_group_state strafe)
      [KeyEvent demo_env (demo_event key_a 1 1), KeyEvent demo_env (demo_event key_d 1 2),
       KeyEvent demo_env (demo_event key_d 0 0)]) = ([key_a], Some key_a)"
proof -
  have "guarded_run key_guard key_step (new_group_state strafe)
      [KeyEvent demo_env (demo_event key_a 1 1), KeyEvent demo_env (demo_event key_d 1 2),
       KeyEvent demo_env (demo_event key_d 0 0)]" by code_simp
  note r = rollover_refines_stack [OF this]
  have "run_steps (stack_step strafe) ([], None) [Pressed key_a, Pressed key_d, Released key_d] = ([key_a], Some key_a)"
    by code_simp
  with r show ?thesis by (simp add: demo_event_def)
qed

text \<open>The settle a group needs after it adopted keys that were down is a task of its own.  A release
  that is handled before it finds no active member, and the settle of the release looks only at the
  members that remain: the released key's mapping stays pressed.\<close>

theorem adopted_release_lost:
  "group_wf adopted \<and> key_d \<in> pressed_members (held adopted)
   \<and> (case apply_member_event demo_env (demo_event key_d 0 0) adopted of
        (label, cmds, st) \<Rightarrow> label = RolloverMember \<and> cmds = [] \<and> map member (held st) = [key_a])"
proof -
  have "fst (snd (apply_member_event demo_env (demo_event key_d 0 0) adopted)) = []
    \<and> fst (apply_member_event demo_env (demo_event key_d 0 0) adopted) = RolloverMember
    \<and> map member (held (snd (snd (apply_member_event demo_env (demo_event key_d 0 0) adopted)))) = [key_a]"
    by code_simp
  then show ?thesis using adopted_wf by (simp add: adopted_pressed case_prod_beta)
qed

end
