(* ===== verification/Rollover_Runtime.thy ===== *)
theory Rollover_Runtime
  imports Rollover_Properties Combo_Names
begin

text \<open>
  Replacing the rollover groups while keys are held: \<open>RolloverRuntime\<close> and
  \<open>replace_rollover_groups\<close> of \<open>keymasqd/runtime/rollover.py\<close>.  Interfaces are numbered by their place
  in the list of devices, which only grows here; \<open>held_source_keys\<close> is given in its iteration order.
  The groups' locks, the resettle tasks and the predecessors of a group are not modelled: the result
  names the groups that need a settle.
\<close>

section \<open>Devices\<close>

record ('c, 'x) DeviceState =
  dev_hardware_id :: string
  evdev_to_button :: "string \<rightharpoonup> string"
  held_source_keys :: "string list"
  held_source_actions :: "string \<rightharpoonup> ('c, 'x) MappingAction option"
  passthrough_keys :: "int set"
  combo_recalled_bindings :: "string set"
  held_source_press_order :: "string \<rightharpoonup> nat"
  rollover_quarantined :: "string set"
  dev_passthrough :: "int \<Rightarrow> RolloverOutput"

definition quarantine :: "string \<Rightarrow> ('c, 'x) DeviceState \<Rightarrow> ('c, 'x) DeviceState" where
  "quarantine event d = d\<lparr>rollover_quarantined := insert event (rollover_quarantined d)\<rparr>"

definition update_device :: "nat \<Rightarrow> ('d \<Rightarrow> 'd) \<Rightarrow> 'd list \<Rightarrow> 'd list" where
  "update_device i f ds = (if i < length ds then ds[i := f (ds ! i)] else ds)"

section \<open>Carrying members over\<close>

definition same_behavior :: "RolloverGroup \<Rightarrow> RolloverGroup \<Rightarrow> bool" where
  "same_behavior old new \<longleftrightarrow> members old = members new \<and> winner old = winner new \<and> restore old = restore new"

text \<open>The first loop of the constructor: a state per group, with the mark of a fresh one, and the old
  states that are left.\<close>

fun match_states ::
  "RolloverGroup list \<Rightarrow> RolloverGroupState list \<Rightarrow> (RolloverGroupState \<times> bool) list \<times> RolloverGroupState list"
where
  "match_states [] old = ([], old)"
| "match_states (g # gs) old =
    (case find (\<lambda>s. same_behavior (group s) g) old of
       None \<Rightarrow> (let (states, left) = match_states gs old in ((new_group_state g, True) # states, left))
     | Some s \<Rightarrow> (let (states, left) = match_states gs (remove1 s old) in ((s\<lparr>group := g\<rparr>, False) # states, left)))"

definition carry_member :: "RolloverGroupState \<Rightarrow> HeldMember \<Rightarrow> RolloverGroupState \<Rightarrow> RolloverGroupState" where
  "carry_member old h st =
    (if member h \<notin> set (members (group st)) \<or> find_member st (member h) \<noteq> None then st
     else st\<lparr>held := held st @ [h],
             lost := (if member h \<in> lost old then insert (member h) (lost st) else lost st),
             active := (if active old = Some (member h) \<and> active st = None then Some (member h) else active st)\<rparr>)"

definition sort_held :: "RolloverGroupState \<Rightarrow> RolloverGroupState" where
  "sort_held st = st\<lparr>held := sort_key press_seq (held st)\<rparr>"

definition carry_held_members :: "RolloverGroupState list \<Rightarrow> RolloverGroupState \<Rightarrow> RolloverGroupState" where
  "carry_held_members olds st =
    sort_held (fold (\<lambda>(old, h). carry_member old h) [(old, h). old \<leftarrow> olds, h \<leftarrow> held old] st)"

text \<open>The constructor of \<open>RolloverRuntime\<close>: the states, the replaced states and the carried members.\<close>

definition build_runtime ::
  "RolloverGroup list \<Rightarrow> RolloverGroupState list
    \<Rightarrow> (RolloverGroupState \<times> bool) list \<times> RolloverGroupState list \<times> RolloverMember set"
where
  "build_runtime gs olds =
    (let (states, replaced) = match_states gs olds;
         carried = map (\<lambda>(st, fresh). (if fresh then carry_held_members replaced st else st, fresh)) states
     in (carried, replaced, \<Union> (set (map (\<lambda>(st, fresh). if fresh then set (map member (held st)) else {}) carried))))"

section \<open>Retiring a group\<close>

definition retire_member ::
  "RolloverMember set \<Rightarrow> HeldMember \<Rightarrow> ('c, 'x) DeviceState list \<Rightarrow> ('c, 'x) DeviceState list"
where
  "retire_member carried h ds =
    (if member h \<notin> carried \<and> \<not> pressed h \<and> \<not> recalled h
     then update_device (runtime h) (quarantine (event_name h)) ds else ds)"

definition retire ::
  "RolloverMember set \<Rightarrow> ('c, 'x) DeviceState list \<Rightarrow> RolloverGroupState \<Rightarrow> ('c, 'x) DeviceState list"
where
  "retire carried ds st = fold (retire_member carried) (held st) ds"

section \<open>Adopting held keys\<close>

definition matching_key :: "RolloverMember \<Rightarrow> ('c, 'x) DeviceState \<Rightarrow> string option" where
  "matching_key m d =
    (if dev_hardware_id d \<noteq> hardware_id m then None
     else find (\<lambda>event. evdev_to_button d (py_lower event) = Some (button m)) (held_source_keys d))"

fun first_matching :: "RolloverMember \<Rightarrow> nat \<Rightarrow> ('c, 'x) DeviceState list \<Rightarrow> (nat \<times> string) option" where
  "first_matching m i [] = None"
| "first_matching m i (d # ds) =
    (case matching_key m d of Some event \<Rightarrow> Some (i, event) | None \<Rightarrow> first_matching m (i + 1) ds)"

text \<open>\<open>_held_input\<close>: the member found, and the devices, as a consumed press is quarantined.\<close>

definition held_input ::
  "(json \<Rightarrow> string) \<Rightarrow> (string \<Rightarrow> bool) \<Rightarrow> (string \<Rightarrow> int option) \<Rightarrow> RolloverMember \<Rightarrow> ('c, 'x) DeviceState list
    \<Rightarrow> HeldMember option \<times> ('c, 'x) DeviceState list"
where
  "held_input repr abs_code resolve_output_code m ds =
    (case first_matching m 0 ds of
       None \<Rightarrow> (None, ds)
     | Some (i, event) \<Rightarrow>
         (let d = ds ! i
          in if event \<in> rollover_quarantined d then (None, ds)
             else case resolve_output_code event of
                    None \<Rightarrow> (None, ds)
                  | Some code \<Rightarrow>
                      (let is_recalled = (normalize_combo_evdev event \<in> combo_recalled_bindings d);
                           drives_output = (held_source_actions d event \<noteq> None \<or> code \<in> passthrough_keys d)
                       in if \<not> drives_output \<and> \<not> is_recalled
                          then (None, update_device i (quarantine event) ds)
                          else (Some \<lparr>member = m, runtime = i, event_code = code, event_name = event,
                                  press_seq = (case held_source_press_order d event of None \<Rightarrow> 0 | Some n \<Rightarrow> n),
                                  member_output = rollover_output repr abs_code
                                    (Option.bind (held_source_actions d event) (\<lambda>a. a)) (dev_passthrough d code),
                                  pressed = \<not> is_recalled, recalled = is_recalled, fired = True\<rparr>, ds))))"

fun adopt_members ::
  "(RolloverMember \<Rightarrow> ('c, 'x) DeviceState list \<Rightarrow> HeldMember option \<times> ('c, 'x) DeviceState list)
    \<Rightarrow> RolloverMember list \<Rightarrow> RolloverGroupState \<Rightarrow> ('c, 'x) DeviceState list
    \<Rightarrow> RolloverGroupState \<times> ('c, 'x) DeviceState list"
where
  "adopt_members input [] st ds = (st, ds)"
| "adopt_members input (m # ms) st ds =
    (if find_member st m \<noteq> None then adopt_members input ms st ds
     else let (found, ds') = input m ds
          in adopt_members input ms
               (case found of None \<Rightarrow> st | Some h \<Rightarrow> st\<lparr>held := held st @ [h]\<rparr>) ds')"

fun adopt_held_keys ::
  "(RolloverMember \<Rightarrow> ('c, 'x) DeviceState list \<Rightarrow> HeldMember option \<times> ('c, 'x) DeviceState list)
    \<Rightarrow> (RolloverGroupState \<times> bool) list \<Rightarrow> ('c, 'x) DeviceState list
    \<Rightarrow> (RolloverGroupState \<times> bool) list \<times> ('c, 'x) DeviceState list"
where
  "adopt_held_keys input [] ds = ([], ds)"
| "adopt_held_keys input ((st, fresh) # states) ds =
    (let (st', ds') = (if fresh
           then let (s, d) = adopt_members input (members (group st)) st ds in (sort_held s, d)
           else (st, ds));
         (rest', ds'') = adopt_held_keys input states ds'
     in ((st', fresh) # rest', ds''))"

section \<open>Replacing the groups\<close>

text \<open>The owner's runtime is its list of states, with the groups in the same order; no runtime is the
  empty list.  The result: the states, which of them need a settle, and the devices.\<close>

definition replace_rollover_groups ::
  "(RolloverMember \<Rightarrow> ('c, 'x) DeviceState list \<Rightarrow> HeldMember option \<times> ('c, 'x) DeviceState list)
    \<Rightarrow> RolloverGroup list \<Rightarrow> RolloverGroupState list \<Rightarrow> ('c, 'x) DeviceState list
    \<Rightarrow> (RolloverGroupState \<times> bool) list \<times> ('c, 'x) DeviceState list"
where
  "replace_rollover_groups input gs olds ds =
    (if olds \<noteq> [] \<and> map group olds = gs then (map (\<lambda>st. (st, False)) olds, ds)
     else if gs = [] then ([], fold (\<lambda>st ds. retire {} ds st) olds ds)
     else let (states, replaced, carried) = build_runtime gs olds;
              ds' = fold (\<lambda>st ds. retire carried ds st) replaced ds;
              (states', ds'') = adopt_held_keys input states ds'
          in (map (\<lambda>(st, fresh). (st, fresh \<and> held st \<noteq> [])) states', ds''))"

section \<open>Consistent states\<close>

text \<open>A group under construction, before its members are sorted.\<close>

definition collected :: "RolloverGroupState \<Rightarrow> bool" where
  "collected st \<longleftrightarrow> distinct (map member (held st)) \<and> (\<forall>h\<in>set (held st). recalled h \<longrightarrow> \<not> pressed h)
    \<and> lost st \<subseteq> member ` set (held st) \<and> active st \<in> insert None (Some ` member ` set (held st))
    \<and> member ` set (held st) \<subseteq> set (members (group st))"

definition runtime_ok :: "RolloverGroupState list \<Rightarrow> bool" where
  "runtime_ok states \<longleftrightarrow> no_shared_member (map group states)
    \<and> (\<forall>st\<in>set states. group_wf st \<and> member ` set (held st) \<subseteq> set (members (group st)))"

lemma group_wf_iff: "group_wf st \<and> member ` set (held st) \<subseteq> set (members (group st))
    \<longleftrightarrow> collected st \<and> sorted (map press_seq (held st))"
  by (auto simp: group_wf_def collected_def)

lemma sort_held_ok:
  assumes "collected st"
  shows "collected (sort_held st) \<and> sorted (map press_seq (held (sort_held st))) \<and> set (held (sort_held st)) = set (held st)
    \<and> group (sort_held st) = group st"
proof -
  have "distinct (map member (sort_key press_seq (held st)))"
    using assms by (simp add: collected_def distinct_map)
  then show ?thesis using assms by (simp add: sort_held_def collected_def)
qed

lemma collected_new: "collected (new_group_state g)"
  by (simp add: collected_def new_group_state_def)

lemma collected_append:
  assumes "collected st" "find_member st (member h) = None" "recalled h \<longrightarrow> \<not> pressed h"
    and "member h \<in> set (members (group st))"
  shows "collected (st\<lparr>held := held st @ [h]\<rparr>)"
  using assms by (auto simp: collected_def find_member_None)

lemma carry_member_ok:
  assumes "collected st" "recalled h \<longrightarrow> \<not> pressed h"
  shows "collected (carry_member old h st) \<and> group (carry_member old h st) = group st
    \<and> set (held st) \<subseteq> set (held (carry_member old h st)) \<and> set (held (carry_member old h st)) \<subseteq> insert h (set (held st))
    \<and> (member h \<in> set (members (group st)) \<longrightarrow> member h \<in> member ` set (held (carry_member old h st)))"
  using assms by (auto simp: carry_member_def collected_def find_member_None)

lemma carry_fold_ok:
  assumes "collected st" "\<forall>p\<in>set ps. recalled (snd p) \<longrightarrow> \<not> pressed (snd p)"
  defines "st' \<equiv> fold (\<lambda>(old, h). carry_member old h) ps st"
  shows "collected st' \<and> group st' = group st \<and> set (held st) \<subseteq> set (held st') \<and> set (held st') \<subseteq> set (held st) \<union> snd ` set ps
    \<and> (\<forall>p\<in>set ps. member (snd p) \<in> set (members (group st)) \<longrightarrow> member (snd p) \<in> member ` set (held st'))"
  using assms(1,2) unfolding st'_def
proof (induction ps arbitrary: st)
  case (Cons p ps)
  obtain old h where p: "p = (old, h)" by (cases p)
  have h: "recalled h \<longrightarrow> \<not> pressed h" using Cons.prems(2) p by simp
  note first = carry_member_ok [OF Cons.prems(1) h, of old]
  have "\<forall>p\<in>set ps. recalled (snd p) \<longrightarrow> \<not> pressed (snd p)" using Cons.prems(2) by simp
  note rest = Cons.IH [OF conjunct1 [OF first] this]
  have "member h \<in> set (members (group st)) \<longrightarrow>
      member h \<in> member ` set (held (fold (\<lambda>(old, h). carry_member old h) ps (carry_member old h st)))"
    using first rest by (meson image_mono subsetD)
  then show ?case using first rest by (auto simp: p)
qed simp

lemma list_all2_source: "list_all2 R xs ys \<Longrightarrow> y \<in> set ys \<Longrightarrow> \<exists>x\<in>set xs. R x y"
  by (induction rule: list_all2_induct) auto

lemma list_all2_target: "list_all2 R xs ys \<Longrightarrow> x \<in> set xs \<Longrightarrow> \<exists>y\<in>set ys. R x y"
  by (induction rule: list_all2_induct) auto

definition renamed_from :: "RolloverGroupState \<Rightarrow> RolloverGroupState \<Rightarrow> bool" where
  "renamed_from s st \<longleftrightarrow> st = s\<lparr>group := group st\<rparr> \<and> same_behavior (group s) (group st)"

definition state_source :: "RolloverGroupState list \<Rightarrow> RolloverGroupState \<times> bool \<Rightarrow> bool" where
  "state_source olds p \<longleftrightarrow>
    (if snd p then fst p = new_group_state (group (fst p)) else \<exists>s\<in>set olds. renamed_from s (fst p))"

lemma state_source_kept: "state_source olds p \<Longrightarrow> \<not> snd p \<Longrightarrow> \<exists>s\<in>set olds. renamed_from s (fst p)"
  by (simp add: state_source_def)

lemma state_source_fresh: "state_source olds p \<Longrightarrow> snd p \<Longrightarrow> fst p = new_group_state (group (fst p))"
  by (simp add: state_source_def)

definition survives :: "RolloverGroupState \<Rightarrow> (RolloverGroupState \<times> bool) list \<Rightarrow> bool" where
  "survives s states \<longleftrightarrow> (\<exists>p\<in>set states. \<not> snd p \<and> renamed_from s (fst p))"

lemma survives_simps: "survives s ((st, fresh) # states) \<longleftrightarrow> (\<not> fresh \<and> renamed_from s st) \<or> survives s states"
  by (auto simp: survives_def)

lemma state_source_mono: "set olds \<subseteq> set olds' \<Longrightarrow> state_source olds p \<Longrightarrow> state_source olds' p"
  by (auto simp: state_source_def split: if_splits)

lemma match_states_ok:
  assumes "match_states gs olds = (states, left)"
  shows "map (\<lambda>p. group (fst p)) states = gs" "set left \<subseteq> set olds" "\<forall>p\<in>set states. state_source olds p"
    "\<forall>s\<in>set olds. s \<in> set left \<or> survives s states"
proof -
  have "map (\<lambda>p. group (fst p)) states = gs \<and> set left \<subseteq> set olds \<and> (\<forall>p\<in>set states. state_source olds p)
    \<and> (\<forall>s\<in>set olds. s \<in> set left \<or> survives s states)"
    using assms
  proof (induction gs arbitrary: olds states left)
    case (Cons g gs)
    show ?case
    proof (cases "find (\<lambda>s. same_behavior (group s) g) olds")
      case None
      obtain states' where m: "match_states gs olds = (states', left)" "states = (new_group_state g, True) # states'"
        using Cons.prems None by (auto split: prod.splits)
      have "state_source olds (new_group_state g, True)" by (simp add: state_source_def new_group_state_def)
      with Cons.IH [OF m(1)] show ?thesis by (simp add: m(2) survives_simps new_group_state_def)
    next
      case (Some s)
      then have s: "s \<in> set olds" "same_behavior (group s) g" by (auto simp: find_Some_iff)
      obtain states' where m: "match_states gs (remove1 s olds) = (states', left)" "states = (s\<lparr>group := g\<rparr>, False) # states'"
        using Cons.prems Some by (auto split: prod.splits)
      have sub: "set (remove1 s olds) \<subseteq> set olds" by (rule set_remove1_subset)
      have parts: "x = s \<or> x \<in> set (remove1 s olds)" if "x \<in> set olds" for x using that by (cases "x = s") simp_all
      note ih = Cons.IH [OF m(1)]
      have "renamed_from s (s\<lparr>group := g\<rparr>)" using s(2) by (simp add: renamed_from_def)
      moreover then have "state_source olds (s\<lparr>group := g\<rparr>, False)" using s(1) by (auto simp: state_source_def)
      moreover have "\<forall>p\<in>set states'. state_source olds p" using ih state_source_mono [OF sub] by blast
      moreover have "x \<in> set left \<or> x = s \<or> survives x states'" if "x \<in> set olds" for x
        using parts [OF that] ih by blast
      moreover have "set left \<subseteq> set olds" using ih sub by blast
      ultimately show ?thesis using ih by (auto simp: m(2) survives_simps)
    qed
  qed simp
  then show "map (\<lambda>p. group (fst p)) states = gs" "set left \<subseteq> set olds" "\<forall>p\<in>set states. state_source olds p"
    "\<forall>s\<in>set olds. s \<in> set left \<or> survives s states" by blast+
qed

section \<open>Quarantine\<close>

definition quarantine_grows :: "('c, 'x) DeviceState list \<Rightarrow> ('c, 'x) DeviceState list \<Rightarrow> bool" where
  "quarantine_grows ds ds' \<longleftrightarrow> length ds' = length ds
    \<and> (\<forall>i<length ds. rollover_quarantined (ds ! i) \<subseteq> rollover_quarantined (ds' ! i))"

definition silenced :: "('c, 'x) DeviceState list \<Rightarrow> HeldMember \<Rightarrow> bool" where
  "silenced ds h \<longleftrightarrow> runtime h < length ds \<and> event_name h \<in> rollover_quarantined (ds ! runtime h)"

lemma grows_refl [simp]: "quarantine_grows ds ds"
  by (simp add: quarantine_grows_def)

lemma grows_trans: "quarantine_grows ds ds' \<Longrightarrow> quarantine_grows ds' ds'' \<Longrightarrow> quarantine_grows ds ds''"
  by (fastforce simp: quarantine_grows_def)

lemma grows_quarantine: "quarantine_grows ds (update_device i (quarantine event) ds)"
  by (auto simp: quarantine_grows_def update_device_def quarantine_def nth_list_update)

lemma silenced_grows: "silenced ds h \<Longrightarrow> quarantine_grows ds ds' \<Longrightarrow> silenced ds' h"
  by (auto simp: silenced_def quarantine_grows_def)

lemma retire_member_ok:
  "quarantine_grows ds (retire_member carried h ds)"
  "member h \<notin> carried \<Longrightarrow> \<not> pressed h \<Longrightarrow> \<not> recalled h \<Longrightarrow> runtime h < length ds \<Longrightarrow> silenced (retire_member carried h ds) h"
  by (simp_all add: retire_member_def grows_quarantine) (simp add: silenced_def update_device_def quarantine_def)

lemma grows_fold:
  assumes "\<And>x ds. quarantine_grows ds (f x ds)"
  shows "quarantine_grows ds (fold f xs ds)"
proof (induction xs arbitrary: ds)
  case (Cons x xs)
  then show ?case using grows_trans [OF assms [of ds x]] by simp
qed simp

lemma silenced_fold:
  assumes grow: "\<And>x ds. quarantine_grows ds (f x ds)"
    and x: "x \<in> set xs" "\<And>ds. length ds = n \<Longrightarrow> silenced (f x ds) h" and n: "length ds = n"
  shows "silenced (fold f xs ds) h"
  using x(1) n
proof (induction xs arbitrary: ds)
  case (Cons y ys)
  show ?case
  proof (cases "x = y")
    case True
    then show ?thesis
      using silenced_grows [OF x(2) [OF Cons.prems(2)] grows_fold [of f, OF grow]] by simp
  next
    case False
    have "length (f y ds) = n" using grow [of ds y] Cons.prems(2) by (simp add: quarantine_grows_def)
    with False Cons show ?thesis by simp
  qed
qed simp

lemma retire_group_ok:
  "quarantine_grows ds (fold (\<lambda>st ds. retire carried ds st) states ds)"
  "st \<in> set states \<Longrightarrow> h \<in> set (held st) \<Longrightarrow> member h \<notin> carried \<Longrightarrow> \<not> pressed h \<Longrightarrow> \<not> recalled h
    \<Longrightarrow> runtime h < length ds \<Longrightarrow> silenced (fold (\<lambda>st ds. retire carried ds st) states ds) h"
proof -
  have grow: "quarantine_grows ds (retire carried ds st)" for ds and st :: RolloverGroupState
    unfolding retire_def by (rule grows_fold) (rule retire_member_ok)
  show "quarantine_grows ds (fold (\<lambda>st ds. retire carried ds st) states ds)" by (rule grows_fold) (rule grow)
  assume h: "st \<in> set states" "h \<in> set (held st)" "member h \<notin> carried" "\<not> pressed h" "\<not> recalled h" "runtime h < length ds"
  show "silenced (fold (\<lambda>st ds. retire carried ds st) states ds) h"
  proof (rule silenced_fold [OF grow h(1)])
    fix es :: "('a, 'b) DeviceState list" assume es: "length es = length ds"
    show "silenced (retire carried es st) h"
      unfolding retire_def
      by (rule silenced_fold [OF retire_member_ok(1) h(2) _ es]) (use h in \<open>simp add: retire_member_ok\<close>)
  qed simp
qed

text \<open>What becomes of a held member: it stays held in its new group, or no group has it any more and
  it is still pressed, left to its combo, or silenced.\<close>

definition kept_or_silenced ::
  "(RolloverGroupState \<times> bool) list \<Rightarrow> ('c, 'x) DeviceState list \<Rightarrow> HeldMember \<Rightarrow> bool"
where
  "kept_or_silenced states ds h \<longleftrightarrow>
    (\<exists>p\<in>set states. member h \<in> set (members (group (fst p))) \<and> h \<in> set (held (fst p)))
    \<or> ((\<forall>p\<in>set states. member h \<notin> set (members (group (fst p)))) \<and> (pressed h \<or> recalled h \<or> silenced ds h))"

lemma same_group_member:
  assumes "no_shared_member (map f xs)" "x \<in> set xs" "y \<in> set xs"
    and "m \<in> set (members (f x))" "m \<in> set (members (f y))"
  shows "x = y"
  using assms
proof (induction xs)
  case (Cons u us)
  have "set (members (f u)) \<inter> set (members (f v)) = {}" if "v \<in> set us" for v
    using Cons.prems(1) that by (simp add: no_shared_member_def)
  with Cons show ?case by (auto simp: no_shared_member_def)
qed simp

lemma renamed_fields:
  "renamed_from s st \<Longrightarrow> held st = held s \<and> lost st = lost s \<and> active st = active s
    \<and> members (group st) = members (group s)"
  unfolding renamed_from_def same_behavior_def by (metis RolloverGroupState.select_convs RolloverGroupState.surjective RolloverGroupState.update_convs)

lemma renamed_ok:
  assumes "renamed_from s st"
  shows "collected s \<Longrightarrow> collected st" "group_inv s \<Longrightarrow> group_inv st" "held st = held s"
  using renamed_fields [OF assms] by (simp_all add: collected_def group_inv_def group_wf_def)

lemma carried_ok:
  fixes g :: RolloverGroup and left :: "RolloverGroupState list"
  assumes left: "\<forall>s\<in>set left. collected s"
  defines "st \<equiv> carry_held_members left (new_group_state g)"
  shows "collected st" "sorted (map press_seq (held st))" "group st = g"
    "set (held st) \<subseteq> (\<Union>s\<in>set left. set (held s))"
    "s \<in> set left \<Longrightarrow> h \<in> set (held s) \<Longrightarrow> member h \<in> set (members g) \<Longrightarrow> member h \<in> member ` set (held st)"
proof -
  define ps where "ps = [(old, h). old \<leftarrow> left, h \<leftarrow> held old]"
  define st1 where "st1 = fold (\<lambda>(old, h). carry_member old h) ps (new_group_state g)"
  have ps: "set ps = {(s, h). s \<in> set left \<and> h \<in> set (held s)}" by (auto simp: ps_def)
  have "\<forall>p\<in>set ps. recalled (snd p) \<longrightarrow> \<not> pressed (snd p)" using left by (auto simp: ps collected_def)
  note f = carry_fold_ok [OF collected_new this, of g, folded st1_def]
  have st: "st = sort_held st1" by (simp add: st_def carry_held_members_def st1_def ps_def)
  note so = sort_held_ok [OF conjunct1 [OF f], folded st]
  show "collected st" "sorted (map press_seq (held st))" "group st = g"
    using so f by (simp_all add: new_group_state_def)
  have "snd ` set ps = (\<Union>s\<in>set left. set (held s))" by (force simp: ps)
  then show "set (held st) \<subseteq> (\<Union>s\<in>set left. set (held s))"
    using so f by (simp add: new_group_state_def)
  show "s \<in> set left \<Longrightarrow> h \<in> set (held s) \<Longrightarrow> member h \<in> set (members g) \<Longrightarrow> member h \<in> member ` set (held st)"
    using so f by (auto simp: new_group_state_def ps)
qed

section \<open>Adoption\<close>

text \<open>What the groups rely on when they ask the devices for a member that is down.\<close>

locale key_source =
  fixes input :: "RolloverMember \<Rightarrow> ('c, 'x) DeviceState list \<Rightarrow> HeldMember option \<times> ('c, 'x) DeviceState list"
  assumes input_member: "input m ds = (Some h, ds') \<Longrightarrow> member h = m \<and> (recalled h \<longrightarrow> \<not> pressed h)"
    and input_grows: "input m ds = (r, ds') \<Longrightarrow> quarantine_grows ds ds'"
begin

lemma adopt_members_ok:
  assumes "collected st" "set ms \<subseteq> set (members (group st))" "adopt_members input ms st ds = (st', ds')"
  shows "collected st' \<and> group st' = group st \<and> set (held st) \<subseteq> set (held st') \<and> quarantine_grows ds ds'"
  using assms
proof (induction ms arbitrary: st ds)
  case (Cons m ms)
  show ?case
  proof (cases "find_member st m")
    case (Some k)
    then show ?thesis using Cons by simp
  next
    case None
    obtain found ds1 where f: "input m ds = (found, ds1)" by (cases "input m ds")
    show ?thesis
    proof (cases found)
      case None2: None
      have "adopt_members input ms st ds1 = (st', ds')" using Cons.prems(3) None f None2 by simp
      then show ?thesis using Cons.IH [of st ds1] Cons.prems(1,2) grows_trans [OF input_grows [OF f]] by auto
    next
      case (Some h)
      note h = input_member [of m ds h ds1]
      let ?st = "st\<lparr>held := held st @ [h]\<rparr>"
      have "adopt_members input ms ?st ds1 = (st', ds')" using Cons.prems(3) None f Some by simp
      moreover have "collected ?st"
        using collected_append [OF Cons.prems(1), of h] None h f Some Cons.prems(2) by simp
      ultimately show ?thesis
        using Cons.IH [of ?st ds1] Cons.prems(2) grows_trans [OF input_grows [OF f]] by auto
    qed
  qed
qed simp

lemma adopt_held_keys_ok:
  assumes "adopt_held_keys input states ds = (states', ds')"
    and "\<forall>p\<in>set states. collected (fst p) \<and> (\<not> snd p \<longrightarrow> sorted (map press_seq (held (fst p))))"
  shows "quarantine_grows ds ds' \<and> list_all2 (\<lambda>p q. snd q = snd p \<and> group (fst q) = group (fst p) \<and> collected (fst q)
    \<and> sorted (map press_seq (held (fst q))) \<and> set (held (fst p)) \<subseteq> set (held (fst q)) \<and> (snd p \<or> q = p)) states states'"
  using assms
proof (induction states arbitrary: ds states' ds')
  case (Cons p states)
  obtain st fresh where p: "p = (st, fresh)" by (cases p)
  obtain st1 ds1 where one: "(if fresh then let (s, d) = adopt_members input (members (group st)) st ds in (sort_held s, d)
      else (st, ds)) = (st1, ds1)"
    by (cases "if fresh then let (s, d) = adopt_members input (members (group st)) st ds in (sort_held s, d) else (st, ds)")
  obtain rest' ds2 where more: "adopt_held_keys input states ds1 = (rest', ds2)" by (cases "adopt_held_keys input states ds1")
  have res: "states' = (st1, fresh) # rest'" "ds' = ds2" using Cons.prems(1) one more by (auto simp: p)
  have st: "collected st" "fresh \<or> sorted (map press_seq (held st))" using Cons.prems(2) by (auto simp: p)
  have "quarantine_grows ds ds1 \<and> group st1 = group st \<and> collected st1 \<and> sorted (map press_seq (held st1))
      \<and> set (held st) \<subseteq> set (held st1) \<and> (fresh \<or> st1 = st)"
  proof (cases fresh)
    case True
    obtain s where s: "adopt_members input (members (group st)) st ds = (s, ds1)" "st1 = sort_held s"
      using one True by (auto split: prod.splits)
    then show ?thesis using adopt_members_ok [OF st(1) order_refl s(1)] sort_held_ok [of s] True by auto
  next
    case False
    then show ?thesis using one st by simp
  qed
  with Cons.IH [OF more] Cons.prems(2) grows_trans show ?case by (auto simp: p res)
qed simp

definition built_state :: "RolloverGroupState list \<Rightarrow> RolloverGroupState \<times> bool \<Rightarrow> RolloverGroupState \<times> bool" where
  "built_state replaced p = (if snd p then carry_held_members replaced (fst p) else fst p, snd p)"

lemma built_state_fun: "(\<lambda>(st, fresh). (if fresh then carry_held_members replaced st else st, fresh)) = built_state replaced"
  by (auto simp: built_state_def)

lemma built_state_ok:
  assumes left: "\<forall>s\<in>set replaced. collected s" and p: "state_source olds p"
    and olds: "\<And>st. st \<in> set olds \<Longrightarrow> collected st \<and> sorted (map press_seq (held st)) \<and> group_inv st"
  defines "q \<equiv> built_state replaced p"
  shows "group (fst q) = group (fst p) \<and> collected (fst q) \<and> sorted (map press_seq (held (fst q)))
    \<and> (snd q \<or> group_inv (fst q))"
proof (cases "snd p")
  case True
  then have "q = (carry_held_members replaced (new_group_state (group (fst p))), True)"
    using state_source_fresh [OF p] by (simp add: q_def built_state_def)
  then show ?thesis using carried_ok(1-3) [OF left] by simp
next
  case False
  then obtain s where s: "s \<in> set olds" "renamed_from s (fst p)" using state_source_kept [OF p] by blast
  then show ?thesis using renamed_ok [OF s(2)] olds [OF s(1)] False by (simp add: q_def built_state_def)
qed

definition adopted_from :: "RolloverGroupState \<times> bool \<Rightarrow> RolloverGroupState \<times> bool \<Rightarrow> bool" where
  "adopted_from p q \<longleftrightarrow> snd q = snd p \<and> group (fst q) = group (fst p) \<and> collected (fst q)
    \<and> sorted (map press_seq (held (fst q))) \<and> set (held (fst p)) \<subseteq> set (held (fst q)) \<and> (snd p \<or> q = p)"

text \<open>A member of a group of the old runtime is held by the state built for its new group.\<close>

lemma built_state_keeps:
  assumes olds: "no_shared_member (map group olds)" "\<forall>st\<in>set olds. collected st"
    and ms: "no_shared_member (map (\<lambda>p. group (fst p)) ms)" "set replaced \<subseteq> set olds" "\<forall>p\<in>set ms. state_source olds p"
      "\<forall>s\<in>set olds. s \<in> set replaced \<or> survives s ms"
    and st: "st \<in> set olds" "h \<in> set (held st)" and r: "r \<in> set ms" "member h \<in> set (members (group (fst r)))"
  shows "h \<in> set (held (fst (built_state replaced r)))"
proof -
  have mem: "member h \<in> set (members (group st))" if "st \<in> set olds" "h \<in> set (held st)" for st h
    using olds(2) that by (auto simp: collected_def)
  have same: "s = st" if "s \<in> set olds" "member h \<in> set (members (group s))" for s
    using same_group_member [OF olds(1) that(1) st(1), of "member h"] mem [OF st] that(2) by simp
  show ?thesis
  proof (cases "snd r")
    case False
    then obtain s where s: "s \<in> set olds" "renamed_from s (fst r)" using state_source_kept ms(3) r(1) by blast
    then have "s = st" using same r(2) renamed_fields [OF s(2)] by simp
    then show ?thesis using st(2) renamed_ok(3) [OF s(2)] False by (simp add: built_state_def)
  next
    case fresh: True
    have "\<not> survives st ms"
    proof
      assume "survives st ms"
      then obtain r' where r': "r' \<in> set ms" "\<not> snd r'" "renamed_from st (fst r')" by (auto simp: survives_def)
      have "r = r'"
        using same_group_member [OF ms(1) r(1) r'(1), of "member h"] r(2) mem [OF st] renamed_fields [OF r'(3)] by simp
      then show False using fresh r'(2) by simp
    qed
    then have left_st: "st \<in> set replaced" using ms(4) st(1) by blast
    have left: "\<forall>s\<in>set replaced. collected s" using ms(2) olds(2) by blast
    let ?q = "carry_held_members replaced (new_group_state (group (fst r)))"
    obtain h' where h': "h' \<in> set (held ?q)" "member h' = member h" using carried_ok(5) [OF left left_st st(2) r(2)] by auto
    obtain s where s: "s \<in> set replaced" "h' \<in> set (held s)" using carried_ok(4) [OF left] h'(1) by blast
    have "s = st" using same mem [of s h'] s ms(2) h'(2) by auto
    then have "h' = h" using olds(2) st s(2) h'(2) by (auto simp: collected_def distinct_map inj_on_def)
    then show ?thesis using h'(1) fresh state_source_fresh ms(3) r(1) by (simp add: built_state_def) metis
  qed
qed

lemma replaced_ok:
  assumes olds: "no_shared_member (map group olds)"
      "\<And>st. st \<in> set olds \<Longrightarrow> collected st \<and> sorted (map press_seq (held st)) \<and> group_inv st"
    and new: "no_shared_member gs" and devs: "\<forall>st\<in>set olds. \<forall>h\<in>set (held st). runtime h < length ds"
    and m: "match_states gs olds = (ms, replaced)" and states: "states = map (built_state replaced) ms"
    and carried: "carried = \<Union> (set (map (\<lambda>(st, fresh). if fresh then set (map member (held st)) else {}) states))"
    and ad: "adopt_held_keys input states (fold (\<lambda>st ds. retire carried ds st) replaced ds) = (states2, ds')"
  shows "map (\<lambda>p. group (fst p)) states2 = gs"
    "\<forall>q\<in>set states2. collected (fst q) \<and> sorted (map press_seq (held (fst q))) \<and> (snd q \<or> group_inv (fst q))"
    "\<forall>st\<in>set olds. \<forall>h\<in>set (held st). kept_or_silenced states2 ds' h"
proof -
  note ms = match_states_ok [OF m]
  have left: "\<forall>s\<in>set replaced. collected s" using ms(2) olds(2) by blast
  have built: "group (fst q) = group (fst p) \<and> collected (fst q) \<and> sorted (map press_seq (held (fst q)))
      \<and> (snd q \<or> group_inv (fst q))" if "p \<in> set ms" "q = built_state replaced p" for p q
    using built_state_ok [OF left _ olds(2)] ms(3) that by blast
  have src: "\<exists>r\<in>set ms. p = built_state replaced r" if "p \<in> set states" for p
    using that unfolding states set_map by (rule imageE) blast
  have q_ok: "collected (fst q) \<and> sorted (map press_seq (held (fst q))) \<and> (snd q \<or> group_inv (fst q))"
    if "q \<in> set states" for q
  proof -
    from src [OF that] obtain p where "p \<in> set ms" "q = built_state replaced p" by blast
    with built show ?thesis by blast
  qed
  have pre: "\<forall>p\<in>set states. collected (fst p) \<and> (\<not> snd p \<longrightarrow> sorted (map press_seq (held (fst p))))"
    using q_ok by blast
  have grow: "quarantine_grows (fold (\<lambda>st ds. retire carried ds st) replaced ds) ds'"
    and rel: "list_all2 adopted_from states states2"
    using adopt_held_keys_ok [OF ad pre] by (simp_all add: adopted_from_def [abs_def])
  have "map (\<lambda>p. group (fst p)) states2 = map (\<lambda>p. group (fst p)) states"
    using rel by (induction rule: list_all2_induct) (simp_all add: adopted_from_def)
  moreover have "map (\<lambda>p. group (fst p)) states = gs" 
  proof -
    have "map (\<lambda>p. group (fst p)) states = map (\<lambda>p. group (fst p)) ms"
      unfolding states map_map by (rule map_cong [OF refl]) (use built in auto)
    then show ?thesis using ms(1) by simp
  qed
  ultimately show "map (\<lambda>p. group (fst p)) states2 = gs" by simp
  show "\<forall>q\<in>set states2. collected (fst q) \<and> sorted (map press_seq (held (fst q))) \<and> (snd q \<or> group_inv (fst q))"
  proof
    fix q assume "q \<in> set states2"
    then obtain p where p: "p \<in> set states" "adopted_from p q" using list_all2_source [OF rel] by blast
    then show "collected (fst q) \<and> sorted (map press_seq (held (fst q))) \<and> (snd q \<or> group_inv (fst q))"
      using q_ok [OF p(1)] unfolding adopted_from_def by auto
  qed
  have olds': "\<forall>st\<in>set olds. collected st" and new': "no_shared_member (map (\<lambda>p. group (fst p)) ms)"
    using olds(2) ms(1) new by auto
  show "\<forall>st\<in>set olds. \<forall>h\<in>set (held st). kept_or_silenced states2 ds' h"
  proof (intro ballI)
    fix st h assume st: "st \<in> set olds" and h: "h \<in> set (held st)"
    show "kept_or_silenced states2 ds' h"
    proof (cases "\<exists>r\<in>set ms. member h \<in> set (members (group (fst r)))")
      case True
      then obtain r where r: "r \<in> set ms" "member h \<in> set (members (group (fst r)))" by blast
      then have "built_state replaced r \<in> set states" by (simp add: states)
      then obtain q where q: "q \<in> set states2" "adopted_from (built_state replaced r) q"
        using list_all2_target [OF rel] by blast
      then have "member h \<in> set (members (group (fst q))) \<and> h \<in> set (held (fst q))"
        using built_state_keeps [OF olds(1) olds' new' ms(2-4) st h r] built [OF r(1) refl] r(2)
        by (auto simp: adopted_from_def)
      with q(1) show ?thesis unfolding kept_or_silenced_def by blast
    next
      case False
      have no_q: "member h \<notin> set (members (group (fst q)))" if mem_q: "q \<in> set states2" for q
      proof -
        obtain p where "p \<in> set states" "adopted_from p q" using list_all2_source [OF rel mem_q] by blast
        with src obtain r where "r \<in> set ms" "group (fst q) = group (fst (built_state replaced r))"
          unfolding adopted_from_def by metis
        then show ?thesis using False built by metis
      qed
      have "\<not> survives st ms"
      proof
        assume "survives st ms"
        then obtain r where r: "r \<in> set ms" "renamed_from st (fst r)" by (auto simp: survives_def)
        have "member h \<in> set (members (group st))" using olds' st h unfolding collected_def by blast
        with False renamed_fields [OF r(2)] r(1) show False by metis
      qed
      then have left_st: "st \<in> set replaced" using ms(4) st by blast
      have "member h \<notin> carried"
      proof
        assume "member h \<in> carried"
        then obtain p where p: "p \<in> set states" "member h \<in> member ` set (held (fst p))"
          by (auto simp: carried split: if_splits)
        then have "member h \<in> set (members (group (fst p)))" using q_ok [OF p(1)] by (auto simp: collected_def)
        moreover obtain r where "r \<in> set ms" "p = built_state replaced r" using src [OF p(1)] by blast
        ultimately show False using False built by metis
      qed
      moreover have "runtime h < length ds" using devs st h by blast
      ultimately have "pressed h \<or> recalled h \<or> silenced ds' h"
        using retire_group_ok(2) [OF left_st h] silenced_grows [OF _ grow] by blast
      with no_q show ?thesis unfolding kept_or_silenced_def by blast
    qed
  qed
qed

lemma replace_ok:
  assumes ok: "runtime_ok olds" and settled: "\<forall>st\<in>set olds. group_inv st" and new: "no_shared_member gs"
    and devs: "\<forall>st\<in>set olds. \<forall>h\<in>set (held st). runtime h < length ds"
    and res: "replace_rollover_groups input gs olds ds = (states', ds')"
  shows "map (\<lambda>p. group (fst p)) states' = gs" "runtime_ok (map fst states')"
    "\<forall>p\<in>set states'. snd p \<or> group_inv (fst p)"
    "\<forall>st\<in>set olds. \<forall>h\<in>set (held st). kept_or_silenced states' ds' h"
proof -
  have olds: "no_shared_member (map group olds)" "\<And>st. st \<in> set olds \<Longrightarrow> collected st \<and> sorted (map press_seq (held st))"
    using ok by (auto simp: runtime_ok_def group_wf_iff)
  have mem: "member h \<in> set (members (group st))" if "st \<in> set olds" "h \<in> set (held st)" for st h
    using olds(2) [OF that(1)] that(2) by (auto simp: collected_def)
  have "map (\<lambda>p. group (fst p)) states' = gs \<and> runtime_ok (map fst states') \<and> (\<forall>p\<in>set states'. snd p \<or> group_inv (fst p))
    \<and> (\<forall>st\<in>set olds. \<forall>h\<in>set (held st). kept_or_silenced states' ds' h)"
  proof -
    consider "olds \<noteq> [] \<and> map group olds = gs" | "\<not> (olds \<noteq> [] \<and> map group olds = gs)" "gs = []"
      | "\<not> (olds \<noteq> [] \<and> map group olds = gs)" "gs \<noteq> []" by blast
    then show ?thesis
    proof cases
      case 1
      then have s: "states' = map (\<lambda>st. (st, False)) olds" "ds' = ds" using res by (simp_all add: replace_rollover_groups_def)
      have "kept_or_silenced states' ds' h" if "st \<in> set olds" "h \<in> set (held st)" for st h
        using that mem [OF that] by (auto simp: kept_or_silenced_def s)
      with 1 ok settled show ?thesis by (auto simp: s o_def)
    next
      case 2
      then have s: "states' = []" "ds' = fold (\<lambda>st ds. retire {} ds st) olds ds"
        using res by (simp_all add: replace_rollover_groups_def split: if_splits)
      have "kept_or_silenced states' ds' h" if "st \<in> set olds" "h \<in> set (held st)" for st h
        using retire_group_ok(2) [OF that, of "{}" ds] devs that by (auto simp: kept_or_silenced_def s)
      then show ?thesis using 2 by (simp add: s runtime_ok_def no_shared_member_def)
    next
      case 3
      obtain ms replaced where m: "match_states gs olds = (ms, replaced)" by (cases "match_states gs olds")
      define states where states: "states = map (built_state replaced) ms"
      define carried where carried: "carried = \<Union> (set (map (\<lambda>(st, fresh). if fresh then set (map member (held st)) else {}) states))"
      have build: "build_runtime gs olds = (states, replaced, carried)"
        by (simp only: build_runtime_def m states carried Let_def prod.case built_state_fun)
      define ds1 where "ds1 = fold (\<lambda>st ds. retire carried ds st) replaced ds"
      obtain states2 where ad: "adopt_held_keys input states ds1 = (states2, ds')"
          and s: "states' = map (\<lambda>(st, fresh). (st, fresh \<and> held st \<noteq> [])) states2"
        using res 3 build unfolding replace_rollover_groups_def ds1_def by (auto split: prod.splits if_splits)
      have olds_inv: "collected st \<and> sorted (map press_seq (held st)) \<and> group_inv st" if "st \<in> set olds" for st
        using olds(2) settled that by blast
      note r = replaced_ok [OF olds(1) olds_inv new devs m states carried ad [unfolded ds1_def]]
      have 1: "map (\<lambda>p. group (fst p)) states' = gs" using r(1) by (simp add: s case_prod_beta o_def)
      moreover have "\<forall>p\<in>set states'. snd p \<or> group_inv (fst p)"
      proof -
        have "group_inv (fst q)" if "q \<in> set states2" "held (fst q) = []" for q
          using r(2) that by (auto simp: collected_def group_inv_def group_wf_def)
        with r(2) show ?thesis by (force simp: s)
      qed
      moreover have "runtime_ok (map fst states')"
      proof -
        have "map group (map fst states') = gs" using 1 by (simp add: o_def)
        moreover have "\<forall>st\<in>set (map fst states'). group_wf st \<and> member ` set (held st) \<subseteq> set (members (group st))"
          using r(2) by (auto simp: s group_wf_iff)
        ultimately show ?thesis using new by (simp add: runtime_ok_def)
      qed
      moreover have "kept_or_silenced states' ds' h = kept_or_silenced states2 ds' h" for h
        by (auto simp: kept_or_silenced_def s case_prod_beta)
      ultimately show ?thesis using r(3) by simp
    qed
  qed
  then show "map (\<lambda>p. group (fst p)) states' = gs" "runtime_ok (map fst states')"
    "\<forall>p\<in>set states'. snd p \<or> group_inv (fst p)"
    "\<forall>st\<in>set olds. \<forall>h\<in>set (held st). kept_or_silenced states' ds' h" by blast+
qed

end

section \<open>The devices as a source\<close>

lemma held_input_ok:
  assumes "held_input repr abs_code resolve m ds = (found, ds')"
  shows "quarantine_grows ds ds'" "found = Some h \<Longrightarrow> member h = m \<and> (recalled h \<longrightarrow> \<not> pressed h)"
  using assms
  by (auto simp: held_input_def Let_def grows_quarantine split: option.splits if_splits)

interpretation held_keys: key_source "held_input repr abs_code resolve" for repr abs_code resolve
  by unfold_locales (use held_input_ok in blast)+

text \<open>
  C24. Replacing the rollover groups while keys are held: the new runtime has exactly the new groups, in
  their order, every group is well formed, and every group that is not flagged for a settle satisfies the
  invariant of a settled group.  No held key is forgotten: it is still held in the group that now has it
  (with its output, press order and marks), or no group has it any more and then its output is still
  driven, its combo still owns it, or the device ignores it until it is released.
\<close>

theorem rollover_replace:
  assumes "runtime_ok olds" "\<forall>st\<in>set olds. group_inv st" "no_shared_member gs"
    and "\<forall>st\<in>set olds. \<forall>h\<in>set (held st). runtime h < length ds"
    and "replace_rollover_groups (held_input repr abs_code resolve) gs olds ds = (states', ds')"
  shows "map (\<lambda>p. group (fst p)) states' = gs \<and> runtime_ok (map fst states')
    \<and> (\<forall>p\<in>set states'. snd p \<or> group_inv (fst p))
    \<and> (\<forall>st\<in>set olds. \<forall>h\<in>set (held st). kept_or_silenced states' ds' h)"
  using held_keys.replace_ok [OF assms] by blast

definition overruled :: RolloverGroupState where
  "overruled = \<lparr>group = strafe, held = [(demo_held key_a 1)\<lparr>pressed := False\<rparr>, demo_held key_d 2], lost = {},
     active = Some key_d\<rparr>"

definition key_w :: RolloverMember where "key_w = \<lparr>hardware_id = ''kb'', button = ''w''\<rparr>"

definition climb :: RolloverGroup where
  "climb = \<lparr>name = ''Climb'', members = [key_w, key_d], winner = OLDEST, restore = False\<rparr>"

definition demo_device :: "(unit, unit) DeviceState" where
  "demo_device = \<lparr>dev_hardware_id = ''kb'', evdev_to_button = (\<lambda>e. Some e), held_source_keys = [''a'', ''d''],
     held_source_actions = (\<lambda>_. None), passthrough_keys = {2}, combo_recalled_bindings = {},
     held_source_press_order = (\<lambda>_. None), rollover_quarantined = {}, dev_passthrough = PassthroughOut ''kb''\<rparr>"

lemma overruled_ok: "runtime_ok [overruled]" "group_inv overruled" "\<forall>h\<in>set (held overruled). runtime h < length [demo_device]"
  by (auto simp: runtime_ok_def no_shared_member_def group_inv_def group_wf_def overruled_def demo_defs demo_held_def)

theorem rollover_replace_witness:
  "case replace_rollover_groups (held_input (\<lambda>_. []) (\<lambda>_. False) (\<lambda>_. None)) [climb] [overruled] [demo_device] of
     (states, ds) \<Rightarrow> runtime_ok (map fst states)
       \<and> kept_or_silenced states ds (demo_held key_d 2) \<and> map rollover_quarantined ds = [{''a''}]"
proof -
  obtain states ds where res: "replace_rollover_groups (held_input (\<lambda>_. []) (\<lambda>_. False) (\<lambda>_. None)) [climb]
      [overruled] [demo_device] = (states, ds)"
    by (metis surj_pair)
  have q: "map rollover_quarantined (snd (replace_rollover_groups (held_input (\<lambda>_. []) (\<lambda>_. False) (\<lambda>_. None)) [climb]
      [overruled] [demo_device])) = [{''a''}]"
    by code_simp
  have "no_shared_member [climb]" by (simp add: no_shared_member_def)
  from rollover_replace [OF overruled_ok(1) _ this _ res] overruled_ok(2,3)
  have "runtime_ok (map fst states) \<and> (\<forall>h\<in>set (held overruled). kept_or_silenced states ds h)" by simp
  moreover have "demo_held key_d 2 \<in> set (held overruled)" by (simp add: overruled_def)
  moreover have "map rollover_quarantined ds = [{''a''}]" using q unfolding res by simp
  ultimately show ?thesis unfolding res prod.case by blast
qed


end
