(* ===== verification/Profile_Rules.thy ===== *)
theory Profile_Rules
  imports Action_Model Rollover_Groups Combo_Names
begin

text \<open>
  Window rules of conditional profiles: \<open>session/profile/rules.py\<close>, the profile records of
  \<open>common/model/profiles.py\<close>, and the window state of \<open>session/manager/compositor.py\<close> with its check
  whether a window update can change a match.  Regular expressions are the parameter \<open>regex\<close>: a pattern
  gives the function that searches a text, or \<open>None\<close> when compiling it raises \<open>re.error\<close>.  A decoded
  window is a JSON object; \<open>repr\<close> is the \<open>str\<close> of floats, lists and objects.
\<close>

section \<open>Profiles\<close>

record WindowRule =
  rule_field :: string
  pattern :: string

record ('c, 'x) DeviceProfileLayer =
  layer_hardware_id :: string
  layer_grab_all :: bool
  layer_mappings :: "(string \<times> ('c, 'x) MappingAction) list"

record ComboEvent =
  evdev :: string
  event_hardware :: string
  event_source :: "string option"

record ComboStep =
  step_events :: "ComboEvent list"
  step_timeout_ms :: "int option"

record ('c, 'x) ComboConfig =
  combo_id :: string
  combo_name :: string
  combo_steps :: "ComboStep list"
  combo_action :: "('c, 'x) MappingAction option"
  recall_trigger_keys :: bool
  restore_trigger_keys :: "string list"
  match_across_devices :: bool

text \<open>A creation time counts from \<open>datetime.min\<close>.\<close>

record ('c, 'x) ProfileConfig =
  profile_name :: string
  enabled :: bool
  is_permanent :: bool
  priority :: int
  notify_on_activation :: bool
  window_rules :: "WindowRule list"
  device_layers :: "(string \<times> ('c, 'x) DeviceProfileLayer) list"
  combos :: "('c, 'x) ComboConfig list"
  rollover_groups :: "RolloverGroup list"
  created_at :: "nat option"

datatype ProfileState = INACTIVE | WAITING | ACTIVE | STANDBY

definition profile_state :: "('c, 'x) ProfileConfig \<Rightarrow> ProfileState" where
  "profile_state p =
    (if \<not> enabled p then INACTIVE
     else if is_permanent p then STANDBY
     else if window_rules p \<noteq> [] then WAITING
     else INACTIVE)"

definition get_layer :: "('c, 'x) ProfileConfig \<Rightarrow> string \<Rightarrow> ('c, 'x) DeviceProfileLayer option" where
  "get_layer p hw = map_of (device_layers p) hw"

section \<open>Rules\<close>

type_synonym window = "(string \<times> json) list"

definition WINDOW_MATCH_FIELDS :: "string set" where
  "WINDOW_MATCH_FIELDS = {''class'', ''title'', ''tag'', ''layer''}"

definition WINDOW_RULE_FIELD_CAPABILITIES :: "(string \<times> string) list" where
  "WINDOW_RULE_FIELD_CAPABILITIES = [(''tag'', ''window_tags''), (''layer'', ''layer_focus'')]"

definition normalize_window_rule_field :: "string \<Rightarrow> string" where
  "normalize_window_rule_field v =
    (let field = py_lower (py_strip v) in if field = ''tags'' then ''tag'' else field)"

definition window_rule_field_supported :: "string \<Rightarrow> string list \<Rightarrow> bool" where
  "window_rule_field_supported field capabilities =
    (case map_of WINDOW_RULE_FIELD_CAPABILITIES (normalize_window_rule_field field) of
       None \<Rightarrow> True
     | Some capability \<Rightarrow> capability \<in> set capabilities)"

definition has_unsupported_rules :: "('c, 'x) ProfileConfig \<Rightarrow> string list \<Rightarrow> bool" where
  "has_unsupported_rules p capabilities =
    list_ex (\<lambda>r. \<not> window_rule_field_supported (rule_field r) capabilities) (window_rules p)"

text \<open>The tags of a window, with the test \<open>str(tag or "").strip()\<close> for a tag that is not blank.\<close>

definition window_tags :: "window \<Rightarrow> json list" where
  "window_tags w = json_list (json_get_default w ''tags'' (JList []))"

definition blank_tag :: "(json \<Rightarrow> string) \<Rightarrow> json \<Rightarrow> bool" where
  "blank_tag repr tag = (py_strip (text_or repr tag []) = [])"

text \<open>\<open>any(re.search(pattern, tag) for tag in tags)\<close>: the pattern is compiled at the first tag.\<close>

definition any_search :: "(string \<Rightarrow> (string \<Rightarrow> bool) option) \<Rightarrow> string \<Rightarrow> string list \<Rightarrow> bool option" where
  "any_search regex p tags =
    (if tags = [] then Some False else map_option (\<lambda>search. list_ex search tags) (regex p))"

text \<open>One rule: \<open>None\<close> is the \<open>re.error\<close>, which ends the match like a rule that fails.\<close>

definition rule_matches ::
  "(json \<Rightarrow> string) \<Rightarrow> (string \<Rightarrow> (string \<Rightarrow> bool) option) \<Rightarrow> window \<Rightarrow> WindowRule \<Rightarrow> bool option"
where
  "rule_matches repr regex w r =
    (let field = normalize_window_rule_field (rule_field r)
     in if field = ''tag'' then any_search regex (pattern r) (map (py_str repr) (window_tags w))
        else if field \<in> {''class'', ''title'', ''layer''}
        then (case json_get_default w field (JString []) of
                JString s \<Rightarrow> if s = [] then Some False else map_option (\<lambda>search. search s) (regex (pattern r))
              | _ \<Rightarrow> Some False)
        else Some False)"

fun all_rules_match ::
  "(json \<Rightarrow> string) \<Rightarrow> (string \<Rightarrow> (string \<Rightarrow> bool) option) \<Rightarrow> window \<Rightarrow> WindowRule list \<Rightarrow> bool"
where
  "all_rules_match repr regex w [] = True"
| "all_rules_match repr regex w (r # rs) =
    (case rule_matches repr regex w r of
       Some True \<Rightarrow> all_rules_match repr regex w rs
     | _ \<Rightarrow> False)"

definition matches_window_rules ::
  "(json \<Rightarrow> string) \<Rightarrow> (string \<Rightarrow> (string \<Rightarrow> bool) option) \<Rightarrow> ('c, 'x) ProfileConfig \<Rightarrow> window option \<Rightarrow> bool"
where
  "matches_window_rules repr regex p window_info =
    (case window_info of
       None \<Rightarrow> False
     | Some w \<Rightarrow> if window_rules p = [] \<or> w = [] then False else all_rules_match repr regex w (window_rules p))"

section \<open>Window updates\<close>

datatype match_value = MText string | MTags "string list"

fun match_text :: "json \<Rightarrow> match_value" where
  "match_text (JString s) = MText s"
| "match_text v = MText []"

definition normalize_window_info_for_match ::
  "(json \<Rightarrow> string) \<Rightarrow> window option \<Rightarrow> (string \<times> match_value) list"
where
  "normalize_window_info_for_match repr window_info =
    (case window_info of
       None \<Rightarrow> [(''class'', MText []), (''title'', MText []), (''tag'', MTags []), (''layer'', MText [])]
     | Some w \<Rightarrow>
         [(''class'', match_text (json_get_default w ''class'' (JString []))),
          (''title'', match_text (json_get_default w ''title'' (JString []))),
          (''tag'', MTags (sorted_list_of_set
             (set (map (py_str repr) (filter (\<lambda>t. \<not> blank_tag repr t) (window_tags w)))))),
          (''layer'', match_text (json_get_default w ''layer'' (JString [])))])"

definition window_fields_in_use :: "('c, 'x) ProfileConfig list \<Rightarrow> string list \<Rightarrow> string set" where
  "window_fields_in_use profiles capabilities =
    \<Union> (set (map (\<lambda>p.
        if \<not> enabled p \<or> is_permanent p \<or> window_rules p = [] \<or> has_unsupported_rules p capabilities then {}
        else set (filter (\<lambda>f. f \<in> WINDOW_MATCH_FIELDS)
               (map (\<lambda>r. normalize_window_rule_field (rule_field r)) (window_rules p)))) profiles))"

definition window_update_changes_profile_matches ::
  "(json \<Rightarrow> string) \<Rightarrow> ('c, 'x) ProfileConfig list \<Rightarrow> string list \<Rightarrow> window \<Rightarrow> window \<Rightarrow> bool"
where
  "window_update_changes_profile_matches repr profiles capabilities previous_window current_window =
    (let before = normalize_window_info_for_match repr (Some previous_window);
         current = normalize_window_info_for_match repr (Some current_window);
         fields = window_fields_in_use profiles capabilities
     in before \<noteq> current \<and> fields \<noteq> {}
        \<and> (\<exists>f\<in>fields. map_of before (normalize_window_rule_field f) \<noteq> map_of current (normalize_window_rule_field f)))"

definition normalize_window_info :: "string \<Rightarrow> string \<Rightarrow> string list \<Rightarrow> string \<Rightarrow> window" where
  "normalize_window_info window_class window_title tags layer =
    [(''class'', JString window_class), (''title'', JString window_title),
     (''tags'', JList (map JString (filter (\<lambda>t. py_strip t \<noteq> []) tags)))]
    @ (if layer \<noteq> [] then [(''layer'', JString layer)] else [])"

definition normalize_window_info_from_dict :: "(json \<Rightarrow> string) \<Rightarrow> window \<Rightarrow> window" where
  "normalize_window_info_from_dict repr w =
    normalize_window_info
      (the (coerce_str repr (json_get w ''class'') (Some [])))
      (the (coerce_str repr (json_get w ''title'') (Some [])))
      (map (py_str repr) (filter (\<lambda>t. \<not> blank_tag repr t) (json_list (json_get w ''tags''))))
      (the (coerce_str repr (json_get w ''layer'') (Some [])))"

section \<open>What a match depends on\<close>

definition sane_window :: "(json \<Rightarrow> string) \<Rightarrow> window \<Rightarrow> bool" where
  "sane_window repr w \<longleftrightarrow> (\<forall>t\<in>set (window_tags w). \<not> blank_tag repr t)"

lemma sane_normalized: "sane_window repr (normalize_window_info c t tags l)"
  by (auto simp: sane_window_def normalize_window_info_def window_tags_def json_get_default_def blank_tag_def text_or_def)

lemma sane_from_dict: "sane_window repr (normalize_window_info_from_dict repr w)"
  by (simp add: normalize_window_info_from_dict_def sane_normalized)

lemma sane_empty: "sane_window repr []"
  by (simp add: sane_window_def window_tags_def json_get_default_def)

lemma normalize_field_idem [simp]:
  "normalize_window_rule_field (normalize_window_rule_field f) = normalize_window_rule_field f"
proof (cases "py_lower (py_strip f) = ''tags''")
  case True
  have "normalize_window_rule_field ''tag'' = ''tag''" by code_simp
  with True show ?thesis by (simp add: normalize_window_rule_field_def)
qed (simp add: normalize_window_rule_field_def Let_def)

lemma all_rules_match_iff:
  "all_rules_match repr regex w rs \<longleftrightarrow> (\<forall>r\<in>set rs. rule_matches repr regex w r = Some True)"
  by (induction rs) (auto split: option.splits bool.splits)

definition agree_on :: "(json \<Rightarrow> string) \<Rightarrow> window \<Rightarrow> window \<Rightarrow> string \<Rightarrow> bool" where
  "agree_on repr v w f \<longleftrightarrow> map_of (normalize_window_info_for_match repr (Some v)) f
    = map_of (normalize_window_info_for_match repr (Some w)) f"

lemma agree_sym: "agree_on repr v w f \<Longrightarrow> agree_on repr w v f"
  by (simp add: agree_on_def)

lemma sane_tags:
  "sane_window repr w \<Longrightarrow> set (map (py_str repr) (filter (\<lambda>t. \<not> blank_tag repr t) (window_tags w)))
    = set (map (py_str repr) (window_tags w))"
  by (auto simp: sane_window_def)

lemma any_search_iff:
  "any_search regex p tags = Some True \<longleftrightarrow> (\<exists>search. regex p = Some search \<and> (\<exists>t\<in>set tags. search t))"
  by (auto simp: any_search_def list_ex_iff)

lemma rule_matches_agree:
  assumes "sane_window repr v" "sane_window repr w"
    and agree: "agree_on repr v w (normalize_window_rule_field (rule_field r))"
    and m: "rule_matches repr regex v r = Some True"
  shows "rule_matches repr regex w r = Some True"
proof (cases "normalize_window_rule_field (rule_field r) = ''tag''")
  case True
  have "set (map (py_str repr) (window_tags v)) = set (map (py_str repr) (window_tags w))"
  proof -
    have "sorted_list_of_set (set (map (py_str repr) (window_tags v)))
        = sorted_list_of_set (set (map (py_str repr) (window_tags w)))"
      using agree assms(1,2) sane_tags [of repr v] sane_tags [of repr w]
      by (simp add: True agree_on_def normalize_window_info_for_match_def)
    then show ?thesis by (metis finite_set sorted_list_of_set.set_sorted_key_list_of_set)
  qed
  with m True show ?thesis by (simp add: rule_matches_def any_search_iff del: set_map)
next
  case False
  with m have field: "normalize_window_rule_field (rule_field r) \<in> {''class'', ''title'', ''layer''}"
    by (auto simp: rule_matches_def Let_def split: if_splits)
  then have same: "match_text (json_get_default v (normalize_window_rule_field (rule_field r)) (JString []))
      = match_text (json_get_default w (normalize_window_rule_field (rule_field r)) (JString []))"
    using agree by (auto simp: agree_on_def normalize_window_info_for_match_def)
  let ?v = "json_get_default v (normalize_window_rule_field (rule_field r)) (JString [])"
  obtain s where s: "?v = JString s" "s \<noteq> []"
    using m False field by (cases ?v) (auto simp: rule_matches_def Let_def split: if_splits)
  then have "json_get_default w (normalize_window_rule_field (rule_field r)) (JString []) = JString s"
    using same by (cases "json_get_default w (normalize_window_rule_field (rule_field r)) (JString [])") auto
  then show ?thesis using m False field s by (simp add: rule_matches_def Let_def)
qed

lemma matches_agree:
  assumes sane: "sane_window repr v" "sane_window repr w"
    and agree: "\<forall>r\<in>set (window_rules p). normalize_window_rule_field (rule_field r) \<in> WINDOW_MATCH_FIELDS
      \<longrightarrow> agree_on repr v w (normalize_window_rule_field (rule_field r))"
    and m: "matches_window_rules repr regex p (Some v)"
  shows "matches_window_rules repr regex p (Some w)"
proof -
  have rules: "window_rules p \<noteq> []" "\<forall>r\<in>set (window_rules p). rule_matches repr regex v r = Some True"
    using m by (simp_all add: matches_window_rules_def all_rules_match_iff split: if_splits)
  have new: "rule_matches repr regex w r = Some True" if "r \<in> set (window_rules p)" for r
  proof -
    have rv: "rule_matches repr regex v r = Some True" using rules that by blast
    then have "normalize_window_rule_field (rule_field r) \<in> WINDOW_MATCH_FIELDS"
      by (auto simp: rule_matches_def WINDOW_MATCH_FIELDS_def Let_def split: if_splits)
    then show ?thesis using agree that rv rule_matches_agree [OF sane] by blast
  qed
  have "w \<noteq> []"
  proof
    assume "w = []"
    moreover obtain r where "r \<in> set (window_rules p)" using rules(1) by (cases "window_rules p") auto
    ultimately have "rule_matches repr regex [] r = Some True" using new by blast
    then show False
      by (auto simp: rule_matches_def any_search_def window_tags_def json_get_default_def Let_def split: if_splits)
  qed
  then show ?thesis using new rules(1) by (simp add: matches_window_rules_def all_rules_match_iff)
qed

end
