(* ===== verification/Profile_Resolution.thy ===== *)
theory Profile_Resolution
  imports Profile_Rules
begin

text \<open>
  The resolver of \<open>session/profile/resolution.py\<close> with the records of \<open>session/profile/types.py\<close>: from
  the profiles, the focused window and the profiles that are switched on at run time to the active
  profiles, the mappings of each device, the combos and the rollover groups.  A dictionary is an
  association list in insertion order; \<open>casefold\<close> is the parameter for \<open>str.casefold\<close>.  Deep copies are
  values; paths, images, activation macros and the date of a profile beyond its order are left out.
\<close>

section \<open>Results\<close>

type_synonym ComboSignature = "(string \<times> string \<times> string) list list"

record ('c, 'x) ResolvedDevice =
  dev_id :: string
  active_profile_names :: "string list"
  dev_mappings :: "(string \<times> ('c, 'x) MappingAction) list"
  mapping_profile_names :: "(string \<times> string) list"
  always_grab_all :: bool
  notify_profiles :: "string list"
  combo_event_count :: nat
  combo_sources :: "string set"
  rollover_buttons :: "string set"

definition new_device :: "string \<Rightarrow> ('c, 'x) ResolvedDevice" where
  "new_device hw = \<lparr>dev_id = hw, active_profile_names = [], dev_mappings = [], mapping_profile_names = [],
     always_grab_all = False, notify_profiles = [], combo_event_count = 0, combo_sources = {},
     rollover_buttons = {}\<rparr>"

definition has_effective_mapping :: "('c, 'x) ResolvedDevice \<Rightarrow> bool" where
  "has_effective_mapping d \<longleftrightarrow>
    always_grab_all d \<or> dev_mappings d \<noteq> [] \<or> 0 < combo_event_count d \<or> rollover_buttons d \<noteq> {}"

record ('c, 'x) ResolvedCombo =
  rc_id :: string
  rc_name :: string
  rc_steps :: "ComboStep list"
  rc_action :: "('c, 'x) MappingAction"
  rc_profile_name :: string
  rc_recall_trigger_keys :: bool
  rc_restore_trigger_keys :: "string list"
  rc_match_across_devices :: bool

record ('c, 'x) ResolvedProfiles =
  active_profiles :: "('c, 'x) ProfileConfig list"
  devices :: "(string \<times> ('c, 'x) ResolvedDevice) list"
  resolved_combos :: "('c, 'x) ResolvedCombo list"
  resolved_groups :: "RolloverGroup list"

section \<open>Active profiles\<close>

definition profile_rank :: "(string \<Rightarrow> string) \<Rightarrow> ('c, 'x) ProfileConfig \<Rightarrow> nat \<times> int \<times> nat \<times> string" where
  "profile_rank casefold p =
    (if is_permanent p then 0 else 1, priority p,
     (case created_at p of None \<Rightarrow> 0 | Some t \<Rightarrow> t), casefold (profile_name p))"

definition rule_active ::
  "(json \<Rightarrow> string) \<Rightarrow> (string \<Rightarrow> (string \<Rightarrow> bool) option) \<Rightarrow> string list \<Rightarrow> window option
    \<Rightarrow> ('c, 'x) ProfileConfig \<Rightarrow> bool"
where
  "rule_active repr regex capabilities window_info p \<longleftrightarrow>
    \<not> (\<not> enabled p \<or> has_unsupported_rules p capabilities)
    \<and> (is_permanent p \<or> matches_window_rules repr regex p window_info)"

definition clean_runtime_names :: "string list \<Rightarrow> string list" where
  "clean_runtime_names ns = filter (\<lambda>n. n \<noteq> []) (map py_strip ns)"

fun runtime_profiles ::
  "(string \<times> ('c, 'x) ProfileConfig) list \<Rightarrow> string set \<Rightarrow> string list \<Rightarrow> ('c, 'x) ProfileConfig list"
where
  "runtime_profiles profiles seen [] = []"
| "runtime_profiles profiles seen (n # ns) =
    (if n \<in> seen then runtime_profiles profiles seen ns
     else case map_of profiles n of
            None \<Rightarrow> runtime_profiles profiles (insert n seen) ns
          | Some p \<Rightarrow> p # runtime_profiles profiles (insert n seen) ns)"

definition resolve_active ::
  "(string \<Rightarrow> string) \<Rightarrow> (json \<Rightarrow> string) \<Rightarrow> (string \<Rightarrow> (string \<Rightarrow> bool) option)
    \<Rightarrow> (string \<times> ('c, 'x) ProfileConfig) list \<Rightarrow> window option \<Rightarrow> string list \<Rightarrow> string list
    \<Rightarrow> ('c, 'x) ProfileConfig list"
where
  "resolve_active casefold repr regex profiles window_info capabilities runtime_names =
    (let ruled = sort_key (profile_rank casefold)
           (filter (rule_active repr regex capabilities window_info) (map snd profiles));
         switched = runtime_profiles profiles {} (clean_runtime_names runtime_names)
     in if switched = [] then ruled
        else filter (\<lambda>p. profile_name p \<notin> set (map profile_name switched)) ruled @ switched)"

section \<open>Devices\<close>

definition layer_mapping ::
  "string \<Rightarrow> string \<times> ('c, 'x) MappingAction \<Rightarrow> ('c, 'x) ResolvedDevice \<Rightarrow> ('c, 'x) ResolvedDevice"
where
  "layer_mapping profile m d =
    (case m of (button_id, action) \<Rightarrow>
       if action_type action = PASSTHROUGH
       then d\<lparr>dev_mappings := AList.delete button_id (dev_mappings d),
              mapping_profile_names := AList.delete button_id (mapping_profile_names d)\<rparr>
       else d\<lparr>dev_mappings := AList.update button_id (action\<lparr>source_profile_name := Some profile\<rparr>) (dev_mappings d),
              mapping_profile_names := AList.update button_id profile (mapping_profile_names d)\<rparr>)"

definition add_profile_layer ::
  "string \<Rightarrow> ('c, 'x) ProfileConfig \<Rightarrow> ('c, 'x) ResolvedDevice \<Rightarrow> ('c, 'x) ResolvedDevice"
where
  "add_profile_layer hw p d =
    (case get_layer p hw of
       None \<Rightarrow> d
     | Some layer \<Rightarrow>
         fold (layer_mapping (profile_name p)) (layer_mappings layer)
           (d\<lparr>active_profile_names := active_profile_names d @ [profile_name p],
              always_grab_all := (always_grab_all d \<or> layer_grab_all layer),
              notify_profiles := (if notify_on_activation p then notify_profiles d @ [profile_name p]
                                  else notify_profiles d)\<rparr>))"

definition resolve_devices ::
  "('c, 'x) ProfileConfig list \<Rightarrow> string set \<Rightarrow> (string \<times> ('c, 'x) ResolvedDevice) list"
where
  "resolve_devices active known =
    map (\<lambda>hw. (hw, fold (add_profile_layer hw) active (new_device hw))) (sorted_list_of_set known)"

text \<open>\<open>devices[member.hardware_id].rollover_buttons.add(...)\<close>: \<open>Inl\<close> is the \<open>KeyError\<close>.\<close>

fun mark_rollover ::
  "(string \<times> ('c, 'x) ResolvedDevice) list \<Rightarrow> RolloverMember list
    \<Rightarrow> string + (string \<times> ('c, 'x) ResolvedDevice) list"
where
  "mark_rollover devs [] = Inr devs"
| "mark_rollover devs (m # ms) =
    (case map_of devs (hardware_id m) of
       None \<Rightarrow> Inl (hardware_id m)
     | Some d \<Rightarrow> mark_rollover
         (AList.update (hardware_id m) (d\<lparr>rollover_buttons := insert (button m) (rollover_buttons d)\<rparr>) devs) ms)"

section \<open>Combos\<close>

definition effective_step :: "bool \<Rightarrow> ComboStep \<Rightarrow> ComboStep" where
  "effective_step across s =
    (if across then s\<lparr>step_events := map (\<lambda>e. e\<lparr>event_hardware := [], event_source := None\<rparr>) (step_events s)\<rparr>
     else s)"

definition step_signature_of :: "ComboStep \<Rightarrow> (string \<times> string \<times> string) list" where
  "step_signature_of s =
    sort (map (\<lambda>e. (event_hardware e, (case event_source e of None \<Rightarrow> [] | Some x \<Rightarrow> x),
      normalize_combo_evdev (evdev e))) (filter (\<lambda>e. evdev e \<noteq> []) (step_events s)))"

fun normalize_steps :: "bool \<Rightarrow> ComboStep list \<Rightarrow> (ComboSignature \<times> ComboStep list) option" where
  "normalize_steps across [] = Some ([], [])"
| "normalize_steps across (s # ss) =
    (if step_events s = [] then None
     else let eff = effective_step across s; events = step_signature_of eff
          in if events = [] then None
             else case normalize_steps across ss of
                    None \<Rightarrow> None
                  | Some (sig, steps) \<Rightarrow> Some (events # sig, eff # steps))"

definition normalize_combo_steps :: "('c, 'x) ComboConfig \<Rightarrow> (ComboSignature \<times> ComboStep list) option" where
  "normalize_combo_steps combo = normalize_steps (match_across_devices combo) (combo_steps combo)"

definition mark_event ::
  "('c, 'x) ProfileConfig \<Rightarrow> string \<times> string \<times> string \<Rightarrow> (string \<times> ('c, 'x) ResolvedDevice) list
    \<Rightarrow> (string \<times> ('c, 'x) ResolvedDevice) list"
where
  "mark_event p event devs =
    (case event of (hw, source, ev) \<Rightarrow>
       if hw = [] then devs
       else let d = (case map_of devs hw of None \<Rightarrow> new_device hw | Some d \<Rightarrow> d);
                names = (if profile_name p \<in> set (active_profile_names d) then active_profile_names d
                         else active_profile_names d @ [profile_name p]);
                notify = (if notify_on_activation p \<and> profile_name p \<notin> set (notify_profiles d)
                          then notify_profiles d @ [profile_name p] else notify_profiles d);
                sources = (if source \<noteq> [] then insert source (combo_sources d) else combo_sources d)
            in AList.update hw (d\<lparr>active_profile_names := names, combo_event_count := combo_event_count d + 1,
                 notify_profiles := notify, combo_sources := sources\<rparr>) devs)"

definition mark_combo_devices ::
  "('c, 'x) ProfileConfig \<Rightarrow> ComboSignature \<Rightarrow> (string \<times> ('c, 'x) ResolvedDevice) list
    \<Rightarrow> (string \<times> ('c, 'x) ResolvedDevice) list"
where
  "mark_combo_devices p sig devs = fold (mark_event p) (concat sig) devs"

definition resolved_combo ::
  "('c, 'x) ProfileConfig \<Rightarrow> ('c, 'x) ComboConfig \<Rightarrow> ('c, 'x) MappingAction \<Rightarrow> ComboStep list
    \<Rightarrow> ('c, 'x) ResolvedCombo"
where
  "resolved_combo p combo action steps =
    \<lparr>rc_id = combo_id combo, rc_name = combo_name combo, rc_steps = steps,
     rc_action = action\<lparr>source_profile_name := Some (profile_name p)\<rparr>, rc_profile_name = profile_name p,
     rc_recall_trigger_keys = recall_trigger_keys combo,
     rc_restore_trigger_keys = normalize_combo_restore_keys (restore_trigger_keys combo),
     rc_match_across_devices = match_across_devices combo\<rparr>"

definition add_combo ::
  "('c, 'x) ProfileConfig \<times> ('c, 'x) ComboConfig
    \<Rightarrow> (ComboSignature \<times> ('c, 'x) ResolvedCombo) list \<times> (string \<times> ('c, 'x) ResolvedDevice) list
    \<Rightarrow> (ComboSignature \<times> ('c, 'x) ResolvedCombo) list \<times> (string \<times> ('c, 'x) ResolvedDevice) list"
where
  "add_combo pc acc =
    (case (pc, acc) of ((p, combo), (by_signature, devs)) \<Rightarrow>
       (case combo_action combo of
          None \<Rightarrow> acc
        | Some action \<Rightarrow>
            if combo_steps combo = [] then acc
            else case normalize_combo_steps combo of
                   None \<Rightarrow> acc
                 | Some (sig, steps) \<Rightarrow>
                     (AList.delete sig by_signature @ [(sig, resolved_combo p combo action steps)],
                      mark_combo_devices p sig devs)))"

definition resolve_combos ::
  "('c, 'x) ProfileConfig list \<Rightarrow> (string \<times> ('c, 'x) ResolvedDevice) list
    \<Rightarrow> (ComboSignature \<times> ('c, 'x) ResolvedCombo) list \<times> (string \<times> ('c, 'x) ResolvedDevice) list"
where
  "resolve_combos active devs = fold add_combo [(p, combo). p \<leftarrow> active, combo \<leftarrow> combos p] ([], devs)"

section \<open>The resolver\<close>

definition known_devices ::
  "('c, 'x) ProfileConfig list \<Rightarrow> ('c, 'x) ProfileConfig list \<Rightarrow> RolloverGroup list \<Rightarrow> string list \<Rightarrow> string set"
where
  "known_devices ruled active groups hardware_ids =
    set hardware_ids \<union> set (concat (map (\<lambda>p. map fst (device_layers p)) ruled))
    \<union> set (concat (map (\<lambda>p. map fst (device_layers p)) active))
    \<union> hardware_id ` set (concat (map members groups))"

definition resolve ::
  "(string \<Rightarrow> string) \<Rightarrow> (json \<Rightarrow> string) \<Rightarrow> (string \<Rightarrow> (string \<Rightarrow> bool) option)
    \<Rightarrow> (string \<times> ('c, 'x) ProfileConfig) list \<Rightarrow> window option \<Rightarrow> string list \<Rightarrow> string list \<Rightarrow> string list
    \<Rightarrow> string + ('c, 'x) ResolvedProfiles"
where
  "resolve casefold repr regex profiles window_info capabilities hardware_ids runtime_names =
    (let ruled = filter (rule_active repr regex capabilities window_info) (map snd profiles);
         active = resolve_active casefold repr regex profiles window_info capabilities runtime_names;
         groups = layer_rollover_groups (concat (map rollover_groups active));
         known = known_devices ruled active groups hardware_ids
     in case mark_rollover (resolve_devices active known) (concat (map members groups)) of
          Inl e \<Rightarrow> Inl e
        | Inr devs \<Rightarrow>
            (case resolve_combos active devs of (by_signature, devs') \<Rightarrow>
               Inr \<lparr>active_profiles = active, devices = devs', resolved_combos = map snd by_signature,
                    resolved_groups = groups\<rparr>))"

end
