(* ===== verification/Profile_Properties.thy ===== *)
theory Profile_Properties
  imports Profile_Resolution
begin

text \<open>
  What the resolver guarantees: the order of the active profiles, which profile decides a mapping and a
  combo, that no lookup fails and every input in use belongs to a device that is grabbed, and that a window
  update may be skipped when no rule can see it.
\<close>

section \<open>The order of the profiles\<close>

lemma unique_first_Cons: "unique_first (x # xs) = x # filter (\<lambda>y. y \<noteq> x) (unique_first xs)"
proof -
  have "remdups (ys @ [x]) = filter (\<lambda>y. y \<noteq> x) (remdups ys) @ [x]" for ys :: "'a list"
    by (induction ys) auto
  then show ?thesis by (simp add: unique_first_def rev_filter)
qed

lemma runtime_profiles_first:
  "runtime_profiles profiles seen ns = List.map_filter (map_of profiles) (filter (\<lambda>n. n \<notin> seen) (unique_first ns))"
proof (induction ns arbitrary: seen)
  case Nil
  then show ?case by (simp add: unique_first_def List.map_filter_simps)
next
  case (Cons n ns)
  have "filter (\<lambda>m. m \<notin> seen) (filter (\<lambda>m. m \<noteq> n) (unique_first ns)) = filter (\<lambda>m. m \<notin> insert n seen) (unique_first ns)"
    by (simp add: filter_filter conj_commute)
  moreover have "filter (\<lambda>m. m \<notin> insert n seen) (unique_first ns) = filter (\<lambda>m. m \<notin> seen) (unique_first ns)" if "n \<in> seen"
    using that by (metis insert_absorb)
  ultimately show ?case
    using Cons.IH [of seen] Cons.IH [of "insert n seen"]
    by (simp add: unique_first_Cons List.map_filter_simps split: option.splits)
qed

text \<open>The profiles switched on at run time, in the order of their first mention.\<close>

definition switched_profiles ::
  "(string \<times> ('c, 'x) ProfileConfig) list \<Rightarrow> string list \<Rightarrow> ('c, 'x) ProfileConfig list"
where
  "switched_profiles profiles runtime_names =
    List.map_filter (map_of profiles) (unique_first (clean_runtime_names runtime_names))"

lemma resolve_active_split:
  "resolve_active casefold repr regex profiles window_info capabilities runtime_names =
    filter (\<lambda>p. profile_name p \<notin> profile_name ` set (switched_profiles profiles runtime_names))
      (sort_key (profile_rank casefold) (filter (rule_active repr regex capabilities window_info) (map snd profiles)))
    @ switched_profiles profiles runtime_names"
  by (simp add: resolve_active_def switched_profiles_def runtime_profiles_first Let_def)

section \<open>Which profile decides\<close>

definition layers_distinct :: "('c, 'x) ProfileConfig \<Rightarrow> bool" where
  "layers_distinct p \<longleftrightarrow> (\<forall>hw layer. get_layer p hw = Some layer \<longrightarrow> distinct (map fst (layer_mappings layer)))"

definition layer_action :: "('c, 'x) ProfileConfig \<Rightarrow> string \<Rightarrow> string \<Rightarrow> ('c, 'x) MappingAction option" where
  "layer_action p hw b = Option.bind (get_layer p hw) (\<lambda>layer. map_of (layer_mappings layer) b)"

definition decided :: "string \<Rightarrow> ('c, 'x) MappingAction \<Rightarrow> ('c, 'x) MappingAction option" where
  "decided pn a = (if action_type a = PASSTHROUGH then None else Some (a\<lparr>source_profile_name := Some pn\<rparr>))"

text \<open>The mapping of a button, and the profile it is from, as the list of active profiles decides it.\<close>

fun deciding_profile ::
  "string \<Rightarrow> string \<Rightarrow> ('c, 'x) ProfileConfig list \<Rightarrow> (('c, 'x) ProfileConfig \<times> ('c, 'x) MappingAction) option"
where
  "deciding_profile hw b [] = None"
| "deciding_profile hw b (p # ps) =
    (case deciding_profile hw b ps of
       Some pa \<Rightarrow> Some pa
     | None \<Rightarrow> map_option (Pair p) (layer_action p hw b))"

lemma deciding_append:
  "deciding_profile hw b (ps @ [p]) =
    (case layer_action p hw b of Some a \<Rightarrow> Some (p, a) | None \<Rightarrow> deciding_profile hw b ps)"
  by (induction ps) (auto split: option.splits)

definition device_decides ::
  "string \<Rightarrow> (('c, 'x) ProfileConfig \<times> ('c, 'x) MappingAction) option \<Rightarrow> ('c, 'x) ResolvedDevice \<Rightarrow> bool"
where
  "device_decides b who d \<longleftrightarrow>
    map_of (dev_mappings d) b = (case who of None \<Rightarrow> None | Some (p, a) \<Rightarrow> decided (profile_name p) a)
    \<and> map_of (mapping_profile_names d) b =
        (case who of None \<Rightarrow> None | Some (p, a) \<Rightarrow> if action_type a = PASSTHROUGH then None else Some (profile_name p))"

lemma layer_fold:
  assumes "distinct (map fst ms)"
  shows "map_of (dev_mappings (fold (layer_mapping pn) ms d)) b =
      (case map_of ms b of None \<Rightarrow> map_of (dev_mappings d) b | Some a \<Rightarrow> decided pn a)
    \<and> map_of (mapping_profile_names (fold (layer_mapping pn) ms d)) b =
      (case map_of ms b of None \<Rightarrow> map_of (mapping_profile_names d) b
       | Some a \<Rightarrow> if action_type a = PASSTHROUGH then None else Some pn)"
  using assms
proof (induction ms arbitrary: d)
  case (Cons m ms)
  obtain b' a where m: "m = (b', a)" by (cases m)
  have "map_of ms b' = None" using Cons.prems m by (simp add: map_of_eq_None_iff)
  then show ?case
    using Cons.IH [of "layer_mapping pn m d"] Cons.prems
    by (auto simp: m layer_mapping_def decided_def split: option.splits)
qed simp

lemma layer_mapping_keeps:
  "active_profile_names (layer_mapping pn m d) = active_profile_names d"
  "always_grab_all (layer_mapping pn m d) = always_grab_all d"
  by (simp_all add: layer_mapping_def split: prod.split)

lemma layer_mapping_fields:
  "active_profile_names (fold (layer_mapping pn) ms d) = active_profile_names d
    \<and> always_grab_all (fold (layer_mapping pn) ms d) = always_grab_all d"
  by (induction ms arbitrary: d) (simp_all add: layer_mapping_keeps)

lemma add_layer_decides:
  assumes "layers_distinct p" "device_decides b who d"
  shows "device_decides b (case layer_action p hw b of Some a \<Rightarrow> Some (p, a) | None \<Rightarrow> who) (add_profile_layer hw p d)"
proof (cases "get_layer p hw")
  case None
  then show ?thesis using assms by (simp add: add_profile_layer_def layer_action_def)
next
  case (Some layer)
  then have dist: "distinct (map fst (layer_mappings layer))" using assms(1) by (simp add: layers_distinct_def)
  show ?thesis
    using assms(2) layer_fold [OF dist, of "profile_name p"] Some
    by (auto simp: add_profile_layer_def layer_action_def device_decides_def split: option.splits)
qed

lemma layers_decide:
  assumes "\<forall>p\<in>set active. layers_distinct p"
  shows "device_decides b (deciding_profile hw b active) (fold (add_profile_layer hw) active (new_device hw))"
  using assms
proof (induction active rule: rev_induct)
  case Nil
  then show ?case by (simp add: device_decides_def new_device_def)
next
  case (snoc p ps)
  then show ?case using add_layer_decides [of p b "deciding_profile hw b ps"] by (simp add: deciding_append)
qed

section \<open>The devices of a result\<close>

text \<open>What marking the members of groups and the inputs of combos leaves alone.\<close>

definition same_mappings :: "('c, 'x) ResolvedDevice \<Rightarrow> ('c, 'x) ResolvedDevice \<Rightarrow> bool" where
  "same_mappings d d' \<longleftrightarrow> dev_mappings d' = dev_mappings d \<and> mapping_profile_names d' = mapping_profile_names d
    \<and> always_grab_all d' = always_grab_all d \<and> rollover_buttons d \<subseteq> rollover_buttons d'
    \<and> combo_event_count d \<le> combo_event_count d' \<and> combo_sources d \<subseteq> combo_sources d'
    \<and> set (active_profile_names d) \<subseteq> set (active_profile_names d')"

definition device_at :: "(string \<times> ('c, 'x) ResolvedDevice) list \<Rightarrow> string \<Rightarrow> ('c, 'x) ResolvedDevice" where
  "device_at devs hw = (case map_of devs hw of None \<Rightarrow> new_device hw | Some d \<Rightarrow> d)"

definition devices_extend ::
  "(string \<times> ('c, 'x) ResolvedDevice) list \<Rightarrow> (string \<times> ('c, 'x) ResolvedDevice) list \<Rightarrow> bool"
where
  "devices_extend devs devs' \<longleftrightarrow>
    (\<forall>hw. (map_of devs hw \<noteq> None \<longrightarrow> map_of devs' hw \<noteq> None) \<and> same_mappings (device_at devs hw) (device_at devs' hw))"

lemma same_refl [simp]: "same_mappings d d"
  by (simp add: same_mappings_def)

lemma same_trans: "same_mappings a b \<Longrightarrow> same_mappings b c \<Longrightarrow> same_mappings a c"
  by (auto simp: same_mappings_def)

lemma extend_refl [simp]: "devices_extend devs devs"
  by (simp add: devices_extend_def)

lemma extend_trans: "devices_extend a b \<Longrightarrow> devices_extend b c \<Longrightarrow> devices_extend a c"
  unfolding devices_extend_def using same_trans by blast

lemma extend_update:
  assumes "same_mappings (device_at devs hw) d"
  shows "devices_extend devs (AList.update hw d devs)"
  using assms by (simp add: devices_extend_def device_at_def)

lemma extend_Some:
  assumes "devices_extend devs devs'" "map_of devs hw = Some d"
  shows "\<exists>d'. map_of devs' hw = Some d' \<and> same_mappings d d'"
proof -
  obtain d' where "map_of devs' hw = Some d'" using assms by (auto simp: devices_extend_def)
  moreover have "same_mappings (device_at devs hw) (device_at devs' hw)" using assms(1) by (simp add: devices_extend_def)
  ultimately show ?thesis using assms(2) by (simp add: device_at_def)
qed

lemma mark_rollover_ok:
  assumes "\<forall>m\<in>set ms. map_of devs (hardware_id m) \<noteq> None"
  shows "\<exists>devs'. mark_rollover devs ms = Inr devs' \<and> devices_extend devs devs'
    \<and> (\<forall>m\<in>set ms. \<exists>d. map_of devs' (hardware_id m) = Some d \<and> button m \<in> rollover_buttons d)"
  using assms
proof (induction ms arbitrary: devs)
  case (Cons m ms)
  obtain d where d: "map_of devs (hardware_id m) = Some d" using Cons.prems by auto
  let ?d = "d\<lparr>rollover_buttons := insert (button m) (rollover_buttons d)\<rparr>"
  let ?devs = "AList.update (hardware_id m) ?d devs"
  have step: "devices_extend devs ?devs"
    by (rule extend_update) (auto simp: same_mappings_def device_at_def d)
  have "\<forall>m'\<in>set ms. map_of ?devs (hardware_id m') \<noteq> None" using Cons.prems by simp
  from Cons.IH [OF this] obtain devs' where devs': "mark_rollover ?devs ms = Inr devs'" "devices_extend ?devs devs'"
      "\<forall>m\<in>set ms. \<exists>d. map_of devs' (hardware_id m) = Some d \<and> button m \<in> rollover_buttons d" by blast
  have "map_of ?devs (hardware_id m) = Some ?d" by simp
  from extend_Some [OF devs'(2) this] obtain d' where "map_of devs' (hardware_id m) = Some d'" "same_mappings ?d d'" by blast
  then have "\<exists>d. map_of devs' (hardware_id m) = Some d \<and> button m \<in> rollover_buttons d"
    by (auto simp: same_mappings_def)
  with devs' extend_trans [OF step devs'(2)] show ?case by (simp add: d)
qed simp

lemma mark_event_update:
  assumes "hw \<noteq> []"
  obtains d where "mark_event p (hw, source, ev) devs = AList.update hw d devs" "same_mappings (device_at devs hw) d"
    "0 < combo_event_count d" "source \<noteq> [] \<Longrightarrow> source \<in> combo_sources d"
proof -
  let ?d = "device_at devs hw"
  let ?d' = "?d\<lparr>active_profile_names := (if profile_name p \<in> set (active_profile_names ?d) then active_profile_names ?d
        else active_profile_names ?d @ [profile_name p]),
      combo_event_count := combo_event_count ?d + 1,
      notify_profiles := (if notify_on_activation p \<and> profile_name p \<notin> set (notify_profiles ?d)
        then notify_profiles ?d @ [profile_name p] else notify_profiles ?d),
      combo_sources := (if source \<noteq> [] then insert source (combo_sources ?d) else combo_sources ?d)\<rparr>"
  have "mark_event p (hw, source, ev) devs = AList.update hw ?d' devs"
    using assms by (simp add: mark_event_def device_at_def [symmetric] Let_def)
  then show ?thesis by (rule that) (auto simp: same_mappings_def)
qed

definition marked :: "(string \<times> ('c, 'x) ResolvedDevice) list \<Rightarrow> string \<times> string \<times> string \<Rightarrow> bool" where
  "marked devs event \<longleftrightarrow> (case event of (hw, source, ev) \<Rightarrow> hw \<noteq> [] \<longrightarrow>
    (\<exists>d. map_of devs hw = Some d \<and> 0 < combo_event_count d \<and> (source \<noteq> [] \<longrightarrow> source \<in> combo_sources d)))"

lemma marked_extend: "marked devs event \<Longrightarrow> devices_extend devs devs' \<Longrightarrow> marked devs' event"
  unfolding marked_def using extend_Some by (fastforce simp: same_mappings_def)

lemma mark_event_ok: "devices_extend devs (mark_event p event devs) \<and> marked (mark_event p event devs) event"
proof -
  obtain hw source ev where e: "event = (hw, source, ev)" by (cases event) auto
  show ?thesis
  proof (cases "hw = []")
    case True
    then show ?thesis by (simp add: e mark_event_def marked_def)
  next
    case False
    obtain d where "mark_event p event devs = AList.update hw d devs" "same_mappings (device_at devs hw) d"
      "0 < combo_event_count d" "source \<noteq> [] \<Longrightarrow> source \<in> combo_sources d"
      using mark_event_update [OF False] unfolding e by blast
    then show ?thesis using extend_update by (auto simp: e marked_def)
  qed
qed

lemma mark_events_ok:
  "devices_extend devs (fold (mark_event p) events devs) \<and> (\<forall>e\<in>set events. marked (fold (mark_event p) events devs) e)"
proof (induction events rule: rev_induct)
  case (snoc e es)
  then show ?case
    using mark_event_ok [of "fold (mark_event p) es devs" p e] extend_trans marked_extend by fastforce
qed simp

section \<open>Combos\<close>

text \<open>The combos that count, with the signature each is known by, and the last one of each signature.\<close>

definition combo_entry ::
  "('c, 'x) ProfileConfig \<times> ('c, 'x) ComboConfig \<Rightarrow> (ComboSignature \<times> ('c, 'x) ResolvedCombo) option"
where
  "combo_entry pc =
    (case combo_action (snd pc) of
       None \<Rightarrow> None
     | Some action \<Rightarrow>
         if combo_steps (snd pc) = [] then None
         else map_option (\<lambda>(sig, steps). (sig, resolved_combo (fst pc) (snd pc) action steps))
                (normalize_combo_steps (snd pc)))"

fun keep_last :: "('k \<times> 'v) list \<Rightarrow> ('k \<times> 'v) list" where
  "keep_last [] = []"
| "keep_last ((k, v) # xs) = (if k \<in> fst ` set xs then keep_last xs else (k, v) # keep_last xs)"

lemma keep_last_keys: "fst ` set (keep_last xs) = fst ` set xs"
  by (induction xs rule: keep_last.induct) auto

lemma keep_last_distinct: "distinct (map fst (keep_last xs))"
  by (induction xs rule: keep_last.induct) (simp_all add: keep_last_keys)

lemma keep_last_append: "keep_last (xs @ [(k, v)]) = AList.delete k (keep_last xs) @ [(k, v)]"
  by (induction xs rule: keep_last.induct) (auto simp: AList.delete_eq)

lemma keep_last_subset: "set (keep_last xs) \<subseteq> set xs"
  by (induction xs rule: keep_last.induct) auto

lemma add_combo_entry:
  "add_combo pc (by_signature, devs) =
    (case combo_entry pc of
       None \<Rightarrow> (by_signature, devs)
     | Some (sig, rc) \<Rightarrow> (AList.delete sig by_signature @ [(sig, rc)], mark_combo_devices (fst pc) sig devs))"
  by (auto simp: add_combo_def combo_entry_def split: option.split prod.split)

lemma add_combos_ok:
  "\<exists>devs'. fold add_combo pcs ([], devs) = (keep_last (List.map_filter combo_entry pcs), devs')
    \<and> devices_extend devs devs'
    \<and> (\<forall>(sig, rc) \<in> set (List.map_filter combo_entry pcs). \<forall>e\<in>set (concat sig). marked devs' e)"
proof (induction pcs rule: rev_induct)
  case Nil
  then show ?case by (simp add: List.map_filter_simps)
next
  case (snoc pc pcs)
  then obtain devs1 where devs1: "fold add_combo pcs ([], devs) = (keep_last (List.map_filter combo_entry pcs), devs1)"
      "devices_extend devs devs1" "\<forall>(sig, rc) \<in> set (List.map_filter combo_entry pcs). \<forall>e\<in>set (concat sig). marked devs1 e"
    by blast
  have app: "List.map_filter combo_entry (pcs @ [pc]) = List.map_filter combo_entry pcs @ List.map_filter combo_entry [pc]"
    by (simp add: List.map_filter_def)
  show ?case
  proof (cases "combo_entry pc")
    case None
    then show ?thesis using devs1 by (simp add: app add_combo_entry List.map_filter_simps)
  next
    case (Some entry)
    obtain sig rc where e: "entry = (sig, rc)" by (cases entry)
    let ?devs = "mark_combo_devices (fst pc) sig devs1"
    have "devices_extend devs1 ?devs \<and> (\<forall>e\<in>set (concat sig). marked ?devs e)"
      unfolding mark_combo_devices_def by (rule mark_events_ok)
    moreover have "devices_extend devs ?devs" using calculation devs1(2) extend_trans by blast
    moreover have "\<forall>(sig, rc) \<in> set (List.map_filter combo_entry pcs). \<forall>e\<in>set (concat sig). marked ?devs e"
      using calculation(1) devs1(3) marked_extend by (fast elim: marked_extend)
    ultimately show ?thesis
      using devs1(1) Some by (simp add: app add_combo_entry List.map_filter_simps e keep_last_append)
  qed
qed

lemma step_signatures:
  "normalize_steps across ss = Some (sig, steps) \<Longrightarrow> sig = map step_signature_of steps"
  by (induction across ss arbitrary: sig steps rule: normalize_steps.induct)
     (auto simp: Let_def split: if_splits option.splits)

lemma entry_signature: "combo_entry pc = Some (sig, rc) \<Longrightarrow> sig = map step_signature_of (rc_steps rc)"
  by (auto simp: combo_entry_def normalize_combo_steps_def resolved_combo_def step_signatures split: option.splits if_splits)

section \<open>The result\<close>

lemma resolve_devices_known: "map_of (resolve_devices active known) hw = Some d
    \<Longrightarrow> d = fold (add_profile_layer hw) active (new_device hw)"
  by (auto simp: resolve_devices_def dest: map_of_SomeD)

lemma resolve_devices_domain: "finite known \<Longrightarrow> map_of (resolve_devices active known) hw = None \<longleftrightarrow> hw \<notin> known"
  by (force simp: resolve_devices_def map_of_eq_None_iff)

lemma known_finite: "finite (known_devices ruled active groups hardware_ids)"
  by (simp add: known_devices_def)

definition combo_entries :: "('c, 'x) ProfileConfig list \<Rightarrow> (ComboSignature \<times> ('c, 'x) ResolvedCombo) list" where
  "combo_entries active = List.map_filter combo_entry [(p, combo). p \<leftarrow> active, combo \<leftarrow> combos p]"

lemma entries_signature: "(sig, rc) \<in> set (combo_entries active) \<Longrightarrow> sig = map step_signature_of (rc_steps rc)"
  unfolding combo_entries_def in_map_filter using entry_signature by blast

text \<open>A result, with the devices that were known before the marks.\<close>

definition resolution_ok :: "string set \<Rightarrow> ('c, 'x) ResolvedProfiles \<Rightarrow> bool" where
  "resolution_ok known r \<longleftrightarrow> finite known \<and> (\<forall>p\<in>set (active_profiles r). fst ` set (device_layers p) \<subseteq> known)
    \<and> devices_extend (resolve_devices (active_profiles r) known) (devices r)
    \<and> resolved_groups r = layer_rollover_groups (concat (map rollover_groups (active_profiles r)))
    \<and> (\<forall>g\<in>set (resolved_groups r). \<forall>m\<in>set (members g).
        \<exists>d. map_of (devices r) (hardware_id m) = Some d \<and> button m \<in> rollover_buttons d)
    \<and> resolved_combos r = map snd (keep_last (combo_entries (active_profiles r)))
    \<and> (\<forall>(sig, rc) \<in> set (combo_entries (active_profiles r)). \<forall>e\<in>set (concat sig). marked (devices r) e)"

lemma resolution_okD:
  assumes "resolution_ok known r"
  shows "finite known" "p \<in> set (active_profiles r) \<Longrightarrow> fst ` set (device_layers p) \<subseteq> known"
    "devices_extend (resolve_devices (active_profiles r) known) (devices r)"
    "resolved_combos r = map snd (keep_last (combo_entries (active_profiles r)))"
  using assms unfolding resolution_ok_def by blast+

lemma resolve_ok:
  "\<exists>r known. resolve casefold repr regex profiles window_info capabilities hardware_ids runtime_names = Inr r
    \<and> active_profiles r = resolve_active casefold repr regex profiles window_info capabilities runtime_names
    \<and> resolution_ok known r"
proof -
  define active where "active = resolve_active casefold repr regex profiles window_info capabilities runtime_names"
  define groups where "groups = layer_rollover_groups (concat (map rollover_groups active))"
  define known where "known = known_devices (filter (rule_active repr regex capabilities window_info) (map snd profiles))
      active groups hardware_ids"
  have fin: "finite known" unfolding known_def by (rule known_finite)
  have "\<forall>m\<in>set (concat (map members groups)). map_of (resolve_devices active known) (hardware_id m) \<noteq> None"
  proof
    fix m assume "m \<in> set (concat (map members groups))"
    then have "hardware_id m \<in> known" unfolding known_def known_devices_def by blast
    then show "map_of (resolve_devices active known) (hardware_id m) \<noteq> None" using resolve_devices_domain [OF fin] by blast
  qed
  from mark_rollover_ok [OF this] obtain devs1 where devs1:
      "mark_rollover (resolve_devices active known) (concat (map members groups)) = Inr devs1"
      "devices_extend (resolve_devices active known) devs1"
      "\<forall>m\<in>set (concat (map members groups)). \<exists>d. map_of devs1 (hardware_id m) = Some d \<and> button m \<in> rollover_buttons d"
    by blast
  obtain devs where devs: "resolve_combos active devs1 = (keep_last (combo_entries active), devs)" "devices_extend devs1 devs"
      "\<forall>(sig, rc) \<in> set (combo_entries active). \<forall>e\<in>set (concat sig). marked devs e"
    using add_combos_ok unfolding resolve_combos_def combo_entries_def by blast
  have groups_ok: "\<forall>g\<in>set groups. \<forall>m\<in>set (members g). \<exists>d. map_of devs (hardware_id m) = Some d \<and> button m \<in> rollover_buttons d"
  proof (intro ballI)
    fix g m assume "g \<in> set groups" "m \<in> set (members g)"
    then have "m \<in> set (concat (map members groups))" by auto
    then show "\<exists>d. map_of devs (hardware_id m) = Some d \<and> button m \<in> rollover_buttons d"
      using devs1(3) extend_Some [OF devs(2)] unfolding same_mappings_def by blast
  qed
  let ?r = "\<lparr>active_profiles = active, devices = devs, resolved_combos = map snd (keep_last (combo_entries active)),
      resolved_groups = groups\<rparr>"
  have "resolve casefold repr regex profiles window_info capabilities hardware_ids runtime_names = Inr ?r"
    using devs1(1) devs(1) by (simp add: resolve_def Let_def active_def groups_def known_def)
  moreover have "fst ` set (device_layers p) \<subseteq> known" if "p \<in> set active" for p
    using that by (auto simp: known_def known_devices_def)
  then have "resolution_ok known ?r"
    using fin extend_trans [OF devs1(2) devs(2)] groups_ok devs(3) by (simp add: resolution_ok_def groups_def)
  moreover have "active_profiles ?r = resolve_active casefold repr regex profiles window_info capabilities runtime_names"
    by (simp add: active_def)
  ultimately show ?thesis by blast
qed

text \<open>A layer's device is known, with the name of the profile and its wish to grab the whole device.\<close>

lemma resolve_result:
  assumes "resolve casefold repr regex profiles window_info capabilities hardware_ids runtime_names = Inr r"
  obtains known where "resolution_ok known r"
proof -
  obtain r' known where "resolve casefold repr regex profiles window_info capabilities hardware_ids runtime_names = Inr r'"
      "resolution_ok known r'"
    using resolve_ok by blast
  with assms that show ?thesis by simp
qed

lemma result_layer:
  assumes ok: "resolution_ok known r" and p: "p \<in> set (active_profiles r)" "get_layer p hw \<noteq> None"
  obtains d0 d where "map_of (resolve_devices (active_profiles r) known) hw = Some d0" "map_of (devices r) hw = Some d"
    "same_mappings d0 d"
proof -
  obtain layer where "(hw, layer) \<in> set (device_layers p)" using p(2) unfolding get_layer_def by (auto dest: map_of_SomeD)
  then have "hw \<in> known" using resolution_okD(2) [OF ok p(1)] by force
  then obtain d0 where d0: "map_of (resolve_devices (active_profiles r) known) hw = Some d0"
    using resolve_devices_domain [OF resolution_okD(1) [OF ok]] by blast
  then show ?thesis using extend_Some [OF resolution_okD(3) [OF ok] d0] that by blast
qed

lemma layers_applied:
  assumes "p \<in> set active" "get_layer p hw = Some layer"
  defines "d \<equiv> fold (add_profile_layer hw) active (new_device hw)"
  shows "profile_name p \<in> set (active_profile_names d)" "layer_grab_all layer \<Longrightarrow> always_grab_all d"
proof -
  have keep: "set (active_profile_names d) \<subseteq> set (active_profile_names (add_profile_layer hw q d))
      \<and> (always_grab_all d \<longrightarrow> always_grab_all (add_profile_layer hw q d))" for q and d :: "('a, 'b) ResolvedDevice"
    by (auto simp: add_profile_layer_def layer_mapping_fields split: option.split)
  have new: "profile_name p \<in> set (active_profile_names (add_profile_layer hw p d))
      \<and> (layer_grab_all layer \<longrightarrow> always_grab_all (add_profile_layer hw p d))" for d :: "('a, 'b) ResolvedDevice"
    using assms(2) by (simp add: add_profile_layer_def layer_mapping_fields)
  have "profile_name p \<in> set (active_profile_names d) \<and> (layer_grab_all layer \<longrightarrow> always_grab_all d)"
    using assms(1) unfolding d_def
  proof (induction active rule: rev_induct)
    case (snoc q qs)
    show ?case
    proof (cases "p = q")
      case True
      then show ?thesis using new by simp
    next
      case False
      then have "p \<in> set qs" using snoc.prems by simp
      then show ?thesis using snoc.IH keep [of "fold (add_profile_layer hw) qs (new_device hw)" q] by auto
    qed
  qed simp
  then show "profile_name p \<in> set (active_profile_names d)" "layer_grab_all layer \<Longrightarrow> always_grab_all d" by blast+
qed

lemma new_device_decides: "device_decides b None (new_device hw)"
  by (simp add: device_decides_def new_device_def)

lemma deciding_None: "deciding_profile hw b ps = None \<longleftrightarrow> (\<forall>p\<in>set ps. layer_action p hw b = None)"
  by (induction ps) (auto split: option.splits)

lemma same_decides: "same_mappings d d' \<Longrightarrow> device_decides b who d \<Longrightarrow> device_decides b who d'"
  by (simp add: device_decides_def same_mappings_def)

section \<open>An example\<close>

definition demo_key :: "ActionType \<Rightarrow> string \<Rightarrow> (nat, unit) MappingAction" where
  "demo_key t k = demo_action\<lparr>action_type := t, target := Some k, source_profile_name := None\<rparr>"

definition demo_combo_config :: "string \<Rightarrow> string list \<Rightarrow> (nat, unit) ComboConfig" where
  "demo_combo_config n evs = \<lparr>combo_id = n, combo_name = n,
     combo_steps = [\<lparr>step_events = map (\<lambda>e. \<lparr>evdev = e, event_hardware = ''kb'', event_source = Some ''event1''\<rparr>) evs,
       step_timeout_ms = None\<rparr>],
     combo_action = Some (demo_key KEYBOARD ''key_z''), recall_trigger_keys = False, restore_trigger_keys = [],
     match_across_devices = False\<rparr>"

definition base_profile :: "(nat, unit) ProfileConfig" where
  "base_profile = \<lparr>profile_name = ''Base'', enabled = True, is_permanent = True, priority = 5, notify_on_activation = False,
     window_rules = [], device_layers = [(''kb'', \<lparr>layer_hardware_id = ''kb'', layer_grab_all = False,
       layer_mappings = [(''a'', demo_key KEYBOARD ''key_x''), (''b'', demo_key MOUSE ''btn_left'')]\<rparr>)],
     combos = [demo_combo_config ''one'' [''KEY_LEFTCTRL'', ''key_k''], demo_combo_config ''two'' [''key_j'']],
     rollover_groups = [], created_at = None\<rparr>"

definition game_profile :: "(nat, unit) ProfileConfig" where
  "game_profile = \<lparr>profile_name = ''Game'', enabled = True, is_permanent = False, priority = 1, notify_on_activation = True,
     window_rules = [\<lparr>rule_field = '' Class'', pattern = ''game''\<rparr>],
     device_layers = [(''kb'', \<lparr>layer_hardware_id = ''kb'', layer_grab_all = False,
       layer_mappings = [(''a'', demo_key PASSTHROUGH []), (''c'', demo_key KEYBOARD ''key_y'')]\<rparr>)],
     combos = [demo_combo_config ''three'' [''key_k'', ''key_rightctrl'']],
     rollover_groups = [\<lparr>name = ''G'', members = [\<lparr>hardware_id = ''kb'', button = ''d''\<rparr>, \<lparr>hardware_id = ''pad'', button = ''x''\<rparr>],
       winner = NEWEST, restore = True\<rparr>], created_at = Some 7\<rparr>"

definition demo_regex :: "string \<Rightarrow> (string \<Rightarrow> bool) option" where
  "demo_regex p = (if p = ''['' then None else Some (\<lambda>s. take (length p) s = p))"

definition demo_window :: "string \<Rightarrow> window" where
  "demo_window title = normalize_window_info ''game.exe'' title [] []"

abbreviation demo_profiles :: "(string \<times> (nat, unit) ProfileConfig) list" where
  "demo_profiles \<equiv> [(''Game'', game_profile), (''Base'', base_profile)]"

abbreviation demo_resolve :: "window option \<Rightarrow> string list \<Rightarrow> string + (nat, unit) ResolvedProfiles" where
  "demo_resolve w runtime_names \<equiv> resolve py_lower (\<lambda>_. []) demo_regex demo_profiles w [] [] runtime_names"

lemma demo_active: "resolve_active py_lower (\<lambda>_. []) demo_regex demo_profiles (Some (demo_window t)) [] [] = [base_profile, game_profile]"
proof -
  have "rule_active (\<lambda>_. []) demo_regex [] (Some (demo_window t)) base_profile"
    by (simp add: rule_active_def base_profile_def has_unsupported_rules_def)
  moreover have "rule_active (\<lambda>_. []) demo_regex [] (Some (demo_window t)) game_profile"
  proof -
    have "normalize_window_rule_field '' Class'' = ''class''" "window_rule_field_supported '' Class'' []" by code_simp+
    then show ?thesis
      by (simp add: rule_active_def game_profile_def has_unsupported_rules_def matches_window_rules_def demo_window_def
          normalize_window_info_def rule_matches_def json_get_default_def demo_regex_def)
  qed
  moreover have "sort_key (profile_rank py_lower) [game_profile, base_profile] = [base_profile, game_profile]" by code_simp
  ultimately show ?thesis by (simp add: resolve_active_def clean_runtime_names_def)
qed

lemma demo_result:
  obtains r where "demo_resolve (Some (demo_window t)) [] = Inr r" "active_profiles r = [base_profile, game_profile]"
  using resolve_ok [of py_lower "\<lambda>_. []" demo_regex demo_profiles "Some (demo_window t)" "[]" "[]" "[]"] demo_active by auto

section \<open>Properties\<close>

text \<open>The active profiles are the profiles switched on at run time, in the order of their first
  mention and last in the list, and before them every other profile that its rules make active, sorted by
  rank: permanent ones first, then by priority, creation time and name.  A name of a switched profile
  appears at no other profile.\<close>

theorem active_profile_order:
  "\<exists>ruled switched. resolve_active casefold repr regex profiles window_info capabilities runtime_names = ruled @ switched
    \<and> switched = List.map_filter (map_of profiles) (unique_first (clean_runtime_names runtime_names))
    \<and> sorted (map (profile_rank casefold) ruled)
    \<and> set ruled = {p \<in> snd ` set profiles. rule_active repr regex capabilities window_info p
        \<and> profile_name p \<notin> profile_name ` set switched}"
  unfolding resolve_active_split switched_profiles_def [symmetric]
  by (intro exI conjI, rule refl, rule refl) (auto simp: sorted_filter)

lemma layer_action_layer: "layer_action p hw b = Some a \<Longrightarrow> get_layer p hw \<noteq> None"
  by (cases "get_layer p hw") (simp_all add: layer_action_def)

lemma deciding_Some: "deciding_profile hw b ps = Some (p, a) \<Longrightarrow> p \<in> set ps \<and> layer_action p hw b = Some a"
  by (induction ps) (auto split: option.splits)

lemma resolved_decides:
  assumes "resolve casefold repr regex profiles window_info capabilities hardware_ids runtime_names = Inr r"
    and "map_of (devices r) hw = Some d" and "\<forall>p\<in>set (active_profiles r). layers_distinct p"
  shows "device_decides b (deciding_profile hw b (active_profiles r)) d"
proof -
  obtain known where ok: "resolution_ok known r" by (rule resolve_result [OF assms(1)])
  let ?start = "device_at (resolve_devices (active_profiles r) known) hw"
  have "device_decides b (deciding_profile hw b (active_profiles r)) ?start"
  proof (cases "map_of (resolve_devices (active_profiles r) known) hw")
    case None
    then have "hw \<notin> known" using resolve_devices_domain ok by (auto simp: resolution_ok_def)
    then have "get_layer p hw = None" if "p \<in> set (active_profiles r)" for p
      using ok that unfolding resolution_ok_def get_layer_def map_of_eq_None_iff by blast
    then have "\<forall>p\<in>set (active_profiles r). layer_action p hw b = None" by (simp add: layer_action_def)
    then have "deciding_profile hw b (active_profiles r) = None" by (simp add: deciding_None)
    with None show ?thesis by (simp add: device_at_def new_device_decides)
  next
    case (Some d0)
    then show ?thesis using resolve_devices_known [OF Some] layers_decide [OF assms(3)] by (simp add: device_at_def)
  qed
  moreover have "same_mappings ?start d"
  proof -
    have "same_mappings ?start (device_at (devices r) hw)" using ok unfolding resolution_ok_def devices_extend_def by blast
    then show ?thesis using assms(2) by (simp add: device_at_def)
  qed
  ultimately show ?thesis by (rule same_decides [rotated])
qed

text \<open>C8. A mapping of a resolved device is the one of the last active profile that mentions the button
  in its layer for the device, marked with the profile's name; when that profile passes the button through,
  or no profile mentions it, the button has no mapping, and the recorded profile names agree.\<close>

theorem mapping_decided_by_last:
  assumes "resolve casefold repr regex profiles window_info capabilities hardware_ids runtime_names = Inr r"
    and "map_of (devices r) hw = Some d" and "\<forall>p\<in>set (active_profiles r). layers_distinct p"
  shows "device_decides b (deciding_profile hw b (active_profiles r)) d"
  using assms by (rule resolved_decides)

theorem mapping_decided_by_last_witness:
  "\<exists>r d. demo_resolve (Some (demo_window [])) [] = Inr r \<and> map_of (devices r) ''kb'' = Some d
    \<and> map_of (dev_mappings d) ''a'' = None \<and> map_of (mapping_profile_names d) ''b'' = Some ''Base''"
proof -
  obtain r where r: "demo_resolve (Some (demo_window [])) [] = Inr r" "active_profiles r = [base_profile, game_profile]"
    by (rule demo_result)
  obtain known where ok: "resolution_ok known r" by (rule resolve_result [OF r(1)])
  have "get_layer base_profile ''kb'' \<noteq> None" by (simp add: get_layer_def base_profile_def)
  then obtain d where d: "map_of (devices r) ''kb'' = Some d"
    using result_layer [OF ok, of base_profile "''kb''"] r(2) by auto
  have "\<forall>p\<in>set (active_profiles r). layers_distinct p"
    by (simp add: r(2) layers_distinct_def get_layer_def base_profile_def game_profile_def)
  note decides = mapping_decided_by_last [OF r(1) d this]
  from decides [of "''a''"] decides [of "''b''"] have "map_of (dev_mappings d) ''a'' = None" "map_of (mapping_profile_names d) ''b'' = Some ''Base''"
    by (simp_all add: r(2) device_decides_def layer_action_def get_layer_def decided_def base_profile_def game_profile_def
        demo_key_def)
  with r(1) d show ?thesis by blast
qed

text \<open>C17. The resolver always returns: no device of a rollover group is missing when its button is
  marked.  Every input in use is on a device of the result that has to be grabbed: the members of the
  rollover groups, the inputs of every resolved combo that names a device (with their source), and every
  button that the last active profile to mention it maps to an action; and so is a device that the layer of
  an active profile wants to grab as a whole.  The layer of an active profile that passes its buttons
  through only puts its device into the result, with the name of the profile.\<close>

theorem resolve_grabs_every_input:
  "\<exists>r. resolve casefold repr regex profiles window_info capabilities hardware_ids runtime_names = Inr r
    \<and> (\<forall>g\<in>set (resolved_groups r). \<forall>m\<in>set (members g). \<exists>d. map_of (devices r) (hardware_id m) = Some d
        \<and> button m \<in> rollover_buttons d \<and> has_effective_mapping d)
    \<and> (\<forall>rc\<in>set (resolved_combos r). \<forall>s\<in>set (rc_steps rc). \<forall>hw source ev. (hw, source, ev) \<in> set (step_signature_of s) \<and> hw \<noteq> [] \<longrightarrow>
        (\<exists>d. map_of (devices r) hw = Some d \<and> has_effective_mapping d \<and> (source \<noteq> [] \<longrightarrow> source \<in> combo_sources d)))
    \<and> (\<forall>p\<in>set (active_profiles r). \<forall>hw layer. get_layer p hw = Some layer \<longrightarrow>
        (\<exists>d. map_of (devices r) hw = Some d \<and> profile_name p \<in> set (active_profile_names d)
          \<and> (layer_grab_all layer \<longrightarrow> has_effective_mapping d)))
    \<and> ((\<forall>p\<in>set (active_profiles r). layers_distinct p) \<longrightarrow>
        (\<forall>hw b p a. deciding_profile hw b (active_profiles r) = Some (p, a) \<and> action_type a \<noteq> PASSTHROUGH \<longrightarrow>
          (\<exists>d. map_of (devices r) hw = Some d \<and> b \<in> fst ` set (dev_mappings d) \<and> has_effective_mapping d)))"
proof -
  obtain r known where r: "resolve casefold repr regex profiles window_info capabilities hardware_ids runtime_names = Inr r"
      and ok: "resolution_ok known r"
    using resolve_ok by blast
  have "\<exists>d. map_of (devices r) hw = Some d \<and> has_effective_mapping d \<and> (source \<noteq> [] \<longrightarrow> source \<in> combo_sources d)"
    if "rc \<in> set (resolved_combos r)" "s \<in> set (rc_steps rc)" "(hw, source, ev) \<in> set (step_signature_of s)" "hw \<noteq> []"
    for rc s hw source ev
  proof -
    let ?es = "combo_entries (active_profiles r)"
    have "rc \<in> snd ` set (keep_last ?es)" using that(1) ok by (simp add: resolution_ok_def)
    then obtain sig where "(sig, rc) \<in> set (keep_last ?es)" by auto
    then have sig: "(sig, rc) \<in> set ?es" by (rule subsetD [OF keep_last_subset])
    have "(hw, source, ev) \<in> set (concat sig)" using entries_signature [OF sig] that(2,3) by auto
    moreover have "\<forall>e\<in>set (concat sig). marked (devices r) e" using ok sig unfolding resolution_ok_def by blast
    ultimately have "marked (devices r) (hw, source, ev)" by blast
    then show ?thesis using that(4) by (auto simp: marked_def has_effective_mapping_def)
  qed
  moreover have "\<exists>d. map_of (devices r) hw = Some d \<and> profile_name p \<in> set (active_profile_names d)
      \<and> (layer_grab_all layer \<longrightarrow> has_effective_mapping d)"
    if p: "p \<in> set (active_profiles r)" "get_layer p hw = Some layer" for p hw layer
  proof -
    obtain d0 d where d0: "map_of (resolve_devices (active_profiles r) known) hw = Some d0" "map_of (devices r) hw = Some d"
        "same_mappings d0 d"
      using result_layer [OF ok p(1)] p(2) by blast
    then show ?thesis using layers_applied [OF p] resolve_devices_known [OF d0(1)]
      by (auto simp: same_mappings_def has_effective_mapping_def)
  qed
  moreover have "\<exists>d. map_of (devices r) (hardware_id m) = Some d \<and> button m \<in> rollover_buttons d \<and> has_effective_mapping d"
    if "g \<in> set (resolved_groups r)" "m \<in> set (members g)" for g m
    using ok that unfolding resolution_ok_def has_effective_mapping_def by blast
  moreover have "\<exists>d. map_of (devices r) hw = Some d \<and> b \<in> fst ` set (dev_mappings d) \<and> has_effective_mapping d"
    if distinct: "\<forall>p\<in>set (active_profiles r). layers_distinct p"
      and who: "deciding_profile hw b (active_profiles r) = Some (p, a)" and "action_type a \<noteq> PASSTHROUGH" for hw b p a
  proof -
    have "p \<in> set (active_profiles r)" "get_layer p hw \<noteq> None" using deciding_Some [OF who] layer_action_layer by blast+
    then obtain d where d: "map_of (devices r) hw = Some d" using result_layer [OF ok] by blast
    have "map_of (dev_mappings d) b \<noteq> None"
      using resolved_decides [OF r d distinct, of b] who that(3) by (simp add: device_decides_def decided_def)
    then have "b \<in> fst ` set (dev_mappings d)" by (simp add: map_of_eq_None_iff)
    with d show ?thesis by (auto simp: has_effective_mapping_def)
  qed
  ultimately show ?thesis using r by (intro exI [of _ r] conjI; blast)
qed

theorem resolve_grabs_every_input_witness:
  "\<exists>r d. demo_resolve (Some (demo_window [])) [] = Inr r \<and> map_of (devices r) ''pad'' = Some d \<and> has_effective_mapping d"
proof -
  obtain r where r: "demo_resolve (Some (demo_window [])) [] = Inr r" "active_profiles r = [base_profile, game_profile]"
    by (rule demo_result)
  obtain known where ok: "resolution_ok known r" by (rule resolve_result [OF r(1)])
  have "resolved_groups r = rollover_groups game_profile"
    using ok by (simp add: resolution_ok_def r(2) base_profile_def game_profile_def layer_rollover_groups_def add_layer_def
        ROLLOVER_MIN_MEMBERS_def)
  then obtain g where "g \<in> set (resolved_groups r)" "\<lparr>hardware_id = ''pad'', button = ''x''\<rparr> \<in> set (members g)"
    by (simp add: game_profile_def)
  then have "\<exists>d. map_of (devices r) ''pad'' = Some d \<and> has_effective_mapping d"
    using resolve_grabs_every_input [of py_lower "\<lambda>_. []" demo_regex demo_profiles "Some (demo_window [])" "[]" "[]" "[]"] r(1)
    by (metis (no_types, lifting) RolloverMember.select_convs(1) sum.inject(2))
  with r(1) show ?thesis by blast
qed

text \<open>C33. Of the combos of the active profiles that have an action and can be matched, exactly one per
  signature is resolved, the last one in profile order: the resolved combos are the entries of the active
  profiles without those that a later entry of the same signature replaces, in order.\<close>

theorem combos_last_wins:
  assumes "resolve casefold repr regex profiles window_info capabilities hardware_ids runtime_names = Inr r"
  shows "resolved_combos r = map snd (keep_last (combo_entries (active_profiles r)))
    \<and> distinct (map (\<lambda>rc. map step_signature_of (rc_steps rc)) (resolved_combos r))
    \<and> (\<lambda>rc. map step_signature_of (rc_steps rc)) ` set (resolved_combos r) = fst ` set (combo_entries (active_profiles r))"
proof -
  let ?es = "combo_entries (active_profiles r)"
  obtain known where ok: "resolution_ok known r" by (rule resolve_result [OF assms(1)])
  have sig: "map step_signature_of (rc_steps (snd e)) = fst e" if "e \<in> set (keep_last ?es)" for e
  proof -
    have "(fst e, snd e) \<in> set ?es" using subsetD [OF keep_last_subset that] by simp
    from entries_signature [OF this] show ?thesis by simp
  qed
  note combos = resolution_okD(4) [OF ok]
  have keys: "map (\<lambda>rc. map step_signature_of (rc_steps rc)) (resolved_combos r) = map fst (keep_last ?es)"
    using sig by (simp add: combos)
  have "distinct (map (\<lambda>rc. map step_signature_of (rc_steps rc)) (resolved_combos r))"
    unfolding keys by (rule keep_last_distinct)
  moreover have "set (map (\<lambda>rc. map step_signature_of (rc_steps rc)) (resolved_combos r)) = fst ` set ?es"
    unfolding keys by (simp add: keep_last_keys)
  ultimately show ?thesis using combos unfolding set_map by blast
qed

theorem combos_last_wins_witness:
  "\<exists>r. demo_resolve (Some (demo_window [])) [] = Inr r \<and> map rc_id (resolved_combos r) = [''two'', ''three'']"
proof -
  obtain r where r: "demo_resolve (Some (demo_window [])) [] = Inr r" "active_profiles r = [base_profile, game_profile]"
    by (rule demo_result)
  have "map rc_id (map snd (keep_last (combo_entries [base_profile, game_profile]))) = [''two'', ''three'']" by code_simp
  with combos_last_wins [OF r(1)] r show ?thesis by metis
qed

text \<open>C23. A window update may be skipped: when the check of the session finds that no rule in use can see
  the difference between two windows whose tags are not blank, the resolver gives the same result for both.\<close>

theorem window_update_skip_sound:
  assumes "\<not> window_update_changes_profile_matches repr (map snd profiles) capabilities v w"
    and "sane_window repr v" "sane_window repr w"
  shows "resolve casefold repr regex profiles (Some v) capabilities hardware_ids runtime_names
    = resolve casefold repr regex profiles (Some w) capabilities hardware_ids runtime_names"
proof -
  have agree: "agree_on repr v w f" if "f \<in> window_fields_in_use (map snd profiles) capabilities" for f
  proof -
    have "normalize_window_rule_field f = f" using that by (auto simp: window_fields_in_use_def split: if_splits)
    then show ?thesis using assms(1) that
      unfolding window_update_changes_profile_matches_def Let_def agree_on_def by (metis empty_iff)
  qed
  have rule: "rule_active repr regex capabilities (Some v) p = rule_active repr regex capabilities (Some w) p"
    if "p \<in> snd ` set profiles" for p
  proof (cases "enabled p \<and> \<not> is_permanent p \<and> \<not> has_unsupported_rules p capabilities")
    case True
    have in_use: "normalize_window_rule_field (rule_field r) \<in> window_fields_in_use (map snd profiles) capabilities"
      if "r \<in> set (window_rules p)" "normalize_window_rule_field (rule_field r) \<in> WINDOW_MATCH_FIELDS" for r
      using that True \<open>p \<in> snd ` set profiles\<close> by (force simp: window_fields_in_use_def)
    have "matches_window_rules repr regex p (Some v) = matches_window_rules repr regex p (Some w)"
    proof
      show "matches_window_rules repr regex p (Some w)" if "matches_window_rules repr regex p (Some v)"
        by (rule matches_agree [OF assms(2,3) _ that]) (use in_use agree in blast)
      show "matches_window_rules repr regex p (Some v)" if "matches_window_rules repr regex p (Some w)"
        by (rule matches_agree [OF assms(3,2) _ that]) (use in_use agree agree_sym in blast)
    qed
    then show ?thesis by (simp add: rule_active_def)
  qed (auto simp: rule_active_def)
  then have "filter (rule_active repr regex capabilities (Some v)) (map snd profiles)
      = filter (rule_active repr regex capabilities (Some w)) (map snd profiles)"
    by (intro filter_cong) auto
  then show ?thesis by (simp add: resolve_def resolve_active_def)
qed

theorem window_update_skip_sound_witness:
  "demo_resolve (Some (demo_window ''Level 1'')) [] = demo_resolve (Some (demo_window ''Level 2'')) []"
proof (rule window_update_skip_sound)
  show "\<not> window_update_changes_profile_matches (\<lambda>_. []) (map snd demo_profiles) [] (demo_window ''Level 1'') (demo_window ''Level 2'')"
  proof -
    have "window_fields_in_use (map snd demo_profiles) [] = {''class''}" by code_simp
    then show ?thesis
      by (simp add: window_update_changes_profile_matches_def demo_window_def normalize_window_info_def
          normalize_window_info_for_match_def json_get_default_def normalize_window_rule_field_def py_lower_def py_strip_def
          py_lower_char_def py_is_space_def)
  qed
qed (simp_all add: demo_window_def sane_normalized)

text \<open>The comment of the check says that blank tags fail to match like missing ones.  They match a pattern
  that accepts a blank text.\<close>

theorem blank_tag_matches:
  "normalize_window_info_for_match repr (Some [(''tags'', JList [JString '' ''])]) = normalize_window_info_for_match repr (Some [])
   \<and> rule_matches repr (\<lambda>p. Some (\<lambda>s. True)) [(''tags'', JList [JString '' ''])] \<lparr>rule_field = ''tag'', pattern = ''.*''\<rparr> = Some True
   \<and> rule_matches repr (\<lambda>p. Some (\<lambda>s. True)) [] \<lparr>rule_field = ''tag'', pattern = ''.*''\<rparr> = Some False"
  by (simp add: normalize_window_info_for_match_def rule_matches_def any_search_def window_tags_def json_get_default_def
      blank_tag_def text_or_def normalize_window_rule_field_def py_strip_def py_is_space_def py_lower_def py_lower_char_def)

end
