(* ===== verification/Profile_Activation.thy ===== *)
theory Profile_Activation
  imports Action_Model
begin

text \<open>
  Temporary profile activations: \<open>ProfileActivationTracker\<close> of
  \<open>keymasqd/runtime/profile_activation_tracker.py\<close>.  A tracker object is known by a serial number, a
  pending timeout task by the serial number of its tracker.  A handler runs to its end before the next
  one; an expiry message is sent by a task of its own, in the order of the expiries.
\<close>

section \<open>State\<close>

record Tracker =
  serial :: nat
  tracked_profile :: string
  activation :: string
  trigger :: string
  policy :: ProfileDeactivationPolicy
  action_count :: int
  expired :: bool

type_synonym expiry = "string \<times> string \<times> string"

record ActivationTracker =
  trackers :: "(string \<times> Tracker) list"
  activation_by_profile :: "string \<rightharpoonup> string"
  active_trigger_ids :: "string set"
  pending_timeouts :: "nat set"
  next_serial :: nat
  broadcasts :: "expiry list"

definition new_tracker_state :: ActivationTracker where
  "new_tracker_state = \<lparr>trackers = [], activation_by_profile = Map.empty, active_trigger_ids = {},
     pending_timeouts = {}, next_serial = 0, broadcasts = []\<rparr>"

section \<open>Operations\<close>

definition cancel_timeout :: "Tracker \<Rightarrow> ActivationTracker \<Rightarrow> ActivationTracker" where
  "cancel_timeout t st = st\<lparr>pending_timeouts := pending_timeouts st - {serial t}\<rparr>"

definition pop_tracker :: "string \<Rightarrow> ActivationTracker \<Rightarrow> ActivationTracker" where
  "pop_tracker act st =
    (case map_of (trackers st) act of
       None \<Rightarrow> st
     | Some t \<Rightarrow>
         (let st1 = st\<lparr>trackers := AList.delete act (trackers st)\<rparr>;
              st2 = (if activation_by_profile st1 (tracked_profile t) = Some (activation t)
                     then st1\<lparr>activation_by_profile := (activation_by_profile st1)(tracked_profile t := None)\<rparr>
                     else st1)
          in cancel_timeout t st2))"

definition cancel :: "string option \<Rightarrow> string option \<Rightarrow> ActivationTracker \<Rightarrow> ActivationTracker" where
  "cancel profile activation_id st =
    (let given = py_strip (case activation_id of None \<Rightarrow> [] | Some a \<Rightarrow> a);
         pn = py_strip (case profile of None \<Rightarrow> [] | Some p \<Rightarrow> p);
         act = (if given = [] \<and> pn \<noteq> []
                then (case activation_by_profile st pn of None \<Rightarrow> [] | Some a \<Rightarrow> a) else given)
     in if act = [] then st else pop_tracker act st)"

text \<open>Writing to a field of a tracker object changes the dictionary's value if it holds that object.\<close>

definition put_tracker :: "Tracker \<Rightarrow> ActivationTracker \<Rightarrow> ActivationTracker" where
  "put_tracker t st =
    (case map_of (trackers st) (activation t) of
       Some current \<Rightarrow> if serial current = serial t then st\<lparr>trackers := AList.update (activation t) t (trackers st)\<rparr> else st
     | None \<Rightarrow> st)"

definition expire_tracker :: "Tracker \<Rightarrow> string \<Rightarrow> ActivationTracker \<Rightarrow> ActivationTracker" where
  "expire_tracker t reason st =
    (case map_of (trackers st) (activation t) of
       None \<Rightarrow> st
     | Some current \<Rightarrow>
         if serial current \<noteq> serial t \<or> expired current then st
         else (let st1 = put_tracker (current\<lparr>expired := True\<rparr>) st;
                   st2 = cancel None (Some (activation t)) st1
               in st2\<lparr>broadcasts := broadcasts st2 @ [(tracked_profile t, activation t, reason)]\<rparr>))"

definition add_tracker :: "Tracker \<Rightarrow> ActivationTracker \<Rightarrow> ActivationTracker" where
  "add_tracker t st =
    (let st' = st\<lparr>trackers := AList.update (activation t) t (trackers st),
                   activation_by_profile := (activation_by_profile st)(tracked_profile t \<mapsto> activation t),
                   next_serial := next_serial st + 1\<rparr>
     in if timeout_ms (policy t) \<noteq> None
        then st'\<lparr>pending_timeouts := insert (serial t) (pending_timeouts st')\<rparr> else st')"

definition track ::
  "string \<Rightarrow> string \<Rightarrow> string \<Rightarrow> ProfileDeactivationPolicy \<Rightarrow> ActivationTracker \<Rightarrow> ActivationTracker"
where
  "track profile activation_id trigger_id deactivation st =
    (let pn = py_strip profile; act = py_strip activation_id; trig = py_strip trigger_id
     in if pn = [] \<or> act = [] \<or> \<not> has_condition deactivation then st
        else
          let st1 = (case activation_by_profile st pn of
                       None \<Rightarrow> st
                     | Some previous \<Rightarrow>
                         if previous \<noteq> [] \<and> previous \<noteq> act then cancel None (Some previous) st else st);
              st2 = (case map_of (trackers st1) act of None \<Rightarrow> st1 | Some t \<Rightarrow> cancel_timeout t st1);
              t = \<lparr>serial = next_serial st2, tracked_profile = pn, activation = act, trigger = trig,
                   policy = deactivation, action_count = 0, expired = False\<rparr>;
              st4 = add_tracker t st2
          in if on_trigger_end deactivation \<and> trig \<noteq> [] \<and> trig \<notin> active_trigger_ids st4
             then expire_tracker t ''trigger_end'' st4 else st4)"

definition reset :: "ActivationTracker \<Rightarrow> ActivationTracker" where
  "reset st =
    (let st1 = fold cancel_timeout (map snd (trackers st)) st
     in st1\<lparr>trackers := [], activation_by_profile := Map.empty, active_trigger_ids := {}\<rparr>)"

definition observe_trigger_start :: "string option \<Rightarrow> ActivationTracker \<Rightarrow> ActivationTracker" where
  "observe_trigger_start trigger_id st =
    (let trig = py_strip (case trigger_id of None \<Rightarrow> [] | Some t \<Rightarrow> t)
     in if trig \<noteq> [] then st\<lparr>active_trigger_ids := insert trig (active_trigger_ids st)\<rparr> else st)"

definition end_trigger_of :: "string \<Rightarrow> Tracker \<Rightarrow> ActivationTracker \<Rightarrow> ActivationTracker" where
  "end_trigger_of trig t st =
    (if trigger t = trig \<and> on_trigger_end (policy t) \<and> \<not> expired t then expire_tracker t ''trigger_end'' st else st)"

definition observe_trigger_end :: "string option \<Rightarrow> ActivationTracker \<Rightarrow> ActivationTracker" where
  "observe_trigger_end trigger_id st =
    (let trig = py_strip (case trigger_id of None \<Rightarrow> [] | Some t \<Rightarrow> t)
     in if trig = [] then st
        else fold (end_trigger_of trig) (map snd (trackers st))
               (st\<lparr>active_trigger_ids := active_trigger_ids st - {trig}\<rparr>))"

definition count_action_of :: "string \<Rightarrow> Tracker \<Rightarrow> ActivationTracker \<Rightarrow> ActivationTracker" where
  "count_action_of trig t st =
    (if expired t \<or> (trig \<noteq> [] \<and> trigger t = trig) then st
     else case after_actions (policy t) of
            None \<Rightarrow> st
          | Some threshold \<Rightarrow>
              if threshold \<le> 0 then st
              else let t' = t\<lparr>action_count := action_count t + 1\<rparr>;
                       st' = put_tracker t' st
                   in if threshold \<le> action_count t' then expire_tracker t' ''action_count'' st' else st')"

definition record_action :: "string option \<Rightarrow> ActivationTracker \<Rightarrow> ActivationTracker" where
  "record_action trigger_id st =
    fold (count_action_of (py_strip (case trigger_id of None \<Rightarrow> [] | Some t \<Rightarrow> t))) (map snd (trackers st)) st"

text \<open>The end of a timeout task: the task is done, and its tracker expires if it is still the one of its
  activation.\<close>

definition timeout_after :: "nat \<Rightarrow> ActivationTracker \<Rightarrow> ActivationTracker" where
  "timeout_after n st =
    (if n \<notin> pending_timeouts st then st
     else let st1 = st\<lparr>pending_timeouts := pending_timeouts st - {n}\<rparr>
          in case find (\<lambda>t. serial t = n) (map snd (trackers st1)) of
               None \<Rightarrow> st1
             | Some t \<Rightarrow> expire_tracker t ''timeout'' st1)"

section \<open>Runs\<close>

datatype tracker_op =
    Track string string string ProfileDeactivationPolicy
  | Cancel "string option" "string option"
  | Reset
  | TriggerStart "string option"
  | TriggerEnd "string option"
  | Action "string option"
  | TimeoutFires nat

fun tracker_step :: "ActivationTracker \<Rightarrow> tracker_op \<Rightarrow> ActivationTracker" where
  "tracker_step st (Track p a t d) = track p a t d st"
| "tracker_step st (Cancel p a) = cancel p a st"
| "tracker_step st Reset = reset st"
| "tracker_step st (TriggerStart t) = observe_trigger_start t st"
| "tracker_step st (TriggerEnd t) = observe_trigger_end t st"
| "tracker_step st (Action t) = record_action t st"
| "tracker_step st (TimeoutFires n) = timeout_after n st"

text \<open>The session draws a fresh identifier for every activation.\<close>

fun tracker_guard :: "ActivationTracker \<Rightarrow> tracker_op \<Rightarrow> bool" where
  "tracker_guard st (Track p a t d) = (map_of (trackers st) (py_strip a) = None)"
| "tracker_guard st _ = True"

section \<open>The invariant\<close>

text \<open>A live tracker: its keys, an open condition and a count below its limit.\<close>

definition tracker_ok :: "nat \<Rightarrow> Tracker \<Rightarrow> bool" where
  "tracker_ok n t \<longleftrightarrow> activation t \<noteq> [] \<and> py_strip (activation t) = activation t \<and> tracked_profile t \<noteq> []
    \<and> \<not> expired t \<and> has_condition (policy t) \<and> serial t < n \<and> 0 \<le> action_count t
    \<and> (case after_actions (policy t) of None \<Rightarrow> True | Some k \<Rightarrow> 0 < k \<longrightarrow> action_count t < k)"

definition timed_serials :: "(string \<times> Tracker) list \<Rightarrow> nat set" where
  "timed_serials ts = set (map (serial \<circ> snd) (filter (\<lambda>p. timeout_ms (policy (snd p)) \<noteq> None) ts))"

lemma timed_serials_simps [simp]:
  "timed_serials [] = {}"
  "timed_serials ((a, t) # ts) = (if timeout_ms (policy t) \<noteq> None then insert (serial t) (timed_serials ts) else timed_serials ts)"
  "timed_serials (ts @ us) = timed_serials ts \<union> timed_serials us"
  by (simp_all add: timed_serials_def image_Un)

lemma timed_serials_in: "(a, t) \<in> set ts \<Longrightarrow> timeout_ms (policy t) \<noteq> None \<Longrightarrow> serial t \<in> timed_serials ts"
  by (induction ts) auto

lemma timed_serials_subset: "timed_serials ts \<subseteq> (serial \<circ> snd) ` set ts"
  by (auto simp: timed_serials_def)

definition keys_inv :: "ActivationTracker \<Rightarrow> bool" where
  "keys_inv st \<longleftrightarrow> distinct (map fst (trackers st)) \<and> distinct (map (serial \<circ> snd) (trackers st))
    \<and> (\<forall>(a, t)\<in>set (trackers st). activation t = a \<and> tracker_ok (next_serial st) t)
    \<and> (\<forall>p a. activation_by_profile st p = Some a \<longleftrightarrow> (\<exists>t. (a, t) \<in> set (trackers st) \<and> tracked_profile t = p))
    \<and> pending_timeouts st = timed_serials (trackers st)"

text \<open>A live tracker that ends with its trigger has a trigger that is down.\<close>

definition trigger_inv :: "ActivationTracker \<Rightarrow> bool" where
  "trigger_inv st \<longleftrightarrow> (\<forall>(a, t)\<in>set (trackers st). on_trigger_end (policy t) \<and> trigger t \<noteq> []
    \<longrightarrow> trigger t \<in> active_trigger_ids st)"

definition tracker_inv :: "ActivationTracker \<Rightarrow> bool" where
  "tracker_inv st \<longleftrightarrow> keys_inv st \<and> trigger_inv st"

lemma keys_invD:
  assumes "keys_inv st" "(a, t) \<in> set (trackers st)"
  shows "activation t = a" "tracker_ok (next_serial st) t" "map_of (trackers st) a = Some t"
    "activation_by_profile st (tracked_profile t) = Some a"
  using assms by (auto simp: keys_inv_def)

lemma one_tracker_per_profile:
  assumes "keys_inv st" "(a, t) \<in> set (trackers st)" "(b, u) \<in> set (trackers st)" "tracked_profile t = tracked_profile u"
  shows "a = b"
  using keys_invD(4) [OF assms(1,2)] keys_invD(4) [OF assms(1,3)] assms(4) by simp

section \<open>Removing a tracker\<close>

definition remove_tracker :: "Tracker \<Rightarrow> ActivationTracker \<Rightarrow> ActivationTracker" where
  "remove_tracker t st = st\<lparr>trackers := AList.delete (activation t) (trackers st),
     activation_by_profile := (activation_by_profile st)(tracked_profile t := None),
     pending_timeouts := pending_timeouts st - {serial t}\<rparr>"

lemma update_middle: "a \<notin> fst ` set xs \<Longrightarrow> AList.update a u (xs @ (a, t) # ys) = xs @ (a, u) # ys"
  by (induction xs) auto

lemma delete_absent: "a \<notin> fst ` set xs \<Longrightarrow> AList.delete a xs = xs"
  by (induction xs) auto

lemma delete_middle: "a \<notin> fst ` set xs \<Longrightarrow> a \<notin> fst ` set ys \<Longrightarrow> AList.delete a (xs @ (a, t) # ys) = xs @ ys"
  by (induction xs) (auto simp: delete_absent)

lemma delete_update_same: "AList.delete a (AList.update a u d) = AList.delete a d"
  by (induction d) auto

lemma cancel_live:
  assumes "keys_inv st" "(a, t) \<in> set (trackers st)"
  shows "cancel p (Some a) st = remove_tracker t st"
proof -
  note t = keys_invD [OF assms]
  have "py_strip a = a" "a \<noteq> []" using t(1,2) by (auto simp: tracker_ok_def)
  then show ?thesis using t by (simp add: cancel_def pop_tracker_def Let_def remove_tracker_def cancel_timeout_def)
qed

lemma expire_at:
  assumes "map_of (trackers st) a = Some t" "activation t = a" "py_strip a = a" "a \<noteq> []" "\<not> expired t"
    and "activation_by_profile st (tracked_profile t) = Some a"
  shows "expire_tracker t reason st =
    (remove_tracker t st)\<lparr>broadcasts := broadcasts st @ [(tracked_profile t, a, reason)]\<rparr>"
  using assms by (simp add: expire_tracker_def put_tracker_def cancel_def pop_tracker_def Let_def remove_tracker_def cancel_timeout_def delete_update_same)

lemma expire_live:
  assumes "keys_inv st" "(a, t) \<in> set (trackers st)"
  shows "expire_tracker t reason st =
    (remove_tracker t st)\<lparr>broadcasts := broadcasts st @ [(tracked_profile t, a, reason)]\<rparr>"
  using keys_invD [OF assms] by (intro expire_at) (auto simp: tracker_ok_def)

lemma remove_keys_inv:
  assumes inv: "keys_inv st" and t: "(a, t) \<in> set (trackers st)"
  shows "keys_inv (remove_tracker t st)"
proof -
  note k = keys_invD [OF inv t]
  have mem: "x \<in> set (AList.delete a (trackers st)) \<longleftrightarrow> x \<in> set (trackers st) \<and> fst x \<noteq> a" for x
    by (rule in_set_AList_delete)
  have "distinct (map (serial \<circ> snd) (AList.delete a (trackers st)))"
    using inv by (auto simp: keys_inv_def AList.delete_eq distinct_map_filter)
  moreover have "((activation_by_profile st)(tracked_profile t := None)) p = Some b \<longleftrightarrow>
      (\<exists>u. (b, u) \<in> set (AList.delete a (trackers st)) \<and> tracked_profile u = p)" for p b
  proof -
    have "(b, u) \<in> set (trackers st) \<Longrightarrow> b = a \<longleftrightarrow> tracked_profile u = tracked_profile t" for b u
      using one_tracker_per_profile [OF inv t, of b u] keys_invD(3) [OF inv, of b u] k(3) by auto
    moreover have "activation_by_profile st p = Some b \<longleftrightarrow> (\<exists>u. (b, u) \<in> set (trackers st) \<and> tracked_profile u = p)"
      using inv by (simp add: keys_inv_def)
    ultimately show ?thesis unfolding mem by auto
  qed
  moreover have "pending_timeouts st - {serial t} = timed_serials (AList.delete a (trackers st))"
  proof -
    obtain xs ys where split: "trackers st = xs @ (a, t) # ys" using split_list [OF t] by blast
    have "a \<notin> fst ` set xs" "a \<notin> fst ` set ys" using inv by (auto simp: keys_inv_def split)
    then have "AList.delete a (trackers st) = xs @ ys" unfolding split by (rule delete_middle)
    moreover have "serial t \<notin> timed_serials xs \<union> timed_serials ys"
      using inv timed_serials_subset [of xs] timed_serials_subset [of ys] by (auto simp: keys_inv_def split)
    moreover have "pending_timeouts st = timed_serials (xs @ (a, t) # ys)" using inv by (simp add: keys_inv_def split)
    ultimately show ?thesis by auto
  qed
  ultimately show ?thesis
    using inv k(1) by (auto simp: keys_inv_def remove_tracker_def mem)
qed


section \<open>One pass over the trackers\<close>

text \<open>What becomes of a tracker.\<close>

datatype fate = Stays Tracker | Dropped | Expires string

fun survivors :: "(Tracker \<Rightarrow> fate) \<Rightarrow> (string \<times> Tracker) list \<Rightarrow> (string \<times> Tracker) list" where
  "survivors f [] = []"
| "survivors f ((a, t) # ts) = (case f t of Stays u \<Rightarrow> (a, u) # survivors f ts | _ \<Rightarrow> survivors f ts)"

fun expiries :: "(Tracker \<Rightarrow> fate) \<Rightarrow> (string \<times> Tracker) list \<Rightarrow> expiry list" where
  "expiries f [] = []"
| "expiries f ((a, t) # ts) =
    (case f t of Expires r \<Rightarrow> (tracked_profile t, a, r) # expiries f ts | _ \<Rightarrow> expiries f ts)"

text \<open>A step that treats one tracker by its fate.\<close>

definition visits :: "(Tracker \<Rightarrow> fate) \<Rightarrow> (Tracker \<Rightarrow> ActivationTracker \<Rightarrow> ActivationTracker) \<Rightarrow> bool" where
  "visits f h \<longleftrightarrow> (\<forall>st a t. keys_inv st \<longrightarrow> (a, t) \<in> set (trackers st) \<longrightarrow>
    (case f t of
       Stays u \<Rightarrow> h t st = st\<lparr>trackers := AList.update a u (trackers st)\<rparr>
         \<and> (\<exists>n. u = t\<lparr>action_count := n\<rparr>) \<and> tracker_ok (next_serial st) u
     | Dropped \<Rightarrow> h t st = remove_tracker t st
     | Expires r \<Rightarrow> h t st = (remove_tracker t st)\<lparr>broadcasts := broadcasts st @ [(tracked_profile t, a, r)]\<rparr>))"

lemma broadcasts_keys_inv [simp]: "keys_inv (st\<lparr>broadcasts := x\<rparr>) = keys_inv st"
  by (simp add: keys_inv_def)

lemma count_keys_inv:
  assumes inv: "keys_inv st" and t: "(a, t) \<in> set (trackers st)"
    and u: "u = t\<lparr>action_count := n\<rparr>" "tracker_ok (next_serial st) u"
  shows "keys_inv (st\<lparr>trackers := AList.update a u (trackers st)\<rparr>)"
proof -
  obtain xs ys where split: "trackers st = xs @ (a, t) # ys" using split_list [OF t] by blast
  have "distinct (map fst (trackers st))" using inv by (simp add: keys_inv_def)
  then have up: "AList.update a u (trackers st) = xs @ (a, u) # ys"
    unfolding split by (intro update_middle) auto
  have same: "serial u = serial t" "tracked_profile u = tracked_profile t" "policy u = policy t" "activation u = activation t"
    using u(1) by simp_all
  have "(\<exists>v. (b, v) \<in> set (xs @ (a, u) # ys) \<and> tracked_profile v = p)
      = (\<exists>v. (b, v) \<in> set (trackers st) \<and> tracked_profile v = p)" for b p
    using same(2) by (auto simp: split)
  moreover have "timed_serials (xs @ (a, u) # ys) = timed_serials (trackers st)"
    using same by (simp add: split)
  moreover have "\<forall>(b, v)\<in>set (xs @ (a, u) # ys). activation v = b \<and> tracker_ok (next_serial st) v"
    using inv u(2) same(4) unfolding keys_inv_def split by auto
  moreover have "distinct (map fst (xs @ (a, u) # ys)) \<and> distinct (map (serial \<circ> snd) (xs @ (a, u) # ys))"
    using inv same(1) unfolding keys_inv_def split by simp
  ultimately show ?thesis using inv by (simp add: keys_inv_def up)
qed

lemma visit_all:
  assumes h: "visits f h" and inv: "keys_inv st" and split: "trackers st = done @ ts"
  defines "st' \<equiv> fold h (map snd ts) st"
  shows "trackers st' = done @ survivors f ts \<and> broadcasts st' = broadcasts st @ expiries f ts \<and> keys_inv st'
    \<and> active_trigger_ids st' = active_trigger_ids st \<and> next_serial st' = next_serial st"
  using inv split unfolding st'_def
proof (induction ts arbitrary: st "done")
  case (Cons x ts)
  obtain a t where x: "x = (a, t)" by (cases x)
  have t: "(a, t) \<in> set (trackers st)" by (simp add: Cons.prems(2) x)
  have dist: "a \<notin> fst ` set done" "a \<notin> fst ` set ts"
    using Cons.prems by (auto simp: keys_inv_def x)
  have "activation t = a" using keys_invD(1) [OF Cons.prems(1) t] .
  note step = h [unfolded visits_def, rule_format, OF Cons.prems(1) t]
  show ?case
  proof (cases "f t")
    case (Stays u)
    then have u: "h t st = st\<lparr>trackers := AList.update a u (trackers st)\<rparr>" "\<exists>n. u = t\<lparr>action_count := n\<rparr>"
        "tracker_ok (next_serial st) u"
      using step by simp_all
    obtain n where n: "u = t\<lparr>action_count := n\<rparr>" using u(2) by blast
    have "trackers (h t st) = (done @ [(a, u)]) @ ts"
      using update_middle [OF dist(1)] by (simp add: u(1) Cons.prems(2) x)
    moreover have "keys_inv (h t st)" unfolding u(1) by (rule count_keys_inv [OF Cons.prems(1) t n u(3)])
    ultimately show ?thesis using Cons.IH [of "h t st" "done @ [(a, u)]"] Stays by (simp add: x u(1))
  next
    case Dropped
    then have "h t st = remove_tracker t st" using step by simp
    moreover from this have "trackers (h t st) = done @ ts"
      using delete_middle [OF dist] \<open>activation t = a\<close> by (simp add: remove_tracker_def Cons.prems(2) x)
    ultimately show ?thesis
      using Cons.IH [of "h t st" "done"] remove_keys_inv [OF Cons.prems(1) t] Dropped by (simp add: x remove_tracker_def)
  next
    case (Expires r)
    then have "h t st = (remove_tracker t st)\<lparr>broadcasts := broadcasts st @ [(tracked_profile t, a, r)]\<rparr>" using step by simp
    moreover from this have "trackers (h t st) = done @ ts"
      using delete_middle [OF dist] \<open>activation t = a\<close> by (simp add: remove_tracker_def Cons.prems(2) x)
    ultimately show ?thesis
      using Cons.IH [of "h t st" "done"] remove_keys_inv [OF Cons.prems(1) t] Expires by (simp add: x remove_tracker_def)
  qed
qed simp

text \<open>The fate of a tracker at each operation.\<close>

definition end_fate :: "string \<Rightarrow> Tracker \<Rightarrow> fate" where
  "end_fate trig t = (if trigger t = trig \<and> on_trigger_end (policy t) then Expires ''trigger_end'' else Stays t)"

definition action_fate :: "string \<Rightarrow> Tracker \<Rightarrow> fate" where
  "action_fate trig t =
    (case after_actions (policy t) of
       None \<Rightarrow> Stays t
     | Some k \<Rightarrow>
         if k \<le> 0 \<or> (trig \<noteq> [] \<and> trigger t = trig) then Stays t
         else if k \<le> action_count t + 1 then Expires ''action_count''
         else Stays (t\<lparr>action_count := action_count t + 1\<rparr>))"

lemma update_same: "keys_inv st \<Longrightarrow> (a, t) \<in> set (trackers st) \<Longrightarrow> st\<lparr>trackers := AList.update a t (trackers st)\<rparr> = st"
proof -
  assume inv: "keys_inv st" and t: "(a, t) \<in> set (trackers st)"
  obtain xs ys where split: "trackers st = xs @ (a, t) # ys" using split_list [OF t] by blast
  have "distinct (map fst (trackers st))" using inv by (simp add: keys_inv_def)
  then have "AList.update a t (trackers st) = trackers st" unfolding split by (intro update_middle) auto
  then show ?thesis by simp
qed

lemma self_count: "\<exists>n. t = t\<lparr>action_count := n\<rparr>"
  by (rule exI [of _ "action_count t"]) simp

lemma end_visits: "visits (end_fate trig) (end_trigger_of trig)"
  unfolding visits_def
proof (intro allI impI)
  fix st a t assume st: "keys_inv st" "(a, t) \<in> set (trackers st)"
  have "\<not> expired t" using keys_invD(2) [OF st] by (simp add: tracker_ok_def)
  then show "case end_fate trig t of
       Stays u \<Rightarrow> end_trigger_of trig t st = st\<lparr>trackers := AList.update a u (trackers st)\<rparr>
         \<and> (\<exists>n. u = t\<lparr>action_count := n\<rparr>) \<and> tracker_ok (next_serial st) u
     | Dropped \<Rightarrow> end_trigger_of trig t st = remove_tracker t st
     | Expires r \<Rightarrow> end_trigger_of trig t st
         = (remove_tracker t st)\<lparr>broadcasts := broadcasts st @ [(tracked_profile t, a, r)]\<rparr>"
    using expire_live [OF st] update_same [OF st] self_count [of t] keys_invD(2) [OF st]
    by (simp add: end_fate_def end_trigger_of_def)
qed

lemma count_visits: "visits (action_fate trig) (count_action_of trig)"
  unfolding visits_def
proof (intro allI impI)
  fix st a t assume st: "keys_inv st" "(a, t) \<in> set (trackers st)"
  note k = keys_invD [OF st]
  let ?u = "t\<lparr>action_count := action_count t + 1\<rparr>"
  let ?st = "st\<lparr>trackers := AList.update a ?u (trackers st)\<rparr>"
  have put: "put_tracker ?u st = ?st" using k by (simp add: put_tracker_def)
  have exp: "expire_tracker ?u r ?st = (remove_tracker t st)\<lparr>broadcasts := broadcasts st @ [(tracked_profile t, a, r)]\<rparr>"
    for r
    using expire_at [of ?st a ?u r] k by (simp add: tracker_ok_def remove_tracker_def delete_update_same)
  show "case action_fate trig t of
       Stays u \<Rightarrow> count_action_of trig t st = st\<lparr>trackers := AList.update a u (trackers st)\<rparr>
         \<and> (\<exists>n. u = t\<lparr>action_count := n\<rparr>) \<and> tracker_ok (next_serial st) u
     | Dropped \<Rightarrow> count_action_of trig t st = remove_tracker t st
     | Expires r \<Rightarrow> count_action_of trig t st
         = (remove_tracker t st)\<lparr>broadcasts := broadcasts st @ [(tracked_profile t, a, r)]\<rparr>"
  proof (cases "action_fate trig t")
    case (Stays u)
    then consider "u = t" "count_action_of trig t st = st"
      | "u = ?u" "count_action_of trig t st = ?st" "tracker_ok (next_serial st) ?u"
      using k(2) put by (auto simp: action_fate_def count_action_of_def tracker_ok_def Let_def split: option.splits if_splits)
    then show ?thesis
    proof cases
      case 1
      show ?thesis unfolding Stays fate.case 1 using update_same [OF st] self_count [of t] k(2) by simp
    next
      case 2
      have "\<exists>n. u = t\<lparr>action_count := n\<rparr>" using 2(1) by blast
      with 2 show ?thesis unfolding Stays fate.case by simp
    qed
  next
    case (Expires r)
    then show ?thesis
      using k(2) put exp by (auto simp: action_fate_def count_action_of_def tracker_ok_def Let_def split: option.splits if_splits)
  qed (simp add: action_fate_def split: option.splits if_splits)
qed


section \<open>Operations in one pass\<close>

definition accepts :: "string \<Rightarrow> string \<Rightarrow> ProfileDeactivationPolicy \<Rightarrow> bool" where
  "accepts p a d \<longleftrightarrow> py_strip p \<noteq> [] \<and> py_strip a \<noteq> [] \<and> has_condition d"

definition ends_at_once :: "ActivationTracker \<Rightarrow> string \<Rightarrow> ProfileDeactivationPolicy \<Rightarrow> bool" where
  "ends_at_once st trig d \<longleftrightarrow> on_trigger_end d \<and> py_strip trig \<noteq> [] \<and> py_strip trig \<notin> active_trigger_ids st"

definition opt_strip :: "string option \<Rightarrow> string" where
  "opt_strip x = py_strip (case x of None \<Rightarrow> [] | Some s \<Rightarrow> s)"

fun fate_at :: "tracker_op \<Rightarrow> Tracker \<Rightarrow> fate" where
  "fate_at (Track p a trig d) t = (if accepts p a d \<and> tracked_profile t = py_strip p then Dropped else Stays t)"
| "fate_at (Cancel p a) t =
    (if (if opt_strip a \<noteq> [] then activation t = opt_strip a else tracked_profile t = opt_strip p) then Dropped else Stays t)"
| "fate_at Reset t = Dropped"
| "fate_at (TriggerStart x) t = Stays t"
| "fate_at (TriggerEnd x) t = (if opt_strip x = [] then Stays t else end_fate (opt_strip x) t)"
| "fate_at (Action x) t = action_fate (opt_strip x) t"
| "fate_at (TimeoutFires n) t = (if serial t = n \<and> timeout_ms (policy t) \<noteq> None then Expires ''timeout'' else Stays t)"

fun started :: "ActivationTracker \<Rightarrow> tracker_op \<Rightarrow> (string \<times> Tracker) list" where
  "started st (Track p a trig d) =
    (if accepts p a d \<and> \<not> ends_at_once st trig d
     then [(py_strip a, \<lparr>serial = next_serial st, tracked_profile = py_strip p, activation = py_strip a,
             trigger = py_strip trig, policy = d, action_count = 0, expired = False\<rparr>)]
     else [])"
| "started st _ = []"

fun ended_at_once :: "ActivationTracker \<Rightarrow> tracker_op \<Rightarrow> expiry list" where
  "ended_at_once st (Track p a trig d) =
    (if accepts p a d \<and> ends_at_once st trig d then [(py_strip p, py_strip a, ''trigger_end'')] else [])"
| "ended_at_once st _ = []"

lemma survivors_all:
  assumes "\<forall>x\<in>set ts. f (snd x) = Stays (snd x)"
  shows "survivors f ts = ts \<and> expiries f ts = []"
  using assms by (induction ts) auto

lemma survivors_delete:
  assumes "\<forall>x\<in>set ts. f (snd x) = (if fst x = a then Dropped else Stays (snd x))"
  shows "survivors f ts = AList.delete a ts \<and> expiries f ts = []"
  using assms
proof (induction ts)
  case (Cons x ts)
  then show ?case by (cases x; cases "fst x = a") auto
qed simp

lemma fates_append:
  "survivors f (us @ vs) = survivors f us @ survivors f vs" "expiries f (us @ vs) = expiries f us @ expiries f vs"
  by (induction us) (auto split: fate.split)

lemma expiries_one:
  assumes "distinct (map fst ts)" "(a, t) \<in> set ts"
    and f: "\<forall>x\<in>set ts. f (snd x) = (if fst x = a then Expires r else Stays (snd x))"
  shows "survivors f ts = AList.delete a ts \<and> expiries f ts = [(tracked_profile t, a, r)]"
proof -
  obtain xs ys where ts: "ts = xs @ (a, t) # ys" using split_list [OF assms(2)] by blast
  have a: "a \<notin> fst ` set xs" "a \<notin> fst ` set ys" using assms(1) by (auto simp: ts)
  have "\<forall>x\<in>set xs \<union> set ys. fst x \<noteq> a" using a by blast
  then have "\<forall>x\<in>set xs. f (snd x) = Stays (snd x)" "\<forall>x\<in>set ys. f (snd x) = Stays (snd x)"
    using f by (simp_all add: ts)
  note xs = survivors_all [OF this(1)] and ys = survivors_all [OF this(2)]
  have "f t = Expires r" using f by (simp add: ts)
  then show ?thesis using xs ys delete_middle [OF a] by (simp add: ts fates_append)
qed

lemma update_absent: "a \<notin> fst ` set ts \<Longrightarrow> AList.update a t ts = ts @ [(a, t)]"
  by (induction ts) auto

text \<open>Starting an activation whose profile has no other one.\<close>

lemma start_keys_inv:
  assumes inv: "keys_inv st" and fresh: "map_of (trackers st) a = None" "activation_by_profile st p = None"
    and t: "t = \<lparr>serial = next_serial st, tracked_profile = p, activation = a, trigger = trig, policy = d,
        action_count = 0, expired = False\<rparr>"
    and ok: "a \<noteq> []" "py_strip a = a" "p \<noteq> []" "has_condition d"
  shows "keys_inv (st\<lparr>trackers := trackers st @ [(a, t)], activation_by_profile := (activation_by_profile st)(p \<mapsto> a),
      next_serial := next_serial st + 1,
      pending_timeouts := (if timeout_ms d \<noteq> None then insert (serial t) (pending_timeouts st) else pending_timeouts st)\<rparr>)"
proof -
  have a: "a \<notin> fst ` set (trackers st)" using fresh(1) by (simp add: map_of_eq_None_iff)
  have p: "tracked_profile u \<noteq> p" if "(b, u) \<in> set (trackers st)" for b u
    using keys_invD(4) [OF inv that] fresh(2) by auto
  have old: "tracker_ok (next_serial st + 1) u \<and> serial u < next_serial st" if "(b, u) \<in> set (trackers st)" for b u
    using keys_invD(2) [OF inv that] by (simp add: tracker_ok_def)
  have "distinct (map fst (trackers st @ [(a, t)]))" using inv a by (simp add: keys_inv_def)
  moreover have "distinct (map (serial \<circ> snd) (trackers st @ [(a, t)]))" using inv old by (fastforce simp: keys_inv_def t)
  moreover have "tracker_ok (next_serial st + 1) t" using ok by (simp add: tracker_ok_def t split: option.split)
  then have "\<forall>(b, u)\<in>set (trackers st @ [(a, t)]). activation u = b \<and> tracker_ok (next_serial st + 1) u"
    using inv old by (auto simp: keys_inv_def t)
  moreover have "((activation_by_profile st)(p \<mapsto> a)) q = Some b
      \<longleftrightarrow> (\<exists>u. (b, u) \<in> set (trackers st @ [(a, t)]) \<and> tracked_profile u = q)" for q b
    using inv p by (auto simp: keys_inv_def t)
  moreover have "(if timeout_ms d \<noteq> None then insert (serial t) (pending_timeouts st) else pending_timeouts st)
      = timed_serials (trackers st @ [(a, t)])"
    using inv by (simp add: keys_inv_def t)
  ultimately show ?thesis by (simp add: keys_inv_def)
qed

text \<open>A fate is applied to every tracker, and a new one may start: what an operation comes to.\<close>

definition one_pass :: "tracker_op \<Rightarrow> ActivationTracker \<Rightarrow> ActivationTracker \<Rightarrow> bool" where
  "one_pass op st st' \<longleftrightarrow> trackers st' = survivors (fate_at op) (trackers st) @ started st op
    \<and> broadcasts st' = broadcasts st @ expiries (fate_at op) (trackers st) @ ended_at_once st op"

lemma remove_trigger_inv: "trigger_inv st \<Longrightarrow> trigger_inv (remove_tracker t st)"
  by (auto simp: trigger_inv_def remove_tracker_def in_set_AList_delete)

lemma broadcasts_trigger_inv [simp]: "trigger_inv (st\<lparr>broadcasts := x\<rparr>) = trigger_inv st"
  by (simp add: trigger_inv_def)

lemma cancel_profile_step:
  assumes "keys_inv st"
  shows "keys_inv (cancel p a st) \<and> one_pass (Cancel p a) st (cancel p a st) \<and> (trigger_inv st \<longrightarrow> trigger_inv (cancel p a st))
    \<and> active_trigger_ids (cancel p a st) = active_trigger_ids st \<and> next_serial (cancel p a st) = next_serial st"
proof -
  define act where "act = (if opt_strip a \<noteq> [] then opt_strip a
    else if opt_strip p \<noteq> [] then (case activation_by_profile st (opt_strip p) of None \<Rightarrow> [] | Some b \<Rightarrow> b) else [])"
  have hit: "fate_at (Cancel p a) u = (if b = act then Dropped else Stays u)" if "(b, u) \<in> set (trackers st)" for b u
  proof -
    note k = keys_invD [OF assms that]
    have ne: "b \<noteq> []" "tracked_profile u \<noteq> []" using k(1,2) by (auto simp: tracker_ok_def)
    have look: "activation_by_profile st q = Some b \<longleftrightarrow> tracked_profile u = q" for q
    proof
      assume "activation_by_profile st q = Some b"
      then obtain v where v: "(b, v) \<in> set (trackers st)" "tracked_profile v = q" using assms by (auto simp: keys_inv_def)
      then show "tracked_profile u = q" using keys_invD(3) [OF assms v(1)] k(3) by simp
    qed (use k(4) in simp)
    have by_profile: "b = (case activation_by_profile st q of None \<Rightarrow> [] | Some c \<Rightarrow> c) \<longleftrightarrow> tracked_profile u = q" for q
    proof (cases "activation_by_profile st q")
      case None
      then show ?thesis using look [of q] ne(1) by simp
    next
      case (Some c)
      then show ?thesis using look [of q] by auto
    qed
    show ?thesis
    proof (cases "opt_strip a = []")
      case True
      then show ?thesis using by_profile [of "opt_strip p"] ne by (simp add: act_def)
    next
      case False
      then show ?thesis using k(1) by (simp add: act_def)
    qed
  qed
  show ?thesis
  proof (cases "map_of (trackers st) act")
    case None
    then have "pop_tracker act st = st" by (simp add: pop_tracker_def)
    then have c: "cancel p a st = st" by (auto simp: cancel_def Let_def act_def opt_strip_def split: if_splits)
    have "act \<notin> fst ` set (trackers st)" using None by (simp add: map_of_eq_None_iff)
    then have "survivors (fate_at (Cancel p a)) (trackers st) = trackers st \<and> expiries (fate_at (Cancel p a)) (trackers st) = []"
      by (intro survivors_all) (use hit in force)
    then show ?thesis using assms by (simp add: c one_pass_def)
  next
    case (Some t)
    have t: "(act, t) \<in> set (trackers st)" using Some by (rule map_of_SomeD)
    have "act \<noteq> []" using keys_invD(1,2) [OF assms t] by (auto simp: tracker_ok_def)
    moreover have "cancel p a st = cancel None (Some act) st" if "py_strip act = act"
      using that \<open>act \<noteq> []\<close> by (simp add: cancel_def Let_def act_def opt_strip_def split: if_splits)
    moreover have "py_strip act = act" using keys_invD(1,2) [OF assms t] by (auto simp: tracker_ok_def)
    ultimately have c: "cancel p a st = remove_tracker t st" using cancel_live [OF assms t] by simp
    have "survivors (fate_at (Cancel p a)) (trackers st) = AList.delete act (trackers st) \<and> expiries (fate_at (Cancel p a)) (trackers st) = []"
      by (intro survivors_delete) (use hit in force)
    then show ?thesis
      using remove_keys_inv [OF assms t] remove_trigger_inv [of st t] keys_invD(1) [OF assms t]
      by (simp add: c one_pass_def) (simp add: remove_tracker_def)
  qed
qed


lemma reset_step:
  assumes "keys_inv st"
  shows "keys_inv (reset st) \<and> trigger_inv (reset st) \<and> one_pass Reset st (reset st)"
proof -
  have fields: "trackers (fold cancel_timeout ts s) = trackers s" "broadcasts (fold cancel_timeout ts s) = broadcasts s"
    "pending_timeouts (fold cancel_timeout ts s) = pending_timeouts s - serial ` set ts" for ts s
    by (induction ts arbitrary: s) (auto simp: cancel_timeout_def)
  have "timed_serials (trackers st) \<subseteq> serial ` snd ` set (trackers st)" using timed_serials_subset by (auto simp: image_image)
  then have "pending_timeouts (reset st) = {}" using assms by (auto simp: reset_def Let_def fields keys_inv_def)
  moreover have "survivors (\<lambda>t. Dropped) ts = [] \<and> expiries (\<lambda>t. Dropped) ts = []" for ts
    by (induction ts) auto
  moreover have "fate_at Reset = (\<lambda>t. Dropped)" by (simp add: fun_eq_iff)
  moreover have "trackers (reset st) = []" "activation_by_profile (reset st) = Map.empty" "broadcasts (reset st) = broadcasts st"
    by (simp_all add: reset_def Let_def fields)
  ultimately show ?thesis by (simp add: keys_inv_def trigger_inv_def one_pass_def)
qed

lemma triggers_keys_inv [simp]: "keys_inv (st\<lparr>active_trigger_ids := x\<rparr>) = keys_inv st"
  by (simp add: keys_inv_def)

lemma trigger_start_step:
  assumes "tracker_inv st"
  shows "tracker_inv (observe_trigger_start x st) \<and> one_pass (TriggerStart x) st (observe_trigger_start x st)"
proof -
  have "survivors (fate_at (TriggerStart x)) ts = ts \<and> expiries (fate_at (TriggerStart x)) ts = []" for ts
    by (intro survivors_all) simp
  then show ?thesis
    using assms by (auto simp: observe_trigger_start_def Let_def tracker_inv_def trigger_inv_def one_pass_def)
qed

lemma survivors_in:
  "(a, u) \<in> set (survivors f ts) \<Longrightarrow> \<exists>t. (a, t) \<in> set ts \<and> f t = Stays u"
  by (induction ts) (auto split: fate.splits, blast+)

lemma trigger_end_step:
  assumes "tracker_inv st"
  shows "tracker_inv (observe_trigger_end x st) \<and> one_pass (TriggerEnd x) st (observe_trigger_end x st)"
proof (cases "opt_strip x = []")
  case True
  then have "survivors (fate_at (TriggerEnd x)) (trackers st) = trackers st \<and> expiries (fate_at (TriggerEnd x)) (trackers st) = []"
    by (intro survivors_all) simp
  moreover have "observe_trigger_end x st = st" using True by (simp add: observe_trigger_end_def opt_strip_def)
  ultimately show ?thesis using assms by (simp add: one_pass_def)
next
  case False
  let ?trig = "opt_strip x" and ?st = "st\<lparr>active_trigger_ids := active_trigger_ids st - {opt_strip x}\<rparr>"
  have st': "observe_trigger_end x st = fold (end_trigger_of ?trig) (map snd (trackers ?st)) ?st"
    using False by (simp add: observe_trigger_end_def opt_strip_def Let_def)
  have "keys_inv ?st" using assms by (simp add: tracker_inv_def)
  from visit_all [OF end_visits this, of "[]" "trackers ?st" ?trig]
  have r: "trackers (observe_trigger_end x st) = survivors (end_fate ?trig) (trackers st)"
      "broadcasts (observe_trigger_end x st) = broadcasts st @ expiries (end_fate ?trig) (trackers st)"
      "keys_inv (observe_trigger_end x st)" "active_trigger_ids (observe_trigger_end x st) = active_trigger_ids st - {?trig}"
    unfolding st' by simp_all
  moreover have "fate_at (TriggerEnd x) = end_fate ?trig" using False by (simp add: fun_eq_iff)
  moreover have "trigger_inv (observe_trigger_end x st)"
    unfolding trigger_inv_def r
  proof (intro ballI, clarify)
    fix a u assume "(a, u) \<in> set (survivors (end_fate ?trig) (trackers st))" "on_trigger_end (policy u)" "trigger u \<noteq> []"
    moreover from survivors_in [OF this(1)] this(2) have "(a, u) \<in> set (trackers st)" "trigger u \<noteq> ?trig"
      by (auto simp: end_fate_def split: if_splits)
    ultimately show "trigger u \<in> active_trigger_ids st - {?trig}" using assms by (auto simp: tracker_inv_def trigger_inv_def)
  qed
  ultimately show ?thesis by (simp add: tracker_inv_def one_pass_def)
qed

lemma record_action_step:
  assumes "tracker_inv st"
  shows "tracker_inv (record_action x st) \<and> one_pass (Action x) st (record_action x st)"
proof -
  let ?trig = "opt_strip x"
  have st': "record_action x st = fold (count_action_of ?trig) (map snd (trackers st)) st"
    by (simp add: record_action_def opt_strip_def)
  have "keys_inv st" using assms by (simp add: tracker_inv_def)
  from visit_all [OF count_visits this, of "[]" "trackers st" ?trig]
  have r: "trackers (record_action x st) = survivors (action_fate ?trig) (trackers st)"
      "broadcasts (record_action x st) = broadcasts st @ expiries (action_fate ?trig) (trackers st)"
      "keys_inv (record_action x st)" "active_trigger_ids (record_action x st) = active_trigger_ids st"
    unfolding st' by simp_all
  moreover have "fate_at (Action x) = action_fate ?trig" by (simp add: fun_eq_iff)
  moreover have "trigger_inv (record_action x st)"
    unfolding trigger_inv_def r
  proof (intro ballI, clarify)
    fix a u assume u: "(a, u) \<in> set (survivors (action_fate ?trig) (trackers st))" "on_trigger_end (policy u)" "trigger u \<noteq> []"
    obtain t where t: "(a, t) \<in> set (trackers st)" "action_fate ?trig t = Stays u" using survivors_in [OF u(1)] by blast
    have "trigger u = trigger t" "policy u = policy t" using t(2) by (auto simp: action_fate_def split: option.splits if_splits)
    then show "trigger u \<in> active_trigger_ids st" using assms t(1) u(2,3) by (auto simp: tracker_inv_def trigger_inv_def)
  qed
  ultimately show ?thesis by (simp add: tracker_inv_def one_pass_def)
qed


lemma timeout_step:
  assumes "tracker_inv st"
  shows "tracker_inv (timeout_after n st) \<and> one_pass (TimeoutFires n) st (timeout_after n st)"
proof (cases "n \<in> pending_timeouts st")
  case False
  then have "serial t \<noteq> n" if "(a, t) \<in> set (trackers st)" "timeout_ms (policy t) \<noteq> None" for a t
  proof -
    have "pending_timeouts st = timed_serials (trackers st)" using assms by (simp add: tracker_inv_def keys_inv_def)
    then show ?thesis using timed_serials_in [OF that] False by auto
  qed
  then have "\<forall>x\<in>set (trackers st). fate_at (TimeoutFires n) (snd x) = Stays (snd x)"
    by (metis fate_at.simps(7) prod.collapse)
  then have "survivors (fate_at (TimeoutFires n)) (trackers st) = trackers st \<and> expiries (fate_at (TimeoutFires n)) (trackers st) = []"
    by (rule survivors_all)
  then show ?thesis using False assms by (simp add: timeout_after_def one_pass_def)
next
  case True
  have inv: "keys_inv st" using assms by (simp add: tracker_inv_def)
  obtain a t where t: "(a, t) \<in> set (trackers st)" "serial t = n" "timeout_ms (policy t) \<noteq> None"
    using True inv by (auto simp: keys_inv_def timed_serials_def)
  have only: "u = t \<and> b = a" if "(b, u) \<in> set (trackers st)" "serial u = n" for b u
  proof -
    have "inj_on (serial \<circ> snd) (set (trackers st))" using inv by (simp add: keys_inv_def distinct_map)
    from inj_onD [OF this _ that(1) t(1)] t(2) that(2) show ?thesis by simp
  qed
  have "find (\<lambda>t. serial t = n) (map snd (trackers st)) = Some t"
  proof (cases "find (\<lambda>t. serial t = n) (map snd (trackers st))")
    case None
    then show ?thesis using t(1,2) by (force simp: find_None_iff)
  next
    case (Some u)
    then have "serial u = n" "u \<in> snd ` set (trackers st)" by (auto simp: find_Some_iff intro!: imageI)
    then show ?thesis using Some only by auto
  qed
  moreover define st1 where "st1 = st\<lparr>pending_timeouts := pending_timeouts st - {n}\<rparr>"
  moreover have "expire_tracker t r st1 = (remove_tracker t st1)\<lparr>broadcasts := broadcasts st1 @ [(tracked_profile t, a, r)]\<rparr>" for r
    using keys_invD [OF inv t(1)] by (intro expire_at) (auto simp: st1_def tracker_ok_def)
  moreover have "remove_tracker t st1 = remove_tracker t st" by (simp add: st1_def remove_tracker_def t(2))
  ultimately have e: "timeout_after n st = (remove_tracker t st)\<lparr>broadcasts := broadcasts st @ [(tracked_profile t, a, ''timeout'')]\<rparr>"
    using True by (simp add: timeout_after_def)
  have "survivors (fate_at (TimeoutFires n)) (trackers st) = AList.delete a (trackers st)
      \<and> expiries (fate_at (TimeoutFires n)) (trackers st) = [(tracked_profile t, a, ''timeout'')]"
  proof (rule expiries_one [OF _ t(1)])
    show "\<forall>x\<in>set (trackers st). fate_at (TimeoutFires n) (snd x) = (if fst x = a then Expires ''timeout'' else Stays (snd x))"
    proof clarify
      fix b u assume u: "(b, u) \<in> set (trackers st)"
      show "fate_at (TimeoutFires n) (snd (b, u)) = (if fst (b, u) = a then Expires ''timeout'' else Stays (snd (b, u)))"
      proof (cases "b = a")
        case True
        then have "u = t" using keys_invD(3) [OF inv u] keys_invD(3) [OF inv t(1)] by simp
        then show ?thesis using t(2,3) True by simp
      next
        case False
        then have "serial u \<noteq> n" using only [OF u] by blast
        then show ?thesis using False by simp
      qed
    qed
  qed (use inv in \<open>simp add: keys_inv_def\<close>)
  then show ?thesis
    using remove_keys_inv [OF inv t(1)] remove_trigger_inv [of st t] assms keys_invD(1) [OF inv t(1)]
    by (simp add: e tracker_inv_def one_pass_def) (simp add: remove_tracker_def)
qed

lemma track_step:
  assumes inv: "tracker_inv st" and fresh: "map_of (trackers st) (py_strip a) = None"
  shows "tracker_inv (track p a trig d st) \<and> one_pass (Track p a trig d) st (track p a trig d st)"
proof (cases "accepts p a d")
  case False
  then have "survivors (fate_at (Track p a trig d)) (trackers st) = trackers st \<and> expiries (fate_at (Track p a trig d)) (trackers st) = []"
    by (intro survivors_all) simp
  moreover have "track p a trig d st = st" using False by (auto simp: track_def accepts_def Let_def)
  ultimately show ?thesis using inv False by (simp add: one_pass_def)
next
  case True
  define pn act trg where "pn = py_strip p" and "act = py_strip a" and "trg = py_strip trig"
  have ok: "pn \<noteq> []" "act \<noteq> []" "has_condition d" "py_strip act = act"
    using True by (simp_all add: accepts_def pn_def act_def)
  have keys: "keys_inv st" using inv by (simp add: tracker_inv_def)
  define st1 where "st1 = cancel (Some p) None st"
  have st1: "keys_inv st1" "trigger_inv st1" "active_trigger_ids st1 = active_trigger_ids st" "next_serial st1 = next_serial st"
      "one_pass (Cancel (Some p) None) st st1"
    using cancel_profile_step [OF keys, of "Some p" None] inv by (simp_all add: st1_def tracker_inv_def)
  have same_fate: "fate_at (Cancel (Some p) None) = fate_at (Track p a trig d)"
    using True by (simp add: fun_eq_iff opt_strip_def)
  have old: "\<exists>t. (b, t) \<in> set (trackers st) \<and> tracked_profile u \<noteq> pn" if "(b, u) \<in> set (trackers st1)" for b u
  proof -
    have "(b, u) \<in> set (survivors (fate_at (Track p a trig d)) (trackers st))"
      using that st1(5) by (simp add: one_pass_def same_fate)
    from survivors_in [OF this] show ?thesis using True by (auto simp: pn_def split: if_splits)
  qed
  have free: "map_of (trackers st1) act = None" "activation_by_profile st1 pn = None"
  proof -
    show "map_of (trackers st1) act = None"
      using old fresh by (force simp: map_of_eq_None_iff act_def)
    show "activation_by_profile st1 pn = None"
      using old st1(1) by (cases "activation_by_profile st1 pn") (auto simp: keys_inv_def)
  qed
  define t where "t = \<lparr>serial = next_serial st1, tracked_profile = pn, activation = act, trigger = trg, policy = d,
      action_count = 0, expired = False\<rparr>"
  define st4 where "st4 = st1\<lparr>trackers := trackers st1 @ [(act, t)], activation_by_profile := (activation_by_profile st1)(pn \<mapsto> act),
      next_serial := next_serial st1 + 1,
      pending_timeouts := (if timeout_ms d \<noteq> None then insert (serial t) (pending_timeouts st1) else pending_timeouts st1)\<rparr>"
  have keys4: "keys_inv st4" unfolding st4_def by (rule start_keys_inv [OF st1(1) free t_def ok(2,4,1,3)])
  have t4: "(act, t) \<in> set (trackers st4)" by (simp add: st4_def)
  have run: "track p a trig d st = (if ends_at_once st trig d then expire_tracker t ''trigger_end'' st4 else st4)"
  proof -
    have first: "(case activation_by_profile st pn of None \<Rightarrow> st
        | Some previous \<Rightarrow> if previous \<noteq> [] \<and> previous \<noteq> act then cancel None (Some previous) st else st) = st1"
    proof (cases "activation_by_profile st pn")
      case None
      then show ?thesis using ok(1) by (simp add: st1_def cancel_def pn_def)
    next
      case (Some b)
      then obtain u where u: "(b, u) \<in> set (trackers st)" using keys by (auto simp: keys_inv_def)
      have "b \<noteq> []" "py_strip b = b" using keys_invD(1,2) [OF keys u] by (auto simp: tracker_ok_def)
      moreover have "b \<noteq> act" using fresh keys_invD(3) [OF keys u] by (auto simp: act_def)
      ultimately show ?thesis using Some ok(1) by (simp add: st1_def cancel_def pn_def Let_def)
    qed
    have up: "AList.update act t (trackers st1) = trackers st1 @ [(act, t)]"
      using free(1) by (intro update_absent) (simp add: map_of_eq_None_iff)
    have add: "add_tracker t st1 = st4" using up by (simp add: add_tracker_def Let_def st4_def t_def)
    have "\<not> (pn = [] \<or> act = [] \<or> \<not> has_condition d)" using ok by simp
    moreover have "active_trigger_ids st4 = active_trigger_ids st" by (simp add: st4_def st1(3))
    ultimately show ?thesis
      unfolding track_def Let_def pn_def [symmetric] act_def [symmetric] trg_def [symmetric] first free(1) option.case
        t_def [symmetric] add ends_at_once_def
      by (simp only: if_False)
  qed
  show ?thesis
  proof (cases "ends_at_once st trig d")
    case once: True
    have del: "AList.delete act (trackers st1 @ [(act, t)]) = trackers st1"
      using delete_middle [of act "trackers st1" "[]" t] free(1) by (simp add: map_of_eq_None_iff)
    have "track p a trig d st = (remove_tracker t st4)\<lparr>broadcasts := broadcasts st4 @ [(pn, act, ''trigger_end'')]\<rparr>"
      using run once expire_live [OF keys4 t4] by (simp add: t_def)
    moreover have "trackers (remove_tracker t st4) = trackers st1" using del by (simp add: remove_tracker_def st4_def t_def)
    moreover have "trigger_inv (remove_tracker t st4)"
      using st1(2) calculation(2) by (simp add: trigger_inv_def) (simp add: remove_tracker_def st4_def)
    ultimately show ?thesis
      using remove_keys_inv [OF keys4 t4] st1(5) once True
      by (simp add: tracker_inv_def one_pass_def same_fate st4_def pn_def act_def)
  next
    case False
    have "trigger_inv st4" using st1(2,3) False by (auto simp: trigger_inv_def st4_def t_def ends_at_once_def trg_def)
    then show ?thesis
      using run False keys4 st1(4,5) True
      by (simp add: tracker_inv_def one_pass_def same_fate st4_def t_def pn_def act_def trg_def)
  qed
qed

lemma tracker_step_ok:
  assumes "tracker_inv st" "tracker_guard st op"
  shows "tracker_inv (tracker_step st op) \<and> one_pass op st (tracker_step st op)"
proof (cases op)
  case (Cancel p a)
  then show ?thesis using cancel_profile_step assms(1) by (simp add: tracker_inv_def)
next
  case Reset
  then show ?thesis using reset_step assms(1) by (simp add: tracker_inv_def)
qed (use assms trigger_start_step trigger_end_step record_action_step timeout_step track_step in simp_all)


interpretation activations: inv_machine new_tracker_state tracker_guard tracker_step tracker_inv
proof
  show "tracker_inv new_tracker_state"
    by (simp add: tracker_inv_def keys_inv_def trigger_inv_def new_tracker_state_def)
qed (use tracker_step_ok in blast)

section \<open>Properties\<close>

text \<open>C30. In every run of the tracker with fresh activation identifiers: each profile has at most one live
  activation and the index by profile is exactly the live activations; a live activation has a condition
  that can still end it, its count is below its limit and, if it ends with its trigger, the trigger is
  down; the pending timeout tasks are exactly those of the live activations with a timeout.\<close>

theorem activation_tracker_invariant:
  assumes "guarded_run tracker_guard tracker_step new_tracker_state ops"
  shows "tracker_inv (run_steps tracker_step new_tracker_state ops)"
  by (rule activations.inv_run [OF assms])

text \<open>C18. Every operation comes to one pass over the live activations, each treated by itself: it stays
  (with its action counted), it is dropped without a message (cancelled, replaced by a new activation of
  its profile, reset), or it is removed with exactly one message that names the condition that ended it; an
  accepted activation is added at the end, or ends at once when its trigger is up already.\<close>

theorem activation_fates:
  assumes "guarded_run tracker_guard tracker_step new_tracker_state ops"
    and "tracker_guard (run_steps tracker_step new_tracker_state ops) op"
  defines "st \<equiv> run_steps tracker_step new_tracker_state ops"
  shows "trackers (tracker_step st op) = survivors (fate_at op) (trackers st) @ started st op
    \<and> broadcasts (tracker_step st op) = broadcasts st @ expiries (fate_at op) (trackers st) @ ended_at_once st op"
  using tracker_step_ok [OF activations.inv_run [OF assms(1)] assms(2)] unfolding st_def one_pass_def by blast

definition demo_lifetime :: ProfileDeactivationPolicy where
  "demo_lifetime = \<lparr>on_trigger_end = True, after_actions = Some 2, timeout_ms = Some 500\<rparr>"

definition demo_activation_ops :: "tracker_op list" where
  "demo_activation_ops = [TriggerStart (Some ''kb:f1''), Track '' Game '' ''a1'' ''kb:f1'' demo_lifetime, Action (Some ''kb:x''),
     TriggerStart (Some ''kb:f2''), Track ''Edit'' ''b1'' ''kb:f2'' demo_lifetime]"

lemma demo_activation_ops_ok: "guarded_run tracker_guard tracker_step new_tracker_state demo_activation_ops"
  by code_simp

theorem activation_tracker_invariant_witness:
  "tracker_inv (run_steps tracker_step new_tracker_state demo_activation_ops)"
  by (rule activation_tracker_invariant [OF demo_activation_ops_ok])

theorem activation_fates_witness:
  "broadcasts (tracker_step (run_steps tracker_step new_tracker_state demo_activation_ops) (Action None)) = [(''Game'', ''a1'', ''action_count'')]
   \<and> map fst (trackers (tracker_step (run_steps tracker_step new_tracker_state demo_activation_ops) (Action None))) = [''b1'']"
proof -
  have "expiries (fate_at (Action None)) (trackers (run_steps tracker_step new_tracker_state demo_activation_ops)) = [(''Game'', ''a1'', ''action_count'')]"
    "map fst (survivors (fate_at (Action None)) (trackers (run_steps tracker_step new_tracker_state demo_activation_ops))) = [''b1'']"
    "broadcasts (run_steps tracker_step new_tracker_state demo_activation_ops) = []" by code_simp+
  with activation_fates [OF demo_activation_ops_ok, of "Action None"] show ?thesis by simp
qed

end
