(* ===== verification/Recording_Spool.thy ===== *)
theory Recording_Spool
  imports Action_Model
begin

text \<open>
  The bounded event buffer of a macro recording: \<open>keymasqd/recording_spool.py\<close>.  The event loop appends
  events; a flush task takes full chunks off a queue and has a thread append them to the spool file.  A step
  of the machine is an append, one of the points at which the flush task goes on, or a point at which
  \<open>finish\<close> is not waiting for the task.  A line of the file is the event it encodes, so a file is the list of
  its events.  An append comes from the event loop's thread, and none after \<open>finish\<close> has begun, as
  the recorder ignores events once it is stopped.
\<close>

section \<open>Events\<close>

type_synonym recording_event = "(string \<times> json) list"

definition event_t_us :: "recording_event \<Rightarrow> int" where
  "event_t_us event =
    (case json_get_default event ''t_us'' (JInt 0) of
       JInt i \<Rightarrow> i
     | JBool b \<Rightarrow> if b then 1 else 0
     | _ \<Rightarrow> 0)"

text \<open>\<open>int(t_us / 1000)\<close> rounds towards zero.\<close>

definition event_ms :: "recording_event \<Rightarrow> int" where
  "event_ms event = (let t = event_t_us event in if 0 \<le> t then t div 1000 else - ((- t) div 1000))"

definition event_device_type :: "(json \<Rightarrow> string) \<Rightarrow> recording_event \<Rightarrow> string" where
  "event_device_type repr event =
    (if text_or repr (json_get_default event ''macro_action'' (JString [])) []
        \<in> {''mouse_move_abs'', ''mouse_move_rel'', ''mouse_move_natural_abs''} then ''mouse''
     else let device_type = text_or repr (json_get_default event ''device_type'' (JString ''other'')) ''other''
          in if device_type = ''macro'' then [] else device_type)"

definition estimate_event_bytes :: "(json \<Rightarrow> string) \<Rightarrow> recording_event \<Rightarrow> nat" where
  "estimate_event_bytes repr event =
    foldl (\<lambda>size (key, v). size + (length key + length (py_str repr v) + 8)) 64 event"

section \<open>The spool\<close>

record spool_limits =
  memory_event_limit :: nat
  memory_byte_limit :: nat
  max_pending_flush_chunks :: nat

definition spool_limits_of :: "int \<Rightarrow> int \<Rightarrow> int \<Rightarrow> spool_limits" where
  "spool_limits_of events bytes chunks =
    \<lparr>memory_event_limit = nat (max 1 events), memory_byte_limit = nat (max 1 bytes),
     max_pending_flush_chunks = nat (max 1 chunks)\<rparr>"

datatype spool_error = FellBehind | WriteError

record RecordingSnapshot =
  snap_duration_ms :: int
  snap_device_types :: "string list"
  snap_event_count :: nat
  snap_file :: "recording_event list option"
  snap_memory :: "recording_event list"

text \<open>\<open>RecordingSnapshot.iter_events\<close>.\<close>

definition iter_events :: "RecordingSnapshot \<Rightarrow> recording_event list" where
  "iter_events s = (case snap_file s of None \<Rightarrow> [] | Some lines \<Rightarrow> lines) @ snap_memory s"

text \<open>The field \<open>flush_task\<close> holds when the task runs, \<open>writing\<close> is the chunk its thread has.\<close>

record RecordingSpool =
  memory_events :: "recording_event list"
  memory_bytes :: nat
  pending_flush_chunks :: "recording_event list list"
  flush_task :: bool
  writing :: "recording_event list option"
  spool_file :: "recording_event list option"
  fatal_error :: "spool_error option"
  event_count :: nat
  duration_ms :: int
  device_types :: "string set"
  finishing :: bool
  finish_result :: "(spool_error + RecordingSnapshot) option"

definition new_spool :: RecordingSpool where
  "new_spool = \<lparr>memory_events = [], memory_bytes = 0, pending_flush_chunks = [], flush_task = False,
     writing = None, spool_file = None, fatal_error = None, event_count = 0, duration_ms = 0,
     device_types = {}, finishing = False, finish_result = None\<rparr>"

definition ensure_flush_task :: "RecordingSpool \<Rightarrow> RecordingSpool" where
  "ensure_flush_task sp = sp\<lparr>flush_task := True\<rparr>"

definition queue_memory_chunk :: "spool_limits \<Rightarrow> RecordingSpool \<Rightarrow> RecordingSpool" where
  "queue_memory_chunk lims sp =
    (if memory_events sp = [] then sp
     else if max_pending_flush_chunks lims \<le> length (pending_flush_chunks sp)
     then sp\<lparr>fatal_error := Some FellBehind\<rparr>
     else ensure_flush_task
       (sp\<lparr>pending_flush_chunks := pending_flush_chunks sp @ [memory_events sp],
           memory_events := [], memory_bytes := 0\<rparr>))"

definition append_event ::
  "(json \<Rightarrow> string) \<Rightarrow> spool_limits \<Rightarrow> recording_event \<Rightarrow> RecordingSpool \<Rightarrow> RecordingSpool"
where
  "append_event repr lims event sp =
    (if fatal_error sp \<noteq> None then sp
     else let kind = event_device_type repr event;
              sp' = sp\<lparr>memory_events := memory_events sp @ [event],
                       memory_bytes := memory_bytes sp + estimate_event_bytes repr event,
                       event_count := event_count sp + 1,
                       duration_ms := max (duration_ms sp) (event_ms event),
                       device_types := (if kind \<noteq> [] then insert kind (device_types sp) else device_types sp)\<rparr>
          in if memory_event_limit lims \<le> length (memory_events sp') \<or> memory_byte_limit lims \<le> memory_bytes sp'
             then queue_memory_chunk lims sp' else sp')"

text \<open>The flush task: it takes a chunk, its thread wrote the chunk, or failed after some lines (and
  perhaps before the file was there), or the queue is empty and it ends.\<close>

definition take_chunk :: "RecordingSpool \<Rightarrow> RecordingSpool" where
  "take_chunk sp =
    (case pending_flush_chunks sp of
       [] \<Rightarrow> sp
     | c # cs \<Rightarrow> sp\<lparr>pending_flush_chunks := cs, writing := Some c\<rparr>)"

definition file_lines :: "RecordingSpool \<Rightarrow> recording_event list" where
  "file_lines sp = (case spool_file sp of None \<Rightarrow> [] | Some lines \<Rightarrow> lines)"

definition chunk_written :: "RecordingSpool \<Rightarrow> RecordingSpool" where
  "chunk_written sp =
    (case writing sp of
       None \<Rightarrow> sp
     | Some c \<Rightarrow> sp\<lparr>spool_file := Some (file_lines sp @ c), writing := None\<rparr>)"

definition chunk_failed :: "bool \<Rightarrow> nat \<Rightarrow> RecordingSpool \<Rightarrow> RecordingSpool" where
  "chunk_failed created n sp =
    (case writing sp of
       None \<Rightarrow> sp
     | Some c \<Rightarrow>
         sp\<lparr>spool_file := (if created \<or> spool_file sp \<noteq> None then Some (file_lines sp @ take n c) else None),
            writing := None, fatal_error := Some WriteError, flush_task := False\<rparr>)"

definition flush_done :: "RecordingSpool \<Rightarrow> RecordingSpool" where
  "flush_done sp = sp\<lparr>flush_task := False\<rparr>"

text \<open>\<open>discard\<close>: what remains once the flush task, if any, has ended.\<close>

definition discard :: "RecordingSpool \<Rightarrow> RecordingSpool" where
  "discard sp = sp\<lparr>memory_events := [], memory_bytes := 0, pending_flush_chunks := [], flush_task := False,
     writing := None, spool_file := None\<rparr>"

definition snapshot_of :: "RecordingSpool \<Rightarrow> RecordingSnapshot" where
  "snapshot_of sp =
    \<lparr>snap_duration_ms = duration_ms sp, snap_device_types = sorted_list_of_set (device_types sp),
     snap_event_count = event_count sp, snap_file = spool_file sp, snap_memory = memory_events sp\<rparr>"

text \<open>\<open>finish\<close> from one of its checks to the next wait, or to its result.\<close>

definition finish_check :: "spool_limits \<Rightarrow> RecordingSpool \<Rightarrow> RecordingSpool" where
  "finish_check lims sp =
    (case fatal_error sp of
       Some e \<Rightarrow> (discard sp)\<lparr>finish_result := Some (Inl e)\<rparr>
     | None \<Rightarrow>
         if spool_file sp \<noteq> None \<and> memory_events sp \<noteq> [] then queue_memory_chunk lims sp
         else sp\<lparr>memory_events := [], memory_bytes := 0, spool_file := None,
                 finish_result := Some (Inr (snapshot_of sp))\<rparr>)"

section \<open>Runs\<close>

datatype spool_op =
    Append recording_event
  | TakeChunk
  | ChunkWritten
  | ChunkFailed bool nat
  | FlushDone
  | Finish
  | FinishCheck

fun spool_step :: "(json \<Rightarrow> string) \<Rightarrow> spool_limits \<Rightarrow> RecordingSpool \<Rightarrow> spool_op \<Rightarrow> RecordingSpool" where
  "spool_step repr lims sp (Append e) = append_event repr lims e sp"
| "spool_step repr lims sp TakeChunk = take_chunk sp"
| "spool_step repr lims sp ChunkWritten = chunk_written sp"
| "spool_step repr lims sp (ChunkFailed created n) = chunk_failed created n sp"
| "spool_step repr lims sp FlushDone = flush_done sp"
| "spool_step repr lims sp Finish = sp\<lparr>finishing := True\<rparr>"
| "spool_step repr lims sp FinishCheck = finish_check lims sp"

fun spool_enabled :: "RecordingSpool \<Rightarrow> spool_op \<Rightarrow> bool" where
  "spool_enabled sp (Append e) = (\<not> finishing sp)"
| "spool_enabled sp TakeChunk = (flush_task sp \<and> writing sp = None \<and> pending_flush_chunks sp \<noteq> [])"
| "spool_enabled sp ChunkWritten = (writing sp \<noteq> None)"
| "spool_enabled sp (ChunkFailed created n) = (writing sp \<noteq> None)"
| "spool_enabled sp FlushDone = (flush_task sp \<and> writing sp = None \<and> pending_flush_chunks sp = [])"
| "spool_enabled sp Finish = (\<not> finishing sp)"
| "spool_enabled sp FinishCheck =
    (finishing sp \<and> finish_result sp = None \<and> (\<not> flush_task sp \<or> fatal_error sp \<noteq> None))"

section \<open>What is kept\<close>

fun appended :: "spool_op list \<Rightarrow> recording_event list" where
  "appended [] = []"
| "appended (Append e # ops) = e # appended ops"
| "appended (_ # ops) = appended ops"

text \<open>All events of the spool, in order: the file, the chunk being written, the queue and the memory.\<close>

definition spooled :: "RecordingSpool \<Rightarrow> recording_event list" where
  "spooled sp = file_lines sp @ (case writing sp of None \<Rightarrow> [] | Some c \<Rightarrow> c)
    @ concat (pending_flush_chunks sp) @ memory_events sp"

definition snapshot_for :: "(json \<Rightarrow> string) \<Rightarrow> recording_event list \<Rightarrow> RecordingSnapshot \<Rightarrow> bool" where
  "snapshot_for repr es s \<longleftrightarrow> iter_events s = es \<and> snap_event_count s = length es
    \<and> snap_duration_ms s = Max (insert 0 (event_ms ` set es))
    \<and> snap_device_types s = sorted_list_of_set (event_device_type repr ` set es - {[]})"

definition counters_for :: "(json \<Rightarrow> string) \<Rightarrow> recording_event list \<Rightarrow> RecordingSpool \<Rightarrow> bool" where
  "counters_for repr es sp \<longleftrightarrow> event_count sp = length es \<and> duration_ms sp = Max (insert 0 (event_ms ` set es))
    \<and> device_types sp = event_device_type repr ` set es - {[]}"

definition spool_inv :: "(json \<Rightarrow> string) \<Rightarrow> recording_event list \<Rightarrow> RecordingSpool \<Rightarrow> bool" where
  "spool_inv repr es sp \<longleftrightarrow>
    (fatal_error sp = None \<longrightarrow> counters_for repr es sp \<and> (finish_result sp = None \<longrightarrow> spooled sp = es))
    \<and> (fatal_error sp = None \<and> \<not> flush_task sp \<longrightarrow> pending_flush_chunks sp = [])
    \<and> (writing sp \<noteq> None \<longrightarrow> flush_task sp)
    \<and> (finish_result sp \<noteq> None \<longrightarrow> finishing sp \<and> \<not> flush_task sp \<and> pending_flush_chunks sp = [])
    \<and> (case finish_result sp of
         None \<Rightarrow> True
       | Some (Inl e) \<Rightarrow> fatal_error sp = Some e
       | Some (Inr s) \<Rightarrow> fatal_error sp = None \<and> snapshot_for repr es s)"

definition limits_ok :: "spool_limits \<Rightarrow> bool" where
  "limits_ok lims \<longleftrightarrow> 0 < memory_event_limit lims \<and> 0 < memory_byte_limit lims \<and> 0 < max_pending_flush_chunks lims"

lemma spool_limits_ok: "limits_ok (spool_limits_of events bytes chunks)"
  by (simp add: limits_ok_def spool_limits_of_def less_max_iff_disj)

definition within_limits :: "spool_limits \<Rightarrow> RecordingSpool \<Rightarrow> bool" where
  "within_limits lims sp \<longleftrightarrow> length (memory_events sp) \<le> memory_event_limit lims
    \<and> length (pending_flush_chunks sp) \<le> max_pending_flush_chunks lims
    \<and> (\<forall>c\<in>set (pending_flush_chunks sp) \<union> set_option (writing sp). c \<noteq> [] \<and> length c \<le> memory_event_limit lims)
    \<and> (fatal_error sp = None \<longrightarrow> length (memory_events sp) < memory_event_limit lims \<and> memory_bytes sp < memory_byte_limit lims)"

lemma queue_chunk_cases:
  obtains "memory_events sp = []" "queue_memory_chunk lims sp = sp"
  | "memory_events sp \<noteq> []" "max_pending_flush_chunks lims \<le> length (pending_flush_chunks sp)"
      "queue_memory_chunk lims sp = sp\<lparr>fatal_error := Some FellBehind\<rparr>"
  | "memory_events sp \<noteq> []" "length (pending_flush_chunks sp) < max_pending_flush_chunks lims"
      "queue_memory_chunk lims sp = sp\<lparr>pending_flush_chunks := pending_flush_chunks sp @ [memory_events sp],
        memory_events := [], memory_bytes := 0, flush_task := True\<rparr>"
  by (cases "memory_events sp = []"; cases "max_pending_flush_chunks lims \<le> length (pending_flush_chunks sp)")
     (auto simp: queue_memory_chunk_def ensure_flush_task_def)

lemma queue_inv:
  assumes "spool_inv repr es sp" "finish_result sp = None"
  shows "spool_inv repr es (queue_memory_chunk lims sp) \<and> finish_result (queue_memory_chunk lims sp) = None
    \<and> finishing (queue_memory_chunk lims sp) = finishing sp"
  by (rule queue_chunk_cases [of sp lims])
     (use assms in \<open>simp_all add: spool_inv_def spooled_def file_lines_def counters_for_def\<close>)

lemma append_inv:
  assumes inv: "spool_inv repr es sp" and run: "\<not> finishing sp"
  shows "spool_inv repr (es @ [e]) (append_event repr lims e sp)"
proof -
  have none: "finish_result sp = None" using inv run by (auto simp: spool_inv_def)
  show ?thesis
  proof (cases "fatal_error sp")
    case (Some x)
    then show ?thesis using inv none by (simp add: append_event_def spool_inv_def)
  next
    case None
    let ?kind = "event_device_type repr e"
    let ?sp = "sp\<lparr>memory_events := memory_events sp @ [e], memory_bytes := memory_bytes sp + estimate_event_bytes repr e,
        event_count := event_count sp + 1, duration_ms := max (duration_ms sp) (event_ms e),
        device_types := (if ?kind \<noteq> [] then insert ?kind (device_types sp) else device_types sp)\<rparr>"
    have c: "counters_for repr es sp" "spooled sp = es" using inv None none by (auto simp: spool_inv_def)
    have "Max (insert 0 (event_ms ` set (es @ [e]))) = max (Max (insert 0 (event_ms ` set es))) (event_ms e)"
    proof -
      have "insert 0 (event_ms ` set (es @ [e])) = insert (event_ms e) (insert 0 (event_ms ` set es))" by auto
      then show ?thesis using Max_insert [of "insert 0 (event_ms ` set es)" "event_ms e"] by (simp add: max.commute)
    qed
    then have "counters_for repr (es @ [e]) ?sp" using c(1) by (auto simp: counters_for_def)
    moreover have "spooled ?sp = es @ [e]" using c(2) by (simp add: spooled_def file_lines_def)
    ultimately have "spool_inv repr (es @ [e]) ?sp" using inv None none by (simp add: spool_inv_def)
    with queue_inv [OF this, of lims] none show ?thesis by (simp add: append_event_def None Let_def)
  qed
qed

lemma finish_inv:
  assumes inv: "spool_inv repr es sp" and run: "finishing sp" "finish_result sp = None" "\<not> flush_task sp \<or> fatal_error sp \<noteq> None"
  shows "spool_inv repr es (finish_check lims sp)"
proof (cases "fatal_error sp")
  case (Some e)
  then show ?thesis using inv run by (simp add: finish_check_def spool_inv_def discard_def)
next
  case None
  then have idle: "\<not> flush_task sp" "writing sp = None" "pending_flush_chunks sp = []" using inv run by (auto simp: spool_inv_def)
  show ?thesis
  proof (cases "spool_file sp \<noteq> None \<and> memory_events sp \<noteq> []")
    case True
    then show ?thesis using queue_inv [OF inv run(2), of lims] None by (simp add: finish_check_def)
  next
    case False
    have "counters_for repr es sp" "spooled sp = es" using inv None run by (auto simp: spool_inv_def)
    then have "snapshot_for repr es (snapshot_of sp)"
      using idle by (simp add: snapshot_for_def snapshot_of_def iter_events_def spooled_def file_lines_def counters_for_def)
    then show ?thesis using inv None False run idle by (auto simp: finish_check_def spool_inv_def counters_for_def)
  qed
qed

lemma spool_step_inv:
  assumes "spool_inv repr es sp" "spool_enabled sp op"
  shows "spool_inv repr (es @ appended [op]) (spool_step repr lims sp op)"
proof (cases op)
  case (Append e)
  then show ?thesis using append_inv assms by simp
next
  case FinishCheck
  then show ?thesis using finish_inv assms by simp
next
  case TakeChunk
  then obtain c cs where "pending_flush_chunks sp = c # cs" "writing sp = None" "flush_task sp"
    using assms(2) by (cases "pending_flush_chunks sp") auto
  then show ?thesis using TakeChunk assms(1)
    by (auto simp: take_chunk_def spool_inv_def spooled_def file_lines_def counters_for_def split: option.splits sum.splits)
next
  case ChunkWritten
  then obtain c where "writing sp = Some c" using assms(2) by auto
  then show ?thesis using ChunkWritten assms(1)
    by (auto simp: chunk_written_def spool_inv_def spooled_def file_lines_def counters_for_def)
next
  case (ChunkFailed created n)
  then obtain c where "writing sp = Some c" using assms(2) by auto
  then show ?thesis using ChunkFailed assms(1) by (auto simp: chunk_failed_def spool_inv_def)
next
  case FlushDone
  then show ?thesis using assms by (auto simp: flush_done_def spool_inv_def spooled_def file_lines_def counters_for_def)
next
  case Finish
  then show ?thesis using assms by (auto simp: spool_inv_def spooled_def file_lines_def counters_for_def)
qed


section \<open>Bounds\<close>

lemma queue_bounds:
  assumes "within_limits lims (sp\<lparr>fatal_error := Some x\<rparr>)" "limits_ok lims"
    and "memory_events sp = [] \<Longrightarrow> within_limits lims sp"
  shows "within_limits lims (queue_memory_chunk lims sp)"
  by (rule queue_chunk_cases [of sp lims]) (use assms in \<open>auto simp: within_limits_def limits_ok_def\<close>)

lemma append_bounds:
  assumes "within_limits lims sp" "limits_ok lims"
  shows "within_limits lims (append_event repr lims e sp)"
proof (cases "fatal_error sp")
  case (Some x)
  then show ?thesis using assms by (simp add: append_event_def)
next
  case None
  let ?kind = "event_device_type repr e"
  let ?sp = "sp\<lparr>memory_events := memory_events sp @ [e], memory_bytes := memory_bytes sp + estimate_event_bytes repr e,
      event_count := event_count sp + 1, duration_ms := max (duration_ms sp) (event_ms e),
      device_types := (if ?kind \<noteq> [] then insert ?kind (device_types sp) else device_types sp)\<rparr>"
  have full: "within_limits lims (?sp\<lparr>fatal_error := Some FellBehind\<rparr>)"
    using assms(1) None by (simp add: within_limits_def)
  show ?thesis
  proof (cases "memory_event_limit lims \<le> length (memory_events ?sp) \<or> memory_byte_limit lims \<le> memory_bytes ?sp")
    case True
    have "within_limits lims (queue_memory_chunk lims ?sp)" by (rule queue_bounds [OF full assms(2)]) simp
    with True show ?thesis by (simp add: append_event_def None Let_def)
  next
    case False
    then have "within_limits lims ?sp" using full by (simp add: within_limits_def None)
    with False show ?thesis by (simp add: append_event_def None Let_def)
  qed
qed

lemma spool_step_bounds:
  assumes "within_limits lims sp" "limits_ok lims" "spool_enabled sp op"
  shows "within_limits lims (spool_step repr lims sp op)"
proof (cases op)
  case (Append e)
  then show ?thesis using append_bounds assms by simp
next
  case FinishCheck
  have "within_limits lims (queue_memory_chunk lims sp)"
    by (rule queue_bounds [where x = FellBehind]) (use assms in \<open>auto simp: within_limits_def\<close>)
  then show ?thesis
    using FinishCheck assms by (auto simp: finish_check_def within_limits_def discard_def limits_ok_def split: option.split)
next
  case TakeChunk
  then show ?thesis using assms by (auto simp: take_chunk_def within_limits_def split: list.splits)
qed (use assms in \<open>auto simp: chunk_written_def chunk_failed_def flush_done_def within_limits_def split: option.splits\<close>)

section \<open>Finishing\<close>

definition work_left :: "RecordingSpool \<Rightarrow> nat" where
  "work_left sp = (if memory_events sp \<noteq> [] then 4 else 0) + 2 * length (pending_flush_chunks sp)
    + (if writing sp \<noteq> None then 1 else 0) + (if flush_task sp then 1 else 0) + (if finish_result sp = None then 1 else 0)"

lemma finishing_step:
  assumes inv: "spool_inv repr es sp" and fin: "finishing sp" and en: "spool_enabled sp op" and lims: "limits_ok lims"
  shows "work_left (spool_step repr lims sp op) < work_left sp \<and> finishing (spool_step repr lims sp op)"
proof (cases op)
  case TakeChunk
  then show ?thesis using en fin by (cases "pending_flush_chunks sp") (auto simp: take_chunk_def work_left_def)
next
  case FinishCheck
  then have r: "finish_result sp = None" "\<not> flush_task sp \<or> fatal_error sp \<noteq> None" using en by auto
  show ?thesis
  proof (cases "fatal_error sp = None \<and> spool_file sp \<noteq> None \<and> memory_events sp \<noteq> []")
    case True
    then have "\<not> flush_task sp" "pending_flush_chunks sp = []" using r inv by (auto simp: spool_inv_def)
    then have "queue_memory_chunk lims sp = sp\<lparr>pending_flush_chunks := [memory_events sp], memory_events := [],
        memory_bytes := 0, flush_task := True\<rparr>"
      using True lims by (simp add: queue_memory_chunk_def ensure_flush_task_def limits_ok_def)
    with True \<open>\<not> flush_task sp\<close> \<open>pending_flush_chunks sp = []\<close> fin FinishCheck show ?thesis
      by (simp add: finish_check_def work_left_def)
  next
    case False
    then show ?thesis using r fin FinishCheck
      by (cases "fatal_error sp") (auto simp: finish_check_def work_left_def discard_def)
  qed
qed (use en fin in \<open>auto simp: chunk_written_def chunk_failed_def flush_done_def work_left_def split: option.splits\<close>)

lemma finishing_enabled:
  assumes "spool_inv repr es sp" "finishing sp" "finish_result sp = None"
  shows "\<exists>op\<in>{TakeChunk, ChunkWritten, FlushDone, FinishCheck}. spool_enabled sp op"
  using assms by (cases "flush_task sp"; cases "writing sp"; cases "pending_flush_chunks sp") auto

lemma spool_run:
  assumes "limits_ok lims" "guarded_run spool_enabled (spool_step repr lims) sp ops"
    and "spool_inv repr es sp" "within_limits lims sp"
  shows "spool_inv repr (es @ appended ops) (run_steps (spool_step repr lims) sp ops)
    \<and> within_limits lims (run_steps (spool_step repr lims) sp ops)"
  using assms(2-4)
proof (induction ops arbitrary: sp es)
  case (Cons op ops)
  have "appended (op # ops) = appended [op] @ appended ops" by (cases op) simp_all
  with Cons.prems Cons.IH [of "spool_step repr lims sp op" "es @ appended [op]"] spool_step_inv [of repr es sp op lims]
    spool_step_bounds [OF Cons.prems(3) assms(1)]
  show ?case by simp
qed simp

lemma new_spool_inv: "spool_inv repr [] new_spool" "limits_ok lims \<Longrightarrow> within_limits lims new_spool"
  by (simp_all add: spool_inv_def new_spool_def counters_for_def spooled_def file_lines_def within_limits_def limits_ok_def)

lemma finishing_run:
  assumes "limits_ok lims" "guarded_run spool_enabled (spool_step repr lims) sp later"
    and "spool_inv repr es sp" "finishing sp"
  shows "length later + work_left (run_steps (spool_step repr lims) sp later) \<le> work_left sp
    \<and> finishing (run_steps (spool_step repr lims) sp later)"
  using assms(2-4)
proof (induction later arbitrary: sp es)
  case (Cons op later)
  have en: "spool_enabled sp op" using Cons.prems(1) by simp
  note less = finishing_step [OF Cons.prems(2,3) en assms(1)] and inv = spool_step_inv [OF Cons.prems(2) en, of lims]
  show ?case using Cons.IH [OF _ inv] Cons.prems(1) less by fastforce
qed simp

section \<open>Properties\<close>

text \<open>C19. However appends, the flush task and \<open>finish\<close> interleave, a snapshot that \<open>finish\<close> returns holds
  exactly the events that were appended, in their order, with their number, the largest time stamp and the
  sorted device types; when an event was lost to a failed write or a full queue there is no snapshot.\<close>

theorem spool_snapshot_complete:
  assumes "guarded_run spool_enabled (spool_step repr (spool_limits_of events bytes chunks)) new_spool ops"
    and "finish_result (run_steps (spool_step repr (spool_limits_of events bytes chunks)) new_spool ops) = Some (Inr s)"
  shows "iter_events s = appended ops \<and> snap_event_count s = length (appended ops)
    \<and> snap_duration_ms s = Max (insert 0 (event_ms ` set (appended ops)))
    \<and> snap_device_types s = sorted_list_of_set (event_device_type repr ` set (appended ops) - {[]})"
  using spool_run [OF spool_limits_ok assms(1) new_spool_inv(1) new_spool_inv(2) [OF spool_limits_ok]] assms(2)
  by (auto simp: spool_inv_def snapshot_for_def)

text \<open>C26. In every run the spool keeps its limits: the memory holds fewer events and bytes than its limits
  unless the spool has failed, the queue no later chunks than allowed, no chunk is empty or longer than the
  memory's limit, and all buffered events together fit the queue, the memory and the chunk being written.\<close>

theorem spool_memory_bounded:
  assumes "guarded_run spool_enabled (spool_step repr (spool_limits_of events bytes chunks)) new_spool ops"
  defines "lims \<equiv> spool_limits_of events bytes chunks"
    and "sp \<equiv> run_steps (spool_step repr (spool_limits_of events bytes chunks)) new_spool ops"
  shows "within_limits lims sp \<and> length (memory_events sp) + length (concat (pending_flush_chunks sp))
      + (case writing sp of None \<Rightarrow> 0 | Some c \<Rightarrow> length c) \<le> (max_pending_flush_chunks lims + 2) * memory_event_limit lims"
proof -
  have w: "within_limits lims sp"
    using spool_run [OF spool_limits_ok assms(1) new_spool_inv(1) new_spool_inv(2) [OF spool_limits_ok]]
    by (simp add: lims_def sp_def)
  have sum: "length (concat cs) \<le> length cs * n" if "\<forall>c\<in>set cs. length c \<le> n" for cs :: "recording_event list list" and n
    using that by (induction cs) auto
  have "length (concat (pending_flush_chunks sp)) \<le> length (pending_flush_chunks sp) * memory_event_limit lims"
    by (rule sum) (use w in \<open>auto simp: within_limits_def\<close>)
  also have "\<dots> \<le> max_pending_flush_chunks lims * memory_event_limit lims"
    using w by (intro mult_le_mono1) (simp add: within_limits_def)
  finally have "length (concat (pending_flush_chunks sp)) \<le> max_pending_flush_chunks lims * memory_event_limit lims" .
  moreover have "(case writing sp of None \<Rightarrow> 0 | Some c \<Rightarrow> length c) \<le> memory_event_limit lims"
    using w by (auto simp: within_limits_def split: option.split)
  ultimately show ?thesis using w by (auto simp: within_limits_def algebra_simps)
qed

text \<open>C27. Once \<open>finish\<close> has begun it returns: whatever the flush task does, only boundedly many steps are
  left, and a run that cannot go on has the result.\<close>

theorem spool_finish_returns:
  assumes "guarded_run spool_enabled (spool_step repr (spool_limits_of events bytes chunks)) new_spool ops"
    and "finishing (run_steps (spool_step repr (spool_limits_of events bytes chunks)) new_spool ops)"
    and "guarded_run spool_enabled (spool_step repr (spool_limits_of events bytes chunks)) new_spool (ops @ later)"
  defines "after \<equiv> \<lambda>os. run_steps (spool_step repr (spool_limits_of events bytes chunks)) new_spool os"
  shows "length later \<le> work_left (after ops)
    \<and> (finish_result (after (ops @ later)) = None \<longrightarrow> (\<exists>op. spool_enabled (after (ops @ later)) op))"
proof -
  note inv = spool_run [OF spool_limits_ok _ new_spool_inv(1) new_spool_inv(2) [OF spool_limits_ok]]
  have "guarded_run spool_enabled (spool_step repr (spool_limits_of events bytes chunks)) (after ops) later"
    using assms(3) by (simp add: after_def)
  from finishing_run [OF spool_limits_ok this conjunct1 [OF inv [OF assms(1)], folded after_def]] assms(2)
  have "length later \<le> work_left (after ops)" "finishing (after (ops @ later))" by (simp_all add: after_def)
  then show ?thesis using finishing_enabled [OF conjunct1 [OF inv [OF assms(3)]]] unfolding after_def by blast
qed

definition demo_recorded :: "int \<Rightarrow> recording_event" where
  "demo_recorded t = [(''device_type'', JString ''mouse''), (''t_us'', JInt t)]"

lemma demo_recorded_bytes: "estimate_event_bytes repr (demo_recorded t) = 64 + (11 + 5 + 8) + (4 + length (int_text t) + 8)"
  by (simp add: estimate_event_bytes_def demo_recorded_def)

lemma demo_recorded_fields: "event_ms (demo_recorded t) = (if 0 \<le> t then t div 1000 else - ((- t) div 1000))"
  "event_device_type repr (demo_recorded t) = ''mouse''"
  by (simp_all add: demo_recorded_def event_ms_def event_t_us_def event_device_type_def json_get_default_def text_or_def Let_def)

lemma demo_texts: "length (int_text 0) = 1" "length (int_text 5000) = 4" "length (int_text 7000) = 4"
  by (simp_all add: int_text_def nat_text.simps)

lemmas demo_run = demo_recorded_bytes demo_recorded_fields demo_texts spool_limits_of_def append_event_def queue_memory_chunk_def
  ensure_flush_task_def take_chunk_def chunk_written_def flush_done_def finish_check_def file_lines_def new_spool_def Let_def

definition demo_spool_ops :: "spool_op list" where
  "demo_spool_ops = [Append (demo_recorded 0), Append (demo_recorded 5000), TakeChunk, Append (demo_recorded 7000), Finish,
     ChunkWritten, FlushDone]"

abbreviation demo_spool :: "spool_op list \<Rightarrow> RecordingSpool" where
  "demo_spool ops \<equiv> run_steps (spool_step (\<lambda>_. []) (spool_limits_of 2 1000 1)) new_spool ops"

lemma demo_spool_ok:
  "guarded_run spool_enabled (spool_step (\<lambda>_. []) (spool_limits_of 2 1000 1)) new_spool demo_spool_ops"
  "guarded_run spool_enabled (spool_step (\<lambda>_. []) (spool_limits_of 2 1000 1)) new_spool
    (demo_spool_ops @ [FinishCheck, TakeChunk, ChunkWritten, FlushDone, FinishCheck])"
  by (simp_all add: demo_spool_ops_def demo_run)

theorem spool_snapshot_complete_witness:
  "\<exists>s. finish_result (demo_spool (demo_spool_ops @ [FinishCheck, TakeChunk, ChunkWritten, FlushDone, FinishCheck])) = Some (Inr s)
    \<and> iter_events s = [demo_recorded 0, demo_recorded 5000, demo_recorded 7000]"
proof -
  let ?ops = "demo_spool_ops @ [FinishCheck, TakeChunk, ChunkWritten, FlushDone, FinishCheck]"
  obtain s where s: "finish_result (demo_spool ?ops) = Some (Inr s)" by (simp add: demo_spool_ops_def demo_run)
  have "appended ?ops = [demo_recorded 0, demo_recorded 5000, demo_recorded 7000]" by (simp add: demo_spool_ops_def)
  with spool_snapshot_complete [OF demo_spool_ok(2) s] s show ?thesis by auto
qed

theorem spool_memory_bounded_witness: "length (memory_events (demo_spool demo_spool_ops)) \<le> 2"
  using spool_memory_bounded [OF demo_spool_ok(1)] by (simp add: within_limits_def spool_limits_of_def)

theorem spool_finish_returns_witness: "5 \<le> work_left (demo_spool demo_spool_ops)"
proof -
  have "finishing (demo_spool demo_spool_ops)" by (simp add: demo_spool_ops_def demo_run)
  from spool_finish_returns [OF demo_spool_ok(1) this demo_spool_ok(2)] show ?thesis by simp
qed

end
