(* ===== verification/Type_Macro.thy ===== *)
theory Type_Macro
  imports Action_Model
begin

text \<open>
  Macros that type a text: \<open>common/macro_compile.py\<close>.  The text is cut into tokens (characters and
  \<open><...>\<close> controls), and every token becomes timed key events, mouse moves, waits or macro calls.  The
  environment holds what is not under this repository: the codes of the evdev package by name, the compiled
  keyboard layout, and the Unicode functions \<open>upper\<close> and \<open>nfkc\<close>.  An event is the JSON object the code builds.
\<close>

section \<open>Keys and layouts\<close>

datatype TypedKey = TypedKey (key_code: int) (key_modifiers: "int list") (dead_keys: "TypedKey list")

definition plain_key :: "int \<Rightarrow> TypedKey" where
  "plain_key c = TypedKey c [] []"

record type_env =
  ecode :: "string \<Rightarrow> int"
  find_ecode :: "string \<Rightarrow> int option"
  is_ev_key :: "int \<Rightarrow> bool"
  layout_chars :: "char \<Rightarrow> TypedKey option"
  upper :: "string \<Rightarrow> string"
  nfkc :: "string \<Rightarrow> string"

definition TYPE_MACRO_NAMED_KEY_CODES :: "(string \<times> string) list" where
  "TYPE_MACRO_NAMED_KEY_CODES =
    [(''space'', ''KEY_SPACE''), (''enter'', ''KEY_ENTER''), (''tab'', ''KEY_TAB''), (''esc'', ''KEY_ESC''),
     (''backspace'', ''KEY_BACKSPACE''), (''delete'', ''KEY_DELETE''), (''up'', ''KEY_UP''), (''down'', ''KEY_DOWN''),
     (''left'', ''KEY_LEFT''), (''right'', ''KEY_RIGHT''), (''home'', ''KEY_HOME''), (''end'', ''KEY_END''),
     (''pageup'', ''KEY_PAGEUP''), (''pagedown'', ''KEY_PAGEDOWN'')]"

definition TYPE_MACRO_SHORTCUT_MODIFIER_CODES :: "(string \<times> string) list" where
  "TYPE_MACRO_SHORTCUT_MODIFIER_CODES =
    [(''ctrl'', ''KEY_LEFTCTRL''), (''control'', ''KEY_LEFTCTRL''), (''shift'', ''KEY_LEFTSHIFT''), (''alt'', ''KEY_LEFTALT''),
     (''super'', ''KEY_LEFTMETA''), (''meta'', ''KEY_LEFTMETA''), (''win'', ''KEY_LEFTMETA'')]"

definition TYPE_MACRO_CLICK_BUTTON_CODES :: "(string \<times> string) list" where
  "TYPE_MACRO_CLICK_BUTTON_CODES =
    [(''click'', ''BTN_LEFT''), (''lclick'', ''BTN_LEFT''), (''leftclick'', ''BTN_LEFT''),
     (''rclick'', ''BTN_RIGHT''), (''rightclick'', ''BTN_RIGHT'')]"

datatype type_macro_error =
    ShortcutIncomplete
  | ShortcutOnlyModifiers
  | UnknownModifier string
  | DuplicateModifier string
  | ShortcutDeadKey string
  | UnknownShortcutKey string
  | ShortcutNotKeyboard string
  | MacroNameMissing
  | MoveArguments
  | ClickArguments string
  | RepeatArguments string
  | TooManyRepeats string
  | NotAnInteger string
  | NotNonNegative string
  | NotPositive string
  | WaitArguments
  | WaitOrder
  | UnsupportedCharacter nat char
  | LayoutCannotType char
  | UnicodeUnavailable

section \<open>Text\<close>

text \<open>\<open>text.replace("\r\n", "\n").replace("\r", "\n")\<close>.\<close>

fun normalize_unicode_type_macro_text :: "string \<Rightarrow> string" where
  "normalize_unicode_type_macro_text (c # d # s) =
    (if c = CHR 0x0D
     then CHR 0x0A # normalize_unicode_type_macro_text (if d = CHR 0x0A then s else d # s)
     else c # normalize_unicode_type_macro_text (d # s))"
| "normalize_unicode_type_macro_text [c] = (if c = CHR 0x0D then [CHR 0x0A] else [c])"
| "normalize_unicode_type_macro_text [] = []"

fun split_on :: "char \<Rightarrow> string \<Rightarrow> string list" where
  "split_on c [] = [[]]"
| "split_on c (x # s) =
    (if x = c then [] # split_on c s
     else case split_on c s of p # ps \<Rightarrow> (x # p) # ps | [] \<Rightarrow> [[x]])"

definition removeprefix :: "string \<Rightarrow> string \<Rightarrow> string" where
  "removeprefix p s = (if take (length p) s = p then drop (length p) s else s)"

definition startswith :: "string \<Rightarrow> string \<Rightarrow> bool" where
  "startswith p s \<longleftrightarrow> take (length p) s = p"

definition is_type_macro_call_tag :: "string \<Rightarrow> bool" where
  "is_type_macro_call_tag raw_tag \<longleftrightarrow> py_lower (take 6 raw_tag) = ''macro:''"

text \<open>The text after a \<open><\<close>, up to the next \<open>>\<close>, and what follows it.\<close>

definition cut_tag :: "string \<Rightarrow> (string \<times> string) option" where
  "cut_tag s = (case dropWhile (\<lambda>c. c \<noteq> CHR ''>'') s of
     [] \<Rightarrow> None
   | _ # after \<Rightarrow> Some (takeWhile (\<lambda>c. c \<noteq> CHR ''>'') s, after))"

lemma cut_tag_length: "cut_tag s = Some (tag, after) \<Longrightarrow> length after < length s"
proof -
  assume "cut_tag s = Some (tag, after)"
  then have "dropWhile (\<lambda>c. c \<noteq> CHR ''>'') s = CHR ''>'' # after \<or> (\<exists>c. dropWhile (\<lambda>c. c \<noteq> CHR ''>'') s = c # after)"
    by (auto simp: cut_tag_def split: list.splits)
  then have "length (dropWhile (\<lambda>c. c \<noteq> CHR ''>'') s) = Suc (length after)" by auto
  then show ?thesis using length_dropWhile_le [of "\<lambda>c. c \<noteq> CHR ''>''" s] by simp
qed

text \<open>\<open>_split_type_macro_calls\<close>: \<open>part\<close> is the text since the last call, \<open>escaped\<close> whether a backslash
  comes before.\<close>

function split_calls :: "string \<Rightarrow> bool \<Rightarrow> string \<Rightarrow> (string \<times> bool) list" where
  "split_calls part escaped [] = [(part, False)]"
| "split_calls part escaped (c # s) =
    (if c \<noteq> CHR ''<'' \<or> escaped then split_calls (part @ [c]) (c = CHR 0x5C) s
     else case cut_tag s of
            None \<Rightarrow> [(part @ c # s, False)]
          | Some (tag, after) \<Rightarrow>
              if is_type_macro_call_tag (py_strip tag)
              then (part, False) # (c # tag @ ''>'', True) # split_calls [] False after
              else split_calls (part @ c # tag @ ''>'') False after)"
  by pat_completeness auto
termination
  by (relation "measure (\<lambda>(part, escaped, s). length s)") (auto dest: cut_tag_length)

text \<open>The rows of the table whose character is below 256; the others have no \<open>char\<close>.\<close>

definition TYPE_MACRO_TEXT_TRANSLATION :: "(char \<times> string) list" where
  "TYPE_MACRO_TEXT_TRANSLATION = [(CHR 0xA0, '' ''), (CHR 0xAD, [])]"

definition translate_text :: "string \<Rightarrow> string" where
  "translate_text s =
    concat (map (\<lambda>c. case map_of TYPE_MACRO_TEXT_TRANSLATION c of Some r \<Rightarrow> r | None \<Rightarrow> [c]) s)"

definition normalize_typed_text :: "type_env \<Rightarrow> string \<Rightarrow> string" where
  "normalize_typed_text env s = nfkc env (translate_text (nfkc env s))"

definition normalize_outside_macro_calls :: "type_env \<Rightarrow> string \<Rightarrow> string" where
  "normalize_outside_macro_calls env s =
    concat (map (\<lambda>(part, is_call). if is_call then part else normalize_typed_text env part) (split_calls [] False s))"

text \<open>Normalizing is repeated until nothing changes; \<open>None\<close> would be a text that never settles.\<close>

partial_function (option) normalize_until_stable :: "type_env \<Rightarrow> string \<Rightarrow> string option" where
  "normalize_until_stable env s =
    (let again = normalize_outside_macro_calls env s
     in if again = s then Some s else normalize_until_stable env again)"

definition normalize_type_macro_text :: "type_env \<Rightarrow> string \<Rightarrow> string option" where
  "normalize_type_macro_text env s = normalize_until_stable env (normalize_unicode_type_macro_text s)"

definition normalize_type_macro_binding_text :: "type_env \<Rightarrow> bool \<Rightarrow> string \<Rightarrow> string option" where
  "normalize_type_macro_binding_text env use_unicode_input s =
    (if use_unicode_input then Some (normalize_unicode_type_macro_text s) else normalize_type_macro_text env s)"

section \<open>Tokens\<close>

datatype type_token =
    TChar char
  | TWait string
  | TMacro string
  | TMove string
  | TClick string
  | TShortcut string
  | TKey string

definition parse_int :: "string \<Rightarrow> string \<Rightarrow> type_macro_error + int" where
  "parse_int v label = (case int_of_text v of None \<Rightarrow> Inl (NotAnInteger label) | Some i \<Rightarrow> Inr i)"

definition parse_non_negative_int :: "string \<Rightarrow> string \<Rightarrow> type_macro_error + int" where
  "parse_non_negative_int v label =
    (case parse_int v label of
       Inl e \<Rightarrow> Inl e
     | Inr i \<Rightarrow> if i < 0 then Inl (NotNonNegative label) else Inr i)"

definition parse_positive_int :: "string \<Rightarrow> string \<Rightarrow> type_macro_error + int" where
  "parse_positive_int v label =
    (case parse_int v label of
       Inl e \<Rightarrow> Inl e
     | Inr i \<Rightarrow> if i \<le> 0 then Inl (NotPositive label) else Inr i)"

definition parse_two_ints ::
  "string \<Rightarrow> string \<Rightarrow> string \<Rightarrow> string \<Rightarrow> type_macro_error + int \<times> int"
where
  "parse_two_ints a label_a b label_b =
    (case parse_int a label_a of
       Inl e \<Rightarrow> Inl e
     | Inr x \<Rightarrow> (case parse_int b label_b of Inl e \<Rightarrow> Inl e | Inr y \<Rightarrow> Inr (x, y)))"

definition parse_type_macro_mouse_move_control :: "string \<Rightarrow> type_macro_error + type_token" where
  "parse_type_macro_mouse_move_control tag =
    (case map py_strip (split_on (CHR '':'') (removeprefix ''move:'' tag)) of
       [a, b] \<Rightarrow>
         if a = [] \<or> b = [] then Inl MoveArguments
         else (case parse_two_ints a ''move x'' b ''move y'' of
                 Inl e \<Rightarrow> Inl e
               | Inr (x, y) \<Rightarrow> Inr (TMove (int_text x @ '':'' @ int_text y)))
     | _ \<Rightarrow> Inl MoveArguments)"

definition type_macro_mouse_click_token ::
  "int \<Rightarrow> string list \<Rightarrow> string \<Rightarrow> type_macro_error + type_token"
where
  "type_macro_mouse_click_token button_code args nm =
    (case args of
       [] \<Rightarrow> Inr (TClick (int_text button_code))
     | [a, b] \<Rightarrow>
         if a = [] \<or> b = [] then Inl (ClickArguments nm)
         else (case parse_two_ints a (nm @ '' x'') b (nm @ '' y'') of
                 Inl e \<Rightarrow> Inl e
               | Inr (x, y) \<Rightarrow> Inr (TClick (int_text button_code @ '':'' @ int_text x @ '':'' @ int_text y)))
     | _ \<Rightarrow> Inl (ClickArguments nm))"

text \<open>\<open>None\<close> for a tag that is no click.\<close>

definition parse_type_macro_click_control :: "type_env \<Rightarrow> string \<Rightarrow> (type_macro_error + type_token list) option" where
  "parse_type_macro_click_control env tag =
    (let parts = map py_strip (split_on (CHR '':'') tag); nm = hd parts; args = tl parts
     in if nm = ''doubleclick''
        then (let button = ecode env ''BTN_LEFT''
              in case type_macro_mouse_click_token button args nm of
                   Inl e \<Rightarrow> Some (Inl e)
                 | Inr first \<Rightarrow> Some (Inr [first, TClick (int_text button)]))
        else case map_of TYPE_MACRO_CLICK_BUTTON_CODES nm of
               None \<Rightarrow> None
             | Some button \<Rightarrow>
                 (case type_macro_mouse_click_token (ecode env button) args nm of
                    Inl e \<Rightarrow> Some (Inl e)
                  | Inr t \<Rightarrow> Some (Inr [t])))"

definition parse_type_macro_named_key_control :: "string \<Rightarrow> (type_macro_error + string \<times> nat) option" where
  "parse_type_macro_named_key_control tag =
    (if CHR '':'' \<notin> set tag
     then (if map_of TYPE_MACRO_NAMED_KEY_CODES tag = None then None else Some (Inr (tag, 1)))
     else let parts = map py_strip (split_on (CHR '':'') tag); nm = hd parts
          in if map_of TYPE_MACRO_NAMED_KEY_CODES nm = None then None
             else if length parts \<noteq> 2 then Some (Inl (RepeatArguments nm))
             else case parse_positive_int (parts ! 1) (nm @ '' repeat count'') of
                    Inl e \<Rightarrow> Some (Inl e)
                  | Inr n \<Rightarrow> if 100 < n then Some (Inl (TooManyRepeats nm)) else Some (Inr (nm, nat n)))"

definition type_macro_control_tokens :: "type_env \<Rightarrow> string \<Rightarrow> (type_macro_error + type_token list) option" where
  "type_macro_control_tokens env raw_tag =
    (if is_type_macro_call_tag raw_tag
     then let nm = py_strip (drop 6 raw_tag)
          in Some (if nm = [] then Inl MacroNameMissing else Inr [TMacro nm])
     else let tag = py_lower raw_tag
          in if tag = ''settle'' then Some (Inr [TWait (int_text 300)])
             else if startswith ''wait:'' tag then Some (Inr [TWait (removeprefix ''wait:'' tag)])
             else if startswith ''shortcut:'' tag
             then (let shortcut = py_strip (removeprefix ''shortcut:'' tag)
                   in Some (if shortcut = [] then Inl ShortcutIncomplete else Inr [TShortcut shortcut]))
             else if startswith ''move:'' tag
             then Some (case parse_type_macro_mouse_move_control tag of Inl e \<Rightarrow> Inl e | Inr t \<Rightarrow> Inr [t])
             else case parse_type_macro_click_control env tag of
                    Some r \<Rightarrow> Some r
                  | None \<Rightarrow>
                      (case parse_type_macro_named_key_control tag of
                         None \<Rightarrow> None
                       | Some (Inl e) \<Rightarrow> Some (Inl e)
                       | Some (Inr (nm, n)) \<Rightarrow> Some (Inr (replicate n (TKey nm)))))"

definition prepend :: "'a list \<Rightarrow> 'e + 'a list \<Rightarrow> 'e + 'a list" where
  "prepend xs r = (case r of Inl e \<Rightarrow> Inl e | Inr ys \<Rightarrow> Inr (xs @ ys))"

function type_macro_tokens :: "type_env \<Rightarrow> string \<Rightarrow> type_macro_error + type_token list" where
  "type_macro_tokens env [] = Inr []"
| "type_macro_tokens env (c # s) =
    (if c = CHR 0x5C \<and> s \<noteq> [] \<and> hd s = CHR ''<'' then prepend [TChar (CHR ''<'')] (type_macro_tokens env (tl s))
     else if c \<noteq> CHR ''<'' then prepend [TChar c] (type_macro_tokens env s)
     else case cut_tag s of
            None \<Rightarrow> prepend [TChar c] (type_macro_tokens env s)
          | Some (tag, after) \<Rightarrow>
              (case type_macro_control_tokens env (py_strip tag) of
                 Some (Inl e) \<Rightarrow> Inl e
               | Some (Inr ts) \<Rightarrow> prepend ts (type_macro_tokens env after)
               | None \<Rightarrow> prepend (map TChar (c # tag @ ''>'')) (type_macro_tokens env after)))"
  by pat_completeness auto
termination
  by (relation "measure (\<lambda>(env, s). length s)") (auto dest: cut_tag_length simp: neq_Nil_conv)

section \<open>Events\<close>

type_synonym event_object = "(string \<times> json) list"

definition key_event_object :: "type_env \<Rightarrow> string \<Rightarrow> int \<Rightarrow> int \<Rightarrow> int \<Rightarrow> event_object" where
  "key_event_object env device_type code v t_us =
    [(''device_type'', JString device_type), (''type'', JInt (ecode env ''EV_KEY'')), (''code'', JInt code),
     (''value'', JInt v), (''t_us'', JInt t_us)]"

definition macro_event :: "string \<Rightarrow> int \<Rightarrow> event_object \<Rightarrow> event_object" where
  "macro_event action t_us extra =
    [(''device_type'', JString ''macro''), (''type'', JInt 0), (''code'', JInt 0), (''value'', JInt 0),
     (''t_us'', JInt t_us), (''macro_action'', JString action)] @ extra"

text \<open>What an operation appends, with the time after it.\<close>

type_synonym timed = "event_object list \<times> int"

fun press_modifiers :: "type_env \<Rightarrow> int list \<Rightarrow> int \<Rightarrow> int \<Rightarrow> timed" where
  "press_modifiers env [] t settle = ([], t)"
| "press_modifiers env (m # ms) t settle =
    (let (es, t') = press_modifiers env ms (t + settle) settle in (key_event_object env ''keyboard'' m 1 t # es, t'))"

fun release_modifiers :: "type_env \<Rightarrow> int list \<Rightarrow> int \<Rightarrow> int \<Rightarrow> timed" where
  "release_modifiers env [] t settle = ([], t)"
| "release_modifiers env (m # ms) t settle =
    (let (es, t') = release_modifiers env ms (t + settle) settle
     in (key_event_object env ''keyboard'' m 0 (t + settle) # es, t'))"

definition append_chord_events :: "type_env \<Rightarrow> int list \<Rightarrow> int \<Rightarrow> int \<Rightarrow> int \<Rightarrow> int \<Rightarrow> timed" where
  "append_chord_events env mods k t down_ms settle =
    (let (before, t1) = press_modifiers env mods t settle;
         t2 = t1 + down_ms * 1000;
         (later, t3) = release_modifiers env (rev mods) t2 settle
     in (before @ [key_event_object env ''keyboard'' k 1 t1, key_event_object env ''keyboard'' k 0 t2] @ later, t3))"

text \<open>The presses of a compose sequence, with a pause before each but the first.\<close>

fun append_presses :: "type_env \<Rightarrow> TypedKey list \<Rightarrow> int \<Rightarrow> int \<Rightarrow> int \<Rightarrow> timed" where
  "append_presses env [] t down_ms settle = ([], t)"
| "append_presses env (p # ps) t down_ms settle =
    (let (es, t1) = append_chord_events env (key_modifiers p) (key_code p) t down_ms settle;
         (es', t2) = append_presses env ps (if ps = [] then t1 else t1 + settle) down_ms settle
     in (es @ es', t2))"

definition append_direct_key_events :: "type_env \<Rightarrow> TypedKey \<Rightarrow> int \<Rightarrow> int \<Rightarrow> int \<Rightarrow> timed" where
  "append_direct_key_events env k t down_ms settle = append_presses env (dead_keys k @ [k]) t down_ms settle"

fun append_all_keys :: "type_env \<Rightarrow> TypedKey list \<Rightarrow> int \<Rightarrow> int \<Rightarrow> int \<Rightarrow> timed" where
  "append_all_keys env [] t down_ms settle = ([], t)"
| "append_all_keys env (k # ks) t down_ms settle =
    (let (es, t1) = append_direct_key_events env k t down_ms settle;
         (es', t2) = append_all_keys env ks t1 down_ms settle
     in (es @ es', t2))"

section \<open>Keys of shortcuts\<close>

definition layout_key :: "type_env \<Rightarrow> char \<Rightarrow> type_macro_error + TypedKey" where
  "layout_key env c = (case layout_chars env c of None \<Rightarrow> Inl (LayoutCannotType c) | Some k \<Rightarrow> Inr k)"

text \<open>A character that is no named key: the values of key tokens are names.\<close>

definition resolve_type_macro_key :: "type_env \<Rightarrow> string \<Rightarrow> type_macro_error + TypedKey" where
  "resolve_type_macro_key env v =
    (case map_of TYPE_MACRO_NAMED_KEY_CODES v of
       Some k \<Rightarrow> Inr (plain_key (ecode env k))
     | None \<Rightarrow> (case v of [c] \<Rightarrow> layout_key env c | _ \<Rightarrow> Inl (UnknownShortcutKey v)))"

definition underscored :: "string \<Rightarrow> string" where
  "underscored s = map (\<lambda>c. if c = CHR ''-'' then CHR ''_'' else c) s"

text \<open>\<open>resolve_key_or_button\<close>: \<open>None\<close> stands for its \<open>ValueError\<close>s.\<close>

definition resolve_key_or_button :: "type_env \<Rightarrow> string \<Rightarrow> (string \<times> int) option" where
  "resolve_key_or_button env nm =
    (let n = upper env (py_strip nm);
         full = (if startswith ''KEY_'' n \<or> startswith ''BTN_'' n then n
                 else if startswith ''BTN'' n then ''BTN_'' @ drop 3 n else ''KEY_'' @ n);
         spelled = underscored full
     in if n = [] then None
        else case find_ecode env spelled of
               None \<Rightarrow> None
             | Some code \<Rightarrow>
                 if \<not> is_ev_key env code then None
                 else Some (if startswith ''BTN_'' spelled then ''mouse'' else ''keyboard'', code))"

definition resolve_type_macro_shortcut_key :: "type_env \<Rightarrow> string \<Rightarrow> type_macro_error + TypedKey" where
  "resolve_type_macro_shortcut_key env v =
    (case map_of TYPE_MACRO_NAMED_KEY_CODES v of
       Some k \<Rightarrow> Inr (plain_key (ecode env k))
     | None \<Rightarrow>
         (case v of
            [c] \<Rightarrow> layout_key env c
          | _ \<Rightarrow> (case resolve_key_or_button env v of
                   None \<Rightarrow> Inl (UnknownShortcutKey v)
                 | Some (device_type, code) \<Rightarrow>
                     if device_type \<noteq> ''keyboard'' then Inl (ShortcutNotKeyboard v) else Inr (plain_key code))))"

fun shortcut_modifiers :: "type_env \<Rightarrow> int list \<Rightarrow> string list \<Rightarrow> type_macro_error + int list" where
  "shortcut_modifiers env codes [] = Inr codes"
| "shortcut_modifiers env codes (nm # names) =
    (case map_of TYPE_MACRO_SHORTCUT_MODIFIER_CODES nm of
       None \<Rightarrow> Inl (UnknownModifier nm)
     | Some k \<Rightarrow>
         if ecode env k \<in> set codes then Inl (DuplicateModifier nm)
         else shortcut_modifiers env (codes @ [ecode env k]) names)"

definition add_missing :: "int list \<Rightarrow> int list \<Rightarrow> int list" where
  "add_missing codes extra = fold (\<lambda>c cs. if c \<in> set cs then cs else cs @ [c]) extra codes"

definition parse_type_macro_shortcut :: "type_env \<Rightarrow> string \<Rightarrow> type_macro_error + int list \<times> int" where
  "parse_type_macro_shortcut env shortcut =
    (let parts = map py_strip (split_on (CHR ''+'') shortcut)
     in if length parts < 2 \<or> [] \<in> set parts then Inl ShortcutIncomplete
        else if map_of TYPE_MACRO_SHORTCUT_MODIFIER_CODES (last parts) \<noteq> None then Inl ShortcutOnlyModifiers
        else case shortcut_modifiers env [] (butlast parts) of
               Inl e \<Rightarrow> Inl e
             | Inr codes \<Rightarrow>
                 (case resolve_type_macro_shortcut_key env (last parts) of
                    Inl e \<Rightarrow> Inl e
                  | Inr k \<Rightarrow>
                      if dead_keys k \<noteq> [] then Inl (ShortcutDeadKey (last parts))
                      else Inr (add_missing codes (key_modifiers k), key_code k)))"

section \<open>Events of a token\<close>

definition natural_move_event :: "int \<Rightarrow> int \<Rightarrow> int \<Rightarrow> bool \<Rightarrow> event_object" where
  "natural_move_event x y t_us stop_on_failure =
    macro_event ''mouse_move_natural_abs'' t_us
      [(''x'', JInt x), (''y'', JInt y), (''speed'', JFloat 100000), (''jitter'', JFloat 0), (''curve'', JString ''linear''),
       (''tolerance'', JInt 2), (''max_duration_ms'', JInt 3000), (''stop_on_failure'', JBool stop_on_failure)]"

definition append_type_macro_mouse_move_event :: "string \<Rightarrow> int \<Rightarrow> type_macro_error + timed" where
  "append_type_macro_mouse_move_event v t =
    (case split_on (CHR '':'') v of
       [a, b] \<Rightarrow> (case parse_two_ints a ''move x'' b ''move y'' of
                    Inl e \<Rightarrow> Inl e
                  | Inr (x, y) \<Rightarrow> Inr ([natural_move_event x y t False], t + 1))
     | _ \<Rightarrow> Inl MoveArguments)"

definition click_events :: "type_env \<Rightarrow> int \<Rightarrow> int \<Rightarrow> int \<Rightarrow> timed" where
  "click_events env button t down_ms =
    ([key_event_object env ''mouse'' button 1 t, key_event_object env ''mouse'' button 0 (t + down_ms * 1000)], t + down_ms * 1000)"

definition append_type_macro_mouse_click_events :: "type_env \<Rightarrow> string \<Rightarrow> int \<Rightarrow> int \<Rightarrow> type_macro_error + timed" where
  "append_type_macro_mouse_click_events env v t down_ms =
    (let parts = split_on (CHR '':'') v
     in case parse_int (hd parts) ''click button'' of
          Inl e \<Rightarrow> Inl e
        | Inr button \<Rightarrow>
            (case tl parts of
               [] \<Rightarrow> Inr (click_events env button t down_ms)
             | [a, b] \<Rightarrow>
                 (case parse_two_ints a ''click x'' b ''click y'' of
                    Inl e \<Rightarrow> Inl e
                  | Inr (x, y) \<Rightarrow>
                      (let (es, t') = click_events env button (t + 1) down_ms
                       in Inr (natural_move_event x y t True # es, t')))
             | _ \<Rightarrow> Inl (ClickArguments ''click'')))"

definition append_wait_event :: "string \<Rightarrow> int \<Rightarrow> type_macro_error + event_object" where
  "append_wait_event v t =
    (case split_on (CHR '':'') v of
       [a] \<Rightarrow> (case parse_non_negative_int a ''wait duration'' of
                 Inl e \<Rightarrow> Inl e
               | Inr ms \<Rightarrow> Inr (macro_event ''wait'' t [(''duration_us'', JInt (ms * 1000))]))
     | [a, b] \<Rightarrow>
         (case parse_non_negative_int a ''wait min'' of
            Inl e \<Rightarrow> Inl e
          | Inr min_ms \<Rightarrow>
              (case parse_non_negative_int b ''wait max'' of
                 Inl e \<Rightarrow> Inl e
               | Inr max_ms \<Rightarrow>
                   if max_ms < min_ms then Inl WaitOrder
                   else Inr (macro_event ''wait_random'' t
                     [(''min_us'', JInt (min_ms * 1000)), (''max_us'', JInt (max_ms * 1000))])))
     | _ \<Rightarrow> Inl WaitArguments)"

definition macro_call_event :: "string \<Rightarrow> int \<Rightarrow> event_object" where
  "macro_call_event nm t =
    macro_event ''macro_sync'' t
      [(''macro_name'', JString nm), (''replay_mouse_movement'', JBool True), (''replay_mouse_clicks'', JBool True),
       (''speed'', JFloat 1), (''loop_mode'', JString ''none''), (''loop_count'', JInt 1),
       (''loop_stop_behavior'', JString ''finish_run'')]"

definition unicode_input_available :: "type_env \<Rightarrow> bool" where
  "unicode_input_available env =
    (case layout_key env (CHR ''u'') of
       Inl e \<Rightarrow> False
     | Inr k \<Rightarrow> dead_keys k = [] \<and> set (key_modifiers k) \<subseteq> {ecode env ''KEY_LEFTSHIFT''})"

fun hex_text :: "nat \<Rightarrow> string" where
  "hex_text n = (let d = [char_of (if n mod 16 < 10 then 48 + n mod 16 else 87 + n mod 16)]
                 in if n < 16 then d else hex_text (n div 16) @ d)"

declare hex_text.simps [simp del]

fun layout_keys :: "type_env \<Rightarrow> string \<Rightarrow> type_macro_error + TypedKey list" where
  "layout_keys env [] = Inr []"
| "layout_keys env (c # s) =
    (case layout_key env c of Inl e \<Rightarrow> Inl e | Inr k \<Rightarrow> prepend [k] (layout_keys env s))"

text \<open>Ctrl+Shift+U, the code point in hexadecimal digits, and a space.  A digit the layout cannot type ends
  the build, like every error, and drops the events that were appended.\<close>

definition append_unicode_char_events :: "type_env \<Rightarrow> char \<Rightarrow> int \<Rightarrow> int \<Rightarrow> int \<Rightarrow> type_macro_error + timed" where
  "append_unicode_char_events env c t down_ms settle =
    (if \<not> unicode_input_available env then Inl UnicodeUnavailable
     else case layout_key env (CHR ''u'') of
            Inl e \<Rightarrow> Inl e
          | Inr u \<Rightarrow>
              (case layout_keys env (hex_text (of_char c)) of
                 Inl e \<Rightarrow> Inl e
               | Inr digits \<Rightarrow>
                   (let (es, t1) = append_chord_events env [ecode env ''KEY_LEFTCTRL'', ecode env ''KEY_LEFTSHIFT'']
                          (key_code u) t down_ms settle;
                        (es', t2) = append_all_keys env (digits @ [plain_key (ecode env ''KEY_SPACE'')]) (t1 + settle) down_ms settle
                    in Inr (es @ es', t2))))"

definition token_events ::
  "type_env \<Rightarrow> bool \<Rightarrow> nat \<Rightarrow> type_token \<Rightarrow> int \<Rightarrow> int \<Rightarrow> int \<Rightarrow> type_macro_error + timed"
where
  "token_events env use_unicode_input i tok t down_ms settle =
    (case tok of
       TWait v \<Rightarrow> (case append_wait_event v t of Inl e \<Rightarrow> Inl e | Inr ev \<Rightarrow> Inr ([ev], t))
     | TMacro nm \<Rightarrow> Inr ([macro_call_event nm t], t)
     | TMove v \<Rightarrow> append_type_macro_mouse_move_event v t
     | TClick v \<Rightarrow> append_type_macro_mouse_click_events env v t down_ms
     | TShortcut v \<Rightarrow>
         (case parse_type_macro_shortcut env v of
            Inl e \<Rightarrow> Inl e
          | Inr (mods, k) \<Rightarrow> Inr (append_chord_events env mods k t down_ms settle))
     | TKey nm \<Rightarrow>
         (case resolve_type_macro_key env nm of
            Inl e \<Rightarrow> Inl e
          | Inr k \<Rightarrow> Inr (append_direct_key_events env k t down_ms settle))
     | TChar c \<Rightarrow>
         (case layout_key env c of
            Inr k \<Rightarrow> Inr (append_direct_key_events env k t down_ms settle)
          | Inl e \<Rightarrow>
              if use_unicode_input then append_unicode_char_events env c t down_ms settle
              else Inl (UnsupportedCharacter (i + 1) c)))"

definition is_wait :: "type_token \<Rightarrow> bool" where
  "is_wait tok = (case tok of TWait v \<Rightarrow> True | _ \<Rightarrow> False)"

fun build_loop ::
  "type_env \<Rightarrow> bool \<Rightarrow> int \<Rightarrow> int \<Rightarrow> nat \<Rightarrow> type_token list \<Rightarrow> int \<Rightarrow> type_macro_error + event_object list"
where
  "build_loop env use_unicode_input down_ms pause_ms i [] t = Inr []"
| "build_loop env use_unicode_input down_ms pause_ms i (tok # toks) t =
    (case token_events env use_unicode_input i tok t down_ms 1000 of
       Inl e \<Rightarrow> Inl e
     | Inr (es, t') \<Rightarrow>
         (let pause = (if \<not> is_wait tok \<and> 0 < pause_ms \<and> toks \<noteq> [] \<and> \<not> is_wait (hd toks) then pause_ms * 1000 else 0)
          in prepend es (build_loop env use_unicode_input down_ms pause_ms (i + 1) toks (t' + pause))))"

definition build_events ::
  "type_env \<Rightarrow> bool \<Rightarrow> string \<Rightarrow> int \<Rightarrow> int \<Rightarrow> type_macro_error + event_object list"
where
  "build_events env use_unicode_input normalized down_ms pause_ms =
    (case type_macro_tokens env normalized of
       Inl e \<Rightarrow> Inl e
     | Inr toks \<Rightarrow> build_loop env use_unicode_input (max 0 down_ms) (max 0 pause_ms) 0 toks 0)"

definition build_type_macro_events ::
  "type_env \<Rightarrow> bool \<Rightarrow> string \<Rightarrow> int \<Rightarrow> int \<Rightarrow> (type_macro_error + event_object list) option"
where
  "build_type_macro_events env use_unicode_input s down_ms pause_ms =
    map_option (\<lambda>normalized. build_events env use_unicode_input normalized down_ms pause_ms)
      (normalize_type_macro_binding_text env use_unicode_input s)"

section \<open>Macro definitions\<close>

text \<open>The time of an event, of any type \<open>int\<close> accepts; \<open>None\<close> where it raises.\<close>

definition event_end_us :: "event_object \<Rightarrow> int option" where
  "event_end_us event = py_int (json_get_default event ''t_us'' (JInt 0))"

fun add_device_type :: "(json \<Rightarrow> string) \<Rightarrow> string list \<Rightarrow> event_object \<Rightarrow> string list" where
  "add_device_type repr found event =
    (if text_or repr (json_get_default event ''macro_action'' (JString [])) []
        \<in> {''mouse_move_abs'', ''mouse_move_rel'', ''mouse_move_natural_abs''}
     then (if ''mouse'' \<in> set found then found else found @ [''mouse''])
     else let device_type = text_or repr (json_get_default event ''device_type'' (JString [])) []
          in if device_type \<noteq> [] \<and> device_type \<noteq> ''macro'' \<and> device_type \<notin> set found then found @ [device_type] else found)"

definition infer_device_types :: "(json \<Rightarrow> string) \<Rightarrow> event_object list \<Rightarrow> string list" where
  "infer_device_types repr events = foldl (add_device_type repr) [] events"

definition macro_definition_from_events ::
  "(json \<Rightarrow> string) \<Rightarrow> event_object list \<Rightarrow> string \<Rightarrow> string list \<Rightarrow> (string \<times> json) list option"
where
  "macro_definition_from_events repr events nm device_types =
    (let inferred = (if device_types \<noteq> [] then device_types else infer_device_types repr events);
         ends = map event_end_us events
     in if None \<in> set ends then None
        else Some ([(''duration_us'', JInt (if events = [] then 0 else Max (set (map the ends)))),
                    (''device_types'', JList (map JString inferred)), (''events'', JList (map JObject events))]
                   @ (if nm \<noteq> [] then [(''name'', JString nm)] else [])))"

text \<open>\<open>parse_macro_json\<close> on the decoded value; \<open>None\<close> is its \<open>ValueError\<close>.\<close>

fun parse_macro_json :: "json \<Rightarrow> (string \<times> json) list option" where
  "parse_macro_json (JList xs) = Some [(''events'', JList xs)]"
| "parse_macro_json (JObject raw) = (if map_of raw ''events'' \<noteq> None then Some raw else None)"
| "parse_macro_json v = None"

end
