(* ===== verification/Typed_Text.thy ===== *)
theory Typed_Text
  imports Type_Macro
begin

text \<open>
  What the macros of \<open>Type_Macro\<close> do: their presses and releases nest and leave nothing pressed, their times
  never go back, and a text without controls is typed as it is.
\<close>

section \<open>Keys are released\<close>

text \<open>The key an event presses or releases, if it is a key event.\<close>

definition pressed_key :: "event_object \<Rightarrow> ((string \<times> int) \<times> int) option" where
  "pressed_key ev =
    (case (json_get_default ev ''device_type'' JNull, json_get_default ev ''code'' JNull, json_get_default ev ''value'' JNull) of
       (JString d, JInt c, JInt v) \<Rightarrow> if d = ''macro'' then None else Some ((d, c), v)
     | _ \<Rightarrow> None)"

text \<open>The stack of pressed keys after the events; \<open>None\<close> when a release does not match the last press.\<close>

fun held_stack :: "event_object list \<Rightarrow> (string \<times> int) list \<Rightarrow> (string \<times> int) list option" where
  "held_stack [] st = Some st"
| "held_stack (ev # evs) st =
    (case pressed_key ev of
       None \<Rightarrow> held_stack evs st
     | Some (k, v) \<Rightarrow>
         if v = 1 then held_stack evs (k # st)
         else if v = 0 \<and> st \<noteq> [] \<and> hd st = k then held_stack evs (tl st)
         else None)"

definition times_within :: "event_object list \<Rightarrow> int \<Rightarrow> int \<Rightarrow> bool" where
  "times_within evs t t' \<longleftrightarrow> (\<exists>ts. map event_end_us evs = map Some ts \<and> sorted (t # ts @ [t']))"

text \<open>A segment starts and ends with the same keys down, and its times lie between \<open>t\<close> and \<open>t'\<close>.\<close>

definition segment :: "event_object list \<Rightarrow> int \<Rightarrow> int \<Rightarrow> bool" where
  "segment evs t t' \<longleftrightarrow> (\<forall>st. held_stack evs st = Some st) \<and> times_within evs t t'"

lemma key_change_event_object [simp]:
  "device_type \<noteq> ''macro'' \<Longrightarrow> pressed_key (key_event_object env device_type c v t) = Some ((device_type, c), v)"
  by (simp add: pressed_key_def key_event_object_def json_get_default_def)

lemma pressed_key_macro_event [simp]: "pressed_key (macro_event a t extra) = None"
  by (simp add: pressed_key_def macro_event_def json_get_default_def)

lemma event_end_us_key_event [simp]: "event_end_us (key_event_object env d c v t) = Some t"
  by (simp add: event_end_us_def key_event_object_def json_get_default_def)

lemma event_end_us_macro_event [simp]: "event_end_us (macro_event a t extra) = Some t"
  by (simp add: event_end_us_def macro_event_def json_get_default_def)

lemma held_stack_append: "held_stack (xs @ ys) st = Option.bind (held_stack xs st) (held_stack ys)"
  by (induction xs st rule: held_stack.induct) (auto split: option.split)

lemma times_within_Nil [simp]: "times_within [] t t' \<longleftrightarrow> t \<le> t'"
  by (simp add: times_within_def)

lemma times_within_Cons [simp]:
  "times_within (ev # evs) t t' \<longleftrightarrow> (\<exists>u. event_end_us ev = Some u \<and> t \<le> u \<and> times_within evs u t')"
proof
  assume "times_within (ev # evs) t t'"
  then obtain ts where ts: "map event_end_us (ev # evs) = map Some ts" "sorted (t # ts @ [t'])"
    unfolding times_within_def by blast
  then obtain u us where "ts = u # us" by (cases ts) auto
  then show "\<exists>u. event_end_us ev = Some u \<and> t \<le> u \<and> times_within evs u t'"
    using ts by (auto simp: times_within_def)
next
  assume "\<exists>u. event_end_us ev = Some u \<and> t \<le> u \<and> times_within evs u t'"
  then obtain u us where u: "event_end_us ev = Some u" "t \<le> u" "map event_end_us evs = map Some us" "sorted (u # us @ [t'])"
    by (auto simp: times_within_def)
  then have "map event_end_us (ev # evs) = map Some (u # us)" "sorted (t # (u # us) @ [t'])" by force+
  then show "times_within (ev # evs) t t'" unfolding times_within_def by blast
qed

lemma times_within_append:
  "times_within xs t t1 \<Longrightarrow> times_within ys t1 t2 \<Longrightarrow> times_within (xs @ ys) t t2"
proof (induction xs arbitrary: t)
  case Nil
  then show ?case by (cases ys) (auto intro: order_trans)
next
  case (Cons x xs)
  then show ?case by auto
qed

lemma segment_append: "segment xs t t1 \<Longrightarrow> segment ys t1 t2 \<Longrightarrow> segment (xs @ ys) t t2"
  by (auto simp: segment_def held_stack_append intro: times_within_append)

lemma segment_Nil [simp]: "segment [] t t' \<longleftrightarrow> t \<le> t'"
  by (simp add: segment_def)

lemma segment_macro_event: "t \<le> t' \<Longrightarrow> segment [macro_event a t extra] t t'"
  by (simp add: segment_def)

lemma segment_later: "segment xs t t1 \<Longrightarrow> t1 \<le> t2 \<Longrightarrow> segment xs t t2"
  using segment_append [of xs t t1 "[]" t2] by simp

lemma press_modifiers_ok:
  assumes "0 \<le> settle" and "press_modifiers env ms t settle = (es, t')"
  shows "held_stack es st = Some (rev (map (Pair ''keyboard'') ms) @ st) \<and> times_within es t t'"
  using assms
proof (induction env ms t settle arbitrary: es t' st rule: press_modifiers.induct)
  case (2 env m ms t settle)
  obtain es1 where es1: "press_modifiers env ms (t + settle) settle = (es1, t')" "es = key_event_object env ''keyboard'' m 1 t # es1"
    using 2 by (auto split: prod.splits)
  have "held_stack es1 ((''keyboard'', m) # st) = Some (rev (map (Pair ''keyboard'') ms) @ (''keyboard'', m) # st)"
    and "times_within es1 (t + settle) t'"
    using 2 es1 by blast+
  then show ?case using es1 times_within_append [of "[]" t "t + settle" es1 t'] 2 by simp
qed simp

lemma release_modifiers_ok:
  assumes "0 \<le> settle" and "release_modifiers env ms t settle = (es, t')"
  shows "held_stack es (map (Pair ''keyboard'') ms @ st) = Some st \<and> times_within es t t'"
  using assms
proof (induction env ms t settle arbitrary: es t' rule: release_modifiers.induct)
  case (2 env m ms t settle)
  obtain es1 where "release_modifiers env ms (t + settle) settle = (es1, t')"
      "es = key_event_object env ''keyboard'' m 0 (t + settle) # es1"
    using 2 by (auto split: prod.splits)
  then show ?case using 2 by simp
qed simp

lemma append_chord_events_ok:
  assumes "0 \<le> settle" and "0 \<le> down_ms" and chord: "append_chord_events env mods k t down_ms settle = (es, t')"
  shows "segment es t t'"
proof -
  obtain before t1 where p: "press_modifiers env mods t settle = (before, t1)" by fastforce
  obtain later t3 where r: "release_modifiers env (rev mods) (t1 + down_ms * 1000) settle = (later, t3)" by fastforce
  note pressed = press_modifiers_ok [OF assms(1) p] and released = release_modifiers_ok [OF assms(1) r]
  have "es = before @ [key_event_object env ''keyboard'' k 1 t1, key_event_object env ''keyboard'' k 0 (t1 + down_ms * 1000)] @ later" "t' = t3"
    using chord p r by (auto simp: append_chord_events_def Let_def)
  then show ?thesis
    using pressed released assms(2) by (auto simp: segment_def held_stack_append rev_map intro!: times_within_append)
qed

lemma append_presses_ok:
  assumes "0 \<le> settle" and "0 \<le> down_ms" and "append_presses env ps t down_ms settle = (es, t')"
  shows "segment es t t'"
  using assms(3)
proof (induction ps arbitrary: t es t')
  case (Cons p ps)
  obtain es1 t1 where c: "append_chord_events env (key_modifiers p) (key_code p) t down_ms settle = (es1, t1)" by fastforce
  define t1' where "t1' = (if ps = [] then t1 else t1 + settle)"
  obtain es2 t2 where r: "append_presses env ps t1' down_ms settle = (es2, t2)" by fastforce
  have "segment es1 t t1'" using append_chord_events_ok [OF assms(1,2) c] assms(1) by (auto simp: t1'_def intro: segment_later)
  moreover have "segment es2 t1' t2" using Cons.IH r .
  moreover have "es = es1 @ es2" "t' = t2" using Cons.prems c r by (auto simp: t1'_def)
  ultimately show ?case by (auto intro: segment_append)
qed simp

lemma append_direct_key_events_ok:
  "0 \<le> settle \<Longrightarrow> 0 \<le> down_ms \<Longrightarrow> append_direct_key_events env k t down_ms settle = (es, t') \<Longrightarrow> segment es t t'"
  unfolding append_direct_key_events_def by (rule append_presses_ok)

lemma append_all_keys_ok:
  assumes "0 \<le> settle" and "0 \<le> down_ms" and "append_all_keys env ks t down_ms settle = (es, t')"
  shows "segment es t t'"
  using assms(3)
proof (induction ks arbitrary: t es t')
  case (Cons k ks)
  then show ?case
    by (auto split: prod.splits intro!: segment_append intro: append_direct_key_events_ok [OF assms(1,2)])
qed simp

lemma append_unicode_char_events_ok:
  assumes "0 \<le> settle" and "0 \<le> down_ms" and "append_unicode_char_events env c t down_ms settle = Inr (es, t')"
  shows "segment es t t'"
proof -
  obtain es1 t1 es2 u ks where
    c: "append_chord_events env [ecode env ''KEY_LEFTCTRL'', ecode env ''KEY_LEFTSHIFT''] u t down_ms settle = (es1, t1)"
    and r: "append_all_keys env ks (t1 + settle) down_ms settle = (es2, t')" and es: "es = es1 @ es2"
    using assms(3) by (auto simp: append_unicode_char_events_def Let_def split: sum.splits prod.splits if_splits)
  show ?thesis unfolding es
    using segment_append [OF segment_later [OF append_chord_events_ok [OF assms(1,2) c]] append_all_keys_ok [OF assms(1,2) r]]
      assms(1) by simp
qed

lemma click_events_ok: "0 \<le> down_ms \<Longrightarrow> click_events env b t down_ms = (es, t') \<Longrightarrow> segment es t t'"
  by (auto simp: click_events_def segment_def)

lemma append_type_macro_mouse_click_events_ok:
  assumes "0 \<le> down_ms" and "append_type_macro_mouse_click_events env v t down_ms = Inr (es, t')"
  shows "segment es t t'"
proof -
  consider b where "click_events env b t down_ms = (es, t')"
    | b x y es1 where "click_events env b (t + 1) down_ms = (es1, t')" "es = natural_move_event x y t True # es1"
    using assms(2)
    by (auto simp: append_type_macro_mouse_click_events_def Let_def split: sum.splits prod.splits list.splits)
  then show ?thesis
  proof cases
    case 1
    then show ?thesis using assms(1) click_events_ok by blast
  next
    case 2
    have "segment [natural_move_event x y t True] t (t + 1)"
      unfolding natural_move_event_def by (rule segment_macro_event) simp
    from segment_append [OF this click_events_ok [OF assms(1) 2(1)]] show ?thesis by (simp add: 2)
  qed
qed

lemma append_wait_event_macro: "append_wait_event v t = Inr ev \<Longrightarrow> \<exists>a extra. ev = macro_event a t extra"
  by (auto simp: append_wait_event_def split: list.splits sum.splits if_splits)

lemma token_events_ok:
  assumes "0 \<le> settle" and "0 \<le> down_ms" and "token_events env uni i tok t down_ms settle = Inr (es, t')"
  shows "segment es t t'"
proof (cases tok)
  case (TWait v)
  then show ?thesis using assms(3) append_wait_event_macro [of v t]
    by (auto simp: token_events_def segment_macro_event split: sum.splits)
next
  case (TMove v)
  then show ?thesis using assms(3)
    by (auto simp: token_events_def append_type_macro_mouse_move_event_def natural_move_event_def segment_macro_event
        split: sum.splits list.splits prod.splits)
next
  case (TChar c)
  then show ?thesis using assms append_direct_key_events_ok append_unicode_char_events_ok
    by (simp add: token_events_def split: sum.splits if_splits)
next
  case (TMacro nm)
  then show ?thesis using assms(3) by (auto simp: token_events_def macro_call_event_def segment_macro_event)
next
  case (TClick v)
  then show ?thesis using assms append_type_macro_mouse_click_events_ok by (simp add: token_events_def)
next
  case (TShortcut v)
  then show ?thesis using assms append_chord_events_ok by (simp add: token_events_def split: sum.splits prod.splits)
next
  case (TKey nm)
  then show ?thesis using assms append_direct_key_events_ok by (simp add: token_events_def split: sum.splits)
qed

lemma prepend_Inr: "prepend xs r = Inr zs \<longleftrightarrow> (\<exists>ys. r = Inr ys \<and> zs = xs @ ys)"
  by (auto simp: prepend_def split: sum.splits)

lemma build_loop_ok:
  assumes "0 \<le> down_ms" and "build_loop env uni down_ms pause_ms i toks t = Inr es"
  shows "\<exists>t'. segment es t t'"
  using assms(2)
proof (induction toks arbitrary: i t es)
  case (Cons tok toks)
  obtain es1 t1 where e: "token_events env uni i tok t down_ms 1000 = Inr (es1, t1)"
    using Cons.prems by (auto split: sum.splits)
  define p where "p = (if \<not> is_wait tok \<and> 0 < pause_ms \<and> toks \<noteq> [] \<and> \<not> is_wait (hd toks) then pause_ms * 1000 else 0)"
  have "0 \<le> p" by (simp add: p_def)
  moreover have "prepend es1 (build_loop env uni down_ms pause_ms (i + 1) toks (t1 + p)) = Inr es"
    using Cons.prems e by (simp add: p_def)
  ultimately obtain es2 where p: "0 \<le> p" "build_loop env uni down_ms pause_ms (i + 1) toks (t1 + p) = Inr es2" "es = es1 @ es2"
    unfolding prepend_Inr by blast
  have "segment es1 t (t1 + p)" using token_events_ok [OF _ assms(1) e] p(1) by (auto intro: segment_later)
  then show ?case using Cons.IH [OF p(2)] p(3) by (auto intro: segment_append)
qed auto

text \<open>
  C6. Every macro the compiler builds from a text leaves no key and no button down: its presses and releases
  nest like brackets and end with nothing pressed.  Its times never go back and start at zero or later.
\<close>

theorem typed_macro_releases_everything:
  assumes "build_type_macro_events env use_unicode_input s down_ms pause_ms = Some (Inr es)"
  shows "held_stack es [] = Some [] \<and> (\<exists>ts. map event_end_us es = map Some ts \<and> sorted (0 # ts))"
proof -
  obtain toks where loop: "build_loop env use_unicode_input (max 0 down_ms) (max 0 pause_ms) 0 toks 0 = Inr es"
    using assms that unfolding build_type_macro_events_def build_events_def
    by (cases "normalize_type_macro_binding_text env use_unicode_input s") (simp_all split: sum.splits)
  have "0 \<le> max 0 down_ms" by simp
  from build_loop_ok [OF this loop] obtain t' where seg: "segment es 0 t'" ..
  then obtain ts where ts: "map event_end_us es = map Some ts" "sorted (0 # ts @ [t'])"
    by (auto simp: segment_def times_within_def)
  from ts(2) have "sorted (0 # ts)" by (simp add: sorted_append)
  with seg ts show ?thesis by (auto simp: segment_def)
qed

text \<open>A keyboard with three characters, for the examples.\<close>

definition small_keyboard :: type_env where
  "small_keyboard = \<lparr>ecode = (\<lambda>nm. if nm = ''KEY_LEFTSHIFT'' then 42 else if nm = ''KEY_LEFTCTRL'' then 29
       else if nm = ''KEY_ENTER'' then 28 else if nm = ''BTN_LEFT'' then 272 else 1),
     find_ecode = (\<lambda>nm. None), is_ev_key = (\<lambda>c. True),
     layout_chars = (\<lambda>c. if c = CHR ''a'' then Some (plain_key 30) else if c = CHR ''A'' then Some (TypedKey 30 [42] [])
       else if c = CHR ''<'' then Some (TypedKey 86 [] [plain_key 13]) else None),
     upper = (\<lambda>s. s), nfkc = (\<lambda>s. s)\<rparr>"

lemma typed_macro_releases_everything_witness:
  "(\<exists>es. build_type_macro_events small_keyboard False ''A<shortcut:ctrl+a><click>'' 5 10 = Some (Inr es)
     \<and> length es = 10 \<and> held_stack es [] = Some [])"
proof -
  have "normalize_unicode_type_macro_text ''A<shortcut:ctrl+a><click>'' = ''A<shortcut:ctrl+a><click>''" "normalize_outside_macro_calls small_keyboard ''A<shortcut:ctrl+a><click>'' = ''A<shortcut:ctrl+a><click>''"
    by code_simp+
  then have "normalize_type_macro_binding_text small_keyboard False ''A<shortcut:ctrl+a><click>'' = Some ''A<shortcut:ctrl+a><click>''"
    by (simp add: normalize_type_macro_binding_text_def normalize_type_macro_text_def normalize_until_stable.simps)
  moreover have "case build_events small_keyboard False ''A<shortcut:ctrl+a><click>'' 5 10 of Inr es \<Rightarrow> length es = 10 | _ \<Rightarrow> False"
    by code_simp
  ultimately obtain es where "build_type_macro_events small_keyboard False ''A<shortcut:ctrl+a><click>'' 5 10 = Some (Inr es)" "length es = 10"
    by (auto simp: build_type_macro_events_def split: sum.splits)
  then show ?thesis using typed_macro_releases_everything by blast
qed

section \<open>Typed text\<close>

text \<open>A text in which no \<open><\<close> starts a control.\<close>

fun escape_text :: "string \<Rightarrow> string" where
  "escape_text [] = []"
| "escape_text (c # s) = (if c = CHR ''<'' then CHR 0x5C # c # escape_text s else c # escape_text s)"

lemma hd_escape_text: "escape_text s \<noteq> [] \<Longrightarrow> hd (escape_text s) \<noteq> CHR ''<''"
  by (cases s) auto

lemma type_macro_tokens_escape: "type_macro_tokens env (escape_text s) = Inr (map TChar s)"
  by (induction s) (auto simp: prepend_def dest: hd_escape_text)

lemma split_calls_escape: "split_calls part e (escape_text s) = [(part @ escape_text s, False)]"
  by (induction s arbitrary: part e) auto

lemma normalize_unicode_type_macro_text_id:
  "CHR 0x0D \<notin> set s \<Longrightarrow> normalize_unicode_type_macro_text s = s"
  by (induction s rule: normalize_unicode_type_macro_text.induct) auto

lemma set_escape_text: "set (escape_text s) \<subseteq> insert (CHR 0x5C) (set s)"
  by (induction s) auto

lemma normalize_escape_text:
  assumes "CHR 0x0D \<notin> set s" and "use_unicode_input \<or> normalize_typed_text env (escape_text s) = escape_text s"
  shows "normalize_type_macro_binding_text env use_unicode_input (escape_text s) = Some (escape_text s)"
proof -
  have "normalize_unicode_type_macro_text (escape_text s) = escape_text s"
    using assms(1) set_escape_text [of s] by (intro normalize_unicode_type_macro_text_id) auto
  with assms(2) show ?thesis
    by (auto simp: normalize_type_macro_binding_text_def normalize_type_macro_text_def normalize_until_stable.simps
        normalize_outside_macro_calls_def split_calls_escape)
qed

text \<open>The key changes of one press of a compose sequence, and of a character.\<close>

definition chord_changes :: "TypedKey \<Rightarrow> ((string \<times> int) \<times> int) list" where
  "chord_changes p = map (\<lambda>m. ((''keyboard'', m), 1)) (key_modifiers p)
     @ [((''keyboard'', key_code p), 1), ((''keyboard'', key_code p), 0)]
     @ map (\<lambda>m. ((''keyboard'', m), 0)) (rev (key_modifiers p))"

definition typed_changes :: "type_env \<Rightarrow> char \<Rightarrow> ((string \<times> int) \<times> int) list" where
  "typed_changes env c =
    (case layout_chars env c of None \<Rightarrow> [] | Some k \<Rightarrow> concat (map chord_changes (dead_keys k @ [k])))"

definition key_changes :: "event_object list \<Rightarrow> ((string \<times> int) \<times> int) list" where
  "key_changes es = List.map_filter pressed_key es"

lemma key_changes_append [simp]: "key_changes (xs @ ys) = key_changes xs @ key_changes ys"
  by (simp add: key_changes_def map_filter_def)

lemma key_changes_simps [simp]:
  "key_changes [] = []"
  "key_changes (ev # es) = (case pressed_key ev of None \<Rightarrow> key_changes es | Some k \<Rightarrow> k # key_changes es)"
  by (simp_all add: key_changes_def map_filter_simps split: option.split)

lemma press_modifiers_changes:
  "key_changes (fst (press_modifiers env ms t settle)) = map (\<lambda>m. ((''keyboard'', m), 1)) ms"
  by (induction env ms t settle rule: press_modifiers.induct) (auto simp: case_prod_beta)

lemma release_modifiers_changes:
  "key_changes (fst (release_modifiers env ms t settle)) = map (\<lambda>m. ((''keyboard'', m), 0)) ms"
  by (induction env ms t settle rule: release_modifiers.induct) (auto simp: case_prod_beta)

lemma append_chord_events_changes:
  "key_changes (fst (append_chord_events env (key_modifiers p) (key_code p) t down_ms settle)) = chord_changes p"
  by (simp add: append_chord_events_def case_prod_beta Let_def press_modifiers_changes release_modifiers_changes chord_changes_def)

lemma append_presses_changes:
  "key_changes (fst (append_presses env ps t down_ms settle)) = concat (map chord_changes ps)"
  by (induction ps arbitrary: t) (auto simp: case_prod_beta append_chord_events_changes)

lemma token_events_char:
  "token_events env uni i (TChar c) t down_ms settle =
    (case layout_chars env c of
       Some k \<Rightarrow> Inr (append_direct_key_events env k t down_ms settle)
     | None \<Rightarrow> if uni then append_unicode_char_events env c t down_ms settle else Inl (UnsupportedCharacter (i + 1) c))"
  by (simp add: token_events_def layout_key_def split: option.split)

lemma direct_changes:
  "layout_chars env c = Some k \<Longrightarrow>
    key_changes (fst (append_direct_key_events env k t down_ms settle)) = typed_changes env c"
  by (simp add: append_direct_key_events_def append_presses_changes typed_changes_def)

lemma build_loop_typed:
  assumes "\<forall>c\<in>set s. layout_chars env c \<noteq> None"
  shows "\<exists>es. build_loop env uni down_ms pause_ms i (map TChar s) t = Inr es
    \<and> key_changes es = concat (map (typed_changes env) s)"
  using assms
proof (induction s arbitrary: i t)
  case (Cons c s)
  obtain k where k: "layout_chars env c = Some k" using Cons.prems by auto
  obtain es1 t1 where e: "append_direct_key_events env k t down_ms 1000 = (es1, t1)" by fastforce
  obtain p where p: "build_loop env uni down_ms pause_ms i (map TChar (c # s)) t =
      prepend es1 (build_loop env uni down_ms pause_ms (i + 1) (map TChar s) (t1 + p))"
    by (simp add: token_events_char k e Let_def)
  from Cons show ?case using direct_changes [OF k, of t down_ms 1000] e p by (fastforce simp: prepend_Inr)
qed simp

lemma build_loop_unsupported:
  assumes "\<forall>c\<in>set a. layout_chars env c \<noteq> None" and "layout_chars env c = None"
  shows "build_loop env False down_ms pause_ms i (map TChar (a @ c # b)) t = Inl (UnsupportedCharacter (i + length a + 1) c)"
  using assms(1)
proof (induction a arbitrary: i t)
  case Nil
  then show ?case using assms(2) by (simp add: token_events_char)
next
  case (Cons x a)
  then obtain k where k: "layout_chars env x = Some k" by auto
  from Cons show ?case by (simp add: token_events_char k prepend_def case_prod_beta Let_def)
qed

text \<open>
  C20. A text is typed as its normalized form reads: line ends become newlines and, without Unicode input, NFKC and the
  table of replacements apply until nothing changes.  When no control starts in the normalized text and the layout has
  all its characters, the macro presses and releases exactly their keys in order, the dead keys of each before it and
  its modifiers around it.  Otherwise, without Unicode input, the error names the first character of the normalized
  text that the layout lacks and its position.  An escaped text without carriage returns that is stable under NFKC
  and the table (or is meant for Unicode input) is its own normalized form, so it is typed as it is.
\<close>

theorem typed_text_presses_its_keys:
  assumes norm: "normalize_type_macro_binding_text env use_unicode_input s = Some (escape_text t)"
  shows "((\<forall>c\<in>set t. layout_chars env c \<noteq> None) \<longrightarrow>
      (\<exists>es. build_type_macro_events env use_unicode_input s down_ms pause_ms = Some (Inr es)
        \<and> key_changes es = concat (map (typed_changes env) t)))
    \<and> (\<forall>a c b. t = a @ c # b \<and> (\<forall>x\<in>set a. layout_chars env x \<noteq> None) \<and> layout_chars env c = None \<and> \<not> use_unicode_input \<longrightarrow>
      build_type_macro_events env use_unicode_input s down_ms pause_ms = Some (Inl (UnsupportedCharacter (length a + 1) c)))
    \<and> (\<forall>u. CHR 0x0D \<notin> set u \<and> (use_unicode_input \<or> normalize_typed_text env (escape_text u) = escape_text u) \<longrightarrow>
      normalize_type_macro_binding_text env use_unicode_input (escape_text u) = Some (escape_text u))"
proof -
  have build: "build_type_macro_events env use_unicode_input s down_ms pause_ms
      = Some (build_loop env use_unicode_input (max 0 down_ms) (max 0 pause_ms) 0 (map TChar t) 0)"
    by (simp add: build_type_macro_events_def norm build_events_def type_macro_tokens_escape)
  have "(\<forall>c\<in>set t. layout_chars env c \<noteq> None) \<longrightarrow>
      (\<exists>es. build_type_macro_events env use_unicode_input s down_ms pause_ms = Some (Inr es)
        \<and> key_changes es = concat (map (typed_changes env) t))"
    using build_loop_typed build by simp
  moreover have "build_type_macro_events env use_unicode_input s down_ms pause_ms
      = Some (Inl (UnsupportedCharacter (length a + 1) c))"
    if h: "t = a @ c # b" "\<forall>x\<in>set a. layout_chars env x \<noteq> None" "layout_chars env c = None" "\<not> use_unicode_input" for a c b
  proof -
    have "build_loop env use_unicode_input (max 0 down_ms) (max 0 pause_ms) 0 (map TChar t) 0
        = Inl (UnsupportedCharacter (0 + length a + 1) c)"
      using build_loop_unsupported [OF h(2,3), of "max 0 down_ms" "max 0 pause_ms" 0 b 0] h(1,4) by simp
    then show ?thesis by (simp add: build)
  qed
  ultimately show ?thesis using normalize_escape_text by blast
qed

lemma typed_text_presses_its_keys_witness:
  "\<exists>es. build_type_macro_events small_keyboard False [CHR ''A'', CHR 0xAD, CHR 0x5C, CHR ''<''] 5 10 = Some (Inr es)
     \<and> key_changes es = [((''keyboard'', 42), 1), ((''keyboard'', 30), 1), ((''keyboard'', 30), 0), ((''keyboard'', 42), 0),
         ((''keyboard'', 13), 1), ((''keyboard'', 13), 0), ((''keyboard'', 86), 1), ((''keyboard'', 86), 0)]"
proof -
  have "concat (map (typed_changes small_keyboard) ''A<'') =
    [((''keyboard'', 42), 1), ((''keyboard'', 30), 1), ((''keyboard'', 30), 0), ((''keyboard'', 42), 0),
         ((''keyboard'', 13), 1), ((''keyboard'', 13), 0), ((''keyboard'', 86), 1), ((''keyboard'', 86), 0)]"
    by (simp add: typed_changes_def small_keyboard_def chord_changes_def plain_key_def)
  moreover have "normalize_type_macro_binding_text small_keyboard False [CHR ''A'', CHR 0xAD, CHR 0x5C, CHR ''<'']
      = Some (escape_text ''A<'')"
  proof -
    have "normalize_outside_macro_calls small_keyboard [CHR ''A'', CHR 0xAD, CHR 0x5C, CHR ''<''] = escape_text ''A<''"
      "normalize_outside_macro_calls small_keyboard (escape_text ''A<'') = escape_text ''A<''"
      by (simp_all add: normalize_outside_macro_calls_def normalize_typed_text_def translate_text_def
          TYPE_MACRO_TEXT_TRANSLATION_def small_keyboard_def)
    then show ?thesis
      by (simp add: normalize_type_macro_binding_text_def normalize_type_macro_text_def normalize_until_stable.simps)
  qed
  ultimately show ?thesis
    using typed_text_presses_its_keys [of small_keyboard False "[CHR ''A'', CHR 0xAD, CHR 0x5C, CHR ''<'']" "''A<''" 5 10]
    by (simp add: small_keyboard_def)
qed

end
