(* ===== verification/Key_Pipeline.thy ===== *)
theory Key_Pipeline
  imports Combo_Names Action_Model
begin

text \<open>
  Key events of a grabbed device: \<open>runtime/grabbed_device/event/pipeline.py\<close> with its combo interception,
  dispatch and outputs, and the combo operations of \<open>device.py\<close> and \<open>runtime/combo/recall.py\<close> on the device.
  The model follows a key from the source to the virtual outputs: what is remembered for its release, what the
  combo callback may take away, recall or restore, and what a change of the mapping does.

  A virtual output is named by its bucket.  The device has no default controller route, no rollover group
  (\<open>Rollover_State\<close>) and no superkey machine for the key; actions that run in tasks or in other components do
  not write here.  Observers (recording, inspector, repeat history, profile activations) are left out, apart
  from the switch \<open>recording\<close>, which selects the route.
\<close>

section \<open>Device, events and actions\<close>

type_synonym bucket = string

text \<open>What the device relies on: names and codes of the evdev package, its button tables, the outputs that are
  open, and the output a gamepad id resolves to.\<close>

record pipe_env =
  key_name :: "nat \<Rightarrow> string"
  output_code :: "string \<Rightarrow> nat option"
  ecode_of :: "string \<Rightarrow> nat option"
  event_binding_to_button :: "nat \<Rightarrow> int \<Rightarrow> string option"
  event_code_to_button :: "nat \<Rightarrow> string option"
  evdev_to_button :: "string \<Rightarrow> string option"
  mouse_target_relative :: "string option \<Rightarrow> bool option"
  gamepad_bucket :: "string option \<Rightarrow> bucket option"
  present :: "bucket \<Rightarrow> bool"
  keyboard_code :: "nat \<Rightarrow> bool"

text \<open>How an action uses the outputs of the device: it forwards the event, does nothing here, holds a key while
  its source is held, taps or repeats a key in a task, scrolls, or works elsewhere.\<close>

datatype held_action =
    HPassthrough
  | HNothing
  | HKey bucket nat
  | HTimed bucket nat
  | HRelative nat
  | HElsewhere

definition key_target :: "pipe_env \<Rightarrow> ('c, 'x) MappingAction \<Rightarrow> bucket \<Rightarrow> held_action" where
  "key_target env a b =
    (case target a of
       None \<Rightarrow> HNothing
     | Some t \<Rightarrow>
         (case output_code env t of
            None \<Rightarrow> HNothing
          | Some k \<Rightarrow> if rapidfire_enabled a \<or> tap_enabled a then HTimed b k else HKey b k))"

definition held_action_of :: "pipe_env \<Rightarrow> ('c, 'x) MappingAction \<Rightarrow> held_action" where
  "held_action_of env a =
    (case action_type a of
       PASSTHROUGH \<Rightarrow> HPassthrough
     | SUPPRESS \<Rightarrow> HNothing
     | KEYBOARD \<Rightarrow> key_target env a ''keyboard''
     | MOUSE \<Rightarrow>
         (case mouse_target_relative env (target a) of
            None \<Rightarrow> HNothing
          | Some False \<Rightarrow> key_target env a ''mouse''
          | Some True \<Rightarrow>
              (case key_target env a ''mouse'' of HKey b k \<Rightarrow> HRelative k | x \<Rightarrow> x))
     | GAMEPAD \<Rightarrow>
         (case gamepad_bucket env (output_id a) of None \<Rightarrow> HNothing | Some b \<Rightarrow> key_target env a b)
     | _ \<Rightarrow> HElsewhere)"

type_synonym key_mapping = "(string \<times> held_action) list"

record pipe =
  active_mapping :: key_mapping
  held_source_keys :: "string set"
  held_source_actions :: "string \<rightharpoonup> held_action option"
  combo_passthrough_held :: "string set"
  combo_recalled_bindings :: "string set"
  quarantined_source_keys :: "string set"
  held_output_keys :: "bucket \<Rightarrow> nat set"
  blocked_output_keys :: "bucket \<Rightarrow> nat \<Rightarrow> nat"
  written :: "(bucket \<times> nat \<times> int) list"

definition new_pipe :: "key_mapping \<Rightarrow> pipe" where
  "new_pipe m = \<lparr>active_mapping = m, held_source_keys = {}, held_source_actions = Map.empty, combo_passthrough_held = {},
     combo_recalled_bindings = {}, quarantined_source_keys = {}, held_output_keys = (\<lambda>b. {}),
     blocked_output_keys = (\<lambda>b k. 0), written = []\<rparr>"

section \<open>Outputs\<close>

text \<open>\<open>keyboard_blocked\<close> tells whether a macro blocks the keyboard.  The result says whether the event is
  withheld.\<close>

definition key_blocked :: "pipe_env \<Rightarrow> bool \<Rightarrow> bucket \<Rightarrow> nat \<Rightarrow> int \<Rightarrow> pipe \<Rightarrow> bool \<times> pipe" where
  "key_blocked env keyboard_blocked b k v st =
    (let count = blocked_output_keys st b k;
         set_count = (\<lambda>n. st\<lparr>blocked_output_keys := (blocked_output_keys st)(b := (blocked_output_keys st b)(k := n))\<rparr>)
     in if \<not> keyboard_code env k then (False, st)
        else if v = 0 then (if count = 0 then (False, st) else (True, set_count (count - 1)))
        else if v \<noteq> 1 then (0 < count, st)
        else if \<not> keyboard_blocked then (False, set_count 0)
        else (True, set_count (count + 1)))"

definition track_key_state :: "bucket \<Rightarrow> nat \<Rightarrow> int \<Rightarrow> pipe \<Rightarrow> pipe" where
  "track_key_state b k v st =
    st\<lparr>held_output_keys := (held_output_keys st)(b :=
         (if v = 1 then insert k (held_output_keys st b)
          else if v = 0 then held_output_keys st b - {k} else held_output_keys st b))\<rparr>"

definition write_key :: "pipe_env \<Rightarrow> bool \<Rightarrow> bucket \<Rightarrow> nat \<Rightarrow> int \<Rightarrow> pipe \<Rightarrow> pipe" where
  "write_key env keyboard_blocked b k v st =
    (if \<not> present env b then st
     else case key_blocked env keyboard_blocked b k v st of
            (True, st1) \<Rightarrow> st1
          | (False, st1) \<Rightarrow> track_key_state b k v (st1\<lparr>written := written st1 @ [(b, k, v)]\<rparr>))"

definition passthrough :: "pipe_env \<Rightarrow> bool \<Rightarrow> nat \<Rightarrow> int \<Rightarrow> pipe \<Rightarrow> pipe" where
  "passthrough env kb c v st = write_key env kb ''passthrough'' c v st"

text \<open>Releasing everything: the keys held on the open outputs are written, and all state of held keys is
  forgotten.  \<open>held_codes\<close> is the sorted list of the held keys of an output.\<close>

definition held_codes :: "pipe \<Rightarrow> bucket \<Rightarrow> nat list" where
  "held_codes st b = sorted_list_of_set (held_output_keys st b)"

definition release_all_keys :: "pipe_env \<Rightarrow> bucket list \<Rightarrow> pipe \<Rightarrow> pipe" where
  "release_all_keys env devices st =
    st\<lparr>blocked_output_keys := (\<lambda>b k. 0),
       written := written st @ concat (map (\<lambda>b. if present env b then map (\<lambda>k. (b, k, 0)) (held_codes st b) else []) devices),
       held_output_keys := (\<lambda>b. if b \<in> set devices then {} else held_output_keys st b),
       held_source_keys := {}, combo_passthrough_held := {}, combo_recalled_bindings := {},
       held_source_actions := Map.empty\<rparr>"

section \<open>Mapping lookup and actions\<close>

definition find_action_for_name :: "pipe_env \<Rightarrow> string \<Rightarrow> key_mapping \<Rightarrow> held_action option" where
  "find_action_for_name env event_name m =
    (let button = (case evdev_to_button env (py_lower event_name) of
           Some b \<Rightarrow> if b \<noteq> [] then Some b else None | None \<Rightarrow> None);
         canonical_name = canonical_gamepad_button_name event_name;
         button' = (if button = None \<and> canonical_name \<noteq> py_lower event_name then evdev_to_button env canonical_name else button)
     in case button' of None \<Rightarrow> None | Some b \<Rightarrow> if b = [] then None else map_of m b)"

definition button_action :: "key_mapping \<Rightarrow> string option \<Rightarrow> held_action option" where
  "button_action m button = (case button of None \<Rightarrow> None | Some b \<Rightarrow> if b = [] then None else map_of m b)"

definition find_action_for_code :: "pipe_env \<Rightarrow> nat \<Rightarrow> int \<Rightarrow> string \<Rightarrow> key_mapping \<Rightarrow> held_action option" where
  "find_action_for_code env c v event_name m =
    (case button_action m (event_binding_to_button env c v) of
       Some a \<Rightarrow> Some a
     | None \<Rightarrow>
         (case button_action m (event_code_to_button env c) of
            Some a \<Rightarrow> Some a
          | None \<Rightarrow> find_action_for_name env event_name m))"

definition execute_action :: "pipe_env \<Rightarrow> bool \<Rightarrow> held_action \<Rightarrow> nat \<Rightarrow> int \<Rightarrow> pipe \<Rightarrow> pipe" where
  "execute_action env kb a c v st =
    (case a of
       HPassthrough \<Rightarrow> passthrough env kb c v st
     | HKey b k \<Rightarrow> write_key env kb b k v st
     | _ \<Rightarrow> st)"

section \<open>Combos on the device\<close>

text \<open>The output that stands for a held binding, if its action holds a key.\<close>

definition combo_binding_output :: "pipe_env \<Rightarrow> string \<Rightarrow> pipe \<Rightarrow> (bucket \<times> nat) option" where
  "combo_binding_output env evdev_name st =
    (let pass = (if present env ''passthrough'' then map_option (Pair ''passthrough'') (output_code env evdev_name) else None);
         on = (\<lambda>b k. if present env b then Some (b, k) else None)
     in case held_source_actions st (py_lower evdev_name) of
          None \<Rightarrow> pass
        | Some None \<Rightarrow> pass
        | Some (Some HPassthrough) \<Rightarrow> pass
        | Some (Some (HKey b k)) \<Rightarrow> on b k
        | Some (Some (HRelative k)) \<Rightarrow> on ''mouse'' k
        | Some (Some _) \<Rightarrow> None)"

definition combo_passthrough_binding_active :: "pipe_env \<Rightarrow> string \<Rightarrow> pipe \<Rightarrow> bool" where
  "combo_passthrough_binding_active env evdev_name st =
    (case combo_binding_output env evdev_name st of None \<Rightarrow> False | Some (b, k) \<Rightarrow> k \<in> held_output_keys st b)"

definition emit_combo_release :: "pipe_env \<Rightarrow> bool \<Rightarrow> string \<Rightarrow> pipe \<Rightarrow> pipe" where
  "emit_combo_release env kb evdev_name st =
    (case combo_binding_output env evdev_name st of None \<Rightarrow> st | Some (b, k) \<Rightarrow> write_key env kb b k 0 st)"

definition emit_combo_press :: "pipe_env \<Rightarrow> bool \<Rightarrow> string \<Rightarrow> pipe \<Rightarrow> pipe" where
  "emit_combo_press env kb evdev_name st =
    (case combo_binding_output env evdev_name st of
       None \<Rightarrow> st
     | Some (b, k) \<Rightarrow>
         (let st1 = write_key env kb b k 1 st
          in if b = ''passthrough'' then st1\<lparr>combo_passthrough_held := insert (py_lower evdev_name) (combo_passthrough_held st1)\<rparr>
             else st1))"

definition combo_source_binding_held :: "string \<Rightarrow> pipe \<Rightarrow> bool" where
  "combo_source_binding_held evdev_name st \<longleftrightarrow> py_lower evdev_name \<in> held_source_keys st"

definition combo_binding_recalled :: "string \<Rightarrow> pipe \<Rightarrow> bool" where
  "combo_binding_recalled evdev_name st \<longleftrightarrow> normalize_combo_evdev evdev_name \<in> combo_recalled_bindings st"

definition mark_combo_recalled_binding :: "string \<Rightarrow> pipe \<Rightarrow> pipe" where
  "mark_combo_recalled_binding evdev_name st =
    st\<lparr>combo_recalled_bindings := insert (normalize_combo_evdev evdev_name) (combo_recalled_bindings st)\<rparr>"

definition clear_combo_recalled_binding :: "string \<Rightarrow> pipe \<Rightarrow> pipe" where
  "clear_combo_recalled_binding evdev_name st =
    st\<lparr>combo_recalled_bindings := combo_recalled_bindings st - {normalize_combo_evdev evdev_name}\<rparr>"

text \<open>What the combo runtime does to one binding of the device: the recall of an event that no longer belongs to
  the application, the recall of the trigger keys of a combo, and their restoration.\<close>

datatype combo_op = RecallEvent string | RecallTrigger string | RestoreTrigger string

definition recall_binding :: "pipe_env \<Rightarrow> bool \<Rightarrow> string \<Rightarrow> pipe \<Rightarrow> pipe" where
  "recall_binding env kb evdev_name st =
    (if combo_passthrough_binding_active env evdev_name st
     then mark_combo_recalled_binding evdev_name (emit_combo_release env kb evdev_name st) else st)"

fun combo_op_step :: "pipe_env \<Rightarrow> bool \<Rightarrow> combo_op \<Rightarrow> pipe \<Rightarrow> pipe" where
  "combo_op_step env kb (RecallEvent n) st = recall_binding env kb n st"
| "combo_op_step env kb (RecallTrigger n) st = (if combo_binding_recalled n st then st else recall_binding env kb n st)"
| "combo_op_step env kb (RestoreTrigger n) st =
    (if \<not> combo_source_binding_held n st then clear_combo_recalled_binding n st
     else if combo_passthrough_binding_active env n st then clear_combo_recalled_binding n st
     else clear_combo_recalled_binding n (emit_combo_press env kb n st))"

fun combo_ops :: "pipe_env \<Rightarrow> bool \<Rightarrow> combo_op list \<Rightarrow> pipe \<Rightarrow> pipe" where
  "combo_ops env kb [] st = st"
| "combo_ops env kb (op # ops) st = combo_ops env kb ops (combo_op_step env kb op st)"

section \<open>The pipeline\<close>

text \<open>The answer of the combo callback: nothing, \<open>True\<close> (the event was captured), or a decision with its flags
  to consume the event and to mark it as passed through.\<close>

datatype combo_reply = NoReply | Captured | Decided (consume: bool) (pass_requested: bool)

text \<open>One key event, with the state of the world it meets: input paused, keyboard blocked by a macro, a running
  recording, and what the combo callback does and answers.\<close>

record key_arrival =
  ev_code :: nat
  ev_value :: int
  input_paused :: bool
  kb_blocked :: bool
  recording :: bool
  callback_ops :: "combo_op list"
  callback_reply :: combo_reply

definition intercept_paused_or_quarantined :: "bool \<Rightarrow> string \<Rightarrow> int \<Rightarrow> pipe \<Rightarrow> bool \<times> pipe" where
  "intercept_paused_or_quarantined is_paused event_name v st =
    (let q = quarantined_source_keys st;
         set_q = (\<lambda>q. st\<lparr>quarantined_source_keys := q\<rparr>)
     in if is_paused
        then (True, if v = 1 \<or> v = 2 then set_q (insert event_name q)
                    else if v = 0 then set_q (q - {event_name}) else st)
        else if event_name \<notin> q then (False, st)
        else if v = 1 then (False, set_q (q - {event_name}))
        else (True, if v = 0 then set_q (q - {event_name}) else st))"

definition observe_source_key_transition :: "string \<Rightarrow> int \<Rightarrow> pipe \<Rightarrow> pipe" where
  "observe_source_key_transition event_name v st =
    (if v = 1 then st\<lparr>held_source_keys := insert event_name (held_source_keys st)\<rparr>
     else if v = 0 then st\<lparr>held_source_keys := held_source_keys st - {event_name}\<rparr>
     else st)"

datatype interception = NotRecalled | StopProcessing | Recalled (suppress_release_after_callback: bool)

definition intercept_recalled_event :: "string \<Rightarrow> int \<Rightarrow> pipe \<Rightarrow> interception \<times> pipe" where
  "intercept_recalled_event event_name v st =
    (if normalize_combo_evdev event_name \<notin> combo_recalled_bindings st then (NotRecalled, st)
     else if v = 2 then (StopProcessing, st)
     else (Recalled (v = 0),
           st\<lparr>combo_recalled_bindings := combo_recalled_bindings st - {normalize_combo_evdev event_name},
              combo_passthrough_held := combo_passthrough_held st - {event_name}\<rparr>))"

text \<open>Stop, or go on with the flag whether the event is to be passed through; the first component tells whether
  the action of a released source is cleared.\<close>

definition route_combo_callback_result :: "combo_reply \<Rightarrow> int \<Rightarrow> string \<Rightarrow> pipe \<Rightarrow> bool \<times> bool option" where
  "route_combo_callback_result reply v event_name st =
    (case reply of
       Captured \<Rightarrow> (True, None)
     | NoReply \<Rightarrow> (False, Some False)
     | Decided c p \<Rightarrow>
         if \<not> c then (False, Some p)
         else if \<not> (v = 0 \<and> (event_name \<in> dom (held_source_actions st) \<or> event_name \<in> combo_passthrough_held st))
         then (False, None)
         else (False, Some p))"

definition clear_released_source_action :: "string \<Rightarrow> int \<Rightarrow> pipe \<Rightarrow> pipe" where
  "clear_released_source_action event_name v st =
    (if v = 0 then st\<lparr>held_source_actions := (held_source_actions st)(event_name := None)\<rparr> else st)"

definition mark_combo_passthrough_press :: "string \<Rightarrow> int \<Rightarrow> bool \<Rightarrow> pipe \<Rightarrow> pipe" where
  "mark_combo_passthrough_press event_name v requested st =
    (if requested \<and> v = 1 then st\<lparr>combo_passthrough_held := insert event_name (combo_passthrough_held st)\<rparr> else st)"

definition finish_combo_passthrough_held_event :: "string \<Rightarrow> int \<Rightarrow> pipe \<Rightarrow> pipe" where
  "finish_combo_passthrough_held_event event_name v st =
    (if v = 0 then clear_released_source_action event_name v
       (st\<lparr>combo_passthrough_held := combo_passthrough_held st - {event_name}\<rparr>) else st)"

definition apply_fast_passthrough :: "pipe_env \<Rightarrow> bool \<Rightarrow> nat \<Rightarrow> int \<Rightarrow> bool \<Rightarrow> pipe \<Rightarrow> pipe" where
  "apply_fast_passthrough env kb c v requested st =
    passthrough env kb c v (mark_combo_passthrough_press (key_name env c) v requested st)"

text \<open>The action of a press is remembered, and used again for the repeats and the release.\<close>

definition remembered_action :: "string \<Rightarrow> int \<Rightarrow> held_action option \<Rightarrow> pipe \<Rightarrow> held_action option \<times> pipe" where
  "remembered_action event_name v action st =
    (case held_source_actions st event_name of
       None \<Rightarrow> if v = 1 then (action, st\<lparr>held_source_actions := (held_source_actions st)(event_name \<mapsto> action)\<rparr>) else (action, st)
     | Some held \<Rightarrow> if v = 0 \<or> v = 2 then (held, st) else (action, st))"

definition apply_mapped_action_or_passthrough :: "pipe_env \<Rightarrow> bool \<Rightarrow> nat \<Rightarrow> int \<Rightarrow> bool \<Rightarrow> pipe \<Rightarrow> pipe" where
  "apply_mapped_action_or_passthrough env kb c v requested st =
    (let event_name = key_name env c;
         (action, st1) = remembered_action event_name v (find_action_for_code env c v event_name (active_mapping st)) st;
         st2 = (case action of
                  Some a \<Rightarrow> execute_action env kb a c v st1
                | None \<Rightarrow> passthrough env kb c v (mark_combo_passthrough_press event_name v requested st1))
     in clear_released_source_action event_name v st2)"

text \<open>The part after the combo callback was not stopped.\<close>

definition dispatch_key :: "pipe_env \<Rightarrow> key_arrival \<Rightarrow> bool \<Rightarrow> bool \<Rightarrow> pipe \<Rightarrow> pipe" where
  "dispatch_key env inp suppress_release requested st =
    (let c = ev_code inp; v = ev_value inp; kb = kb_blocked inp; event_name = key_name env c
     in if suppress_release then clear_released_source_action event_name v st
        else if event_name \<in> combo_passthrough_held st
        then finish_combo_passthrough_held_event event_name v (passthrough env kb c v st)
        else if active_mapping st = [] \<and> \<not> recording inp \<and> event_name \<notin> dom (held_source_actions st)
        then apply_fast_passthrough env kb c v requested st
        else apply_mapped_action_or_passthrough env kb c v requested st)"

definition process_key :: "pipe_env \<Rightarrow> key_arrival \<Rightarrow> pipe \<Rightarrow> pipe" where
  "process_key env inp st =
    (let v = ev_value inp; event_name = key_name env (ev_code inp)
     in case intercept_paused_or_quarantined (input_paused inp) event_name v st of
          (True, st1) \<Rightarrow> st1
        | (False, st1) \<Rightarrow>
            (case intercept_recalled_event event_name v (observe_source_key_transition event_name v st1) of
               (StopProcessing, st2) \<Rightarrow> st2
             | (recalled, st2) \<Rightarrow>
                 (let st3 = combo_ops env (kb_blocked inp) (callback_ops inp) st2;
                      (clear, route) = route_combo_callback_result (callback_reply inp) v event_name st3;
                      st4 = (if clear then clear_released_source_action event_name v st3 else st3)
                  in case route of
                       None \<Rightarrow> st4
                     | Some requested \<Rightarrow> dispatch_key env inp (recalled = Recalled True) requested st4)))"

section \<open>Changing the mapping\<close>

definition startup_release :: "held_action option \<Rightarrow> (bucket \<times> nat) option" where
  "startup_release action =
    (case action of
       Some (HKey b k) \<Rightarrow> Some (takeWhile (\<lambda>c. c \<noteq> CHR '':'') b, k)
     | Some (HTimed b k) \<Rightarrow> Some (takeWhile (\<lambda>c. c \<noteq> CHR '':'') b, k)
     | Some (HRelative k) \<Rightarrow> Some (''mouse'', k)
     | _ \<Rightarrow> None)"

definition reconcile_startup_held_action :: "pipe_env \<Rightarrow> bool \<Rightarrow> held_action option \<Rightarrow> pipe \<Rightarrow> pipe" where
  "reconcile_startup_held_action env kb action st =
    (case startup_release action of None \<Rightarrow> st | Some (b, k) \<Rightarrow> write_key env kb b k 0 st)"

text \<open>Keys that are down without a remembered action take the action of the mapping, and its output is
  released.\<close>

fun seed_startup_held_actions :: "pipe_env \<Rightarrow> bool \<Rightarrow> nat list \<Rightarrow> pipe \<Rightarrow> pipe" where
  "seed_startup_held_actions env kb [] st = st"
| "seed_startup_held_actions env kb (c # cs) st =
    (let event_name = key_name env c
     in if event_name = [] \<or> event_name \<in> dom (held_source_actions st) then seed_startup_held_actions env kb cs st
        else let action = find_action_for_code env c 1 event_name (active_mapping st);
                 st1 = st\<lparr>held_source_keys := insert event_name (held_source_keys st),
                          held_source_actions := (held_source_actions st)(event_name \<mapsto> action)\<rparr>
             in seed_startup_held_actions env kb cs (reconcile_startup_held_action env kb action st1))"

definition tracked_codes :: "pipe_env \<Rightarrow> pipe \<Rightarrow> nat set" where
  "tracked_codes env st = Option.these (ecode_of env ` (held_source_keys st \<union> dom (held_source_actions st)))"

fun project_events :: "(nat \<times> int) list \<Rightarrow> nat set \<Rightarrow> nat set" where
  "project_events [] cs = cs"
| "project_events ((c, v) # evs) cs = project_events evs (if v = 0 then cs - {c} else insert c cs)"

text \<open>The query of the key state: \<open>unread\<close> are the key events that were read but not processed, \<open>active\<close> the
  keys the device reports as down.  The result is the list of repair events that follow the unread ones.\<close>

definition reconcile_live_key_state ::
  "pipe_env \<Rightarrow> bool \<Rightarrow> (nat \<times> int) list \<Rightarrow> nat set \<Rightarrow> pipe \<Rightarrow> (nat \<times> int) list \<times> pipe"
where
  "reconcile_live_key_state env kb unread active st =
    (let tracked = tracked_codes env st;
         projected = project_events unread tracked;
         known = tracked \<union> set (map fst unread)
     in (map (\<lambda>c. (c, 0)) (sorted_list_of_set (projected - active))
           @ map (\<lambda>c. (c, 1)) (sorted_list_of_set ((active - projected) \<inter> known)),
         seed_startup_held_actions env kb (sorted_list_of_set (active - known)) st))"

definition reset_mapping_runtime_state :: "key_mapping \<Rightarrow> pipe \<Rightarrow> pipe" where
  "reset_mapping_runtime_state m st =
    st\<lparr>active_mapping := m,
       held_source_keys := held_source_keys st \<union> combo_passthrough_held st,
       held_source_actions := (\<lambda>n. if n \<in> combo_passthrough_held st \<and> held_source_actions st n = None then Some None
                                   else held_source_actions st n),
       combo_passthrough_held := {}, combo_recalled_bindings := {}\<rparr>"

text \<open>\<open>neutralize_runtime\<close>, as far as it concerns the device: held keys are quarantined and everything is
  released.\<close>

definition neutralize :: "pipe_env \<Rightarrow> bucket list \<Rightarrow> pipe \<Rightarrow> pipe" where
  "neutralize env devices st =
    release_all_keys env devices
      (st\<lparr>quarantined_source_keys := quarantined_source_keys st \<union> held_source_keys st
            \<union> dom (held_source_actions st) \<union> combo_passthrough_held st\<rparr>)"

section \<open>Runs\<close>

datatype pipe_step =
    KeyInput key_arrival
  | ComboOp bool combo_op
  | SetMapping key_mapping bool "(nat \<times> int) list" "nat set"
  | ReleaseAll "bucket list"
  | Neutralize "bucket list"

fun run_pipe_step :: "pipe_env \<Rightarrow> pipe \<Rightarrow> pipe_step \<Rightarrow> pipe" where
  "run_pipe_step env st (KeyInput inp) = process_key env inp st"
| "run_pipe_step env st (ComboOp kb op) = combo_op_step env kb op st"
| "run_pipe_step env st (SetMapping m kb unread active) =
    snd (reconcile_live_key_state env kb unread active (reset_mapping_runtime_state m st))"
| "run_pipe_step env st (ReleaseAll devices) = release_all_keys env devices st"
| "run_pipe_step env st (Neutralize devices) = neutralize env devices st"

end
