(* ===== verification/Key_Books.thy ===== *)
theory Key_Books
  imports Key_Pipeline
begin

text \<open>
  The books of a grabbed device (\<open>Key_Pipeline\<close>): which keys are down on the outputs, and which held source
  key will release each of them (\<open>servers\<close>).  \<open>pinv\<close> says that every key that is down has more such releases to
  come than a blocked output will absorb.  The lemmas show that a write, a combo operation and the dispatch of
  one key keep it.
\<close>

section \<open>Tracking what is down\<close>

definition down_step :: "(bucket \<times> nat) set \<Rightarrow> bucket \<times> nat \<times> int \<Rightarrow> (bucket \<times> nat) set" where
  "down_step d w = (case w of (b, k, v) \<Rightarrow> if v = 1 then insert (b, k) d else if v = 0 then d - {(b, k)} else d)"

definition down_after :: "(bucket \<times> nat \<times> int) list \<Rightarrow> (bucket \<times> nat) set" where
  "down_after ws = foldl down_step {} ws"

definition held_pairs :: "pipe \<Rightarrow> (bucket \<times> nat) set" where
  "held_pairs st = {(b, k). k \<in> held_output_keys st b}"

definition outputs_ok :: "pipe_env \<Rightarrow> pipe \<Rightarrow> bool" where
  "outputs_ok env st \<longleftrightarrow> (\<forall>b. \<not> present env b \<longrightarrow> held_output_keys st b = {})
     \<and> (\<forall>b k. \<not> keyboard_code env k \<longrightarrow> blocked_output_keys st b k = 0)
     \<and> held_pairs st = down_after (written st)
     \<and> (\<forall>b. finite (held_output_keys st b))"

lemma down_after_append: "down_after (xs @ ys) = foldl down_step (down_after xs) ys"
  by (simp add: down_after_def)

lemma write_key_fields [simp]:
  "active_mapping (write_key env kb b k v st) = active_mapping st"
  "held_source_keys (write_key env kb b k v st) = held_source_keys st"
  "held_source_actions (write_key env kb b k v st) = held_source_actions st"
  "combo_passthrough_held (write_key env kb b k v st) = combo_passthrough_held st"
  "combo_recalled_bindings (write_key env kb b k v st) = combo_recalled_bindings st"
  "quarantined_source_keys (write_key env kb b k v st) = quarantined_source_keys st"
  by (auto simp: write_key_def key_blocked_def track_key_state_def Let_def)

lemma down_after_snoc: "down_after (ws @ [w]) = down_step (down_after ws) w"
  by (simp add: down_after_def)

lemma track_held_pairs:
  "held_pairs (track_key_state b k v st) = down_step (held_pairs st) (b, k, v)"
  by (auto simp: held_pairs_def track_key_state_def down_step_def split: if_splits)

lemma key_blocked_cases:
  obtains n where "key_blocked env kb b k v st
      = (fst (key_blocked env kb b k v st), st\<lparr>blocked_output_keys := (blocked_output_keys st)(b := (blocked_output_keys st b)(k := n))\<rparr>)"
    and "keyboard_code env k \<or> n = blocked_output_keys st b k"
proof -
  have same: "st\<lparr>blocked_output_keys := (blocked_output_keys st)(b := (blocked_output_keys st b)(k := blocked_output_keys st b k))\<rparr> = st"
    by simp
  have zero: "st\<lparr>blocked_output_keys := (blocked_output_keys st)(b := (blocked_output_keys st b)(k := 0))\<rparr> = st"
    if "blocked_output_keys st b k = 0"
    using same unfolding that .
  show thesis
    by (rule that [of "if keyboard_code env k \<and> v = 0 \<and> blocked_output_keys st b k \<noteq> 0 then blocked_output_keys st b k - 1
        else if keyboard_code env k \<and> v = 1 then (if kb then blocked_output_keys st b k + 1 else 0) else blocked_output_keys st b k"])
      (auto simp: key_blocked_def Let_def same zero)
qed

lemma write_key_outputs_ok:
  assumes "outputs_ok env st" shows "outputs_ok env (write_key env kb b k v st)"
proof -
  obtain n where n: "key_blocked env kb b k v st
      = (fst (key_blocked env kb b k v st), st\<lparr>blocked_output_keys := (blocked_output_keys st)(b := (blocked_output_keys st b)(k := n))\<rparr>)"
    and kc: "keyboard_code env k \<or> n = blocked_output_keys st b k"
    by (rule key_blocked_cases)
  define st1 where "st1 = st\<lparr>blocked_output_keys := (blocked_output_keys st)(b := (blocked_output_keys st b)(k := n))\<rparr>"
  have st1: "outputs_ok env st1" using assms kc by (auto simp: outputs_ok_def st1_def held_pairs_def)
  have "outputs_ok env (track_key_state b k v (st1\<lparr>written := written st1 @ [(b, k, v)]\<rparr>))" if "present env b"
  proof -
    have "held_pairs (st1\<lparr>written := written st1 @ [(b, k, v)]\<rparr>) = held_pairs st1" by (simp add: held_pairs_def)
    then show ?thesis using st1 that
      by (auto simp: outputs_ok_def track_held_pairs down_after_snoc) (auto simp: track_key_state_def down_after_snoc split: if_splits)
  qed
  moreover obtain w where "key_blocked env kb b k v st = (w, st1)" using n unfolding st1_def by blast
  ultimately show ?thesis using assms st1 by (cases w) (simp_all add: write_key_def)
qed

section \<open>Owed releases\<close>

text \<open>\<open>n b k\<close> releases are to come for the key \<open>k\<close> of \<open>b\<close>: more than the blocked presses will absorb.\<close>

definition owed_by :: "(bucket \<Rightarrow> nat \<Rightarrow> nat) \<Rightarrow> pipe \<Rightarrow> bool" where
  "owed_by n st \<longleftrightarrow> (\<forall>b k. k \<in> held_output_keys st b \<longrightarrow> blocked_output_keys st b k < n b k)"

lemma owed_by_mono: "owed_by n st \<Longrightarrow> (\<And>b k. n b k \<le> n' b k) \<Longrightarrow> owed_by n' st"
  unfolding owed_by_def by (meson less_le_trans)

lemma write_key_at:
  "held_output_keys (write_key env kb b k v st) b' = (if b' = b then held_output_keys (write_key env kb b k v st) b else held_output_keys st b')"
  "k' \<noteq> k \<Longrightarrow> k' \<in> held_output_keys (write_key env kb b k v st) b' \<longleftrightarrow> k' \<in> held_output_keys st b'"
  "b' \<noteq> b \<or> k' \<noteq> k \<Longrightarrow> blocked_output_keys (write_key env kb b k v st) b' k' = blocked_output_keys st b' k'"
  by (auto simp: write_key_def key_blocked_def track_key_state_def Let_def)

lemma press_owed:
  assumes ok: "outputs_ok env st" and owed: "owed_by n st"
    and le: "\<And>b' k'. n b' k' \<le> n' b' k'"
    and one: "0 < n' b k"
    and more: "kb \<Longrightarrow> keyboard_code env k \<Longrightarrow> k \<in> held_output_keys st b \<Longrightarrow> n b k < n' b k"
  shows "owed_by n' (write_key env kb b k 1 st)"
  unfolding owed_by_def
proof (intro allI impI)
  fix b' k'
  assume held: "k' \<in> held_output_keys (write_key env kb b k 1 st) b'"
  show "blocked_output_keys (write_key env kb b k 1 st) b' k' < n' b' k'"
  proof (cases "b' = b \<and> k' = k")
    case False
    then have "k' \<in> held_output_keys st b'"
      using held write_key_at(1) [of env kb b k 1 st b'] write_key_at(2) [of k' k env kb b 1 st b'] by auto
    then show ?thesis using False owed le [of b' k'] by (auto simp: owed_by_def write_key_at(3) intro: less_le_trans)
  next
    case True
    have b0: "\<not> keyboard_code env k \<Longrightarrow> blocked_output_keys st b k = 0" using ok by (simp add: outputs_ok_def)
    have p: "present env b" using held ok True by (auto simp: write_key_def outputs_ok_def split: if_splits)
    show ?thesis
    proof (cases "keyboard_code env k \<and> kb")
      case kb: True
      then have "k \<in> held_output_keys st b" using held True by (auto simp: write_key_def key_blocked_def Let_def split: if_splits)
      then have "blocked_output_keys st b k + 1 < n' b k" using owed more kb by (force simp: owed_by_def)
      then show ?thesis using True kb p by (simp add: write_key_def key_blocked_def Let_def)
    next
      case False
      then show ?thesis using True one b0 p by (auto simp: write_key_def key_blocked_def track_key_state_def Let_def)
    qed
  qed
qed

lemma release_owed:
  assumes ok: "outputs_ok env st" and owed: "owed_by n st"
    and le: "\<And>b' k'. (b', k') \<noteq> (b, k) \<Longrightarrow> n b' k' \<le> n' b' k'"
    and less: "n b k \<le> n' b k + 1"
  shows "owed_by n' (write_key env kb b k 0 st)"
  unfolding owed_by_def
proof (intro allI impI)
  fix b' k'
  assume held: "k' \<in> held_output_keys (write_key env kb b k 0 st) b'"
  show "blocked_output_keys (write_key env kb b k 0 st) b' k' < n' b' k'"
  proof (cases "b' = b \<and> k' = k")
    case False
    then have "k' \<in> held_output_keys st b'"
      using held write_key_at(1) [of env kb b k 0 st b'] write_key_at(2) [of k' k env kb b 0 st b'] by auto
    then show ?thesis using False owed le [of b' k'] by (auto simp: owed_by_def write_key_at(3) intro: less_le_trans)
  next
    case True
    have p: "present env b" using held ok True by (auto simp: write_key_def outputs_ok_def split: if_splits)
    then have c: "keyboard_code env k" "0 < blocked_output_keys st b k" and h: "k \<in> held_output_keys st b"
      using held True by (auto simp: write_key_def key_blocked_def track_key_state_def Let_def split: if_splits)
    then have "blocked_output_keys st b k - 1 < n' b k" using owed less by (fastforce simp: owed_by_def)
    then show ?thesis using True c p by (simp add: write_key_def key_blocked_def Let_def)
  qed
qed

lemma repeat_owed: "v \<noteq> 0 \<Longrightarrow> v \<noteq> 1 \<Longrightarrow> owed_by n (write_key env kb b k v st) = owed_by n st"
  by (simp add: owed_by_def write_key_def key_blocked_def track_key_state_def Let_def split: bool.split)

section \<open>Who will release\<close>

text \<open>An event name that stands for its code, and the output its release goes to.\<close>

definition event_named :: "pipe_env \<Rightarrow> nat \<Rightarrow> bool" where
  "event_named env c \<longleftrightarrow> output_code env (key_name env c) = Some c \<and> ecode_of env (key_name env c) = Some c
     \<and> py_lower (key_name env c) = key_name env c \<and> key_name env c \<noteq> []"

definition named_key :: "pipe_env \<Rightarrow> string \<Rightarrow> bool" where
  "named_key env s \<longleftrightarrow> (\<exists>c. s = key_name env c \<and> event_named env c)"

definition pass_target :: "pipe_env \<Rightarrow> string \<Rightarrow> (bucket \<times> nat) option" where
  "pass_target env s = map_option (Pair ''passthrough'') (output_code env s)"

fun action_target :: "pipe_env \<Rightarrow> string \<Rightarrow> held_action option \<Rightarrow> (bucket \<times> nat) option" where
  "action_target env s None = pass_target env s"
| "action_target env s (Some HPassthrough) = pass_target env s"
| "action_target env s (Some (HKey b k)) = Some (b, k)"
| "action_target env s (Some _) = None"

definition unbound :: "pipe_env \<Rightarrow> key_mapping \<Rightarrow> string \<Rightarrow> bool" where
  "unbound env m s \<longleftrightarrow> (\<forall>c. output_code env s = Some c \<longrightarrow> find_action_for_code env c 0 s m = None)"

definition release_target :: "pipe_env \<Rightarrow> pipe \<Rightarrow> string \<Rightarrow> (bucket \<times> nat) option" where
  "release_target env st s =
    (if s \<in> combo_passthrough_held st then pass_target env s
     else case held_source_actions st s of
            Some a \<Rightarrow> action_target env s a
          | None \<Rightarrow> if unbound env (active_mapping st) s then pass_target env s else None)"

definition servers :: "pipe_env \<Rightarrow> string set \<Rightarrow> pipe \<Rightarrow> bucket \<Rightarrow> nat \<Rightarrow> string set" where
  "servers env H st b k =
    {s \<in> H. normalize_combo_evdev s \<notin> combo_recalled_bindings st \<and> release_target env st s = Some (b, k)}"

definition owed :: "pipe_env \<Rightarrow> string set \<Rightarrow> pipe \<Rightarrow> bool" where
  "owed env H st \<longleftrightarrow> owed_by (\<lambda>b k. card (servers env H st b k)) st"

definition mapping_ok :: "key_mapping \<Rightarrow> bool" where
  "mapping_ok m \<longleftrightarrow> (\<forall>n k. (n, HKey ''passthrough'' k) \<notin> set m)"

definition actions_ok :: "pipe \<Rightarrow> bool" where
  "actions_ok st \<longleftrightarrow> (\<forall>s k. held_source_actions st s \<noteq> Some (Some (HKey ''passthrough'' k)))"

text \<open>Keys that were marked as passed through are forwarded.\<close>

definition marks_ok :: "pipe \<Rightarrow> bool" where
  "marks_ok st \<longleftrightarrow> (\<forall>s\<in>combo_passthrough_held st. held_source_actions st s \<in> {None, Some None, Some (Some HPassthrough)})"

text \<open>The invariant inside an event: \<open>H\<close> are the keys that count as held, \<open>E\<close> the key being processed.\<close>

definition pinv :: "pipe_env \<Rightarrow> string set \<Rightarrow> string set \<Rightarrow> pipe \<Rightarrow> bool" where
  "pinv env H E st \<longleftrightarrow> finite H \<and> held_source_keys st \<subseteq> H \<and> (\<forall>s\<in>H. named_key env s)
     \<and> dom (held_source_actions st) \<subseteq> H \<union> E \<and> combo_passthrough_held st \<subseteq> H \<union> E
     \<and> actions_ok st \<and> marks_ok st \<and> mapping_ok (active_mapping st) \<and> outputs_ok env st \<and> owed env H st"

definition pipe_inv :: "pipe_env \<Rightarrow> pipe \<Rightarrow> bool" where
  "pipe_inv env st \<longleftrightarrow> pinv env (held_source_keys st) {} st \<and> quarantined_source_keys st \<inter> held_source_keys st = {}"


section \<open>Writes\<close>

lemma servers_write_key [simp]: "servers env H (write_key env kb b k v st) = servers env H st"
  by (intro ext) (simp add: servers_def release_target_def)

lemma finite_servers: "finite H \<Longrightarrow> finite (servers env H st b k)"
  by (simp add: servers_def)

lemma named_key_lower: "named_key env s \<Longrightarrow> py_lower s = s"
  by (auto simp: named_key_def event_named_def)

lemma named_key_code: "named_key env s \<Longrightarrow> \<exists>c. output_code env s = Some c \<and> s = key_name env c \<and> event_named env c"
  by (auto simp: named_key_def event_named_def)

lemma named_inj: "event_named env c \<Longrightarrow> event_named env c' \<Longrightarrow> key_name env c = key_name env c' \<Longrightarrow> c = c'"
  by (auto simp: event_named_def)

lemma pinv_write:
  assumes "pinv env H E st" and "owed env H (write_key env kb b k v st)"
  shows "pinv env H E (write_key env kb b k v st)"
  using assms by (simp add: pinv_def actions_ok_def marks_ok_def write_key_outputs_ok)

text \<open>A press of an output that was up, or one for which a new release is owed.\<close>

lemma pinv_press:
  assumes inv: "pinv env H E st" and H: "finite H'" "held_source_keys st' \<subseteq> H'" "\<forall>s\<in>H'. named_key env s"
      "dom (held_source_actions st') \<subseteq> H' \<union> E'" "combo_passthrough_held st' \<subseteq> H' \<union> E'" "actions_ok st'" "marks_ok st'" "active_mapping st' = active_mapping st"
    and out: "held_output_keys st' = held_output_keys st" "blocked_output_keys st' = blocked_output_keys st" "written st' = written st"
    and sub: "\<And>b' k'. k' \<in> held_output_keys st b' \<Longrightarrow> servers env H st b' k' \<subseteq> servers env H' st' b' k'"
    and s: "s \<in> servers env H' st' b k"
    and more: "kb \<Longrightarrow> keyboard_code env k \<Longrightarrow> k \<in> held_output_keys st b \<Longrightarrow> s \<notin> servers env H st b k"
  shows "pinv env H' E' (write_key env kb b k 1 st')"
proof -
  have fin: "finite (servers env H' st' b' k')" for b' k' using H(1) by (rule finite_servers)
  have ok: "outputs_ok env st'" using inv out by (simp add: pinv_def outputs_ok_def held_pairs_def)
  define n where "n b' k' = (if k' \<in> held_output_keys st b' then card (servers env H st b' k') else 0)" for b' k'
  have owed: "owed_by n st'" using inv out by (auto simp: pinv_def owed_def owed_by_def n_def)
  have "owed_by (\<lambda>b k. card (servers env H' st' b k)) (write_key env kb b k 1 st')"
  proof (rule press_owed [OF ok owed])
    show "n b' k' \<le> card (servers env H' st' b' k')" for b' k'
      using sub [of k' b'] fin [of b' k'] by (auto simp: n_def intro: card_mono)
    show "0 < card (servers env H' st' b k)" using s fin [of b k] by (auto simp: card_gt_0_iff)
    assume "kb" "keyboard_code env k" "k \<in> held_output_keys st' b"
    then have held: "k \<in> held_output_keys st b" and "servers env H st b k \<subset> servers env H' st' b k"
      using sub [of k b] more s out by auto
    then show "n b k < card (servers env H' st' b k)" using fin [of b k] by (simp add: n_def psubset_card_mono)
  qed
  then show ?thesis using inv H ok by (auto simp: pinv_def owed_def actions_ok_def marks_ok_def write_key_outputs_ok)
qed

text \<open>A release, after which at most one source less owes a release of the output.\<close>

lemma pinv_release:
  assumes inv: "pinv env H E st"
    and out: "held_output_keys st' = held_output_keys st" "blocked_output_keys st' = blocked_output_keys st" "written st' = written st"
    and H: "finite H'" "held_source_keys st' \<subseteq> H'" "\<forall>s\<in>H'. named_key env s"
      "dom (held_source_actions st') \<subseteq> H' \<union> E'" "combo_passthrough_held st' \<subseteq> H' \<union> E'" "actions_ok st'" "marks_ok st'" "mapping_ok (active_mapping st')"
    and sub: "\<And>b' k'. (b', k') \<noteq> (b, k) \<Longrightarrow> k' \<in> held_output_keys st b' \<Longrightarrow> servers env H st b' k' \<subseteq> servers env H' st' b' k'"
    and s: "servers env H st b k - {s} \<subseteq> servers env H' st' b k"
  shows "pinv env H' E' (write_key env kb b k 0 st')"
proof -
  have fin: "finite (servers env H' st' b' k')" for b' k' using H(1) by (rule finite_servers)
  have ok: "outputs_ok env st'" using inv out by (simp add: pinv_def outputs_ok_def held_pairs_def)
  define n where "n b' k' = (if k' \<in> held_output_keys st b' then card (servers env H st b' k') else 0)" for b' k'
  have owed: "owed_by n st'" using inv out by (auto simp: pinv_def owed_def owed_by_def n_def)
  have "owed_by (\<lambda>b k. card (servers env H' st' b k)) (write_key env kb b k 0 st')"
  proof (rule release_owed [OF ok owed])
    show "n b' k' \<le> card (servers env H' st' b' k')" if "(b', k') \<noteq> (b, k)" for b' k'
      using sub [OF that] fin [of b' k'] by (auto simp: n_def intro: card_mono)
    have "card (servers env H st b k) \<le> card (servers env H st b k - {s}) + 1"
      by (cases "finite (servers env H st b k)") (auto simp: card_Diff_singleton_if)
    also have "\<dots> \<le> card (servers env H' st' b k) + 1" using card_mono [OF fin s] by simp
    finally show "n b k \<le> card (servers env H' st' b k) + 1" by (simp add: n_def)
  qed
  then show ?thesis using H ok by (auto simp: pinv_def owed_def actions_ok_def marks_ok_def write_key_outputs_ok)
qed

text \<open>Only the books change.\<close>

lemma pinv_books:
  assumes inv: "pinv env H E st"
    and out: "held_output_keys st' = held_output_keys st" "blocked_output_keys st' = blocked_output_keys st" "written st' = written st"
    and H: "finite H'" "held_source_keys st' \<subseteq> H'" "\<forall>s\<in>H'. named_key env s"
      "dom (held_source_actions st') \<subseteq> H' \<union> E'" "combo_passthrough_held st' \<subseteq> H' \<union> E'" "actions_ok st'" "marks_ok st'" "mapping_ok (active_mapping st')"
    and sub: "\<And>b' k'. k' \<in> held_output_keys st b' \<Longrightarrow> servers env H st b' k' \<subseteq> servers env H' st' b' k'"
  shows "pinv env H' E' st'"
proof -
  have "owed env H' st'"
    unfolding owed_def owed_by_def
  proof (intro allI impI)
    fix b k
    assume held: "k \<in> held_output_keys st' b"
    then have "blocked_output_keys st b k < card (servers env H st b k)"
      using inv out by (auto simp: pinv_def owed_def owed_by_def)
    also have "\<dots> \<le> card (servers env H' st' b k)"
      using sub [of k b] held out(1) by (intro card_mono finite_servers H(1)) auto
    finally show "blocked_output_keys st' b k < card (servers env H' st' b k)" using out by simp
  qed
  then show ?thesis using inv H out by (auto simp: pinv_def outputs_ok_def held_pairs_def)
qed


section \<open>Combo operations\<close>

text \<open>What the combo runtime may do to a binding: its name is an event name, no other held key shares the
  generic name of a recalled one, and only bindings whose action can hold an output are restored.\<close>

definition op_binding :: "combo_op \<Rightarrow> string" where
  "op_binding op = (case op of RecallEvent n \<Rightarrow> n | RecallTrigger n \<Rightarrow> n | RestoreTrigger n \<Rightarrow> n)"

definition op_ok :: "pipe_env \<Rightarrow> pipe \<Rightarrow> combo_op \<Rightarrow> bool" where
  "op_ok env st op \<longleftrightarrow> named_key env (op_binding op)
     \<and> (case op of
          RestoreTrigger n \<Rightarrow> \<forall>k. held_source_actions st n \<noteq> Some (Some (HRelative k))
        | _ \<Rightarrow> True)"

definition alone :: "string set \<Rightarrow> string \<Rightarrow> bool" where
  "alone H n \<longleftrightarrow> (\<forall>s\<in>H. normalize_combo_evdev s = normalize_combo_evdev n \<longrightarrow> s = n)"

fun ops_ok :: "pipe_env \<Rightarrow> string set \<Rightarrow> bool \<Rightarrow> pipe \<Rightarrow> combo_op list \<Rightarrow> bool" where
  "ops_ok env H kb st [] = True"
| "ops_ok env H kb st (op # ops) =
    (op_ok env st op \<and> ((\<forall>n. op \<noteq> RestoreTrigger n) \<longrightarrow> alone H (op_binding op))
      \<and> ops_ok env H kb (combo_op_step env kb op st) ops)"

text \<open>If the release of a binding goes anywhere, it goes to the output of the binding.\<close>

lemma combo_binding_output_release:
  assumes "named_key env n" and "actions_ok st" and "marks_ok st"
    and "combo_binding_output env n st = Some t" and "release_target env st n = Some t'"
  shows "t' = t"
proof (cases "held_source_actions st n")
  case None
  then show ?thesis using assms named_key_lower [OF assms(1)]
    by (auto simp: combo_binding_output_def release_target_def pass_target_def Let_def split: if_splits)
next
  case (Some x)
  then show ?thesis
  proof (cases x)
    case None
    then show ?thesis using Some assms named_key_lower [OF assms(1)]
      by (auto simp: combo_binding_output_def release_target_def pass_target_def Let_def split: if_splits)
  next
    case (Some a)
    then show ?thesis using \<open>held_source_actions st n = Some x\<close> assms named_key_lower [OF assms(1)]
      by (cases a) (auto simp: combo_binding_output_def release_target_def pass_target_def Let_def marks_ok_def split: if_splits)
  qed
qed

lemma combo_binding_output_pass:
  assumes "named_key env n" and "combo_binding_output env n st = Some (''passthrough'', k)" and "actions_ok st"
  shows "pass_target env n = Some (''passthrough'', k) \<and> held_source_actions st n \<in> {None, Some None, Some (Some HPassthrough)}"
  using assms named_key_lower [OF assms(1)]
  by (auto simp: combo_binding_output_def pass_target_def Let_def actions_ok_def split: option.splits held_action.splits if_splits)

lemma combo_binding_output_key:
  assumes "named_key env n" and "combo_binding_output env n st = Some (b, k)" and "b \<noteq> ''passthrough''"
    and "\<forall>k. held_source_actions st n \<noteq> Some (Some (HRelative k))"
  shows "held_source_actions st n = Some (Some (HKey b k))"
  using assms named_key_lower [OF assms(1)]
  by (auto simp: combo_binding_output_def Let_def split: option.splits held_action.splits if_splits)

lemma write_key_update:
  "write_key env kb b k v (st\<lparr>combo_recalled_bindings := x\<rparr>) = (write_key env kb b k v st)\<lparr>combo_recalled_bindings := x\<rparr>"
  "write_key env kb b k v (st\<lparr>combo_passthrough_held := y\<rparr>) = (write_key env kb b k v st)\<lparr>combo_passthrough_held := y\<rparr>"
  "write_key env kb b k v (st\<lparr>held_source_actions := z\<rparr>) = (write_key env kb b k v st)\<lparr>held_source_actions := z\<rparr>"
  by (auto simp: write_key_def key_blocked_def track_key_state_def Let_def split: bool.split)

lemma recall_pinv:
  assumes inv: "pinv env H E st" and n: "named_key env n" and alone: "alone H n"
  shows "pinv env H E (recall_binding env kb n st)"
proof (cases "combo_passthrough_binding_active env n st")
  case True
  then obtain b k where o: "combo_binding_output env n st = Some (b, k)"
    by (auto simp: combo_passthrough_binding_active_def split: option.splits)
  define st' where "st' = mark_combo_recalled_binding n st"
  have eq: "recall_binding env kb n st = write_key env kb b k 0 st'"
    using True o by (simp add: recall_binding_def emit_combo_release_def st'_def mark_combo_recalled_binding_def write_key_update)
  have t: "release_target env st' = release_target env st"
    by (intro ext) (simp add: release_target_def st'_def mark_combo_recalled_binding_def)
  have srv: "servers env H st b' k' - {n} \<subseteq> servers env H st' b' k'" for b' k'
    using alone by (auto simp: servers_def t) (auto simp: st'_def mark_combo_recalled_binding_def alone_def)
  have only: "n \<notin> servers env H st b' k'" if "(b', k') \<noteq> (b, k)" for b' k'
    using combo_binding_output_release [OF n _ _ o, of "(b', k')"] inv that by (auto simp: servers_def pinv_def)
  show ?thesis
    unfolding eq
  proof (rule pinv_release [OF inv, where s = n])
    show "servers env H st b' k' \<subseteq> servers env H st' b' k'" if "(b', k') \<noteq> (b, k)" for b' k'
      using srv [of b' k'] only [OF that] by auto
  qed (use inv srv [of b k] in \<open>auto simp: st'_def mark_combo_recalled_binding_def pinv_def actions_ok_def marks_ok_def\<close>)
qed (use inv in \<open>simp add: recall_binding_def\<close>)

lemma clear_marker_pinv:
  assumes inv: "pinv env H E st"
  shows "pinv env H E (clear_combo_recalled_binding n st)"
  by (rule pinv_books [OF inv])
    (use inv in \<open>auto simp: clear_combo_recalled_binding_def pinv_def actions_ok_def marks_ok_def servers_def release_target_def\<close>)

lemma restore_pinv:
  assumes inv: "pinv env H E st" and n: "named_key env n"
    and rel: "\<forall>k. held_source_actions st n \<noteq> Some (Some (HRelative k))"
    and held: "n \<in> held_source_keys st" and idle: "\<not> combo_passthrough_binding_active env n st"
  shows "pinv env H E (clear_combo_recalled_binding n (emit_combo_press env kb n st))"
proof (cases "combo_binding_output env n st")
  case None
  then show ?thesis using clear_marker_pinv [OF inv] by (simp add: emit_combo_press_def)
next
  case (Some out)
  then obtain b k where o: "combo_binding_output env n st = Some (b, k)" by (cases out) auto
  have up: "k \<notin> held_output_keys st b" using idle o by (auto simp: combo_passthrough_binding_active_def)
  have H: "n \<in> H" using held inv by (auto simp: pinv_def)
  define st' where "st' = clear_combo_recalled_binding n
    (if b = ''passthrough'' then st\<lparr>combo_passthrough_held := insert n (combo_passthrough_held st)\<rparr> else st)"
  have eq: "clear_combo_recalled_binding n (emit_combo_press env kb n st) = write_key env kb b k 1 st'"
    using o named_key_lower [OF n]
    by (simp add: emit_combo_press_def st'_def clear_combo_recalled_binding_def write_key_update Let_def)
  have target: "release_target env st' n = Some (b, k)"
  proof (cases "b = ''passthrough''")
    case True
    then show ?thesis using combo_binding_output_pass [OF n] o inv
      by (simp add: st'_def release_target_def clear_combo_recalled_binding_def pinv_def)
  next
    case False
    then have "held_source_actions st n = Some (Some (HKey b k))" using combo_binding_output_key [OF n o] rel by blast
    moreover have "n \<notin> combo_passthrough_held st" using calculation inv by (auto simp: pinv_def marks_ok_def)
    ultimately show ?thesis using False by (simp add: st'_def release_target_def clear_combo_recalled_binding_def)
  qed
  have other: "release_target env st' s = release_target env st s" if "s \<noteq> n" for s
    using that by (simp add: st'_def release_target_def clear_combo_recalled_binding_def)
  have sub: "servers env H st b' k' \<subseteq> servers env H st' b' k'" for b' k'
  proof
    fix s assume s: "s \<in> servers env H st b' k'"
    have "release_target env st' s = Some (b', k')"
    proof (cases "s = n")
      case True
      then show ?thesis using s combo_binding_output_release [OF n _ _ o] inv target by (fastforce simp: servers_def pinv_def)
    qed (use s other in \<open>auto simp: servers_def\<close>)
    then show "s \<in> servers env H st' b' k'"
      using s by (auto simp: servers_def) (auto simp: st'_def clear_combo_recalled_binding_def split: if_splits)
  qed
  have mark: "marks_ok st'"
    using inv combo_binding_output_pass [OF n, of st k] o by (auto simp: st'_def marks_ok_def pinv_def clear_combo_recalled_binding_def)
  show ?thesis
    unfolding eq
  proof (rule pinv_press [OF inv _ _ _ _ _ _ _ _ _ _ _ sub, where s = n])
    show "n \<in> servers env H st' b k"
      using H target by (auto simp: servers_def) (auto simp: st'_def clear_combo_recalled_binding_def split: if_splits)
  qed (use inv H up mark in \<open>auto simp: st'_def clear_combo_recalled_binding_def pinv_def actions_ok_def split: if_splits\<close>)
qed

lemma combo_op_pinv:
  assumes "pinv env H E st" and "op_ok env st op" and "(\<forall>n. op \<noteq> RestoreTrigger n) \<longrightarrow> alone H (op_binding op)"
  shows "pinv env H E (combo_op_step env kb op st)"
proof (cases op)
  case (RestoreTrigger n)
  then show ?thesis using assms named_key_lower [of env n]
    by (auto simp: op_ok_def op_binding_def combo_source_binding_held_def intro: clear_marker_pinv restore_pinv)
qed (use assms in \<open>auto simp: op_ok_def op_binding_def intro: recall_pinv\<close>)

lemma combo_ops_pinv:
  "pinv env H E st \<Longrightarrow> ops_ok env H kb st ops \<Longrightarrow> pinv env H E (combo_ops env kb ops st)"
  by (induction ops arbitrary: st) (auto intro: combo_op_pinv)


lemma combo_op_fields [simp]:
  "held_source_keys (combo_op_step env kb op st) = held_source_keys st"
  "quarantined_source_keys (combo_op_step env kb op st) = quarantined_source_keys st"
  "active_mapping (combo_op_step env kb op st) = active_mapping st"
  "held_source_actions (combo_op_step env kb op st) = held_source_actions st"
  by (cases op; auto simp: recall_binding_def emit_combo_release_def emit_combo_press_def mark_combo_recalled_binding_def
      clear_combo_recalled_binding_def Let_def split: option.split)+

lemma combo_ops_fields [simp]:
  "held_source_keys (combo_ops env kb ops st) = held_source_keys st"
  "quarantined_source_keys (combo_ops env kb ops st) = quarantined_source_keys st"
  "active_mapping (combo_ops env kb ops st) = active_mapping st"
  "held_source_actions (combo_ops env kb ops st) = held_source_actions st"
  by (induction ops arbitrary: st) auto

lemma ops_ok_mono: "ops_ok env H kb st ops \<Longrightarrow> H' \<subseteq> H \<Longrightarrow> ops_ok env H' kb st ops"
  by (induction ops arbitrary: st) (auto simp: alone_def)

text \<open>A key that is not held does not come to be marked as passed through.\<close>

lemma combo_ops_unheld:
  "n \<notin> held_source_keys st \<Longrightarrow> n \<notin> combo_passthrough_held st \<Longrightarrow> n \<notin> combo_passthrough_held (combo_ops env kb ops st)"
proof (induction ops arbitrary: st)
  case (Cons op ops)
  have "n \<notin> combo_passthrough_held (combo_op_step env kb op st)"
    using Cons.prems
    by (cases op) (auto simp: recall_binding_def emit_combo_release_def emit_combo_press_def mark_combo_recalled_binding_def
        clear_combo_recalled_binding_def combo_source_binding_held_def Let_def split: option.split)
  then show ?case using Cons by simp
qed simp

text \<open>Operations on other keys leave a key that was just pressed alone.\<close>

definition untouched :: "pipe_env \<Rightarrow> nat \<Rightarrow> pipe \<Rightarrow> bool" where
  "untouched env c st \<longleftrightarrow> c \<notin> held_output_keys st ''passthrough'' \<and> key_name env c \<notin> combo_passthrough_held st
     \<and> normalize_combo_evdev (key_name env c) \<notin> combo_recalled_bindings st"

lemma write_key_other: "(b', k') \<noteq> (b, k) \<Longrightarrow> k' \<in> held_output_keys (write_key env kb b k v st) b' \<longleftrightarrow> k' \<in> held_output_keys st b'"
  by (auto simp: write_key_def key_blocked_def track_key_state_def Let_def split: bool.split)

lemma write_key_release_held: "k' \<in> held_output_keys (write_key env kb b k 0 st) b' \<Longrightarrow> k' \<in> held_output_keys st b'"
  by (auto simp: write_key_def key_blocked_def track_key_state_def Let_def split: if_splits)

lemma combo_op_untouched:
  assumes c: "event_named env c" and un: "untouched env c st" and act: "actions_ok st"
    and op: "op_ok env st op" "op_binding op \<noteq> key_name env c"
    and alone: "(\<forall>n. op \<noteq> RestoreTrigger n) \<longrightarrow> alone H (op_binding op)" and H: "key_name env c \<in> H"
  shows "untouched env c (combo_op_step env kb op st)"
proof -
  have rec: "untouched env c (recall_binding env kb n st)" if "op_binding op = n" "alone H n" for n
  proof -
    have "normalize_combo_evdev (key_name env c) \<noteq> normalize_combo_evdev n" using that H op by (auto simp: alone_def)
    then show ?thesis using un
      by (auto simp: untouched_def recall_binding_def mark_combo_recalled_binding_def emit_combo_release_def
          dest: write_key_release_held split: option.splits)
  qed
  have clear: "untouched env c (clear_combo_recalled_binding n st')" if "untouched env c st'" for n st'
    using that by (auto simp: untouched_def clear_combo_recalled_binding_def)
  have press: "untouched env c (emit_combo_press env kb n st)" if n: "named_key env n" "n \<noteq> key_name env c" for n
  proof (cases "combo_binding_output env n st")
    case None
    then show ?thesis using un by (simp add: emit_combo_press_def)
  next
    case (Some out)
    then obtain b k where o: "combo_binding_output env n st = Some (b, k)" by (cases out) auto
    have "(''passthrough'', c) \<noteq> (b, k)"
    proof
      assume "(''passthrough'', c) = (b, k)"
      then have "output_code env n = Some c" using combo_binding_output_pass [OF n(1), of st c] o act by (auto simp: pass_target_def)
      then show False using named_key_code [OF n(1)] n(2) c by auto
    qed
    then show ?thesis using un o n named_key_lower [OF n(1)] write_key_other [of "''passthrough''" c b k]
      by (auto simp: untouched_def emit_combo_press_def Let_def)
  qed
  show ?thesis
    using op alone rec clear press un by (cases op) (auto simp: op_ok_def op_binding_def)
qed

lemma combo_ops_untouched:
  assumes "event_named env c" and "key_name env c \<in> H"
  shows "untouched env c st \<Longrightarrow> actions_ok st \<Longrightarrow> ops_ok env H kb st ops \<Longrightarrow> \<forall>op\<in>set ops. op_binding op \<noteq> key_name env c
    \<Longrightarrow> untouched env c (combo_ops env kb ops st)"
proof (induction ops arbitrary: st)
  case (Cons op ops)
  have "untouched env c (combo_op_step env kb op st)"
    using combo_op_untouched [OF assms(1) Cons.prems(1,2), of op H] Cons.prems assms(2) by auto
  moreover have "actions_ok (combo_op_step env kb op st)" using Cons.prems(2) by (simp add: actions_ok_def)
  ultimately show ?case using Cons by simp
qed simp


section \<open>Key events\<close>

definition forget_key :: "string \<Rightarrow> pipe \<Rightarrow> pipe" where
  "forget_key n st = st\<lparr>combo_passthrough_held := combo_passthrough_held st - {n},
                        held_source_actions := (held_source_actions st)(n := None)\<rparr>"

definition write_to :: "pipe_env \<Rightarrow> bool \<Rightarrow> (bucket \<times> nat) option \<Rightarrow> int \<Rightarrow> pipe \<Rightarrow> pipe" where
  "write_to env kb w v st = (case w of None \<Rightarrow> st | Some (b, k) \<Rightarrow> write_key env kb b k v st)"

lemma forget_key_id: "n \<notin> combo_passthrough_held st \<Longrightarrow> held_source_actions st n = None \<Longrightarrow> forget_key n st = st"
  by (simp add: forget_key_def fun_upd_idem)

text \<open>A release goes to the output the key holds, or that output is up.\<close>

lemma release_done:
  assumes inv: "pinv env H {n} st" and held: "held_source_keys st \<subseteq> H - {n}"
    and target: "\<And>b k. n \<in> H \<Longrightarrow> release_target env st n = Some (b, k) \<Longrightarrow> w = Some (b, k) \<or> k \<notin> held_output_keys st b"
  shows "pinv env (H - {n}) {} (write_to env kb w 0 (forget_key n st))"
proof -
  let ?st = "forget_key n st"
  have same: "release_target env ?st s = release_target env st s" if "s \<noteq> n" for s
    using that by (simp add: release_target_def forget_key_def)
  have srv: "servers env H st b k - {n} \<subseteq> servers env (H - {n}) ?st b k" for b k
    using same by (auto simp: servers_def) (auto simp: forget_key_def)
  have sub: "servers env H st b k \<subseteq> servers env (H - {n}) ?st b k" if "w \<noteq> Some (b, k)" "k \<in> held_output_keys st b" for b k
    using srv [of b k] target [of b k] that by (auto simp: servers_def)
  have H: "finite (H - {n})" "held_source_keys ?st \<subseteq> H - {n}" "\<forall>s\<in>H - {n}. named_key env s"
      "dom (held_source_actions ?st) \<subseteq> H - {n} \<union> {}" "combo_passthrough_held ?st \<subseteq> H - {n} \<union> {}"
      "actions_ok ?st" "marks_ok ?st" "mapping_ok (active_mapping ?st)"
    using inv held by (auto simp: pinv_def forget_key_def actions_ok_def marks_ok_def split: if_splits)
  have out: "held_output_keys ?st = held_output_keys st" "blocked_output_keys ?st = blocked_output_keys st" "written ?st = written st"
    by (simp_all add: forget_key_def)
  show ?thesis
  proof (cases w)
    case None
    then show ?thesis using pinv_books [OF inv out H] sub by (simp add: write_to_def)
  next
    case (Some bk)
    then obtain b k where "w = Some (b, k)" by (cases bk) auto
    moreover have "pinv env (H - {n}) {} (write_key env kb b k 0 ?st)"
    proof (rule pinv_release [OF inv out H, where s = n])
      show "servers env H st b' k' \<subseteq> servers env (H - {n}) ?st b' k'"
        if "(b', k') \<noteq> (b, k)" "k' \<in> held_output_keys st b'" for b' k'
      proof (rule sub)
        show "w \<noteq> Some (b', k')" using that(1) \<open>w = Some (b, k)\<close> by auto
      qed (rule that(2))
    qed (rule srv)
    ultimately show ?thesis by (simp add: write_to_def)
  qed
qed

definition after_press :: "string \<Rightarrow> bool \<Rightarrow> held_action option option \<Rightarrow> pipe \<Rightarrow> pipe" where
  "after_press n mark a st = st\<lparr>
     held_source_actions := (case a of None \<Rightarrow> held_source_actions st | Some x \<Rightarrow> (held_source_actions st)(n \<mapsto> x)),
     combo_passthrough_held := (if mark then insert n (combo_passthrough_held st) else combo_passthrough_held st)\<rparr>"

text \<open>A press goes to the output its release will go to.\<close>

lemma press_done:
  assumes inv: "pinv env H {} st" and c: "event_named env c" "key_name env c \<in> H"
    and un: "untouched env c st" and fresh: "held_source_actions st (key_name env c) = None"
    and w: "w = release_target env (after_press (key_name env c) mark a st) (key_name env c)"
    and a: "\<And>k. a \<noteq> Some (Some (HKey ''passthrough'' k))" and mark: "mark \<Longrightarrow> a \<in> {None, Some None}"
  shows "pinv env H {} (write_to env kb w 1 (after_press (key_name env c) mark a st))"
proof -
  let ?n = "key_name env c" and ?st = "after_press (key_name env c) mark a st"
  have nm: "?n \<notin> combo_passthrough_held st" "c \<notin> held_output_keys st ''passthrough''"
      "normalize_combo_evdev ?n \<notin> combo_recalled_bindings st"
    using un by (auto simp: untouched_def)
  have pass: "pass_target env ?n = Some (''passthrough'', c)" using c by (simp add: pass_target_def event_named_def)
  have before: "release_target env st ?n \<in> {None, Some (''passthrough'', c)}"
    using nm fresh pass by (simp add: release_target_def)
  have same: "release_target env ?st s = release_target env st s" if "s \<noteq> ?n" for s
    using that by (simp add: release_target_def after_press_def split: option.split)
  have sub: "servers env H st b k \<subseteq> servers env H ?st b k" if "k \<in> held_output_keys st b" for b k
  proof
    fix s assume s: "s \<in> servers env H st b k"
    then have "s \<noteq> ?n" using that before nm(2) by (auto simp: servers_def)
    from same [OF this] show "s \<in> servers env H ?st b k" using s by (simp add: servers_def) (simp add: after_press_def)
  qed
  have H: "finite H" "held_source_keys ?st \<subseteq> H" "\<forall>s\<in>H. named_key env s"
      "dom (held_source_actions ?st) \<subseteq> H \<union> {}" "combo_passthrough_held ?st \<subseteq> H \<union> {}"
      "actions_ok ?st" "marks_ok ?st" "active_mapping ?st = active_mapping st"
    using inv c(2) nm(1) a mark fresh
    by (auto simp: pinv_def after_press_def actions_ok_def marks_ok_def split: option.splits if_splits)
  have out: "held_output_keys ?st = held_output_keys st" "blocked_output_keys ?st = blocked_output_keys st" "written ?st = written st"
    by (simp_all add: after_press_def)
  show ?thesis
  proof (cases w)
    case None
    have "pinv env H {} ?st"
      by (rule pinv_books [OF inv out H(1-7)]) (use inv H(8) sub in \<open>auto simp: pinv_def\<close>)
    then show ?thesis using None by (simp add: write_to_def)
  next
    case (Some bk)
    then obtain b k where bk: "w = Some (b, k)" by (cases bk) auto
    have s: "?n \<in> servers env H ?st b k" using bk w c(2) nm(3) by (simp add: servers_def after_press_def)
    have "?n \<notin> servers env H st b k" if "k \<in> held_output_keys st b"
      using that before nm(2) by (auto simp: servers_def)
    then show ?thesis
      using pinv_press [OF inv H out sub s] bk by (simp add: write_to_def)
  qed
qed


lemma action_write:
  assumes "event_named env c"
  shows "(case action of Some a \<Rightarrow> execute_action env kb a c v st | None \<Rightarrow> passthrough env kb c v st)
      = write_to env kb (action_target env (key_name env c) action) v st"
  using assms
  by (cases "(env, key_name env c, action)" rule: action_target.cases)
    (auto simp: execute_action_def passthrough_def write_to_def pass_target_def event_named_def)

lemma dispatch_release:
  assumes c: "event_named env (ev_code inp)" and v: "ev_value inp = 0"
  defines "n \<equiv> key_name env (ev_code inp)"
  obtains w where "dispatch_key env inp False requested st = write_to env (kb_blocked inp) w 0 (forget_key n st)"
    and "\<And>b k. release_target env st n = Some (b, k) \<Longrightarrow> w = Some (b, k)"
proof -
  have pass: "pass_target env n = Some (''passthrough'', ev_code inp)" using c by (simp add: pass_target_def event_named_def n_def)
  consider (mark) "n \<in> combo_passthrough_held st"
    | (fast) "n \<notin> combo_passthrough_held st" "active_mapping st = [] \<and> \<not> recording inp \<and> n \<notin> dom (held_source_actions st)"
    | (mapped) "n \<notin> combo_passthrough_held st" "\<not> (active_mapping st = [] \<and> \<not> recording inp \<and> n \<notin> dom (held_source_actions st))"
    by blast
  then show thesis
  proof cases
    case mark
    have "dispatch_key env inp False requested st = write_to env (kb_blocked inp) (pass_target env n) 0 (forget_key n st)"
      using mark v pass
      by (simp add: dispatch_key_def Let_def n_def finish_combo_passthrough_held_event_def clear_released_source_action_def
          write_to_def forget_key_def passthrough_def write_key_update)
    then show thesis by (rule that) (use mark in \<open>simp add: release_target_def\<close>)
  next
    case fast
    then have "held_source_actions st n = None" by auto
    have "dispatch_key env inp False requested st = write_to env (kb_blocked inp) (pass_target env n) 0 (forget_key n st)"
      using fast v pass forget_key_id [OF fast(1) \<open>held_source_actions st n = None\<close>]
      by (simp add: dispatch_key_def Let_def n_def apply_fast_passthrough_def mark_combo_passthrough_press_def write_to_def passthrough_def)
    then show thesis
      by (rule that) (use fast(1) \<open>held_source_actions st n = None\<close> in \<open>simp add: release_target_def split: if_splits\<close>)
  next
    case mapped
    define action where "action = (case held_source_actions st n of Some a \<Rightarrow> a
      | None \<Rightarrow> find_action_for_code env (ev_code inp) 0 n (active_mapping st))"
    have rem: "remembered_action n 0 (find_action_for_code env (ev_code inp) 0 n (active_mapping st)) st = (action, st)"
      by (simp add: remembered_action_def action_def split: option.split)
    have marks: "mark_combo_passthrough_press n 0 requested st = st" by (simp add: mark_combo_passthrough_press_def)
    have "dispatch_key env inp False requested st
        = clear_released_source_action n 0 (write_to env (kb_blocked inp) (action_target env n action) 0 st)"
      using mapped v rem marks action_write [OF c, where action = action and kb = "kb_blocked inp" and v = 0 and st = st]
      by (cases action) (auto simp add: dispatch_key_def Let_def n_def [symmetric] apply_mapped_action_or_passthrough_def)
    also have "\<dots> = write_to env (kb_blocked inp) (action_target env n action) 0 (forget_key n st)"
      using mapped(1)
      by (simp add: clear_released_source_action_def write_to_def forget_key_def write_key_update split: option.split prod.split)
    finally show thesis
    proof (rule that)
      fix b k
      assume "release_target env st n = Some (b, k)"
      then show "action_target env n action = Some (b, k)"
        using mapped(1) c by (auto simp: release_target_def action_def unbound_def event_named_def n_def split: option.splits if_splits)
    qed
  qed
qed

lemma find_action_in_mapping: "find_action_for_code env c v n m = Some a \<Longrightarrow> \<exists>x. (x, a) \<in> set m"
  by (auto simp: find_action_for_code_def button_action_def find_action_for_name_def Let_def
      split: option.splits if_splits dest: map_of_SomeD)

lemma find_action_Nil [simp]: "find_action_for_code env c v n [] = None"
  by (auto simp: find_action_for_code_def button_action_def find_action_for_name_def Let_def split: option.split)

lemma dispatch_press:
  assumes inv: "pinv env H {} st" and c: "event_named env (ev_code inp)" and v: "ev_value inp = 1"
    and H: "key_name env (ev_code inp) \<in> H" and un: "untouched env (ev_code inp) st"
    and fresh: "held_source_actions st (key_name env (ev_code inp)) = None"
  shows "pinv env H {} (dispatch_key env inp False requested st)"
proof -
  let ?n = "key_name env (ev_code inp)"
  have pass: "pass_target env ?n = Some (''passthrough'', ev_code inp)" using c by (simp add: pass_target_def event_named_def)
  have nm: "?n \<notin> combo_passthrough_held st" using un by (simp add: untouched_def)
  show ?thesis
  proof (cases "active_mapping st = [] \<and> \<not> recording inp")
    case True
    then have "dispatch_key env inp False requested st
        = write_to env (kb_blocked inp) (pass_target env ?n) 1 (after_press ?n requested None st)"
      using nm fresh v pass
      by (auto simp add: dispatch_key_def Let_def apply_fast_passthrough_def mark_combo_passthrough_press_def write_to_def
          passthrough_def after_press_def)
    also have "pass_target env ?n = release_target env (after_press ?n requested None st) ?n"
      using True fresh by (simp add: release_target_def after_press_def unbound_def)
    finally show ?thesis using press_done [OF inv c H un fresh refl] by simp
  next
    case False
    define action where "action = find_action_for_code env (ev_code inp) 1 ?n (active_mapping st)"
    define mark where "mark = (requested \<and> action = None)"
    have rem: "remembered_action ?n 1 action st = (action, st\<lparr>held_source_actions := (held_source_actions st)(?n \<mapsto> action)\<rparr>)"
      using fresh by (simp add: remembered_action_def)
    have "dispatch_key env inp False requested st
        = write_to env (kb_blocked inp) (action_target env ?n action) 1 (after_press ?n mark (Some action) st)"
      using False nm v rem fresh action_write [OF c, where action = action and kb = "kb_blocked inp" and v = 1 and st = "after_press ?n mark (Some action) st"]
      by (cases action) (auto simp: dispatch_key_def Let_def apply_mapped_action_or_passthrough_def action_def [symmetric]
          clear_released_source_action_def mark_combo_passthrough_press_def after_press_def mark_def)
    also have "action_target env ?n action = release_target env (after_press ?n mark (Some action) st) ?n"
      using nm by (simp add: release_target_def after_press_def mark_def)
    finally show ?thesis
    proof (simp only:, intro press_done [OF inv c H un fresh refl])
      show "Some action \<noteq> Some (Some (HKey ''passthrough'' k))" for k
        using inv find_action_in_mapping [of env "ev_code inp" 1 ?n "active_mapping st"]
        by (auto simp: action_def pinv_def mapping_ok_def)
    qed (simp add: mark_def)
  qed
qed

lemma write_to_repeat:
  assumes "pinv env H E st" and "v \<noteq> 0" and "v \<noteq> 1" shows "pinv env H E (write_to env kb w v st)"
proof (cases w)
  case (Some bk)
  then show ?thesis using assms pinv_write [OF assms(1)] by (cases bk) (auto simp: write_to_def owed_def repeat_owed pinv_def)
qed (use assms in \<open>simp add: write_to_def\<close>)

lemma dispatch_repeat:
  assumes c: "event_named env (ev_code inp)" and v: "ev_value inp = 2"
  obtains w where "dispatch_key env inp False requested st = write_to env (kb_blocked inp) w 2 st"
proof -
  let ?n = "key_name env (ev_code inp)"
  have pass: "passthrough env kb (ev_code inp) 2 st = write_to env kb (Some (''passthrough'', ev_code inp)) 2 st" for kb
    by (simp add: passthrough_def write_to_def)
  define action where "action = (case held_source_actions st ?n of Some a \<Rightarrow> a
      | None \<Rightarrow> find_action_for_code env (ev_code inp) 2 ?n (active_mapping st))"
  have rem: "remembered_action ?n 2 (find_action_for_code env (ev_code inp) 2 ?n (active_mapping st)) st = (action, st)"
    by (simp add: remembered_action_def action_def split: option.split)
  have "dispatch_key env inp False requested st
      \<in> {write_to env (kb_blocked inp) (Some (''passthrough'', ev_code inp)) 2 st,
         write_to env (kb_blocked inp) (action_target env ?n action) 2 st}"
    using v rem pass action_write [OF c, where action = action and kb = "kb_blocked inp" and v = 2 and st = st]
    by (cases action) (auto simp: dispatch_key_def Let_def finish_combo_passthrough_held_event_def apply_fast_passthrough_def
        mark_combo_passthrough_press_def apply_mapped_action_or_passthrough_def clear_released_source_action_def)
  then show thesis using that by auto
qed

lemma write_to_fields [simp]:
  "held_source_keys (write_to env kb w v st) = held_source_keys st"
  "quarantined_source_keys (write_to env kb w v st) = quarantined_source_keys st"
  by (auto simp: write_to_def split: option.split)

lemma remembered_action_fields [simp]:
  "held_source_keys (snd (remembered_action n v a st)) = held_source_keys st"
  "quarantined_source_keys (snd (remembered_action n v a st)) = quarantined_source_keys st"
  by (auto simp: remembered_action_def split: option.split)

lemma execute_action_fields [simp]:
  "held_source_keys (execute_action env kb a c v st) = held_source_keys st"
  "quarantined_source_keys (execute_action env kb a c v st) = quarantined_source_keys st"
  by (auto simp: execute_action_def passthrough_def split: held_action.split)

lemma clear_released_fields [simp]:
  "held_source_keys (clear_released_source_action n v st) = held_source_keys st"
  "quarantined_source_keys (clear_released_source_action n v st) = quarantined_source_keys st"
  by (auto simp: clear_released_source_action_def)

lemma mark_press_fields [simp]:
  "held_source_keys (mark_combo_passthrough_press n v r st) = held_source_keys st"
  "quarantined_source_keys (mark_combo_passthrough_press n v r st) = quarantined_source_keys st"
  by (auto simp: mark_combo_passthrough_press_def)

lemma apply_mapped_fields [simp]:
  "held_source_keys (apply_mapped_action_or_passthrough env kb c v r st) = held_source_keys st"
  "quarantined_source_keys (apply_mapped_action_or_passthrough env kb c v r st) = quarantined_source_keys st"
  by (simp_all add: apply_mapped_action_or_passthrough_def Let_def case_prod_beta passthrough_def split: option.split)

lemma dispatch_key_fields [simp]:
  "held_source_keys (dispatch_key env inp sr r st) = held_source_keys st"
  "quarantined_source_keys (dispatch_key env inp sr r st) = quarantined_source_keys st"
  by (simp_all add: dispatch_key_def Let_def finish_combo_passthrough_held_event_def apply_fast_passthrough_def passthrough_def)

end
