(* ===== verification/Key_Invariant.thy ===== *)
theory Key_Invariant
  imports Key_Books
begin

text \<open>
  The invariant of the key pipeline: every step of a grabbed device (a key event with its combo callback, an
  operation of the combo runtime, a change of the mapping, a release of everything) keeps the books of
  \<open>Key_Books\<close>, under the guards \<open>pipe_guard\<close> that say what the world may do.
\<close>

section \<open>Key events\<close>

text \<open>The state that meets the combo callback, and the state at its answer.\<close>

definition before_callback :: "pipe_env \<Rightarrow> key_arrival \<Rightarrow> pipe \<Rightarrow> interception \<times> pipe" where
  "before_callback env inp st =
    (let v = ev_value inp; n = key_name env (ev_code inp)
     in intercept_recalled_event n v (observe_source_key_transition n v
          (snd (intercept_paused_or_quarantined (input_paused inp) n v st))))"

definition at_reply :: "pipe_env \<Rightarrow> key_arrival \<Rightarrow> pipe \<Rightarrow> pipe" where
  "at_reply env inp st = combo_ops env (kb_blocked inp) (callback_ops inp) (snd (before_callback env inp st))"

definition let_through :: "pipe_env \<Rightarrow> nat \<Rightarrow> pipe \<Rightarrow> bool" where
  "let_through env c st \<longleftrightarrow> held_source_actions st (key_name env c) \<noteq> None
     \<or> key_name env c \<in> combo_passthrough_held st \<or> c \<in> held_output_keys st ''passthrough''"

text \<open>Events as they come from a device: presses and releases alternate, and input is paused only when the held
  keys were released before.  The combo callback recalls and restores other keys than the one that goes down,
  and takes away the release of a key only if it took away its press.\<close>

definition key_ok :: "pipe_env \<Rightarrow> pipe \<Rightarrow> key_arrival \<Rightarrow> bool" where
  "key_ok env st inp \<longleftrightarrow>
    (let c = ev_code inp; n = key_name env c; v = ev_value inp
     in v \<in> {0, 1, 2} \<and> event_named env c
        \<and> (v = 1 \<longrightarrow> n \<notin> held_source_keys st \<and> (\<forall>op\<in>set (callback_ops inp). op_binding op \<noteq> n))
        \<and> (input_paused inp \<longrightarrow> n \<notin> held_source_keys st)
        \<and> ops_ok env (insert n (held_source_keys st)) (kb_blocked inp) (snd (before_callback env inp st)) (callback_ops inp)
        \<and> (v = 0 \<and> fst (before_callback env inp st) = NotRecalled
            \<and> snd (route_combo_callback_result (callback_reply inp) v n (at_reply env inp st)) = None
            \<longrightarrow> \<not> let_through env c (at_reply env inp st)))"

lemma process_key_eq:
  "process_key env inp st =
    (let v = ev_value inp; n = key_name env (ev_code inp); ip = intercept_paused_or_quarantined (input_paused inp) n v st;
         bc = before_callback env inp st; st3 = at_reply env inp st;
         route = route_combo_callback_result (callback_reply inp) v n st3;
         st4 = (if fst route then clear_released_source_action n v st3 else st3)
     in if fst ip then snd ip else if fst bc = StopProcessing then snd bc
        else case snd route of None \<Rightarrow> st4 | Some requested \<Rightarrow> dispatch_key env inp (fst bc = Recalled True) requested st4)"
  by (auto simp: process_key_def before_callback_def at_reply_def Let_def
      split: prod.splits bool.splits interception.splits option.splits)

text \<open>The keys in quarantine after the first interception.\<close>

definition quarantine_after :: "bool \<Rightarrow> string \<Rightarrow> int \<Rightarrow> string set \<Rightarrow> string set" where
  "quarantine_after p n v q = (if p \<and> v \<in> {1, 2} then insert n q else if v \<in> {0, 1} then q - {n} else q)"

lemma intercept_quarantine:
  "snd (intercept_paused_or_quarantined p n v st)
    = st\<lparr>quarantined_source_keys := quarantine_after p n v (quarantined_source_keys st)\<rparr>"
  by (simp add: intercept_paused_or_quarantined_def quarantine_after_def Let_def)

lemma pinv_quarantine:
  assumes inv: "pinv env H E st" shows "pinv env H E (st\<lparr>quarantined_source_keys := q\<rparr>)"
  by (rule pinv_books [OF inv])
    (use inv in \<open>auto simp: pinv_def actions_ok_def marks_ok_def servers_def release_target_def\<close>)

lemma swallowed_inv:
  assumes inv: "pipe_inv env st" and "fst (intercept_paused_or_quarantined p n v st)"
    and p: "p \<longrightarrow> n \<notin> held_source_keys st"
  shows "pipe_inv env (snd (intercept_paused_or_quarantined p n v st))"
proof -
  have quarantined: "pipe_inv env (st\<lparr>quarantined_source_keys := q\<rparr>)" if "q \<inter> held_source_keys st = {}" for q
    using inv that by (simp add: pipe_inv_def pinv_quarantine)
  have "quarantined_source_keys st \<inter> held_source_keys st = {}" using inv by (simp add: pipe_inv_def)
  with p show ?thesis
    unfolding intercept_quarantine by (intro quarantined) (auto simp: quarantine_after_def split: if_splits)
qed

text \<open>A repeat changes nothing of the books.\<close>

lemma repeat_inv:
  assumes inv: "pipe_inv env st" and ok: "key_ok env st inp" and v: "ev_value inp = 2"
    and go: "\<not> fst (intercept_paused_or_quarantined (input_paused inp) (key_name env (ev_code inp)) 2 st)"
  shows "pipe_inv env (process_key env inp st)"
proof -
  let ?n = "key_name env (ev_code inp)"
  have ip: "snd (intercept_paused_or_quarantined (input_paused inp) ?n 2 st) = st"
    using go by (auto simp: intercept_paused_or_quarantined_def Let_def split: if_splits)
  have bc: "snd (before_callback env inp st) = st" "fst (before_callback env inp st) \<in> {NotRecalled, StopProcessing}"
    unfolding before_callback_def Let_def v ip observe_source_key_transition_def intercept_recalled_event_def by simp_all
  have c: "event_named env (ev_code inp)" and ops: "ops_ok env (held_source_keys st) (kb_blocked inp) st (callback_ops inp)"
    using ok bc(1) by (auto simp: key_ok_def Let_def intro: ops_ok_mono)
  have "pinv env (held_source_keys st) {} st" using inv by (simp add: pipe_inv_def)
  then have st3: "pinv env (held_source_keys st) {} (at_reply env inp st)"
    unfolding at_reply_def bc(1) using ops by (rule combo_ops_pinv)
  have clr: "clear_released_source_action ?n 2 x = x" for x by (simp add: clear_released_source_action_def)
  have same: "held_source_keys (at_reply env inp st) = held_source_keys st"
      "quarantined_source_keys (at_reply env inp st) = quarantined_source_keys st"
    by (simp_all add: at_reply_def bc(1))
  have st3_inv: "pipe_inv env (at_reply env inp st)" using st3 inv by (simp add: pipe_inv_def same)
  have disp: "pipe_inv env (dispatch_key env inp False req (at_reply env inp st))" for req
  proof -
    obtain w where "dispatch_key env inp False req (at_reply env inp st) = write_to env (kb_blocked inp) w 2 (at_reply env inp st)"
      using dispatch_repeat [OF c v] .
    then show ?thesis using write_to_repeat [OF st3] inv by (simp add: pipe_inv_def same)
  qed
  have "fst (before_callback env inp st) \<noteq> Recalled True" using bc(2) by auto
  then show ?thesis
    unfolding process_key_eq Let_def v clr bc(1) using st3_inv disp go inv by (simp split: option.split)
qed


lemma intercept_recalled_fields:
  assumes "v \<noteq> 2"
  shows "combo_recalled_bindings (snd (intercept_recalled_event n v s)) = combo_recalled_bindings s - {normalize_combo_evdev n}"
    and "combo_passthrough_held (snd (intercept_recalled_event n v s))
      = (if normalize_combo_evdev n \<in> combo_recalled_bindings s then combo_passthrough_held s - {n} else combo_passthrough_held s)"
    and "fst (intercept_recalled_event n v s)
      = (if normalize_combo_evdev n \<in> combo_recalled_bindings s then Recalled (v = 0) else NotRecalled)"
  using assms by (simp_all add: intercept_recalled_event_def)

lemma intercept_recalled_rest [simp]:
  "held_source_keys (snd (intercept_recalled_event n v s)) = held_source_keys s"
  "held_source_actions (snd (intercept_recalled_event n v s)) = held_source_actions s"
  "active_mapping (snd (intercept_recalled_event n v s)) = active_mapping s"
  "quarantined_source_keys (snd (intercept_recalled_event n v s)) = quarantined_source_keys s"
  "held_output_keys (snd (intercept_recalled_event n v s)) = held_output_keys s"
  "blocked_output_keys (snd (intercept_recalled_event n v s)) = blocked_output_keys s"
  "written (snd (intercept_recalled_event n v s)) = written s"
  by (simp_all add: intercept_recalled_event_def)

text \<open>The state before the callback, field by field.\<close>

lemma before_callback_fields:
  fixes env inp st
  defines "n \<equiv> key_name env (ev_code inp)" and "v \<equiv> ev_value inp"
  defines "s \<equiv> snd (before_callback env inp st)"
  assumes v: "v = 0 \<or> v = 1"
  shows "held_source_keys s = (if v = 1 then insert n (held_source_keys st) else held_source_keys st - {n})"
    and "quarantined_source_keys s = quarantine_after (input_paused inp) n v (quarantined_source_keys st)"
    and "combo_recalled_bindings s = combo_recalled_bindings st - {normalize_combo_evdev n}"
    and "combo_passthrough_held s
      = (if normalize_combo_evdev n \<in> combo_recalled_bindings st then combo_passthrough_held st - {n} else combo_passthrough_held st)"
    and "held_source_actions s = held_source_actions st" and "active_mapping s = active_mapping st"
    and "held_output_keys s = held_output_keys st" and "blocked_output_keys s = blocked_output_keys st" and "written s = written st"
    and "fst (before_callback env inp st)
      = (if normalize_combo_evdev n \<in> combo_recalled_bindings st then Recalled (v = 0) else NotRecalled)"
  using v intercept_recalled_fields [of v n]
  by (auto simp: s_def before_callback_def Let_def n_def [symmetric] v_def [symmetric] intercept_quarantine
      observe_source_key_transition_def)

lemma passthrough_holder:
  assumes inv: "pinv env H E st" and c: "event_named env c" and held: "c \<in> held_output_keys st ''passthrough''"
  shows "key_name env c \<in> H"
proof -
  have "0 < card (servers env H st ''passthrough'' c)"
    using inv held unfolding pinv_def owed_def owed_by_def by (metis gr_zeroI not_less_zero)
  then have "servers env H st ''passthrough'' c \<noteq> {}" by auto
  then obtain s where s: "s \<in> H" "release_target env st s = Some (''passthrough'', c)" by (auto simp: servers_def)
  have "output_code env s = Some c"
  proof (cases "held_source_actions st s")
    case (Some a)
    then show ?thesis using s(2) inv
      by (cases "(env, s, a)" rule: action_target.cases)
        (auto simp: release_target_def pass_target_def pinv_def actions_ok_def split: if_splits)
  qed (use s(2) in \<open>auto simp: release_target_def pass_target_def split: if_splits\<close>)
  moreover have "named_key env s" using s(1) inv by (simp add: pinv_def)
  ultimately show ?thesis using s(1) c by (auto simp: named_key_def event_named_def)
qed

lemma press_inv:
  assumes inv: "pipe_inv env st" and ok: "key_ok env st inp" and v: "ev_value inp = 1"
    and go: "\<not> fst (intercept_paused_or_quarantined (input_paused inp) (key_name env (ev_code inp)) 1 st)"
  shows "pipe_inv env (process_key env inp st)"
proof -
  let ?n = "key_name env (ev_code inp)" and ?H = "insert (key_name env (ev_code inp)) (held_source_keys st)"
  let ?s = "snd (before_callback env inp st)"
  note fields = before_callback_fields [where env = env and inp = inp and st = st, unfolded v, simplified]
  have c: "event_named env (ev_code inp)" and new: "?n \<notin> held_source_keys st"
    and other: "\<forall>op\<in>set (callback_ops inp). op_binding op \<noteq> ?n"
    and ops: "ops_ok env ?H (kb_blocked inp) ?s (callback_ops inp)"
    using ok v by (auto simp: key_ok_def Let_def)
  have pinv: "pinv env (held_source_keys st) {} st" using inv by (simp add: pipe_inv_def)
  then have fresh: "held_source_actions st ?n = None" "?n \<notin> combo_passthrough_held st"
    using new by (auto simp: pinv_def)
  have paused: "\<not> input_paused inp" using go by (auto simp: intercept_paused_or_quarantined_def Let_def)
  have same: "release_target env ?s = release_target env st"
    using fresh(2) by (intro ext) (simp add: release_target_def fields)
  have s: "pinv env ?H {} ?s"
    by (rule pinv_books [OF pinv])
      (use pinv fresh c in \<open>auto simp: fields pinv_def named_key_def actions_ok_def marks_ok_def servers_def same\<close>)
  have un: "untouched env (ev_code inp) ?s"
    using passthrough_holder [OF pinv c] new fresh(2) by (auto simp: untouched_def fields)
  have r: "pinv env ?H {} (at_reply env inp st)" unfolding at_reply_def using s ops by (rule combo_ops_pinv)
  have un_r: "untouched env (ev_code inp) (at_reply env inp st)"
    unfolding at_reply_def
    using combo_ops_untouched [OF c _ un _ ops other] s by (simp add: pinv_def)
  have fresh_r: "held_source_actions (at_reply env inp st) ?n = None"
    using fresh by (simp add: at_reply_def fields)
  have H: "held_source_keys (at_reply env inp st) = ?H"
    and q: "quarantined_source_keys (at_reply env inp st) \<inter> ?H = {}"
    using inv paused by (auto simp: at_reply_def fields quarantine_after_def pipe_inv_def)
  have disp: "pipe_inv env (dispatch_key env inp False req (at_reply env inp st))" for req
    using dispatch_press [OF r c v _ un_r fresh_r, of req] H q by (simp add: pipe_inv_def)
  have clr: "clear_released_source_action ?n 1 x = x" for x by (simp add: clear_released_source_action_def)
  have "pipe_inv env (at_reply env inp st)" using r H q by (simp add: pipe_inv_def)
  then show ?thesis
    unfolding process_key_eq Let_def v clr using disp go fields(10) by (simp split: option.split)
qed


lemma key_release_inv:
  assumes inv: "pipe_inv env st" and ok: "key_ok env st inp" and v: "ev_value inp = 0"
    and go: "\<not> fst (intercept_paused_or_quarantined (input_paused inp) (key_name env (ev_code inp)) 0 st)"
  shows "pipe_inv env (process_key env inp st)"
proof -
  let ?n = "key_name env (ev_code inp)"
  let ?s = "snd (before_callback env inp st)" and ?r = "at_reply env inp st"
  let ?marked = "normalize_combo_evdev ?n \<in> combo_recalled_bindings st"
  define H where "H = (if ?marked then held_source_keys st - {?n} else held_source_keys st)"
  define route where "route = route_combo_callback_result (callback_reply inp) 0 ?n ?r"
  note fields = before_callback_fields [where env = env and inp = inp and st = st, unfolded v, simplified]
  have c: "event_named env (ev_code inp)" and ops: "ops_ok env H (kb_blocked inp) ?s (callback_ops inp)"
    and sw: "\<not> ?marked \<Longrightarrow> snd route = None \<Longrightarrow> \<not> let_through env (ev_code inp) ?r"
    using ok v fields(10) by (auto simp: key_ok_def Let_def H_def route_def intro: ops_ok_mono)
  have pinv: "pinv env (held_source_keys st) {} st" using inv by (simp add: pipe_inv_def)
  have paused: "\<not> input_paused inp" using go by (auto simp: intercept_paused_or_quarantined_def Let_def)
  have s: "pinv env H {?n} ?s"
  proof (rule pinv_books [OF pinv fields(7-9)])
    show "servers env (held_source_keys st) st b k \<subseteq> servers env H ?s b k" for b k
    proof
      fix x assume x: "x \<in> servers env (held_source_keys st) st b k"
      then have ne: "?marked \<longrightarrow> x \<noteq> ?n" by (auto simp: servers_def)
      then have "release_target env ?s x = release_target env st x" by (cases ?marked) (simp_all add: release_target_def fields)
      then show "x \<in> servers env H ?s b k" using x ne by (auto simp: servers_def H_def fields)
    qed
  qed (use pinv in \<open>auto simp: pinv_def fields H_def actions_ok_def marks_ok_def split: if_splits\<close>)
  have r: "pinv env H {?n} ?r" unfolding at_reply_def using s ops by (rule combo_ops_pinv)
  have held: "held_source_keys ?r = held_source_keys st - {?n}" by (simp add: at_reply_def fields)
  have q: "quarantined_source_keys ?r \<inter> held_source_keys ?r = {}"
    using inv paused by (auto simp: at_reply_def fields quarantine_after_def pipe_inv_def)
  have HD: "H - {?n} = held_source_keys ?r" by (auto simp: H_def held)
  have unmarked: "?n \<notin> combo_passthrough_held ?r" if ?marked
    unfolding at_reply_def by (rule combo_ops_unheld) (use that in \<open>simp_all add: fields\<close>)
  have fin: "pipe_inv env (write_to env (kb_blocked inp) w 0 (forget_key ?n ?r))"
    if "\<And>b k. ?n \<in> H \<Longrightarrow> release_target env ?r ?n = Some (b, k) \<Longrightarrow> w = Some (b, k) \<or> k \<notin> held_output_keys ?r b" for w
  proof -
    have "pinv env (held_source_keys ?r) {} (write_to env (kb_blocked inp) w 0 (forget_key ?n ?r))"
      unfolding HD [symmetric] by (rule release_done [OF r _ that]) (simp add: HD)
    moreover have "held_source_keys (forget_key ?n ?r) = held_source_keys ?r"
      and "quarantined_source_keys (forget_key ?n ?r) = quarantined_source_keys ?r" by (simp_all add: forget_key_def)
    ultimately show ?thesis using q by (simp add: pipe_inv_def)
  qed
  have clr: "clear_released_source_action ?n 0 ?r = forget_key ?n ?r" if "?n \<notin> combo_passthrough_held ?r"
    using that by (simp add: clear_released_source_action_def forget_key_def)
  have stop: "pipe_inv env (if fst route then clear_released_source_action ?n 0 ?r else ?r)" if none: "snd route = None"
  proof -
    have cases: "fst route \<or> held_source_actions ?r ?n = None \<and> ?n \<notin> combo_passthrough_held ?r"
      using none by (auto simp: route_def route_combo_callback_result_def split: combo_reply.splits if_splits)
    have unheld: "?n \<notin> combo_passthrough_held ?r" using unmarked sw none by (auto simp: let_through_def)
    have "(if fst route then clear_released_source_action ?n 0 ?r else ?r) = forget_key ?n ?r"
      using cases clr [OF unheld] forget_key_id [OF unheld] by (cases "fst route") simp_all
    moreover have "pipe_inv env (write_to env (kb_blocked inp) None 0 (forget_key ?n ?r))"
    proof (rule fin)
      fix b k
      assume "?n \<in> H" and target: "release_target env ?r ?n = Some (b, k)"
      then have "\<not> let_through env (ev_code inp) ?r" using sw none by (auto simp: H_def split: if_splits)
      then show "None = Some (b, k) \<or> k \<notin> held_output_keys ?r b"
        using target c by (auto simp: let_through_def release_target_def pass_target_def event_named_def split: if_splits)
    qed
    ultimately show ?thesis by (simp add: write_to_def)
  qed
  have supp: "pipe_inv env (dispatch_key env inp True req ?r)" if ?marked for req
    using fin [of None] that clr [OF unmarked [OF that]] v by (simp add: dispatch_key_def Let_def write_to_def H_def)
  have disp: "pipe_inv env (dispatch_key env inp False req ?r)" for req
  proof -
    obtain w where "dispatch_key env inp False req ?r = write_to env (kb_blocked inp) w 0 (forget_key ?n ?r)"
      and "\<And>b k. release_target env ?r ?n = Some (b, k) \<Longrightarrow> w = Some (b, k)"
      using dispatch_release [OF c v, of req ?r] by blast
    then show ?thesis using fin [of w] by simp
  qed
  have "\<not> fst route" if "snd route = Some req" for req
    using that by (auto simp: route_def route_combo_callback_result_def split: combo_reply.splits if_splits)
  then show ?thesis
    unfolding process_key_eq Let_def v using stop supp disp go fields(10) by (auto simp: route_def split: option.split)
qed

lemma key_inv:
  assumes inv: "pipe_inv env st" and ok: "key_ok env st inp"
  shows "pipe_inv env (process_key env inp st)"
proof (cases "fst (intercept_paused_or_quarantined (input_paused inp) (key_name env (ev_code inp)) (ev_value inp) st)")
  case True
  have "input_paused inp \<longrightarrow> key_name env (ev_code inp) \<notin> held_source_keys st" using ok by (simp add: key_ok_def Let_def)
  with swallowed_inv [OF inv True] show ?thesis using True by (simp add: process_key_eq Let_def)
next
  case False
  have "ev_value inp \<in> {0, 1, 2}" using ok by (simp add: key_ok_def Let_def)
  then show ?thesis using False press_inv [OF inv ok] key_release_inv [OF inv ok] repeat_inv [OF inv ok] by auto
qed


section \<open>Changes of the mapping and releases\<close>

text \<open>A change of the mapping meets no key that was let through unrecorded and that the new mapping binds, and
  the keys the device reports as down are not in quarantine.\<close>

definition mapping_change_ok :: "pipe_env \<Rightarrow> key_mapping \<Rightarrow> nat set \<Rightarrow> pipe \<Rightarrow> bool" where
  "mapping_change_ok env m active st \<longleftrightarrow> mapping_ok m
     \<and> (\<forall>s\<in>held_source_keys st. held_source_actions st s = None \<and> s \<notin> combo_passthrough_held st \<longrightarrow>
          (\<forall>c. output_code env s = Some c \<and> c \<in> held_output_keys st ''passthrough'' \<longrightarrow> find_action_for_code env c 0 s m = None))
     \<and> (\<forall>c\<in>active. event_named env c \<and> key_name env c \<notin> quarantined_source_keys st)"

lemma reset_mapping_inv:
  assumes inv: "pipe_inv env st" and ok: "mapping_change_ok env m active st"
  shows "pipe_inv env (reset_mapping_runtime_state m st)"
proof -
  let ?s = "reset_mapping_runtime_state m st"
  have pinv: "pinv env (held_source_keys st) {} st" using inv by (simp add: pipe_inv_def)
  then have held: "held_source_keys ?s = held_source_keys st"
    by (auto simp: reset_mapping_runtime_state_def pinv_def)
  have sub: "servers env (held_source_keys st) st b k \<subseteq> servers env (held_source_keys st) ?s b k"
    if up: "k \<in> held_output_keys st b" for b k
  proof
    fix s assume s: "s \<in> servers env (held_source_keys st) st b k"
    have "release_target env ?s s = Some (b, k)"
    proof (cases "s \<in> combo_passthrough_held st")
      case True
      then have "held_source_actions st s \<in> {None, Some None, Some (Some HPassthrough)}" using pinv by (auto simp: pinv_def marks_ok_def)
      then show ?thesis using s True by (auto simp: servers_def release_target_def reset_mapping_runtime_state_def)
    next
      case False
      show ?thesis
      proof (cases "held_source_actions st s")
        case None
        then have "pass_target env s = Some (b, k)" using s False by (auto simp: servers_def release_target_def split: if_splits)
        moreover have "unbound env m s"
          using ok s up None False calculation
          by (auto simp: mapping_change_ok_def unbound_def pass_target_def servers_def)
        ultimately show ?thesis using None False by (simp add: release_target_def reset_mapping_runtime_state_def)
      qed (use s False in \<open>simp add: servers_def release_target_def reset_mapping_runtime_state_def\<close>)
    qed
    then show "s \<in> servers env (held_source_keys st) ?s b k"
      using s by (simp add: servers_def) (simp add: reset_mapping_runtime_state_def)
  qed
  have "pinv env (held_source_keys st) {} ?s"
  proof (rule pinv_books [OF pinv])
    show "actions_ok ?s" using pinv by (auto simp: pinv_def actions_ok_def reset_mapping_runtime_state_def)
    show "dom (held_source_actions ?s) \<subseteq> held_source_keys st \<union> {}"
      using pinv by (auto simp: pinv_def reset_mapping_runtime_state_def subset_eq dom_def split: if_splits)
  qed (use pinv ok sub held in \<open>auto simp: pinv_def reset_mapping_runtime_state_def marks_ok_def mapping_change_ok_def\<close>)
  then show ?thesis using inv held by (simp add: pipe_inv_def) (simp add: reset_mapping_runtime_state_def)
qed

lemma reconcile_startup_fields [simp]:
  "held_source_keys (reconcile_startup_held_action env kb a st) = held_source_keys st"
  "held_source_actions (reconcile_startup_held_action env kb a st) = held_source_actions st"
  "quarantined_source_keys (reconcile_startup_held_action env kb a st) = quarantined_source_keys st"
  "active_mapping (reconcile_startup_held_action env kb a st) = active_mapping st"
  by (auto simp: reconcile_startup_held_action_def split: option.split)

lemma reconcile_startup_pinv:
  assumes inv: "pinv env H E st" shows "pinv env H E (reconcile_startup_held_action env kb a st)"
proof (cases "startup_release a")
  case (Some bk)
  then obtain b k where bk: "startup_release a = Some (b, k)" by (cases bk) auto
  have "pinv env H E (write_key env kb b k 0 st)"
    by (rule pinv_release [OF inv]) (use inv in \<open>auto simp: pinv_def\<close>)
  then show ?thesis using bk by (simp add: reconcile_startup_held_action_def)
qed (use inv in \<open>simp add: reconcile_startup_held_action_def\<close>)

lemma seed_inv:
  assumes "pipe_inv env st" and "\<forall>c\<in>set cs. event_named env c \<and> key_name env c \<notin> quarantined_source_keys st"
    and "\<forall>c\<in>set cs. key_name env c \<in> held_source_keys st \<longrightarrow> held_source_actions st (key_name env c) \<noteq> None"
  shows "pipe_inv env (seed_startup_held_actions env kb cs st)"
  using assms
proof (induction cs arbitrary: st)
  case (Cons c cs)
  let ?n = "key_name env c"
  show ?case
  proof (cases "?n = [] \<or> ?n \<in> dom (held_source_actions st)")
    case True
    then show ?thesis using Cons by auto
  next
    case False
    define action where "action = find_action_for_code env c 1 ?n (active_mapping st)"
    define s1 where "s1 = st\<lparr>held_source_keys := insert ?n (held_source_keys st),
      held_source_actions := (held_source_actions st)(?n \<mapsto> action)\<rparr>"
    have pinv: "pinv env (held_source_keys st) {} st" using Cons.prems by (simp add: pipe_inv_def)
    have new: "?n \<notin> held_source_keys st" using Cons.prems(3) False by auto
    have mark: "?n \<notin> combo_passthrough_held st" using pinv new by (auto simp: pinv_def)
    have act: "action \<noteq> Some (HKey ''passthrough'' k)" for k
      using pinv find_action_in_mapping [of env c 1 ?n "active_mapping st"] by (auto simp: action_def pinv_def mapping_ok_def)
    have srv: "servers env (held_source_keys st) st b k \<subseteq> servers env (insert ?n (held_source_keys st)) s1 b k" for b k
      using new by (auto simp: servers_def release_target_def s1_def)
    have "pinv env (insert ?n (held_source_keys st)) {} s1"
    proof (rule pinv_books [OF pinv])
      show "\<forall>s\<in>insert ?n (held_source_keys st). named_key env s"
        using pinv Cons.prems(2) by (auto simp: pinv_def named_key_def)
    qed (use pinv srv mark act in \<open>auto simp: s1_def pinv_def actions_ok_def marks_ok_def\<close>)
    then have "pinv env (insert ?n (held_source_keys st)) {} (reconcile_startup_held_action env kb action s1)"
      by (rule reconcile_startup_pinv)
    then have "pipe_inv env (reconcile_startup_held_action env kb action s1)"
      using Cons.prems by (auto simp: pipe_inv_def s1_def)
    moreover have "seed_startup_held_actions env kb (c # cs) st
        = seed_startup_held_actions env kb cs (reconcile_startup_held_action env kb action s1)"
      using False by (auto simp: Let_def action_def s1_def)
    ultimately show ?thesis using Cons.prems by (auto simp: s1_def intro!: Cons.IH)
  qed
qed simp

lemma set_mapping_inv:
  assumes inv: "pipe_inv env st" and ok: "mapping_change_ok env m active st"
  shows "pipe_inv env (run_pipe_step env st (SetMapping m kb unread active))"
proof -
  let ?s = "reset_mapping_runtime_state m st"
  have s: "pipe_inv env ?s" by (rule reset_mapping_inv [OF inv ok])
  have q: "quarantined_source_keys ?s = quarantined_source_keys st" by (simp add: reset_mapping_runtime_state_def)
  let ?cs = "sorted_list_of_set (active - (tracked_codes env ?s \<union> set (map fst unread)))"
  have cs: "set ?cs \<subseteq> active - tracked_codes env ?s" by (metis Diff_iff UnCI finite_insert set_sorted_list_of_set sorted_list_of_set.fold_insort_key.infinite list.set(1) empty_subsetI subsetI)
  have "pipe_inv env (seed_startup_held_actions env kb ?cs ?s)"
  proof (rule seed_inv [OF s])
    show "\<forall>c\<in>set ?cs. event_named env c \<and> key_name env c \<notin> quarantined_source_keys ?s"
      using cs ok q by (auto simp: mapping_change_ok_def)
    show "\<forall>c\<in>set ?cs. key_name env c \<in> held_source_keys ?s \<longrightarrow> held_source_actions ?s (key_name env c) \<noteq> None"
    proof (intro ballI impI)
      fix c assume c: "c \<in> set ?cs" and held: "key_name env c \<in> held_source_keys ?s"
      have "event_named env c" using c cs ok by (auto simp: mapping_change_ok_def)
      then have "ecode_of env (key_name env c) = Some c" by (simp add: event_named_def)
      then have "c \<in> tracked_codes env ?s" unfolding tracked_codes_def using held by (force simp: Option.these_def)
      then show "held_source_actions ?s (key_name env c) \<noteq> None" using c cs by blast
    qed
  qed
  then show ?thesis by (simp add: reconcile_live_key_state_def Let_def)
qed


section \<open>Runs\<close>

text \<open>What the world may do in a step, and the keys of the source that are down after it.\<close>

fun pipe_guard :: "pipe_env \<Rightarrow> pipe \<Rightarrow> pipe_step \<Rightarrow> bool" where
  "pipe_guard env st (KeyInput inp) = key_ok env st inp"
| "pipe_guard env st (ComboOp kb op) =
    (op_ok env st op \<and> ((\<forall>n. op \<noteq> RestoreTrigger n) \<longrightarrow> alone (held_source_keys st) (op_binding op)))"
| "pipe_guard env st (SetMapping m kb unread active) = mapping_change_ok env m active st"
| "pipe_guard env st (ReleaseAll devices) = (\<forall>b. held_output_keys st b \<noteq> {} \<longrightarrow> b \<in> set devices)"
| "pipe_guard env st (Neutralize devices) = (\<forall>b. held_output_keys st b \<noteq> {} \<longrightarrow> b \<in> set devices)"

fun source_down_step :: "pipe_env \<Rightarrow> string set \<Rightarrow> pipe_step \<Rightarrow> string set" where
  "source_down_step env d (KeyInput inp) =
    (if ev_value inp = 1 then insert (key_name env (ev_code inp)) d
     else if ev_value inp = 0 then d - {key_name env (ev_code inp)} else d)"
| "source_down_step env d (SetMapping m kb unread active) = d \<union> key_name env ` active"
| "source_down_step env d step = d"

definition source_down :: "pipe_env \<Rightarrow> pipe_step list \<Rightarrow> string set" where
  "source_down env steps = foldl (source_down_step env) {} steps"

lemma down_release_list:
  "foldl down_step d (map (\<lambda>k. (b, k, 0)) ks) = d - {(b, k) | k. k \<in> set ks}"
  by (induction ks arbitrary: d) (auto simp: down_step_def)

lemma down_release_all:
  "foldl down_step d (concat (map (\<lambda>b. if p b then map (\<lambda>k. (b, k, 0)) (ks b) else []) devices))
    = d - {(b, k). b \<in> set devices \<and> p b \<and> k \<in> set (ks b)}"
  by (induction devices arbitrary: d) (auto simp: down_release_list)

lemma pipe_release_all_inv:
  assumes inv: "pipe_inv env st" and all: "\<forall>b. held_output_keys st b \<noteq> {} \<longrightarrow> b \<in> set devices"
  shows "pipe_inv env (release_all_keys env devices st)"
proof -
  have ok: "outputs_ok env st" and m: "mapping_ok (active_mapping st)" using inv by (simp_all add: pipe_inv_def pinv_def)
  have none: "held_output_keys (release_all_keys env devices st) b = {}" for b using all by (auto simp: release_all_keys_def)
  have "down_after (written (release_all_keys env devices st)) = {}"
  proof -
    have "set (held_codes st b) = held_output_keys st b" for b using ok by (simp add: held_codes_def outputs_ok_def)
    moreover have "held_pairs st \<subseteq> {(b, k). b \<in> set devices \<and> present env b \<and> k \<in> held_output_keys st b}"
    proof
      fix p assume "p \<in> held_pairs st"
      then obtain b k where p: "p = (b, k)" "k \<in> held_output_keys st b" by (auto simp: held_pairs_def)
      then have "b \<in> set devices" "present env b" using ok all unfolding outputs_ok_def by blast+
      then show "p \<in> {(b, k). b \<in> set devices \<and> present env b \<and> k \<in> held_output_keys st b}" using p by simp
    qed
    ultimately show ?thesis using ok by (simp add: release_all_keys_def down_after_append down_release_all outputs_ok_def)
  qed
  then have "outputs_ok env (release_all_keys env devices st)"
    using none by (simp add: outputs_ok_def held_pairs_def) (simp add: release_all_keys_def)
  then show ?thesis using m none
    by (simp add: pipe_inv_def pinv_def owed_def owed_by_def) (simp add: release_all_keys_def actions_ok_def marks_ok_def)
qed

lemma pipe_step_inv:
  assumes inv: "pipe_inv env st" and ok: "pipe_guard env st step"
  shows "pipe_inv env (run_pipe_step env st step)"
proof (cases step)
  case (KeyInput inp)
  then show ?thesis using key_inv [OF inv] ok by simp
next
  case (ComboOp kb op)
  then show ?thesis using combo_op_pinv [of env "held_source_keys st" "{}" st op kb] inv ok by (simp add: pipe_inv_def)
next
  case (SetMapping m kb unread active)
  then show ?thesis using set_mapping_inv [OF inv] ok by simp
next
  case (ReleaseAll devices)
  then show ?thesis using pipe_release_all_inv [OF inv] ok by simp
next
  case (Neutralize devices)
  define r where "r = release_all_keys env devices st"
  have "pipe_inv env r" unfolding r_def by (rule pipe_release_all_inv [OF inv]) (use ok Neutralize in simp)
  moreover have held: "held_source_keys r = {}" by (simp add: r_def release_all_keys_def)
  ultimately have "pinv env {} {} r" by (simp add: pipe_inv_def)
  then have "pinv env {} {} (r\<lparr>quarantined_source_keys := q\<rparr>)" for q by (simp add: pinv_quarantine)
  moreover have keep: "held_output_keys (st\<lparr>quarantined_source_keys := q\<rparr>) = held_output_keys st" for q by simp
  moreover have "neutralize env devices st = r\<lparr>quarantined_source_keys := quarantined_source_keys st \<union> held_source_keys st
      \<union> dom (held_source_actions st) \<union> combo_passthrough_held st\<rparr>"
    unfolding neutralize_def r_def release_all_keys_def held_codes_def keep by (rule pipe.equality) simp_all
  ultimately show ?thesis using held by (simp add: Neutralize pipe_inv_def)
qed

lemma new_pipe_inv: "mapping_ok m \<Longrightarrow> pipe_inv env (new_pipe m)"
  by (simp add: new_pipe_def pipe_inv_def pinv_def actions_ok_def marks_ok_def outputs_ok_def held_pairs_def down_after_def
      owed_def owed_by_def)

interpretation pipeline: inv_machine "new_pipe []" "pipe_guard env" "run_pipe_step env" "pipe_inv env" for env
  by unfold_locales (simp_all add: pipe_step_inv new_pipe_inv mapping_ok_def)

end
