(* ===== verification/Key_Properties.thy ===== *)
theory Key_Properties
  imports Key_Invariant
begin

text \<open>
  No stuck keys: every key that is down on an output of a grabbed device is held by a source key that will
  release it, through mappings, combos that recall and restore keys, macros that block the keyboard and changes
  of the mapping.  Three runs outside the guards, which the code allows, leave a key down.
\<close>

section \<open>Held keys are down at the source\<close>

lemma seed_held:
  "held_source_keys (seed_startup_held_actions env kb cs st) \<subseteq> held_source_keys st \<union> key_name env ` set cs"
proof (induction cs arbitrary: st)
  case (Cons c cs)
  show ?case
  proof (cases "key_name env c = [] \<or> key_name env c \<in> dom (held_source_actions st)")
    case True
    then show ?thesis using Cons.IH [of st] by (auto simp: Let_def)
  next
    case False
    define x where "x = reconcile_startup_held_action env kb (find_action_for_code env c 1 (key_name env c) (active_mapping st))
      (st\<lparr>held_source_keys := insert (key_name env c) (held_source_keys st),
         held_source_actions := (held_source_actions st)(key_name env c \<mapsto> find_action_for_code env c 1 (key_name env c) (active_mapping st))\<rparr>)"
    have "seed_startup_held_actions env kb (c # cs) st = seed_startup_held_actions env kb cs x"
      unfolding x_def using False by (simp add: Let_def)
    moreover have "held_source_keys x = insert (key_name env c) (held_source_keys st)" by (simp add: x_def)
    ultimately show ?thesis using Cons.IH [of x] by auto
  qed
qed simp

lemma set_mapping_held:
  assumes "pipe_inv env st"
  shows "held_source_keys (run_pipe_step env st (SetMapping m kb unread active)) \<subseteq> held_source_keys st \<union> key_name env ` active"
proof -
  let ?s = "reset_mapping_runtime_state m st"
  have s: "held_source_keys ?s = held_source_keys st"
    using assms by (auto simp: reset_mapping_runtime_state_def pipe_inv_def pinv_def)
  have "set (sorted_list_of_set (A :: nat set)) \<subseteq> A" for A by (cases "finite A") simp_all
  then have "key_name env ` set (sorted_list_of_set (active - (tracked_codes env ?s \<union> set (map fst unread)))) \<subseteq> key_name env ` active"
    by fast
  moreover have "held_source_keys (run_pipe_step env st (SetMapping m kb unread active))
      \<subseteq> held_source_keys ?s \<union> key_name env ` set (sorted_list_of_set (active - (tracked_codes env ?s \<union> set (map fst unread))))"
    unfolding run_pipe_step.simps reconcile_live_key_state_def Let_def snd_conv by (rule seed_held)
  ultimately show ?thesis unfolding s by blast
qed

lemma source_held_step:
  assumes inv: "pipe_inv env st" and ok: "pipe_guard env st step" and d: "held_source_keys st \<subseteq> d"
  shows "held_source_keys (run_pipe_step env st step) \<subseteq> source_down_step env d step"
proof (cases step)
  case (KeyInput inp)
  let ?n = "key_name env (ev_code inp)" and ?v = "ev_value inp"
  have paused: "input_paused inp \<longrightarrow> ?n \<notin> held_source_keys st" using ok KeyInput by (simp add: key_ok_def Let_def)
  show ?thesis
  proof (cases "fst (intercept_paused_or_quarantined (input_paused inp) ?n ?v st)")
    case True
    then have "input_paused inp \<or> ?n \<in> quarantined_source_keys st"
      by (auto simp: intercept_paused_or_quarantined_def Let_def split: if_splits)
    with paused inv have "?n \<notin> held_source_keys st" by (auto simp: pipe_inv_def)
    then show ?thesis using d True by (auto simp: KeyInput process_key_eq Let_def intercept_quarantine)
  next
    case False
    have "held_source_keys (process_key env inp st)
        = (if ?v = 1 then insert ?n (held_source_keys st) else if ?v = 0 then held_source_keys st - {?n} else held_source_keys st)"
      using False by (simp add: process_key_eq Let_def at_reply_def before_callback_def intercept_quarantine
          observe_source_key_transition_def split: option.split)
    then show ?thesis using d by (auto simp: KeyInput)
  qed
next
  case (SetMapping m kb unread active)
  then show ?thesis using set_mapping_held [OF inv, of m kb unread active] d by (simp del: run_pipe_step.simps) blast
qed (use d in \<open>auto simp: release_all_keys_def neutralize_def\<close>)

lemma source_held_run:
  assumes "pipe_inv env st" and "held_source_keys st \<subseteq> d"
    and "guarded_run (pipe_guard env) (run_pipe_step env) st steps"
  shows "held_source_keys (run_steps (run_pipe_step env) st steps) \<subseteq> foldl (source_down_step env) d steps"
  using assms
proof (induction steps arbitrary: st d)
  case (Cons step steps)
  then have ok: "pipe_guard env st step"
    and run: "guarded_run (pipe_guard env) (run_pipe_step env) (run_pipe_step env st step) steps" by simp_all
  show ?case
    using Cons.IH [OF pipe_step_inv [OF Cons.prems(1) ok] source_held_step [OF Cons.prems(1) ok Cons.prems(2)] run] by simp
qed simp

lemma served_key:
  assumes "pipe_inv env st" and "(b, k) \<in> down_after (written st)"
  shows "\<exists>s\<in>held_source_keys st. normalize_combo_evdev s \<notin> combo_recalled_bindings st \<and> release_target env st s = Some (b, k)"
proof -
  have ok: "outputs_ok env st" and owed: "owed env (held_source_keys st) st" using assms(1) by (simp_all add: pipe_inv_def pinv_def)
  have "k \<in> held_output_keys st b" using ok assms(2) by (auto simp: outputs_ok_def held_pairs_def)
  then have "card (servers env (held_source_keys st) st b k) \<noteq> 0" using owed unfolding owed_def owed_by_def by fastforce
  then have "servers env (held_source_keys st) st b k \<noteq> {}" by auto
  then show ?thesis by (auto simp: servers_def)
qed

section \<open>Example device\<close>

text \<open>A keyboard with three keys, its passthrough output and a virtual keyboard.\<close>

definition demo_keys :: "(nat \<times> string) list" where
  "demo_keys = [(29, ''key_leftctrl''), (97, ''key_rightctrl''), (30, ''key_a'')]"

definition demo_codes :: "(string \<times> nat) list" where
  "demo_codes = map (\<lambda>(c, n). (n, c)) demo_keys"

definition key_demo_env :: pipe_env where
  "key_demo_env = \<lparr>key_name = (\<lambda>c. case map_of demo_keys c of Some n \<Rightarrow> n | None \<Rightarrow> ''unknown''),
     output_code = map_of demo_codes, ecode_of = map_of demo_codes,
     event_binding_to_button = (\<lambda>c v. None), event_code_to_button = map_of demo_keys,
     evdev_to_button = map_of (map (\<lambda>(c, n). (n, n)) demo_keys), mouse_target_relative = (\<lambda>t. None), gamepad_bucket = (\<lambda>t. None),
     present = (\<lambda>b. b \<in> {''passthrough'', ''keyboard''}), keyboard_code = (\<lambda>k. k < 256)\<rparr>"

definition demo_key_event :: "nat \<Rightarrow> int \<Rightarrow> combo_op list \<Rightarrow> combo_reply \<Rightarrow> pipe_step" where
  "demo_key_event c v ops reply = KeyInput \<lparr>ev_code = c, ev_value = v, input_paused = False, kb_blocked = False, recording = False,
     callback_ops = ops, callback_reply = reply\<rparr>"

definition demo_mapping :: key_mapping where "demo_mapping = [(''key_a'', HKey ''keyboard'' 48)]"

lemma demo_names [simp]:
  "normalize_combo_evdev ''key_leftctrl'' = ''ctrl''" "normalize_combo_evdev ''key_rightctrl'' = ''ctrl''"
  "normalize_combo_evdev ''key_a'' = ''key_a''"
  "canonical_gamepad_button_name ''key_leftctrl'' = ''key_leftctrl''"
  "canonical_gamepad_button_name ''key_rightctrl'' = ''key_rightctrl''" "canonical_gamepad_button_name ''key_a'' = ''key_a''"
  "py_lower ''key_leftctrl'' = ''key_leftctrl''" "py_lower ''key_rightctrl'' = ''key_rightctrl''" "py_lower ''key_a'' = ''key_a''"
  by code_simp+

lemma demo_env_simps [simp]:
  "key_name key_demo_env 29 = ''key_leftctrl''" "key_name key_demo_env 97 = ''key_rightctrl''" "key_name key_demo_env 30 = ''key_a''"
  "output_code key_demo_env ''key_leftctrl'' = Some 29" "output_code key_demo_env ''key_rightctrl'' = Some 97" "output_code key_demo_env ''key_a'' = Some 30"
  "ecode_of key_demo_env = output_code key_demo_env"
  "event_binding_to_button key_demo_env c v = None" "event_code_to_button key_demo_env 29 = Some ''key_leftctrl''"
  "event_code_to_button key_demo_env 97 = Some ''key_rightctrl''" "event_code_to_button key_demo_env 30 = Some ''key_a''"
  "present key_demo_env b \<longleftrightarrow> b = ''passthrough'' \<or> b = ''keyboard''" "keyboard_code key_demo_env k \<longleftrightarrow> k < 256"
  "evdev_to_button key_demo_env ''key_a'' = Some ''key_a''" "evdev_to_button key_demo_env ''key_leftctrl'' = Some ''key_leftctrl''"
  "evdev_to_button key_demo_env ''key_rightctrl'' = Some ''key_rightctrl''"
  by (simp_all add: key_demo_env_def demo_keys_def demo_codes_def)

lemma demo_named [simp]:
  "event_named key_demo_env 29" "event_named key_demo_env 97" "event_named key_demo_env 30"
  by (simp_all add: event_named_def)

lemma demo_named_key [simp]: "named_key key_demo_env ''key_leftctrl''"
  unfolding named_key_def by (rule exI [of _ 29]) simp

lemmas demo_run_simps = demo_key_event_def demo_mapping_def new_pipe_def process_key_def Let_def intercept_paused_or_quarantined_def
  observe_source_key_transition_def intercept_recalled_event_def route_combo_callback_result_def clear_released_source_action_def
  dispatch_key_def finish_combo_passthrough_held_event_def passthrough_def write_key_def key_blocked_def track_key_state_def
  apply_fast_passthrough_def mark_combo_passthrough_press_def apply_mapped_action_or_passthrough_def remembered_action_def
  find_action_for_code_def button_action_def find_action_for_name_def execute_action_def recall_binding_def combo_passthrough_binding_active_def
  combo_binding_output_def mark_combo_recalled_binding_def emit_combo_release_def emit_combo_press_def combo_source_binding_held_def combo_binding_recalled_def
  clear_combo_recalled_binding_def reset_mapping_runtime_state_def reconcile_live_key_state_def tracked_codes_def reconcile_startup_held_action_def startup_release_def

lemmas demo_guard_simps = key_ok_def op_ok_def alone_def op_binding_def before_callback_def at_reply_def let_through_def
  mapping_change_ok_def mapping_ok_def

text \<open>A run with a mapping, a recalled and restored modifier, and a consumed key.\<close>

definition key_demo_run :: "pipe_step list" where
  "key_demo_run =
    [SetMapping demo_mapping False [] {}, demo_key_event 29 1 [] NoReply,
     demo_key_event 30 1 [RecallTrigger ''key_leftctrl''] (Decided True False),
     ComboOp False (RestoreTrigger ''key_leftctrl''), demo_key_event 30 0 [] (Decided True False), demo_key_event 29 0 [] NoReply,
     demo_key_event 30 1 [] NoReply, demo_key_event 30 0 [] NoReply]"

lemma demo_run_guarded: "guarded_run (pipe_guard key_demo_env) (run_pipe_step key_demo_env) (new_pipe []) key_demo_run"
  by (simp add: key_demo_run_def demo_run_simps demo_guard_simps)

lemma demo_run_written:
  "written (run_steps (run_pipe_step key_demo_env) (new_pipe []) key_demo_run)
    = [(''passthrough'', 29, 1), (''passthrough'', 29, 0), (''passthrough'', 29, 1), (''passthrough'', 29, 0),
       (''keyboard'', 48, 1), (''keyboard'', 48, 0)]"
  by (simp add: key_demo_run_def demo_run_simps)

lemma demo_run_source: "source_down key_demo_env key_demo_run = {}"
  by (auto simp: key_demo_run_def demo_key_event_def source_down_def)

section \<open>Properties\<close>

text \<open>C2. On a grabbed device with no mapping at first, after any sequence of key events, operations of the combo
  runtime, changes of the mapping and releases of everything that respects the guards, every key that is down on
  an output according to what was written is down on behalf of a key that is down at the source, whose release
  is not suppressed and goes to that output.  So once all source keys are up, no output key is down.\<close>

theorem no_stuck_keys:
  assumes run: "guarded_run (pipe_guard env) (run_pipe_step env) (new_pipe []) steps"
    and st: "st = run_steps (run_pipe_step env) (new_pipe []) steps"
  shows "(\<forall>(b, k)\<in>down_after (written st). \<exists>s\<in>held_source_keys st \<inter> source_down env steps.
            normalize_combo_evdev s \<notin> combo_recalled_bindings st \<and> release_target env st s = Some (b, k))
    \<and> (source_down env steps = {} \<longrightarrow> down_after (written st) = {})"
proof -
  have inv: "pipe_inv env st" unfolding st by (rule pipeline.inv_run [OF run])
  have held: "held_source_keys st \<subseteq> source_down env steps" unfolding st source_down_def
    by (rule source_held_run [OF pipeline.inv_init _ run]) (simp add: new_pipe_def)
  have served: "\<exists>s\<in>held_source_keys st \<inter> source_down env steps.
      normalize_combo_evdev s \<notin> combo_recalled_bindings st \<and> release_target env st s = Some (b, k)"
    if "(b, k) \<in> down_after (written st)" for b k
    using served_key [OF inv that] held by blast
  then show ?thesis by fastforce
qed

theorem no_stuck_keys_witness:
  "source_down key_demo_env key_demo_run = {}
    \<and> down_after (written (run_steps (run_pipe_step key_demo_env) (new_pipe []) key_demo_run)) = {}
    \<and> (''keyboard'', 48, 1) \<in> set (written (run_steps (run_pipe_step key_demo_env) (new_pipe []) key_demo_run))"
  using no_stuck_keys [OF demo_run_guarded refl] demo_run_source demo_run_written by simp

section \<open>Runs that leave a key down\<close>

text \<open>A key that was let through on the fast path is not remembered: when a new mapping binds it while it is
  down, its release runs the new action.  A capture of combo keys that starts while a key is down takes away its
  release.  The marker of a recalled modifier does not tell left from right.\<close>

definition rebound_run :: "pipe_step list" where
  "rebound_run = [demo_key_event 30 1 [] NoReply, SetMapping demo_mapping False [] {30}, demo_key_event 30 0 [] NoReply]"

definition captured_run :: "pipe_step list" where
  "captured_run = [demo_key_event 30 1 [] NoReply, demo_key_event 30 0 [] Captured]"

definition recalled_run :: "pipe_step list" where
  "recalled_run = [demo_key_event 29 1 [] NoReply, demo_key_event 97 1 [] NoReply,
    ComboOp False (RecallTrigger ''key_leftctrl''), demo_key_event 97 0 [] NoReply, demo_key_event 29 0 [] NoReply]"

definition down_at_end :: "pipe_step list \<Rightarrow> (bucket \<times> nat) set" where
  "down_at_end steps = down_after (written (run_steps (run_pipe_step key_demo_env) (new_pipe []) steps))"

lemmas stuck_run_simps = down_at_end_def rebound_run_def captured_run_def recalled_run_def demo_run_simps
  source_down_def down_after_def down_step_def

lemma stuck_runs:
  "source_down key_demo_env rebound_run = {}" "down_at_end rebound_run = {(''passthrough'', 30)}"
  "source_down key_demo_env captured_run = {}" "down_at_end captured_run = {(''passthrough'', 30)}"
  "source_down key_demo_env recalled_run = {}" "down_at_end recalled_run = {(''passthrough'', 97)}"
  by (auto simp: stuck_run_simps)

text \<open>In three runs outside the guards all source keys end up released, and yet a key stays down on the
  passthrough output: a key bound by a new mapping while it is down, a key pressed before a combo capture and
  released during it, and the right Ctrl key when the left one is recalled.\<close>

theorem keys_left_down:
  "source_down key_demo_env rebound_run = {} \<and> down_at_end rebound_run = {(''passthrough'', 30)}
    \<and> source_down key_demo_env captured_run = {} \<and> down_at_end captured_run = {(''passthrough'', 30)}
    \<and> source_down key_demo_env recalled_run = {} \<and> down_at_end recalled_run = {(''passthrough'', 97)}"
  by (simp add: stuck_runs)

end
