(* ===== verification/Ipc_Frames.thy ===== *)
theory Ipc_Frames
  imports Json "HOL-Library.Word"
begin

text \<open>
  The protocol between the session and the daemon: \<open>common/ipc.py\<close>.  A frame is a length of four bytes, most
  significant first, and a JSON object; a message is a frame whose object has the fields of a command or of a
  response.  \<open>read_frames\<close> is the loop of both readers (\<open>socket_server.py\<close>, \<open>session/client.py\<close>) over their buffer.

  Bytes are words of width 8.  The text of a JSON value and its parser are the parameters \<open>dumps\<close> and \<open>loads\<close>
  (\<open>None\<close> where the text cannot be decoded or parsed); what the results need of them is asked of the messages that
  are sent.  A member of \<open>CommandType\<close> is known by its value.
\<close>

section \<open>Frames\<close>

type_synonym byte = "8 word"

record json_text =
  dumps :: "json \<Rightarrow> byte list"
  loads :: "byte list \<Rightarrow> json option"

definition HEADER_SIZE :: nat where
  "HEADER_SIZE = 4"

definition MAX_PAYLOAD_SIZE :: nat where
  "MAX_PAYLOAD_SIZE = 16 * 1024 * 1024"

text \<open>\<open>struct.pack\<close> of an unsigned 32 bit number raises when the number is too large.\<close>

definition pack_length :: "nat \<Rightarrow> byte list option" where
  "pack_length n = (if n < 2 ^ 32 then Some (map (\<lambda>i. word_of_nat (n div 256 ^ i)) [3, 2, 1, 0]) else None)"

definition unpack_length :: "byte list \<Rightarrow> nat" where
  "unpack_length bs = foldl (\<lambda>a b. a * 256 + unat b) 0 bs"

definition encode_frame :: "json_text \<Rightarrow> json \<Rightarrow> byte list option" where
  "encode_frame env payload =
    (let json_bytes = dumps env payload in map_option (\<lambda>header. header @ json_bytes) (pack_length (length json_bytes)))"

definition decode_frame_payload :: "json_text \<Rightarrow> byte list \<Rightarrow> (string \<times> json) list option \<times> byte list" where
  "decode_frame_payload env data =
    (if length data < HEADER_SIZE then (None, data)
     else let payload_len = unpack_length (take HEADER_SIZE data); total_len = HEADER_SIZE + payload_len
          in if MAX_PAYLOAD_SIZE < payload_len then (None, if total_len \<le> length data then drop total_len data else [])
             else if length data < total_len then (None, data)
             else (Option.bind (loads env (take payload_len (drop HEADER_SIZE data))) json_object, drop total_len data))"

section \<open>Messages\<close>

definition COMMAND_TYPES :: "string list" where
  "COMMAND_TYPES =
   [''hardware_inventory'', ''mask_hardware'', ''keep_hardware_mask'', ''restore_hardware'',
    ''resume_hardware'', ''set_hardware_mask_persistence'', ''grab_device'', ''release_device'',
    ''set_mapping'', ''set_combos'', ''set_rollover_groups'', ''unused_exec_refs'', ''list_devices'',
    ''device_runtime_status'', ''ping'', ''device_event'', ''action_trigger'', ''track_profile_activation'',
    ''cancel_profile_activation'', ''profile_deactivate_requested'', ''device_connected'',
    ''device_disconnected'', ''device_grab_status'', ''get_active_profiles'', ''profile_changed'',
    ''profiles_changed'', ''get_compositor'', ''keymasqd_status'', ''start_recording'', ''stop_recording'',
    ''recording_started'', ''recording_stopped'', ''recording_progress'', ''macro_playback_finished'',
    ''macro_playback_cancelled'', ''runtime_reset'', ''play_macro'', ''macro_list_meta'', ''macro_get'',
    ''macro_create'', ''macro_update'', ''macro_rename'', ''macro_delete'', ''macro_save_recording'',
    ''macro_list_recordings'', ''macro_delete_recording'', ''macro_play_recording'', ''macro_play_by_name'',
    ''cancel_macro_playback'', ''emergency_reset'', ''macro_exec_complete'', ''cursor_position_request'',
    ''cursor_position_response'', ''cursor_position_tracking_stop'', ''capture_begin'', ''capture_read'',
    ''capture_end'', ''capture_combo'', ''set_diagnostics'', ''set_virtual_gamepads'',
    ''diagnostics_snapshot'', ''device_inspector_start'', ''device_inspector_stop'',
    ''device_inspector_enable_suppression'', ''device_inspector_disable_suppression'',
    ''device_inspector_event'', ''device_inspector_status'']"

record Command =
  command :: string
  cmd_data :: json
  cmd_request_id :: json

record Response =
  status :: json
  resp_data :: json
  error :: json
  resp_request_id :: json

definition command_payload :: "Command \<Rightarrow> json" where
  "command_payload cmd =
    JObject [(''command'', JString (command cmd)), (''data'', cmd_data cmd), (''request_id'', cmd_request_id cmd)]"

definition response_payload :: "Response \<Rightarrow> json" where
  "response_payload resp =
    JObject [(''status'', status resp), (''data'', resp_data resp), (''error'', error resp),
      (''request_id'', resp_request_id resp)]"

fun command_type :: "json \<Rightarrow> string option" where
  "command_type (JString s) = (if s \<in> set COMMAND_TYPES then Some s else None)"
| "command_type v = None"

text \<open>A missing field and an unknown command raise, which gives no message.\<close>

definition command_of :: "(string \<times> json) list \<Rightarrow> Command option" where
  "command_of payload =
    map_option (\<lambda>c. \<lparr>command = c, cmd_data = json_get_default payload ''data'' (JObject []),
        cmd_request_id = json_get payload ''request_id''\<rparr>)
      (Option.bind (map_of payload ''command'') command_type)"

definition response_of :: "(string \<times> json) list \<Rightarrow> Response option" where
  "response_of payload =
    map_option (\<lambda>s. \<lparr>status = s, resp_data = json_get payload ''data'', error = json_get payload ''error'',
        resp_request_id = json_get payload ''request_id''\<rparr>)
      (map_of payload ''status'')"

definition encode_command :: "json_text \<Rightarrow> Command \<Rightarrow> byte list option" where
  "encode_command env cmd = encode_frame env (command_payload cmd)"

definition encode_response :: "json_text \<Rightarrow> Response \<Rightarrow> byte list option" where
  "encode_response env resp = encode_frame env (response_payload resp)"

text \<open>Decoding a message, for both kinds.\<close>

definition decode_message :: "((string \<times> json) list \<Rightarrow> 'm option) \<Rightarrow> json_text \<Rightarrow> byte list \<Rightarrow> 'm option \<times> byte list" where
  "decode_message message_of env data =
    (case decode_frame_payload env data of (payload, remaining) \<Rightarrow> (Option.bind payload message_of, remaining))"

definition decode_command :: "json_text \<Rightarrow> byte list \<Rightarrow> Command option \<times> byte list" where
  "decode_command = decode_message command_of"

definition decode_response :: "json_text \<Rightarrow> byte list \<Rightarrow> Response option \<times> byte list" where
  "decode_response = decode_message response_of"

section \<open>Reading a stream\<close>

lemma decode_frame_shrinks:
  "decode_frame_payload env data = (payload, remaining) \<Longrightarrow>
    payload = None \<and> remaining = data \<or> length remaining < length data"
  by (auto simp: decode_frame_payload_def Let_def HEADER_SIZE_def split: if_splits)

lemma decode_message_shrinks:
  "decode_message message_of env data = (m, remaining) \<Longrightarrow> m = None \<and> remaining = data \<or> length remaining < length data"
  by (auto simp: decode_message_def split: prod.splits dest!: decode_frame_shrinks)

text \<open>The inner loop: the messages that the buffer holds, and what is left in it.\<close>

function read_frames :: "((string \<times> json) list \<Rightarrow> 'm option) \<Rightarrow> json_text \<Rightarrow> byte list \<Rightarrow> 'm list \<times> byte list" where
  "read_frames message_of env buffered =
    (case decode_message message_of env buffered of
       (Some m, remaining) \<Rightarrow> (case read_frames message_of env remaining of (ms, rest) \<Rightarrow> (m # ms, rest))
     | (None, remaining) \<Rightarrow> if remaining \<noteq> buffered then read_frames message_of env remaining else ([], buffered))"
  by pat_completeness auto

termination
  by (relation "measure (\<lambda>(message_of, env, buffered). length buffered)")
    (auto dest!: decode_message_shrinks [OF sym])

declare read_frames.simps [simp del]

fun read_stream :: "((string \<times> json) list \<Rightarrow> 'm option) \<Rightarrow> json_text \<Rightarrow> byte list \<Rightarrow> byte list list \<Rightarrow> 'm list \<times> byte list" where
  "read_stream message_of env buffered [] = ([], buffered)"
| "read_stream message_of env buffered (chunk # chunks) =
    (case read_frames message_of env (buffered @ chunk) of
       (ms, rest) \<Rightarrow> (case read_stream message_of env rest chunks of (ms', rest') \<Rightarrow> (ms @ ms', rest')))"

section \<open>Frames in a buffer\<close>

lemma unpack_pack: "pack_length n = Some header \<Longrightarrow> length header = HEADER_SIZE \<and> unpack_length header = n"
proof -
  assume "pack_length n = Some header"
  then have n: "n < 2 ^ 32" and header: "header = map (\<lambda>i. word_of_nat (n div 256 ^ i)) [3, 2, 1, 0]"
    by (auto simp: pack_length_def split: if_splits)
  have byte: "unat (word_of_nat k :: byte) = k mod 256" for k
    by (simp add: unsigned_of_nat take_bit_eq_mod)
  have split: "k = k div 256 * 256 + k mod 256" for k :: nat by simp
  have div: "n div 65536 = n div 256 div 256" "n div 16777216 = n div 256 div 256 div 256"
    by (simp_all flip: div_mult2_eq)
  have top: "n div 256 div 256 div 256 < 256" using n by (simp flip: div_mult2_eq add: div_less_iff_less_mult)
  have "unpack_length header
      = ((n div 256 div 256 div 256 mod 256 * 256 + n div 256 div 256 mod 256) * 256 + n div 256 mod 256) * 256 + n mod 256"
    by (simp add: header unpack_length_def byte div)
  also have "\<dots> = n" using top split [of n] split [of "n div 256"] split [of "n div 256 div 256"] by simp
  finally show ?thesis by (simp add: header HEADER_SIZE_def)
qed

lemma decode_complete_frame:
  assumes "pack_length (length json_bytes) = Some header" and "length json_bytes \<le> MAX_PAYLOAD_SIZE"
  shows "decode_frame_payload env (header @ json_bytes @ bs) = (Option.bind (loads env json_bytes) json_object, bs)"
  using unpack_pack [OF assms(1)] assms(2) by (simp add: decode_frame_payload_def Let_def)

text \<open>No frame of the buffer announces more than the limit.\<close>

function no_oversize :: "byte list \<Rightarrow> bool" where
  "no_oversize data =
    (if length data < HEADER_SIZE then True
     else let payload_len = unpack_length (take HEADER_SIZE data); total_len = HEADER_SIZE + payload_len
          in payload_len \<le> MAX_PAYLOAD_SIZE \<and> (total_len \<le> length data \<longrightarrow> no_oversize (drop total_len data)))"
  by pat_completeness auto

termination
  by (relation "measure length") (auto simp: HEADER_SIZE_def)

declare no_oversize.simps [simp del]

lemma decode_frame_append:
  assumes "no_oversize (a @ b)" and "decode_frame_payload env a = (payload, remaining)" and "remaining \<noteq> a"
  shows "decode_frame_payload env (a @ b) = (payload, remaining @ b)" and "no_oversize (remaining @ b)"
proof -
  let ?n = "unpack_length (take HEADER_SIZE a)"
  have len: "HEADER_SIZE \<le> length a" using assms(2,3) by (auto simp: decode_frame_payload_def not_less split: if_splits)
  then have n: "unpack_length (take HEADER_SIZE (a @ b)) = ?n" by simp
  have max: "?n \<le> MAX_PAYLOAD_SIZE" using assms(1) len n by (subst (asm) no_oversize.simps) (simp add: Let_def)
  have total: "HEADER_SIZE + ?n \<le> length a"
    using assms(2,3) len max by (auto simp: decode_frame_payload_def Let_def not_less split: if_splits)
  have a: "payload = Option.bind (loads env (take ?n (drop HEADER_SIZE a))) json_object" "remaining = drop (HEADER_SIZE + ?n) a"
    using assms(2) len max total by (simp_all add: decode_frame_payload_def Let_def)
  show "decode_frame_payload env (a @ b) = (payload, remaining @ b)"
    using len max total n by (simp add: decode_frame_payload_def Let_def a)
  show "no_oversize (remaining @ b)"
    using assms(1) len total n by (subst (asm) no_oversize.simps) (simp add: Let_def a)
qed

lemma decode_message_append:
  assumes "no_oversize (a @ b)" and "decode_message message_of env a = (m, remaining)" and "remaining \<noteq> a"
  shows "decode_message message_of env (a @ b) = (m, remaining @ b)" and "no_oversize (remaining @ b)"
  using assms decode_frame_append [OF assms(1)] by (auto simp: decode_message_def split: prod.splits)

lemma read_frames_append:
  assumes "no_oversize (a @ b)"
  shows "read_frames message_of env (a @ b) =
    (case read_frames message_of env a of (ms, rest) \<Rightarrow>
       (case read_frames message_of env (rest @ b) of (ms', rest') \<Rightarrow> (ms @ ms', rest')))"
  using assms
proof (induction a rule: length_induct)
  case (1 a)
  obtain m remaining where dec: "decode_message message_of env a = (m, remaining)" by fastforce
  show ?case
  proof (cases "remaining = a")
    case True
    then have "m = None" using decode_message_shrinks [OF dec] by simp
    then have "read_frames message_of env a = ([], a)" using dec True by (simp add: read_frames.simps [of _ _ a])
    then show ?thesis by (simp split: prod.split)
  next
    case False
    note app = decode_message_append [OF 1(2) dec False]
    have less: "length remaining < length a" using decode_message_shrinks [OF dec] False by auto
    have ne: "remaining @ b \<noteq> a @ b" using less by auto
    have IH: "read_frames message_of env (remaining @ b) =
      (case read_frames message_of env remaining of (ms, rest) \<Rightarrow>
         (case read_frames message_of env (rest @ b) of (ms', rest') \<Rightarrow> (ms @ ms', rest')))"
      using 1(1) less app(2) by blast
    show ?thesis
      using dec False app(1) ne IH
      by (cases m) (simp_all add: read_frames.simps [of _ _ a] read_frames.simps [of _ _ "a @ b"] split: prod.split)
  qed
qed

lemma read_frames_rest:
  assumes "read_frames message_of env a = (ms, rest)"
  shows "read_frames message_of env rest = ([], rest) \<and> (\<forall>b. no_oversize (a @ b) \<longrightarrow> no_oversize (rest @ b))"
  using assms
proof (induction a arbitrary: ms rule: length_induct)
  case (1 a)
  obtain m remaining where dec: "decode_message message_of env a = (m, remaining)" by fastforce
  show ?case
  proof (cases "remaining = a")
    case True
    then have "m = None" using decode_message_shrinks [OF dec] by simp
    then have "read_frames message_of env a = ([], a)" using dec True by (simp add: read_frames.simps [of _ _ a])
    then show ?thesis using 1(2) by auto
  next
    case False
    have less: "length remaining < length a" using decode_message_shrinks [OF dec] False by auto
    obtain ms' where "read_frames message_of env remaining = (ms', rest)"
      using 1(2) dec False by (cases m) (auto simp: read_frames.simps [of _ _ a] split: prod.splits)
    with less 1(1) have "read_frames message_of env rest = ([], rest)"
      and "\<forall>b. no_oversize (remaining @ b) \<longrightarrow> no_oversize (rest @ b)" by blast+
    then show ?thesis using decode_message_append(2) [OF _ dec False] by blast
  qed
qed

text \<open>The order of arrival does not matter: reading in chunks gives the messages of the whole stream.\<close>

lemma read_stream_chunks:
  assumes "no_oversize (buffered @ concat chunks)" and "read_frames message_of env buffered = ([], buffered)"
  shows "read_stream message_of env buffered chunks = read_frames message_of env (buffered @ concat chunks)"
  using assms
proof (induction chunks arbitrary: buffered)
  case (Cons chunk chunks)
  obtain ms rest where rd: "read_frames message_of env (buffered @ chunk) = (ms, rest)" by fastforce
  have "no_oversize ((buffered @ chunk) @ concat chunks)" using Cons.prems(1) by simp
  then have "no_oversize (rest @ concat chunks)" and app: "read_frames message_of env ((buffered @ chunk) @ concat chunks) =
      (case read_frames message_of env (rest @ concat chunks) of (ms', rest') \<Rightarrow> (ms @ ms', rest'))"
    using read_frames_rest [OF rd] read_frames_append [of "buffered @ chunk" "concat chunks" message_of env] rd by simp_all
  then show ?case using Cons.IH [of rest] read_frames_rest [OF rd] rd by simp
qed simp

section \<open>Streams of commands\<close>

text \<open>What a peer may send: commands, and frames that hold no command.\<close>

datatype stream_item = Sent Command | Noise "byte list"

definition item_payload :: "json_text \<Rightarrow> stream_item \<Rightarrow> byte list" where
  "item_payload env i = (case i of Sent c \<Rightarrow> dumps env (command_payload c) | Noise bs \<Rightarrow> bs)"

definition item_bytes :: "json_text \<Rightarrow> stream_item \<Rightarrow> byte list" where
  "item_bytes env i =
    (case i of
       Sent c \<Rightarrow> (case encode_command env c of None \<Rightarrow> [] | Some bs \<Rightarrow> bs)
     | Noise bs \<Rightarrow> (case pack_length (length bs) of None \<Rightarrow> [] | Some header \<Rightarrow> header @ bs))"

definition item_command :: "stream_item \<Rightarrow> Command option" where
  "item_command i = (case i of Sent c \<Rightarrow> Some c | Noise bs \<Rightarrow> None)"

text \<open>The text of a sent command can be parsed back, and its type is known; noise is text that cannot be decoded,
  no object, or an object without a known command.\<close>

definition item_ok :: "json_text \<Rightarrow> stream_item \<Rightarrow> bool" where
  "item_ok env i \<longleftrightarrow> length (item_payload env i) \<le> MAX_PAYLOAD_SIZE
     \<and> (case i of
          Sent c \<Rightarrow> command c \<in> set COMMAND_TYPES \<and> loads env (dumps env (command_payload c)) = Some (command_payload c)
        | Noise bs \<Rightarrow> Option.bind (Option.bind (loads env bs) json_object) command_of = None)"

lemma command_of_payload: "command c \<in> set COMMAND_TYPES \<Longrightarrow> Option.bind (json_object (command_payload c)) command_of = Some c"
  by (simp add: command_payload_def command_of_def json_get_def json_get_default_def)

lemma item_frame:
  assumes "item_ok env i"
  obtains header where "pack_length (length (item_payload env i)) = Some header"
    and "item_bytes env i = header @ item_payload env i" and "length header = HEADER_SIZE"
proof -
  have "length (item_payload env i) < 2 ^ 32" using assms by (simp add: item_ok_def MAX_PAYLOAD_SIZE_def)
  then obtain header where header: "pack_length (length (item_payload env i)) = Some header" by (auto simp: pack_length_def)
  show thesis
  proof (rule that [OF header])
    show "item_bytes env i = header @ item_payload env i"
      using header by (cases i) (simp_all add: item_bytes_def item_payload_def encode_command_def encode_frame_def Let_def)
    show "length header = HEADER_SIZE" using unpack_pack [OF header] by simp
  qed
qed

lemma decode_item:
  assumes ok: "item_ok env i"
  shows "decode_message command_of env (item_bytes env i @ bs) = (item_command i, bs)" and "item_bytes env i \<noteq> []"
    and "no_oversize (item_bytes env i @ bs) = no_oversize bs"
proof -
  obtain header where header: "pack_length (length (item_payload env i)) = Some header"
    and bytes: "item_bytes env i = header @ item_payload env i" and len: "length header = HEADER_SIZE"
    by (rule item_frame [OF ok])
  have max: "length (item_payload env i) \<le> MAX_PAYLOAD_SIZE" using ok by (simp add: item_ok_def)
  show "item_bytes env i \<noteq> []" using bytes len by (auto simp: HEADER_SIZE_def)
  have "decode_frame_payload env (item_bytes env i @ bs)
      = (Option.bind (loads env (item_payload env i)) json_object, bs)"
    unfolding bytes using decode_complete_frame [OF header max] by simp
  moreover have "Option.bind (Option.bind (loads env (item_payload env i)) json_object) command_of = item_command i"
    using ok command_of_payload by (cases i) (simp_all add: item_ok_def item_payload_def item_command_def)
  ultimately show "decode_message command_of env (item_bytes env i @ bs) = (item_command i, bs)"
    by (simp add: decode_message_def)
  show "no_oversize (item_bytes env i @ bs) = no_oversize bs"
    unfolding bytes using unpack_pack [OF header] max by (subst no_oversize.simps) (simp add: Let_def)
qed

lemma no_oversize_items:
  "\<forall>i\<in>set items. item_ok env i \<Longrightarrow> no_oversize (concat (map (item_bytes env) items) @ bs) = no_oversize bs"
  by (induction items) (simp_all add: decode_item(3))

lemma read_items:
  "\<forall>i\<in>set items. item_ok env i \<Longrightarrow> read_frames command_of env (concat (map (item_bytes env) items) @ bs)
      = (case read_frames command_of env bs of (cs, rest) \<Rightarrow> (List.map_filter item_command items @ cs, rest))"
proof (induction items)
  case (Cons i items)
  let ?rest = "concat (map (item_bytes env) items) @ bs"
  have ok: "item_ok env i" using Cons.prems by simp
  note dec = decode_item(1) [OF ok, of ?rest] decode_item(2) [OF ok]
  have "?rest \<noteq> item_bytes env i @ ?rest" using dec(2) by simp
  then show ?case
    using dec(1) Cons by (cases "item_command i")
      (simp_all add: read_frames.simps [of _ _ "item_bytes env i @ ?rest"] List.map_filter_simps split: prod.split)
qed (simp add: List.map_filter_simps split: prod.split)

text \<open>C7. However the bytes of a peer are cut into reads, the reader gets exactly the commands that were sent, in
  their order, each once; frames that hold no command are skipped without harm to the others, and an incomplete
  frame at the end waits in the buffer.\<close>

theorem commands_arrive:
  assumes ok: "\<forall>i\<in>set items. item_ok env i"
    and chunks: "concat chunks = concat (map (item_bytes env) items) @ partial"
    and partial: "decode_frame_payload env partial = (None, partial)"
  shows "read_stream command_of env [] chunks = (List.map_filter item_command items, partial)"
proof -
  have "no_oversize partial"
    using partial by (subst no_oversize.simps) (auto simp: decode_frame_payload_def Let_def HEADER_SIZE_def split: if_splits
        dest!: arg_cong [where f = length and x = "drop k xs" for k xs])
  then have clean: "no_oversize ([] @ concat chunks)" unfolding chunks using no_oversize_items [OF ok] by simp
  have rest: "read_frames command_of env partial = ([], partial)"
    using partial by (simp add: read_frames.simps decode_message_def)
  have empty: "read_frames command_of env [] = ([], [])"
    by (simp add: read_frames.simps decode_message_def decode_frame_payload_def HEADER_SIZE_def)
  show ?thesis
    using read_stream_chunks [OF clean empty] unfolding chunks by (simp add: read_items [OF ok] rest)
qed

section \<open>Example streams\<close>

definition ping :: Command where
  "ping = \<lparr>command = ''ping'', cmd_data = JObject [], cmd_request_id = JString ''1''\<rparr>"

definition inventory :: Command where
  "inventory = \<lparr>command = ''list_devices'', cmd_data = JObject [], cmd_request_id = JNull\<rparr>"

definition demo_text :: json_text where
  "demo_text = \<lparr>dumps = (\<lambda>v. if v = command_payload ping then [1] else if v = command_payload inventory then [2, 2] else [3]),
     loads = (\<lambda>bs. if bs = [1] then Some (command_payload ping)
                  else if bs = [2, 2] then Some (command_payload inventory) else None)\<rparr>"

definition demo_items :: "stream_item list" where
  "demo_items = [Sent ping, Noise [7], Sent inventory]"

definition demo_chunks :: "byte list list" where
  "demo_chunks = [[0, 0, 0], [1, 1, 0, 0], [0, 1, 7, 0, 0, 0, 2, 2], [2, 0, 0]]"

lemma demo_payloads:
  "command_payload ping \<noteq> command_payload inventory" "dumps demo_text (command_payload ping) = [1]"
  "dumps demo_text (command_payload inventory) = [2, 2]" "loads demo_text [1] = Some (command_payload ping)"
  "loads demo_text [2, 2] = Some (command_payload inventory)" "loads demo_text [7] = None"
  by (simp_all add: demo_text_def command_payload_def ping_def inventory_def)

lemma demo_bytes:
  "item_bytes demo_text (Sent ping) = [0, 0, 0, 1, 1]" "item_bytes demo_text (Sent inventory) = [0, 0, 0, 2, 2, 2]"
  "item_bytes demo_text (Noise [7]) = [0, 0, 0, 1, 7]"
  by (simp_all add: item_bytes_def encode_command_def encode_frame_def demo_payloads pack_length_def)

lemma demo_items_ok: "\<forall>i\<in>set demo_items. item_ok demo_text i"
  by (simp add: demo_items_def item_ok_def item_payload_def demo_payloads MAX_PAYLOAD_SIZE_def)
    (simp add: ping_def inventory_def COMMAND_TYPES_def)

lemma demo_chunks_sent: "concat demo_chunks = concat (map (item_bytes demo_text) demo_items) @ [0, 0]"
  by (simp add: demo_chunks_def demo_items_def demo_bytes)

lemma demo_incomplete: "decode_frame_payload demo_text [0, 0] = (None, [0, 0])"
  by (simp add: decode_frame_payload_def HEADER_SIZE_def)

theorem commands_arrive_witness:
  "read_stream command_of demo_text [] demo_chunks = ([ping, inventory], [0, 0])"
  using commands_arrive [OF demo_items_ok demo_chunks_sent demo_incomplete]
  by (simp add: demo_items_def item_command_def List.map_filter_simps)

lemmas decode_simps = decode_message_def decode_frame_payload_def HEADER_SIZE_def MAX_PAYLOAD_SIZE_def unpack_length_def
  demo_payloads demo_bytes command_of_payload

text \<open>A frame that announces more than the limit is dropped with the bytes that have arrived; the rest of its
  payload is then read as frames.  So a command inside such a payload is executed or not, depending on how the
  bytes are cut into reads.\<close>

theorem oversize_payload_is_read:
  "read_stream command_of demo_text [] [[255, 255, 255, 255, 9], item_bytes demo_text (Sent ping)] = ([ping], [])
    \<and> read_stream command_of demo_text [] [[255, 255, 255, 255, 9] @ item_bytes demo_text (Sent ping)] = ([], [])"
proof -
  have drop: "read_frames command_of demo_text (255 # 255 # 255 # 255 # 9 # bs) = ([], [])" if "length bs < 10" for bs
    using that by (simp add: read_frames.simps decode_simps)
  have ping: "read_frames command_of demo_text [0, 0, 0, 1, 1] = ([ping], [])"
    by (simp add: read_frames.simps decode_simps ping_def COMMAND_TYPES_def)
  show ?thesis using drop [of "[]"] drop [of "[0, 0, 0, 1, 1]"] ping by (simp add: demo_bytes)
qed

end
