(* ===== verification/Ipc_Server.thy ===== *)
theory Ipc_Server
  imports Ipc_Frames
begin

text \<open>
  The daemon's end of the connection, \<open>SocketServer\<close> of \<open>keymasqd/socket_server.py\<close>: admission of clients, the
  reader of each client, and the end of a connection.  With \<open>single_owner\<close> one client at a time owns the daemon.
  A connection is known by a number.  A step is what a coroutine does between two points where it waits: reading,
  one round of the decoding loop, the two halves of a command around its handler, and the two halves of
  \<open>_drop_client\<close> around the disconnect handler.  The reader of a connection waits for its command, but while the handler
  of the command runs the client may be dropped and a new owner admitted.  Sockets, credentials, timeouts and the shutdown are left out, apart
  from the flag \<open>quiescing\<close>.
\<close>

section \<open>State and steps\<close>

datatype phase = Reading | Decoding | Processing nat Command | Closing

record server =
  single_owner :: bool
  clients :: "nat set"
  read_buffer :: "nat \<rightharpoonup> byte list"
  client_context :: "nat \<rightharpoonup> nat"
  next_connection_id :: nat
  owner_context :: "nat option"
  quiescing :: bool
  handler :: "nat \<rightharpoonup> phase"
  drops :: "(nat \<times> bool) list"
  received :: "nat \<Rightarrow> byte list"
  begun :: "(nat \<times> nat \<times> Command \<times> bool) list"
  answers :: "(nat \<times> nat \<times> Command \<times> bool) list"
  disconnect_calls :: nat

definition new_server :: "bool \<Rightarrow> server" where
  "new_server single = \<lparr>single_owner = single, clients = {}, read_buffer = Map.empty, client_context = Map.empty,
     next_connection_id = 1, owner_context = None, quiescing = False, handler = Map.empty, drops = [],
     received = (\<lambda>w. []), begun = [], answers = [], disconnect_calls = 0\<rparr>"

text \<open>A connection is accepted or turned away.\<close>

definition serve_client :: "nat \<Rightarrow> bool \<Rightarrow> server \<Rightarrow> server" where
  "serve_client w allowed st =
    (if quiescing st \<or> \<not> allowed then st
     else let cid = next_connection_id st; st1 = st\<lparr>next_connection_id := cid + 1\<rparr>
          in if single_owner st \<and> owner_context st \<noteq> None then st1
             else st1\<lparr>owner_context := (if single_owner st then Some cid else owner_context st),
                      clients := insert w (clients st), read_buffer := (read_buffer st)(w \<mapsto> []),
                      client_context := (client_context st)(w \<mapsto> cid), handler := (handler st)(w \<mapsto> Reading)\<rparr>)"

text \<open>The reader: a chunk arrives (an empty one at the end), then commands are decoded one by one.\<close>

definition read_chunk :: "nat \<Rightarrow> byte list \<Rightarrow> server \<Rightarrow> server" where
  "read_chunk w data st =
    (if data = [] \<or> w \<notin> clients st then st\<lparr>handler := (handler st)(w \<mapsto> Closing)\<rparr>
     else st\<lparr>read_buffer := (read_buffer st)(w \<mapsto> the (read_buffer st w) @ data), handler := (handler st)(w \<mapsto> Decoding),
             received := (received st)(w := received st w @ data)\<rparr>)"

text \<open>
  A command begins: the handler is called with the context of the connection, unless the daemon shuts down.  When it
  is over the response is sent if the client is still there.  \<open>begun\<close> and \<open>answers\<close> record both moments.
\<close>

definition begin_command :: "nat \<Rightarrow> Command \<Rightarrow> server \<Rightarrow> server" where
  "begin_command w cmd st =
    (let cid = the (client_context st w)
     in st\<lparr>begun := begun st @ [(w, cid, cmd, \<not> quiescing st)], handler := (handler st)(w \<mapsto> Processing cid cmd)\<rparr>)"

definition end_command :: "nat \<Rightarrow> server \<Rightarrow> server" where
  "end_command w st =
    (case handler st w of
       Some (Processing cid cmd) \<Rightarrow>
         st\<lparr>answers := answers st @ [(w, cid, cmd, w \<in> clients st)], handler := (handler st)(w \<mapsto> Decoding)\<rparr>
     | _ \<Rightarrow> st)"

definition decode_round :: "json_text \<Rightarrow> nat \<Rightarrow> server \<Rightarrow> server" where
  "decode_round env w st =
    (if w \<notin> clients st then st\<lparr>handler := (handler st)(w \<mapsto> Reading)\<rparr>
     else let buffered = the (read_buffer st w)
          in case decode_command env buffered of
               (None, remaining) \<Rightarrow>
                 if remaining \<noteq> buffered then st\<lparr>read_buffer := (read_buffer st)(w \<mapsto> remaining)\<rparr>
                 else st\<lparr>handler := (handler st)(w \<mapsto> Reading)\<rparr>
             | (Some cmd, remaining) \<Rightarrow> begin_command w cmd (st\<lparr>read_buffer := (read_buffer st)(w \<mapsto> remaining)\<rparr>))"

text \<open>\<open>_drop_client\<close>: the client is forgotten and the disconnect handler called; when that is done, the owner is
  released.\<close>

definition begin_drop :: "nat \<Rightarrow> server \<Rightarrow> server" where
  "begin_drop w st =
    (if w \<notin> clients st \<and> read_buffer st w = None \<and> client_context st w = None then st
     else let is_owner = (single_owner st \<and> client_context st w \<noteq> None \<and> owner_context st = client_context st w)
          in st\<lparr>client_context := (client_context st)(w := None), clients := clients st - {w},
                read_buffer := (read_buffer st)(w := None), drops := drops st @ [(w, is_owner)],
                disconnect_calls := disconnect_calls st + of_bool is_owner\<rparr>)"

definition end_drop :: "nat \<Rightarrow> bool \<Rightarrow> server \<Rightarrow> server" where
  "end_drop w is_owner st =
    (let st1 = st\<lparr>drops := remove1 (w, is_owner) (drops st)\<rparr>
     in if is_owner then st1\<lparr>owner_context := None\<rparr>
        else st1\<lparr>disconnect_calls := disconnect_calls st + of_bool (clients st = {})\<rparr>)"

datatype server_event =
    SAccept nat bool
  | SRead nat "byte list"
  | SNext nat
  | SFinish nat
  | SDrop nat
  | SDropped nat bool
  | SQuiesce

fun server_step :: "json_text \<Rightarrow> server \<Rightarrow> server_event \<Rightarrow> server" where
  "server_step env st (SAccept w allowed) = serve_client w allowed st"
| "server_step env st (SRead w data) = read_chunk w data st"
| "server_step env st (SNext w) = decode_round env w st"
| "server_step env st (SFinish w) = end_command w st"
| "server_step env st (SDrop w) = begin_drop w st"
| "server_step env st (SDropped w is_owner) = end_drop w is_owner st"
| "server_step env st SQuiesce = st\<lparr>quiescing := True\<rparr>"

text \<open>When a step may happen: a connection is new, and a coroutine is where the step begins.\<close>

fun server_guard :: "server \<Rightarrow> server_event \<Rightarrow> bool" where
  "server_guard st (SAccept w allowed) = (handler st w = None)"
| "server_guard st (SRead w data) = (handler st w = Some Reading)"
| "server_guard st (SNext w) = (handler st w = Some Decoding)"
| "server_guard st (SFinish w) = (\<exists>cid cmd. handler st w = Some (Processing cid cmd))"
| "server_guard st (SDrop w) = True"
| "server_guard st (SDropped w is_owner) = ((w, is_owner) \<in> set (drops st))"
| "server_guard st SQuiesce = True"

section \<open>One owner\<close>

text \<open>With a single owner: the state of the connections, and the order of the commands.\<close>

definition admission_ok :: "server \<Rightarrow> bool" where
  "admission_ok st \<longleftrightarrow> clients st = dom (client_context st) \<and> dom (read_buffer st) = dom (client_context st)
     \<and> dom (client_context st) \<subseteq> dom (handler st)
     \<and> (\<forall>w cid. client_context st w = Some cid \<longrightarrow> cid < next_connection_id st)"

definition connection_ids :: "(nat \<times> nat \<times> Command \<times> bool) list \<Rightarrow> nat list" where
  "connection_ids xs = map (\<lambda>a. fst (snd a)) xs"

definition sent_answers :: "server \<Rightarrow> (nat \<times> nat \<times> Command \<times> bool) list" where
  "sent_answers st = filter (\<lambda>a. snd (snd (snd a))) (answers st)"

lemma connection_ids_append [simp]: "connection_ids (xs @ ys) = connection_ids xs @ connection_ids ys" "connection_ids [] = []"
  "connection_ids [(w, cid, cmd, b)] = [cid]"
  by (simp_all add: connection_ids_def)

lemma connection_ids_member: "(w, cid, cmd, b) \<in> set xs \<Longrightarrow> cid \<in> set (connection_ids xs)"
  by (force simp: connection_ids_def)

definition ids_in_order :: "nat list \<Rightarrow> nat \<Rightarrow> bool" where
  "ids_in_order cids bound \<longleftrightarrow> sorted cids \<and> (\<forall>c\<in>set cids. c \<le> bound)"

lemma ids_in_order_append [simp]: "ids_in_order (cids @ [c]) c \<longleftrightarrow> ids_in_order cids c"
  by (auto simp: ids_in_order_def sorted_append)

lemma ids_in_order_mono: "ids_in_order cids a \<Longrightarrow> a \<le> b \<Longrightarrow> ids_in_order cids b"
  by (auto simp: ids_in_order_def)

text \<open>The commands begun and the responses sent come in the order of the owners; \<open>last_owner\<close> is the latest of them.\<close>

definition last_owner :: "server \<Rightarrow> nat" where
  "last_owner st = (case owner_context st of Some cid \<Rightarrow> cid | None \<Rightarrow> next_connection_id st - 1)"

definition owner_ok :: "server \<Rightarrow> bool" where
  "owner_ok st \<longleftrightarrow> (owner_context st = None \<longrightarrow> client_context st = Map.empty \<and> drops st = [])
     \<and> (\<forall>cid. owner_context st = Some cid \<longrightarrow> cid < next_connection_id st
          \<and> ((\<exists>w. client_context st = [w \<mapsto> cid]) \<and> drops st = [] \<or> client_context st = Map.empty \<and> (\<exists>w. drops st = [(w, True)])))
     \<and> ids_in_order (connection_ids (begun st)) (last_owner st) \<and> ids_in_order (connection_ids (sent_answers st)) (last_owner st)"

text \<open>A command that runs has begun with the context of its connection.\<close>

definition running_ok :: "server \<Rightarrow> bool" where
  "running_ok st \<longleftrightarrow> (\<forall>w cid cmd. handler st w = Some (Processing cid cmd) \<longrightarrow>
     (\<exists>ran. (w, cid, cmd, ran) \<in> set (begun st)) \<and> (\<forall>c. client_context st w = Some c \<longrightarrow> c = cid))"

lemma owner_fields [simp]:
  "last_owner (st\<lparr>handler := h\<rparr>) = last_owner st" "last_owner (st\<lparr>read_buffer := b\<rparr>) = last_owner st"
  "last_owner (st\<lparr>received := r\<rparr>) = last_owner st" "last_owner (st\<lparr>quiescing := q\<rparr>) = last_owner st"
  "last_owner (st\<lparr>begun := y\<rparr>) = last_owner st" "last_owner (st\<lparr>answers := a\<rparr>) = last_owner st"
  "sent_answers (st\<lparr>begun := y\<rparr>) = sent_answers st"
  "sent_answers (st\<lparr>answers := answers st @ [(w, cid, cmd, sent)]\<rparr>)
    = sent_answers st @ (if sent then [(w, cid, cmd, True)] else [])"
  "sent_answers (st\<lparr>handler := h\<rparr>) = sent_answers st" "sent_answers (st\<lparr>read_buffer := b\<rparr>) = sent_answers st"
  "sent_answers (st\<lparr>received := r\<rparr>) = sent_answers st" "sent_answers (st\<lparr>quiescing := q\<rparr>) = sent_answers st"
  by (simp_all add: last_owner_def sent_answers_def cong: option.case_cong)

lemma owner_ok_fields [simp]:
  "owner_ok (st\<lparr>handler := h\<rparr>) = owner_ok st" "owner_ok (st\<lparr>read_buffer := b\<rparr>) = owner_ok st"
  "owner_ok (st\<lparr>received := r\<rparr>) = owner_ok st" "owner_ok (st\<lparr>quiescing := q\<rparr>) = owner_ok st"
  by (simp_all add: owner_ok_def)

lemma admission_ok_fields [simp]:
  "admission_ok (st\<lparr>received := r\<rparr>) = admission_ok st" "admission_ok (st\<lparr>quiescing := q\<rparr>) = admission_ok st"
  "admission_ok (st\<lparr>answers := a\<rparr>) = admission_ok st" "admission_ok (st\<lparr>begun := b\<rparr>) = admission_ok st" "admission_ok (st\<lparr>drops := d\<rparr>) = admission_ok st"
  "admission_ok (st\<lparr>owner_context := c\<rparr>) = admission_ok st" "admission_ok (st\<lparr>disconnect_calls := k\<rparr>) = admission_ok st"
  by (simp_all add: admission_ok_def)

definition server_inv :: "server \<Rightarrow> bool" where
  "server_inv st \<longleftrightarrow> admission_ok st \<and> running_ok st \<and> (single_owner st \<longrightarrow> owner_ok st)"

lemma server_invI:
  "admission_ok st \<Longrightarrow> running_ok st \<Longrightarrow> (single_owner st \<Longrightarrow> owner_ok st) \<Longrightarrow> server_inv st"
  by (simp add: server_inv_def)

lemma server_invD:
  assumes "server_inv st"
  shows "admission_ok st" "running_ok st" "single_owner st \<Longrightarrow> owner_ok st"
  using assms by (simp_all add: server_inv_def)

lemma serve_client_inv:
  assumes inv: "server_inv st" and new: "handler st w = None"
  shows "server_inv (serve_client w allowed st)"
proof (cases "quiescing st \<or> \<not> allowed")
  case False
  note adm = server_invD(1) [OF inv] and run = server_invD(2) [OF inv] and own = server_invD(3) [OF inv]
  show ?thesis
  proof (cases "single_owner st \<and> owner_context st \<noteq> None")
    case True
    then have eq: "serve_client w allowed st = st\<lparr>next_connection_id := next_connection_id st + 1\<rparr>"
      using False by (simp add: serve_client_def Let_def)
    show ?thesis unfolding eq
    proof (rule server_invI)
      show "admission_ok (st\<lparr>next_connection_id := next_connection_id st + 1\<rparr>)"
        using adm by (auto simp: admission_ok_def intro: less_SucI)
      show "running_ok (st\<lparr>next_connection_id := next_connection_id st + 1\<rparr>)" using run by (simp add: running_ok_def)
      show "owner_ok (st\<lparr>next_connection_id := next_connection_id st + 1\<rparr>)"
        using own True by (auto simp: owner_ok_def last_owner_def sent_answers_def split: option.splits intro: less_SucI)
    qed
  next
    case free: False
    let ?cid = "next_connection_id st"
    let ?st = "st\<lparr>next_connection_id := ?cid + 1, owner_context := (if single_owner st then Some ?cid else owner_context st),
      clients := insert w (clients st), read_buffer := (read_buffer st)(w \<mapsto> []),
      client_context := (client_context st)(w \<mapsto> ?cid), handler := (handler st)(w \<mapsto> Reading)\<rparr>"
    have eq: "serve_client w allowed st = ?st" using False unfolding serve_client_def Let_def if_not_P [OF free] by simp
    show ?thesis unfolding eq
    proof (rule server_invI)
      show "admission_ok ?st" using adm by (auto simp: admission_ok_def less_Suc_eq)
      show "running_ok ?st" using run new by (auto simp: running_ok_def)
      assume "single_owner ?st"
      then have single: "single_owner st" by simp
      then have none: "owner_context st = None" using free by blast
      then have "client_context st = Map.empty" "drops st = []" "ids_in_order (connection_ids (begun st)) (last_owner st)"
        "ids_in_order (connection_ids (sent_answers st)) (last_owner st)" "last_owner st \<le> ?cid"
        using own [OF single] by (simp_all add: owner_ok_def last_owner_def)
      then show "owner_ok ?st" using single
        by (auto simp: owner_ok_def last_owner_def sent_answers_def none elim: ids_in_order_mono)
    qed
  qed
qed (use inv in \<open>simp add: serve_client_def\<close>)

lemma read_chunk_inv:
  assumes inv: "server_inv st" and "handler st w = Some Reading"
  shows "server_inv (read_chunk w data st)"
proof (rule server_invI)
  show "admission_ok (read_chunk w data st)"
    using server_invD(1) [OF inv] by (auto simp: admission_ok_def read_chunk_def)
  show "running_ok (read_chunk w data st)" using server_invD(2) [OF inv] by (auto simp: running_ok_def read_chunk_def)
  show "owner_ok (read_chunk w data st)" if "single_owner (read_chunk w data st)"
  proof -
    have "single_owner st" using that by (simp add: read_chunk_def split: if_splits)
    then show ?thesis using inv by (simp add: server_inv_def read_chunk_def)
  qed
qed

lemma begin_command_inv:
  assumes inv: "server_inv st" and w: "w \<in> clients st" and h: "handler st w = Some Decoding"
  shows "server_inv (begin_command w cmd st)"
proof -
  note adm = server_invD(1) [OF inv] and run = server_invD(2) [OF inv]
  obtain cid where cid: "client_context st w = Some cid" using adm w by (auto simp: admission_ok_def)
  show ?thesis
  proof (rule server_invI)
    show "admission_ok (begin_command w cmd st)"
      using adm by (auto simp: admission_ok_def begin_command_def Let_def)
    show "running_ok (begin_command w cmd st)"
      using run cid by (auto simp: running_ok_def begin_command_def Let_def)
    assume "single_owner (begin_command w cmd st)"
    then have own: "owner_ok st" using server_invD(3) [OF inv] by (simp add: begin_command_def Let_def)
    then have "owner_context st = Some cid"
      using cid by (cases "owner_context st") (auto simp: owner_ok_def split: if_splits)
    then show "owner_ok (begin_command w cmd st)"
      using own cid by (auto simp: owner_ok_def begin_command_def last_owner_def sent_answers_def Let_def)
  qed
qed

lemma end_command_inv:
  assumes inv: "server_inv st" and h: "handler st w = Some (Processing cid cmd)"
  shows "server_inv (end_command w st)"
proof (rule server_invI)
  note adm = server_invD(1) [OF inv] and run = server_invD(2) [OF inv]
  show "admission_ok (end_command w st)" using adm h by (auto simp: admission_ok_def end_command_def)
  show "running_ok (end_command w st)" using run h by (auto simp: running_ok_def end_command_def)
  assume "single_owner (end_command w st)"
  then have own: "owner_ok st" using server_invD(3) [OF inv] h by (simp add: end_command_def)
  show "owner_ok (end_command w st)"
  proof (cases "w \<in> clients st")
    case True
    then have "client_context st w = Some cid" using adm run h by (auto simp: admission_ok_def running_ok_def)
    then have "owner_context st = Some cid"
      using own by (cases "owner_context st") (auto simp: owner_ok_def split: if_splits)
    then show ?thesis
      using own h True by (simp add: owner_ok_def end_command_def) (simp add: last_owner_def)
  next
    case False
    then show ?thesis using own h False by (simp add: owner_ok_def end_command_def)
  qed
qed

lemma server_inv_fields:
  "server_inv (st\<lparr>read_buffer := (read_buffer st)(w \<mapsto> b)\<rparr>) = server_inv st" if "w \<in> clients st" "server_inv st"
  using that by (auto simp: server_inv_def admission_ok_def running_ok_def)

lemma server_inv_handler:
  "server_inv st \<Longrightarrow> p = Reading \<or> p = Decoding \<or> p = Closing \<Longrightarrow> server_inv (st\<lparr>handler := (handler st)(w \<mapsto> p)\<rparr>)"
  by (auto simp: server_inv_def admission_ok_def running_ok_def)

lemma decode_round_inv:
  assumes inv: "server_inv st" and h: "handler st w = Some Decoding" shows "server_inv (decode_round env w st)"
proof (cases "w \<in> clients st")
  case True
  obtain cmd remaining where dec: "decode_command env (the (read_buffer st w)) = (cmd, remaining)" by fastforce
  let ?st = "st\<lparr>read_buffer := (read_buffer st)(w \<mapsto> remaining)\<rparr>"
  have st: "server_inv ?st" using server_inv_fields [OF True inv] inv by simp
  show ?thesis
  proof (cases cmd)
    case None
    then show ?thesis using True dec st server_inv_handler [OF inv] by (simp add: decode_round_def Let_def)
  next
    case (Some c)
    have "server_inv (begin_command w c ?st)" using begin_command_inv [OF st] True h by simp
    then show ?thesis using True dec Some by (simp add: decode_round_def Let_def)
  qed
next
  case False
  then show ?thesis using server_inv_handler [OF inv] by (simp add: decode_round_def)
qed

lemma begin_drop_inv:
  assumes inv: "server_inv st" shows "server_inv (begin_drop w st)"
proof (cases "client_context st w")
  case None
  then have "w \<notin> clients st" "read_buffer st w = None" using inv by (auto simp: server_inv_def admission_ok_def)
  then have "begin_drop w st = st" using None by (simp add: begin_drop_def)
  then show ?thesis using inv by simp
next
  case (Some cid)
  show ?thesis
  proof (rule server_invI)
    show "admission_ok (begin_drop w st)"
      using server_invD(1) [OF inv] Some by (auto simp: admission_ok_def begin_drop_def Let_def dom_def)
    show "running_ok (begin_drop w st)"
      using server_invD(2) [OF inv] by (auto simp: running_ok_def begin_drop_def Let_def)
    assume "single_owner (begin_drop w st)"
    then have single: "single_owner st" by (simp add: begin_drop_def Let_def split: if_splits)
    then show "owner_ok (begin_drop w st)"
      using Some single server_invD(3) [OF inv]
      by (auto simp: owner_ok_def begin_drop_def last_owner_def sent_answers_def Let_def split: option.splits if_splits)
  qed
qed

lemma end_drop_inv:
  assumes inv: "server_inv st" and dropping: "(w, is_owner) \<in> set (drops st)"
  shows "server_inv (end_drop w is_owner st)"
proof (rule server_invI)
  show "admission_ok (end_drop w is_owner st)"
    using server_invD(1) [OF inv] by (auto simp: admission_ok_def end_drop_def Let_def)
  show "running_ok (end_drop w is_owner st)"
    using server_invD(2) [OF inv] by (auto simp: running_ok_def end_drop_def Let_def)
  assume "single_owner (end_drop w is_owner st)"
  then have "single_owner st" by (simp add: end_drop_def Let_def split: if_splits)
  then have own: "owner_ok st" using inv by (simp add: server_inv_def)
  show "owner_ok (end_drop w is_owner st)"
  proof (cases "owner_context st")
    case None
    then show ?thesis using own dropping by (simp add: owner_ok_def)
  next
    case (Some cid)
    then have "client_context st = Map.empty" "drops st = [(w, True)]" "is_owner" "cid < next_connection_id st"
      using own dropping by (auto simp: owner_ok_def)
    then show ?thesis
      using own Some by (auto simp: owner_ok_def end_drop_def last_owner_def sent_answers_def Let_def elim!: ids_in_order_mono)
  qed
qed

lemma server_step_inv:
  assumes "server_inv st" and "server_guard st e" shows "server_inv (server_step env st e)"
  using assms by (cases e) (auto simp: serve_client_inv read_chunk_inv decode_round_inv begin_drop_inv end_drop_inv
      intro: end_command_inv, simp add: server_inv_def running_ok_def)

lemma new_server_inv: "server_inv (new_server single)"
  by (simp add: new_server_def server_inv_def admission_ok_def running_ok_def owner_ok_def ids_in_order_def sent_answers_def)

interpretation admission: inv_machine "new_server single" server_guard "server_step env" server_inv for single env
  by unfold_locales (simp_all add: new_server_inv server_step_inv)

section \<open>Commands in order\<close>

lemma no_oversize_prefix: "no_oversize (a @ b) \<Longrightarrow> no_oversize a"
proof (induction a rule: length_induct)
  case (1 a)
  show ?case
  proof (cases "length a < HEADER_SIZE")
    case True
    then show ?thesis by (simp add: no_oversize.simps)
  next
    case False
    let ?n = "unpack_length (take HEADER_SIZE a)"
    have "?n \<le> MAX_PAYLOAD_SIZE \<and> (HEADER_SIZE + ?n \<le> length a \<longrightarrow> no_oversize (drop (HEADER_SIZE + ?n) a @ b))"
      using 1(2) False by (subst (asm) no_oversize.simps) (auto simp: Let_def split: if_splits)
    moreover have "HEADER_SIZE + ?n \<le> length a \<Longrightarrow> length (drop (HEADER_SIZE + ?n) a) < length a"
      using False by (simp add: HEADER_SIZE_def)
    ultimately have "?n \<le> MAX_PAYLOAD_SIZE \<and> (HEADER_SIZE + ?n \<le> length a \<longrightarrow> no_oversize (drop (HEADER_SIZE + ?n) a))"
      using 1(1) by blast
    then show ?thesis using False by (simp add: no_oversize.simps [of a] Let_def)
  qed
qed

definition answered :: "nat \<Rightarrow> server \<Rightarrow> Command list" where
  "answered w st = map (\<lambda>(w', cid, cmd, ran). cmd) (filter (\<lambda>a. fst a = w) (answers st))"

definition processing :: "nat \<Rightarrow> server \<Rightarrow> Command list" where
  "processing w st = (case handler st w of Some (Processing cid cmd) \<Rightarrow> [cmd] | _ \<Rightarrow> [])"

definition taken :: "nat \<Rightarrow> server \<Rightarrow> Command list" where
  "taken w st = answered w st @ processing w st"

lemmas taken_defs = taken_def answered_def processing_def

lemma processing_simps [simp]:
  "handler st w = None \<Longrightarrow> processing w st = []" "handler st w = Some Reading \<Longrightarrow> processing w st = []"
  "handler st w = Some Decoding \<Longrightarrow> processing w st = []" "handler st w = Some Closing \<Longrightarrow> processing w st = []"
  "handler st w = Some (Processing cid cmd) \<Longrightarrow> processing w st = [cmd]"
  by (simp_all add: processing_def)

text \<open>What was answered, the command that runs, and what still waits in the buffer are the commands of the bytes
  received.\<close>

definition client_ok :: "json_text \<Rightarrow> server \<Rightarrow> nat \<Rightarrow> bool" where
  "client_ok env st w \<longleftrightarrow>
    (\<exists>buffered. read_buffer st w = Some buffered
      \<and> (no_oversize (received st w) \<longrightarrow>
           read_frames command_of env (received st w)
             = (taken w st @ fst (read_frames command_of env buffered), snd (read_frames command_of env buffered)))
      \<and> (handler st w = Some Reading \<longrightarrow> read_frames command_of env buffered = ([], buffered)))"

definition reader_inv :: "json_text \<Rightarrow> server \<Rightarrow> bool" where
  "reader_inv env st \<longleftrightarrow> dom (client_context st) = clients st \<and> dom (read_buffer st) = clients st \<and> clients st \<subseteq> dom (handler st)
     \<and> (\<forall>w\<in>clients st. client_ok env st w) \<and> (\<forall>w. handler st w = None \<longrightarrow> received st w = [] \<and> taken w st = [])"

lemma read_frames_empty [simp]: "read_frames m env [] = ([], [])"
  by (simp add: read_frames.simps decode_message_def decode_frame_payload_def HEADER_SIZE_def)

lemma serve_client_reader:
  assumes inv: "reader_inv env st" and new: "handler st w = None"
  shows "reader_inv env (serve_client w allowed st)"
  using assms by (auto simp: reader_inv_def serve_client_def Let_def client_ok_def taken_defs)

lemma reader_invI:
  assumes inv: "reader_inv env st"
    and same: "clients st' = clients st" "client_context st' = client_context st" "dom (read_buffer st') = dom (read_buffer st)"
      "dom (handler st') = dom (handler st)"
    and others: "\<And>w'. w' \<noteq> w \<Longrightarrow> read_buffer st' w' = read_buffer st w' \<and> handler st' w' = handler st w'
      \<and> received st' w' = received st w' \<and> taken w' st' = taken w' st"
    and ok: "w \<in> clients st \<Longrightarrow> client_ok env st' w" and known: "handler st w \<noteq> None"
  shows "reader_inv env st'"
proof -
  have "client_ok env st' w'" if "w' \<in> clients st" for w'
  proof (cases "w' = w")
    case False
    then show ?thesis using inv that others [OF False] by (simp add: reader_inv_def client_ok_def)
  qed (use ok that in simp)
  moreover have "received st' w' = [] \<and> taken w' st' = []" if "handler st' w' = None" for w'
  proof -
    have "w' \<notin> dom (handler st)" using that same(4) by auto
    moreover from this known have "w' \<noteq> w" by auto
    ultimately show ?thesis using inv others [of w'] by (auto simp: reader_inv_def)
  qed
  ultimately show ?thesis using inv unfolding reader_inv_def same by auto
qed

lemma read_chunk_reader:
  assumes inv: "reader_inv env st" and h: "handler st w = Some Reading"
  shows "reader_inv env (read_chunk w data st)"
proof (rule reader_invI [OF inv, where w = w])
  have hd: "dom ((handler st)(w \<mapsto> p)) = dom (handler st)" for p using h by auto
  then show "dom (handler (read_chunk w data st)) = dom (handler st)" by (auto simp: read_chunk_def)
  show "dom (read_buffer (read_chunk w data st)) = dom (read_buffer st)"
    using inv by (auto simp: read_chunk_def reader_inv_def)
  show "client_ok env (read_chunk w data st) w" if w: "w \<in> clients st"
  proof -
    obtain b where b: "read_buffer st w = Some b" and idle: "read_frames command_of env b = ([], b)"
      and sent: "no_oversize (received st w) \<Longrightarrow> read_frames command_of env (received st w) = (taken w st, b)"
    proof -
      have "client_ok env st w" using inv w by (simp add: reader_inv_def)
      then show thesis using that h by (auto simp: client_ok_def)
    qed
    show ?thesis
    proof (cases "data = []")
      case True
      then show ?thesis using b idle sent h by (simp add: read_chunk_def client_ok_def taken_defs)
    next
      case False
      have "read_frames command_of env (received st w @ data)
          = (taken w st @ fst (read_frames command_of env (b @ data)), snd (read_frames command_of env (b @ data)))"
        if clean: "no_oversize (received st w @ data)"
        using read_frames_append [OF clean, of command_of env] sent [OF no_oversize_prefix [OF clean]] by (simp add: split_beta)
      then show ?thesis using False w b h by (simp add: read_chunk_def client_ok_def taken_defs)
    qed
  qed
qed (use h in \<open>auto simp: read_chunk_def taken_defs\<close>)

lemma decode_round_reader:
  assumes inv: "reader_inv env st" and h: "handler st w = Some Decoding"
  shows "reader_inv env (decode_round env w st)"
proof (cases "w \<in> clients st")
  case False
  have "dom ((handler st)(w \<mapsto> p)) = dom (handler st)" for p using h by auto
  then show ?thesis using h False by (intro reader_invI [OF inv, where w = w]) (auto simp: decode_round_def taken_defs)
next
  case True
  obtain b where b: "read_buffer st w = Some b"
    and sent: "no_oversize (received st w) \<Longrightarrow>
      read_frames command_of env (received st w) = (taken w st @ fst (read_frames command_of env b), snd (read_frames command_of env b))"
  proof -
    have "client_ok env st w" using inv True by (simp add: reader_inv_def)
    then show thesis using that by (auto simp: client_ok_def)
  qed
  obtain cmd remaining where dec: "decode_command env b = (cmd, remaining)" by fastforce
  have frames: "read_frames command_of env b =
    (case cmd of
       Some m \<Rightarrow> (case read_frames command_of env remaining of (ms, rest) \<Rightarrow> (m # ms, rest))
     | None \<Rightarrow> if remaining \<noteq> b then read_frames command_of env remaining else ([], b))"
    using dec by (subst read_frames.simps) (simp add: decode_command_def split: option.split)
  have doms: "dom ((handler st)(w \<mapsto> p)) = dom (handler st)" "dom ((read_buffer st)(w \<mapsto> x)) = dom (read_buffer st)" for p x
    using h b by auto
  show ?thesis
  proof (rule reader_invI [OF inv, where w = w])
    show "client_ok env (decode_round env w st) w"
    proof (cases cmd)
      case None
      then show ?thesis using True b sent h dec frames
        by (cases "remaining = b") (simp_all add: decode_round_def client_ok_def taken_defs Let_def)
    next
      case (Some c)
      then show ?thesis using True b sent h dec frames
        by (simp add: decode_round_def client_ok_def taken_defs begin_command_def Let_def split_beta)
    qed
    show "dom (handler (decode_round env w st)) = dom (handler st)" "dom (read_buffer (decode_round env w st)) = dom (read_buffer st)"
      using True b dec doms by (cases cmd; simp add: decode_round_def begin_command_def Let_def)+
    show "clients (decode_round env w st) = clients st" "client_context (decode_round env w st) = client_context st"
      using dec b by (cases cmd; simp add: decode_round_def begin_command_def Let_def)+
    show "read_buffer (decode_round env w st) w' = read_buffer st w' \<and> handler (decode_round env w st) w' = handler st w'
        \<and> received (decode_round env w st) w' = received st w' \<and> taken w' (decode_round env w st) = taken w' st"
      if "w' \<noteq> w" for w'
      using dec b that by (cases cmd; simp add: decode_round_def begin_command_def taken_defs Let_def)
  qed (use h in simp)
qed

lemma end_command_reader:
  assumes inv: "reader_inv env st" and h: "handler st w = Some (Processing cid cmd)"
  shows "reader_inv env (end_command w st)"
proof (rule reader_invI [OF inv, where w = w])
  show "client_ok env (end_command w st) w" if "w \<in> clients st"
  proof -
    have "client_ok env st w" using inv that by (simp add: reader_inv_def)
    then show ?thesis using h by (simp add: client_ok_def end_command_def taken_defs)
  qed
qed (use h in \<open>auto simp: end_command_def taken_defs\<close>)

lemma begin_drop_reader:
  assumes inv: "reader_inv env st" shows "reader_inv env (begin_drop w st)"
  using assms by (auto simp: reader_inv_def begin_drop_def Let_def client_ok_def taken_defs)

lemma end_drop_reader:
  assumes inv: "reader_inv env st" shows "reader_inv env (end_drop w is_owner st)"
  using assms by (auto simp: reader_inv_def end_drop_def Let_def client_ok_def taken_defs)

lemma server_step_reader:
  assumes "reader_inv env st" and "server_guard st e" shows "reader_inv env (server_step env st e)"
proof (cases e)
  case SQuiesce
  then show ?thesis using assms by (simp add: reader_inv_def client_ok_def taken_defs)
next
  case (SFinish w)
  then show ?thesis using assms end_command_reader by auto
qed (use assms in \<open>simp_all add: serve_client_reader read_chunk_reader decode_round_reader begin_drop_reader end_drop_reader\<close>)

interpretation readers: inv_machine "new_server single" server_guard "server_step env" "reader_inv env" for single env
  by unfold_locales (simp_all add: server_step_reader, simp add: new_server_def reader_inv_def taken_defs)

lemma single_owner_step [simp]: "single_owner (server_step env st e) = single_owner st"
  by (cases e) (simp_all add: serve_client_def read_chunk_def decode_round_def begin_drop_def end_drop_def begin_command_def end_command_def Let_def
      split: option.split prod.split phase.split)

lemma single_owner_run [simp]: "single_owner (run_steps (server_step env) st es) = single_owner st"
  by (induction es arbitrary: st) simp_all

section \<open>Example run\<close>

text \<open>A client sends two commands and noise and is dropped while the second command runs; another is turned away while
  the first is connected, a third while its disconnect handler runs, and a fourth is admitted and sends a command
  before the one of the first client is over.\<close>

definition demo_server_run :: "server_event list" where
  "demo_server_run =
    [SAccept 1 True, SRead 1 [0, 0, 0, 1, 1, 0, 0], SNext 1, SFinish 1, SNext 1, SAccept 2 True,
     SRead 1 [0, 1, 7, 0, 0, 0, 2, 2, 2, 0], SNext 1, SNext 1, SDrop 1, SAccept 3 True, SDropped 1 True,
     SAccept 4 True, SRead 4 [0, 0, 0, 1, 1], SNext 4, SFinish 1, SNext 1, SRead 1 [], SFinish 4, SNext 4]"

definition demo_server :: server where
  "demo_server = run_steps (server_step demo_text) (new_server True) demo_server_run"

lemma demo_command_of:
  "Option.bind (json_object (command_payload ping)) command_of = Some ping"
  "Option.bind (json_object (command_payload inventory)) command_of = Some inventory"
  by (rule command_of_payload, simp add: ping_def inventory_def COMMAND_TYPES_def)+

lemma demo_decoded:
  "decode_command demo_text [0, 0, 0, 1, 1, 0, 0] = (Some ping, [0, 0])" "decode_command demo_text [0, 0] = (None, [0, 0])"
  "decode_command demo_text [0, 0, 0, 1, 7, 0, 0, 0, 2, 2, 2, 0] = (None, [0, 0, 0, 2, 2, 2, 0])"
  "decode_command demo_text [0, 0, 0, 2, 2, 2, 0] = (Some inventory, [0])" "decode_command demo_text [0] = (None, [0])"
  "decode_command demo_text [0, 0, 0, 1, 1] = (Some ping, [])" "decode_command demo_text [] = (None, [])"
  by (simp_all add: decode_command_def decode_message_def decode_frame_payload_def HEADER_SIZE_def MAX_PAYLOAD_SIZE_def
      unpack_length_def demo_payloads demo_command_of)

lemmas demo_server_simps = new_server_def serve_client_def read_chunk_def decode_round_def begin_drop_def end_drop_def
  begin_command_def end_command_def demo_decoded Let_def

lemma demo_server_guarded: "guarded_run server_guard (server_step demo_text) (new_server True) demo_server_run"
  by (simp add: demo_server_run_def demo_server_simps)

lemma demo_server_state:
  "clients demo_server = {4}" "answers demo_server = [(1, 1, ping, True), (1, 1, inventory, False), (4, 4, ping, True)]"
  "begun demo_server = [(1, 1, ping, True), (1, 1, inventory, True), (4, 4, ping, True)]"
  "read_buffer demo_server 4 = Some []" "handler demo_server 4 = Some Reading" "received demo_server 4 = [0, 0, 0, 1, 1]"
  "disconnect_calls demo_server = 1" "owner_context demo_server = Some 4"
  by (simp_all add: demo_server_def demo_server_run_def demo_server_simps)

section \<open>Properties\<close>

text \<open>C12. A daemon with a single owner serves at most one client at a time, and a new owner is admitted only after
  the disconnect handler of the previous one has run.  Commands begin, and responses are sent, in the order of the
  owners, and of a connected client only the owner's command runs: a command that is still running when the next
  owner is there belongs to a client that was dropped, and gets no response.\<close>

theorem one_owner_at_a_time:
  assumes run: "guarded_run server_guard (server_step env) (new_server True) es"
    and st: "st = run_steps (server_step env) (new_server True) es"
  shows "card (clients st) \<le> 1 \<and> (clients st \<noteq> {} \<longrightarrow> drops st = [])
    \<and> (\<forall>w\<in>clients st. client_context st w = owner_context st \<and> owner_context st \<noteq> None)
    \<and> sorted (connection_ids (begun st)) \<and> sorted (connection_ids (sent_answers st))
    \<and> (\<forall>w cid cmd. handler st w = Some (Processing cid cmd) \<longrightarrow>
         (w \<in> clients st \<longrightarrow> owner_context st = Some cid)
         \<and> (\<forall>owner. owner_context st = Some owner \<longrightarrow> cid \<le> owner)
         \<and> last (answers (end_command w st)) = (w, cid, cmd, w \<in> clients st))"
proof -
  have inv: "server_inv st" unfolding st by (rule admission.inv_run [OF run])
  moreover have "single_owner st" by (simp add: st new_server_def)
  ultimately have own: "owner_ok st" and adm: "clients st = dom (client_context st)"
    by (simp_all add: server_inv_def admission_ok_def)
  have clients: "card (clients st) \<le> 1 \<and> (clients st \<noteq> {} \<longrightarrow> drops st = [])
    \<and> (\<forall>w\<in>clients st. client_context st w = owner_context st \<and> owner_context st \<noteq> None)"
  proof (cases "owner_context st")
    case None
    then show ?thesis using own adm by (simp add: owner_ok_def)
  next
    case (Some cid)
    then consider w where "client_context st = [w \<mapsto> cid]" "drops st = []" | "client_context st = Map.empty"
      using own unfolding owner_ok_def by blast
    then show ?thesis using own adm Some by cases auto
  qed
  moreover have "(w \<in> clients st \<longrightarrow> owner_context st = Some cid) \<and> (\<forall>owner. owner_context st = Some owner \<longrightarrow> cid \<le> owner)
      \<and> last (answers (end_command w st)) = (w, cid, cmd, w \<in> clients st)"
    if h: "handler st w = Some (Processing cid cmd)" for w cid cmd
  proof -
    obtain ran where "(w, cid, cmd, ran) \<in> set (begun st)" and ctx: "\<forall>c. client_context st w = Some c \<longrightarrow> c = cid"
      using server_invD(2) [OF inv] h unfolding running_ok_def by blast
    then have "cid \<in> set (connection_ids (begun st))" by (blast intro: connection_ids_member)
    then have "cid \<le> last_owner st" using own by (simp add: owner_ok_def ids_in_order_def)
    moreover have "owner_context st = Some cid" if "w \<in> clients st"
      using clients that ctx adm by fastforce
    ultimately show ?thesis using h by (auto simp: last_owner_def end_command_def)
  qed
  ultimately show ?thesis using own by (simp add: owner_ok_def ids_in_order_def)
qed

theorem one_owner_at_a_time_witness:
  "card (clients demo_server) \<le> 1 \<and> clients demo_server = {4} \<and> disconnect_calls demo_server = 1
    \<and> client_context demo_server 4 = owner_context demo_server"
  using one_owner_at_a_time [OF demo_server_guarded demo_server_def] demo_server_state by simp

text \<open>C21. Whatever the order of connections, reads and disconnects, the server has taken from every connected
  client exactly the commands its bytes hold, in their order, up to those still in the buffer: they are answered,
  but for the one that runs.  While it waits to read, all of them are answered.  This is for clients that announce
  no frame above the size limit.\<close>

theorem server_processes_every_command:
  assumes run: "guarded_run server_guard (server_step env) (new_server single) es"
    and st: "st = run_steps (server_step env) (new_server single) es"
    and w: "w \<in> clients st" and clean: "no_oversize (received st w)"
  shows "\<exists>buffered. read_buffer st w = Some buffered
    \<and> read_frames command_of env (received st w)
        = (answered w st @ processing w st @ fst (read_frames command_of env buffered), snd (read_frames command_of env buffered))
    \<and> (handler st w = Some Reading \<longrightarrow> read_frames command_of env (received st w) = (answered w st, buffered))"
proof -
  have "reader_inv env st" unfolding st by (rule readers.inv_run [OF run])
  then have "client_ok env st w" using w by (simp add: reader_inv_def)
  then show ?thesis using clean by (auto simp: client_ok_def taken_def)
qed

theorem server_processes_every_command_witness:
  "read_frames command_of demo_text (received demo_server 4) = ([ping], [])"
proof -
  have "no_oversize (received demo_server 4)"
    by (simp add: demo_server_state no_oversize.simps HEADER_SIZE_def MAX_PAYLOAD_SIZE_def unpack_length_def)
  with server_processes_every_command [OF demo_server_guarded demo_server_def, of 4]
  show ?thesis by (simp add: demo_server_state answered_def)
qed

end
