(* ===== verification/Ipc_Client.thy ===== *)
theory Ipc_Client
  imports Ipc_Frames
begin

text \<open>
  The session's end of the connection, \<open>KeymasqdClient\<close> of \<open>session/client.py\<close>: requests that wait for the response
  with their id, and events that go through a bounded queue to one worker.  A step is what a coroutine does
  between two points where it waits.  The event handler and the preprocessor of an event are left out, the
  latter but for its result.
\<close>

section \<open>State\<close>

definition MAX_PENDING_EVENTS :: nat where
  "MAX_PENDING_EVENTS = 256"

datatype future = Waiting | Result Response | Disconnected | TimedOut

type_synonym daemon_event = "string \<times> json"

text \<open>\<open>accepted\<close> and \<open>delivered\<close> are the events of this connection that were queued and handled.\<close>

record client =
  connected :: bool
  client_buffer :: "byte list"
  pending_requests :: "string \<rightharpoonup> nat"
  futures :: "nat \<rightharpoonup> future"
  request_counter :: nat
  event_queue :: "daemon_event list"
  worker :: bool
  accepted :: "daemon_event list"
  delivered :: "daemon_event list"

definition new_client :: client where
  "new_client = \<lparr>connected = False, client_buffer = [], pending_requests = Map.empty, futures = Map.empty, request_counter = 0,
     event_queue = [], worker = False, accepted = [], delivered = []\<rparr>"

section \<open>Requests\<close>

text \<open>The request that is sent, or \<open>None\<close> for the \<open>ConnectionError\<close>.\<close>

definition send_command :: "Command \<Rightarrow> client \<Rightarrow> Command option \<times> client" where
  "send_command cmd st =
    (if \<not> connected st then (None, st)
     else let n = request_counter st + 1; request_id = nat_text n
          in (Some (cmd\<lparr>cmd_request_id := JString request_id\<rparr>),
              st\<lparr>request_counter := n, futures := (futures st)(n \<mapsto> Waiting),
                 pending_requests := (pending_requests st)(request_id \<mapsto> n)\<rparr>))"

text \<open>The end of \<open>send_command\<close>: its future is done, or the time is up.\<close>

definition finish_request :: "nat \<Rightarrow> client \<Rightarrow> client" where
  "finish_request n st =
    st\<lparr>pending_requests := (pending_requests st)(nat_text n := None),
       futures := (if futures st n = Some Waiting then (futures st)(n \<mapsto> TimedOut) else futures st)\<rparr>"

definition fail_pending_requests :: "client \<Rightarrow> client" where
  "fail_pending_requests st =
    st\<lparr>futures := (\<lambda>n. if n \<in> ran (pending_requests st) \<and> futures st n = Some Waiting then Some Disconnected else futures st n)\<rparr>"

text \<open>The end of the listening loop: \<open>_prepare_disconnect\<close> and \<open>_cancel_event_tasks\<close>.\<close>

definition disconnect :: "client \<Rightarrow> client" where
  "disconnect st = (fail_pending_requests st)\<lparr>connected := False, client_buffer := [], event_queue := [], worker := False\<rparr>"

definition connect :: "client \<Rightarrow> client" where
  "connect st = st\<lparr>connected := True, event_queue := [], worker := False, accepted := [], delivered := []\<rparr>"

section \<open>Responses and events\<close>

text \<open>\<open>None\<close>: the queue is full, which ends the connection.\<close>

definition dispatch_event :: "daemon_event \<Rightarrow> client \<Rightarrow> client option" where
  "dispatch_event ev st =
    (if MAX_PENDING_EVENTS \<le> length (event_queue st) then None
     else Some (st\<lparr>event_queue := event_queue st @ [ev], worker := True, accepted := accepted st @ [ev]\<rparr>))"

text \<open>What an event message holds; anything else is logged and ignored.\<close>

definition event_of :: "(json \<Rightarrow> json) \<Rightarrow> Response \<Rightarrow> daemon_event option" where
  "event_of preprocess resp =
    (case json_object (resp_data resp) of
       None \<Rightarrow> None
     | Some d \<Rightarrow> map_option (\<lambda>c. (c, preprocess (json_get_default d ''data'' (JObject [])))) (command_type (json_get d ''command'')))"

text \<open>The id of a pending request; a list or an object cannot be looked up and raises.\<close>

definition pending_future :: "json \<Rightarrow> client \<Rightarrow> nat option option" where
  "pending_future request_id st =
    (if \<not> json_truthy request_id then Some None
     else case request_id of
            JString s \<Rightarrow> Some (pending_requests st s)
          | JList xs \<Rightarrow> None
          | JObject kvs \<Rightarrow> None
          | _ \<Rightarrow> Some None)"

definition handle_response :: "(json \<Rightarrow> json) \<Rightarrow> Response \<Rightarrow> client \<Rightarrow> client option" where
  "handle_response preprocess resp st =
    (case pending_future (resp_request_id resp) st of
       None \<Rightarrow> None
     | Some (Some n) \<Rightarrow>
         Some (if futures st n = Some Waiting then st\<lparr>futures := (futures st)(n \<mapsto> Result resp)\<rparr> else st)
     | Some None \<Rightarrow>
         if status resp = JString ''event''
         then (case event_of preprocess resp of None \<Rightarrow> Some st | Some ev \<Rightarrow> dispatch_event ev st)
         else Some st)"

text \<open>One round of the listening loop over the buffer.  An exception ends the loop and with it the connection.\<close>

definition listen_round :: "json_text \<Rightarrow> (json \<Rightarrow> json) \<Rightarrow> client \<Rightarrow> client" where
  "listen_round env preprocess st =
    (case decode_response env (client_buffer st) of
       (None, remaining) \<Rightarrow> st\<lparr>client_buffer := remaining\<rparr>
     | (Some resp, remaining) \<Rightarrow>
         (case handle_response preprocess resp (st\<lparr>client_buffer := remaining\<rparr>) of None \<Rightarrow> disconnect st | Some st' \<Rightarrow> st'))"

definition drain_event_queue :: "client \<Rightarrow> client" where
  "drain_event_queue st =
    (case event_queue st of
       [] \<Rightarrow> st\<lparr>worker := False\<rparr>
     | ev # evs \<Rightarrow> st\<lparr>event_queue := evs, delivered := delivered st @ [ev]\<rparr>)"

datatype client_event =
    CConnect
  | CSend Command
  | CFinish nat
  | CChunk "byte list"
  | CRound
  | CWorker
  | CEnd

fun client_step :: "json_text \<Rightarrow> (json \<Rightarrow> json) \<Rightarrow> client \<Rightarrow> client_event \<Rightarrow> client" where
  "client_step env preprocess st CConnect = connect st"
| "client_step env preprocess st (CSend cmd) = snd (send_command cmd st)"
| "client_step env preprocess st (CFinish n) = finish_request n st"
| "client_step env preprocess st (CChunk data) = st\<lparr>client_buffer := client_buffer st @ data\<rparr>"
| "client_step env preprocess st CRound = listen_round env preprocess st"
| "client_step env preprocess st CWorker = drain_event_queue st"
| "client_step env preprocess st CEnd = disconnect st"

fun client_guard :: "client \<Rightarrow> client_event \<Rightarrow> bool" where
  "client_guard st CConnect = (\<not> connected st)"
| "client_guard st (CFinish n) = (pending_requests st (nat_text n) = Some n)"
| "client_guard st (CChunk data) = connected st"
| "client_guard st CRound = connected st"
| "client_guard st CWorker = worker st"
| "client_guard st CEnd = connected st"
| "client_guard st e = True"

section \<open>Invariant\<close>

definition client_inv :: "client \<Rightarrow> bool" where
  "client_inv st \<longleftrightarrow> (\<forall>s n. pending_requests st s = Some n \<longrightarrow> s = nat_text n \<and> n \<le> request_counter st \<and> futures st n \<noteq> None)
     \<and> (\<forall>n. futures st n \<noteq> None \<longrightarrow> n \<le> request_counter st)
     \<and> (\<forall>n. futures st n = Some Waiting \<longrightarrow> connected st \<and> pending_requests st (nat_text n) = Some n)
     \<and> (\<forall>n r. futures st n = Some (Result r) \<longrightarrow> resp_request_id r = JString (nat_text n))
     \<and> length (event_queue st) \<le> MAX_PENDING_EVENTS
     \<and> (connected st \<longrightarrow> accepted st = delivered st @ event_queue st)
     \<and> (event_queue st \<noteq> [] \<longrightarrow> worker st)
     \<and> (\<not> connected st \<longrightarrow> event_queue st = [])"

text \<open>A future that is done stays as it is.\<close>

definition done_kept :: "client \<Rightarrow> client \<Rightarrow> bool" where
  "done_kept st st' \<longleftrightarrow> (\<forall>n f. futures st n = Some f \<and> f \<noteq> Waiting \<longrightarrow> futures st' n = Some f)"

lemma nat_text_inject [simp]: "nat_text m = nat_text n \<longleftrightarrow> m = n"
  by (metis digits_value_nat_text option.inject)

lemma client_inv_futures:
  assumes "client_inv st"
  shows "pending_requests st s = Some n \<Longrightarrow> s = nat_text n \<and> n \<le> request_counter st \<and> futures st n \<noteq> None"
    and "futures st n = Some Waiting \<Longrightarrow> connected st \<and> pending_requests st (nat_text n) = Some n"
    and "futures st n = Some f \<Longrightarrow> n \<le> request_counter st"
    and "futures st n = Some (Result r) \<Longrightarrow> resp_request_id r = JString (nat_text n)"
  using assms by (auto simp: client_inv_def)

lemma client_inv_buffer [simp]: "client_inv (st\<lparr>client_buffer := b\<rparr>) = client_inv st"
  by (simp add: client_inv_def)

lemma done_kept_refl [simp]: "done_kept st st" and done_kept_buffer [simp]: "done_kept st (st'\<lparr>client_buffer := b\<rparr>) = done_kept st st'"
  by (simp_all add: done_kept_def)

lemma done_kept_trans: "done_kept st st' \<Longrightarrow> done_kept st' st'' \<Longrightarrow> done_kept st st''"
  by (simp add: done_kept_def)

lemma send_command_inv:
  assumes inv: "client_inv st" shows "client_inv (snd (send_command cmd st)) \<and> done_kept st (snd (send_command cmd st))"
proof (cases "connected st")
  case True
  have new: "futures st (Suc (request_counter st)) = None"
    using client_inv_futures(3) [OF inv, of "Suc (request_counter st)"] by fastforce
  have "client_inv (snd (send_command cmd st))"
    using inv True by (auto simp: client_inv_def send_command_def Let_def le_Suc_eq split: if_splits)
  moreover have "done_kept st (snd (send_command cmd st))" using new True by (auto simp: done_kept_def send_command_def Let_def)
  ultimately show ?thesis ..
qed (use inv in \<open>simp add: send_command_def\<close>)

lemma finish_request_inv:
  assumes inv: "client_inv st" shows "client_inv (finish_request n st) \<and> done_kept st (finish_request n st)"
  using inv by (auto simp: client_inv_def finish_request_def done_kept_def split: if_splits)

lemma disconnect_inv:
  assumes inv: "client_inv st" shows "client_inv (disconnect st) \<and> done_kept st (disconnect st)"
proof -
  have "n \<in> ran (pending_requests st)" if "futures st n = Some Waiting" for n
    using client_inv_futures(2) [OF inv that] by (auto simp: ran_def)
  then show ?thesis
    using inv by (auto simp: client_inv_def disconnect_def fail_pending_requests_def done_kept_def split: if_splits)
qed

lemma dispatch_event_inv:
  assumes inv: "client_inv st" and "dispatch_event ev st = Some st'" and "connected st"
  shows "client_inv st' \<and> done_kept st st'"
  using assms by (auto simp: client_inv_def dispatch_event_def done_kept_def not_le Suc_le_eq split: if_splits)

lemma handle_response_inv:
  assumes inv: "client_inv st" and h: "handle_response preprocess resp st = Some st'" and on: "connected st"
  shows "client_inv st' \<and> done_kept st st'"
proof -
  obtain p where p: "pending_future (resp_request_id resp) st = Some p"
    using h by (auto simp: handle_response_def split: option.splits)
  show ?thesis
  proof (cases p)
    case None
    then show ?thesis
      using h p inv dispatch_event_inv [OF inv _ on] by (auto simp: handle_response_def split: if_splits option.splits)
  next
    case (Some n)
    then obtain s where s: "resp_request_id resp = JString s" "pending_requests st s = Some n"
      using p by (auto simp: pending_future_def split: if_splits json.splits)
    then have "s = nat_text n" using client_inv_futures(1) [OF inv] by blast
    moreover have st': "st' = (if futures st n = Some Waiting then st\<lparr>futures := (futures st)(n \<mapsto> Result resp)\<rparr> else st)"
      using h p Some by (simp add: handle_response_def)
    ultimately show ?thesis
      using inv s(1) by (auto simp: client_inv_def done_kept_def split: if_splits)
  qed
qed

lemma listen_round_inv:
  assumes inv: "client_inv st" and on: "connected st"
  shows "client_inv (listen_round env preprocess st) \<and> done_kept st (listen_round env preprocess st)"
proof -
  obtain m remaining where dec: "decode_response env (client_buffer st) = (m, remaining)" by fastforce
  show ?thesis
  proof (cases m)
    case None
    then show ?thesis using dec inv by (simp add: listen_round_def)
  next
    case (Some resp)
    let ?st = "st\<lparr>client_buffer := remaining\<rparr>"
    have "client_inv ?st" "connected ?st" using inv on by simp_all
    note h = handle_response_inv [OF this(1) _ this(2)]
    have "done_kept st st'" if "done_kept ?st st'" for st' using that by (simp add: done_kept_def)
    then show ?thesis
      using dec Some h disconnect_inv [OF inv] by (auto simp: listen_round_def split: option.split)
  qed
qed

lemma drain_event_queue_inv:
  assumes inv: "client_inv st" and "worker st" shows "client_inv (drain_event_queue st) \<and> done_kept st (drain_event_queue st)"
  using assms by (auto simp: client_inv_def drain_event_queue_def done_kept_def split: list.split)

lemma client_step_inv:
  assumes inv: "client_inv st" and ok: "client_guard st e"
  shows "client_inv (client_step env preprocess st e) \<and> done_kept st (client_step env preprocess st e)"
proof (cases e)
  case CConnect
  then show ?thesis using inv ok by (auto simp: connect_def client_inv_def done_kept_def)
qed (use inv ok send_command_inv finish_request_inv disconnect_inv listen_round_inv drain_event_queue_inv in simp_all)

interpretation requests: inv_machine new_client client_guard "client_step env preprocess" client_inv for env preprocess
  by unfold_locales (simp_all add: client_step_inv, simp add: client_inv_def new_client_def)

lemma done_kept_run:
  "client_inv st \<Longrightarrow> guarded_run client_guard (client_step env preprocess) st es \<Longrightarrow>
    done_kept st (run_steps (client_step env preprocess) st es)"
proof (induction es arbitrary: st)
  case (Cons e es)
  then have step: "client_inv (client_step env preprocess st e)" "done_kept st (client_step env preprocess st e)"
    using client_step_inv [of st e] by simp_all
  then show ?case using Cons.IH [OF step(1)] Cons.prems(2) done_kept_trans by fastforce
qed simp

section \<open>Properties\<close>

text \<open>C16. In every run of the client a request gets at most one outcome, which stays: the response with its own id,
  a timeout, or the loss of the connection.  No request waits on a lost connection, at most 256 events are queued,
  and on a connection events are handled in the order they were accepted, none lost or doubled.\<close>

theorem requests_get_their_response:
  assumes run: "guarded_run client_guard (client_step env preprocess) new_client (es @ later)"
    and st: "st = run_steps (client_step env preprocess) new_client es"
    and st': "st' = run_steps (client_step env preprocess) new_client (es @ later)"
  shows "(\<forall>n r. futures st n = Some (Result r) \<longrightarrow> resp_request_id r = JString (nat_text n))
    \<and> (\<forall>n f. futures st n = Some f \<and> f \<noteq> Waiting \<longrightarrow> futures st' n = Some f)
    \<and> (\<not> connected st \<longrightarrow> (\<forall>n. futures st n \<noteq> Some Waiting))
    \<and> length (event_queue st) \<le> MAX_PENDING_EVENTS
    \<and> (connected st \<longrightarrow> accepted st = delivered st @ event_queue st)"
proof -
  have inv: "client_inv st" unfolding st by (rule requests.inv_run) (use run in simp)
  moreover have "done_kept st st'" unfolding st' run_steps_append st [symmetric]
    by (rule done_kept_run [OF inv]) (use run st in simp)
  ultimately show ?thesis by (auto simp: client_inv_def done_kept_def)
qed

text \<open>Two requests answered in the other order, an event between them, and a third request that is cut off.\<close>

definition pong :: "nat \<Rightarrow> Response" where
  "pong n = \<lparr>status = JString ''ok'', resp_data = JInt (int n), error = JNull, resp_request_id = JString (nat_text n)\<rparr>"

definition notice :: Response where
  "notice = \<lparr>status = JString ''event'', resp_data = JObject [(''command'', JString ''profiles_changed'')], error = JNull,
     resp_request_id = JNull\<rparr>"

definition demo_responses :: json_text where
  "demo_responses = \<lparr>dumps = (\<lambda>v. []), loads = (\<lambda>bs. if bs = [1] then Some (response_payload (pong 1))
     else if bs = [2] then Some (response_payload (pong 2)) else if bs = [3] then Some (response_payload notice) else None)\<rparr>"

definition demo_client_run :: "client_event list" where
  "demo_client_run = [CConnect, CSend ping, CSend ping, CChunk [0, 0, 0, 1, 2, 0, 0, 0, 1, 3, 0], CRound, CRound, CRound,
     CFinish 2, CWorker, CChunk [0, 0, 1, 1], CRound, CSend ping]"

definition demo_client_end :: "client_event list" where
  "demo_client_end = [CFinish 1, CEnd]"

lemma response_of_payload: "Option.bind (json_object (response_payload resp)) response_of = Some resp"
  by (simp add: response_payload_def response_of_def json_get_def)

lemma demo_responses_decoded:
  "decode_response demo_responses [0, 0, 0, 1, 2, 0, 0, 0, 1, 3, 0] = (Some (pong 2), [0, 0, 0, 1, 3, 0])"
  "decode_response demo_responses [0, 0, 0, 1, 3, 0] = (Some notice, [0])"
  "decode_response demo_responses [0] = (None, [0])" "decode_response demo_responses [0, 0, 0, 1, 1] = (Some (pong 1), [])"
  by (simp_all add: decode_response_def decode_message_def decode_frame_payload_def HEADER_SIZE_def MAX_PAYLOAD_SIZE_def
      unpack_length_def demo_responses_def response_of_payload)

lemma demo_id_texts [simp]: "nat_text 1 = ''1''" "nat_text 2 = ''2''" "nat_text 3 = ''3''" "nat_text (Suc 0) = ''1''"
  "nat_text (Suc (Suc 0)) = ''2''" "nat_text (Suc (Suc (Suc 0))) = ''3''"
  by (code_simp)+

lemmas demo_client_simps = new_client_def connect_def send_command_def finish_request_def listen_round_def handle_response_def
  pending_future_def demo_responses_decoded pong_def notice_def event_of_def dispatch_event_def drain_event_queue_def
  MAX_PENDING_EVENTS_def COMMAND_TYPES_def json_get_def json_get_default_def disconnect_def fail_pending_requests_def Let_def

lemma demo_client_guarded:
  "guarded_run client_guard (client_step demo_responses (\<lambda>x. x)) new_client (demo_client_run @ demo_client_end)"
  by (simp add: demo_client_run_def demo_client_end_def demo_client_simps)

definition demo_client :: client where
  "demo_client = run_steps (client_step demo_responses (\<lambda>x. x)) new_client demo_client_run"

lemma demo_client_state:
  "futures demo_client 1 = Some (Result (pong 1))" "futures demo_client 2 = Some (Result (pong 2))"
  "futures demo_client 3 = Some Waiting" "delivered demo_client = [(''profiles_changed'', JObject [])]"
  "event_queue demo_client = []" "connected demo_client"
  by (simp_all add: demo_client_def demo_client_run_def demo_client_simps eval_nat_numeral)

theorem requests_get_their_response_witness:
  "futures demo_client 2 = Some (Result (pong 2)) \<and> futures demo_client 3 = Some Waiting
    \<and> futures (run_steps (client_step demo_responses (\<lambda>x. x)) new_client (demo_client_run @ demo_client_end)) 2 = Some (Result (pong 2))
    \<and> accepted demo_client = [(''profiles_changed'', JObject [])]"
  using requests_get_their_response [OF demo_client_guarded demo_client_def refl] demo_client_state by simp

end
