(* ===== verification/Mask_Reservation.thy ===== *)
theory Mask_Reservation
  imports Prelude
begin

text \<open>
  Masking of input hardware: \<open>MaskReservation\<close> of \<open>masking/coordinator.py\<close> with the phases of \<open>common/masking.py\<close>.
  A reservation takes a device away from other programs: first as a trial that the user has to confirm, and then,
  if the user wishes, automatically at every start.

  The handlers run one after the other under the operation lock and are single steps; the activation task, which
  runs beside them, has steps of its own.  What the hardware and the clock answer comes with a step.  Files of the
  reservation are fields: \<open>suspended\<close> holds the reason it was stopped, \<open>journal\<close> tells whether there is something
  to recover.  Writing files does not fail.  The files \<open>policy.json\<close> and \<open>selection.json\<close> are fields too: what a new process
  reads (\<open>initialize\<close>).  The data shown to users only (names, nodes, presence times) are left out.
\<close>

section \<open>Phases and state\<close>

datatype MaskPhase = UNMASKED | APPLYING | ACQUIRING | TRIAL | MASKED | RESTORING | RESTORED | RECOVERY_FAILED

definition is_active :: "MaskPhase \<Rightarrow> bool" where
  "is_active p \<longleftrightarrow> p \<in> {APPLYING, ACQUIRING, TRIAL, MASKED}"

definition is_recovering :: "MaskPhase \<Rightarrow> bool" where
  "is_recovering p \<longleftrightarrow> p \<in> {RESTORING, RECOVERY_FAILED}"

definition TRIAL_SECONDS :: rat where "TRIAL_SECONDS = 30"

definition ACTIVATION_SECONDS :: rat where "ACTIVATION_SECONDS = 75 + 15"

definition INITIAL_RETRY_DELAY_S :: rat where "INITIAL_RETRY_DELAY_S = 2"

definition MAX_RETRY_DELAY_S :: rat where "MAX_RETRY_DELAY_S = 60"

record attachment =
  att_identity :: string
  att_usb :: bool
  att_supported :: bool
  att_roles :: "string list"

record mask_policy =
  policy_id :: string
  policy_owner :: nat
  policy_persist :: bool
  policy_usb_selector :: bool

text \<open>The activation task: none, waiting for the readers to quiesce or working, for a new mask or a refresh.\<close>

datatype apply_task = NoTask | Activating bool | Refreshing bool

text \<open>What \<open>selection.json\<close> keeps of the state of a reservation.\<close>

record saved_selection =
  sel_token :: nat
  sel_automatic :: bool
  sel_error :: string
  sel_reason :: "string option"
  sel_is_usb :: bool
  sel_usb_selector :: bool
  sel_endpoint_roles :: "string list option"
  sel_quiesce_required :: bool

record reservation =
  phase :: MaskPhase
  identity :: string
  session_uid :: "nat option"
  policy :: "mask_policy option"
  token :: nat
  automatic :: bool
  error :: string
  reason :: "string option"
  is_usb :: bool
  usb_selector :: bool
  endpoint_roles :: "string list option"
  quiesce_required :: bool
  quiesced :: bool
  activation_deadline :: rat
  confirmation_deadline :: "rat option"
  apply_task :: apply_task
  suspended :: "string option"
  journal :: bool
  armed :: bool
  present :: "bool option"
  next_attempt :: "rat option"
  retry_delay :: rat
  attention :: string
  reconcile_requested :: bool
  policy_file :: "mask_policy option"
  selection :: "saved_selection option"

text \<open>A reservation as its constructor leaves it, without files.\<close>

definition new_reservation :: "string \<Rightarrow> reservation" where
  "new_reservation ident = \<lparr>phase = UNMASKED, identity = ident, session_uid = None, policy = None, token = 0, automatic = False,
     error = [], reason = None, is_usb = False, usb_selector = False, endpoint_roles = None, quiesce_required = False,
     quiesced = False, activation_deadline = 0, confirmation_deadline = None, apply_task = NoTask, suspended = None,
     journal = False, armed = False, present = None, next_attempt = Some 0, retry_delay = INITIAL_RETRY_DELAY_S, attention = [],
     reconcile_requested = False, policy_file = None, selection = None\<rparr>"

definition save_selection :: "reservation \<Rightarrow> reservation" where
  "save_selection st =
    st\<lparr>selection := Some \<lparr>sel_token = token st, sel_automatic = automatic st, sel_error = error st, sel_reason = reason st,
      sel_is_usb = is_usb st, sel_usb_selector = usb_selector st, sel_endpoint_roles = endpoint_roles st,
      sel_quiesce_required = quiesce_required st\<rparr>\<rparr>"

definition CLEAN_REASONS :: "string set" where
  "CLEAN_REASONS = {''lifecycle_stop'', ''service_stopped''}"

definition INCOMPLETE_CODES :: "string set" where
  "INCOMPLETE_CODES = {''selector_missing'', ''selector_invalid''}"

section \<open>Policy\<close>

definition owned :: "reservation \<Rightarrow> mask_policy \<Rightarrow> bool" where
  "owned st p \<longleftrightarrow> session_uid st = Some (policy_owner p)"

text \<open>\<open>None\<close> is the \<open>ValueError\<close>.\<close>

definition save_policy :: "bool \<Rightarrow> reservation \<Rightarrow> reservation option" where
  "save_policy persist st =
    (case session_uid st of
       None \<Rightarrow> None
     | Some uid \<Rightarrow>
         (let p = \<lparr>policy_id = identity st, policy_owner = uid, policy_persist = persist,
            policy_usb_selector = (usb_selector st \<or> (\<exists>p \<in> set_option (policy st). policy_usb_selector p))\<rparr>
          in Some (st\<lparr>policy := Some p, policy_file := Some p\<rparr>)))"

definition reset_backoff :: "reservation \<Rightarrow> reservation" where
  "reset_backoff st =
    st\<lparr>next_attempt := Some 0, retry_delay := INITIAL_RETRY_DELAY_S, attention := [],
       error := (if attention st \<noteq> [] \<and> \<not> is_active (phase st) then [] else error st)\<rparr>"

text \<open>No next attempt stands for the one at infinity.\<close>

definition defer_automatic_start :: "string \<Rightarrow> string \<Rightarrow> rat \<Rightarrow> reservation \<Rightarrow> reservation" where
  "defer_automatic_start code message now st =
    (let code' = (if code = [] then ''automatic_start_failed'' else code);
         st1 = st\<lparr>attention := code', error := message\<rparr>
     in if code' \<in> INCOMPLETE_CODES then st1\<lparr>next_attempt := None\<rparr>
        else st1\<lparr>next_attempt := Some (now + retry_delay st), retry_delay := min (retry_delay st * 2) MAX_RETRY_DELAY_S\<rparr>)"

section \<open>Deadlines\<close>

definition deadline :: "reservation \<Rightarrow> rat" where
  "deadline st =
    (case confirmation_deadline st of
       None \<Rightarrow> activation_deadline st
     | Some d \<Rightarrow> if phase st = TRIAL then d else min (activation_deadline st) d)"

definition activation_timed_out :: "rat \<Rightarrow> reservation \<Rightarrow> bool" where
  "activation_timed_out now st \<longleftrightarrow> phase st \<in> {APPLYING, ACQUIRING} \<and> activation_deadline st \<le> now
     \<and> (\<forall>d \<in> set_option (confirmation_deadline st). activation_deadline st < d)"

section \<open>Restoring access\<close>

text \<open>
  What the backend's recovery comes to: \<open>None\<close> if it restored the hardware, and otherwise the message of its error with
  what is left then of the journal and the rules.
\<close>

type_synonym recovery = "(string \<times> bool \<times> bool) option"

definition restore :: "string \<Rightarrow> recovery \<Rightarrow> reservation \<Rightarrow> reservation" where
  "restore wanted recovered st =
    (let why = (if wanted \<in> CLEAN_REASONS \<and> phase st = RECOVERY_FAILED
                then (case reason st of None \<Rightarrow> wanted | Some r \<Rightarrow> r) else wanted);
         had_mask = (is_active (phase st) \<or> journal st \<or> armed st \<or> is_recovering (phase st));
         clean = (why \<in> CLEAN_REASONS);
         keep_rules = (why \<in> {''hardware_disconnected'', ''hardware_interfaces_changed''} \<and> is_usb st
           \<and> (\<exists>p \<in> set_option (policy st). policy_persist p \<and> owned st p \<and> policy_usb_selector p));
         interrupted_trial = (had_mask \<and> phase st \<noteq> MASKED \<and> \<not> automatic st);
         st1 = st\<lparr>reconcile_requested := True,
                  suspended := (if \<not> keep_rules \<and> (\<not> clean \<or> interrupted_trial) then Some why else suspended st)\<rparr>
     in if \<not> had_mask then (if clean then st1 else save_selection (st1\<lparr>phase := RESTORED, reason := Some why\<rparr>))
        else let st2 = st1\<lparr>reason := Some why, apply_task := NoTask\<rparr>
             in case recovered of
                  Some (message, journal', armed') \<Rightarrow>
                    st2\<lparr>phase := RECOVERY_FAILED, error := message, journal := journal', armed := armed'\<rparr>
                | None \<Rightarrow> save_selection (st2\<lparr>phase := RESTORED, journal := False, armed := keep_rules,
                             suspended := (if suspended st2 = Some ''recovery_failed'' then Some why else suspended st2)\<rparr>))"

definition restore_if_expired :: "rat \<Rightarrow> recovery \<Rightarrow> reservation \<Rightarrow> bool \<times> reservation" where
  "restore_if_expired now recovered st =
    (if phase st = MASKED \<or> now < deadline st then (False, st)
     else let st1 = (if activation_timed_out now st
                     then st\<lparr>error := ''Device input did not become ready before activation timed out''\<rparr> else st)
          in (True, restore ''trial_expired'' recovered st1))"

section \<open>Requests\<close>

text \<open>\<open>_mask\<close>: the attachment that was resolved and validated, if any, and the new token.\<close>

definition mask_request :: "attachment option \<Rightarrow> bool \<Rightarrow> nat \<Rightarrow> rat \<Rightarrow> reservation \<Rightarrow> reservation option" where
  "mask_request found persist new_token now st =
    (if is_active (phase st) \<or> journal st then None
     else case found of
            None \<Rightarrow> None
          | Some a \<Rightarrow>
              (let confirmed = (persist \<and> (\<exists>p \<in> set_option (policy st). policy_id p = att_identity a \<and> owned st p));
                   st1 = reset_backoff (st\<lparr>present := Some True\<rparr>)
               in case (if confirmed then save_policy True st1 else Some st1) of
                    None \<Rightarrow> None
                  | Some st2 \<Rightarrow>
                      Some (st2\<lparr>suspended := None, phase := APPLYING, identity := att_identity a, token := new_token,
                        automatic := confirmed, error := [], reason := None, is_usb := att_usb a, usb_selector := att_usb a,
                        endpoint_roles := None, quiesce_required := True, quiesced := False,
                        activation_deadline := now + ACTIVATION_SECONDS, confirmation_deadline := None,
                        apply_task := Activating False\<rparr>)))"

definition quiesced_request :: "nat \<Rightarrow> rat \<Rightarrow> reservation \<Rightarrow> reservation option" where
  "quiesced_request tok now st =
    (if deadline st \<le> now \<or> phase st \<noteq> APPLYING \<or> tok \<noteq> token st then None
     else Some (st\<lparr>quiesce_required := False, quiesced := True\<rparr>))"

text \<open>
  \<open>_confirm\<close>: \<open>keep\<close> of a trial with the wish to persist, or \<open>ready\<close> (\<open>None\<close>).  The second look at the phase, after the
  policy is written, comes to the same as the first: the operation lock is held.
\<close>

definition confirm_request :: "bool option \<Rightarrow> nat \<Rightarrow> rat \<Rightarrow> reservation \<Rightarrow> reservation option" where
  "confirm_request keep tok now st =
    (if tok \<noteq> token st \<or> \<not> is_active (phase st) \<or> deadline st \<le> now then None
     else if phase st \<noteq> (if keep = None then ACQUIRING else TRIAL) then None
     else case (case keep of None \<Rightarrow> Some st | Some persist \<Rightarrow> save_policy persist st) of
            None \<Rightarrow> None
          | Some st1 \<Rightarrow>
              (let p = (if keep \<noteq> None \<or> automatic st1 then MASKED else TRIAL);
                   st2 = st1\<lparr>phase := p,
                            confirmation_deadline := (if p = TRIAL \<and> confirmation_deadline st1 = None
                              then Some (now + TRIAL_SECONDS) else confirmation_deadline st1)\<rparr>
               in if p = MASKED
                  then map_option save_selection
                    (if automatic st2 then (case policy st2 of None \<Rightarrow> Some st2 | Some pol \<Rightarrow> save_policy (policy_persist pol) st2)
                     else Some st2)
                  else Some st2))"

definition persistence_request :: "string \<Rightarrow> nat \<Rightarrow> bool \<Rightarrow> reservation \<Rightarrow> reservation option" where
  "persistence_request ident tok persist st =
    (if is_active (phase st) \<and> (phase st \<noteq> MASKED \<or> tok \<noteq> token st) then None
     else if \<not> is_active (phase st) \<and> (\<forall>p \<in> set_option (policy st). policy_id p \<noteq> ident) then None
     else if \<exists>p \<in> set_option (policy st). \<not> owned st p then None
     else save_policy persist st)"

text \<open>A stop that also turns the automatic start off, where the policy is the user's.\<close>

definition stop_persisting :: "reservation \<Rightarrow> reservation option" where
  "stop_persisting st = (if \<exists>p \<in> set_option (policy st). owned st p then save_policy False st else Some st)"

definition resume_request :: "reservation \<Rightarrow> reservation option" where
  "resume_request st =
    (if is_active (phase st) \<or> journal st then None else Some (st\<lparr>suspended := None, reconcile_requested := True\<rparr>))"

section \<open>Automatic start\<close>

text \<open>What arming the rules of a disconnected USB device comes to: an error code, or whether they are armed.\<close>

definition arm_saved_usb ::
  "bool \<Rightarrow> bool \<Rightarrow> (string \<times> string) option \<Rightarrow> mask_policy \<Rightarrow> reservation \<Rightarrow> string \<times> string + reservation"
where
  "arm_saved_usb is_present selector_available install p st =
    (if \<not> policy_usb_selector p \<or> armed st then Inr st
     else if \<not> selector_available
     then (if is_present then Inr st else Inl (''selector_missing'', ''This saved mask has no root-recorded selector''))
     else case install of Some failure \<Rightarrow> Inl failure | None \<Rightarrow> Inr (st\<lparr>armed := True\<rparr>))"

definition autostart ::
  "attachment list \<Rightarrow> bool \<Rightarrow> (string \<times> string) option \<Rightarrow> bool \<Rightarrow> nat \<Rightarrow> rat \<Rightarrow> reservation \<Rightarrow> reservation"
where
  "autostart attachments selector_available install resolves new_token now st0 =
    (let st = st0\<lparr>reconcile_requested := False\<rparr>
     in case policy st of
          None \<Rightarrow> st
        | Some p \<Rightarrow>
            if is_active (phase st) \<or> journal st \<or> \<not> policy_persist p \<or> \<not> owned st p
              \<or> (\<exists>r \<in> set_option (suspended st). r \<notin> CLEAN_REASONS) then st
            else (let attachment = find (\<lambda>a. att_identity a = policy_id p) attachments;
                      is_present = (case attachment of None \<Rightarrow> False | Some a \<Rightarrow> att_supported a);
                      st1 = st\<lparr>suspended := None\<rparr>;
                      st2 = (if Some is_present \<noteq> present st1 then reset_backoff (st1\<lparr>present := Some is_present\<rparr>) else st1)
                  in case next_attempt st2 of
                       None \<Rightarrow> st2
                     | Some t \<Rightarrow>
                         if now < t then st2
                         else (case arm_saved_usb is_present selector_available install p st2 of
                                 Inl (code, message) \<Rightarrow> defer_automatic_start code message now st2
                               | Inr st3 \<Rightarrow>
                                   if \<not> is_present then reset_backoff st3
                                   else (case mask_request (if resolves then attachment else None) False new_token now st3 of
                                           None \<Rightarrow> defer_automatic_start [] ''The attachment changed'' now st3
                                         | Some st4 \<Rightarrow> reset_backoff (st4\<lparr>automatic := True\<rparr>)))))"

section \<open>Monitoring\<close>

definition refresh_interfaces :: "nat \<Rightarrow> rat \<Rightarrow> reservation \<Rightarrow> reservation" where
  "refresh_interfaces new_token now st =
    (let st1 = (if phase st \<in> {MASKED, TRIAL} then st\<lparr>activation_deadline := now + ACTIVATION_SECONDS\<rparr> else st);
         st2 = (if phase st = MASKED \<or> automatic st then st1\<lparr>automatic := True, confirmation_deadline := None\<rparr> else st1)
     in st2\<lparr>phase := APPLYING, quiesce_required := True, quiesced := False, token := new_token, apply_task := Refreshing False\<rparr>)"

definition bus_roles :: "string list \<Rightarrow> string set" where
  "bus_roles roles = {r \<in> set roles. r = ''usb'' \<or> drop (length r - 7) r = '':hidraw''}"

definition can_refresh_interfaces :: "attachment \<Rightarrow> reservation \<Rightarrow> bool" where
  "can_refresh_interfaces a st \<longleftrightarrow>
    att_usb a \<and> bus_roles (case endpoint_roles st of None \<Rightarrow> [] | Some rs \<Rightarrow> rs) = bus_roles (att_roles a)"

text \<open>One round of the monitor: \<open>due\<close> tells whether the hardware is looked at, \<open>found\<close> what is there.\<close>

definition monitor_once ::
  "bool \<Rightarrow> attachment option \<Rightarrow> nat \<Rightarrow> recovery \<Rightarrow> rat \<Rightarrow> reservation \<Rightarrow> reservation"
where
  "monitor_once due found new_token recovered now st =
    (if phase st = RECOVERY_FAILED then restore (case reason st of None \<Rightarrow> ''retry'' | Some r \<Rightarrow> r) recovered st
     else if \<not> is_active (phase st) then st
     else if error st \<noteq> [] then restore ''activation_failed'' recovered st
     else case restore_if_expired now recovered st of
            (True, st1) \<Rightarrow> st1
          | (False, st1) \<Rightarrow>
              if phase st1 = APPLYING \<or> \<not> due then st1
              else (case found of
                      None \<Rightarrow> restore ''hardware_disconnected'' recovered st1
                    | Some a \<Rightarrow>
                        if endpoint_roles st1 \<noteq> None \<and> endpoint_roles st1 \<noteq> Some (att_roles a)
                        then if can_refresh_interfaces a st1 then refresh_interfaces new_token now st1
                             else restore ''hardware_interfaces_changed'' recovered st1
                        else st1))"

definition owner_disconnected :: "recovery \<Rightarrow> reservation \<Rightarrow> reservation" where
  "owner_disconnected recovered st =
    (if is_active (phase st) \<or> journal st \<or> armed st then restore ''daemon_disconnected'' recovered st else st)"

section \<open>The start of the daemon\<close>

text \<open>
  \<open>MaskCoordinator.initialize\<close> for one reservation: a new process has only the files.  \<open>unreadable\<close> is the message of
  the error when the policy or the selection cannot be loaded.
\<close>

definition load_selection :: "saved_selection option \<Rightarrow> reservation \<Rightarrow> reservation" where
  "load_selection saved st =
    (case saved of
       None \<Rightarrow> st
     | Some s \<Rightarrow> st\<lparr>token := sel_token s, automatic := sel_automatic s, error := sel_error s, reason := sel_reason s,
         is_usb := sel_is_usb s, usb_selector := sel_usb_selector s, endpoint_roles := sel_endpoint_roles s,
         quiesce_required := sel_quiesce_required s\<rparr>)"

definition pause_reason :: "reservation \<Rightarrow> string option \<Rightarrow> reservation \<Rightarrow> string" where
  "pause_reason loaded unreadable st =
    (let pause = (if unreadable \<noteq> None then ''invalid_saved_state'' else case suspended st of None \<Rightarrow> [] | Some r \<Rightarrow> r);
         pause1 = (if pause = ''recovery_failed''
                   then (case reason loaded of None \<Rightarrow> ''service_restart'' | Some r \<Rightarrow> if r = [] then ''service_restart'' else r)
                   else pause)
     in if pause1 = [] \<and> journal st then ''service_restart'' else pause1)"

definition initialize :: "string option \<Rightarrow> recovery \<Rightarrow> reservation \<Rightarrow> reservation" where
  "initialize unreadable recovered st =
    (let fresh = (new_reservation (identity st))\<lparr>phase := RESTORED, suspended := suspended st, journal := journal st,
                   armed := armed st, policy_file := policy_file st, selection := selection st\<rparr>;
         loaded = (case unreadable of
                     None \<Rightarrow> load_selection (selection st) (fresh\<lparr>policy := policy_file st\<rparr>)
                   | Some message \<Rightarrow> fresh\<lparr>error := message\<rparr>);
         pause = pause_reason loaded unreadable st;
         crashed = (unreadable = None \<and> (suspended st = None \<or> suspended st = Some []) \<and> journal st);
         suspended' = (if crashed then Some pause else suspended st)
     in case recovered of
          Some (message, journal', armed') \<Rightarrow>
            fresh\<lparr>policy := policy loaded, phase := RECOVERY_FAILED, error := message, suspended := suspended',
              reason := Some (if pause = [] then ''service_restart'' else pause), journal := journal', armed := armed'\<rparr>
        | None \<Rightarrow>
            if pause = [] then loaded\<lparr>journal := False, armed := False\<rparr>
            else loaded\<lparr>journal := False, armed := False, suspended := Some pause, reason := Some pause\<rparr>)"

section \<open>Steps\<close>

text \<open>
  The activation task starts when the readers are quiesced, has the backend write its journal and rules, and ends well
  or with an error.
\<close>

definition task_begins :: "reservation \<Rightarrow> reservation" where
  "task_begins st =
    (case apply_task st of
       Activating b \<Rightarrow> st\<lparr>apply_task := Activating True\<rparr>
     | Refreshing b \<Rightarrow> st\<lparr>apply_task := Refreshing True\<rparr>
     | NoTask \<Rightarrow> st)"

definition task_writes :: "bool \<Rightarrow> bool \<Rightarrow> reservation \<Rightarrow> reservation" where
  "task_writes journal' armed' st = st\<lparr>journal := journal', armed := armed'\<rparr>"

definition task_done :: "string list \<Rightarrow> reservation \<Rightarrow> reservation" where
  "task_done roles st = st\<lparr>phase := ACQUIRING, endpoint_roles := Some roles, apply_task := NoTask\<rparr>"

definition task_failed :: "string \<Rightarrow> rat \<Rightarrow> reservation \<Rightarrow> reservation" where
  "task_failed message now st = st\<lparr>error := message, activation_deadline := now, apply_task := NoTask\<rparr>"

text \<open>The coordinator marks a reservation before a task of its own restores it.\<close>

definition mark_restoring :: "string \<Rightarrow> reservation \<Rightarrow> reservation" where
  "mark_restoring why st = st\<lparr>phase := RESTORING, reason := Some why\<rparr>"

text \<open>
  A refresh is asked for by a request that looks at the phase and then waits for the operation lock; it is carried out,
  or given up, later.
\<close>

datatype mask_event =
    Initialize "string option" recovery
  | Startup nat
  | Autostart "attachment list" bool "(string \<times> string) option" bool nat
  | MaskRequest "attachment option" bool nat
  | Quiesced nat
  | Confirm "bool option" nat
  | Persistence string nat bool
  | StopPersisting
  | Resume
  | RefreshAsked
  | RefreshGivenUp
  | Refresh nat
  | Restore string recovery
  | MarkRestoring string
  | Monitor bool "attachment option" nat recovery
  | OwnerDisconnected recovery
  | TaskBegins
  | TaskWrites bool bool
  | TaskDone "string list"
  | TaskFailed string

text \<open>A request that is rejected leaves the reservation as it was.\<close>

definition unless_rejected :: "reservation \<Rightarrow> reservation option \<Rightarrow> reservation" where
  "unless_rejected st result = (case result of None \<Rightarrow> st | Some st' \<Rightarrow> st')"

fun mask_step :: "rat \<Rightarrow> mask_event \<Rightarrow> reservation \<Rightarrow> reservation" where
  "mask_step now (Initialize unreadable recovered) st = initialize unreadable recovered st"
| "mask_step now (Startup uid) st = st\<lparr>session_uid := Some uid\<rparr>"
| "mask_step now (Autostart attachments available install resolves new_token) st =
    autostart attachments available install resolves new_token now st"
| "mask_step now (MaskRequest found persist new_token) st = unless_rejected st (mask_request found persist new_token now st)"
| "mask_step now (Quiesced tok) st = unless_rejected st (quiesced_request tok now st)"
| "mask_step now (Confirm keep tok) st = unless_rejected st (confirm_request keep tok now st)"
| "mask_step now (Persistence ident tok persist) st = unless_rejected st (persistence_request ident tok persist st)"
| "mask_step now StopPersisting st = unless_rejected st (stop_persisting st)"
| "mask_step now Resume st = unless_rejected st (resume_request st)"
| "mask_step now RefreshAsked st = st"
| "mask_step now RefreshGivenUp st = st"
| "mask_step now (Refresh new_token) st = refresh_interfaces new_token now st"
| "mask_step now (Restore why recovered) st = restore why recovered st"
| "mask_step now (MarkRestoring why) st = mark_restoring why st"
| "mask_step now (Monitor due found new_token recovered) st = monitor_once due found new_token recovered now st"
| "mask_step now (OwnerDisconnected recovered) st = owner_disconnected recovered st"
| "mask_step now TaskBegins st = task_begins st"
| "mask_step now (TaskWrites journal' armed') st = task_writes journal' armed' st"
| "mask_step now (TaskDone roles) st = task_done roles st"
| "mask_step now (TaskFailed message) st = task_failed message now st"

end
