(* ===== verification/Mask_Invariant.thy ===== *)
theory Mask_Invariant
  imports Mask_Reservation
begin

text \<open>
  The runs of a reservation under the world's guards, and their invariants: the confirmation, the limits of a trial, and
  the stopped reservation.
\<close>

section \<open>Runs\<close>

text \<open>
  The reservation with the last clock reading, the time its mask began, whether a trial was ever kept, and whether a
  request to refresh the interfaces waits for the operation lock.
\<close>

record masking =
  res :: reservation
  seen :: rat
  started :: rat
  kept :: bool
  asked :: bool

type_synonym timed_event = "rat \<times> mask_event"

definition masks_anew :: "mask_event \<Rightarrow> bool" where
  "masks_anew e \<longleftrightarrow> (case e of MaskRequest found persist tok \<Rightarrow> True | Autostart as sa i r tok \<Rightarrow> True | _ \<Rightarrow> False)"

definition keeps :: "mask_event \<Rightarrow> bool" where
  "keeps e \<longleftrightarrow> (case e of Confirm (Some persist) tok \<Rightarrow> True | _ \<Rightarrow> False)"

definition ends_refresh :: "mask_event \<Rightarrow> bool" where
  "ends_refresh e \<longleftrightarrow> (case e of RefreshGivenUp \<Rightarrow> True | Refresh tok \<Rightarrow> True | Initialize unreadable recovered \<Rightarrow> True | _ \<Rightarrow> False)"

definition masking_step :: "masking \<Rightarrow> timed_event \<Rightarrow> masking" where
  "masking_step m te =
    (case te of (now, e) \<Rightarrow>
       let st = mask_step now e (res m)
       in \<lparr>res = st, seen = now,
           started = (if masks_anew e \<and> \<not> is_active (phase (res m)) \<and> is_active (phase st) then now else started m),
           kept = (kept m \<or> keeps e \<and> phase st = MASKED),
           asked = (if e = RefreshAsked then True else if ends_refresh e then False else asked m)\<rparr>)"

text \<open>
  What the world may do: the clock does not go back, the activation task takes its steps in order, only the monitor
  gives the hardware as a reason, and a clean stop waits, as the operation lock has it, for the recovery that a
  restoring mark announces.  A refresh looks at the phase when it is asked for, and while it waits for the operation
  lock the monitor, a recovery and the activation task go on, but no other request: they are taken one at a time
  (\<open>HardwareMasking.lock\<close>).
\<close>

definition is_request :: "mask_event \<Rightarrow> bool" where
  "is_request e \<longleftrightarrow> (case e of Startup uid \<Rightarrow> True | Autostart as sa i r tok \<Rightarrow> True | MaskRequest found persist tok \<Rightarrow> True
     | Quiesced tok \<Rightarrow> True | Confirm keep tok \<Rightarrow> True | Persistence ident tok persist \<Rightarrow> True | StopPersisting \<Rightarrow> True
     | Resume \<Rightarrow> True | MarkRestoring why \<Rightarrow> True | RefreshAsked \<Rightarrow> True | _ \<Rightarrow> False)"

definition HARDWARE_REASONS :: "string set" where
  "HARDWARE_REASONS = {''hardware_disconnected'', ''hardware_interfaces_changed''}"

definition begun :: "apply_task \<Rightarrow> bool" where
  "begun t \<longleftrightarrow> t = Activating True \<or> t = Refreshing True"

fun event_ok :: "reservation \<Rightarrow> mask_event \<Rightarrow> bool" where
  "event_ok st TaskBegins = (quiesced st \<and> apply_task st \<noteq> NoTask \<and> \<not> begun (apply_task st))"
| "event_ok st (TaskDone roles) = begun (apply_task st)"
| "event_ok st (TaskWrites journal' armed') = begun (apply_task st)"
| "event_ok st (TaskFailed message) = begun (apply_task st)"
| "event_ok st (MarkRestoring why) = (why = ''user_restore'' \<or> why = ''replacement_unavailable'')"
| "event_ok st (Restore why recovered) = (why \<notin> HARDWARE_REASONS \<and> why \<noteq> ''recovery_failed'' \<and> (why \<in> CLEAN_REASONS \<longrightarrow> phase st \<noteq> RESTORING))"
| "event_ok st RefreshAsked = (phase st \<in> {TRIAL, MASKED, ACQUIRING})"
| "event_ok st e = True"

definition is_initialize :: "mask_event \<Rightarrow> bool" where
  "is_initialize e \<longleftrightarrow> (case e of Initialize unreadable recovered \<Rightarrow> True | _ \<Rightarrow> False)"

definition masking_guard :: "masking \<Rightarrow> timed_event \<Rightarrow> bool" where
  "masking_guard m te \<longleftrightarrow> seen m \<le> fst te \<and> event_ok (res m) (snd te)
     \<and> (if asked m then \<not> is_request (snd te) else \<not> ends_refresh (snd te) \<or> is_initialize (snd te))"

definition new_masking :: "string \<Rightarrow> masking" where
  "new_masking ident = \<lparr>res = new_reservation ident, seen = 0, started = 0, kept = False, asked = False\<rparr>"

lemma is_active_simps [simp]:
  "is_active APPLYING" "is_active ACQUIRING" "is_active TRIAL" "is_active MASKED"
  "\<not> is_active UNMASKED" "\<not> is_active RESTORING" "\<not> is_active RESTORED" "\<not> is_active RECOVERY_FAILED"
  by (simp_all add: is_active_def)

section \<open>Confirmation\<close>

definition confirmed :: "reservation \<Rightarrow> bool" where
  "confirmed st \<longleftrightarrow> phase st = MASKED \<or> automatic st \<or> policy st \<noteq> None \<or> policy_file st \<noteq> None
     \<or> (\<exists>s \<in> set_option (selection st). sel_automatic s)"

lemma save_selection_fields [simp]:
  "phase (save_selection st) = phase st" "policy (save_selection st) = policy st" "automatic (save_selection st) = automatic st"
  "activation_deadline (save_selection st) = activation_deadline st" "apply_task (save_selection st) = apply_task st"
  "confirmation_deadline (save_selection st) = confirmation_deadline st" "suspended (save_selection st) = suspended st"
  "journal (save_selection st) = journal st" "armed (save_selection st) = armed st" "reason (save_selection st) = reason st"
  "session_uid (save_selection st) = session_uid st" "policy_file (save_selection st) = policy_file st"
  "selection (save_selection st) = Some \<lparr>sel_token = token st, sel_automatic = automatic st, sel_error = error st,
     sel_reason = reason st, sel_is_usb = is_usb st, sel_usb_selector = usb_selector st,
     sel_endpoint_roles = endpoint_roles st, sel_quiesce_required = quiesce_required st\<rparr>"
  by (simp_all add: save_selection_def)

lemma restore_fields [simp]:
  "policy_file (restore why recovered st) = policy_file st"
  "policy (restore why recovered st) = policy st" "automatic (restore why recovered st) = automatic st"
  "activation_deadline (restore why recovered st) = activation_deadline st"
  "confirmation_deadline (restore why recovered st) = confirmation_deadline st"
  by (auto simp: restore_def Let_def split: option.splits)

lemma restore_phase:
  "phase (restore why recovered st) = RESTORED \<or> phase (restore why recovered st) = RECOVERY_FAILED
     \<or> phase (restore why recovered st) = phase st \<and> \<not> is_active (phase st) \<and> \<not> is_recovering (phase st)"
  by (auto simp: restore_def Let_def split: option.splits)

lemma restore_selection:
  "selection (restore why recovered st) = Some s \<Longrightarrow> selection st = Some s \<or> sel_automatic s = automatic st"
  by (auto simp: restore_def Let_def split: option.splits if_splits)

lemma restore_confirmed: "confirmed (restore why recovered st) \<Longrightarrow> confirmed st"
  using restore_phase [of why recovered st] restore_selection [of why recovered st]
  by (auto simp: confirmed_def is_active_def elem_set)

lemma monitor_cases:
  obtains (same) "monitor_once due found tok recovered now st = st"
  | (restored) why msg where "monitor_once due found tok recovered now st = restore why recovered (st\<lparr>error := msg\<rparr>)"
  | (refreshed) "monitor_once due found tok recovered now st = refresh_interfaces tok now st"
      "phase st \<in> {ACQUIRING, TRIAL, MASKED}"
proof -
  have restored': "thesis" if "monitor_once due found tok recovered now st = restore why recovered st" for why
    using that restored [of why "error st"] by simp
  consider "phase st = RECOVERY_FAILED" | "phase st \<noteq> RECOVERY_FAILED" "\<not> is_active (phase st)"
    | "phase st \<noteq> RECOVERY_FAILED" "is_active (phase st)" "error st \<noteq> []"
    | "phase st \<noteq> RECOVERY_FAILED" "is_active (phase st)" "error st = []" by blast
  then show thesis
  proof cases
    case 1
    then show thesis by (intro restored') (simp add: monitor_once_def)
  next
    case 2
    then show thesis by (intro same) (simp add: monitor_once_def)
  next
    case 3
    then show thesis by (intro restored') (simp add: monitor_once_def)
  next
    case 4
    then have step: "monitor_once due found tok recovered now st =
        (case restore_if_expired now recovered st of
            (True, st1) \<Rightarrow> st1
          | (False, st1) \<Rightarrow>
              if phase st1 = APPLYING \<or> \<not> due then st1
              else (case found of
                      None \<Rightarrow> restore ''hardware_disconnected'' recovered st1
                    | Some a \<Rightarrow>
                        if endpoint_roles st1 \<noteq> None \<and> endpoint_roles st1 \<noteq> Some (att_roles a)
                        then if can_refresh_interfaces a st1 then refresh_interfaces tok now st1
                             else restore ''hardware_interfaces_changed'' recovered st1
                        else st1))"
      by (simp add: monitor_once_def)
    show thesis
    proof (cases "phase st = MASKED \<or> now < deadline st")
      case True
      then have "restore_if_expired now recovered st = (False, st)" by (simp add: restore_if_expired_def)
      then show thesis
        using step 4 same restored' refreshed
        by (cases found) (auto simp: is_active_def split: if_splits)
    next
      case False
      then show thesis
        using step restored' [of "''trial_expired''"]
          restored [of "''trial_expired''" "''Device input did not become ready before activation timed out''"]
        by (simp add: restore_if_expired_def Let_def split: if_splits)
    qed
  qed
qed

lemma reset_backoff_fields [simp]:
  "phase (reset_backoff st) = phase st" "policy (reset_backoff st) = policy st" "automatic (reset_backoff st) = automatic st"
  "session_uid (reset_backoff st) = session_uid st" "suspended (reset_backoff st) = suspended st"
  "journal (reset_backoff st) = journal st" "armed (reset_backoff st) = armed st" "apply_task (reset_backoff st) = apply_task st"
  "activation_deadline (reset_backoff st) = activation_deadline st" "reason (reset_backoff st) = reason st"
  "confirmation_deadline (reset_backoff st) = confirmation_deadline st"
  "policy_file (reset_backoff st) = policy_file st" "selection (reset_backoff st) = selection st"
  by (simp_all add: reset_backoff_def)

lemma defer_fields [simp]:
  "phase (defer_automatic_start c msg now st) = phase st" "policy (defer_automatic_start c msg now st) = policy st"
  "automatic (defer_automatic_start c msg now st) = automatic st" "apply_task (defer_automatic_start c msg now st) = apply_task st"
  "suspended (defer_automatic_start c msg now st) = suspended st" "journal (defer_automatic_start c msg now st) = journal st"
  "armed (defer_automatic_start c msg now st) = armed st" "reason (defer_automatic_start c msg now st) = reason st"
  "activation_deadline (defer_automatic_start c msg now st) = activation_deadline st"
  "confirmation_deadline (defer_automatic_start c msg now st) = confirmation_deadline st"
  "policy_file (defer_automatic_start c msg now st) = policy_file st" "selection (defer_automatic_start c msg now st) = selection st"
  by (simp_all add: defer_automatic_start_def Let_def)

lemma save_policy_fields:
  "save_policy b st = Some st' \<Longrightarrow> phase st' = phase st \<and> apply_task st' = apply_task st \<and> automatic st' = automatic st
     \<and> confirmation_deadline st' = confirmation_deadline st \<and> activation_deadline st' = activation_deadline st
     \<and> suspended st' = suspended st \<and> journal st' = journal st \<and> armed st' = armed st \<and> reason st' = reason st
     \<and> session_uid st' = session_uid st \<and> selection st' = selection st"
  by (auto simp: save_policy_def split: option.splits)

lemma mask_request_confirmed:
  "mask_request found persist tok now st = Some st' \<Longrightarrow> confirmed st' \<Longrightarrow> confirmed st"
  by (auto simp: mask_request_def confirmed_def save_policy_def Let_def split: if_splits option.splits)

lemma autostart_confirmed: "confirmed (autostart as sa i r tok now st) \<Longrightarrow> confirmed st"
  by (cases "policy st = None") (simp_all add: autostart_def confirmed_def Let_def)

lemma refresh_confirmed: "confirmed (refresh_interfaces tok now st) \<Longrightarrow> confirmed st"
  by (auto simp: refresh_interfaces_def confirmed_def Let_def split: if_splits)

lemma monitor_confirmed: "confirmed (monitor_once due found tok recovered now st) \<Longrightarrow> confirmed st"
proof (cases rule: monitor_cases [of due found tok recovered now st])
  case (restored why msg)
  moreover assume "confirmed (monitor_once due found tok recovered now st)"
  ultimately have "confirmed (st\<lparr>error := msg\<rparr>)" using restore_confirmed by simp
  then show "confirmed st" by (simp add: confirmed_def)
qed (auto dest: refresh_confirmed)

definition core :: "reservation \<Rightarrow> MaskPhase \<times> apply_task \<times> bool \<times> rat \<times> rat option" where
  "core st = (phase st, apply_task st, automatic st, activation_deadline st, confirmation_deadline st)"

lemma core_updates [simp]:
  "core (reset_backoff st) = core st" "core (defer_automatic_start c msg now st) = core st"
  "core (st\<lparr>suspended := x\<rparr>) = core st" "core (st\<lparr>reconcile_requested := b\<rparr>) = core st" "core (st\<lparr>present := y\<rparr>) = core st"
  "core (save_selection st) = core st" "core (st\<lparr>armed := b\<rparr>) = core st" "core (st\<lparr>journal := b\<rparr>) = core st" "core (st\<lparr>session_uid := u\<rparr>) = core st"
  by (simp_all add: core_def)

lemma arm_core: "arm_saved_usb is_present sa ins p st = Inr st' \<Longrightarrow> core st' = core st"
  by (auto simp: arm_saved_usb_def split: if_splits option.splits)

lemma save_policy_core: "save_policy b st = Some st' \<Longrightarrow> core st' = core st"
  by (auto simp: core_def dest: save_policy_fields)

lemma confirm_guards:
  assumes "confirm_request keep tok now st = Some st'"
  shows "tok = token st \<and> is_active (phase st) \<and> now < deadline st \<and> phase st = (if keep = None then ACQUIRING else TRIAL)"
proof -
  have "\<not> (tok \<noteq> token st \<or> \<not> is_active (phase st) \<or> deadline st \<le> now)"
    using assms unfolding confirm_request_def by (rule contrapos_pn) simp
  moreover have "phase st = (if keep = None then ACQUIRING else TRIAL)"
    using assms unfolding confirm_request_def by (rule contrapos_pp) simp
  ultimately show ?thesis by auto
qed

lemma confirm_cases:
  assumes "confirm_request keep tok now st = Some st'"
  obtains (masked) "phase st' = MASKED" "apply_task st' = apply_task st" "automatic st' = automatic st"
      "activation_deadline st' = activation_deadline st" "confirmation_deadline st' = confirmation_deadline st" "keep \<noteq> None \<or> automatic st"
  | (trial) "keep = None" "\<not> automatic st"
      "st' = st\<lparr>phase := TRIAL, confirmation_deadline :=
        (case confirmation_deadline st of None \<Rightarrow> Some (now + TRIAL_SECONDS) | Some c \<Rightarrow> Some c)\<rparr>"
proof -
  note guards = confirm_guards [OF assms]
  show thesis
  proof (cases keep)
    case None
    show thesis
    proof (cases "automatic st")
      case True
      define st2 where "st2 = st\<lparr>phase := MASKED\<rparr>"
      have "map_option save_selection (case policy st2 of None \<Rightarrow> Some st2 | Some pol \<Rightarrow> save_policy (policy_persist pol) st2) = Some st'"
        using assms guards None True by (simp add: confirm_request_def Let_def st2_def cong: if_cong option.case_cong)
      then obtain st3 where st3: "(case policy st2 of None \<Rightarrow> Some st2 | Some pol \<Rightarrow> save_policy (policy_persist pol) st2) = Some st3"
          "st' = save_selection st3" by auto
      have "phase st3 = phase st2 \<and> core st3 = core st2" using st3(1) save_policy_core by (cases "policy st2") (auto simp: core_def)
      then show thesis using masked True st3(2) by (simp add: st2_def core_def)
    next
      case False
      then have "Some (st\<lparr>phase := TRIAL, confirmation_deadline := (if confirmation_deadline st = None
          then Some (now + TRIAL_SECONDS) else confirmation_deadline st)\<rparr>) = Some st'"
        using assms guards None by (simp add: confirm_request_def Let_def)
      then show thesis using trial None False by (cases "confirmation_deadline st") auto
    qed
  next
    case (Some b)
    then obtain st1 where st1: "save_policy b st = Some st1"
      using assms guards by (cases "save_policy b st") (simp_all add: confirm_request_def)
    define st2 where "st2 = st1\<lparr>phase := MASKED\<rparr>"
    have "map_option save_selection (if automatic st2
        then (case policy st2 of None \<Rightarrow> Some st2 | Some pol \<Rightarrow> save_policy (policy_persist pol) st2) else Some st2) = Some st'"
      using assms guards Some st1 by (simp add: confirm_request_def Let_def st2_def cong: if_cong option.case_cong)
    then obtain st3 where st3: "(if automatic st2
        then (case policy st2 of None \<Rightarrow> Some st2 | Some pol \<Rightarrow> save_policy (policy_persist pol) st2) else Some st2) = Some st3"
        "st' = save_selection st3" by auto
    have "core st3 = core st2"
      using st3(1) save_policy_core by (cases "policy st2"; cases "automatic st2") auto
    then show thesis using masked save_policy_core [OF st1] Some st3(2) by (simp add: st2_def core_def)
  qed
qed

lemma confirm_confirmed:
  assumes st': "confirm_request keep tok now st = Some st'" and "confirmed st'"
  shows "confirmed st \<or> keep \<noteq> None \<and> phase st' = MASKED"
  using st' by (cases rule: confirm_cases) (use assms(2) in \<open>auto simp: confirmed_def\<close>)

lemma stop_persisting_confirmed: "stop_persisting st = Some st' \<Longrightarrow> confirmed st' \<Longrightarrow> confirmed st"
  by (auto simp: stop_persisting_def confirmed_def split: if_splits)

lemma persistence_confirmed: "persistence_request ident tok persist st = Some st' \<Longrightarrow> confirmed st' \<Longrightarrow> confirmed st"
  by (auto simp: persistence_request_def save_policy_def confirmed_def split: if_splits option.splits)

lemma unless_rejected_cases:
  "unless_rejected st r = st \<or> r = Some (unless_rejected st r)"
  by (cases r) (simp_all add: unless_rejected_def)

lemma load_selection_fields [simp]:
  "phase (load_selection sel st) = phase st" "apply_task (load_selection sel st) = apply_task st"
  "activation_deadline (load_selection sel st) = activation_deadline st"
  "confirmation_deadline (load_selection sel st) = confirmation_deadline st" "policy (load_selection sel st) = policy st"
  "policy_file (load_selection sel st) = policy_file st" "selection (load_selection sel st) = selection st"
  "suspended (load_selection sel st) = suspended st" "journal (load_selection sel st) = journal st"
  "armed (load_selection sel st) = armed st"
  "automatic (load_selection sel st) = (case sel of None \<Rightarrow> automatic st | Some s \<Rightarrow> sel_automatic s)"
  by (simp_all add: load_selection_def split: option.split)

lemma initialize_fields [simp]:
  "apply_task (initialize unreadable recovered st) = NoTask" "activation_deadline (initialize unreadable recovered st) = 0"
  "confirmation_deadline (initialize unreadable recovered st) = None"
  "policy_file (initialize unreadable recovered st) = policy_file st" "selection (initialize unreadable recovered st) = selection st"
  by (simp_all add: initialize_def Let_def new_reservation_def split: option.split prod.split)

lemma initialize_phase:
  "phase (initialize unreadable recovered st) = (if recovered = None then RESTORED else RECOVERY_FAILED)"
  by (auto simp: initialize_def Let_def new_reservation_def split: option.split prod.split)

lemma initialize_confirmed:
  assumes "confirmed (initialize unreadable recovered st)" shows "confirmed st"
proof -
  have "policy (initialize unreadable recovered st) = None \<or> policy (initialize unreadable recovered st) = policy_file st"
    by (auto simp: initialize_def Let_def new_reservation_def split: option.split prod.split)
  moreover have "automatic (initialize unreadable recovered st) \<Longrightarrow> \<exists>s \<in> set_option (selection st). sel_automatic s"
    by (auto simp: initialize_def Let_def new_reservation_def split: option.splits prod.splits if_splits)
  ultimately show ?thesis using assms by (auto simp: confirmed_def initialize_phase split: if_splits)
qed

lemma step_confirmed:
  assumes ok: "event_ok st e" and conf: "confirmed (mask_step now e st)"
  shows "confirmed st \<or> keeps e \<and> phase (mask_step now e st) = MASKED"
proof (cases e)
  case (Confirm keep tok)
  then show ?thesis
    using conf confirm_confirmed [of keep tok now st] unless_rejected_cases [of st "confirm_request keep tok now st"]
    by (auto simp: keeps_def split: option.splits)
next
  case (MaskRequest found persist tok)
  then show ?thesis
    using conf mask_request_confirmed unless_rejected_cases [of st "mask_request found persist tok now st"] by auto
next
  case (Persistence ident tok persist)
  then show ?thesis
    using conf persistence_confirmed unless_rejected_cases [of st "persistence_request ident tok persist st"] by auto
next
  case StopPersisting
  then show ?thesis using conf stop_persisting_confirmed unless_rejected_cases [of st "stop_persisting st"] by auto
next
  case (Autostart as sa i r tok)
  then show ?thesis using conf autostart_confirmed by auto
next
  case (Restore why recovered)
  then show ?thesis using conf restore_confirmed by auto
next
  case (Monitor due found tok recovered)
  then show ?thesis using conf monitor_confirmed by auto
next
  case (OwnerDisconnected recovered)
  then show ?thesis using conf restore_confirmed by (auto simp: owner_disconnected_def split: if_splits)
next
  case (Quiesced tok)
  then show ?thesis using conf by (auto simp: confirmed_def unless_rejected_def quiesced_request_def split: if_splits)
next
  case Resume
  then show ?thesis using conf by (auto simp: confirmed_def unless_rejected_def resume_request_def split: if_splits)
next
  case (Refresh tok)
  then show ?thesis using conf refresh_confirmed by simp
next
  case TaskBegins
  then show ?thesis using conf by (auto simp: confirmed_def task_begins_def split: apply_task.splits)
next
  case (Initialize unreadable recovered)
  then show ?thesis using conf initialize_confirmed by simp
qed (use conf in \<open>simp_all add: confirmed_def mark_restoring_def task_writes_def task_done_def task_failed_def\<close>)

section \<open>The activation task\<close>

definition task_ok :: "reservation \<Rightarrow> bool" where
  "task_ok st \<longleftrightarrow> (apply_task st = NoTask \<or> phase st = APPLYING \<or> phase st = RESTORING)"

lemma restore_task_ok: "task_ok st \<Longrightarrow> task_ok (restore why recovered st)"
  by (auto simp: task_ok_def restore_def Let_def is_active_def is_recovering_def split: option.splits)

lemma mask_request_task_ok: "mask_request found persist tok now st = Some st' \<Longrightarrow> task_ok st'"
  by (auto simp: mask_request_def task_ok_def Let_def split: if_splits option.splits)


section \<open>What the handlers leave alone\<close>

lemma persistence_core: "core (unless_rejected st (persistence_request ident tok persist st)) = core st"
proof (cases "persistence_request ident tok persist st")
  case (Some st')
  then have "save_policy persist st = Some st'" by (simp add: persistence_request_def split: if_splits)
  then show ?thesis using Some save_policy_core by (simp add: unless_rejected_def)
qed (simp add: unless_rejected_def)

lemma stop_persisting_core: "core (unless_rejected st (stop_persisting st)) = core st"
proof (cases "stop_persisting st")
  case (Some st')
  then have "st' = st \<or> save_policy False st = Some st'" by (auto simp: stop_persisting_def split: if_splits)
  then show ?thesis using Some save_policy_core by (auto simp: unless_rejected_def)
qed (simp add: unless_rejected_def)

lemma autostart_cases:
  obtains (untouched) "core (autostart as sa ins r tok now st) = core st"
  | (began) found st1 st2 where "mask_request found False tok now st1 = Some st2" "core st1 = core st"
      "autostart as sa ins r tok now st = reset_backoff (st2\<lparr>automatic := True\<rparr>)"
proof (cases "policy st")
  case None
  then show thesis using untouched by (simp add: autostart_def Let_def)
next
  case (Some p)
  show thesis
  proof (cases "is_active (phase st) \<or> journal st \<or> \<not> policy_persist p \<or> \<not> owned (st\<lparr>reconcile_requested := False\<rparr>) p
      \<or> (\<exists>r \<in> set_option (suspended st). r \<notin> CLEAN_REASONS)")
    case True
    then have "autostart as sa ins r tok now st = st\<lparr>reconcile_requested := False\<rparr>"
      using Some by (simp add: autostart_def Let_def)
    then show thesis using untouched by simp
  next
    case False
    define att where "att = find (\<lambda>a. att_identity a = policy_id p) as"
    define here where "here = (case att of None \<Rightarrow> False | Some a \<Rightarrow> att_supported a)"
    define st1 where "st1 = st\<lparr>reconcile_requested := False, suspended := None\<rparr>"
    define st2 where "st2 = (if Some here \<noteq> present st1 then reset_backoff (st1\<lparr>present := Some here\<rparr>) else st1)"
    have core2: "core st2 = core st" by (simp add: st2_def st1_def)
    have run: "autostart as sa ins r tok now st =
        (case next_attempt st2 of
           None \<Rightarrow> st2
         | Some t \<Rightarrow>
             if now < t then st2
             else (case arm_saved_usb here sa ins p st2 of
                     Inl (code, message) \<Rightarrow> defer_automatic_start code message now st2
                   | Inr st3 \<Rightarrow>
                       if \<not> here then reset_backoff st3
                       else (case mask_request (if r then att else None) False tok now st3 of
                               None \<Rightarrow> defer_automatic_start [] ''The attachment changed'' now st3
                             | Some st4 \<Rightarrow> reset_backoff (st4\<lparr>automatic := True\<rparr>))))"
      using False Some unfolding autostart_def Let_def st2_def st1_def here_def att_def by simp
    show thesis
    proof (cases "next_attempt st2 = None \<or> now < the (next_attempt st2)")
      case True
      then show thesis using run core2 untouched by (auto split: option.splits)
    next
      case False
      then obtain t where t: "next_attempt st2 = Some t" "\<not> now < t" by auto
      show thesis
      proof (cases "arm_saved_usb here sa ins p st2")
        case (Inl e)
        then show thesis using run t core2 untouched by (cases e) simp
      next
        case (Inr st3)
        then have core3: "core st3 = core st" using arm_core core2 by metis
        show thesis
        proof (cases "here \<and> mask_request (if r then att else None) False tok now st3 \<noteq> None")
          case True
          then show thesis using began [OF _ core3] run t Inr by auto
        next
          case False
          then show thesis using untouched run t Inr core3 by (cases here) simp_all
        qed
      qed
    qed
  qed
qed

section \<open>The trial ends\<close>

text \<open>
  The limits of a mask that began at \<open>s\<close>: it is to be ready in the activation time, and the confirmation is due at most
  the trial time later.
\<close>

definition trial_ok :: "rat \<Rightarrow> rat \<Rightarrow> reservation \<Rightarrow> bool" where
  "trial_ok s now st \<longleftrightarrow>
     (case confirmation_deadline st of
        None \<Rightarrow> phase st \<noteq> TRIAL \<and> activation_deadline st \<le> max (s + ACTIVATION_SECONDS) now
      | Some c \<Rightarrow> c \<le> s + ACTIVATION_SECONDS + TRIAL_SECONDS)"

definition trial_inv :: "rat \<Rightarrow> rat \<Rightarrow> reservation \<Rightarrow> bool" where
  "trial_inv s now st \<longleftrightarrow> task_ok st \<and> 0 \<le> now \<and> (\<not> automatic st \<longrightarrow> trial_ok s now st)"

lemma trial_inv_core: "core st' = core st \<Longrightarrow> trial_inv s now st' = trial_inv s now st"
  by (auto simp: trial_inv_def task_ok_def trial_ok_def core_def split: option.splits)

lemma trial_inv_later: "trial_inv s now st \<Longrightarrow> now \<le> later \<Longrightarrow> trial_inv s later st"
  by (auto simp: trial_inv_def trial_ok_def le_max_iff_disj split: option.splits)

lemma restore_idle:
  "task_ok st \<Longrightarrow> \<not> is_active (phase (restore why recovered st)) \<and> apply_task (restore why recovered st) = NoTask"
  by (auto simp: task_ok_def restore_def Let_def is_active_def is_recovering_def split: option.splits)

lemma restore_trial:
  assumes "trial_inv s now st" shows "trial_inv s now (restore why recovered st)"
proof -
  have "phase (restore why recovered st) \<noteq> TRIAL" using restore_phase [of why recovered st] by auto
  then show ?thesis
    using assms restore_idle [of st why recovered] by (auto simp: trial_inv_def task_ok_def trial_ok_def split: option.splits)
qed

lemma mask_request_trial: "mask_request found persist tok now st = Some st' \<Longrightarrow> 0 \<le> now \<Longrightarrow> trial_inv now now st'"
  using mask_request_task_ok [of found persist tok now st st']
  by (auto simp: mask_request_def trial_inv_def trial_ok_def Let_def split: if_splits option.splits)

lemma refresh_trial:
  assumes "trial_inv s now st"
  shows "trial_inv s now (refresh_interfaces tok now st)"
proof (cases "phase st = MASKED \<or> automatic st")
  case True
  then show ?thesis using assms by (simp add: refresh_interfaces_def trial_inv_def task_ok_def)
next
  case False
  then have "trial_ok s now st" "0 \<le> now" using assms by (auto simp: trial_inv_def)
  then show ?thesis
    using False by (auto simp: refresh_interfaces_def trial_inv_def task_ok_def trial_ok_def split: option.splits)
qed

lemma confirm_trial:
  assumes inv: "trial_inv s now st" and st': "confirm_request keep tok now st = Some st'"
  shows "trial_inv s now st'"
proof -
  note guards = confirm_guards [OF st']
  have tasks: "apply_task st = NoTask" "0 \<le> now" using inv guards by (auto simp: trial_inv_def task_ok_def split: if_splits)
  from st' show ?thesis
  proof (cases rule: confirm_cases)
    case masked
    then show ?thesis using tasks inv by (auto simp: trial_inv_def task_ok_def trial_ok_def split: option.splits)
  next
    case trial
    then have "trial_ok s now st" using inv by (simp add: trial_inv_def)
    then show ?thesis
      using trial tasks guards by (auto simp: trial_inv_def task_ok_def trial_ok_def deadline_def split: option.splits)
  qed
qed

lemma initialize_trial: "0 \<le> now \<Longrightarrow> trial_inv s now (initialize unreadable recovered st)"
  by (simp add: trial_inv_def task_ok_def trial_ok_def initialize_fields le_max_iff_disj initialize_phase)

lemma monitor_trial: "trial_inv s now st \<Longrightarrow> trial_inv s now (monitor_once due found tok recovered now st)"
proof (cases rule: monitor_cases [of due found tok recovered now st])
  case (restored why msg)
  assume "trial_inv s now st"
  then have "trial_inv s now (st\<lparr>error := msg\<rparr>)" using trial_inv_core [of "st\<lparr>error := msg\<rparr>" st] by (simp add: core_def)
  then show ?thesis using restored restore_trial by simp
qed (simp_all add: refresh_trial)

lemma step_trial:
  assumes inv: "trial_inv s t st" and later: "t \<le> now" and ok: "event_ok st e"
  shows "trial_inv (if masks_anew e \<and> \<not> is_active (phase st) \<and> is_active (phase (mask_step now e st)) then now else s) now
    (mask_step now e st)"
proof -
  have now: "trial_inv s now st" using inv later by (rule trial_inv_later)
  have unchanged: ?thesis if "core (mask_step now e st) = core st" "\<not> masks_anew e"
    using trial_inv_core [OF that(1)] now that(2) by simp
  show ?thesis
  proof (cases e)
    case (Autostart as sa i r tok)
    show ?thesis
    proof (cases rule: autostart_cases [of as sa i r tok now st])
      case untouched
      then have "phase (autostart as sa i r tok now st) = phase st" by (simp add: core_def)
      then show ?thesis using trial_inv_core [OF untouched] now Autostart by simp
    next
      case (began found st1 st2)
      have "task_ok (st2\<lparr>automatic := True\<rparr>)" using mask_request_task_ok [OF began(1)] by (simp add: task_ok_def)
      then have "trial_inv u now (reset_backoff (st2\<lparr>automatic := True\<rparr>))" for u
        using now by (simp add: trial_inv_def task_ok_def)
      then show ?thesis using began Autostart by simp
    qed
  next
    case (MaskRequest found persist tok)
    show ?thesis
    proof (cases "mask_request found persist tok now st")
      case None
      then show ?thesis using now MaskRequest by (simp add: unless_rejected_def)
    next
      case (Some st')
      then have "\<not> is_active (phase st)" "is_active (phase st')"
        by (auto simp: mask_request_def Let_def is_active_def split: if_splits option.splits)
      moreover have "0 \<le> now" using now by (simp add: trial_inv_def)
      ultimately show ?thesis using mask_request_trial [OF Some] MaskRequest Some by (simp add: unless_rejected_def masks_anew_def)
    qed
  next
    case (Confirm keep tok)
    then show ?thesis
      using now confirm_trial [of s now st keep tok] unless_rejected_cases [of st "confirm_request keep tok now st"]
      by (auto simp: masks_anew_def)
  next
    case (Persistence ident tok persist)
    then show ?thesis
      using unchanged by (simp add: persistence_core masks_anew_def)
  next
    case StopPersisting
    then show ?thesis
      using unchanged by (simp add: stop_persisting_core masks_anew_def)
  next
    case (Restore why recovered)
    then show ?thesis using restore_trial [OF now] by (simp add: masks_anew_def)
  next
    case (OwnerDisconnected recovered)
    then show ?thesis using restore_trial [OF now] now by (simp add: masks_anew_def owner_disconnected_def)
  next
    case (Monitor due found tok recovered)
    then show ?thesis using monitor_trial [OF now] by (simp add: masks_anew_def)
  next
    case (Refresh tok)
    then show ?thesis using refresh_trial [OF now] by (simp add: masks_anew_def)
  next
    case (Initialize unreadable recovered)
    moreover have "0 \<le> now" using now by (simp add: trial_inv_def)
    ultimately show ?thesis using initialize_trial by (simp add: masks_anew_def)
  next
    case RefreshAsked
    then show ?thesis using now by (simp add: masks_anew_def)
  next
    case RefreshGivenUp
    then show ?thesis using now by (simp add: masks_anew_def)
  next
    case (Startup uid)
    then show ?thesis using unchanged by (simp add: masks_anew_def)
  next
    case Resume
    then show ?thesis using unchanged by (simp add: masks_anew_def unless_rejected_def resume_request_def)
  next
    case (Quiesced tok)
    then show ?thesis using unchanged by (simp add: masks_anew_def unless_rejected_def quiesced_request_def core_def)
  next
    case (TaskWrites journal' armed')
    then show ?thesis using unchanged by (simp add: masks_anew_def task_writes_def core_def)
  next
    case TaskBegins
    then show ?thesis
      using now by (auto simp: masks_anew_def task_begins_def trial_inv_def task_ok_def trial_ok_def
        split: apply_task.splits option.splits)
  next
    case (MarkRestoring why)
    then show ?thesis
      using now by (auto simp: masks_anew_def mark_restoring_def trial_inv_def task_ok_def trial_ok_def is_active_def
        split: option.splits)
  next
    case (TaskDone roles)
    then show ?thesis
      using now ok by (auto simp: masks_anew_def task_done_def trial_inv_def task_ok_def trial_ok_def begun_def
        split: option.splits)
  next
    case (TaskFailed message)
    then show ?thesis
      using now ok by (auto simp: masks_anew_def task_failed_def trial_inv_def task_ok_def trial_ok_def begun_def
        split: option.splits)
  qed
qed

section \<open>A stopped mask\<close>

definition restarts :: "mask_event \<Rightarrow> bool" where
  "restarts e \<longleftrightarrow> (case e of MaskRequest found persist tok \<Rightarrow> True | Resume \<Rightarrow> True | _ \<Rightarrow> False)"

text \<open>Reasons that do not tell of a stop: a clean end, lost hardware, and what an older version wrote for a failed recovery.\<close>

definition FLEETING_REASONS :: "string set" where
  "FLEETING_REASONS = CLEAN_REASONS \<union> HARDWARE_REASONS \<union> {''recovery_failed''}"

definition stopped :: "reservation \<Rightarrow> bool" where
  "stopped st \<longleftrightarrow> phase st \<in> {RESTORING, RESTORED, RECOVERY_FAILED} \<and> apply_task st = NoTask
     \<and> (case suspended st of None \<Rightarrow> False | Some r \<Rightarrow> r \<notin> FLEETING_REASONS)
     \<and> (phase st = RECOVERY_FAILED \<longrightarrow> (case reason st of None \<Rightarrow> False | Some r \<Rightarrow> r \<notin> FLEETING_REASONS))
     \<and> (phase st = RESTORED \<longrightarrow> \<not> journal st \<and> \<not> armed st)"

lemma stopped_simps:
  "stopped (st\<lparr>reconcile_requested := b\<rparr>) = stopped st" "stopped (st\<lparr>session_uid := u\<rparr>) = stopped st"
  by (simp_all add: stopped_def)

lemma fleeting_clean: "r \<notin> FLEETING_REASONS \<Longrightarrow> r \<notin> CLEAN_REASONS"
  by (simp add: FLEETING_REASONS_def)

lemma stopped_save_selection [simp]: "stopped (save_selection st) = stopped st"
  by (simp add: stopped_def)

lemma restore_stops:
  assumes "task_ok st" and "why \<notin> FLEETING_REASONS"
  shows "stopped (restore why recovered st)"
proof -
  have why: "why \<notin> CLEAN_REASONS" "\<not> (why = ''hardware_disconnected'' \<or> why = ''hardware_interfaces_changed'')"
    using assms(2) by (auto simp: FLEETING_REASONS_def HARDWARE_REASONS_def)
  show ?thesis
  proof (cases "is_active (phase st) \<or> journal st \<or> armed st \<or> is_recovering (phase st)")
    case True
    then show ?thesis
      using why assms(2) by (cases recovered) (auto simp: restore_def Let_def stopped_def)
  next
    case False
    then show ?thesis
      using why assms by (auto simp: restore_def Let_def stopped_def task_ok_def is_active_def is_recovering_def)
  qed
qed

lemma stopped_task_ok: "stopped st \<Longrightarrow> task_ok st"
  by (simp add: stopped_def task_ok_def)

lemma stopped_inactive: "stopped st \<Longrightarrow> \<not> is_active (phase st)"
  by (auto simp: stopped_def is_active_def)

lemma stopped_failed:
  assumes "stopped st" and "phase st = RECOVERY_FAILED"
  obtains r where "reason st = Some r" "r \<notin> FLEETING_REASONS"
  using assms by (cases "reason st") (auto simp: stopped_def)

lemma stopped_suspended:
  assumes "stopped st" obtains r where "suspended st = Some r" "r \<notin> FLEETING_REASONS"
  using assms by (cases "suspended st") (auto simp: stopped_def)

lemma clean_restore_stopped:
  assumes st: "stopped st" and "why \<in> CLEAN_REASONS" and "phase st \<noteq> RESTORING"
  shows "stopped (restore why recovered st)"
proof (cases "phase st = RECOVERY_FAILED")
  case True
  then obtain r where r: "reason st = Some r" "r \<notin> FLEETING_REASONS" by (rule stopped_failed [OF st])
  then have "restore why recovered st = restore r recovered st" using True assms(2) fleeting_clean by (simp add: restore_def)
  then show ?thesis using restore_stops [OF stopped_task_ok [OF st] r(2)] by simp
next
  case False
  then have "phase st = RESTORED" "\<not> journal st" "\<not> armed st" using st assms(3) by (auto simp: stopped_def)
  then have "restore why recovered st = st\<lparr>reconcile_requested := True\<rparr>"
    using assms(2) by (simp add: restore_def Let_def is_recovering_def)
  then show ?thesis using st by (simp add: stopped_simps)
qed

lemma stopped_autostart: "stopped st \<Longrightarrow> stopped (autostart as sa ins r tok now st)"
proof -
  assume st: "stopped st"
  then have "\<exists>r \<in> set_option (suspended st). r \<notin> CLEAN_REASONS" using fleeting_clean by (auto elim: stopped_suspended)
  then have "autostart as sa ins r tok now st = st\<lparr>reconcile_requested := False\<rparr>"
    by (cases "policy st") (simp_all add: autostart_def)
  then show ?thesis using st by (simp add: stopped_simps)
qed

lemma stopped_monitor:
  assumes st: "stopped st" shows "stopped (monitor_once due found tok recovered now st)"
proof (cases "phase st = RECOVERY_FAILED")
  case True
  then obtain r where "reason st = Some r" "r \<notin> FLEETING_REASONS" by (rule stopped_failed [OF st])
  then show ?thesis using True restore_stops [OF stopped_task_ok [OF st]] by (simp add: monitor_once_def)
next
  case False
  then show ?thesis using st stopped_inactive by (simp add: monitor_once_def)
qed

lemma pause_reason_stopped:
  assumes "suspended st = Some r" and "r \<notin> FLEETING_REASONS"
  shows "pause_reason loaded unreadable st =
    (if unreadable \<noteq> None then ''invalid_saved_state'' else if r = [] \<and> journal st then ''service_restart'' else r)"
  using assms by (auto simp: pause_reason_def FLEETING_REASONS_def)

lemma stopped_initialize:
  assumes st: "stopped st" shows "stopped (initialize unreadable recovered st)"
proof -
  obtain r where r: "suspended st = Some r" "r \<notin> FLEETING_REASONS" by (rule stopped_suspended [OF st])
  define pause where
    "pause = (if unreadable \<noteq> None then ''invalid_saved_state'' else if r = [] \<and> journal st then ''service_restart'' else r)"
  have p: "pause_reason loaded unreadable st = pause" for loaded unfolding pause_def by (rule pause_reason_stopped [OF r])
  have kept: "pause \<notin> FLEETING_REASONS" "''service_restart'' \<notin> FLEETING_REASONS"
    using r(2) by (simp_all add: pause_def FLEETING_REASONS_def CLEAN_REASONS_def HARDWARE_REASONS_def)
  have "suspended (initialize unreadable recovered st) \<in> {Some r, Some pause}"
    "recovered = None \<Longrightarrow> \<not> journal (initialize unreadable recovered st) \<and> \<not> armed (initialize unreadable recovered st)"
    "recovered \<noteq> None \<Longrightarrow>
      reason (initialize unreadable recovered st) = Some (if pause = [] then ''service_restart'' else pause)"
    using r(1) by (auto simp: initialize_def Let_def p new_reservation_def split: option.splits prod.splits)
  then show ?thesis using kept r(2) by (auto simp: stopped_def initialize_phase)
qed

lemma save_policy_stopped: "save_policy b st = Some st' \<Longrightarrow> stopped st' = stopped st"
  by (auto simp: stopped_def dest!: save_policy_fields)

lemma step_stopped:
  assumes st: "stopped st" and ok: "event_ok st e" and "\<not> restarts e" and "\<forall>tok. e \<noteq> Refresh tok"
  shows "stopped (mask_step now e st)"
proof (cases e)
  case (Restore why recovered)
  then show ?thesis
    using ok restore_stops [OF stopped_task_ok [OF st]] clean_restore_stopped [OF st]
    by (cases "why \<in> CLEAN_REASONS") (auto simp: FLEETING_REASONS_def)
next
  case (OwnerDisconnected recovered)
  then show ?thesis
    using st restore_stops [OF stopped_task_ok [OF st], of "''daemon_disconnected''"]
    by (simp add: owner_disconnected_def FLEETING_REASONS_def CLEAN_REASONS_def HARDWARE_REASONS_def)
next
  case (Persistence ident tok persist)
  then show ?thesis
    using st save_policy_stopped by (auto simp: persistence_request_def unless_rejected_def split: option.splits)
next
  case StopPersisting
  then show ?thesis
    using st save_policy_stopped by (auto simp: stop_persisting_def unless_rejected_def split: option.splits)
next
  case (Confirm keep tok)
  then show ?thesis using st stopped_inactive [OF st] by (simp add: confirm_request_def unless_rejected_def)
next
  case (Quiesced tok)
  then have "quiesced_request tok now st = None" using st by (auto simp: quiesced_request_def stopped_def)
  then show ?thesis using st Quiesced by (simp add: unless_rejected_def)
next
  case (Initialize unreadable recovered)
  then show ?thesis using stopped_initialize [OF st] by simp
next
  case (MarkRestoring why)
  then show ?thesis using st by (simp add: stopped_def mark_restoring_def)
next
  case TaskBegins
  then show ?thesis using st ok by (simp add: stopped_def)
next
  case (Autostart as sa ins r tok)
  then show ?thesis using stopped_autostart [OF st] by simp
next
  case (Monitor due found tok recovered)
  then show ?thesis using stopped_monitor [OF st] by simp
next
  case (TaskWrites journal' armed')
  then show ?thesis using st ok by (simp add: stopped_def begun_def)
next
  case (TaskDone roles)
  then show ?thesis using st ok by (simp add: stopped_def begun_def)
next
  case (TaskFailed message)
  then show ?thesis using st ok by (simp add: stopped_def begun_def)
next
  case (Startup uid)
  then show ?thesis using st by (simp add: stopped_simps)
qed (use assms in \<open>simp_all add: restarts_def\<close>)

section \<open>Every run\<close>

definition masking_inv :: "masking \<Rightarrow> bool" where
  "masking_inv m \<longleftrightarrow> trial_inv (started m) (seen m) (res m) \<and> (confirmed (res m) \<longrightarrow> kept m)"

lemma masking_step_inv:
  assumes inv: "masking_inv m" and ok: "masking_guard m te"
  shows "masking_inv (masking_step m te)"
proof (cases te)
  case (Pair now e)
  then have later: "seen m \<le> now" and e: "event_ok (res m) e" using ok by (simp_all add: masking_guard_def)
  have "trial_inv (started m) (seen m) (res m)" using inv by (simp add: masking_inv_def)
  note trial = step_trial [OF this later e]
  have "confirmed (mask_step now e (res m)) \<Longrightarrow> kept m \<or> keeps e \<and> phase (mask_step now e (res m)) = MASKED"
    using step_confirmed [OF e] inv by (auto simp: masking_inv_def)
  then show ?thesis using trial Pair by (simp add: masking_inv_def masking_step_def Let_def)
qed

lemma new_masking_inv: "masking_inv (new_masking ident)"
  by (simp add: masking_inv_def new_masking_def new_reservation_def trial_inv_def trial_ok_def task_ok_def ACTIVATION_SECONDS_def confirmed_def)

interpretation masks: inv_machine "new_masking ident" masking_guard masking_step masking_inv for ident
  by unfold_locales (simp_all add: new_masking_inv masking_step_inv)

lemma stopped_run:
  "stopped (res m) \<Longrightarrow> \<not> asked m \<Longrightarrow> guarded_run masking_guard masking_step m es \<Longrightarrow>
   list_all (\<lambda>te. \<not> restarts (snd te)) es \<Longrightarrow> stopped (res (run_steps masking_step m es))"
proof (induction es arbitrary: m)
  case (Cons te es)
  obtain now e where te: "te = (now, e)" by fastforce
  have ok: "event_ok (res m) e" "\<not> ends_refresh e \<or> is_initialize e" "\<not> restarts e"
    using Cons.prems te by (simp_all add: masking_guard_def)
  then have "\<forall>tok. e \<noteq> Refresh tok" by (auto simp: ends_refresh_def is_initialize_def)
  then have "stopped (mask_step now e (res m))" using Cons.prems(1) ok by (intro step_stopped)
  moreover have "e \<noteq> RefreshAsked" using ok(1) Cons.prems(1) by (auto simp: stopped_def)
  ultimately have "stopped (res (masking_step m te)) \<and> \<not> asked (masking_step m te)"
    using te Cons.prems(2) by (simp add: masking_step_def Let_def)
  then show ?case using Cons by simp
qed simp

lemma becomes_masked:
  assumes "phase st \<noteq> MASKED" and ph: "phase (mask_step now e st) = MASKED" and ok: "event_ok st e"
  shows "\<exists>keep. e = Confirm keep (token st) \<and> now < deadline st
    \<and> (keep \<noteq> None \<and> phase st = TRIAL \<or> keep = None \<and> phase st = ACQUIRING \<and> automatic st)"
proof -
  have other: False if "core (mask_step now e st) = core st" using that assms(1,2) by (simp add: core_def)
  have rst: "phase (restore why recovered st') \<noteq> MASKED" if "phase st' = phase st" for why recovered st'
    using restore_phase [of why recovered st'] that assms(1) by auto
  show ?thesis
  proof (cases e)
    case (Confirm keep tok)
    then obtain st' where st': "confirm_request keep tok now st = Some st'" "phase st' = MASKED"
      using ph assms(1) by (auto simp: unless_rejected_def split: option.splits)
    note guards = confirm_guards [OF st'(1)]
    from st'(1) show ?thesis by (cases rule: confirm_cases) (use Confirm guards st'(2) in auto)
  next
    case (Autostart as sa ins r tok)
    then show ?thesis
    proof (cases rule: autostart_cases [of as sa ins r tok now st])
      case untouched
      then show ?thesis using other Autostart by simp
    next
      case (began found st1 st2)
      then have "phase st2 = APPLYING" by (auto simp: mask_request_def Let_def split: if_splits option.splits)
      then show ?thesis using ph Autostart began by simp
    qed
  next
    case (Monitor due found tok recovered)
    then show ?thesis using ph assms(1) rst
      by (cases rule: monitor_cases [of due found tok recovered now st]) (auto simp: refresh_interfaces_def Let_def)
  next
    case (MaskRequest found persist tok)
    then show ?thesis
      using ph assms(1) by (auto simp: unless_rejected_def mask_request_def Let_def split: if_splits option.splits)
  next
    case (Persistence ident tok persist)
    then show ?thesis
      using other by (simp add: persistence_core)
  next
    case StopPersisting
    then show ?thesis using other by (simp add: stop_persisting_core)
  next
    case (Restore why recovered)
    then show ?thesis using ph rst by simp
  next
    case (OwnerDisconnected recovered)
    then show ?thesis using ph rst assms(1) by (simp add: owner_disconnected_def split: if_splits)
  next
    case TaskBegins
    then show ?thesis using ph assms(1) by (simp add: task_begins_def split: apply_task.splits)
  qed (use ph assms(1) in \<open>simp_all add: unless_rejected_def resume_request_def quiesced_request_def refresh_interfaces_def
      mark_restoring_def task_writes_def task_done_def task_failed_def initialize_phase Let_def split: if_splits\<close>)
qed

lemma trial_over:
  assumes inv: "trial_inv s t st" and act: "is_active (phase st)" "phase st \<noteq> MASKED" "\<not> automatic st"
    and now: "s + ACTIVATION_SECONDS + TRIAL_SECONDS \<le> now" "t \<le> now"
  shows "deadline st \<le> now"
proof -
  have "trial_ok s t st" using inv act by (simp add: trial_inv_def)
  then show ?thesis
    using now by (auto simp: trial_ok_def deadline_def TRIAL_SECONDS_def split: option.splits)
qed

lemma restore_ends: "is_active (phase st) \<Longrightarrow> phase (restore why recovered st) \<in> {RESTORED, RECOVERY_FAILED}"
  by (auto simp: restore_def Let_def split: option.splits)

lemma monitor_expires:
  assumes "is_active (phase st)" and "phase st \<noteq> MASKED" and "deadline st \<le> now"
  shows "phase (monitor_once due found tok recovered now st) \<in> {RESTORED, RECOVERY_FAILED}"
proof -
  have "phase st \<noteq> RECOVERY_FAILED" using assms(1) by (auto simp: is_active_def)
  then show ?thesis
    using assms restore_ends [of st] restore_ends [of "st\<lparr>error := msg\<rparr>" for msg]
    by (auto simp: monitor_once_def restore_if_expired_def Let_def split: if_splits)
qed

end
