(* ===== verification/Mask_Properties.thy ===== *)
theory Mask_Properties
  imports Mask_Invariant
begin

text \<open>
  Masking of hardware is safe: it outlives a trial only by the confirmation of the user, a trial ends in time, and
  a mask that the user stopped stays off.
\<close>

section \<open>A session with a mouse\<close>

definition demo_mouse :: attachment where
  "demo_mouse = \<lparr>att_identity = ''mouse'', att_usb = True, att_supported = True, att_roles = [''usb'']\<rparr>"

text \<open>The user masks the mouse and its replacement gets ready: the trial runs from 14.\<close>

definition demo_trial :: "timed_event list" where
  "demo_trial = [(1, Startup 1000), (10, MaskRequest (Some demo_mouse) True 7), (11, Quiesced 7), (11, TaskBegins),
     (12, TaskWrites True True), (13, TaskDone [''usb'']), (14, Confirm None 7)]"

definition demo_kept :: "timed_event list" where
  "demo_kept = demo_trial @ [(20, Confirm (Some True) 7)]"

text \<open>
  After the user's stop the daemon starts again and the owner reconnects, the saved mask is looked at, and the service
  stops and starts.
\<close>

definition demo_later :: "timed_event list" where
  "demo_later = [(41, Initialize None None), (41, Startup 1000), (42, Autostart [demo_mouse] True None True 8), (43, Monitor True (Some demo_mouse) 9 None),
     (44, OwnerDisconnected None), (45, Restore ''service_stopped'' None), (46, Initialize None None), (46, Startup 1000),
     (47, Autostart [demo_mouse] True None True 10)]"

lemmas demo_step_simps = demo_mouse_def masking_step_def Let_def unless_rejected_def masks_anew_def keeps_def
  mask_request_def reset_backoff_def quiesced_request_def task_begins_def task_writes_def task_done_def confirm_request_def
  save_policy_def owned_def deadline_def is_recovering_def ACTIVATION_SECONDS_def TRIAL_SECONDS_def INITIAL_RETRY_DELAY_S_def
  new_masking_def new_reservation_def masking_guard_def begun_def ends_refresh_def is_request_def is_initialize_def

lemma demo_trial_guarded: "guarded_run masking_guard masking_step (new_masking ''mouse'') demo_trial"
  by (simp add: demo_trial_def demo_step_simps)

lemma demo_trial_state:
  "phase (res (run_steps masking_step (new_masking ''mouse'') demo_trial)) = TRIAL"
  "automatic (res (run_steps masking_step (new_masking ''mouse'') demo_trial)) = False"
  "policy (res (run_steps masking_step (new_masking ''mouse'') demo_trial)) = None"
  "token (res (run_steps masking_step (new_masking ''mouse'') demo_trial)) = 7"
  "deadline (res (run_steps masking_step (new_masking ''mouse'') demo_trial)) = 44"
  "kept (run_steps masking_step (new_masking ''mouse'') demo_trial) = False"
  "started (run_steps masking_step (new_masking ''mouse'') demo_trial) = 10"
  "seen (run_steps masking_step (new_masking ''mouse'') demo_trial) = 14"
  "session_uid (res (run_steps masking_step (new_masking ''mouse'') demo_trial)) = Some 1000"
  "asked (run_steps masking_step (new_masking ''mouse'') demo_trial) = False"
  by (simp_all add: demo_trial_def demo_step_simps)

section \<open>Properties\<close>

lemma stopped_off: "stopped st \<Longrightarrow> \<not> is_active (phase st) \<and> suspended st \<noteq> None"
  using stopped_inactive [of st] by (cases "suspended st") (simp_all add: stopped_def)

text \<open>C13. A mask becomes permanent only through the user: in every run the reservation is masked, may start
  automatically, or has a saved policy only after a trial was kept.  A step enters the masked phase only as a
  confirmation with the current token before the deadline: \<open>keep\<close> in the trial, or \<open>ready\<close> of an automatic start.\<close>

theorem mask_needs_confirmation:
  assumes run: "guarded_run masking_guard masking_step (new_masking ident) es"
    and m: "m = run_steps masking_step (new_masking ident) es"
    and ok: "masking_guard m (now, e)"
  shows "(phase (res m) = MASKED \<or> automatic (res m) \<or> policy (res m) \<noteq> None \<longrightarrow> kept m)
    \<and> (phase (res m) \<noteq> MASKED \<and> phase (mask_step now e (res m)) = MASKED \<longrightarrow>
        (\<exists>keep. e = Confirm keep (token (res m)) \<and> now < deadline (res m)
          \<and> (keep \<noteq> None \<and> phase (res m) = TRIAL \<or> keep = None \<and> phase (res m) = ACQUIRING \<and> automatic (res m))))"
proof -
  have "masking_inv m" unfolding m using run by (rule masks.inv_run)
  moreover have "event_ok (res m) e" using ok by (simp add: masking_guard_def)
  ultimately show ?thesis using becomes_masked by (simp add: masking_inv_def confirmed_def)
qed

theorem mask_needs_confirmation_witness:
  "phase (mask_step 20 (Confirm (Some True) 7) (res (run_steps masking_step (new_masking ''mouse'') demo_trial))) = MASKED
    \<and> \<not> automatic (res (run_steps masking_step (new_masking ''mouse'') demo_trial))"
proof -
  have "masking_guard (run_steps masking_step (new_masking ''mouse'') demo_trial) (20, Confirm (Some True) 7)"
    by (simp add: masking_guard_def is_request_def ends_refresh_def demo_trial_state)
  from mask_needs_confirmation [OF demo_trial_guarded refl this] have "\<not> automatic (res (run_steps masking_step (new_masking ''mouse'') demo_trial))"
    by (simp add: demo_trial_state)
  moreover have "phase (mask_step 20 (Confirm (Some True) 7) (res (run_steps masking_step (new_masking ''mouse'') demo_trial))) = MASKED"
    by (simp add: unless_rejected_def confirm_request_def save_policy_def demo_trial_state Let_def)
  ultimately show ?thesis by simp
qed

text \<open>C15. A trial ends in time: whatever is reacquired or fails in between, once the activation time and the trial
  time have passed since the request to mask, an unconfirmed manual mask is restored by the next round of the monitor,
  and neither a confirmation nor the quiesced readers are accepted any more.\<close>

theorem trial_ends:
  assumes run: "guarded_run masking_guard masking_step (new_masking ident) es"
    and m: "m = run_steps masking_step (new_masking ident) es"
    and act: "is_active (phase (res m))" "phase (res m) \<noteq> MASKED" "\<not> automatic (res m)"
    and now: "started m + ACTIVATION_SECONDS + TRIAL_SECONDS \<le> now" "seen m \<le> now"
  shows "phase (monitor_once due found tok recovered now (res m)) \<in> {RESTORED, RECOVERY_FAILED}
    \<and> confirm_request keep tok' now (res m) = None \<and> quiesced_request tok' now (res m) = None"
proof -
  have "masking_inv m" unfolding m using run by (rule masks.inv_run)
  then have over: "deadline (res m) \<le> now" using trial_over [OF _ act now] by (simp add: masking_inv_def)
  moreover have "confirm_request keep tok' now (res m) = None" using over by (simp add: confirm_request_def)
  ultimately show ?thesis using monitor_expires [OF act(1,2)] by (simp add: quiesced_request_def)
qed

theorem trial_ends_witness:
  "phase (monitor_once False None 9 None 130 (res (run_steps masking_step (new_masking ''mouse'') demo_trial)))
     \<in> {RESTORED, RECOVERY_FAILED}
   \<and> confirm_request (Some True) 7 130 (res (run_steps masking_step (new_masking ''mouse'') demo_trial)) = None"
  using trial_ends [OF demo_trial_guarded refl, where now = 130 and due = False and found = None and tok = 9 and
      recovered = None and keep = "Some True" and tok' = 7]
  by (simp add: demo_trial_state ACTIVATION_SECONDS_def TRIAL_SECONDS_def)

text \<open>C14. A mask that the user stopped stays off: after the stop, whether its recovery succeeds or fails and is tried
  again, no new start of the daemon (which reads the files, be they readable or not, and recovers), no login, no poll,
  no change of the hardware and no late confirmation makes the reservation active or lets it forget the stop, until
  the user masks the device or resumes.  This needs that no refresh of the interfaces waits for the lock when the
  stop is carried out.\<close>

theorem stop_sticks:
  assumes run: "guarded_run masking_guard masking_step (new_masking ident) (es @ (now, Restore ''user_restore'' recovered) # later)"
    and alone: "\<not> asked (run_steps masking_step (new_masking ident) es)"
    and no_restart: "list_all (\<lambda>te. \<not> restarts (snd te)) later"
  shows "\<not> is_active (phase (res (run_steps masking_step (new_masking ident) (es @ (now, Restore ''user_restore'' recovered) # later))))
    \<and> suspended (res (run_steps masking_step (new_masking ident) (es @ (now, Restore ''user_restore'' recovered) # later))) \<noteq> None"
proof -
  let ?m = "run_steps masking_step (new_masking ident) es"
  let ?n = "masking_step ?m (now, Restore ''user_restore'' recovered)"
  have "masking_inv ?m" using run by (intro masks.inv_run) simp
  then have "stopped (res ?n)"
    by (simp add: masking_step_def Let_def masking_inv_def trial_inv_def restore_stops FLEETING_REASONS_def CLEAN_REASONS_def
        HARDWARE_REASONS_def)
  moreover have "\<not> asked ?n" using alone by (simp add: masking_step_def ends_refresh_def Let_def)
  ultimately have "stopped (res (run_steps masking_step ?n later))" using run no_restart by (intro stopped_run) simp_all
  then show ?thesis using stopped_off by simp
qed

lemmas demo_stop_simps = save_selection_def initialize_def load_selection_def pause_reason_def restore_def CLEAN_REASONS_def HARDWARE_REASONS_def autostart_def monitor_once_def owner_disconnected_def

lemma demo_later_guarded:
  "guarded_run masking_guard masking_step (new_masking ''mouse'') (demo_kept @ (40, Restore ''user_restore'' None) # demo_later)"
  by (simp add: demo_kept_def demo_trial_def demo_later_def demo_step_simps demo_stop_simps)

theorem stop_sticks_witness:
  "phase (res (run_steps masking_step (new_masking ''mouse'') demo_kept)) = MASKED
    \<and> \<not> is_active (phase (res (run_steps masking_step (new_masking ''mouse'')
          (demo_kept @ (40, Restore ''user_restore'' None) # demo_later))))"
  using stop_sticks [OF demo_later_guarded]
  by (simp add: demo_kept_def demo_trial_def demo_later_def restarts_def save_selection_def demo_step_simps)

end
